(* ===== verification/Prelude.thy ===== *)
theory Prelude
  imports Main "HOL-Library.AList" "HOL-Library.Char_ord" "HOL-Library.List_Lexorder"
    "HOL-Library.Product_Lexorder" "HOL-Library.Multiset"
begin

text \<open>
  Shared vocabulary of the development: Python exceptions as values of \<open>exn\<close>, results as
  \<open>exn + 'a\<close> with sequencing combinators, dictionaries as insertion-ordered association lists
  (\<open>AList.update\<close> keeps the position of an existing key, as a Python \<open>dict\<close> does), and the
  priority queue that \<open>heapq\<close> provides, with its interface as the locale \<open>min_queue\<close>.
\<close>

section \<open>Exceptions and results\<close>

text \<open>\<open>NoReturn\<close> is no exception: it is the value of a loop that does not end, which nothing catches.\<close>

datatype exn =
    TypeError string
  | ValueError string
  | KeyError string
  | IndexError string
  | OverflowError string
  | AssertionError string
  | RuntimeError string
  | InvalidOperation
  | LifecycleError string
  | SimulationFailedError
  | TrustVerifierStateError
  | FeatureCatalogError string
  | FeatureStateError string
  | QueueContractError string
  | CaseContractError string
  | NoReturn

type_synonym 'a res = "exn + 'a"

named_theorems res_simps \<open>inversion of result combinators\<close>

definition bindr :: "'a res \<Rightarrow> ('a \<Rightarrow> 'b res) \<Rightarrow> 'b res" where
  "bindr m f = (case m of Inl e \<Rightarrow> Inl e | Inr x \<Rightarrow> f x)"

definition ensure :: "bool \<Rightarrow> exn \<Rightarrow> unit res" where
  "ensure b e = (if b then Inr () else Inl e)"

text \<open>A \<open>try: ... except ...: raise e\<close> block that turns every listed exception into one.\<close>

definition rethrow :: "exn \<Rightarrow> 'a res \<Rightarrow> 'a res" where
  "rethrow e m = (case m of Inl _ \<Rightarrow> Inl e | Inr x \<Rightarrow> Inr x)"

primrec mapr :: "('a \<Rightarrow> 'b res) \<Rightarrow> 'a list \<Rightarrow> 'b list res" where
  "mapr f [] = Inr []"
| "mapr f (x # xs) = bindr (f x) (\<lambda>y. bindr (mapr f xs) (\<lambda>ys. Inr (y # ys)))"

primrec foldlr :: "('s \<Rightarrow> 'a \<Rightarrow> 's res) \<Rightarrow> 's \<Rightarrow> 'a list \<Rightarrow> 's res" where
  "foldlr f s [] = Inr s"
| "foldlr f s (x # xs) = bindr (f s x) (\<lambda>s'. foldlr f s' xs)"

lemma bindr_simps [simp]: "bindr (Inl e) f = Inl e" "bindr (Inr x) f = f x"
  by (simp_all add: bindr_def)

lemma bindr_Inr [res_simps]: "bindr m f = Inr y \<longleftrightarrow> (\<exists>x. m = Inr x \<and> f x = Inr y)"
  by (cases m) auto

lemma bindr_Inl [res_simps]:
  "bindr m f = Inl e \<longleftrightarrow> m = Inl e \<or> (\<exists>x. m = Inr x \<and> f x = Inl e)"
  by (cases m) auto

lemma ensure_simps [simp]: "ensure True e = Inr ()" "ensure False e = Inl e"
  by (simp_all add: ensure_def)

lemma ensure_Inr [res_simps]: "ensure b e = Inr u \<longleftrightarrow> b"
  by (simp add: ensure_def)

lemma ensure_Inl [res_simps]: "ensure b e = Inl e' \<longleftrightarrow> \<not> b \<and> e' = e"
  by (auto simp: ensure_def)

lemma rethrow_simps [simp]: "rethrow e (Inl e') = Inl e" "rethrow e (Inr x) = Inr x"
  by (simp_all add: rethrow_def)

lemma rethrow_Inr [res_simps]: "rethrow e m = Inr x \<longleftrightarrow> m = Inr x"
  by (cases m) auto

lemma rethrow_Inl [res_simps]: "rethrow e m = Inl e' \<longleftrightarrow> e' = e \<and> (\<exists>x. m = Inl x)"
  by (cases m) auto

text \<open>Actions on a state that survives an exception, as Python objects do.\<close>

type_synonym ('s, 'a) act = "'s \<Rightarrow> 'a res \<times> 's"

definition ret :: "'a \<Rightarrow> ('s, 'a) act" where
  "ret x = (\<lambda>s. (Inr x, s))"

definition raise :: "exn \<Rightarrow> ('s, 'a) act" where
  "raise e = (\<lambda>s. (Inl e, s))"

definition liftr :: "'a res \<Rightarrow> ('s, 'a) act" where
  "liftr r = (\<lambda>s. (r, s))"

definition bindm :: "('s, 'a) act \<Rightarrow> ('a \<Rightarrow> ('s, 'b) act) \<Rightarrow> ('s, 'b) act" where
  "bindm m f = (\<lambda>s. case m s of (Inl e, s') \<Rightarrow> (Inl e, s') | (Inr x, s') \<Rightarrow> f x s')"

lemma act_simps [simp]:
  "ret x s = (Inr x, s)" "raise e s = (Inl e, s)" "liftr r s = (r, s)"
  by (simp_all add: ret_def raise_def liftr_def)

lemma bindm_simps:
  "m s = (Inl e, s') \<Longrightarrow> bindm m f s = (Inl e, s')"
  "m s = (Inr x, s') \<Longrightarrow> bindm m f s = f x s'"
  by (simp_all add: bindm_def)

lemma bindm_lift [simp]: "bindm (liftr (Inr x)) f s = f x s" "bindm (liftr (Inl e)) f s = (Inl e, s)"
  by (simp_all add: bindm_def)

lemma bindm_Inr [res_simps]:
  "bindm m f s = (Inr y, t) \<longleftrightarrow> (\<exists>x s'. m s = (Inr x, s') \<and> f x s' = (Inr y, t))"
  by (auto simp: bindm_def split: prod.splits sum.splits)

text \<open>A relation every action keeps holds from the first state of a sequence to the last.\<close>

definition keeps :: "('s \<Rightarrow> 's \<Rightarrow> bool) \<Rightarrow> ('s, 'a) act \<Rightarrow> bool" where
  "keeps R m \<longleftrightarrow> (\<forall>s. R s (snd (m s)))"

lemma keeps_bindm:
  assumes "transp R" "keeps R m" "\<And>x. keeps R (f x)"
  shows "keeps R (bindm m f)"
  unfolding keeps_def
proof
  fix s
  obtain r s' where m: "m s = (r, s')" by fastforce
  with assms(2) have "R s s'" by (auto simp: keeps_def dest: spec [of _ s])
  moreover have "R s' (snd (f x s'))" for x using assms(3) by (simp add: keeps_def)
  ultimately show "R s (snd (bindm m f s))"
    using assms(1) by (cases r) (auto simp: bindm_def m dest: transpD)
qed

lemma keeps_pure: "reflp R \<Longrightarrow> keeps R (ret x)" "reflp R \<Longrightarrow> keeps R (raise e)"
  "reflp R \<Longrightarrow> keeps R (liftr r)"
  by (simp_all add: keeps_def reflpD)

lemma mapr_total: "\<forall>x \<in> set xs. \<exists>y. f x = Inr y \<Longrightarrow> \<exists>ys. mapr f xs = Inr ys"
  by (induction xs) auto

lemma foldlr_error: "foldlr f s xs = Inl e \<Longrightarrow> \<exists>t x. f t x = Inl e"
  by (induction xs arbitrary: s) (auto simp: bindr_Inl)

lemma foldlr_append: "foldlr f s (xs @ ys) = bindr (foldlr f s xs) (\<lambda>s'. foldlr f s' ys)"
proof (induction xs arbitrary: s)
  case (Cons x xs)
  then show ?case by (cases "f s x") simp_all
qed simp

text \<open>An invariant that every successful step keeps holds after a successful loop.\<close>

lemma foldlr_invariant:
  assumes "foldlr f s xs = Inr s'" and "P s"
    and "\<And>s x t. x \<in> set xs \<Longrightarrow> P s \<Longrightarrow> f s x = Inr t \<Longrightarrow> P t"
  shows "P s'"
  using assms
proof (induction xs arbitrary: s)
  case (Cons x xs)
  from Cons.prems(1) obtain t where t: "f s x = Inr t" "foldlr f t xs = Inr s'"
    by (auto simp: res_simps)
  show ?case
  proof (rule Cons.IH [OF t(2)])
    show "P t" using Cons.prems(2,3) t(1) by auto
  qed (use Cons.prems(3) in auto)
qed simp

section \<open>Dictionaries as association lists\<close>

text \<open>
  \<open>AList.update k v d\<close> is \<open>d[k] = v\<close>, \<open>map_of d k\<close> is \<open>d.get(k)\<close>.
\<close>

lemma update_value_sum:
  fixes g :: "'k \<times> 'v \<Rightarrow> int"
  shows "(\<Sum>p \<leftarrow> AList.update k v d. g p) =
    (\<Sum>p \<leftarrow> d. g p) - (case map_of d k of None \<Rightarrow> 0 | Some w \<Rightarrow> g (k, w)) + g (k, v)"
  by (induction d) auto

lemma update_keys_distinct: "distinct (map fst d) \<Longrightarrow> distinct (map fst (AList.update k v d))"
  by (rule distinct_update)

section \<open>Blank strings\<close>

text \<open>\<open>not s.strip()\<close>\<close>

definition py_space :: "char \<Rightarrow> bool" where
  "py_space ch \<longleftrightarrow> of_char ch \<in> ({9, 10, 11, 12, 13, 28, 29, 30, 31, 32, 133, 160} :: nat set)"

definition blank :: "string \<Rightarrow> bool" where
  "blank s \<longleftrightarrow> list_all py_space s"

section \<open>The heapq interface\<close>

text \<open>
  \<open>heapq\<close> keeps a list whose first element is least. What the source uses of it is that
  \<open>heappush\<close> adds an element and \<open>heappop\<close> removes a least one; every pushed key below is
  unique or carries no other data, so the array layout behind it is not observable and a
  list sorted by the key stands for the heap.
\<close>

locale min_queue =
  fixes key :: "'a \<Rightarrow> 'k::linorder"
    and push :: "'a \<Rightarrow> 'q \<Rightarrow> 'q"
    and pop :: "'q \<Rightarrow> ('a \<times> 'q) option"
    and items :: "'q \<Rightarrow> 'a multiset"
    and wf :: "'q \<Rightarrow> bool"
  assumes push_items: "items (push x q) = add_mset x (items q)"
    and push_wf: "wf q \<Longrightarrow> wf (push x q)"
    and pop_None: "pop q = None \<longleftrightarrow> items q = {#}"
    and pop_items: "pop q = Some (x, q') \<Longrightarrow> items q = add_mset x (items q')"
    and pop_wf: "wf q \<Longrightarrow> pop q = Some (x, q') \<Longrightarrow> wf q'"
    and pop_least: "wf q \<Longrightarrow> pop q = Some (x, q') \<Longrightarrow> y \<in># items q \<Longrightarrow> key x \<le> key y"
begin

lemma pop_push: "\<exists>y q'. pop (push x q) = Some (y, q')"
  using pop_None [of "push x q"] by (cases "pop (push x q)") (auto simp: push_items)

lemma pop_size: "pop q = Some (x, q') \<Longrightarrow> size (items q) = Suc (size (items q'))"
  by (simp add: pop_items)

lemma pop_rest_later:
  "wf q \<Longrightarrow> pop q = Some (x, q') \<Longrightarrow> y \<in># items q' \<Longrightarrow> key x \<le> key y"
  by (auto intro: pop_least simp: pop_items)

end

definition heappush :: "('a \<Rightarrow> 'k::linorder) \<Rightarrow> 'a \<Rightarrow> 'a list \<Rightarrow> 'a list" where
  "heappush key x q = insort_key key x q"

fun heappop :: "'a list \<Rightarrow> ('a \<times> 'a list) option" where
  "heappop [] = None"
| "heappop (x # q) = Some (x, q)"

definition heap_sorted :: "('a \<Rightarrow> 'k::linorder) \<Rightarrow> 'a list \<Rightarrow> bool" where
  "heap_sorted key q \<longleftrightarrow> sorted (map key q)"

lemma heappop_Some [simp]: "heappop q = Some (x, q') \<longleftrightarrow> q = x # q'"
  by (cases q) auto

lemma heappop_None [simp]: "heappop q = None \<longleftrightarrow> q = []"
  by (cases q) auto

lemma heapq_min_queue: "min_queue key (heappush key) heappop mset (heap_sorted key)"
  by unfold_locales
    (auto simp: heappush_def heap_sorted_def sorted_insort_key)

section \<open>Sorting\<close>

text \<open>Lists whose keys are separated are sorted one after the other.\<close>

lemma sort_key_append_less:
  assumes "\<forall>x \<in> set xs. \<forall>y \<in> set ys. f x < f y"
  shows "sort_key f (xs @ ys) = sort_key f xs @ sort_key f ys"
proof (rule properties_for_sort_key)
  show "mset (sort_key f xs @ sort_key f ys) = mset (xs @ ys)" by simp
  show "filter (\<lambda>x. f k = f x) (sort_key f xs @ sort_key f ys) = filter (\<lambda>x. f k = f x) (xs @ ys)" for k
    by (simp add: sort_key_stable eq_commute [of "f k"])
  show "sorted (map f (sort_key f xs @ sort_key f ys))"
    using assms by (auto simp: sorted_append intro: less_imp_le)
qed

end
