(* ===== verification/PyText.thy ===== *)
theory PyText
  imports Prelude
begin

text \<open>
  Text of the Python standard library that the program's digests and identifiers are made of:
  hexadecimal and decimal numerals, \<open>json.dumps\<close> of lists of strings with
  \<open>separators=(",", ":")\<close> and \<open>ensure_ascii=True\<close>, and substring replacement. A Python string is
  a list of characters with code points below 256. The JSON encoding of a list of rows is
  injective: two different row lists never share a digest preimage.
\<close>

section \<open>Numerals\<close>

definition hexdigit :: "nat \<Rightarrow> char" where
  "hexdigit n = ''0123456789abcdef'' ! n"

definition hexval :: "char \<Rightarrow> nat option" where
  "hexval c = (let n = of_char c :: nat in
     if 48 \<le> n \<and> n \<le> 57 then Some (n - 48)
     else if 97 \<le> n \<and> n \<le> 102 then Some (n - 87)
     else if 65 \<le> n \<and> n \<le> 70 then Some (n - 55) else None)"

definition lower_hex :: "char \<Rightarrow> bool" where
  "lower_hex c \<longleftrightarrow> c \<in> set ''0123456789abcdef''"

text \<open>\<open>hexw k n\<close>: the last \<open>k\<close> hexadecimal digits of \<open>n\<close>, most significant first.\<close>

primrec hexw :: "nat \<Rightarrow> nat \<Rightarrow> string" where
  "hexw 0 n = []"
| "hexw (Suc k) n = hexw k (n div 16) @ [hexdigit (n mod 16)]"

fun nat_str :: "nat \<Rightarrow> string" where
  "nat_str n = (if n < 10 then [hexdigit n] else nat_str (n div 10) @ [hexdigit (n mod 10)])"

declare nat_str.simps [simp del]

definition int_str :: "int \<Rightarrow> string" where
  "int_str i = (if i < 0 then ''-'' @ nat_str (nat (- i)) else nat_str (nat i))"

lemma nat_less_16_cases:
  "(n::nat) < 16 \<Longrightarrow> n \<in> {15, 14, 13, 12, 11, 10, 9, 8, 7, 6, 5, 4, 3, 2, 1, 0}"
  unfolding insert_iff empty_iff by arith

lemma hexval_hexdigit [simp]: "n < 16 \<Longrightarrow> hexval (hexdigit n) = Some n"
  by (drule nat_less_16_cases) (auto simp: hexdigit_def hexval_def)

lemma lower_hex_hexdigit [simp]: "n < 16 \<Longrightarrow> lower_hex (hexdigit n)"
  by (drule nat_less_16_cases) (auto simp: hexdigit_def lower_hex_def)

lemma hexdigit_inj: "m < 16 \<Longrightarrow> n < 16 \<Longrightarrow> hexdigit m = hexdigit n \<longleftrightarrow> m = n"
  by (metis hexval_hexdigit option.inject)

lemma hexdigit_less: "m < 16 \<Longrightarrow> n < 16 \<Longrightarrow> hexdigit m < hexdigit n \<longleftrightarrow> m < n"
  by (drule nat_less_16_cases, drule nat_less_16_cases, unfold insert_iff empty_iff)
    (elim disjE; simp add: hexdigit_def less_char_def)

lemma length_hexw [simp]: "length (hexw k n) = k"
  by (induction k arbitrary: n) auto

lemma hexw_lower: "c \<in> set (hexw k n) \<Longrightarrow> lower_hex c"
  by (induction k arbitrary: n) auto

lemma hexw_inj:
  "hexw k m = hexw k n \<Longrightarrow> m < 16 ^ k \<Longrightarrow> n < 16 ^ k \<Longrightarrow> m = n"
proof (induction k arbitrary: m n)
  case (Suc k)
  then have "m div 16 = n div 16" "m mod 16 = n mod 16"
    using Suc.IH [of "m div 16" "n div 16"]
    by (auto simp: hexdigit_inj less_mult_imp_div_less mult.commute)
  then show ?case by (metis div_mult_mod_eq)
qed simp

section \<open>JSON text\<close>

definition json_char :: "char \<Rightarrow> string" where
  "json_char c = (let n = of_char c :: nat in
     if n = 92 then [CHR 0x5C, CHR 0x5C]
     else if n = 34 then [CHR 0x5C, CHR 0x22]
     else if n = 8 then [CHR 0x5C, CHR ''b'']
     else if n = 9 then [CHR 0x5C, CHR ''t'']
     else if n = 10 then [CHR 0x5C, CHR ''n'']
     else if n = 12 then [CHR 0x5C, CHR ''f'']
     else if n = 13 then [CHR 0x5C, CHR ''r'']
     else if 32 \<le> n \<and> n \<le> 126 then [c]
     else [CHR 0x5C, CHR ''u''] @ hexw 4 n)"

definition json_str :: "string \<Rightarrow> string" where
  "json_str s = [CHR 0x22] @ concat (map json_char s) @ [CHR 0x22]"

fun json_tail :: "('a \<Rightarrow> string) \<Rightarrow> 'a list \<Rightarrow> string" where
  "json_tail enc [] = '']''"
| "json_tail enc (x # xs) = '','' @ enc x @ json_tail enc xs"

fun json_list :: "('a \<Rightarrow> string) \<Rightarrow> 'a list \<Rightarrow> string" where
  "json_list enc [] = ''[]''"
| "json_list enc (x # xs) = ''['' @ enc x @ json_tail enc xs"

definition json_rows :: "string list list \<Rightarrow> string" where
  "json_rows = json_list (json_list json_str)"

text \<open>
  An encoding whose words can be read off the front of a text, and never start like the end of
  a list: lists of such words are again such an encoding.
\<close>

locale prefix_code =
  fixes enc :: "'a \<Rightarrow> string"
  assumes decode: "enc x @ r = enc y @ r' \<Longrightarrow> x = y \<and> r = r'"
    and starts: "\<exists>c w. enc x = c # w \<and> c \<noteq> CHR '']''"
begin

lemma tail_decode: "json_tail enc xs @ r = json_tail enc ys @ r' \<Longrightarrow> xs = ys \<and> r = r'"
proof (induction xs arbitrary: ys)
  case Nil
  then show ?case by (cases ys) auto
next
  case (Cons x xs)
  then obtain y ys' where ys: "ys = y # ys'"
    by (cases ys) auto
  with Cons.prems have "enc x @ (json_tail enc xs @ r) = enc y @ (json_tail enc ys' @ r')"
    by simp
  from decode [OF this] Cons.IH ys show ?case by blast
qed

lemma list_decode: "json_list enc xs @ r = json_list enc ys @ r' \<Longrightarrow> xs = ys \<and> r = r'"
proof (cases xs; cases ys)
  fix x xs' y ys'
  assume "json_list enc xs @ r = json_list enc ys @ r'" and xy: "xs = x # xs'" "ys = y # ys'"
  then have "enc x @ (json_tail enc xs' @ r) = enc y @ (json_tail enc ys' @ r')"
    by simp
  from decode [OF this] tail_decode xy show ?thesis by blast
next
  fix y ys'
  assume "json_list enc xs @ r = json_list enc ys @ r'" "xs = []" "ys = y # ys'"
  with starts [of y] show ?thesis by auto
next
  fix x xs'
  assume "json_list enc xs @ r = json_list enc ys @ r'" "xs = x # xs'" "ys = []"
  with starts [of x] show ?thesis by auto
qed simp

lemma list_starts: "\<exists>c w. json_list enc xs = c # w \<and> c \<noteq> CHR '']''"
  by (cases xs) auto

end

lemma json_char_decode:
  assumes "json_char c @ r = json_char d @ r'"
  shows "c = d \<and> r = r'"
proof -
  define m n where "m = (of_char c :: nat)" and "n = (of_char d :: nat)"
  have c: "c = char_of m" "m < 256" and d: "d = char_of n" "n < 256"
    by (simp_all add: m_def n_def)
  have hex: "hexw 4 m @ r = hexw 4 n @ r' \<Longrightarrow> m = n \<and> r = r'"
    using hexw_inj [of 4 m n] c(2) d(2) by simp
  have pr: "32 \<le> m \<Longrightarrow> m \<le> 126 \<Longrightarrow> m \<noteq> 92 \<Longrightarrow> c \<noteq> CHR 0x5C"
    "32 \<le> n \<Longrightarrow> n \<le> 126 \<Longrightarrow> n \<noteq> 92 \<Longrightarrow> d \<noteq> CHR 0x5C"
    by (auto simp: m_def n_def)
  show ?thesis
    using assms hex pr
    unfolding json_char_def Let_def m_def [symmetric] n_def [symmetric]
    by (auto simp: c(1) d(1) split: if_splits)
qed

lemma json_char_starts: "\<exists>a w. json_char c = a # w \<and> a \<noteq> CHR 0x22"
  by (auto simp: json_char_def Let_def)

lemma json_chars_decode:
  "concat (map json_char s) @ CHR 0x22 # r = concat (map json_char t) @ CHR 0x22 # r' \<Longrightarrow>
    s = t \<and> r = r'"
proof (induction s arbitrary: t)
  case Nil
  then show ?case
    using json_char_starts by (cases t) (auto, metis list.inject append_Cons)
next
  case (Cons c s)
  show ?case
  proof (cases t)
    case Nil
    with Cons.prems json_char_starts [of c] show ?thesis by auto
  next
    case (Cons d t')
    with Cons.prems have "json_char c @ (concat (map json_char s) @ CHR 0x22 # r) =
        json_char d @ (concat (map json_char t') @ CHR 0x22 # r')"
      by simp
    from json_char_decode [OF this] Cons.IH Cons show ?thesis by blast
  qed
qed

interpretation js: prefix_code json_str
  by unfold_locales (auto simp: json_str_def dest: json_chars_decode)

interpretation jrow: prefix_code "json_list json_str"
  by unfold_locales (rule js.list_decode, assumption, rule js.list_starts)

lemma json_rows_inj: "json_rows rows = json_rows rows' \<longleftrightarrow> rows = rows'"
  using jrow.list_decode [of rows "[]" rows' "[]"] by (auto simp: json_rows_def)

section \<open>Replacement and stripping\<close>

text \<open>\<open>s.replace(pat, "")\<close> for a non-empty pattern, scanning from the left.\<close>

fun str_remove :: "string \<Rightarrow> string \<Rightarrow> string" where
  "str_remove pat [] = []"
| "str_remove pat (c # s) =
     (if pat \<noteq> [] \<and> take (length pat) (c # s) = pat
      then str_remove pat (drop (length pat - 1) s) else c # str_remove pat s)"

definition strip_chars :: "(char \<Rightarrow> bool) \<Rightarrow> string \<Rightarrow> string" where
  "strip_chars P s = rev (dropWhile P (rev (dropWhile P s)))"

lemma str_remove_absent: "p \<notin> set s \<Longrightarrow> str_remove (p # pat) s = s"
  by (induction s) auto

lemma strip_chars_none: "\<forall>c \<in> set s. \<not> P c \<Longrightarrow> strip_chars P s = s"
proof -
  assume a: "\<forall>c \<in> set s. \<not> P c"
  then have "dropWhile P s = s" "dropWhile P (rev s) = rev s"
    by (auto simp: dropWhile_eq_self_iff hd_in_set) (metis a hd_in_set set_rev rev_is_Nil_conv)
  then show ?thesis by (simp add: strip_chars_def)
qed

end
