(* ===== verification/PyTime.thy ===== *)
theory PyTime
  imports Prelude PyText
begin

text \<open>
  \<open>datetime\<close> values. \<open>dt_local\<close> counts the microseconds from 0001-01-01T00:00 on the value's own
  wall clock, so the seven calendar fields are digits of it and \<open>datetime(value.year, ...)\<close> keeps
  it; a time zone other than \<open>datetime.UTC\<close> is known by what \<open>utcoffset()\<close> and \<open>tzname()\<close> answer.
  The theory holds the two UTC checks of the source and the ISO text that digests are taken of.
\<close>

section \<open>Values\<close>

datatype tz = UTC | OtherTz "int option" "string option"

record datetime =
  dt_local :: int
  dt_tz :: "tz option"
  dt_fold :: nat

fun tz_offset :: "tz \<Rightarrow> int option" where
  "tz_offset UTC = Some 0"
| "tz_offset (OtherTz off _) = off"

fun tz_name :: "tz \<Rightarrow> string option" where
  "tz_name UTC = Some ''UTC''"
| "tz_name (OtherTz _ name) = name"

definition utcoffset :: "datetime \<Rightarrow> int option" where
  "utcoffset d = (case dt_tz d of None \<Rightarrow> None | Some z \<Rightarrow> tz_offset z)"

definition tzname :: "datetime \<Rightarrow> string option" where
  "tzname d = (case dt_tz d of None \<Rightarrow> None | Some z \<Rightarrow> tz_name z)"

text \<open>The instant aware values are compared by.\<close>

definition instant :: "datetime \<Rightarrow> int" where
  "instant d = dt_local d - (case utcoffset d of None \<Rightarrow> 0 | Some off \<Rightarrow> off)"

definition utc_at :: "int \<Rightarrow> datetime" where
  "utc_at t = \<lparr>dt_local = t, dt_tz = Some UTC, dt_fold = 0\<rparr>"

section \<open>Checks\<close>

definition is_utc :: "datetime \<Rightarrow> bool" where
  "is_utc d \<longleftrightarrow> dt_tz d \<noteq> None \<and> utcoffset d = Some 0 \<and> tzname d = Some ''UTC''"

definition normalize_utc_datetime :: "datetime \<Rightarrow> string \<Rightarrow> datetime res" where
  "normalize_utc_datetime d message =
     (if \<not> is_utc d then Inl (ValueError message)
      else Inr \<lparr>dt_local = dt_local d, dt_tz = Some UTC, dt_fold = dt_fold d\<rparr>)"

definition validate_utc_timestamp :: "datetime \<Rightarrow> datetime res" where
  "validate_utc_timestamp d =
     (if dt_tz d = None \<or> utcoffset d = None
      then Inl (ValueError ''timestamp must be timezone-aware and UTC'')
      else if tzname d \<noteq> Some ''UTC''
      then Inl (ValueError ''timestamp must be timezone-aware and UTC'')
      else Inr d)"

text \<open>A value the normalization returns.\<close>

definition normal_utc :: "datetime \<Rightarrow> bool" where
  "normal_utc d \<longleftrightarrow> dt_tz d = Some UTC"

lemma normal_utc_is_utc [simp]: "normal_utc d \<Longrightarrow> is_utc d"
  by (simp add: normal_utc_def is_utc_def utcoffset_def tzname_def)

lemma normal_utc_at [simp]: "normal_utc (utc_at t)"
  by (simp add: normal_utc_def utc_at_def)

lemma normal_utc_update [simp]: "normal_utc (d\<lparr>dt_tz := Some UTC\<rparr>)"
  by (simp add: normal_utc_def)

lemma instant_utc_at [simp]: "instant (utc_at t) = t"
  by (simp add: instant_def utc_at_def utcoffset_def)

lemma instant_normal: "normal_utc d \<Longrightarrow> instant d = dt_local d"
  by (simp add: instant_def normal_utc_def utcoffset_def)

lemma normalize_utc_Inr [res_simps]:
  "normalize_utc_datetime d m = Inr d' \<longleftrightarrow> is_utc d \<and> d' = d\<lparr>dt_tz := Some UTC\<rparr>"
  by (cases d) (auto simp: normalize_utc_datetime_def)

lemma normalize_normal: "normal_utc d \<Longrightarrow> normalize_utc_datetime d m = Inr d"
  by (cases d) (auto simp: normalize_utc_Inr normal_utc_def is_utc_def utcoffset_def tzname_def)

lemma normalize_result:
  "normalize_utc_datetime d m = Inr d' \<Longrightarrow> normal_utc d' \<and> dt_local d' = dt_local d \<and> instant d' = instant d"
  by (auto simp: normalize_utc_Inr normal_utc_def instant_def utcoffset_def is_utc_def)

lemma validate_utc_normal [simp]: "normal_utc d \<Longrightarrow> validate_utc_timestamp d = Inr d"
  by (simp add: validate_utc_timestamp_def normal_utc_def utcoffset_def tzname_def)

section \<open>ISO text\<close>

text \<open>The proleptic Gregorian date of a day number (0 is 0001-01-01).\<close>

definition civil :: "int \<Rightarrow> int \<times> int \<times> int" where
  "civil n =
     (let z = n + 306;
          era = z div 146097;
          doe = z mod 146097;
          yoe = (doe - doe div 1460 + doe div 36524 - doe div 146096) div 365;
          doy = doe - (365 * yoe + yoe div 4 - yoe div 100);
          mp = (5 * doy + 2) div 153;
          m = if mp < 10 then mp + 3 else mp - 9
      in (yoe + era * 400 + (if m \<le> 2 then 1 else 0), m, doy - (153 * mp + 2) div 5 + 1))"

definition zero_pad :: "nat \<Rightarrow> int \<Rightarrow> string" where
  "zero_pad w i = (let s = int_str i in replicate (w - length s) (CHR ''0'') @ s)"

text \<open>\<open>isoformat()\<close> of a UTC value, without the offset.\<close>

definition iso_local :: "int \<Rightarrow> string" where
  "iso_local t =
     (let (y, m, d) = civil (t div 86400000000);
          s = t mod 86400000000 div 1000000;
          us = t mod 1000000
      in zero_pad 4 y @ ''-'' @ zero_pad 2 m @ ''-'' @ zero_pad 2 d @ ''T'' @
         zero_pad 2 (s div 3600) @ '':'' @ zero_pad 2 (s div 60 mod 60) @ '':'' @
         zero_pad 2 (s mod 60) @ (if us = 0 then [] else ''.'' @ zero_pad 6 us))"

definition isoformat :: "datetime \<Rightarrow> string" where
  "isoformat d = iso_local (dt_local d) @ ''+00:00''"

end
