(* ===== verification/PyDecimal.thy ===== *)
theory PyDecimal
  imports Prelude
begin

text \<open>
  Python's \<open>decimal.Decimal\<close> as the program uses it: finite values as sign, coefficient and
  exponent, so that \<open>as_tuple()\<close> is the value itself, and the default context (precision 28,
  \<open>ROUND_HALF_EVEN\<close>). \<open>quantize\<close> raises \<open>InvalidOperation\<close> when the result needs more than 28
  digits; addition rounds to 28 digits. Exponents in the program stay far from the
  context's \<open>Emin\<close> and \<open>Emax\<close>, which are not modelled.
\<close>

datatype pydec = Dec bool nat int | DInf bool | DNaN

fun dfinite :: "pydec \<Rightarrow> bool" where
  "dfinite (Dec _ _ _) = True"
| "dfinite _ = False"

text \<open>The signed coefficient and the exponent; both are used on finite values only.\<close>

fun dsig :: "pydec \<Rightarrow> int" where
  "dsig (Dec s c e) = (if s then - int c else int c)"
| "dsig _ = 0"

fun dexp :: "pydec \<Rightarrow> int" where
  "dexp (Dec s c e) = e"
| "dexp _ = 0"

text \<open>The value in units of \<open>10 ^ e\<close>, exact when \<open>e \<le> dexp d\<close>.\<close>

definition units :: "int \<Rightarrow> pydec \<Rightarrow> int" where
  "units e d = dsig d * 10 ^ nat (dexp d - e)"

text \<open>Comparison of finite values aligns them to the smaller exponent.\<close>

definition dec_less :: "pydec \<Rightarrow> pydec \<Rightarrow> bool" where
  "dec_less a b = (let e = min (dexp a) (dexp b) in units e a < units e b)"

definition dec_le :: "pydec \<Rightarrow> pydec \<Rightarrow> bool" where
  "dec_le a b = (let e = min (dexp a) (dexp b) in units e a \<le> units e b)"

definition dec_eq :: "pydec \<Rightarrow> pydec \<Rightarrow> bool" where
  "dec_eq a b = (let e = min (dexp a) (dexp b) in units e a = units e b)"

definition dec_zero :: pydec where
  "dec_zero = Dec False 0 0"

definition dec_limit :: nat where
  "dec_limit = 10 ^ 28"

definition round_half_even :: "nat \<Rightarrow> nat \<Rightarrow> nat" where
  "round_half_even n d =
     (let q = n div d; r = n mod d
      in if 2 * r < d then q else if d < 2 * r then Suc q
         else if even q then q else Suc q)"

fun rescale :: "int \<Rightarrow> pydec \<Rightarrow> pydec" where
  "rescale e (Dec s c x) =
     (if e \<le> x then Dec s (c * 10 ^ nat (x - e)) e
      else Dec s (round_half_even c (10 ^ nat (e - x))) e)"
| "rescale e d = d"

text \<open>\<open>d.quantize(Decimal(1).scaleb(e), rounding=ROUND_HALF_EVEN)\<close>\<close>

fun quantize :: "pydec \<Rightarrow> int \<Rightarrow> pydec res" where
  "quantize (Dec s c x) e =
     (case rescale e (Dec s c x) of
        Dec s' c' e' \<Rightarrow> if c' < dec_limit then Inr (Dec s' c' e') else Inl InvalidOperation
      | d \<Rightarrow> Inr d)"
| "quantize (DInf s) e = Inl InvalidOperation"
| "quantize DNaN e = Inr DNaN"

fun num_digits :: "nat \<Rightarrow> nat" where
  "num_digits n = (if n < 10 then 1 else Suc (num_digits (n div 10)))"

declare num_digits.simps [simp del]

text \<open>The context's rounding of a result (\<open>_fix\<close>).\<close>

fun dec_fix :: "pydec \<Rightarrow> pydec" where
  "dec_fix (Dec s c e) =
     (if c < dec_limit then Dec s c e
      else let k = num_digits c - 28; c' = round_half_even c (10 ^ k)
           in if c' < dec_limit then Dec s c' (e + int k)
              else Dec s (c' div 10) (e + int k + 1))"
| "dec_fix d = d"

fun dec_add :: "pydec \<Rightarrow> pydec \<Rightarrow> pydec" where
  "dec_add (Dec s c x) (Dec s' c' x') =
     (let e = min x x'; v = units e (Dec s c x) + units e (Dec s' c' x')
      in dec_fix (Dec (if v = 0 then s \<and> s' else v < 0) (nat \<bar>v\<bar>) e))"
| "dec_add _ _ = DNaN"

fun dec_neg :: "pydec \<Rightarrow> pydec" where
  "dec_neg (Dec s c e) = Dec (\<not> s) c e"
| "dec_neg (DInf s) = DInf (\<not> s)"
| "dec_neg DNaN = DNaN"

definition dec_sub :: "pydec \<Rightarrow> pydec \<Rightarrow> pydec" where
  "dec_sub a b = dec_add a (dec_neg b)"

text \<open>\<open>sum(xs, Decimal(0))\<close>\<close>

definition dec_sum :: "pydec list \<Rightarrow> pydec" where
  "dec_sum xs = foldl dec_add dec_zero xs"

section \<open>Rounding\<close>

lemma round_half_even_exact: "0 < d \<Longrightarrow> round_half_even (q * d) d = q"
  by (simp add: round_half_even_def Let_def)

lemma round_half_even_1: "round_half_even n 1 = n"
  by (simp add: round_half_even_def Let_def)

lemma round_half_even_bounds:
  assumes "0 < d"
  shows "2 * (round_half_even n d * d) \<le> 2 * n + d" and "2 * n \<le> 2 * (round_half_even n d * d) + d"
proof -
  define q r where "q = n div d" and "r = n mod d"
  have n: "n = q * d + r" and r: "r < d"
    using assms by (simp_all add: q_def r_def)
  have "round_half_even n d = q \<and> 2 * r \<le> d \<or> round_half_even n d = Suc q \<and> d \<le> 2 * r"
    unfolding round_half_even_def Let_def q_def [symmetric] r_def [symmetric]
    by (cases "2 * r < d"; cases "d < 2 * r"; cases "even q") auto
  then show "2 * (round_half_even n d * d) \<le> 2 * n + d"
    and "2 * n \<le> 2 * (round_half_even n d * d) + d"
    using n r by auto
qed

lemma quantize_Inr:
  assumes "quantize d e = Inr q" "dfinite d"
  shows "\<exists>s c. q = Dec s c e \<and> c < dec_limit"
  using assms by (cases d) (auto split: if_splits)

lemma quantize_finite: "quantize d e = Inr q \<Longrightarrow> dfinite d \<Longrightarrow> dfinite q \<and> dexp q = e"
  by (drule (1) quantize_Inr) auto

lemma quantize_idem: "quantize d e = Inr q \<Longrightarrow> dfinite d \<Longrightarrow> quantize q e = Inr q"
  by (frule (1) quantize_Inr) auto

lemma quantize_nonneg:
  assumes "quantize d e = Inr q" "dfinite d" "0 \<le> dsig d"
  shows "0 \<le> dsig q"
proof (cases d)
  case (Dec s c x)
  with assms show ?thesis
    by (cases s) (auto split: if_splits simp: round_half_even_def Let_def)
qed (use assms in auto)

lemma quantize_limit: "quantize d e = Inr q \<Longrightarrow> dfinite d \<Longrightarrow> \<bar>dsig q\<bar> < int dec_limit"
  by (drule (1) quantize_Inr) auto

section \<open>Exact addition below the precision\<close>

lemma units_same: "units (dexp d) d = dsig d"
  by (simp add: units_def)

lemma units_zero [simp]: "units e dec_zero = 0"
  by (simp add: units_def dec_zero_def)

lemma units_mult:
  assumes "e \<le> e'" "e' \<le> dexp d"
  shows "units e d = units e' d * 10 ^ nat (e' - e)"
proof -
  have "nat (dexp d - e) = nat (dexp d - e') + nat (e' - e)"
    using assms by simp
  then show ?thesis
    by (simp add: units_def power_add)
qed

lemma dec_add_exact:
  assumes a: "dfinite a" "e \<le> dexp a" and b: "dfinite b" "e \<le> dexp b"
    and small: "\<bar>units e a + units e b\<bar> < int dec_limit"
  shows "dfinite (dec_add a b) \<and> e \<le> dexp (dec_add a b) \<and>
    units e (dec_add a b) = units e a + units e b"
proof -
  obtain s c x where da: "a = Dec s c x" using a by (cases a) auto
  obtain s' c' x' where db: "b = Dec s' c' x'" using b by (cases b) auto
  define m where "m = min x x'"
  define v where "v = units m a + units m b"
  have em: "e \<le> m" "m \<le> dexp a" "m \<le> dexp b"
    using a b by (auto simp: m_def da db)
  have v: "units e a + units e b = v * 10 ^ nat (m - e)"
    using units_mult [OF em(1,2)] units_mult [OF em(1,3)]
    by (simp add: v_def algebra_simps)
  have "\<bar>v\<bar> * 1 \<le> \<bar>v\<bar> * 10 ^ nat (m - e)"
    by (rule mult_left_mono) (simp_all add: one_le_power)
  also have "\<dots> = \<bar>units e a + units e b\<bar>"
    by (simp add: v abs_mult)
  finally have lim: "nat \<bar>v\<bar> < dec_limit"
    using small by linarith
  have "dec_add a b = Dec (if v = 0 then s \<and> s' else v < 0) (nat \<bar>v\<bar>) m"
    using lim by (simp add: da db m_def [symmetric] v_def [symmetric, unfolded da db] Let_def)
  then show ?thesis
    using em v by (auto simp: units_def)
qed

lemma dec_neg_units [simp]: "units e (dec_neg d) = - units e d"
  and dec_neg_finite [simp]: "dfinite (dec_neg d) = dfinite d"
  and dec_neg_exp [simp]: "dexp (dec_neg d) = dexp d"
  by (cases d; simp add: units_def)+

lemma dec_sub_exact:
  assumes "dfinite a" "e \<le> dexp a" "dfinite b" "e \<le> dexp b"
    and "\<bar>units e a - units e b\<bar> < int dec_limit"
  shows "dfinite (dec_sub a b) \<and> e \<le> dexp (dec_sub a b) \<and>
    units e (dec_sub a b) = units e a - units e b"
  unfolding dec_sub_def using dec_add_exact [of a e "dec_neg b"] assms by simp

text \<open>Comparisons of finite values with exponents above \<open>e\<close> are comparisons of units.\<close>

lemma units_align:
  assumes "e \<le> m" "m \<le> dexp a" "m \<le> dexp b"
  shows "units e a = units e b \<longleftrightarrow> units m a = units m b"
    and "units e a < units e b \<longleftrightarrow> units m a < units m b"
    and "units e a \<le> units e b \<longleftrightarrow> units m a \<le> units m b"
  by (simp_all add: units_mult [OF assms(1,2)] units_mult [OF assms(1,3)])

lemma dec_less_units: "e \<le> dexp a \<Longrightarrow> e \<le> dexp b \<Longrightarrow> dec_less a b \<longleftrightarrow> units e a < units e b"
  using units_align(2) [of e "min (dexp a) (dexp b)" a b] by (simp add: dec_less_def Let_def)

lemma dec_le_units: "e \<le> dexp a \<Longrightarrow> e \<le> dexp b \<Longrightarrow> dec_le a b \<longleftrightarrow> units e a \<le> units e b"
  using units_align(3) [of e "min (dexp a) (dexp b)" a b] by (simp add: dec_le_def Let_def)

lemma dec_eq_units: "e \<le> dexp a \<Longrightarrow> e \<le> dexp b \<Longrightarrow> dec_eq a b \<longleftrightarrow> units e a = units e b"
  using units_align(1) [of e "min (dexp a) (dexp b)" a b] by (simp add: dec_eq_def Let_def)

lemma units_sign: "0 \<le> units e d \<longleftrightarrow> 0 \<le> dsig d" "units e d < 0 \<longleftrightarrow> dsig d < 0"
  "0 < units e d \<longleftrightarrow> 0 < dsig d"
  unfolding units_def
  by (simp_all add: zero_le_mult_iff mult_less_0_iff zero_less_mult_iff not_le)
    (metis linorder_not_le zero_less_numeral zero_less_power)+

lemma dec_less_zero: "dec_less d dec_zero \<longleftrightarrow> dsig d < 0"
proof -
  have "dec_less d dec_zero \<longleftrightarrow> units (min (dexp d) 0) d < 0"
    by (simp add: dec_less_def Let_def dec_zero_def units_def)
  then show ?thesis by (simp add: units_sign)
qed

lemma dec_le_zero: "dec_le d dec_zero \<longleftrightarrow> dsig d \<le> 0"
proof -
  have "dec_le d dec_zero \<longleftrightarrow> units (min (dexp d) 0) d \<le> 0"
    by (simp add: dec_le_def Let_def dec_zero_def units_def)
  then show ?thesis by (metis units_sign(3) not_less)
qed

lemma dec_sum_exact:
  assumes "\<forall>d \<in> set ds. dfinite d \<and> e \<le> dexp d"
    and "(\<Sum>d \<leftarrow> ds. \<bar>units e d\<bar>) < int dec_limit" and "e \<le> 0"
  shows "dfinite (dec_sum ds) \<and> e \<le> dexp (dec_sum ds) \<and>
    units e (dec_sum ds) = (\<Sum>d \<leftarrow> ds. units e d)"
proof -
  have "dfinite (foldl dec_add z ds) \<and> e \<le> dexp (foldl dec_add z ds) \<and>
      units e (foldl dec_add z ds) = units e z + (\<Sum>d \<leftarrow> ds. units e d)"
    if "dfinite z" "e \<le> dexp z" "\<bar>units e z\<bar> + (\<Sum>d \<leftarrow> ds. \<bar>units e d\<bar>) < int dec_limit" for z
    using that assms(1)
  proof (induction ds arbitrary: z)
    case (Cons d ds)
    have nonneg: "0 \<le> (\<Sum>d \<leftarrow> ds. \<bar>units e d\<bar>)"
      by (rule sum_list_nonneg) auto
    have "dfinite (dec_add z d) \<and> e \<le> dexp (dec_add z d) \<and>
        units e (dec_add z d) = units e z + units e d"
      using Cons.prems nonneg by (intro dec_add_exact) auto
    moreover from this have "\<bar>units e (dec_add z d)\<bar> + (\<Sum>d \<leftarrow> ds. \<bar>units e d\<bar>) < int dec_limit"
      using Cons.prems(3) by (auto simp: abs_if split: if_splits)
    ultimately show ?case
      using Cons.IH [of "dec_add z d"] Cons.prems(4) by simp
  qed simp
  from this [of dec_zero] show ?thesis
    using assms by (simp add: dec_sum_def dec_zero_def units_def)
qed

section \<open>Signs\<close>

lemma dec_fix_nonneg: "0 \<le> dsig d \<Longrightarrow> 0 \<le> dsig (dec_fix d)"
  by (cases d) (auto simp: Let_def round_half_even_def split: if_splits)

lemma dec_add_nonneg: "0 \<le> dsig a \<Longrightarrow> 0 \<le> dsig b \<Longrightarrow> 0 \<le> dsig (dec_add a b)"
proof (cases a)
  case (Dec s c x)
  note da = this
  assume sig: "0 \<le> dsig a" "0 \<le> dsig b"
  show ?thesis
  proof (cases b)
    case (Dec s' c' x')
    define v where "v = units (min x x') a + units (min x x') b"
    have "dec_add a b = dec_fix (Dec (if v = 0 then s \<and> s' else v < 0) (nat \<bar>v\<bar>) (min x x'))"
      by (simp add: da Dec v_def Let_def del: dec_fix.simps)
    moreover have "0 \<le> v" using sig by (simp add: v_def units_def)
    ultimately show ?thesis by (simp add: dec_fix_nonneg del: dec_fix.simps)
  qed (simp_all add: da)
qed (simp_all)

lemma dec_fix_finite: "dfinite (dec_fix d) \<longleftrightarrow> dfinite d"
  by (cases d) (simp_all add: Let_def del: num_digits.simps)

lemma dec_add_finite: "dfinite a \<Longrightarrow> dfinite b \<Longrightarrow> dfinite (dec_add a b)"
  by (cases a; cases b) (simp_all add: Let_def dec_fix_finite del: dec_fix.simps)

end
