(* ===== verification/PyValue.thy ===== *)
theory PyValue
  imports PyTime PyDecimal
begin

text \<open>
  Dynamic values. \<open>pyval\<close> has the built-in types the code tests for, enumeration members, instances
  of subclasses (\<open>PSub\<close>, around the built-in value they extend) and opaque objects. On them stand
  the three traversals that guard the simulator's boundaries: \<open>freeze\<close> for command payloads,
  \<open>freeze_state\<close> for entity state and \<open>finite_tree\<close> for numbers that go to JSON.
\<close>

section \<open>Values\<close>

datatype pyfloat = FFinite bool nat int | FInf bool | FNaN

fun isfinite :: "pyfloat \<Rightarrow> bool" where
  "isfinite (FFinite _ _ _) = True"
| "isfinite _ = False"

datatype map_kind = PyDict | PyMappingProxy | PyOtherMapping

datatype pyval =
    PNone
  | PBool bool
  | PInt int
  | PFloat pyfloat
  | PStr string
  | PBytes string
  | PDec pydec
  | PDt datetime
  | PMap map_kind "(pyval \<times> pyval) list"
  | PList "pyval list"
  | PTuple "pyval list"
  | PSet "pyval list"
  | PEnum bool pyval
  | PSub string pyval
  | PObj string

text \<open>\<open>PEnum True\<close> is a member of a \<open>StrEnum\<close>. The name \<open>type(value).__name__\<close> prints.\<close>

fun type_name :: "pyval \<Rightarrow> string" where
  "type_name PNone = ''NoneType''"
| "type_name (PBool _) = ''bool''"
| "type_name (PInt _) = ''int''"
| "type_name (PFloat _) = ''float''"
| "type_name (PStr _) = ''str''"
| "type_name (PBytes _) = ''bytes''"
| "type_name (PDec _) = ''Decimal''"
| "type_name (PDt _) = ''datetime''"
| "type_name (PMap PyDict _) = ''dict''"
| "type_name (PMap PyMappingProxy _) = ''mappingproxy''"
| "type_name (PMap PyOtherMapping _) = ''Mapping''"
| "type_name (PList _) = ''list''"
| "type_name (PTuple _) = ''tuple''"
| "type_name (PSet _) = ''set''"
| "type_name (PEnum _ _) = ''Enum''"
| "type_name (PSub n _) = n"
| "type_name (PObj n) = n"

lemma mapr_cong [fundef_cong]:
  "xs = ys \<Longrightarrow> (\<And>x. x \<in> set ys \<Longrightarrow> f x = g x) \<Longrightarrow> mapr f xs = mapr g ys"
  by (induction ys arbitrary: xs) auto

lemma mapr_Inr: "mapr f xs = Inr ys \<longleftrightarrow> list_all2 (\<lambda>x y. f x = Inr y) xs ys"
  by (induction xs arbitrary: ys) (auto simp: res_simps list_all2_Cons1)

definition dict_of :: "('k \<times> 'v) list \<Rightarrow> ('k \<times> 'v) list" where
  "dict_of kvs = foldl (\<lambda>d (k, v). AList.update k v d) [] kvs"

section \<open>Command payloads\<close>

fun freeze_key :: "pyval \<Rightarrow> string res" where
  "freeze_key (PStr s) = Inr s"
| "freeze_key (PEnum True (PStr s)) = Inr s"
| "freeze_key _ =
     Inl (TypeError ''command payload mapping keys must be exact strings or StrEnum'')"

fun freeze :: "pyval \<Rightarrow> pyval res" where
  "freeze (PEnum _ v) = freeze v"
| "freeze (PDt d) = bindr (normalize_utc_datetime d ''command payload datetime must be UTC'')
     (\<lambda>d'. Inr (PDt d'))"
| "freeze (PMap _ kvs) =
     bindr (mapr (\<lambda>(k, v). bindr (freeze v) (\<lambda>w. bindr (freeze_key k) (\<lambda>s. Inr (PStr s, w)))) kvs)
       (\<lambda>items. Inr (PMap PyMappingProxy (dict_of items)))"
| "freeze (PList xs) = bindr (mapr freeze xs) (\<lambda>ys. Inr (PTuple ys))"
| "freeze (PTuple xs) = bindr (mapr freeze xs) (\<lambda>ys. Inr (PTuple ys))"
| "freeze (PSet _) = Inl (TypeError ''command payload contains unordered container'')"
| "freeze (PSub n (PMap k kvs)) = freeze (PMap k kvs)"
| "freeze (PSub n (PList xs)) = freeze (PList xs)"
| "freeze (PSub n (PTuple xs)) = freeze (PTuple xs)"
| "freeze (PSub n (PSet _)) = Inl (TypeError ''command payload contains unordered container'')"
| "freeze (PSub n _) = Inl (TypeError (''unsupported command payload value: '' @ n))"
| "freeze (PObj n) = Inl (TypeError (''unsupported command payload value: '' @ n))"
| "freeze v = Inr v"

section \<open>Entity state\<close>

fun str_key :: "string \<Rightarrow> pyval \<Rightarrow> pyval res" where
  "str_key msg (PStr s) = Inr (PStr s)"
| "str_key msg _ = Inl (TypeError msg)"

fun freeze_state :: "pyval \<Rightarrow> pyval res" where
  "freeze_state (PEnum _ v) = freeze_state v"
| "freeze_state PNone = Inr PNone"
| "freeze_state (PBool b) = Inr (PBool b)"
| "freeze_state (PInt i) = Inr (PInt i)"
| "freeze_state (PFloat x) = (if isfinite x then Inr (PFloat x)
     else Inl (ValueError ''entity state numbers must be finite''))"
| "freeze_state (PStr s) = Inr (PStr s)"
| "freeze_state (PBytes s) = Inr (PBytes s)"
| "freeze_state (PDec x) = (if dfinite x then Inr (PDec x)
     else Inl (ValueError ''entity state numbers must be finite''))"
| "freeze_state (PDt d) =
     bindr (normalize_utc_datetime d ''entity state datetime must be a UTC timestamp'')
       (\<lambda>d'. Inr (PDt d'))"
| "freeze_state (PMap k kvs) =
     (if k = PyOtherMapping then Inl (TypeError (''unsupported entity state: '' @ type_name (PMap k kvs)))
      else bindr (mapr (\<lambda>(k, v). bindr (str_key ''entity state mapping keys must be exact strings'' k)
             (\<lambda>s. bindr (freeze_state v) (\<lambda>w. Inr (s, w)))) kvs)
           (\<lambda>items. Inr (PMap PyMappingProxy items)))"
| "freeze_state (PList xs) = bindr (mapr freeze_state xs) (\<lambda>ys. Inr (PTuple ys))"
| "freeze_state (PTuple xs) = bindr (mapr freeze_state xs) (\<lambda>ys. Inr (PTuple ys))"
| "freeze_state v = Inl (TypeError (''unsupported entity state: '' @ type_name v))"

section \<open>Finite numbers\<close>

fun num_subclass :: "pyval \<Rightarrow> bool" where
  "num_subclass (PInt _) = True"
| "num_subclass (PFloat _) = True"
| "num_subclass (PDec _) = True"
| "num_subclass _ = False"

fun finite_tree :: "string \<Rightarrow> pyval \<Rightarrow> unit res" where
  "finite_tree l (PEnum _ v) = finite_tree l v"
| "finite_tree l (PFloat x) = ensure (isfinite x) (ValueError (l @ '' contains non-finite number''))"
| "finite_tree l (PDec x) = ensure (dfinite x) (ValueError (l @ '' contains non-finite number''))"
| "finite_tree l (PMap _ kvs) =
     bindr (mapr (\<lambda>(k, v). bindr (finite_tree l k) (\<lambda>_. finite_tree l v)) kvs) (\<lambda>_. Inr ())"
| "finite_tree l (PSet _) = Inl (TypeError (l @ '' contains unordered container''))"
| "finite_tree l (PList xs) = bindr (mapr (finite_tree l) xs) (\<lambda>_. Inr ())"
| "finite_tree l (PTuple xs) = bindr (mapr (finite_tree l) xs) (\<lambda>_. Inr ())"
| "finite_tree l (PSub n v) =
     (if num_subclass v then Inl (TypeError (l @ '' contains unsupported numeric subclass''))
      else finite_tree l v)"
| "finite_tree l _ = Inr ()"

section \<open>What the traversals return\<close>

lemma mapr_fixed: "(\<And>x. x \<in> set xs \<Longrightarrow> f x = Inr x) \<Longrightarrow> mapr f xs = Inr xs"
  by (induction xs) auto

lemma mapr_set: "mapr f xs = Inr ys \<Longrightarrow> y \<in> set ys \<Longrightarrow> \<exists>x \<in> set xs. f x = Inr y"
  by (induction xs arbitrary: ys) (auto simp: res_simps)

lemma mapr_list_all:
  assumes "mapr f xs = Inr ys" and "\<And>x y. x \<in> set xs \<Longrightarrow> f x = Inr y \<Longrightarrow> P y"
  shows "list_all P ys"
  using assms by (auto simp: list_all_iff dest!: mapr_set)

lemma mapr_fail: "mapr f xs = Inl e \<Longrightarrow> \<exists>x \<in> set xs. f x = Inl e"
  by (induction xs) (auto simp: res_simps)

lemma mapr_all: "mapr f xs = Inr ys \<Longrightarrow> x \<in> set xs \<Longrightarrow> \<exists>y \<in> set ys. f x = Inr y"
  by (induction xs arbitrary: ys) (auto simp: res_simps)

lemma length_mapr: "mapr f xs = Inr ys \<Longrightarrow> length ys = length xs"
  by (auto simp: mapr_Inr dest: list_all2_lengthD)

text \<open>The closed algebra of entity state: exact built-in values, finite numbers, UTC times, and
  containers that cannot be changed in place.\<close>

fun frozen_state :: "pyval \<Rightarrow> bool" where
  "frozen_state (PFloat x) = isfinite x"
| "frozen_state (PDec x) = dfinite x"
| "frozen_state (PDt d) = normal_utc d"
| "frozen_state (PMap k kvs) =
     (k = PyMappingProxy \<and> list_all (\<lambda>(k, v). (\<exists>s. k = PStr s) \<and> frozen_state v) kvs)"
| "frozen_state (PTuple xs) = list_all frozen_state xs"
| "frozen_state (PList _) = False"
| "frozen_state (PSet _) = False"
| "frozen_state (PEnum _ _) = False"
| "frozen_state (PSub _ _) = False"
| "frozen_state (PObj _) = False"
| "frozen_state _ = True"

lemma str_key_Inr [res_simps]: "str_key m k = Inr s \<longleftrightarrow> (\<exists>t. k = PStr t \<and> s = k)"
  by (cases k) auto

lemma freeze_state_closed: "freeze_state v = Inr w \<Longrightarrow> frozen_state w"
proof (induction v arbitrary: w rule: freeze_state.induct)
  case (10 k kvs)
  then obtain items where w: "w = PMap PyMappingProxy items"
    and items: "mapr (\<lambda>(k, v). bindr (str_key ''entity state mapping keys must be exact strings'' k)
      (\<lambda>s. bindr (freeze_state v) (\<lambda>w. Inr (s, w)))) kvs = Inr items"
    by (auto simp: res_simps split: if_splits)
  have "(\<exists>s. fst p = PStr s) \<and> frozen_state (snd p)" if "p \<in> set items" for p
    using mapr_set [OF items that] 10 by (auto simp: res_simps split: if_splits)
  then show ?case by (auto simp: w list_all_iff)
next
  case (11 xs)
  then show ?case by (auto simp: res_simps elim!: mapr_list_all)
next
  case (12 xs)
  then show ?case by (auto simp: res_simps elim!: mapr_list_all)
qed (auto simp: res_simps split: if_splits)

lemma freeze_state_fixed: "frozen_state v \<Longrightarrow> freeze_state v = Inr v"
proof (induction v rule: frozen_state.induct)
  case (4 k kvs)
  have "mapr (\<lambda>(k, v). bindr (str_key ''entity state mapping keys must be exact strings'' k)
      (\<lambda>s. bindr (freeze_state v) (\<lambda>w. Inr (s, w)))) kvs = Inr kvs"
    by (rule mapr_fixed) (use 4 in \<open>auto simp: list_all_iff\<close>)
  with 4 show ?case by simp
next
  case (5 xs)
  have "mapr freeze_state xs = Inr xs"
    by (rule mapr_fixed) (use 5 in \<open>auto simp: list_all_iff\<close>)
  then show ?case by simp
qed (auto simp: normalize_normal)

text \<open>The algebra of command payloads: the same containers and times, with distinct keys; a float
  or decimal may be any value.\<close>

fun frozen_payload :: "pyval \<Rightarrow> bool" where
  "frozen_payload (PDt d) = normal_utc d"
| "frozen_payload (PMap k kvs) =
     (k = PyMappingProxy \<and> distinct (map fst kvs) \<and>
      list_all (\<lambda>(k, v). (\<exists>s. k = PStr s) \<and> frozen_payload v) kvs)"
| "frozen_payload (PTuple xs) = list_all frozen_payload xs"
| "frozen_payload (PList _) = False"
| "frozen_payload (PSet _) = False"
| "frozen_payload (PEnum _ _) = False"
| "frozen_payload (PSub _ _) = False"
| "frozen_payload (PObj _) = False"
| "frozen_payload _ = True"

lemma dict_of_Nil [simp]: "dict_of [] = []"
  by (simp add: dict_of_def)

lemma dict_of_snoc: "dict_of (xs @ [p]) = AList.update (fst p) (snd p) (dict_of xs)"
  by (simp add: dict_of_def case_prod_beta)

lemma update_fresh: "k \<notin> fst ` set d \<Longrightarrow> AList.update k v d = d @ [(k, v)]"
  by (induction d) auto

lemma dict_of_keys: "fst ` set (dict_of xs) = fst ` set xs"
  by (induction xs rule: rev_induct) (simp_all add: dict_of_snoc dom_update)

lemma dict_of_distinct: "distinct (map fst (dict_of xs))"
  by (induction xs rule: rev_induct) (simp_all add: dict_of_snoc update_keys_distinct)

lemma set_update: "set (AList.update k v d) \<subseteq> insert (k, v) (set d)"
  by (induction d) auto

lemma dict_of_subset: "set (dict_of xs) \<subseteq> set xs"
proof (induction xs rule: rev_induct)
  case (snoc p xs)
  then show ?case using set_update [of "fst p" "snd p" "dict_of xs"] by (auto simp: dict_of_snoc)
qed simp

lemma dict_of_distinct_keys: "distinct (map fst xs) \<Longrightarrow> dict_of xs = xs"
  by (induction xs rule: rev_induct) (auto simp: dict_of_snoc update_fresh)

lemma freeze_closed: "freeze v = Inr w \<Longrightarrow> frozen_payload w"
proof (induction v arbitrary: w rule: freeze.induct)
  case (3 k kvs)
  then obtain items where w: "w = PMap PyMappingProxy (dict_of items)"
    and items: "mapr (\<lambda>(k, v). bindr (freeze v) (\<lambda>w. bindr (freeze_key k) (\<lambda>s. Inr (PStr s, w)))) kvs
      = Inr items"
    by (auto simp: res_simps)
  have "(\<exists>s. fst p = PStr s) \<and> frozen_payload (snd p)" if "p \<in> set items" for p
    using mapr_set [OF items that] 3 by (auto simp: res_simps)
  then show ?case using dict_of_subset [of items] by (auto simp: w list_all_iff dict_of_distinct)
next
  case (4 xs)
  then show ?case by (auto simp: res_simps elim!: mapr_list_all)
next
  case (5 xs)
  then show ?case by (auto simp: res_simps elim!: mapr_list_all)
qed (auto simp: res_simps)

lemma freeze_fixed: "frozen_payload v \<Longrightarrow> freeze v = Inr v"
proof (induction v rule: frozen_payload.induct)
  case (2 k kvs)
  have "mapr (\<lambda>(k, v). bindr (freeze v) (\<lambda>w. bindr (freeze_key k) (\<lambda>s. Inr (PStr s, w)))) kvs = Inr kvs"
    by (rule mapr_fixed) (use 2 in \<open>auto simp: list_all_iff\<close>)
  with 2 show ?case by (simp add: dict_of_distinct_keys)
next
  case (3 xs)
  have "mapr freeze xs = Inr xs"
    by (rule mapr_fixed) (use 3 in \<open>auto simp: list_all_iff\<close>)
  then show ?case by simp
qed (auto simp: normalize_normal)

end
