(* ===== verification/PyUuid.thy ===== *)
theory PyUuid
  imports PyText "HOL-Library.Word"
begin

unbundle bit_operations_syntax

text \<open>
  \<open>uuid.UUID\<close>: parsing a text (with the prefixes, braces and hyphens \<open>UUID(...)\<close> accepts, and
  \<open>int(hex, 16)\<close> behind it), printing, version and byte fields of the 128-bit value. Canonical
  texts round-trip and sort as their numbers do, which the engine's event order rests on.
\<close>

section \<open>Parsing and printing\<close>

fun hex_run :: "bool \<Rightarrow> nat \<Rightarrow> string \<Rightarrow> nat option" where
  "hex_run digit acc [] = (if digit then Some acc else None)"
| "hex_run digit acc (c # s) =
     (if c = CHR ''_'' then (if digit then hex_run False acc s else None)
      else case hexval c of None \<Rightarrow> None | Some v \<Rightarrow> hex_run True (16 * acc + v) s)"

text \<open>\<open>int(s, 16)\<close>\<close>

definition hex_body :: "string \<Rightarrow> nat option" where
  "hex_body s =
     (if take 2 s = ''0x'' \<or> take 2 s = ''0X''
      then (if drop 2 s = [] then None else hex_run True 0 (drop 2 s))
      else hex_run False 0 s)"

definition py_int16 :: "string \<Rightarrow> int option" where
  "py_int16 s = (case strip_chars py_space s of
       [] \<Rightarrow> None
     | c # r \<Rightarrow> if c = CHR ''-'' then map_option (\<lambda>n. - int n) (hex_body r)
                else if c = CHR ''+'' then map_option int (hex_body r)
                else map_option int (hex_body (c # r)))"

definition uuid_of_text :: "string \<Rightarrow> nat option" where
  "uuid_of_text t =
     (let h = str_remove ''uuid:'' (str_remove ''urn:'' t);
          h = filter (\<lambda>c. c \<noteq> CHR ''-'')
                (strip_chars (\<lambda>c. c = CHR 0x7B \<or> c = CHR 0x7D) h)
      in if length h \<noteq> 32 then None
         else case py_int16 h of
             None \<Rightarrow> None
           | Some i \<Rightarrow> if 0 \<le> i \<and> i < 2 ^ 128 then Some (nat i) else None)"

definition uuid_dashes :: "string \<Rightarrow> string" where
  "uuid_dashes h = take 8 h @ ''-'' @ take 4 (drop 8 h) @ ''-'' @ take 4 (drop 12 h) @ ''-'' @
     take 4 (drop 16 h) @ ''-'' @ drop 20 h"

text \<open>\<open>str(UUID(int=n))\<close>\<close>

definition uuid_text :: "nat \<Rightarrow> string" where
  "uuid_text n = uuid_dashes (hexw 32 n)"

definition uuid_version :: "nat \<Rightarrow> nat option" where
  "uuid_version n = (if n div 2 ^ 62 mod 4 = 2 then Some (n div 2 ^ 76 mod 16) else None)"

text \<open>\<open>bytes[:10]\<close> and \<open>int.from_bytes(bytes[10:], "big")\<close> of a 16-byte value.\<close>

definition uuid_prefix :: "nat \<Rightarrow> nat" where
  "uuid_prefix n = n div 2 ^ 48"

definition uuid_sequence :: "nat \<Rightarrow> nat" where
  "uuid_sequence n = n mod 2 ^ 48"

section \<open>Round trip\<close>

lemma lower_hex_plain:
  assumes "lower_hex c"
  shows "c \<noteq> CHR ''-''" "c \<noteq> CHR ''_''" "c \<noteq> CHR ''x''" "c \<noteq> CHR ''X''" "c \<noteq> CHR ''u''"
    "c \<noteq> CHR 0x7B" "c \<noteq> CHR 0x7D" "c \<noteq> CHR ''+''" "\<not> py_space c"
  using assms by (auto simp: lower_hex_def py_space_def)

lemma hex_run_append:
  "s \<noteq> [] \<Longrightarrow> list_all lower_hex s \<Longrightarrow> hex_run d acc (s @ t) =
    (case hex_run d acc s of None \<Rightarrow> None | Some a \<Rightarrow> hex_run True a t)"
proof (induction s arbitrary: d acc)
  case (Cons c s)
  then show ?case
    by (cases "s = []") (auto simp: lower_hex_plain split: option.splits)
qed simp

lemma hexw_list_all [simp]: "list_all lower_hex (hexw k n)"
  by (auto simp: list_all_iff dest: hexw_lower)

lemma hexdigit_not_underscore: "n < 16 \<Longrightarrow> hexdigit n \<noteq> CHR ''_''"
  using lower_hex_plain(2) lower_hex_hexdigit by blast

lemma hex_run_hexw: "0 < k \<Longrightarrow> hex_run d 0 (hexw k n) = Some (n mod 16 ^ k)"
proof (induction k arbitrary: n)
  case (Suc k)
  show ?case
  proof (cases "k = 0")
    case True
    then show ?thesis by (simp add: hexdigit_not_underscore)
  next
    case False
    then have ne: "hexw k (n div 16) \<noteq> []"
      by (metis length_hexw list.size(3))
    from False Suc.IH [of "n div 16"]
    have "hex_run d 0 (hexw (Suc k) n) = Some (16 * (n div 16 mod 16 ^ k) + n mod 16)"
      by (simp add: hex_run_append [OF ne] hexdigit_not_underscore)
    then show ?thesis
      by (simp add: mod_mult2_eq [of n 16 "16 ^ k"] mult.commute)
  qed
qed simp

lemma uuid_groups:
  "s = take 8 s @ take 4 (drop 8 s) @ take 4 (drop 12 s) @ take 4 (drop 16 s) @ drop 20 s"
proof -
  have "take 4 (drop n s) @ drop (n + 4) s = drop n s" for n
    by (metis append_take_drop_id drop_drop add.commute)
  from this [of 16] this [of 12] this [of 8]
  have "take 4 (drop 8 s) @ take 4 (drop 12 s) @ take 4 (drop 16 s) @ drop 20 s = drop 8 s"
    by simp
  then show ?thesis by simp
qed

lemma uuid_dashes_filter:
  "length h = 32 \<Longrightarrow> list_all lower_hex h \<Longrightarrow> filter (\<lambda>c. c \<noteq> CHR ''-'') (uuid_dashes h) = h"
proof -
  assume len: "length h = 32" and hex: "list_all lower_hex h"
  have f: "filter (\<lambda>c. c \<noteq> CHR ''-'') s = s" if "set s \<subseteq> set h" for s
    using hex that lower_hex_plain(1) by (fastforce simp: list_all_iff filter_id_conv)
  have "filter (\<lambda>c. c \<noteq> CHR ''-'') (uuid_dashes h) =
      take 8 h @ take 4 (drop 8 h) @ take 4 (drop 12 h) @ take 4 (drop 16 h) @ drop 20 h"
    unfolding uuid_dashes_def
    by (auto simp: f set_take_subset set_drop_subset subset_trans [OF set_take_subset set_drop_subset])
  then show ?thesis by (simp only: uuid_groups [of h, symmetric])
qed

lemma uuid_dashes_set:
  "set (uuid_dashes h) \<subseteq> insert (CHR ''-'') (set h)"
  unfolding uuid_dashes_def by (auto dest: in_set_takeD in_set_dropD)

theorem uuid_roundtrip:
  assumes "n < 2 ^ 128"
  shows "uuid_of_text (uuid_text n) = Some n"
proof -
  let ?h = "hexw 32 n"
  have plain: "c = CHR ''-'' \<or> lower_hex c" if "c \<in> set (uuid_text n)" for c
    using that uuid_dashes_set [of ?h] by (auto simp: uuid_text_def dest: hexw_lower)
  then have u: "CHR ''u'' \<notin> set (uuid_text n)"
    and br: "\<forall>c \<in> set (uuid_text n). \<not> (c = CHR 0x7B \<or> c = CHR 0x7D)"
    using lower_hex_plain by fastforce+
  have filt: "filter (\<lambda>c. c \<noteq> CHR ''-'') (uuid_text n) = ?h"
    by (simp add: uuid_text_def uuid_dashes_filter)
  have strip: "strip_chars py_space ?h = ?h"
    by (rule strip_chars_none) (auto dest: hexw_lower lower_hex_plain)
  have ne: "length ?h = 32" by simp
  then obtain a b r where h: "?h = a # b # r"
    by (metis (no_types, lifting) length_Suc_conv numeral_eq_Suc pred_numeral_simps(2))
  have ab: "lower_hex a" "lower_hex b"
    using hexw_list_all [of 32 n] by (simp_all add: h del: hexw_list_all)
  have body: "hex_body ?h = Some (n mod 16 ^ 32)"
    using hex_run_hexw [of 32 False n] lower_hex_plain(3,4) [OF ab(2)]
    by (simp add: hex_body_def h)
  have "n mod 16 ^ 32 = n"
    using assms by simp
  with body have "py_int16 ?h = Some (int n)"
    using lower_hex_plain(1,8) [OF ab(1)] unfolding py_int16_def strip
    by (simp add: h)
  then show ?thesis
    using assms by (simp add: uuid_of_text_def str_remove_absent u strip_chars_none [OF br] filt
        Let_def)
qed

section \<open>Order\<close>

lemma list_less_append:
  fixes xs ys us vs :: "'a::linorder list"
  shows "length xs = length ys \<Longrightarrow> xs @ us < ys @ vs \<longleftrightarrow> xs < ys \<or> xs = ys \<and> us < vs"
  by (induction xs ys rule: list_induct2) auto

lemma hexw_less:
  "m < 16 ^ k \<Longrightarrow> n < 16 ^ k \<Longrightarrow> hexw k m < hexw k n \<longleftrightarrow> m < n"
proof (induction k arbitrary: m n)
  case (Suc k)
  then have d: "m div 16 < 16 ^ k" "n div 16 < 16 ^ k"
    by (auto simp: less_mult_imp_div_less mult.commute)
  have "hexw (Suc k) m < hexw (Suc k) n \<longleftrightarrow>
      m div 16 < n div 16 \<or> m div 16 = n div 16 \<and> m mod 16 < n mod 16"
    using Suc.IH [OF d] hexw_inj [of k "m div 16" "n div 16"] d
    by (auto simp: list_less_append hexdigit_less)
  also have "\<dots> \<longleftrightarrow> m < n"
  proof -
    have "16 * a + r < 16 * b + t \<longleftrightarrow> a < b \<or> a = b \<and> r < t" if "r < 16" "t < 16" for a b r t :: nat
      using that by linarith
    from this [of "m mod 16" "n mod 16" "m div 16" "n div 16"] show ?thesis by simp
  qed
  finally show ?case .
qed simp

lemma uuid_dashes_less:
  assumes "length h = 32" "length h' = 32"
  shows "uuid_dashes h < uuid_dashes h' \<longleftrightarrow> h < h'"
proof -
  have groups: "a @ x # b @ x # c @ x # d @ x # e < a' @ x # b' @ x # c' @ x # d' @ x # e' \<longleftrightarrow>
      a @ b @ c @ d @ e < a' @ b' @ c' @ d' @ e'"
    if "length a = length a'" "length b = length b'" "length c = length c'" "length d = length d'"
    for a b c d e a' b' c' d' e' :: string and x
    using that by (simp add: list_less_append)
  show ?thesis
    unfolding uuid_dashes_def append.simps
    by (subst groups) (use assms in \<open>simp_all flip: uuid_groups\<close>)
qed

lemma uuid_text_less: "m < 2 ^ 128 \<Longrightarrow> n < 2 ^ 128 \<Longrightarrow> uuid_text m < uuid_text n \<longleftrightarrow> m < n"
  using hexw_less [of m 32 n] by (simp add: uuid_text_def uuid_dashes_less)

lemma uuid_text_eq: "m < 2 ^ 128 \<Longrightarrow> n < 2 ^ 128 \<Longrightarrow> uuid_text m = uuid_text n \<longleftrightarrow> m = n"
  by (metis option.inject uuid_roundtrip)

lemma uuid_text_not_empty [simp]: "uuid_text n \<noteq> []"
  by (simp add: uuid_text_def uuid_dashes_def)

end
