(* ===== verification/Contracts.thy ===== *)
theory Contracts
  imports PyValue PyUuid
begin

text \<open>
  The external contracts (\<open>contracts/_validation.py\<close>, \<open>events.py\<close>, \<open>scenarios.py\<close>,
  \<open>decisions.py\<close>): vocabularies as datatypes, payloads as records and the field and model
  validators as checks that return the accepted value or the first error. The typing of the fields
  is that of the records; coercion and JSON belong to pydantic and are parameters where used.
\<close>

section \<open>Shared validators\<close>

fun split_on :: "char \<Rightarrow> string \<Rightarrow> string list" where
  "split_on c [] = [[]]"
| "split_on c (x # xs) =
     (if x = c then [] # split_on c xs
      else case split_on c xs of [] \<Rightarrow> [[x]] | w # ws \<Rightarrow> (x # w) # ws)"

definition digit :: "char \<Rightarrow> bool" where
  "digit c \<longleftrightarrow> (48::nat) \<le> of_char c \<and> (of_char c :: nat) \<le> 57"

text \<open>\<open>0|[1-9][0-9]*\<close>\<close>

fun semver_number :: "string \<Rightarrow> bool" where
  "semver_number [] = False"
| "semver_number (c # s) \<longleftrightarrow> list_all digit (c # s) \<and> (c = CHR ''0'' \<longrightarrow> s = [])"

text \<open>\<open>_SEMVER.fullmatch\<close>, with the \<open>major\<close> group as the result.\<close>

definition semver_match :: "string \<Rightarrow> string option" where
  "semver_match v = (case split_on (CHR ''.'') v of
       [a, b, c] \<Rightarrow> if semver_number a \<and> semver_number b \<and> semver_number c then Some a else None
     | _ \<Rightarrow> None)"

definition validate_semantic_version :: "string \<Rightarrow> string \<Rightarrow> string res" where
  "validate_semantic_version v field =
     (if semver_match v = None then Inl (ValueError (field @ '' must be a semantic version''))
      else Inr v)"

definition validate_schema_version :: "string \<Rightarrow> string res" where
  "validate_schema_version v =
     bindr (validate_semantic_version v ''schema_version'') (\<lambda>_.
     case semver_match v of
       None \<Rightarrow> Inl (AssertionError [])
     | Some major \<Rightarrow> if major \<noteq> ''1'' then Inl (ValueError ''unsupported schema major version'')
                     else Inr v)"

definition validate_uuid :: "string \<Rightarrow> string res" where
  "validate_uuid v = (if uuid_of_text v = None then Inl (ValueError ''must be a UUID string'')
     else Inr v)"

section \<open>Payment events\<close>

datatype rail = Card | A2A | Agentic

fun rail_value :: "rail \<Rightarrow> string" where
  "rail_value Card = ''card''"
| "rail_value A2A = ''a2a''"
| "rail_value Agentic = ''agentic''"

datatype event_kind =
    Authorization | AuthorizationDeclined | AuthenticationChallenge | Clearing | Settlement | Reversal
  | TransferInitiated | TransferAccepted | TransferRejected | TransferPosted | TransferReturned
  | FundsFrozen | Refund | FraudReported | DisputeOpened | ChargebackEvent | Recovery

record payment_event =
  pe_schema_version :: string
  pe_event_id :: string
  pe_campaign_id :: string
  pe_trace_id :: string
  pe_rail :: rail
  pe_viewpoint :: string
  pe_event_type :: event_kind
  pe_amount :: pydec
  pe_currency :: string
  pe_event_time :: datetime
  pe_ingested_at :: datetime
  pe_available_at :: datetime
  pe_decision_at :: "datetime option"
  pe_actor_id :: string
  pe_counterparty_id :: string
  pe_party_refs :: "(string \<times> string) list"
  pe_rail_data :: "(string \<times> pyval) list"
  pe_lineage :: "(string \<times> pyval) list"
  pe_privacy :: "(string \<times> string) list"
  pe_extensions :: "(string \<times> pyval) list"

definition event_times_and_amount :: "payment_event \<Rightarrow> payment_event res" where
  "event_times_and_amount ev =
     (if instant (pe_ingested_at ev) < instant (pe_event_time ev)
      then Inl (ValueError ''ingested_at must be at or after event_time'')
      else if instant (pe_available_at ev) < instant (pe_ingested_at ev)
      then Inl (ValueError ''available_at must be at or after ingested_at'')
      else if (case pe_decision_at ev of None \<Rightarrow> False
               | Some d \<Rightarrow> instant d < instant (pe_available_at ev))
      then Inl (ValueError ''decision_at must be at or after available_at'')
      else if dec_less (pe_amount ev) dec_zero
      then Inl (ValueError ''amount must be non-negative'')
      else Inr ev)"

definition optional :: "('a \<Rightarrow> 'a res) \<Rightarrow> 'a option \<Rightarrow> 'a option res" where
  "optional f x = (case x of None \<Rightarrow> Inr None | Some y \<Rightarrow> bindr (f y) (\<lambda>z. Inr (Some z)))"

definition payment_event_valid :: "payment_event \<Rightarrow> payment_event res" where
  "payment_event_valid ev =
     bindr (validate_schema_version (pe_schema_version ev)) (\<lambda>_.
     bindr (mapr validate_uuid [pe_event_id ev, pe_campaign_id ev, pe_trace_id ev, pe_actor_id ev,
       pe_counterparty_id ev]) (\<lambda>_.
     bindr (mapr validate_utc_timestamp [pe_event_time ev, pe_ingested_at ev, pe_available_at ev]) (\<lambda>_.
     bindr (optional validate_utc_timestamp (pe_decision_at ev)) (\<lambda>_.
     event_times_and_amount ev))))"

text \<open>\<open>model_dump(mode="python")\<close>, as far as it holds numbers and containers.\<close>

definition str_map :: "(string \<times> pyval) list \<Rightarrow> pyval" where
  "str_map kvs = PMap PyDict (map (\<lambda>(k, v). (PStr k, v)) kvs)"

definition event_dump :: "payment_event \<Rightarrow> pyval" where
  "event_dump ev = str_map [
     (''schema_version'', PStr (pe_schema_version ev)), (''event_id'', PStr (pe_event_id ev)),
     (''campaign_id'', PStr (pe_campaign_id ev)), (''trace_id'', PStr (pe_trace_id ev)),
     (''rail'', PEnum True (PStr (rail_value (pe_rail ev)))), (''viewpoint'', PStr (pe_viewpoint ev)),
     (''amount'', PDec (pe_amount ev)), (''currency'', PStr (pe_currency ev)),
     (''event_time'', PDt (pe_event_time ev)), (''ingested_at'', PDt (pe_ingested_at ev)),
     (''available_at'', PDt (pe_available_at ev)),
     (''decision_at'', case pe_decision_at ev of None \<Rightarrow> PNone | Some d \<Rightarrow> PDt d),
     (''actor_id'', PStr (pe_actor_id ev)), (''counterparty_id'', PStr (pe_counterparty_id ev)),
     (''party_refs'', str_map (map (\<lambda>(k, v). (k, PStr v)) (pe_party_refs ev))),
     (''rail_data'', str_map (pe_rail_data ev)), (''lineage'', str_map (pe_lineage ev)),
     (''privacy'', str_map (map (\<lambda>(k, v). (k, PStr v)) (pe_privacy ev))),
     (''extensions'', str_map (pe_extensions ev))]"

section \<open>Scenarios\<close>

datatype attacker_mode = StaticAttacker | AdaptiveAttacker | DecisionOnlyAttacker

datatype feedback_field =
    ActionField | ReasonFamilyField | ApproveField | ChallengeField | DeclineField | RealizedValueField

datatype replay_ordering = EventTimeThenEventId

record campaign_stage =
  stage_id :: string
  stage_description :: string

record stage_transition =
  from_stage :: string
  to_stage :: string
  transition_condition :: string

record replay_config =
  random_seed :: int
  simulation_start :: datetime
  generator_version :: string
  event_ordering :: replay_ordering

record replay_manifest = replay_config +
  rm_scenario_id :: string
  rm_scenario_version :: string
  rm_threat_card_ref :: string

record scenario_parameters =
  sc_schema_version :: string
  sc_scenario_id :: string
  sc_version :: string
  sc_rail :: rail
  sc_viewpoint :: string
  sc_attacker_mode :: attacker_mode
  sc_attacker_objective :: string
  sc_query_budget :: int
  sc_feedback :: "feedback_field list"
  sc_benign_entity_count :: int
  sc_illicit_entity_count :: int
  sc_duration_hours :: int
  sc_seed :: int
  sc_campaign_stages :: "campaign_stage list"
  sc_transition_rules :: "stage_transition list"
  sc_economics :: "(string \<times> string) list"
  sc_lifecycle :: "(string \<times> pyval) list"
  sc_hidden_validity :: "(string \<times> string) list"
  sc_extensions :: "(string \<times> pyval) list"

record scenario_config = scenario_parameters +
  scc_export_level :: string
  scc_replay :: replay_config

record scenario_bundle = scenario_parameters +
  sb_threat_card_ref :: string
  sb_defender_knowledge_boundary :: string
  sb_replay_manifest :: replay_manifest
  sb_genai_capability :: "(string \<times> bool) list"
  sb_safety :: "(string \<times> pyval) list"

text \<open>\<open>^[a-z0-9]+(?:_[a-z0-9]+)*$\<close>\<close>

definition stage_word :: "string \<Rightarrow> bool" where
  "stage_word w \<longleftrightarrow> w \<noteq> [] \<and> list_all (\<lambda>c. digit c \<or> (97::nat) \<le> of_char c \<and> (of_char c :: nat) \<le> 122) w"

definition stage_name :: "string \<Rightarrow> bool" where
  "stage_name v \<longleftrightarrow> list_all stage_word (split_on (CHR ''_'') v)"

definition campaign_stage_valid :: "campaign_stage \<Rightarrow> campaign_stage res" where
  "campaign_stage_valid s =
     (if stage_name (stage_id s) \<and> stage_description s \<noteq> [] then Inr s
      else Inl (ValueError ''campaign stage''))"

definition stage_transition_valid :: "stage_transition \<Rightarrow> stage_transition res" where
  "stage_transition_valid t =
     (if stage_name (from_stage t) \<and> stage_name (to_stage t) \<and> transition_condition t \<noteq> []
      then Inr t else Inl (ValueError ''stage transition''))"

definition replay_config_valid :: "'x replay_config_scheme \<Rightarrow> 'x replay_config_scheme res" where
  "replay_config_valid r =
     bindr (validate_utc_timestamp (simulation_start r)) (\<lambda>_.
     bindr (validate_semantic_version (generator_version r) ''generator_version'') (\<lambda>_. Inr r))"

definition replay_manifest_valid :: "replay_manifest \<Rightarrow> replay_manifest res" where
  "replay_manifest_valid r =
     bindr (replay_config_valid r) (\<lambda>_.
     bindr (validate_semantic_version (rm_scenario_version r) ''scenario_version'') (\<lambda>_. Inr r))"

definition campaign_graph_closed :: "'x scenario_parameters_scheme \<Rightarrow> 'x scenario_parameters_scheme res" where
  "campaign_graph_closed p =
     (let ids = map stage_id (sc_campaign_stages p)
      in if \<not> distinct ids then Inl (ValueError ''campaign stage IDs must be unique'')
         else if list_ex (\<lambda>t. from_stage t \<notin> set ids \<or> to_stage t \<notin> set ids) (sc_transition_rules p)
         then Inl (ValueError ''transition rules must reference a declared campaign stage'')
         else Inr p)"

definition scenario_parameters_valid ::
  "'x scenario_parameters_scheme \<Rightarrow> 'x scenario_parameters_scheme res" where
  "scenario_parameters_valid p =
     bindr (validate_schema_version (sc_schema_version p)) (\<lambda>_.
     bindr (validate_semantic_version (sc_version p) ''version'') (\<lambda>_.
     bindr (ensure (sc_query_budget p > 0) (ValueError ''query_budget'')) (\<lambda>_.
     bindr (ensure (sc_feedback p \<noteq> []) (ValueError ''feedback'')) (\<lambda>_.
     bindr (ensure (sc_benign_entity_count p > 0) (ValueError ''benign_entity_count'')) (\<lambda>_.
     bindr (ensure (sc_illicit_entity_count p > 0) (ValueError ''illicit_entity_count'')) (\<lambda>_.
     bindr (ensure (sc_duration_hours p > 0) (ValueError ''duration_hours'')) (\<lambda>_.
     bindr (ensure (sc_campaign_stages p \<noteq> []) (ValueError ''campaign_stages'')) (\<lambda>_.
     bindr (mapr campaign_stage_valid (sc_campaign_stages p)) (\<lambda>_.
     bindr (ensure (sc_transition_rules p \<noteq> []) (ValueError ''transition_rules'')) (\<lambda>_.
     bindr (mapr stage_transition_valid (sc_transition_rules p)) (\<lambda>_.
     campaign_graph_closed p)))))))))))"

definition scenario_config_valid :: "scenario_config \<Rightarrow> scenario_config res" where
  "scenario_config_valid c =
     bindr (replay_config_valid (scc_replay c)) (\<lambda>_.
     bindr (scenario_parameters_valid c) (\<lambda>_.
     if random_seed (scc_replay c) \<noteq> sc_seed c
     then Inl (ValueError ''replay random_seed must equal scenario seed'')
     else Inr c))"

definition scenario_bundle_valid :: "scenario_bundle \<Rightarrow> scenario_bundle res" where
  "scenario_bundle_valid b =
     bindr (ensure (sb_defender_knowledge_boundary b \<noteq> [])
       (ValueError ''defender_knowledge_boundary'')) (\<lambda>_.
     bindr (replay_manifest_valid (sb_replay_manifest b)) (\<lambda>_.
     scenario_parameters_valid b))"

text \<open>\<open>model_dump(mode="python")\<close> of the parts of a bundle that can hold a number or container.\<close>

definition bundle_dump :: "scenario_bundle \<Rightarrow> pyval" where
  "bundle_dump b = str_map [
     (''query_budget'', PInt (sc_query_budget b)),
     (''benign_entity_count'', PInt (sc_benign_entity_count b)),
     (''illicit_entity_count'', PInt (sc_illicit_entity_count b)),
     (''duration_hours'', PInt (sc_duration_hours b)), (''seed'', PInt (sc_seed b)),
     (''lifecycle'', str_map (sc_lifecycle b)), (''extensions'', str_map (sc_extensions b)),
     (''safety'', str_map (sb_safety b))]"

section \<open>Decisions\<close>

datatype action = Approve | Challenge | Decline

fun action_value :: "action \<Rightarrow> string" where
  "action_value Approve = ''approve''"
| "action_value Challenge = ''challenge''"
| "action_value Decline = ''decline''"

datatype reason_code =
    VELOCITY_1M | BENEFICIARY_RECENTLY_ADDED | DEVICE_FAN_OUT | AMOUNT_OUTLIER
  | MANDATE_SCOPE_VIOLATION | INTEGRITY_FAILURE | AGENT_IDENTITY_MISMATCH | SIGNATURE_INVALID
  | AMOUNT_LIMIT_EXCEEDED | CURRENCY_MISMATCH | PAYEE_BINDING_MISMATCH | CART_HASH_MISMATCH
  | MANDATE_EXPIRED | NONCE_REPLAY | RECEIPT_CHAIN_BROKEN | MERCHANT_BINDING_MISMATCH
  | CATEGORY_SCOPE_VIOLATION | PRODUCT_SCOPE_VIOLATION | PAYMENT_INTENT_HASH_MISMATCH
  | CREDENTIAL_BINDING_MISMATCH | TOKEN_SCOPE_VIOLATION | CONSENT_BINDING_MISMATCH
  | MANDATE_TIME_SCOPE_VIOLATION | EXECUTION_RECEIPT_MISMATCH | AUTHORITY_IDENTITY_MISMATCH
  | AUTHENTICATION_EVIDENCE_MISSING | AUTHENTICATION_EVIDENCE_MISMATCH
  | AUTHENTICATION_EVIDENCE_EXPIRED | AUTHENTICATION_EVIDENCE_REPLAY

fun reason_value :: "reason_code \<Rightarrow> string" where
  "reason_value VELOCITY_1M = ''VELOCITY_1M''"
| "reason_value BENEFICIARY_RECENTLY_ADDED = ''BENEFICIARY_RECENTLY_ADDED''"
| "reason_value DEVICE_FAN_OUT = ''DEVICE_FAN_OUT''"
| "reason_value AMOUNT_OUTLIER = ''AMOUNT_OUTLIER''"
| "reason_value MANDATE_SCOPE_VIOLATION = ''MANDATE_SCOPE_VIOLATION''"
| "reason_value INTEGRITY_FAILURE = ''INTEGRITY_FAILURE''"
| "reason_value AGENT_IDENTITY_MISMATCH = ''AGENT_IDENTITY_MISMATCH''"
| "reason_value SIGNATURE_INVALID = ''SIGNATURE_INVALID''"
| "reason_value AMOUNT_LIMIT_EXCEEDED = ''AMOUNT_LIMIT_EXCEEDED''"
| "reason_value CURRENCY_MISMATCH = ''CURRENCY_MISMATCH''"
| "reason_value PAYEE_BINDING_MISMATCH = ''PAYEE_BINDING_MISMATCH''"
| "reason_value CART_HASH_MISMATCH = ''CART_HASH_MISMATCH''"
| "reason_value MANDATE_EXPIRED = ''MANDATE_EXPIRED''"
| "reason_value NONCE_REPLAY = ''NONCE_REPLAY''"
| "reason_value RECEIPT_CHAIN_BROKEN = ''RECEIPT_CHAIN_BROKEN''"
| "reason_value MERCHANT_BINDING_MISMATCH = ''MERCHANT_BINDING_MISMATCH''"
| "reason_value CATEGORY_SCOPE_VIOLATION = ''CATEGORY_SCOPE_VIOLATION''"
| "reason_value PRODUCT_SCOPE_VIOLATION = ''PRODUCT_SCOPE_VIOLATION''"
| "reason_value PAYMENT_INTENT_HASH_MISMATCH = ''PAYMENT_INTENT_HASH_MISMATCH''"
| "reason_value CREDENTIAL_BINDING_MISMATCH = ''CREDENTIAL_BINDING_MISMATCH''"
| "reason_value TOKEN_SCOPE_VIOLATION = ''TOKEN_SCOPE_VIOLATION''"
| "reason_value CONSENT_BINDING_MISMATCH = ''CONSENT_BINDING_MISMATCH''"
| "reason_value MANDATE_TIME_SCOPE_VIOLATION = ''MANDATE_TIME_SCOPE_VIOLATION''"
| "reason_value EXECUTION_RECEIPT_MISMATCH = ''EXECUTION_RECEIPT_MISMATCH''"
| "reason_value AUTHORITY_IDENTITY_MISMATCH = ''AUTHORITY_IDENTITY_MISMATCH''"
| "reason_value AUTHENTICATION_EVIDENCE_MISSING = ''AUTHENTICATION_EVIDENCE_MISSING''"
| "reason_value AUTHENTICATION_EVIDENCE_MISMATCH = ''AUTHENTICATION_EVIDENCE_MISMATCH''"
| "reason_value AUTHENTICATION_EVIDENCE_EXPIRED = ''AUTHENTICATION_EVIDENCE_EXPIRED''"
| "reason_value AUTHENTICATION_EVIDENCE_REPLAY = ''AUTHENTICATION_EVIDENCE_REPLAY''"

text \<open>\<open>0 <= score <= 1\<close> for a float, as its exact value \<open>mantissa * 2 ^ exponent\<close>.\<close>

fun unit_score :: "pyfloat \<Rightarrow> bool" where
  "unit_score (FFinite s m e) \<longleftrightarrow>
     m = 0 \<or> \<not> s \<and> (if 0 \<le> e then m * 2 ^ nat e \<le> 1 else m \<le> 2 ^ nat (- e))"
| "unit_score (FInf s) \<longleftrightarrow> False"
| "unit_score FNaN \<longleftrightarrow> False"

record decision =
  de_schema_version :: string
  de_decision_id :: string
  de_event_id :: string
  de_decision_time :: datetime
  de_max_source_timestamp :: datetime
  de_score :: pyfloat
  de_action :: action
  de_reason_codes :: "reason_code list"
  de_model_version :: string
  de_policy_version :: "string option"
  de_evidence_refs :: "string list"
  de_extensions :: "(string \<times> pyval) list"

definition source_time_and_reasons :: "decision \<Rightarrow> decision res" where
  "source_time_and_reasons d =
     (if instant (de_decision_time d) \<le> instant (de_max_source_timestamp d)
      then Inl (ValueError ''max_source_timestamp must be strictly before decision_time'')
      else if de_action d \<noteq> Approve \<and> de_reason_codes d = []
      then Inl (ValueError ''reason_codes must be non-empty for non-approve decisions'')
      else Inr d)"

definition decision_valid :: "decision \<Rightarrow> decision res" where
  "decision_valid d =
     bindr (validate_schema_version (de_schema_version d)) (\<lambda>_.
     bindr (mapr validate_uuid [de_decision_id d, de_event_id d]) (\<lambda>_.
     bindr (mapr validate_utc_timestamp [de_decision_time d, de_max_source_timestamp d]) (\<lambda>_.
     bindr (ensure (unit_score (de_score d)) (ValueError ''score'')) (\<lambda>_.
     source_time_and_reasons d))))"

datatype lifecycle_state =
    InitiatedState | AuthenticatedState | AuthorizedState | RejectedState | DeclinedState | ClearedState
  | SettledState | ReportedState | RecoveredState | LossFinalState | ReversedState | DisputedState
  | ChargebackState

end
