(* ===== verification/Clock.thy ===== *)
theory Clock
  imports PyValue
begin

text \<open>
  The event clock (\<open>simulator/clock.py\<close>): commands with frozen payloads, the priority queue of
  scheduled commands ordered by time, priority and insertion, and the operations that schedule and
  pop. The lemmas show that the clock never goes back and that draining it sorts the schedule.
\<close>

section \<open>Commands\<close>

text \<open>\<open>type(command)\<close> of a command object.\<close>

datatype command_class =
    PlainCommand
  | AuthorizeCard | DeclineCardAuthorization | ClearCard | SettleCard | ReverseCardAuthorization
  | ReportCardFraud | OpenCardDispute | ChargebackCard | RecoverCard | RefundCard
  | InitiateA2A | AcceptA2A | RejectA2A | PostA2A | ReportA2AFraud | FreezeA2AFunds | RecoverA2A
  | ReturnA2A
  | AgenticPaymentCommand
  | OtherCommand string

type_synonym payload = "(string \<times> pyval) list"

record command =
  cmd_class :: command_class
  cmd_name :: string
  cmd_payload :: payload

fun plain_key :: "pyval \<Rightarrow> string" where
  "plain_key (PStr s) = s"
| "plain_key _ = []"

text \<open>\<open>_freeze_mapping\<close>; its keys are exact strings, so the frozen mapping is a string-keyed
  dictionary.\<close>

definition freeze_mapping :: "(pyval \<times> pyval) list \<Rightarrow> payload res" where
  "freeze_mapping kvs = bindr (freeze (PMap PyDict kvs)) (\<lambda>w.
     case w of PMap _ items \<Rightarrow> Inr (map (\<lambda>(k, v). (plain_key k, v)) items)
     | _ \<Rightarrow> Inl (TypeError []))"

definition new_command ::
  "command_class \<Rightarrow> pyval \<Rightarrow> (pyval \<times> pyval) list \<Rightarrow> command res" where
  "new_command cls name payload = (case name of
       PStr n \<Rightarrow> if n = [] then Inl (ValueError ''command name must not be empty'')
                 else bindr (freeze_mapping payload) (\<lambda>p.
                   Inr \<lparr>cmd_class = cls, cmd_name = n, cmd_payload = p\<rparr>)
     | _ \<Rightarrow> Inl (TypeError ''command name must be an exact string''))"

section \<open>The clock\<close>

record scheduled =
  at :: datetime
  priority :: int
  seqno :: nat
  scheduled_command :: command

record sim_clock =
  ck_now :: datetime
  ck_sequence :: nat
  ck_queue :: "scheduled list"

text \<open>The heap's entries are the tuples \<open>(at, priority, sequence, scheduled)\<close>; sequence numbers
  are unique, so the comparison never reaches the fourth component.\<close>

definition sched_key :: "scheduled \<Rightarrow> int \<times> int \<times> nat" where
  "sched_key s = (instant (at s), priority s, seqno s)"

definition new_clock :: "datetime \<Rightarrow> sim_clock res" where
  "new_clock now =
     bindr (normalize_utc_datetime now ''simulation clock time must be a UTC timestamp'') (\<lambda>n.
     Inr \<lparr>ck_now = n, ck_sequence = 0, ck_queue = []\<rparr>)"

definition clock_schedule ::
  "sim_clock \<Rightarrow> datetime \<Rightarrow> pyval \<Rightarrow> command \<Rightarrow> (sim_clock \<times> datetime) res" where
  "clock_schedule ck t prio cmd =
     bindr (normalize_utc_datetime t ''scheduled time must be a UTC timestamp'') (\<lambda>n.
     if instant n < instant (ck_now ck)
     then Inl (ValueError ''cannot schedule earlier than the current simulation time'')
     else case prio of
       PInt p \<Rightarrow>
         Inr (ck\<lparr>ck_queue := heappush sched_key
                   \<lparr>at = n, priority = p, seqno = ck_sequence ck, scheduled_command = cmd\<rparr> (ck_queue ck),
                 ck_sequence := ck_sequence ck + 1\<rparr>, n)
     | _ \<Rightarrow> Inl (TypeError ''priority must be an exact integer''))"

definition clock_pop :: "sim_clock \<Rightarrow> (scheduled \<times> sim_clock) res" where
  "clock_pop ck = (case heappop (ck_queue ck) of
       None \<Rightarrow> Inl (IndexError ''simulation event queue is empty'')
     | Some (s, q) \<Rightarrow> Inr (s, ck\<lparr>ck_queue := q, ck_now := at s\<rparr>))"

section \<open>Invariant\<close>

interpretation ckq: min_queue sched_key "heappush sched_key" heappop mset "heap_sorted sched_key"
  by (rule heapq_min_queue)

definition clock_ok :: "sim_clock \<Rightarrow> bool" where
  "clock_ok ck \<longleftrightarrow> normal_utc (ck_now ck) \<and> heap_sorted sched_key (ck_queue ck) \<and>
     (\<forall>s \<in> set (ck_queue ck). normal_utc (at s) \<and> instant (ck_now ck) \<le> instant (at s) \<and>
        seqno s < ck_sequence ck) \<and>
     distinct (map seqno (ck_queue ck))"

lemma new_clock_ok: "new_clock now = Inr ck \<Longrightarrow> clock_ok ck \<and> ck_queue ck = []"
  by (auto simp: new_clock_def clock_ok_def res_simps heap_sorted_def)

lemma clock_schedule_Inr:
  "clock_schedule ck t prio cmd = Inr (ck', n) \<longleftrightarrow>
   (\<exists>p. prio = PInt p \<and> is_utc t \<and> n = t\<lparr>dt_tz := Some UTC\<rparr> \<and> instant (ck_now ck) \<le> instant n \<and>
     ck' = ck\<lparr>ck_queue := heappush sched_key
        \<lparr>at = n, priority = p, seqno = ck_sequence ck, scheduled_command = cmd\<rparr> (ck_queue ck),
        ck_sequence := ck_sequence ck + 1\<rparr>)"
  by (auto simp: clock_schedule_def res_simps not_less split: pyval.splits if_splits)

lemma set_heappush [simp]: "set (heappush k x q) = insert x (set q)"
  by (simp add: heappush_def set_insort_key)

lemma clock_schedule_ok:
  assumes "clock_ok ck" "clock_schedule ck t prio cmd = Inr (ck', n)"
  shows "clock_ok ck'"
proof -
  from assms(1) have "distinct (map seqno (ck_queue ck))" "ck_sequence ck \<notin> seqno ` set (ck_queue ck)"
    by (auto simp: clock_ok_def)
  then have "distinct (map seqno (heappush sched_key s (ck_queue ck)))" if "seqno s = ck_sequence ck" for s
    using that mset_eq_imp_distinct_iff [of "map seqno (heappush sched_key s (ck_queue ck))"
        "map seqno (s # ck_queue ck)"]
    by (simp add: heappush_def)
  with assms show ?thesis
    by (auto simp: clock_schedule_Inr clock_ok_def heappush_def set_insort_key less_Suc_eq heap_sorted_def
        sorted_insort_key)
qed

lemma clock_pop_Inr:
  "clock_pop ck = Inr (s, ck') \<longleftrightarrow>
   (\<exists>q. ck_queue ck = s # q \<and> ck' = ck\<lparr>ck_queue := q, ck_now := at s\<rparr>)"
  by (auto simp: clock_pop_def split: option.splits)

lemma clock_pop_ok:
  assumes "clock_ok ck" "clock_pop ck = Inr (s, ck')"
  shows "clock_ok ck' \<and> instant (ck_now ck) \<le> instant (ck_now ck') \<and> ck_now ck' = at s"
proof -
  from assms(2) obtain q where q: "ck_queue ck = s # q" "ck' = ck\<lparr>ck_queue := q, ck_now := at s\<rparr>"
    by (auto simp: clock_pop_Inr)
  have "instant (at s) \<le> instant (at u)" if "u \<in> set q" for u
    using assms(1) that by (auto simp: clock_ok_def q heap_sorted_def sched_key_def less_eq_prod_def)
  with assms(1) show ?thesis
    by (auto simp: clock_ok_def q heap_sorted_def)
qed

section \<open>Draining\<close>

text \<open>Pops until the queue is empty.\<close>

function drain :: "sim_clock \<Rightarrow> scheduled list" where
  "drain ck = (case clock_pop ck of Inl _ \<Rightarrow> [] | Inr (s, ck') \<Rightarrow> s # drain ck')"
  by pat_completeness auto
termination
  by (relation "measure (\<lambda>ck. length (ck_queue ck))") (auto simp: clock_pop_Inr)

declare drain.simps [simp del]

lemma drain_queue: "drain ck = ck_queue ck"
  by (induction ck rule: drain.induct)
    (subst drain.simps, auto simp: clock_pop_Inr clock_pop_def split: sum.splits option.splits)

type_synonym request = "datetime \<times> int \<times> command"

definition schedule_all :: "sim_clock \<Rightarrow> request list \<Rightarrow> sim_clock res" where
  "schedule_all = foldlr (\<lambda>ck (t, p, c). bindr (clock_schedule ck t (PInt p) c) (\<lambda>(ck', _). Inr ck'))"

definition request_of :: "scheduled \<Rightarrow> int \<times> int \<times> command" where
  "request_of s = (instant (at s), priority s, scheduled_command s)"

lemma schedule_all_queue:
  assumes "clock_ok ck" "schedule_all ck reqs = Inr ck'"
  shows "\<exists>xs. mset (ck_queue ck') = mset (ck_queue ck @ xs) \<and> clock_ok ck' \<and>
    sorted (map seqno xs) \<and> (\<forall>s \<in> set xs. ck_sequence ck \<le> seqno s) \<and>
    map request_of xs = map (\<lambda>(t, p, c). (instant t, p, c)) reqs"
  using assms
proof (induction reqs arbitrary: ck)
  case Nil
  then show ?case by (auto simp: schedule_all_def intro: exI [of _ "[]"])
next
  case (Cons r reqs)
  obtain t p c where r: "r = (t, p, c)" by (cases r)
  from Cons.prems(2) obtain n ck1 where 1: "clock_schedule ck t (PInt p) c = Inr (ck1, n)"
    and 2: "schedule_all ck1 reqs = Inr ck'"
    by (auto simp: schedule_all_def r res_simps)
  from Cons.IH [OF clock_schedule_ok [OF Cons.prems(1) 1] 2] obtain xs where
    xs: "mset (ck_queue ck') = mset (ck_queue ck1 @ xs)" "clock_ok ck'" "sorted (map seqno xs)"
      "\<forall>s \<in> set xs. ck_sequence ck1 \<le> seqno s"
      "map request_of xs = map (\<lambda>(t, p, c). (instant t, p, c)) reqs"
    by blast
  let ?s = "\<lparr>at = n, priority = p, seqno = ck_sequence ck, scheduled_command = c\<rparr>"
  from 1 have ck1: "ck_queue ck1 = heappush sched_key ?s (ck_queue ck)"
    "ck_sequence ck1 = Suc (ck_sequence ck)" "instant n = instant t"
    by (auto simp: clock_schedule_Inr normalize_result instant_def is_utc_def utcoffset_def)
  have "mset (ck_queue ck') = mset (ck_queue ck @ ?s # xs)"
    by (simp add: xs(1) ck1(1) heappush_def)
  moreover have "sorted (map seqno (?s # xs))"
    using xs(3,4) by (auto simp: ck1(2))
  moreover have "map request_of (?s # xs) = map (\<lambda>(t, p, c). (instant t, p, c)) (r # reqs)"
    by (simp add: xs(5) r request_of_def ck1(3))
  moreover have "\<forall>s \<in> set (?s # xs). ck_sequence ck \<le> seqno s"
    using xs(4) by (auto simp: ck1(2))
  ultimately show ?case using xs(2) by blast
qed

lemma stable_by_sequence:
  assumes "sorted (map seqno xs)"
  shows "sort_key sched_key xs = sort_key (\<lambda>s. (instant (at s), priority s)) xs"
proof (rule properties_for_sort_key [symmetric])
  let ?k = "\<lambda>s. (instant (at s), priority s)"
  show "filter (\<lambda>x. ?k k = ?k x) (sort_key sched_key xs) = filter (\<lambda>x. ?k k = ?k x) xs" for k
  proof -
    have "sorted_wrt (\<lambda>x y. seqno x \<le> seqno y) (filter (\<lambda>x. ?k k = ?k x) xs)"
      using assms by (simp add: sorted_wrt_map sorted_wrt_filter)
    then have "sorted_wrt (\<lambda>x y. sched_key x \<le> sched_key y) (filter (\<lambda>x. ?k k = ?k x) xs)"
      by (rule sorted_wrt_mono_rel [rotated]) (auto simp: sched_key_def less_eq_prod_def)
    then have "sorted (map sched_key (filter (\<lambda>x. ?k k = ?k x) xs))"
      by (simp add: sorted_wrt_map)
    then show ?thesis by (simp add: filter_sort sort_key_id_if_sorted)
  qed
  have "sorted_wrt (\<lambda>x y. sched_key x \<le> sched_key y) (sort_key sched_key xs)"
    by (simp flip: sorted_wrt_map)
  then have "sorted_wrt (\<lambda>x y. ?k x \<le> ?k y) (sort_key sched_key xs)"
    by (rule sorted_wrt_mono_rel [rotated]) (auto simp: sched_key_def less_eq_prod_def)
  then show "sorted (map ?k (sort_key sched_key xs))" by (simp add: sorted_wrt_map)
qed simp

lemma sort_key_map: "map f (sort_key (\<lambda>x. g (f x)) xs) = sort_key g (map f xs)"
proof (induction xs)
  case (Cons x xs)
  have "map f (insort_key (\<lambda>x. g (f x)) x ys) = insort_key g (f x) (map f ys)" for ys
    by (induction ys) auto
  with Cons show ?case by simp
qed simp

section \<open>Properties\<close>

text \<open>C38. Draining a clock that was filled by accepted \<open>schedule\<close> calls returns the requested
  commands sorted by time, then priority, and in the order of the calls where both agree.\<close>

theorem clock_drains_in_order:
  assumes "new_clock now = Inr ck0" "schedule_all ck0 reqs = Inr ck"
  shows "map request_of (drain ck) =
    sort_key (\<lambda>(i, p, c). (i, p)) (map (\<lambda>(t, p, c). (instant t, p, c)) reqs)"
proof -
  from new_clock_ok [OF assms(1)] have ck0: "clock_ok ck0" "ck_queue ck0 = []" by auto
  from schedule_all_queue [OF ck0(1) assms(2)] ck0(2) obtain xs where
    xs: "mset (ck_queue ck) = mset xs" "clock_ok ck" "sorted (map seqno xs)"
      "map request_of xs = map (\<lambda>(t, p, c). (instant t, p, c)) reqs"
    by auto
  have "inj_on sched_key (set xs)"
  proof (rule inj_onI)
    fix x y assume "x \<in> set xs" "y \<in> set xs" "sched_key x = sched_key y"
    moreover from this have "x \<in> set (ck_queue ck)" "y \<in> set (ck_queue ck)" "seqno x = seqno y"
      using mset_eq_setD [OF xs(1)] by (auto simp: sched_key_def)
    ultimately show "x = y"
      using xs(2) by (auto simp: clock_ok_def distinct_map inj_on_def)
  qed
  then have "ck_queue ck = sort_key sched_key xs"
    using sort_key_inj_key_eq [OF xs(1) [symmetric], of sched_key] xs(2)
    by (simp add: clock_ok_def heap_sorted_def)
  also have "\<dots> = sort_key (\<lambda>s. (\<lambda>(i, p, c). (i, p)) (request_of s)) xs"
    by (simp add: stable_by_sequence [OF xs(3)] request_of_def)
  finally show ?thesis
    by (simp add: drain_queue sort_key_map xs(4))
qed

definition demo_command :: "string \<Rightarrow> command" where
  "demo_command n = \<lparr>cmd_class = PlainCommand, cmd_name = n, cmd_payload = []\<rparr>"

theorem clock_drains_in_order_witness:
  "\<exists>ck. map request_of (drain ck) =
     [(5, 0, demo_command ''b''), (9, 1, demo_command ''a''), (9, 1, demo_command ''c'')]"
proof -
  let ?reqs = "[(utc_at 9, 1, demo_command ''a''), (utc_at 5, 0, demo_command ''b''),
    (utc_at 9, 1, demo_command ''c'')]"
  have "new_clock (utc_at 3) = Inr \<lparr>ck_now = utc_at 3, ck_sequence = 0, ck_queue = []\<rparr>"
    by (simp add: new_clock_def normalize_normal)
  moreover have "\<exists>ck. schedule_all \<lparr>ck_now = utc_at 3, ck_sequence = 0, ck_queue = []\<rparr> ?reqs = Inr ck"
    by (simp add: schedule_all_def clock_schedule_def normalize_normal)
  ultimately show ?thesis
    using clock_drains_in_order [of "utc_at 3" _ ?reqs] by fastforce
qed

text \<open>C40. A command's payload is detached from the caller's object: it is in the closed algebra of
  exact built-in values, tuples and read-only string-keyed mappings without repeated keys, and
  freezing it again changes nothing.\<close>

theorem command_payload_frozen:
  assumes "new_command cls name kvs = Inr c"
  shows "frozen_payload (PMap PyMappingProxy (map (\<lambda>(k, v). (PStr k, v)) (cmd_payload c))) \<and>
    freeze_mapping (map (\<lambda>(k, v). (PStr k, v)) (cmd_payload c)) = Inr (cmd_payload c)"
proof -
  from assms have p: "freeze_mapping kvs = Inr (cmd_payload c)"
    by (auto simp: new_command_def res_simps split: pyval.splits if_splits)
  then obtain w where w: "freeze (PMap PyDict kvs) = Inr w"
    "(case w of PMap _ items \<Rightarrow> Inr (map (\<lambda>(k, v). (plain_key k, v)) items)
     | _ \<Rightarrow> Inl (TypeError [])) = Inr (cmd_payload c)"
    unfolding freeze_mapping_def bindr_Inr by blast
  then obtain k items where i: "freeze (PMap PyDict kvs) = Inr (PMap k items)"
    "cmd_payload c = map (\<lambda>(k, v). (plain_key k, v)) items"
    by (cases w) (simp_all del: freeze.simps)
  from freeze_closed [OF i(1)] have f: "frozen_payload (PMap k items)" .
  then have "map ((\<lambda>(k, v). (PStr k, v)) \<circ> (\<lambda>(k, v). (plain_key k, v))) items = items"
    by (intro map_idI) (auto simp: list_all_iff)
  with i(2) have items: "map (\<lambda>(k, v). (PStr k, v)) (cmd_payload c) = items" by simp
  with f have *: "frozen_payload (PMap PyMappingProxy (map (\<lambda>(k, v). (PStr k, v)) (cmd_payload c)))"
    by simp
  from freeze_fixed [OF this] have "freeze (PMap PyDict items) = Inr (PMap PyMappingProxy items)"
    by (simp add: items)
  then have "freeze_mapping items = Inr (cmd_payload c)"
    unfolding freeze_mapping_def i(2) by (simp del: freeze.simps)
  with * show ?thesis by (simp only: items)
qed

theorem command_payload_frozen_witness:
  "freeze_mapping [(PStr ''ids'', PTuple [PInt 1, PTuple []])] = Inr [(''ids'', PTuple [PInt 1, PTuple []])]"
proof -
  have "new_command PlainCommand (PStr ''x'') [(PEnum True (PStr ''ids''), PList [PInt 1, PList []])] =
    Inr \<lparr>cmd_class = PlainCommand, cmd_name = ''x'', cmd_payload = [(''ids'', PTuple [PInt 1, PTuple []])]\<rparr>"
    by (simp add: new_command_def freeze_mapping_def dict_of_def)
  from command_payload_frozen [OF this] show ?thesis by simp
qed

end
