(* ===== verification/Ledger.thy ===== *)
theory Ledger
  imports PyDecimal
begin

text \<open>
  The append-only double-entry ledger (\<open>simulator/ledger.py\<close>): \<open>Ledger.__init__\<close> is
  \<open>ledger_open\<close>, \<open>post\<close> is \<open>ledger_post\<close>, \<open>balance\<close>, \<open>assert_conserved\<close> and the private
  helpers have their own definitions. A posting that raises leaves the ledger as it was, so a
  failed \<open>ledger_post\<close> has no new state. The second half states what a posting does in
  integer minor units (\<open>cents\<close>), as long as the amounts involved stay below 28 digits.
\<close>

section \<open>The code\<close>

datatype account_ref = AccName string | AccTuple "string list"

type_synonym amounts = "(string \<times> pydec) list"
type_synonym balances = "((string \<times> string) \<times> pydec) list"

record ledger_entry =
  entry_id :: string
  debit :: amounts
  credit :: amounts
  entry_currency :: string

record ledger =
  lg_allow :: "account_ref set"
  lg_balances :: balances
  lg_entries :: "ledger_entry list"
  lg_ids :: "string set"
  lg_opening :: "(string \<times> pydec) list"

definition currency_exponents :: "(string \<times> int) list" where
  "currency_exponents = [(''EUR'', 2), (''JPY'', 0), (''KWD'', 3), (''USD'', 2)]"

definition currency_exponent :: "string \<Rightarrow> int res" where
  "currency_exponent c = (case map_of currency_exponents c of
     None \<Rightarrow> Inl (ValueError (''unsupported currency: '' @ c))
   | Some e \<Rightarrow> Inr e)"

definition ledger_quantize :: "pydec \<Rightarrow> string \<Rightarrow> pydec res" where
  "ledger_quantize amount c =
     bindr (currency_exponent c) (\<lambda>e.
     if \<not> dfinite amount then Inl (ValueError ''ledger amounts must be finite'')
     else quantize amount (- e))"

definition parse_account_reference :: "account_ref \<Rightarrow> (string \<times> string) res" where
  "parse_account_reference r =
     bindr (case r of
        AccName a \<Rightarrow> Inr (a, ''USD'')
      | AccTuple [a, c] \<Rightarrow> Inr (a, c)
      | AccTuple _ \<Rightarrow> Inl (ValueError
          ''opening balance account reference must contain account and currency''))
     (\<lambda>(a, c).
        if a = [] then Inl (ValueError ''account must not be empty'')
        else bindr (currency_exponent c) (\<lambda>_. Inr (a, c)))"

definition credit_allowed :: "account_ref set \<Rightarrow> string \<Rightarrow> string \<Rightarrow> bool" where
  "credit_allowed allow a c \<longleftrightarrow> AccName a \<in> allow \<or> AccTuple [a, c] \<in> allow"

definition dict_dec :: "('k \<times> pydec) list \<Rightarrow> 'k \<Rightarrow> pydec" where
  "dict_dec d k = (case map_of d k of None \<Rightarrow> dec_zero | Some v \<Rightarrow> v)"

definition totals_by_currency :: "balances \<Rightarrow> (string \<times> pydec) list" where
  "totals_by_currency b =
     foldl (\<lambda>t ((a, c), v). AList.update c (dec_add (dict_dec t c) v) t) [] b"

definition open_balance :: "account_ref set \<Rightarrow> balances \<Rightarrow> account_ref \<times> pydec \<Rightarrow> balances res" where
  "open_balance allow b = (\<lambda>(r, amount).
     bindr (parse_account_reference r) (\<lambda>(a, c).
     bindr (ledger_quantize amount c) (\<lambda>v.
     if dec_less v dec_zero \<and> \<not> credit_allowed allow a c
     then Inl (ValueError (''opening balance would overdraw account: '' @ a))
     else Inr (AList.update (a, c) v b))))"

definition ledger_open :: "(account_ref \<times> pydec) list \<Rightarrow> account_ref set \<Rightarrow> ledger res" where
  "ledger_open opening allow =
     bindr (foldlr (open_balance allow) [] opening) (\<lambda>b.
     Inr \<lparr>lg_allow = allow, lg_balances = b, lg_entries = [], lg_ids = {},
          lg_opening = totals_by_currency b\<rparr>)"

definition ledger_balance :: "ledger \<Rightarrow> string \<Rightarrow> string \<Rightarrow> pydec res" where
  "ledger_balance L a c =
     bindr (currency_exponent c) (\<lambda>_. Inr (dict_dec (lg_balances L) (a, c)))"

definition normalize_leg :: "string \<Rightarrow> amounts \<Rightarrow> string \<times> pydec \<Rightarrow> amounts res" where
  "normalize_leg c legs = (\<lambda>(a, amount).
     if a = [] then Inl (ValueError ''account must not be empty'')
     else if \<not> dfinite amount \<or> dec_less amount dec_zero
     then Inl (ValueError ''posting legs must be finite and non-negative'')
     else bindr (ledger_quantize amount c) (\<lambda>v. Inr (AList.update a v legs)))"

definition normalize_legs :: "amounts \<Rightarrow> string \<Rightarrow> amounts res" where
  "normalize_legs legs c = foldlr (normalize_leg c) [] legs"

definition debit_leg ::
  "account_ref set \<Rightarrow> string \<Rightarrow> balances \<Rightarrow> string \<times> pydec \<Rightarrow> balances res" where
  "debit_leg allow c b = (\<lambda>(a, amount).
     let v = dec_sub (dict_dec b (a, c)) amount
     in if dec_less v dec_zero \<and> \<not> credit_allowed allow a c
        then Inl (ValueError (''posting would overdraw account: '' @ a))
        else Inr (AList.update (a, c) v b))"

definition credit_leg :: "string \<Rightarrow> balances \<Rightarrow> string \<times> pydec \<Rightarrow> balances" where
  "credit_leg c b = (\<lambda>(a, amount). AList.update (a, c) (dec_add (dict_dec b (a, c)) amount) b)"

definition ledger_post :: "ledger \<Rightarrow> ledger_entry \<Rightarrow> ledger res" where
  "ledger_post L en =
     (let c = entry_currency en in
     if blank (entry_id en) then Inl (ValueError ''entry_id must not be empty'')
     else if entry_id en \<in> lg_ids L
     then Inl (ValueError (''duplicate ledger entry_id: '' @ entry_id en))
     else bindr (currency_exponent c) (\<lambda>_.
     bindr (normalize_legs (debit en) c) (\<lambda>debits.
     bindr (normalize_legs (credit en) c) (\<lambda>credits.
     if \<not> dec_eq (dec_sum (map snd debits)) (dec_sum (map snd credits))
     then Inl (ValueError ''debits must equal credits'')
     else bindr (foldlr (debit_leg (lg_allow L) c) (lg_balances L) debits) (\<lambda>b.
     Inr (L\<lparr>lg_balances := foldl (credit_leg c) b credits,
            lg_entries := lg_entries L @
              [\<lparr>entry_id = entry_id en, debit = debits, credit = credits, entry_currency = c\<rparr>],
            lg_ids := insert (entry_id en) (lg_ids L)\<rparr>))))))"

definition assert_conserved :: "ledger \<Rightarrow> unit res" where
  "assert_conserved L =
     (let now = totals_by_currency (lg_balances L)
      in foldlr (\<lambda>_ c. ensure (dec_eq (dict_dec now c) (dict_dec (lg_opening L) c))
           (AssertionError (''ledger value is not conserved for currency: '' @ c)))
         () (remdups (map fst now @ map fst (lg_opening L))))"

section \<open>Minor units\<close>

definition exponent_of :: "string \<Rightarrow> int" where
  "exponent_of c = (case map_of currency_exponents c of None \<Rightarrow> 0 | Some e \<Rightarrow> e)"

definition cents :: "string \<Rightarrow> pydec \<Rightarrow> int" where
  "cents c d = units (- exponent_of c) d"

text \<open>\<open>fits c d\<close>: a finite amount with no digits below the minor unit of \<open>c\<close>.\<close>

definition fits :: "string \<Rightarrow> pydec \<Rightarrow> bool" where
  "fits c d \<longleftrightarrow> dfinite d \<and> - exponent_of c \<le> dexp d"

lemma exponent_of_nonneg: "0 \<le> exponent_of c"
  by (auto simp: exponent_of_def currency_exponents_def)

lemma currency_exponent_Inr [simp]:
  "currency_exponent c = Inr e \<longleftrightarrow> map_of currency_exponents c = Some e"
  by (auto simp: currency_exponent_def split: option.splits)

lemma cents_zero [simp]: "cents c dec_zero = 0"
  by (simp add: cents_def)

lemma fits_zero [simp]: "fits c dec_zero"
  by (simp add: fits_def dec_zero_def exponent_of_nonneg)

lemma cents_sign: "cents c d < 0 \<longleftrightarrow> dsig d < 0" "0 \<le> cents c d \<longleftrightarrow> 0 \<le> dsig d"
  by (simp_all add: cents_def units_sign)

lemma fits_add:
  assumes "fits c a" "fits c b" "\<bar>cents c a + cents c b\<bar> < int dec_limit"
  shows "fits c (dec_add a b)" "cents c (dec_add a b) = cents c a + cents c b"
  using dec_add_exact [of a "- exponent_of c" b] assms by (auto simp: fits_def cents_def)

lemma fits_sub:
  assumes "fits c a" "fits c b" "\<bar>cents c a - cents c b\<bar> < int dec_limit"
  shows "fits c (dec_sub a b)" "cents c (dec_sub a b) = cents c a - cents c b"
  using dec_sub_exact [of a "- exponent_of c" b] assms by (auto simp: fits_def cents_def)

lemma fits_eq: "fits c a \<Longrightarrow> fits c b \<Longrightarrow> dec_eq a b \<longleftrightarrow> cents c a = cents c b"
  by (simp add: fits_def cents_def dec_eq_units)

lemma fits_sum:
  assumes "\<forall>d \<in> set ds. fits c d" "(\<Sum>d \<leftarrow> ds. \<bar>cents c d\<bar>) < int dec_limit"
  shows "fits c (dec_sum ds)" "cents c (dec_sum ds) = (\<Sum>d \<leftarrow> ds. cents c d)"
proof -
  have "(\<Sum>d \<leftarrow> ds. \<bar>units (- exponent_of c) d\<bar>) < int dec_limit"
    using assms(2) by (simp add: cents_def)
  then have "dfinite (dec_sum ds) \<and> - exponent_of c \<le> dexp (dec_sum ds) \<and>
      units (- exponent_of c) (dec_sum ds) = (\<Sum>d \<leftarrow> ds. units (- exponent_of c) d)"
    using assms(1) exponent_of_nonneg by (intro dec_sum_exact) (auto simp: fits_def)
  then show "fits c (dec_sum ds)" "cents c (dec_sum ds) = (\<Sum>d \<leftarrow> ds. cents c d)"
    by (auto simp: fits_def cents_def)
qed

lemma ledger_quantize_Inr:
  assumes "ledger_quantize d c = Inr v"
  shows "fits c v" "dexp v = - exponent_of c" "dfinite d" "quantize d (- exponent_of c) = Inr v"
  using assms
  by (auto simp: ledger_quantize_def res_simps fits_def exponent_of_def
      dest: quantize_finite split: if_splits)

section \<open>Sums over balances\<close>

definition bsum :: "(int \<Rightarrow> int) \<Rightarrow> string \<Rightarrow> balances \<Rightarrow> int" where
  "bsum f c b = (\<Sum>((a, c'), d) \<leftarrow> b. if c' = c then f (cents c d) else 0)"

definition fits_all :: "balances \<Rightarrow> bool" where
  "fits_all b \<longleftrightarrow> (\<forall>((a, c), d) \<in> set b. fits c d)"

lemma bsum_update:
  assumes "f 0 = 0"
  shows "bsum f c (AList.update (a, c') d b) =
    bsum f c b + (if c' = c then f (cents c d) - f (cents c (dict_dec b (a, c'))) else 0)"
  unfolding bsum_def
  by (subst update_value_sum) (auto simp: dict_dec_def assms split: option.splits)

lemma fits_all_update:
  "fits_all b \<Longrightarrow> fits c d \<Longrightarrow> fits_all (AList.update (a, c) d b)"
  by (induction b) (auto simp: fits_all_def split: if_splits)

lemma fits_all_get: "fits_all b \<Longrightarrow> fits c (dict_dec b (a, c))"
  by (auto simp: fits_all_def dict_dec_def dest: map_of_SomeD split: option.splits)

lemma dict_dec_update [simp]:
  "dict_dec (AList.update k v b) k' = (if k' = k then v else dict_dec b k')"
  by (simp add: dict_dec_def update_conv)

lemma bsum_abs_member: "\<bar>cents c (dict_dec b (a, c))\<bar> \<le> bsum abs c b"
proof (induction b)
  case (Cons p b)
  obtain a' c' d where p: "p = ((a', c'), d)" by (cases p) auto
  have "0 \<le> bsum abs c b"
    unfolding bsum_def by (rule sum_list_nonneg) auto
  with Cons show ?case
    by (auto simp: p bsum_def dict_dec_def)
qed (simp add: bsum_def dict_dec_def)

lemma bsum_abs_nonneg: "0 \<le> bsum abs c b"
  unfolding bsum_def by (rule sum_list_nonneg) auto

section \<open>The legs of a posting\<close>

definition leg_total :: "string \<Rightarrow> amounts \<Rightarrow> int" where
  "leg_total c legs = (\<Sum>(a, d) \<leftarrow> legs. cents c d)"

definition leg_at :: "string \<Rightarrow> amounts \<Rightarrow> string \<Rightarrow> int" where
  "leg_at c legs a = (\<Sum>(a', d) \<leftarrow> legs. if a' = a then cents c d else 0)"

definition good_legs :: "string \<Rightarrow> amounts \<Rightarrow> bool" where
  "good_legs c legs \<longleftrightarrow>
     distinct (map fst legs) \<and> (\<forall>(a, d) \<in> set legs. a \<noteq> [] \<and> fits c d \<and> 0 \<le> cents c d)"

lemma debit_leg_pair: "debit_leg allow c b (a, d) =
  (if dec_less (dec_sub (dict_dec b (a, c)) d) dec_zero \<and> \<not> credit_allowed allow a c
   then Inl (ValueError (''posting would overdraw account: '' @ a))
   else Inr (AList.update (a, c) (dec_sub (dict_dec b (a, c)) d) b))"
  by (simp add: debit_leg_def Let_def)

lemma credit_leg_pair:
  "credit_leg c b (a, d) = AList.update (a, c) (dec_add (dict_dec b (a, c)) d) b"
  by (simp add: credit_leg_def)

lemma leg_simps [simp]:
  "leg_total c [] = 0" "leg_total c ((a, d) # legs) = cents c d + leg_total c legs"
  "leg_at c [] x = 0" "leg_at c ((a, d) # legs) x = (if a = x then cents c d else 0) + leg_at c legs x"
  by (simp_all add: leg_total_def leg_at_def)

lemma good_legs_Nil [simp]: "good_legs c []"
  by (simp add: good_legs_def)

lemma good_legs_Cons:
  "good_legs c ((a, d) # legs) \<longleftrightarrow>
     a \<notin> fst ` set legs \<and> a \<noteq> [] \<and> fits c d \<and> 0 \<le> cents c d \<and> good_legs c legs"
  by (auto simp: good_legs_def)

lemma leg_total_nonneg: "good_legs c legs \<Longrightarrow> 0 \<le> leg_total c legs"
  by (induction legs) (auto simp: good_legs_Cons)

lemma update_fst_set: "fst ` set (AList.update k v d) = insert k (fst ` set d)"
  by (induction d) auto

lemma good_legs_update:
  "good_legs c legs \<Longrightarrow> a \<noteq> [] \<Longrightarrow> fits c d \<Longrightarrow> 0 \<le> cents c d \<Longrightarrow>
    good_legs c (AList.update a d legs)"
  by (induction legs) (force simp: good_legs_Cons update_fst_set)+

lemma normalize_leg_good:
  assumes "normalize_leg c legs p = Inr legs'" "good_legs c legs"
  shows "good_legs c legs'"
proof -
  obtain a amount where p: "p = (a, amount)" by (cases p)
  with assms(1) obtain v where v: "a \<noteq> []" "dfinite amount" "\<not> dec_less amount dec_zero"
      "ledger_quantize amount c = Inr v" "legs' = AList.update a v legs"
    by (auto simp: normalize_leg_def res_simps split: if_splits)
  have "0 \<le> cents c v"
    using ledger_quantize_Inr(3,4) [OF v(4)] v(3)
    by (auto simp: dec_less_zero cents_sign intro: quantize_nonneg)
  with v ledger_quantize_Inr(1) [OF v(4)] assms(2) show ?thesis
    by (auto intro: good_legs_update)
qed

lemma normalize_legs_good: "normalize_legs legs c = Inr legs' \<Longrightarrow> good_legs c legs'"
  unfolding normalize_legs_def
  by (erule foldlr_invariant [where P = "good_legs c"]) (auto intro: normalize_leg_good)

lemma leg_sum_exact:
  assumes "good_legs c legs" "leg_total c legs < int dec_limit"
  shows "fits c (dec_sum (map snd legs))" "cents c (dec_sum (map snd legs)) = leg_total c legs"
proof -
  have "(\<Sum>d \<leftarrow> map snd legs. \<bar>cents c d\<bar>) = leg_total c legs"
    and s: "(\<Sum>d \<leftarrow> map snd legs. cents c d) = leg_total c legs"
    using assms(1) by (induction legs) (auto simp: good_legs_Cons)
  moreover have "\<forall>d \<in> set (map snd legs). fits c d"
    using assms(1) by (auto simp: good_legs_def)
  ultimately show "fits c (dec_sum (map snd legs))"
    and "cents c (dec_sum (map snd legs)) = leg_total c legs"
    using fits_sum [of "map snd legs" c] assms(2) by auto
qed

text \<open>What a run of debit (or credit) legs does to a balance table \<open>b\<close> in currency \<open>c\<close>.\<close>

definition moved :: "string \<Rightarrow> int \<Rightarrow> amounts \<Rightarrow> balances \<Rightarrow> balances \<Rightarrow> bool" where
  "moved c sign legs b b' \<longleftrightarrow>
     fits_all b' \<and>
     bsum abs c b' \<le> bsum abs c b + leg_total c legs \<and>
     bsum (\<lambda>v. v) c b' = bsum (\<lambda>v. v) c b + sign * leg_total c legs \<and>
     (\<forall>f c'. c' \<noteq> c \<longrightarrow> f 0 = 0 \<longrightarrow> bsum f c' b' = bsum f c' b) \<and>
     (\<forall>a. cents c (dict_dec b' (a, c)) = cents c (dict_dec b (a, c)) + sign * leg_at c legs a) \<and>
     (\<forall>a c'. c' \<noteq> c \<longrightarrow> dict_dec b' (a, c') = dict_dec b (a, c'))"

lemma moved_step:
  assumes "moved c sign legs (AList.update (a, c) v b) b'" "fits c v" "\<bar>sign\<bar> = 1"
    and "cents c v = cents c (dict_dec b (a, c)) + sign * cents c d" "0 \<le> cents c d"
  shows "moved c sign ((a, d) # legs) b b'"
proof -
  have up: "bsum abs c (AList.update (a, c) v b) \<le> bsum abs c b + cents c d"
      "bsum (\<lambda>v. v) c (AList.update (a, c) v b) = bsum (\<lambda>v. v) c b + sign * cents c d"
    using assms(3-5) by (auto simp: bsum_update abs_if split: if_splits)
  then show ?thesis
    using assms(1,4) unfolding moved_def
    by (auto simp: bsum_update algebra_simps split: if_splits)
qed

lemma debit_fold:
  assumes "foldlr (debit_leg allow c) b legs = Inr b'" "fits_all b" "good_legs c legs"
    and "bsum abs c b + leg_total c legs < int dec_limit"
  shows "moved c (-1) legs b b'"
  using assms
proof (induction legs arbitrary: b)
  case Nil
  then show ?case by (simp add: moved_def)
next
  case (Cons p legs)
  obtain a d where p: "p = (a, d)" by (cases p)
  define v where "v = dec_sub (dict_dec b (a, c)) d"
  from Cons.prems(1) have run: "foldlr (debit_leg allow c) (AList.update (a, c) v b) legs = Inr b'"
    by (auto simp: p debit_leg_pair v_def split: if_splits)
  from Cons.prems(3) have d: "fits c d" "0 \<le> cents c d" "good_legs c legs"
    by (auto simp: p good_legs_Cons)
  have small: "\<bar>cents c (dict_dec b (a, c)) - cents c d\<bar> < int dec_limit"
    using Cons.prems(4) d(2) bsum_abs_member [of c b a] leg_total_nonneg [OF d(3)] by (simp add: p)
  have v: "fits c v" "cents c v = cents c (dict_dec b (a, c)) - cents c d"
    unfolding v_def using fits_sub [OF fits_all_get [OF Cons.prems(2)] d(1) small] by auto
  have up: "bsum abs c (AList.update (a, c) v b) \<le> bsum abs c b + cents c d"
    using v d(2) by (auto simp: bsum_update)
  have "moved c (-1) legs (AList.update (a, c) v b) b'"
    using Cons.IH [OF run fits_all_update [OF Cons.prems(2) v(1)] d(3)] up Cons.prems(4)
    by (simp add: p)
  then show ?case
    unfolding p by (rule moved_step) (use v d in auto)
qed

lemma credit_fold:
  assumes "fits_all b" "good_legs c legs"
    and "bsum abs c b + leg_total c legs < int dec_limit"
  shows "moved c 1 legs b (foldl (credit_leg c) b legs)"
  using assms
proof (induction legs arbitrary: b)
  case Nil
  then show ?case by (simp add: moved_def)
next
  case (Cons p legs)
  obtain a d where p: "p = (a, d)" by (cases p)
  define v where "v = dec_add (dict_dec b (a, c)) d"
  from Cons.prems(2) have d: "fits c d" "0 \<le> cents c d" "good_legs c legs"
    by (auto simp: p good_legs_Cons)
  have small: "\<bar>cents c (dict_dec b (a, c)) + cents c d\<bar> < int dec_limit"
    using Cons.prems(3) d(2) bsum_abs_member [of c b a] leg_total_nonneg [OF d(3)] by (simp add: p)
  have v: "fits c v" "cents c v = cents c (dict_dec b (a, c)) + cents c d"
    unfolding v_def using fits_add [OF fits_all_get [OF Cons.prems(1)] d(1) small] by auto
  have up: "bsum abs c (AList.update (a, c) v b) \<le> bsum abs c b + cents c d"
    using v d(2) by (auto simp: bsum_update)
  have "moved c 1 legs (AList.update (a, c) v b) (foldl (credit_leg c) (AList.update (a, c) v b) legs)"
    using Cons.IH [OF fits_all_update [OF Cons.prems(1) v(1)] d(3)] up Cons.prems(3)
    by (simp add: p)
  then have "moved c 1 ((a, d) # legs) b (foldl (credit_leg c) (AList.update (a, c) v b) legs)"
    by (rule moved_step) (use v d in auto)
  then show ?case
    by (simp add: p credit_leg_pair v_def)
qed

section \<open>Postings\<close>

definition entry_gross :: "string \<Rightarrow> ledger_entry \<Rightarrow> int" where
  "entry_gross c en =
     (if entry_currency en = c then leg_total c (debit en) + leg_total c (credit en) else 0)"

definition history_gross :: "string \<Rightarrow> ledger \<Rightarrow> int" where
  "history_gross c L = (\<Sum>en \<leftarrow> lg_entries L. entry_gross c en)"

definition exposure :: "string \<Rightarrow> ledger \<Rightarrow> int" where
  "exposure c L = bsum abs c (lg_balances L)"

definition holding :: "ledger \<Rightarrow> string \<times> string \<Rightarrow> int" where
  "holding L k = cents (snd k) (dict_dec (lg_balances L) k)"

definition entry_net :: "ledger_entry \<Rightarrow> string \<times> string \<Rightarrow> int" where
  "entry_net en k =
     (if snd k = entry_currency en
      then leg_at (snd k) (credit en) (fst k) - leg_at (snd k) (debit en) (fst k) else 0)"

text \<open>The entry that \<open>post\<close> records: the request with its legs quantized.\<close>

definition normalized_entry :: "ledger_entry \<Rightarrow> ledger_entry res" where
  "normalized_entry en =
     bindr (normalize_legs (debit en) (entry_currency en)) (\<lambda>debits.
     bindr (normalize_legs (credit en) (entry_currency en)) (\<lambda>credits.
     Inr (en\<lparr>debit := debits, credit := credits\<rparr>)))"

lemma ledger_post_Inr:
  assumes "ledger_post L en = Inr L'"
  obtains n b where
    "normalized_entry en = Inr n" "entry_currency n = entry_currency en" "entry_id n = entry_id en"
    "good_legs (entry_currency en) (debit n)" "good_legs (entry_currency en) (credit n)"
    "dec_eq (dec_sum (map snd (debit n))) (dec_sum (map snd (credit n)))"
    "foldlr (debit_leg (lg_allow L) (entry_currency en)) (lg_balances L) (debit n) = Inr b"
    "L' = L\<lparr>lg_balances := foldl (credit_leg (entry_currency en)) b (credit n),
      lg_entries := lg_entries L @ [n], lg_ids := insert (entry_id en) (lg_ids L)\<rparr>"
    "entry_id en \<notin> lg_ids L" "\<not> blank (entry_id en)"
proof -
  from assms obtain ds cs b where
    s: "normalize_legs (debit en) (entry_currency en) = Inr ds"
      "normalize_legs (credit en) (entry_currency en) = Inr cs"
      "dec_eq (dec_sum (map snd ds)) (dec_sum (map snd cs))"
      "foldlr (debit_leg (lg_allow L) (entry_currency en)) (lg_balances L) ds = Inr b"
      "L' = L\<lparr>lg_balances := foldl (credit_leg (entry_currency en)) b cs,
        lg_entries := lg_entries L @ [\<lparr>entry_id = entry_id en, debit = ds, credit = cs,
          entry_currency = entry_currency en\<rparr>], lg_ids := insert (entry_id en) (lg_ids L)\<rparr>"
      "entry_id en \<notin> lg_ids L" "\<not> blank (entry_id en)"
    by (auto simp: ledger_post_def Let_def res_simps split: if_splits)
  show thesis
    by (rule that [of "en\<lparr>debit := ds, credit := cs\<rparr>" b])
      (use s in \<open>auto simp: normalized_entry_def normalize_legs_good\<close>)
qed

lemma ledger_post_effect:
  assumes post: "ledger_post L en = Inr L'" and fits: "fits_all (lg_balances L)"
    and n: "normalized_entry en = Inr n"
    and small: "exposure (entry_currency en) L + entry_gross (entry_currency en) n < int dec_limit"
  shows "fits_all (lg_balances L')"
    and "exposure c L' \<le> exposure c L + entry_gross c n"
    and "bsum (\<lambda>v. v) c (lg_balances L') = bsum (\<lambda>v. v) c (lg_balances L)"
    and "holding L' k = holding L k + entry_net n k"
proof -
  let ?c = "entry_currency en"
  from post obtain b where
    p: "entry_currency n = ?c" "good_legs ?c (debit n)" "good_legs ?c (credit n)"
      "dec_eq (dec_sum (map snd (debit n))) (dec_sum (map snd (credit n)))"
      "foldlr (debit_leg (lg_allow L) ?c) (lg_balances L) (debit n) = Inr b"
      "lg_balances L' = foldl (credit_leg ?c) b (credit n)"
    using n by (elim ledger_post_Inr) auto
  have pos: "0 \<le> leg_total ?c (debit n)" "0 \<le> leg_total ?c (credit n)" "0 \<le> exposure ?c L"
    using p(2,3) by (auto simp: exposure_def bsum_abs_nonneg intro: leg_total_nonneg)
  have lim: "bsum abs ?c (lg_balances L) + (leg_total ?c (debit n) + leg_total ?c (credit n)) < int dec_limit"
    using small by (simp add: entry_gross_def exposure_def p(1))
  have d: "moved ?c (-1) (debit n) (lg_balances L) b"
    using pos lim by (intro debit_fold [OF p(5) fits p(2)]) auto
  have fb: "fits_all b" and eb: "bsum abs ?c b \<le> bsum abs ?c (lg_balances L) + leg_total ?c (debit n)"
    using d by (auto simp: moved_def)
  have cr: "moved ?c 1 (credit n) b (lg_balances L')"
    unfolding p(6) using eb lim by (intro credit_fold [OF fb p(3)]) auto
  have lims: "leg_total ?c (debit n) < int dec_limit" "leg_total ?c (credit n) < int dec_limit"
    using pos lim unfolding exposure_def by auto
  have eq: "leg_total ?c (debit n) = leg_total ?c (credit n)"
    using p(4) leg_sum_exact [OF p(2) lims(1)] leg_sum_exact [OF p(3) lims(2)]
    by (simp add: fits_eq)
  show "fits_all (lg_balances L')"
    using cr by (simp add: moved_def)
  show "exposure c L' \<le> exposure c L + entry_gross c n"
    using d cr by (cases "c = ?c") (auto simp: moved_def exposure_def entry_gross_def p(1))
  show "bsum (\<lambda>v. v) c (lg_balances L') = bsum (\<lambda>v. v) c (lg_balances L)"
    using d cr eq by (cases "c = ?c") (auto simp: moved_def)
  show "holding L' k = holding L k + entry_net n k"
    using d cr by (cases k; cases "snd k = ?c") (auto simp: moved_def holding_def entry_net_def p(1))
qed

section \<open>Opening, totals and conservation\<close>

lemma open_balance_fits:
  "open_balance allow b p = Inr b' \<Longrightarrow> fits_all b \<Longrightarrow> fits_all b'"
  by (cases p) (auto simp: open_balance_def res_simps split: if_splits
      intro!: fits_all_update dest: ledger_quantize_Inr(1))

lemma ledger_open_fits:
  assumes "ledger_open opening allow = Inr L"
  shows "fits_all (lg_balances L)"
proof -
  from assms have "foldlr (open_balance allow) [] opening = Inr (lg_balances L)"
    by (auto simp: ledger_open_def res_simps)
  then show ?thesis
    by (rule foldlr_invariant) (auto simp: fits_all_def [of "[]"] intro: open_balance_fits)
qed

lemma totals_exact:
  assumes "fits_all b" "bsum abs c b < int dec_limit"
  shows "fits c (dict_dec (totals_by_currency b) c)"
    and "cents c (dict_dec (totals_by_currency b) c) = bsum (\<lambda>v. v) c b"
proof -
  let ?f = "\<lambda>t ((a, c'), v). AList.update c' (dec_add (dict_dec t c') v) t"
  have "fits c (dict_dec (foldl ?f t b) c) \<and>
      cents c (dict_dec (foldl ?f t b) c) = cents c (dict_dec t c) + bsum (\<lambda>v. v) c b"
    if "fits c (dict_dec t c)" "\<bar>cents c (dict_dec t c)\<bar> + bsum abs c b < int dec_limit" for t
    using that assms(1)
  proof (induction b arbitrary: t)
    case Nil
    then show ?case by (simp add: bsum_def)
  next
    case (Cons p b)
    obtain a c' v where p: "p = ((a, c'), v)" by (cases p) auto
    have fv: "fits c' v" and fb: "fits_all b"
      using Cons.prems(3) by (auto simp: p fits_all_def)
    show ?case
    proof (cases "c' = c")
      case False
      with Cons.IH [of "AList.update c' (dec_add (dict_dec t c') v) t"] Cons.prems fb
      show ?thesis by (simp add: p bsum_def)
    next
      case True
      have small: "\<bar>cents c (dict_dec t c) + cents c v\<bar> < int dec_limit"
        using Cons.prems(2) bsum_abs_nonneg [of c b] by (auto simp: p True bsum_def)
      note ex = fits_add [OF Cons.prems(1) fv [unfolded True] small]
      have "\<bar>cents c (dec_add (dict_dec t c) v)\<bar> + bsum abs c b < int dec_limit"
        using Cons.prems(2) ex(2) by (auto simp: p True bsum_def)
      with Cons.IH [of "AList.update c (dec_add (dict_dec t c) v) t"] ex fb
      show ?thesis by (simp add: p True bsum_def)
    qed
  qed
  from this [of "[]"] assms(2)
  show "fits c (dict_dec (totals_by_currency b) c)"
    and "cents c (dict_dec (totals_by_currency b) c) = bsum (\<lambda>v. v) c b"
    by (auto simp: totals_by_currency_def dict_dec_def)
qed

lemma foldlr_ensure: "foldlr (\<lambda>_ x. ensure (P x) (E x)) () xs = Inr () \<longleftrightarrow> (\<forall>x \<in> set xs. P x)"
  by (induction xs) (auto simp: res_simps)

text \<open>The ledgers that successful postings lead to from \<open>L0\<close>.\<close>

inductive posted_from :: "ledger \<Rightarrow> ledger \<Rightarrow> bool" for L0 where
  start: "posted_from L0 L0"
| step: "posted_from L0 L \<Longrightarrow> ledger_post L en = Inr L' \<Longrightarrow> posted_from L0 L'"

lemma history_gross_post:
  "ledger_post L en = Inr L' \<Longrightarrow> normalized_entry en = Inr n \<Longrightarrow>
    history_gross c L' = history_gross c L + entry_gross c n"
  by (elim ledger_post_Inr) (auto simp: history_gross_def)

lemma entry_gross_nonneg:
  assumes "normalized_entry en = Inr n"
  shows "0 \<le> entry_gross c n"
  using assms by (auto simp: normalized_entry_def res_simps entry_gross_def
      dest!: normalize_legs_good intro!: add_nonneg_nonneg leg_total_nonneg)

lemma posted_from_gross: "posted_from L0 L \<Longrightarrow> history_gross c L0 \<le> history_gross c L"
proof (induction rule: posted_from.induct)
  case (step L en L')
  obtain n where "normalized_entry en = Inr n"
    using step.hyps(2) by (elim ledger_post_Inr)
  with step history_gross_post [of L en L' n c] entry_gross_nonneg [of en n c]
  show ?case by simp
qed simp

lemma posted_from_inv:
  assumes "posted_from L0 L" "fits_all (lg_balances L0)"
    and "\<forall>c. exposure c L0 + history_gross c L - history_gross c L0 < int dec_limit"
  shows "fits_all (lg_balances L) \<and> (\<forall>c. bsum (\<lambda>v. v) c (lg_balances L) = bsum (\<lambda>v. v) c (lg_balances L0)) \<and>
    (\<forall>c. exposure c L \<le> exposure c L0 + history_gross c L - history_gross c L0) \<and>
    lg_opening L = lg_opening L0"
  using assms
proof (induction rule: posted_from.induct)
  case (step L en L')
  from step.hyps(2) obtain n where n: "normalized_entry en = Inr n" "lg_opening L' = lg_opening L"
    by (elim ledger_post_Inr) auto
  have g: "history_gross c L' = history_gross c L + entry_gross c n" "0 \<le> entry_gross c n" for c
    using history_gross_post [OF step.hyps(2) n(1)] entry_gross_nonneg [OF n(1)] by auto
  have lim: "\<forall>c. exposure c L0 + history_gross c L - history_gross c L0 < int dec_limit"
  proof
    fix c show "exposure c L0 + history_gross c L - history_gross c L0 < int dec_limit"
      using step.prems(2) [rule_format, of c] g [of c] by linarith
  qed
  note IH = step.IH [OF step.prems(1) lim]
  have small: "exposure (entry_currency en) L + entry_gross (entry_currency en) n < int dec_limit"
    using IH step.prems(2) [rule_format, of "entry_currency en"] g [of "entry_currency en"] by smt
  from IH have fits: "fits_all (lg_balances L)" by blast
  note eff = ledger_post_effect [OF step.hyps(2) fits n(1) small]
  have "exposure c L' \<le> exposure c L0 + history_gross c L' - history_gross c L0" for c
    using eff(2) [of c] IH g(1) [of c] by smt
  with IH eff(1,3) n(2) show ?case by simp
qed simp

section \<open>The ledger as a provider of exact transfers\<close>

text \<open>
  What the rails rely on: a successful posting changes every holding by the net of its legs
  and by nothing else. \<open>room\<close> says the amounts stay below the decimal precision.
\<close>

locale double_entry =
  fixes post :: "'l \<Rightarrow> 'e \<Rightarrow> 'l res"
    and hold :: "'l \<Rightarrow> 'a \<Rightarrow> int"
    and net :: "'e \<Rightarrow> 'a \<Rightarrow> int"
    and room :: "'l \<Rightarrow> 'e \<Rightarrow> bool"
    and wf :: "'l \<Rightarrow> bool"
  assumes post_hold: "wf l \<Longrightarrow> room l e \<Longrightarrow> post l e = Inr l' \<Longrightarrow> hold l' a = hold l a + net e a"
    and post_wf: "wf l \<Longrightarrow> room l e \<Longrightarrow> post l e = Inr l' \<Longrightarrow> wf l'"
begin

lemma run_hold:
  assumes "foldlr post l es = Inr l'" "wf l"
    and "\<And>es1 e es2 m. es = es1 @ e # es2 \<Longrightarrow> foldlr post l es1 = Inr m \<Longrightarrow> room m e"
  shows "wf l' \<and> hold l' a = hold l a + (\<Sum>e \<leftarrow> es. net e a)"
  using assms
proof (induction es arbitrary: l)
  case (Cons e es)
  from Cons.prems(1) obtain m where m: "post l e = Inr m" "foldlr post m es = Inr l'"
    by (auto simp: res_simps)
  have r: "room l e" using Cons.prems(3) [of "[]" e es l] by simp
  have "wf l' \<and> hold l' a = hold m a + (\<Sum>e \<leftarrow> es. net e a)"
  proof (rule Cons.IH [OF m(2)])
    show "wf m" using post_wf Cons.prems(2) r m(1) by blast
    show "room m' e'" if "es = es1 @ e' # es2" "foldlr post m es1 = Inr m'" for es1 e' es2 m'
      using Cons.prems(3) [of "e # es1" e' es2 m'] that m(1) by simp
  qed
  with post_hold [OF Cons.prems(2) r m(1)] show ?case by simp
qed simp

lemma cancel:
  assumes "wf l" "room l e" "post l e = Inr m" "room m e'" "post m e' = Inr l'"
    and "\<And>a. net e' a = - net e a"
  shows "hold l' a = hold l a"
  using post_hold [OF assms(1-3)] post_hold [OF post_wf [OF assms(1-3)] assms(4,5)] assms(6) by simp

end

definition net_of :: "ledger_entry \<Rightarrow> string \<times> string \<Rightarrow> int" where
  "net_of en k = (case normalized_entry en of Inl _ \<Rightarrow> 0 | Inr n \<Rightarrow> entry_net n k)"

definition has_room :: "ledger \<Rightarrow> ledger_entry \<Rightarrow> bool" where
  "has_room L en \<longleftrightarrow> (case normalized_entry en of Inl _ \<Rightarrow> False
     | Inr n \<Rightarrow> exposure (entry_currency en) L + entry_gross (entry_currency en) n < int dec_limit)"

interpretation lg: double_entry ledger_post holding net_of has_room "\<lambda>L. fits_all (lg_balances L)"
  by unfold_locales
    (auto simp: net_of_def has_room_def ledger_post_effect(1,4) split: sum.splits)

section \<open>Overdrafts and identifiers\<close>

definition solvent :: "account_ref set \<Rightarrow> balances \<Rightarrow> bool" where
  "solvent allow b \<longleftrightarrow> (\<forall>a c. \<not> credit_allowed allow a c \<longrightarrow> 0 \<le> dsig (dict_dec b (a, c)))"

lemma solvent_update:
  "solvent allow b \<Longrightarrow> credit_allowed allow a c \<or> 0 \<le> dsig v \<Longrightarrow>
    solvent allow (AList.update (a, c) v b)"
  by (auto simp: solvent_def)

lemma solvent_Nil: "solvent allow []"
  by (simp add: solvent_def dict_dec_def dec_zero_def)

lemma debits_solvent:
  assumes "foldlr (debit_leg allow c) b legs = Inr b'" "solvent allow b"
  shows "solvent allow b'"
  using assms
  by (rule foldlr_invariant)
    (auto simp: debit_leg_def Let_def dec_less_zero not_less intro!: solvent_update split: if_splits)

lemma credits_solvent:
  "good_legs c legs \<Longrightarrow> solvent allow b \<Longrightarrow> solvent allow (foldl (credit_leg c) b legs)"
proof (induction legs arbitrary: b)
  case (Cons p legs)
  obtain a d where p: "p = (a, d)" by (cases p)
  have "solvent allow (credit_leg c b p)"
    unfolding p credit_leg_pair
  proof (rule solvent_update [OF Cons.prems(2)])
    show "credit_allowed allow a c \<or> 0 \<le> dsig (dec_add (dict_dec b (a, c)) d)"
      using Cons.prems by (auto simp: p good_legs_Cons cents_sign solvent_def intro: dec_add_nonneg)
  qed
  with Cons show ?case by (simp add: p good_legs_Cons)
qed simp

lemma ledger_post_solvent:
  assumes "ledger_post L en = Inr L'" "solvent (lg_allow L) (lg_balances L)"
  shows "lg_allow L' = lg_allow L \<and> solvent (lg_allow L') (lg_balances L')"
proof (rule ledger_post_Inr [OF assms(1)])
  fix n b
  assume n: "good_legs (entry_currency en) (credit n)"
    "foldlr (debit_leg (lg_allow L) (entry_currency en)) (lg_balances L) (debit n) = Inr b"
    "L' = L\<lparr>lg_balances := foldl (credit_leg (entry_currency en)) b (credit n),
      lg_entries := lg_entries L @ [n], lg_ids := insert (entry_id en) (lg_ids L)\<rparr>"
  from debits_solvent [OF n(2) assms(2)] show ?thesis
    by (simp add: n(1,3) credits_solvent)
qed

lemma open_balance_solvent:
  assumes "open_balance allow b p = Inr b'" "solvent allow b"
  shows "solvent allow b'"
proof -
  obtain r amount where p: "p = (r, amount)" by (cases p)
  from assms(1) obtain a c v where "parse_account_reference r = Inr (a, c)"
      "\<not> (dec_less v dec_zero \<and> \<not> credit_allowed allow a c)" "b' = AList.update (a, c) v b"
    by (auto simp: p open_balance_def res_simps split: if_splits)
  with solvent_update [OF assms(2), of a c v] show ?thesis
    by (auto simp: dec_less_zero)
qed

lemma ledger_open_solvent:
  assumes "ledger_open opening allow = Inr L"
  shows "lg_allow L = allow \<and> solvent allow (lg_balances L)"
proof -
  from assms have run: "foldlr (open_balance allow) [] opening = Inr (lg_balances L)"
      and "lg_allow L = allow"
    by (auto simp: ledger_open_def res_simps)
  moreover from run have "solvent allow (lg_balances L)"
    by (rule foldlr_invariant) (rule solvent_Nil, erule (1) open_balance_solvent [rotated 1])
  ultimately show ?thesis by blast
qed

lemma posted_from_solvent:
  assumes "posted_from L0 L" "solvent (lg_allow L0) (lg_balances L0)"
  shows "lg_allow L = lg_allow L0 \<and> solvent (lg_allow L0) (lg_balances L)"
  using assms
proof (induction rule: posted_from.induct)
  case (step L en L')
  then have "lg_allow L = lg_allow L0" "solvent (lg_allow L) (lg_balances L)"
    by simp_all
  with ledger_post_solvent [OF step.hyps(2)] show ?case
    by metis
qed simp

lemma ledger_post_ids:
  assumes "ledger_post L en = Inr L'"
  obtains n where "entry_id n = entry_id en" "entry_id en \<notin> lg_ids L"
    "lg_ids L' = insert (entry_id en) (lg_ids L)" "lg_entries L' = lg_entries L @ [n]"
proof (rule ledger_post_Inr [OF assms])
  fix n b
  assume "entry_id n = entry_id en" "entry_id en \<notin> lg_ids L"
    "L' = L\<lparr>lg_balances := foldl (credit_leg (entry_currency en)) b (credit n),
      lg_entries := lg_entries L @ [n], lg_ids := insert (entry_id en) (lg_ids L)\<rparr>"
  then show thesis by (intro that [of n]) simp_all
qed

definition ids_coherent :: "ledger \<Rightarrow> bool" where
  "ids_coherent L \<longleftrightarrow>
     lg_ids L = set (map entry_id (lg_entries L)) \<and> distinct (map entry_id (lg_entries L))"

lemma posted_from_ids:
  "posted_from L0 L \<Longrightarrow> ids_coherent L0 \<Longrightarrow>
    ids_coherent L \<and> (\<exists>es. lg_entries L = lg_entries L0 @ es)"
proof (induction rule: posted_from.induct)
  case (step L en L')
  from step.hyps(2) obtain n where "entry_id n = entry_id en" "entry_id en \<notin> lg_ids L"
    "lg_ids L' = insert (entry_id en) (lg_ids L)" "lg_entries L' = lg_entries L @ [n]"
    by (rule ledger_post_ids)
  with step.IH [OF step.prems] show ?case
    by (auto simp: ids_coherent_def)
qed simp

lemmas ledger_eval = ledger_open_def open_balance_def parse_account_reference_def
  ledger_quantize_def currency_exponent_def currency_exponents_def credit_allowed_def
  dict_dec_def totals_by_currency_def dec_zero_def dec_less_def units_def dec_limit_def
  round_half_even_def ledger_post_def normalize_legs_def normalize_leg_def debit_leg_def
  credit_leg_def dec_sub_def dec_eq_def dec_sum_def blank_def py_space_def num_digits.simps

lemma posted_conserved:
  assumes "ledger_open opening allow = Inr L0" "posted_from L0 L"
    and "\<forall>c. exposure c L0 + history_gross c L < 10 ^ 28"
  shows "assert_conserved L = Inr ()"
proof -
  have o: "lg_opening L0 = totals_by_currency (lg_balances L0)" "history_gross c L0 = 0" for c
    using assms(1) by (auto simp: ledger_open_def res_simps history_gross_def)
  have lim: "\<forall>c. exposure c L0 + history_gross c L - history_gross c L0 < int dec_limit"
    using assms(3) o(2) by (simp add: dec_limit_def)
  note inv = posted_from_inv [OF assms(2) ledger_open_fits [OF assms(1)] lim]
  have ok: "bsum abs c (lg_balances L) < int dec_limit" "bsum abs c (lg_balances L0) < int dec_limit" for c
  proof -
    have "0 \<le> exposure c L0 + history_gross c L - history_gross c L0 - exposure c L"
      using inv by (simp add: algebra_simps)
    with lim [rule_format, of c] show "bsum abs c (lg_balances L) < int dec_limit"
      unfolding exposure_def [symmetric] by linarith
    show "bsum abs c (lg_balances L0) < int dec_limit"
      using assms(3) [rule_format, of c] posted_from_gross [OF assms(2), of c] o(2) [of c]
      unfolding exposure_def [symmetric] by (simp add: dec_limit_def)
  qed
  have "dec_eq (dict_dec (totals_by_currency (lg_balances L)) c) (dict_dec (lg_opening L) c)" for c
    using totals_exact [OF _ ok(1), of c] totals_exact [OF ledger_open_fits [OF assms(1)] ok(2), of c] inv
    by (simp add: fits_eq o(1))
  then show ?thesis
    unfolding assert_conserved_def Let_def foldlr_ensure by simp
qed

section \<open>Properties\<close>

text \<open>C1. Conservation: whatever sequence of postings a freshly opened ledger accepts, the
  conservation audit \<open>assert_conserved\<close> passes, as long as opening exposure and the gross of the
  posted legs stay below 28 digits of minor units in every currency.\<close>

theorem ledger_value_conserved:
  assumes "ledger_open opening allow = Inr L0" "posted_from L0 L"
    and "\<forall>c. exposure c L0 + history_gross c L < 10 ^ 28"
  shows "assert_conserved L = Inr ()"
  by (rule posted_conserved [OF assms])

text \<open>A concrete run for the witnesses: 100.00 USD at \<open>A\<close>, of which 25.00 go to \<open>B\<close> and \<open>C\<close>.\<close>

definition demo_opening :: "(account_ref \<times> pydec) list" where
  "demo_opening = [(AccName ''A'', Dec False 10000 (-2))]"

definition demo_entry :: ledger_entry where
  "demo_entry = \<lparr>entry_id = ''e1'', debit = [(''A'', Dec False 25 0)],
     credit = [(''B'', Dec False 20 0), (''C'', Dec False 5 0)], entry_currency = ''USD''\<rparr>"

definition demo_start :: ledger where
  "demo_start = \<lparr>lg_allow = {}, lg_balances = [((''A'', ''USD''), Dec False 10000 (-2))],
     lg_entries = [], lg_ids = {}, lg_opening = [(''USD'', Dec False 10000 (-2))]\<rparr>"

definition demo_posted :: ledger where
  "demo_posted = \<lparr>lg_allow = {}, lg_balances = [((''A'', ''USD''), Dec False 7500 (-2)),
       ((''B'', ''USD''), Dec False 2000 (-2)), ((''C'', ''USD''), Dec False 500 (-2))],
     lg_entries = [\<lparr>entry_id = ''e1'', debit = [(''A'', Dec False 2500 (-2))],
       credit = [(''B'', Dec False 2000 (-2)), (''C'', Dec False 500 (-2))],
       entry_currency = ''USD''\<rparr>],
     lg_ids = {''e1''}, lg_opening = [(''USD'', Dec False 10000 (-2))]\<rparr>"

lemma demo_run:
  "ledger_open demo_opening {} = Inr demo_start" "ledger_post demo_start demo_entry = Inr demo_posted"
  by (simp_all add: ledger_eval Let_def demo_opening_def demo_entry_def demo_start_def demo_posted_def)

lemma demo_reached: "posted_from demo_start demo_posted"
  by (rule posted_from.step [OF posted_from.start demo_run(2)])

lemma demo_bounds: "exposure c demo_start + history_gross c demo_posted < 10 ^ 28"
  by (simp add: exposure_def bsum_def history_gross_def entry_gross_def leg_total_def demo_start_def
      demo_posted_def cents_def units_def exponent_of_def currency_exponents_def)

theorem ledger_value_conserved_witness: "assert_conserved demo_posted = Inr ()"
  using ledger_value_conserved [OF demo_run(1) demo_reached] demo_bounds by blast

text \<open>The bound is needed: with a balance of 28 digits, an accepted and balanced posting of
  5 JPY rounds a holding, and the conservation audit then raises.\<close>

theorem conservation_lost_beyond_precision:
  "bindr (ledger_open [(AccTuple [''A'', ''JPY''], Dec False (10 ^ 28 - 1) 0),
       (AccTuple [''B'', ''JPY''], Dec True (10 ^ 28 - 1) 0),
       (AccTuple [''C'', ''JPY''], Dec False 5 0)] {AccName ''B''}) (\<lambda>L.
     bindr (ledger_post L \<lparr>entry_id = ''e'', debit = [(''C'', Dec False 5 0)],
       credit = [(''A'', Dec False 5 0)], entry_currency = ''JPY''\<rparr>) assert_conserved) =
   Inl (AssertionError ''ledger value is not conserved for currency: JPY'')"
  by (simp add: ledger_eval assert_conserved_def Let_def)

text \<open>C2. Solvency: an account that may not run on credit never shows a negative balance, at
  opening and after any sequence of accepted postings, with no bound on the amounts.\<close>

theorem ledger_no_overdraft:
  assumes "ledger_open opening allow = Inr L0" "posted_from L0 L"
    and "\<not> credit_allowed allow a c" "ledger_balance L a c = Inr d"
  shows "\<not> dec_less d dec_zero"
proof -
  from ledger_open_solvent [OF assms(1)] have s: "lg_allow L0 = allow" "solvent allow (lg_balances L0)"
    by auto
  with posted_from_solvent [OF assms(2)] have "solvent allow (lg_balances L)" by simp
  with assms(3,4) show ?thesis
    by (auto simp: ledger_balance_def res_simps solvent_def dec_less_zero not_less)
qed

theorem ledger_no_overdraft_witness: "\<not> dec_less (Dec False 7500 (-2)) dec_zero"
  by (rule ledger_no_overdraft [OF demo_run(1) demo_reached, of "''A''" "''USD''"])
    (simp_all add: credit_allowed_def ledger_balance_def currency_exponent_def
      currency_exponents_def dict_dec_def demo_posted_def)

text \<open>Exact effect: an accepted posting changes the holding of every account in every
  currency by exactly the credits minus the debits of its quantized legs, and nothing else.\<close>

theorem ledger_post_holdings:
  assumes "fits_all (lg_balances L)" "has_room L en" "ledger_post L en = Inr L'"
  shows "holding L' k = holding L k + net_of en k"
  by (rule lg.post_hold [OF assms])

theorem ledger_post_holdings_witness: "holding demo_posted (''B'', ''USD'') = 2000"
proof -
  have room: "has_room demo_start demo_entry"
    by (simp add: has_room_def normalized_entry_def exposure_def bsum_def entry_gross_def
        leg_total_def demo_start_def demo_entry_def cents_def exponent_of_def ledger_eval)
  have "net_of demo_entry (''B'', ''USD'') = 2000"
    by (simp add: net_of_def normalized_entry_def entry_net_def leg_at_def demo_entry_def
        cents_def exponent_of_def ledger_eval)
  with ledger_post_holdings [OF ledger_open_fits [OF demo_run(1)] room demo_run(2), of "(''B'', ''USD'')"]
  show ?thesis by (simp add: holding_def demo_start_def dict_dec_def)
qed

text \<open>C39. Entry identifiers are consumed for good: once an accepted posting used one, every later
  posting with the same identifier is refused as a duplicate, whatever was posted in between.\<close>

theorem ledger_duplicate_refused:
  assumes "ledger_open opening allow = Inr L0" "posted_from L0 L" "ledger_post L en = Inr M"
    and "posted_from M L'" "entry_id en' = entry_id en"
  shows "ledger_post L' en' = Inl (ValueError (''duplicate ledger entry_id: '' @ entry_id en))"
proof -
  have "ids_coherent L0"
    using assms(1) by (auto simp: ledger_open_def res_simps ids_coherent_def)
  with assms(2) have "ids_coherent L" by (blast dest: posted_from_ids)
  moreover from assms(3) obtain n where n: "entry_id n = entry_id en" "entry_id en \<notin> lg_ids L"
    "lg_ids M = insert (entry_id en) (lg_ids L)" "lg_entries M = lg_entries L @ [n]"
    by (rule ledger_post_ids)
  ultimately have "ids_coherent M" by (auto simp: ids_coherent_def)
  from posted_from_ids [OF assms(4) this] n have "entry_id en \<in> lg_ids L'"
    by (auto simp: ids_coherent_def)
  moreover have "\<not> blank (entry_id en)"
    using assms(3) by (elim ledger_post_Inr)
  ultimately show ?thesis
    by (simp add: ledger_post_def assms(5))
qed

theorem ledger_duplicate_refused_witness:
  "ledger_post demo_posted demo_entry = Inl (ValueError ''duplicate ledger entry_id: e1'')"
  using ledger_duplicate_refused [OF demo_run(1) posted_from.start demo_run(2) posted_from.start, of demo_entry]
  by (simp add: demo_entry_def)

end
