(* ===== verification/Engine.thy ===== *)
theory Engine
  imports Contracts Clock Ledger
begin

text \<open>
  The simulation engine (\<open>simulator/engine.py\<close>): its state, the capabilities it lends to a rail
  adapter, the run loop, the ordered append of event batches, and replay of a serialized artifact.
  Every operation is an action on the engine, which keeps the state an exception leaves behind.
  Pydantic's dumping and coercion are the functions of a \<open>pydantic\<close> record, numpy's seeded bytes an
  argument of the constructor; an adapter is a pair of actions over its own state in \<open>en_adapter\<close>.
\<close>

section \<open>State\<close>

record 'j pydantic =
  dump_event :: "payment_event \<Rightarrow> 'j res"
  load_event :: "'j \<Rightarrow> payment_event res"
  dump_bundle :: "scenario_bundle \<Rightarrow> 'j res"
  load_bundle :: "'j \<Rightarrow> scenario_bundle res"

record ('a, 'j) engine =
  en_bundle :: scenario_bundle
  en_bundle_payload :: 'j
  en_uuid_prefix :: nat
  en_uuid_sequence :: nat
  en_clock :: sim_clock
  en_ledger :: ledger
  en_adapter :: "'a option"
  en_entity_state :: "(string \<times> pyval) list"
  en_events :: "payment_event list"
  en_seen_event_ids :: "string set"
  en_scheduled_times :: "datetime list"
  en_initialized :: bool
  en_failure :: "exn option"

record ('a, 'j) rail_ops =
  ad_initialize :: "(('a, 'j) engine, unit) act"
  ad_handle :: "command \<Rightarrow> (('a, 'j) engine, payment_event list) act"

section \<open>Ownership boundaries\<close>

definition event_json :: "'j pydantic \<Rightarrow> payment_event \<Rightarrow> 'j res" where
  "event_json C ev =
     bindr (finite_tree ''event'' (event_dump ev)) (\<lambda>_.
     rethrow (ValueError ''event must be strict JSON'') (dump_event C ev))"

definition validated_event :: "'j pydantic \<Rightarrow> payment_event \<Rightarrow> payment_event res" where
  "validated_event C ev = bindr (event_json C ev) (\<lambda>j. bindr (load_event C j) payment_event_valid)"

definition bundle_json :: "'j pydantic \<Rightarrow> scenario_bundle \<Rightarrow> 'j res" where
  "bundle_json C b =
     bindr (finite_tree ''scenario bundle'' (bundle_dump b)) (\<lambda>_.
     rethrow (ValueError ''scenario bundle must be strict JSON'') (dump_bundle C b))"

definition validated_bundle :: "'j pydantic \<Rightarrow> scenario_bundle \<Rightarrow> (scenario_bundle \<times> 'j) res" where
  "validated_bundle C b = bindr (bundle_json C b) (\<lambda>j.
     bindr (load_bundle C j) (\<lambda>b'. bindr (scenario_bundle_valid b') (\<lambda>b''. Inr (b'', j))))"

definition event_key :: "payment_event \<Rightarrow> int \<times> string" where
  "event_key ev = (instant (pe_event_time ev), pe_event_id ev)"

section \<open>Construction\<close>

definition be_nat :: "nat list \<Rightarrow> nat" where
  "be_nat = foldl (\<lambda>a b. 256 * a + b) 0"

text \<open>Version and variant bits of the ten prefix bytes:
  \<open>(b[6] & 0x0F) | 0x40\<close> and \<open>(b[8] & 0x3F) | 0x80\<close>.\<close>

definition uuid_prefix_bytes :: "nat list \<Rightarrow> nat list" where
  "uuid_prefix_bytes b = b[6 := b ! 6 mod 16 + 64, 8 := b ! 8 mod 64 + 128]"

definition engine_new ::
  "'j pydantic \<Rightarrow> (int \<Rightarrow> nat list) \<Rightarrow> scenario_bundle \<Rightarrow> (rail \<Rightarrow> 'a option) \<Rightarrow>
    (account_ref \<times> pydec) list \<Rightarrow> account_ref set \<Rightarrow> ('a, 'j) engine res" where
  "engine_new C seeded_bytes bundle factories opening allow =
     bindr (validated_bundle C bundle) (\<lambda>(b, payload).
     bindr (new_clock (simulation_start (sb_replay_manifest b))) (\<lambda>ck.
     bindr (ledger_open opening allow) (\<lambda>lg.
     Inr \<lparr>en_bundle = b, en_bundle_payload = payload,
          en_uuid_prefix = be_nat (uuid_prefix_bytes (seeded_bytes (sc_seed b))),
          en_uuid_sequence = 0, en_clock = ck, en_ledger = lg,
          en_adapter = factories (sc_rail b), en_entity_state = [], en_events = [],
          en_seen_event_ids = {}, en_scheduled_times = [], en_initialized = False,
          en_failure = None\<rparr>)))"

section \<open>Failing closed\<close>

definition ensure_healthy :: "('a, 'j) engine \<Rightarrow> unit res" where
  "ensure_healthy E = (case en_failure E of None \<Rightarrow> Inr () | Some _ \<Rightarrow> Inl SimulationFailedError)"

definition mark_failed :: "exn \<Rightarrow> ('a, 'j) engine \<Rightarrow> ('a, 'j) engine" where
  "mark_failed e E = (case en_failure E of None \<Rightarrow> E\<lparr>en_failure := Some e\<rparr> | Some _ \<Rightarrow> E)"

text \<open>\<open>try: ... except Exception as error: self._mark_failed(error); raise\<close>\<close>

definition fail_closed :: "(('a, 'j) engine, 'b) act \<Rightarrow> (('a, 'j) engine, 'b) act" where
  "fail_closed m = (\<lambda>E. case m E of (Inl e, E') \<Rightarrow> (Inl e, mark_failed e E') | (Inr x, E') \<Rightarrow> (Inr x, E'))"

text \<open>An operation that starts with \<open>self._ensure_healthy()\<close>.\<close>

definition healthy :: "(('a, 'j) engine, 'b) act \<Rightarrow> (('a, 'j) engine, 'b) act" where
  "healthy m = (\<lambda>E. case ensure_healthy E of Inl e \<Rightarrow> (Inl e, E) | Inr _ \<Rightarrow> m E)"

section \<open>Capabilities\<close>

definition engine_bundle :: "'j pydantic \<Rightarrow> (('a, 'j) engine, scenario_bundle) act" where
  "engine_bundle C = (\<lambda>E. (bindr (load_bundle C (en_bundle_payload E)) scenario_bundle_valid, E))"

definition engine_now :: "(('a, 'j) engine, datetime) act" where
  "engine_now = (\<lambda>E. (Inr (ck_now (en_clock E)), E))"

definition engine_schedule ::
  "datetime \<Rightarrow> pyval \<Rightarrow> command \<Rightarrow> (('a, 'j) engine, unit) act" where
  "engine_schedule t prio cmd = healthy (fail_closed (\<lambda>E.
     case clock_schedule (en_clock E) t prio cmd of
       Inl e \<Rightarrow> (Inl e, E)
     | Inr (ck, n) \<Rightarrow> (Inr (), E\<lparr>en_clock := ck,
         en_scheduled_times := heappush instant n (en_scheduled_times E)\<rparr>)))"

definition engine_post :: "ledger_entry \<Rightarrow> (('a, 'j) engine, unit) act" where
  "engine_post entry = healthy (fail_closed (\<lambda>E.
     case ledger_post (en_ledger E) entry of
       Inl e \<Rightarrow> (Inl e, E)
     | Inr lg \<Rightarrow> (Inr (), E\<lparr>en_ledger := lg\<rparr>)))"

definition engine_entity_state :: "string \<Rightarrow> (('a, 'j) engine, pyval) act" where
  "engine_entity_state i = healthy (\<lambda>E.
     case map_of (en_entity_state E) i of None \<Rightarrow> (Inl (KeyError i), E) | Some v \<Rightarrow> (Inr v, E))"

definition engine_set_entity_state :: "string \<Rightarrow> pyval \<Rightarrow> (('a, 'j) engine, unit) act" where
  "engine_set_entity_state i v = healthy (fail_closed (\<lambda>E.
     if i = [] then (Inl (ValueError ''entity_id must not be empty''), E)
     else case freeze_state v of
       Inl e \<Rightarrow> (Inl e, E)
     | Inr w \<Rightarrow> (Inr (), E\<lparr>en_entity_state := AList.update i w (en_entity_state E)\<rparr>)))"

definition engine_new_uuid :: "(('a, 'j) engine, string) act" where
  "engine_new_uuid = healthy (\<lambda>E.
     if en_uuid_sequence E \<ge> 2 ^ 48
     then (let e = OverflowError ''deterministic UUID sequence exhausted'' in (Inl e, mark_failed e E))
     else (Inr (uuid_text (en_uuid_prefix E * 2 ^ 48 + en_uuid_sequence E)),
           E\<lparr>en_uuid_sequence := en_uuid_sequence E + 1\<rparr>))"

section \<open>Events\<close>

definition batch_step ::
  "'j pydantic \<Rightarrow> ('a, 'j) engine \<Rightarrow> payment_event list \<Rightarrow> payment_event \<Rightarrow> payment_event list res" where
  "batch_step C E acc cand =
     bindr (validated_event C cand) (\<lambda>ev.
     if pe_rail ev \<noteq> sc_rail (en_bundle E) then Inl (ValueError ''event rail must match scenario rail'')
     else if instant (pe_event_time ev) \<noteq> instant (ck_now (en_clock E))
     then Inl (ValueError ''event_time must equal simulation time'')
     else if pe_event_id ev \<in> en_seen_event_ids E \<or> pe_event_id ev \<in> pe_event_id ` set acc
     then Inl (ValueError (''duplicate event_id: '' @ pe_event_id ev))
     else Inr (acc @ [ev]))"

definition append_batch :: "'j pydantic \<Rightarrow> payment_event list \<Rightarrow> (('a, 'j) engine, unit) act" where
  "append_batch C candidates = (\<lambda>E.
     case foldlr (batch_step C E) [] candidates of
       Inl e \<Rightarrow> (Inl e, E)
     | Inr validated \<Rightarrow>
         (let batch = sort_key event_key validated
          in if batch \<noteq> [] \<and> en_events E \<noteq> [] \<and> event_key (hd batch) < event_key (last (en_events E))
             then (Inl (ValueError ''event ordering must be canonical''), E)
             else (Inr (), E\<lparr>en_events := en_events E @ batch,
                    en_seen_event_ids := en_seen_event_ids E \<union> pe_event_id ` set validated\<rparr>)))"

definition engine_emit :: "'j pydantic \<Rightarrow> payment_event \<Rightarrow> (('a, 'j) engine, unit) act" where
  "engine_emit C ev = healthy (fail_closed (append_batch C [ev]))"

definition engine_events :: "'j pydantic \<Rightarrow> (('a, 'j) engine, payment_event list) act" where
  "engine_events C = healthy (\<lambda>E. (mapr (validated_event C) (en_events E), E))"

definition serialize_events :: "'j pydantic \<Rightarrow> (('a, 'j) engine, 'j list) act" where
  "serialize_events C = healthy (\<lambda>E. (mapr (dump_event C) (en_events E), E))"

section \<open>Running\<close>

text \<open>The body of the loop: the due-time index and the clock are popped together.\<close>

definition run_step :: "'j pydantic \<Rightarrow> ('a, 'j) rail_ops \<Rightarrow> (('a, 'j) engine, unit) act" where
  "run_step C V = (\<lambda>E.
     case heappop (en_scheduled_times E) of
       None \<Rightarrow> (Inl (IndexError ''index out of range''), E)
     | Some (expected_at, due) \<Rightarrow>
         (let E = E\<lparr>en_scheduled_times := due\<rparr>
          in case clock_pop (en_clock E) of
               Inl e \<Rightarrow> (Inl e, E)
             | Inr (s, ck) \<Rightarrow>
                 (let E = E\<lparr>en_clock := ck\<rparr>
                  in if instant (at s) \<noteq> instant expected_at
                     then (Inl (AssertionError ''simulation clock and due-time index diverged''), E)
                     else bindm (ad_handle V (scheduled_command s)) (append_batch C) E)))"

definition is_due :: "datetime option \<Rightarrow> datetime list \<Rightarrow> bool" where
  "is_due until due = (case due of [] \<Rightarrow> False
     | d # _ \<Rightarrow> (case until of None \<Rightarrow> True | Some u \<Rightarrow> instant d \<le> instant u))"

partial_function (option) run_loop ::
  "'j pydantic \<Rightarrow> ('a, 'j) rail_ops \<Rightarrow> datetime option \<Rightarrow> ('a, 'j) engine \<Rightarrow>
    (unit res \<times> ('a, 'j) engine) option" where
  "run_loop C V until E =
     (if \<not> is_due until (en_scheduled_times E) then Some (Inr (), E)
      else case fst (run_step C V E) of
        Inl e \<Rightarrow> Some (Inl e, snd (run_step C V E))
      | Inr _ \<Rightarrow> run_loop C V until (snd (run_step C V E)))"

definition run_initialize :: "('a, 'j) rail_ops \<Rightarrow> (('a, 'j) engine, unit) act" where
  "run_initialize V = (\<lambda>E. if en_initialized E then (Inr (), E)
     else case ad_initialize V E of
       (Inl e, E') \<Rightarrow> (Inl e, E')
     | (Inr _, E') \<Rightarrow> (Inr (), E'\<lparr>en_initialized := True\<rparr>))"

definition run_body ::
  "'j pydantic \<Rightarrow> ('a, 'j) rail_ops \<Rightarrow> datetime option \<Rightarrow> ('a, 'j) engine \<Rightarrow>
    (unit res \<times> ('a, 'j) engine) option" where
  "run_body C V until E =
     (if en_adapter E = None
      then Some (Inl (ValueError (''unsupported rail: '' @ rail_value (sc_rail (en_bundle E)))), E)
      else case run_initialize V E of
        (Inl e, E') \<Rightarrow> Some (Inl e, E')
      | (Inr _, E') \<Rightarrow> run_loop C V until E')"

definition normalize_until :: "datetime option \<Rightarrow> datetime option res" where
  "normalize_until until = optional
     (\<lambda>u. normalize_utc_datetime u ''simulation cutoff must be a UTC timestamp'') until"

text \<open>\<open>run\<close>; \<open>None\<close> when the loop never ends, as it may under an adapter that keeps scheduling.\<close>

definition engine_run ::
  "'j pydantic \<Rightarrow> ('a, 'j) rail_ops \<Rightarrow> datetime option \<Rightarrow> ('a, 'j) engine \<Rightarrow>
    (payment_event list res \<times> ('a, 'j) engine) option" where
  "engine_run C V until E =
     (case ensure_healthy E of Inl e \<Rightarrow> Some (Inl e, E)
      | Inr _ \<Rightarrow>
     (case normalize_until until of Inl e \<Rightarrow> Some (Inl e, E)
      | Inr u \<Rightarrow>
          if (case u of None \<Rightarrow> False | Some t \<Rightarrow> instant t < instant (ck_now (en_clock E)))
          then Some (Inl (ValueError ''simulation cutoff cannot precede current simulation time''), E)
          else map_option (\<lambda>r. case r of
                 (Inl e, E') \<Rightarrow> (Inl e, mark_failed e E')
               | (Inr _, E') \<Rightarrow> engine_events C E') (run_body C V u E)))"

section \<open>Replay\<close>

text \<open>The loop body of \<open>replay_events\<close>; the result is the reversed list of accepted events.\<close>

definition replay_step ::
  "'j pydantic \<Rightarrow> payment_event list \<Rightarrow> 'j \<Rightarrow> payment_event list res" where
  "replay_step C acc raw =
     bindr (bindr (load_event C raw) payment_event_valid) (\<lambda>candidate.
     bindr (validated_event C candidate) (\<lambda>ev.
     if pe_event_id ev \<in> pe_event_id ` set acc
     then Inl (ValueError (''duplicate event_id: '' @ pe_event_id ev))
     else if acc \<noteq> [] \<and> event_key ev < event_key (last acc)
     then (if instant (pe_event_time ev) < instant (pe_event_time (last acc))
           then Inl (ValueError ''event_time must be monotonic'')
           else Inl (ValueError ''event ordering must be canonical''))
     else Inr (acc @ [ev])))"

definition replay_events :: "'j pydantic \<Rightarrow> 'j list option \<Rightarrow> payment_event list res" where
  "replay_events C parsed = (case parsed of
       None \<Rightarrow> Inl (ValueError ''serialized events must contain a JSON array'')
     | Some raws \<Rightarrow> bindr (foldlr (replay_step C) [] raws) (mapr (validated_event C)))"

section \<open>What an adapter callback may change\<close>

definition queue_coherent :: "('a, 'j) engine \<Rightarrow> bool" where
  "queue_coherent E \<longleftrightarrow> clock_ok (en_clock E) \<and>
     map instant (en_scheduled_times E) = map (\<lambda>s. instant (at s)) (ck_queue (en_clock E))"

definition callback_frame :: "('a, 'j) engine \<Rightarrow> ('a, 'j) engine \<Rightarrow> bool" where
  "callback_frame E E' \<longleftrightarrow>
     en_bundle E' = en_bundle E \<and> en_bundle_payload E' = en_bundle_payload E \<and>
     en_uuid_prefix E' = en_uuid_prefix E \<and> en_events E' = en_events E \<and>
     en_seen_event_ids E' = en_seen_event_ids E \<and> en_initialized E' = en_initialized E \<and>
     ck_now (en_clock E') = ck_now (en_clock E) \<and>
     en_uuid_sequence E \<le> en_uuid_sequence E' \<and>
     posted_from (en_ledger E) (en_ledger E') \<and>
     (en_failure E \<noteq> None \<longrightarrow> en_failure E' = en_failure E) \<and>
     (en_adapter E \<noteq> None \<longrightarrow> en_adapter E' \<noteq> None) \<and>
     (queue_coherent E \<longrightarrow> queue_coherent E')"

lemma posted_from_trans: "posted_from L1 L2 \<Longrightarrow> posted_from L0 L1 \<Longrightarrow> posted_from L0 L2"
  by (induction rule: posted_from.induct) (auto intro: posted_from.intros)

lemma callback_frame_refl: "reflp callback_frame"
  by (rule reflpI) (simp add: callback_frame_def posted_from.start)

lemma callback_frame_trans: "transp callback_frame"
  by (rule transpI) (auto simp: callback_frame_def intro: posted_from_trans order_trans)

lemma mark_failed_frame: "callback_frame E (mark_failed e E)"
  by (auto simp: callback_frame_def mark_failed_def queue_coherent_def posted_from.start split: option.splits)

lemma keeps_fail_closed:
  assumes "keeps callback_frame m"
  shows "keeps callback_frame (fail_closed m)"
  unfolding keeps_def
proof
  fix E
  obtain r E' where m: "m E = (r, E')" by fastforce
  with assms have "callback_frame E E'" by (auto simp: keeps_def dest: spec [of _ E])
  then show "callback_frame E (snd (fail_closed m E))"
    using transpD [OF callback_frame_trans _ mark_failed_frame]
    by (cases r) (auto simp: fail_closed_def m)
qed

lemma keeps_healthy: "keeps callback_frame m \<Longrightarrow> keeps callback_frame (healthy m)"
  using reflpD [OF callback_frame_refl]
  by (auto simp: keeps_def healthy_def split: sum.splits)

lemma heappush_coherent:
  assumes "heap_sorted sched_key q" "map instant due = map (\<lambda>s. instant (at s)) q" "instant n = instant (at s)"
  shows "map instant (heappush instant n due) = map (\<lambda>s. instant (at s)) (heappush sched_key s q)"
proof -
  have timed: "sorted (map (\<lambda>s. instant (at s)) u)" if "heap_sorted sched_key u" for u
    using that unfolding heap_sorted_def sorted_wrt_map
    by (rule sorted_wrt_mono_rel [rotated]) (auto simp: sched_key_def less_eq_prod_def)
  from assms(2) timed [OF assms(1)] have "heap_sorted instant due"
    by (simp add: heap_sorted_def)
  then have "sorted (map instant (heappush instant n due))"
    by (simp add: heappush_def heap_sorted_def sorted_insort_key)
  moreover have "sorted (map (\<lambda>s. instant (at s)) (heappush sched_key s q))"
    by (rule timed) (rule ckq.push_wf [OF assms(1)])
  moreover have "mset (map instant (heappush instant n due)) = mset (map (\<lambda>s. instant (at s)) (heappush sched_key s q))"
  proof -
    have "mset (map instant (heappush instant n due)) = add_mset (instant n) (mset (map instant due))"
      by (simp add: heappush_def)
    also have "\<dots> = mset (map (\<lambda>s. instant (at s)) (heappush sched_key s q))"
      unfolding assms(2) by (simp add: heappush_def assms(3))
    finally show ?thesis .
  qed
  ultimately show ?thesis by (metis properties_for_sort)
qed

lemma engine_schedule_frame: "keeps callback_frame (engine_schedule t prio cmd)"
  unfolding engine_schedule_def
proof (intro keeps_healthy keeps_fail_closed, unfold keeps_def, intro allI)
  fix E :: "('a, 'j) engine"
  show "callback_frame E (snd (case clock_schedule (en_clock E) t prio cmd of
      Inl e \<Rightarrow> (Inl e, E)
    | Inr (ck, n) \<Rightarrow> (Inr (), E\<lparr>en_clock := ck,
        en_scheduled_times := heappush instant n (en_scheduled_times E)\<rparr>)))"
  proof (cases "clock_schedule (en_clock E) t prio cmd")
    case (Inl e)
    then show ?thesis using reflpD [OF callback_frame_refl] by simp
  next
    case (Inr p)
    obtain ck n where p: "p = (ck, n)" by (cases p)
    have ok: "clock_ok ck" if "clock_ok (en_clock E)"
      using clock_schedule_ok [OF that Inr [unfolded p]] .
    from Inr p have "ck_now ck = ck_now (en_clock E)" by (auto simp: clock_schedule_Inr)
    moreover have "map instant (heappush instant n (en_scheduled_times E)) =
        map (\<lambda>s. instant (at s)) (ck_queue ck)" if "queue_coherent E"
      using that Inr p
      by (auto simp: clock_schedule_Inr queue_coherent_def clock_ok_def intro!: heappush_coherent)
    ultimately show ?thesis
      using ok by (auto simp: Inr p callback_frame_def posted_from.start queue_coherent_def)
  qed
qed

lemma engine_post_frame: "keeps callback_frame (engine_post entry)"
  unfolding engine_post_def
  by (intro keeps_healthy keeps_fail_closed)
    (auto simp: keeps_def callback_frame_def queue_coherent_def intro: posted_from.intros split: sum.splits)

lemma engine_entity_state_frame: "keeps callback_frame (engine_entity_state i)"
  unfolding engine_entity_state_def
  by (intro keeps_healthy)
    (auto simp: keeps_def reflpD [OF callback_frame_refl] split: option.splits)

lemma engine_set_entity_state_frame: "keeps callback_frame (engine_set_entity_state i v)"
  unfolding engine_set_entity_state_def
  by (intro keeps_healthy keeps_fail_closed)
    (auto simp: keeps_def callback_frame_def queue_coherent_def posted_from.start split: sum.splits)

lemma engine_new_uuid_frame: "keeps callback_frame engine_new_uuid"
  unfolding engine_new_uuid_def
  by (intro keeps_healthy)
    (auto simp: keeps_def Let_def mark_failed_def callback_frame_def queue_coherent_def posted_from.start
      split: option.splits)

lemma engine_read_frame: "keeps callback_frame (engine_bundle C)" "keeps callback_frame engine_now"
  by (simp_all add: keeps_def engine_bundle_def engine_now_def reflpD [OF callback_frame_refl])

lemmas capability_frames = engine_schedule_frame engine_post_frame engine_entity_state_frame
  engine_set_entity_state_frame engine_new_uuid_frame engine_read_frame

lemmas frame_intros = keeps_bindm [OF callback_frame_trans] keeps_pure [OF callback_frame_refl]
  capability_frames

section \<open>Histories\<close>

text \<open>What the library promises of dumping and loading: a loaded event dumps to the text it came
  from, has finite numbers, and agrees with its origin in the fields the engine orders by.\<close>

definition json_stable :: "'j pydantic \<Rightarrow> bool" where
  "json_stable C \<longleftrightarrow> (\<forall>ev j ev'.
     finite_tree ''event'' (event_dump ev) = Inr () \<longrightarrow> dump_event C ev = Inr j \<longrightarrow> load_event C j = Inr ev' \<longrightarrow>
     finite_tree ''event'' (event_dump ev') = Inr () \<and> dump_event C ev' = Inr j \<and>
     pe_event_id ev' = pe_event_id ev \<and> pe_rail ev' = pe_rail ev \<and>
     instant (pe_event_time ev') = instant (pe_event_time ev))"

lemma payment_event_valid_Inr: "payment_event_valid ev = Inr ev' \<Longrightarrow> ev' = ev"
  by (auto simp: payment_event_valid_def event_times_and_amount_def res_simps split: if_splits)

text \<open>Events that revalidation leaves alone.\<close>

definition owned_event :: "'j pydantic \<Rightarrow> payment_event \<Rightarrow> bool" where
  "owned_event C ev \<longleftrightarrow> validated_event C ev = Inr ev \<and>
     (\<exists>j. dump_event C ev = Inr j \<and> load_event C j = Inr ev \<and> payment_event_valid ev = Inr ev)"

lemma validated_event_owned:
  assumes "json_stable C" "validated_event C ev = Inr ev'"
  shows "owned_event C ev'" "pe_event_id ev' = pe_event_id ev" "pe_rail ev' = pe_rail ev"
    "instant (pe_event_time ev') = instant (pe_event_time ev)"
proof -
  from assms(2) obtain j e where j: "finite_tree ''event'' (event_dump ev) = Inr ()"
    "dump_event C ev = Inr j" "load_event C j = Inr e" "payment_event_valid e = Inr ev'"
    by (auto simp: validated_event_def event_json_def res_simps)
  have e: "e = ev'" by (rule payment_event_valid_Inr [symmetric]) (rule j(4))
  from assms(1) j(1-3) have "finite_tree ''event'' (event_dump e) = Inr () \<and> dump_event C e = Inr j \<and>
     pe_event_id e = pe_event_id ev \<and> pe_rail e = pe_rail ev \<and>
     instant (pe_event_time e) = instant (pe_event_time ev)"
    unfolding json_stable_def by blast
  with j show "owned_event C ev'" "pe_event_id ev' = pe_event_id ev" "pe_rail ev' = pe_rail ev"
    "instant (pe_event_time ev') = instant (pe_event_time ev)"
    by (auto simp: owned_event_def validated_event_def event_json_def e)
qed

definition history_ok :: "'j pydantic \<Rightarrow> scenario_bundle \<Rightarrow> payment_event list \<Rightarrow> bool" where
  "history_ok C b evs \<longleftrightarrow> sorted_wrt (<) (map event_key evs) \<and> distinct (map pe_event_id evs) \<and>
     (\<forall>ev \<in> set evs. pe_rail ev = sc_rail b \<and> owned_event C ev)"

definition engine_ok :: "'j pydantic \<Rightarrow> ('a, 'j) engine \<Rightarrow> bool" where
  "engine_ok C E \<longleftrightarrow> queue_coherent E \<and> history_ok C (en_bundle E) (en_events E) \<and>
     en_seen_event_ids E = pe_event_id ` set (en_events E) \<and>
     (\<forall>ev \<in> set (en_events E). instant (pe_event_time ev) \<le> instant (ck_now (en_clock E)))"

lemma engine_new_ok:
  assumes "engine_new C rb b fs opening allow = Inr E"
  shows "engine_ok C E" "en_failure E = None" "\<exists>L. ledger_open opening allow = Inr L \<and> en_ledger E = L"
  using assms
  by (auto simp: engine_new_def res_simps engine_ok_def queue_coherent_def history_ok_def
      dest: new_clock_ok split: prod.splits)

lemma callback_frame_ok: "callback_frame E E' \<Longrightarrow> engine_ok C E \<Longrightarrow> engine_ok C E'"
  by (simp add: callback_frame_def engine_ok_def)

lemma mark_failed_ok: "engine_ok C E \<Longrightarrow> engine_ok C (mark_failed e E)"
  using callback_frame_ok [OF mark_failed_frame] .

text \<open>What a validated batch holds.\<close>

definition batch_ok :: "'j pydantic \<Rightarrow> ('a, 'j) engine \<Rightarrow> payment_event list \<Rightarrow> bool" where
  "batch_ok C E acc \<longleftrightarrow> distinct (map pe_event_id acc) \<and>
     (\<forall>ev \<in> set acc. pe_rail ev = sc_rail (en_bundle E) \<and> owned_event C ev \<and>
        instant (pe_event_time ev) = instant (ck_now (en_clock E)) \<and> pe_event_id ev \<notin> en_seen_event_ids E)"

lemma batch_step_ok:
  assumes "json_stable C" "batch_ok C E acc" "batch_step C E acc cand = Inr acc'"
  shows "batch_ok C E acc'"
  using assms(2,3)
  by (auto simp: batch_step_def batch_ok_def res_simps split: if_splits
      dest: validated_event_owned(1) [OF assms(1)])

lemma batch_fold_ok:
  assumes "json_stable C" "foldlr (batch_step C E) [] cands = Inr vs"
  shows "batch_ok C E vs"
  using assms(2)
  by (rule foldlr_invariant) (auto simp: batch_ok_def [of _ _ "[]"] intro: batch_step_ok [OF assms(1)])

lemma sorted_keys_strict:
  assumes "distinct (map pe_event_id vs)"
  shows "sorted_wrt (<) (map event_key (sort_key event_key vs))"
proof -
  have "distinct (map event_key vs)"
    using assms by (auto simp: distinct_map inj_on_def event_key_def)
  then have "distinct (map event_key (sort_key event_key vs))"
    using mset_eq_imp_distinct_iff [of "map event_key (sort_key event_key vs)" "map event_key vs"] by simp
  then show ?thesis by (simp add: strict_sorted_iff)
qed

lemma last_is_greatest: "sorted_wrt (<) (map f xs) \<Longrightarrow> x \<in> set xs \<Longrightarrow> f x \<le> (f (last xs) :: 'b::linorder)"
  by (induction xs) (auto intro: order.strict_implies_order)

lemma history_append:
  assumes "history_ok C b evs" "history_ok C b vs" "pe_event_id ` set evs \<inter> pe_event_id ` set vs = {}"
    and "vs \<noteq> [] \<Longrightarrow> evs \<noteq> [] \<Longrightarrow> \<not> event_key (hd vs) < event_key (last evs)"
  shows "history_ok C b (evs @ vs)"
proof -
  have "event_key e < event_key v" if "e \<in> set evs" "v \<in> set vs" for e v
  proof -
    from that have ne: "evs \<noteq> []" "vs \<noteq> []" by auto
    have 1: "event_key e \<le> event_key (last evs)"
      using last_is_greatest [OF _ that(1), of event_key] assms(1) by (simp add: history_ok_def)
    have 2: "event_key (hd vs) \<le> event_key v"
      using that(2) assms(2) ne
      by (cases vs) (auto simp: history_ok_def)
    have "pe_event_id (hd vs) \<noteq> pe_event_id (last evs)"
      using assms(3) ne by (metis IntI empty_iff hd_in_set imageI last_in_set)
    then have "event_key (hd vs) \<noteq> event_key (last evs)" by (simp add: event_key_def)
    with assms(4) ne have "event_key (last evs) < event_key (hd vs)" by auto
    with 1 2 show ?thesis by auto
  qed
  with assms show ?thesis
    by (auto simp: history_ok_def sorted_wrt_append)
qed

lemma disjoint_imageI: "(\<And>v. v \<in> B \<Longrightarrow> f v \<notin> A) \<Longrightarrow> A \<inter> f ` B = {}"
  by auto

lemma append_batch_ok:
  assumes "json_stable C" "engine_ok C E" "append_batch C cands E = (r, E')"
  shows "engine_ok C E'"
proof (cases "foldlr (batch_step C E) [] cands")
  case (Inl e)
  with assms(2,3) show ?thesis by (simp add: append_batch_def)
next
  case (Inr vs)
  let ?b = "sort_key event_key vs"
  from batch_fold_ok [OF assms(1) Inr] have b: "batch_ok C E vs" .
  then have h: "history_ok C (en_bundle E) ?b"
    using sorted_keys_strict [of vs]
      mset_eq_imp_distinct_iff [of "map pe_event_id ?b" "map pe_event_id vs"]
    by (auto simp: batch_ok_def history_ok_def)
  show ?thesis
  proof (cases "?b \<noteq> [] \<and> en_events E \<noteq> [] \<and> event_key (hd ?b) < event_key (last (en_events E))")
    case True
    with assms(2,3) Inr show ?thesis by (simp add: append_batch_def)
  next
    case False
    with assms(3) Inr have E': "E' = E\<lparr>en_events := en_events E @ ?b,
        en_seen_event_ids := en_seen_event_ids E \<union> pe_event_id ` set vs\<rparr>"
      by (auto simp: append_batch_def Let_def)
    have seen: "en_seen_event_ids E = pe_event_id ` set (en_events E)"
      and hist: "history_ok C (en_bundle E) (en_events E)"
      using assms(2) by (auto simp: engine_ok_def)
    have "pe_event_id v \<notin> pe_event_id ` set (en_events E)" if "v \<in> set ?b" for v
      using b that by (simp add: batch_ok_def seen)
    then have "pe_event_id ` set (en_events E) \<inter> pe_event_id ` set ?b = {}"
      by (rule disjoint_imageI)
    from history_append [OF hist h this] False
    have all: "history_ok C (en_bundle E) (en_events E @ ?b)" by blast
    have "instant (pe_event_time ev) \<le> instant (ck_now (en_clock E))" if "ev \<in> set (en_events E @ ?b)" for ev
      using that b assms(2) by (auto simp: engine_ok_def batch_ok_def)
    with all seen assms(2) show ?thesis
      unfolding E' engine_ok_def queue_coherent_def by (simp add: image_Un)
  qed
qed

section \<open>Runs\<close>

text \<open>The popped command: the due-time index and the clock's queue agree.\<close>

lemma run_step_pops:
  assumes "queue_coherent E" "en_scheduled_times E \<noteq> []"
  shows "\<exists>s q due. ck_queue (en_clock E) = s # q \<and> map instant due = map (\<lambda>s. instant (at s)) q \<and>
    run_step C V E = bindm (ad_handle V (scheduled_command s)) (append_batch C)
      (E\<lparr>en_scheduled_times := due, en_clock := en_clock E\<lparr>ck_queue := q, ck_now := at s\<rparr>\<rparr>)"
proof -
  from assms obtain d due where d: "en_scheduled_times E = d # due" by (cases "en_scheduled_times E") auto
  with assms(1) obtain s q where q: "ck_queue (en_clock E) = s # q" "instant (at s) = instant d"
    "map instant due = map (\<lambda>s. instant (at s)) q"
    by (auto simp: queue_coherent_def)
  then have "clock_pop (en_clock E) = Inr (s, en_clock E\<lparr>ck_queue := q, ck_now := at s\<rparr>)"
    by (simp add: clock_pop_def)
  with q d show ?thesis by (auto simp: run_step_def Let_def)
qed

text \<open>What a run may change.\<close>

definition run_frame :: "('a, 'j) engine \<Rightarrow> ('a, 'j) engine \<Rightarrow> bool" where
  "run_frame E E' \<longleftrightarrow> en_bundle E' = en_bundle E \<and> en_uuid_prefix E' = en_uuid_prefix E \<and>
     en_uuid_sequence E \<le> en_uuid_sequence E' \<and> posted_from (en_ledger E) (en_ledger E') \<and>
     (\<exists>evs. en_events E' = en_events E @ evs) \<and>
     (en_failure E \<noteq> None \<longrightarrow> en_failure E' \<noteq> None)"

lemma run_frame_refl [simp]: "run_frame E E"
  by (simp add: run_frame_def posted_from.start)

lemma run_frame_trans: "run_frame E1 E2 \<Longrightarrow> run_frame E2 E3 \<Longrightarrow> run_frame E1 E3"
  by (auto simp: run_frame_def intro: posted_from_trans order_trans)

lemma callback_run_frame: "callback_frame E E' \<Longrightarrow> run_frame E E'"
  by (auto simp: callback_frame_def run_frame_def)

lemma append_batch_frame: "append_batch C cands E = (r, E') \<Longrightarrow> run_frame E E'"
  by (auto simp: append_batch_def Let_def run_frame_def posted_from.start split: sum.splits if_splits)

locale rail_adapter =
  fixes V :: "('a, 'j) rail_ops"
  assumes initialize_frame: "keeps callback_frame (ad_initialize V)"
    and handle_frame: "keeps callback_frame (ad_handle V cmd)"
begin

lemma run_step_ok:
  assumes "json_stable C" "engine_ok C E" "en_scheduled_times E \<noteq> []" "run_step C V E = (r, E')"
  shows "engine_ok C E'" "run_frame E E'"
proof -
  from assms(2) have "queue_coherent E" by (simp add: engine_ok_def)
  from run_step_pops [OF this assms(3), of C V] obtain s q due where
    q: "ck_queue (en_clock E) = s # q" "map instant due = map (\<lambda>s. instant (at s)) q"
    "run_step C V E = bindm (ad_handle V (scheduled_command s)) (append_batch C)
      (E\<lparr>en_scheduled_times := due, en_clock := en_clock E\<lparr>ck_queue := q, ck_now := at s\<rparr>\<rparr>)"
    by blast
  define E0 where "E0 = E\<lparr>en_scheduled_times := due, en_clock := en_clock E\<lparr>ck_queue := q, ck_now := at s\<rparr>\<rparr>"
  have "clock_pop (en_clock E) = Inr (s, en_clock E0)"
    by (simp add: clock_pop_def q(1) E0_def)
  from clock_pop_ok [OF _ this] assms(2)
  have "clock_ok (en_clock E0)" "instant (ck_now (en_clock E)) \<le> instant (ck_now (en_clock E0))"
    by (auto simp: engine_ok_def queue_coherent_def)
  with assms(2) q(2) have ok0: "engine_ok C E0"
    by (fastforce simp: engine_ok_def queue_coherent_def E0_def)
  have f0: "run_frame E E0" by (simp add: run_frame_def E0_def posted_from.start)
  obtain h E1 where h: "ad_handle V (scheduled_command s) E0 = (h, E1)" by fastforce
  have f1: "callback_frame E0 E1"
    using handle_frame [of "scheduled_command s", unfolded keeps_def, rule_format, of E0] by (simp add: h)
  have ok1: "engine_ok C E1" using callback_frame_ok [OF f1 ok0] .
  have f01: "run_frame E E1" using run_frame_trans [OF f0 callback_run_frame [OF f1]] .
  have "engine_ok C E' \<and> run_frame E E'"
  proof (cases h)
    case (Inl e)
    with h q(3) assms(4) ok1 f01 show ?thesis by (simp add: bindm_def E0_def)
  next
    case (Inr evs)
    with h q(3) assms(4) have "append_batch C evs E1 = (r, E')"
      by (simp add: bindm_def flip: E0_def)
    from append_batch_ok [OF assms(1) ok1 this] run_frame_trans [OF f01 append_batch_frame [OF this]]
    show ?thesis by blast
  qed
  then show "engine_ok C E'" "run_frame E E'" by auto
qed

lemma run_loop_ok:
  assumes "json_stable C" "run_loop C V u E = Some (r, E')" "engine_ok C E"
  shows "engine_ok C E' \<and> run_frame E E'"
proof -
  have "C = C \<longrightarrow> V = V \<longrightarrow> engine_ok C E \<longrightarrow> engine_ok C (snd (r, E')) \<and> run_frame E (snd (r, E'))"
  proof (rule run_loop.raw_induct [where P = "\<lambda>C' V' u' E re. C' = C \<longrightarrow> V' = V \<longrightarrow> engine_ok C E \<longrightarrow>
      engine_ok C (snd re) \<and> run_frame E (snd re)", OF _ assms(2)], intro impI)
    fix loop C' V' u' E re
    assume IH: "\<And>C' V' u' E re. loop C' V' u' E = Some re \<Longrightarrow>
        C' = C \<longrightarrow> V' = V \<longrightarrow> engine_ok C E \<longrightarrow> engine_ok C (snd re) \<and> run_frame E (snd re)"
      and body: "(if \<not> is_due u' (en_scheduled_times E) then Some (Inr (), E)
        else case fst (run_step C' V' E) of Inl e \<Rightarrow> Some (Inl e, snd (run_step C' V' E))
          | Inr _ \<Rightarrow> loop C' V' u' (snd (run_step C' V' E))) = Some re"
      and "C' = C" "V' = V" and ok: "engine_ok C E"
    note body = body [unfolded \<open>C' = C\<close> \<open>V' = V\<close>]
    show "engine_ok C (snd re) \<and> run_frame E (snd re)"
    proof (cases "is_due u' (en_scheduled_times E)")
      case False
      with body ok show ?thesis by auto
    next
      case True
      then have due: "en_scheduled_times E \<noteq> []" by (auto simp: is_due_def)
      obtain h E1 where h: "run_step C V E = (h, E1)" by fastforce
      from run_step_ok [OF assms(1) ok due h] have E1: "engine_ok C E1" "run_frame E E1" .
      show ?thesis
      proof (cases h)
        case (Inl e)
        with body True h E1 show ?thesis by auto
      next
        case (Inr x)
        with body True h have "loop C V u' E1 = Some re" by simp
        from IH [OF this] E1(1) run_frame_trans [OF E1(2)] show ?thesis by blast
      qed
    qed
  qed
  with assms(3) show ?thesis by simp
qed

lemma run_initialize_ok:
  assumes "engine_ok C E" "run_initialize V E = (r, E')"
  shows "engine_ok C E' \<and> run_frame E E'"
proof (cases "en_initialized E")
  case True
  with assms show ?thesis by (simp add: run_initialize_def)
next
  case False
  obtain h E1 where h: "ad_initialize V E = (h, E1)" by fastforce
  have f: "callback_frame E E1"
    using initialize_frame [unfolded keeps_def, rule_format, of E] by (simp add: h)
  have "engine_ok C E1" using callback_frame_ok [OF f assms(1)] .
  with False assms(2) h callback_run_frame [OF f] show ?thesis
    by (auto simp: run_initialize_def engine_ok_def queue_coherent_def run_frame_def split: sum.splits)
qed

lemma run_ok:
  assumes "json_stable C" "engine_ok C E" "engine_run C V until E = Some (r, E')"
  shows "engine_ok C E'" "run_frame E E'"
proof -
  have "engine_ok C E' \<and> run_frame E E'"
  proof (cases "E' = E")
    case True
    with assms(2) show ?thesis by simp
  next
    case False
    with assms(3) obtain u where u: "map_option (\<lambda>r. case r of
          (Inl e, E') \<Rightarrow> (Inl e, mark_failed e E')
        | (Inr _, E') \<Rightarrow> engine_events C E') (run_body C V u E) = Some (r, E')"
      by (auto simp: engine_run_def split: sum.splits if_splits)
    then obtain b E1 where b: "run_body C V u E = Some (b, E1)" by auto
    have E1: "engine_ok C E1 \<and> run_frame E E1"
    proof (cases "en_adapter E = None")
      case True
      with b assms(2) show ?thesis by (simp add: run_body_def)
    next
      case False
      obtain h E2 where h: "run_initialize V E = (h, E2)" by fastforce
      from run_initialize_ok [OF assms(2) h] have E2: "engine_ok C E2" "run_frame E E2" by auto
      show ?thesis
      proof (cases h)
        case (Inl e)
        with False b h E2 show ?thesis by (auto simp: run_body_def)
      next
        case (Inr x)
        with False b h have "run_loop C V u E2 = Some (b, E1)" by (auto simp: run_body_def)
        from run_loop_ok [OF assms(1) this E2(1)] run_frame_trans [OF E2(2)] show ?thesis by blast
      qed
    qed
    show ?thesis
    proof (cases b)
      case (Inl e)
      with u b have "E' = mark_failed e E1" by simp
      with E1 mark_failed_ok run_frame_trans callback_run_frame [OF mark_failed_frame] show ?thesis by blast
    next
      case (Inr x)
      with u b have "engine_events C E1 = (r, E')" by simp
      then have "E' = E1" by (auto simp: engine_events_def healthy_def split: sum.splits)
      with E1 show ?thesis by simp
    qed
  qed
  then show "engine_ok C E'" "run_frame E E'" by auto
qed

end

section \<open>Identifiers\<close>

lemma be_nat_snoc: "be_nat (bs @ [b]) = 256 * be_nat bs + b"
  by (simp add: be_nat_def)

lemma be_nat_bound: "\<forall>b \<in> set bs. b < 256 \<Longrightarrow> be_nat bs < 256 ^ length bs"
proof (induction bs rule: rev_induct)
  case (snoc b bs)
  then have "be_nat bs + 1 \<le> 256 ^ length bs" "b < 256" by auto
  then have "256 * (be_nat bs + 1) \<le> 256 * 256 ^ length bs" by (intro mult_le_mono2) auto
  with \<open>b < 256\<close> show ?case by (simp add: be_nat_snoc)
qed (simp add: be_nat_def)

definition prefix_ok :: "nat \<Rightarrow> bool" where
  "prefix_ok p \<longleftrightarrow> p < 2 ^ 80 \<and> p div 2 ^ 14 mod 4 = 2 \<and> p div 2 ^ 28 mod 16 = 4"

lemma uuid_prefix_ok:
  assumes "length bs = 10" "\<forall>b \<in> set bs. b < 256"
  shows "prefix_ok (be_nat (uuid_prefix_bytes bs))"
proof -
  from assms(1) obtain b0 b1 b2 b3 b4 b5 b6 b7 b8 b9 where bs: "bs = [b0, b1, b2, b3, b4, b5, b6, b7, b8, b9]"
    by (auto simp: length_Suc_conv eval_nat_numeral)
  define m where "m = b6 mod 16"
  define k where "k = b8 mod 64"
  have small: "m < 16" "k < 64" "b7 < 256" "b9 < 256" using assms(2) by (auto simp: m_def k_def bs)
  have ubs: "uuid_prefix_bytes bs = [b0, b1, b2, b3, b4, b5, m + 64, b7, k + 128, b9]"
    by (simp add: uuid_prefix_bytes_def bs m_def k_def)
  define h where "h = be_nat [b0, b1, b2, b3, b4, b5]"
  have p: "be_nat (uuid_prefix_bytes bs) = 4294967296 * h + 16777216 * (m + 64) + 65536 * b7 + 256 * (k + 128) + b9"
    by (simp add: ubs h_def be_nat_def algebra_simps)
  have "be_nat (uuid_prefix_bytes bs) < 256 ^ length (uuid_prefix_bytes bs)"
    by (rule be_nat_bound, unfold ubs) (use assms(2) small in \<open>simp add: bs\<close>)
  moreover define a where "a = 65536 * h + 256 * (m + 64) + b7"
  moreover have "be_nat (uuid_prefix_bytes bs) div 16384 = 4 * a + 2"
    by (rule div_nat_eqI) (use small in \<open>simp_all add: p a_def\<close>)
  moreover have "(4 * a + 2) mod 4 = 2" "(16 * h + 4) mod 16 = 4"
    by presburger+
  moreover have "be_nat (uuid_prefix_bytes bs) div 268435456 = 16 * h + 4"
    by (rule div_nat_eqI) (use small in \<open>simp_all add: p\<close>)
  ultimately show ?thesis by (simp add: prefix_ok_def del: add_2_eq_Suc') (simp add: ubs)
qed

lemma engine_uuid_value:
  assumes "prefix_ok p" "n < 2 ^ 48"
  shows "p * 2 ^ 48 + n < 2 ^ 128" "uuid_version (p * 2 ^ 48 + n) = Some 4"
    "uuid_prefix (p * 2 ^ 48 + n) = p" "uuid_sequence (p * 2 ^ 48 + n) = n"
proof -
  have "p + 1 \<le> 2 ^ 80" using assms(1) by (simp add: prefix_ok_def)
  then have "(p + 1) * 2 ^ 48 \<le> 2 ^ 80 * 2 ^ 48" by (rule mult_le_mono1)
  then show "p * 2 ^ 48 + n < 2 ^ 128" using assms(2) by simp
  have d: "(p * 2 ^ 48 + n) div 2 ^ 48 = p" using assms(2) by simp
  have "(p * 2 ^ 48 + n) div 2 ^ 62 = p div 2 ^ 14"
    using div_mult2_eq [of "p * 2 ^ 48 + n" "2 ^ 48" "2 ^ 14"] d by simp
  moreover have "(p * 2 ^ 48 + n) div 2 ^ 76 = p div 2 ^ 28"
    using div_mult2_eq [of "p * 2 ^ 48 + n" "2 ^ 48" "2 ^ 28"] d by simp
  ultimately show "uuid_version (p * 2 ^ 48 + n) = Some 4"
    using assms(1) by (simp add: uuid_version_def prefix_ok_def)
  show "uuid_prefix (p * 2 ^ 48 + n) = p" "uuid_sequence (p * 2 ^ 48 + n) = n"
    using d assms(2) by (simp_all add: uuid_prefix_def uuid_sequence_def)
qed

lemma engine_new_uuid_Inr:
  "engine_new_uuid E = (Inr u, E') \<longleftrightarrow> en_failure E = None \<and> en_uuid_sequence E < 2 ^ 48 \<and>
     u = uuid_text (en_uuid_prefix E * 2 ^ 48 + en_uuid_sequence E) \<and>
     E' = E\<lparr>en_uuid_sequence := en_uuid_sequence E + 1\<rparr>"
  by (auto simp: engine_new_uuid_def healthy_def ensure_healthy_def Let_def split: option.splits)

lemma new_uuid_text:
  assumes "prefix_ok (en_uuid_prefix E)" "engine_new_uuid E = (Inr u, E')"
  shows "\<exists>n. u = uuid_text n \<and> n < 2 ^ 128 \<and> uuid_of_text u = Some n \<and> uuid_version n = Some 4 \<and>
    uuid_prefix n = en_uuid_prefix E \<and> uuid_sequence n = en_uuid_sequence E"
  using assms engine_uuid_value [OF assms(1), of "en_uuid_sequence E"]
  by (auto simp: engine_new_uuid_Inr intro!: uuid_roundtrip)

section \<open>Replaying an artifact\<close>

lemma owned_json: "owned_event C ev \<Longrightarrow> dump_event C ev = Inr j \<Longrightarrow> load_event C j = Inr ev"
  by (auto simp: owned_event_def)

lemma owned_events_validate: "\<forall>ev \<in> set evs. owned_event C ev \<Longrightarrow> mapr (validated_event C) evs = Inr evs"
  by (rule mapr_fixed) (simp add: owned_event_def)

lemma owned_events_dump: "\<forall>ev \<in> set evs. owned_event C ev \<Longrightarrow> \<exists>js. mapr (dump_event C) evs = Inr js"
  by (induction evs) (auto simp: owned_event_def)

lemma history_prefix: "history_ok C b (evs @ [ev]) \<Longrightarrow> history_ok C b evs"
  by (auto simp: history_ok_def sorted_wrt_append)

lemma mapr_append: "mapr f (xs @ ys) = bindr (mapr f xs) (\<lambda>us. bindr (mapr f ys) (\<lambda>vs. Inr (us @ vs)))"
proof (induction xs)
  case Nil
  then show ?case by (cases "mapr f ys") auto
next
  case (Cons x xs)
  then show ?case by (cases "f x"; cases "mapr f xs"; cases "mapr f ys") auto
qed

lemma replay_history:
  "history_ok C b evs \<Longrightarrow> mapr (dump_event C) evs = Inr js \<Longrightarrow> foldlr (replay_step C) [] js = Inr evs"
proof (induction evs arbitrary: js rule: rev_induct)
  case (snoc ev evs)
  from snoc.prems(2) obtain us j where js: "js = us @ [j]" "mapr (dump_event C) evs = Inr us"
    "dump_event C ev = Inr j"
    by (auto simp: mapr_append res_simps)
  have own: "owned_event C ev" using snoc.prems(1) by (simp add: history_ok_def)
  have "\<not> event_key ev < event_key (last evs)" if "evs \<noteq> []"
    using snoc.prems(1) last_in_set [OF that]
    by (auto simp: history_ok_def sorted_wrt_append dest: order_less_asym)
  moreover have "pe_event_id ev \<notin> pe_event_id ` set evs"
    using snoc.prems(1) by (auto simp: history_ok_def)
  ultimately have "replay_step C evs j = Inr (evs @ [ev])"
    using own js(3) by (auto simp: replay_step_def owned_event_def)
  with snoc.IH [OF history_prefix [OF snoc.prems(1)] js(2)] show ?case
    by (simp add: js(1) foldlr_append)
qed simp

lemma engine_replays:
  assumes "engine_ok C E" "en_failure E = None"
  shows "\<exists>js. serialize_events C E = (Inr js, E) \<and> replay_events C (Some js) = Inr (en_events E)"
proof -
  from assms(1) have h: "history_ok C (en_bundle E) (en_events E)" by (simp add: engine_ok_def)
  then have own: "\<forall>ev \<in> set (en_events E). owned_event C ev" by (simp add: history_ok_def)
  from owned_events_dump [OF own] obtain js where js: "mapr (dump_event C) (en_events E) = Inr js" by blast
  with replay_history [OF h js] owned_events_validate [OF own] assms(2) show ?thesis
    by (simp add: serialize_events_def healthy_def ensure_healthy_def replay_events_def)
qed

section \<open>Failure\<close>

lemma failed_operations:
  assumes "en_failure E = Some e"
  shows "engine_schedule t prio cmd E = (Inl SimulationFailedError, E)"
    "engine_post entry E = (Inl SimulationFailedError, E)"
    "engine_entity_state i E = (Inl SimulationFailedError, E)"
    "engine_set_entity_state i v E = (Inl SimulationFailedError, E)"
    "engine_new_uuid E = (Inl SimulationFailedError, E)"
    "engine_emit C ev E = (Inl SimulationFailedError, E)"
    "engine_events C E = (Inl SimulationFailedError, E)"
    "serialize_events C E = (Inl SimulationFailedError, E)"
    "engine_run C V until E = Some (Inl SimulationFailedError, E)"
  using assms
  by (simp_all add: engine_schedule_def engine_post_def engine_entity_state_def
      engine_set_entity_state_def engine_new_uuid_def engine_emit_def engine_events_def
      serialize_events_def engine_run_def healthy_def ensure_healthy_def)

lemma mark_failed_failed [simp]: "en_failure (mark_failed e E) \<noteq> None"
  by (auto simp: mark_failed_def split: option.splits)

end
