(* ===== verification/Sha256.thy ===== *)
theory Sha256
  imports PyText "HOL-Library.Word"
begin

unbundle bit_operations_syntax

text \<open>
  \<open>hashlib.sha256(data).hexdigest()\<close> as a function on byte strings (lists of characters),
  after FIPS 180-4 on 32-bit words. The development computes no digest in a proof: what the
  program relies on is that a digest is a function of its input and is 64 lowercase
  hexadecimal digits.
\<close>

type_synonym u32 = "32 word"

definition sha_k :: "u32 list" where
  "sha_k = [
     0x428A2F98, 0x71374491, 0xB5C0FBCF, 0xE9B5DBA5,
     0x3956C25B, 0x59F111F1, 0x923F82A4, 0xAB1C5ED5,
     0xD807AA98, 0x12835B01, 0x243185BE, 0x550C7DC3,
     0x72BE5D74, 0x80DEB1FE, 0x9BDC06A7, 0xC19BF174,
     0xE49B69C1, 0xEFBE4786, 0x0FC19DC6, 0x240CA1CC,
     0x2DE92C6F, 0x4A7484AA, 0x5CB0A9DC, 0x76F988DA,
     0x983E5152, 0xA831C66D, 0xB00327C8, 0xBF597FC7,
     0xC6E00BF3, 0xD5A79147, 0x06CA6351, 0x14292967,
     0x27B70A85, 0x2E1B2138, 0x4D2C6DFC, 0x53380D13,
     0x650A7354, 0x766A0ABB, 0x81C2C92E, 0x92722C85,
     0xA2BFE8A1, 0xA81A664B, 0xC24B8B70, 0xC76C51A3,
     0xD192E819, 0xD6990624, 0xF40E3585, 0x106AA070,
     0x19A4C116, 0x1E376C08, 0x2748774C, 0x34B0BCB5,
     0x391C0CB3, 0x4ED8AA4A, 0x5B9CCA4F, 0x682E6FF3,
     0x748F82EE, 0x78A5636F, 0x84C87814, 0x8CC70208,
     0x90BEFFFA, 0xA4506CEB, 0xBEF9A3F7, 0xC67178F2]"

definition sha_h0 :: "u32 list" where
  "sha_h0 = [
     0x6A09E667, 0xBB67AE85, 0x3C6EF372, 0xA54FF53A,
     0x510E527F, 0x9B05688C, 0x1F83D9AB, 0x5BE0CD19]"

definition sha_pad :: "string \<Rightarrow> string" where
  "sha_pad m = m @ [CHR 0x80] @ replicate ((119 - length m mod 64) mod 64) (CHR 0x00) @
     map (\<lambda>i. char_of (8 * length m div 256 ^ i mod 256)) [7, 6, 5, 4, 3, 2, 1, 0]"

fun be_words :: "string \<Rightarrow> u32 list" where
  "be_words (a # b # c # d # r) =
     (push_bit 24 (of_char a) OR push_bit 16 (of_char b) OR push_bit 8 (of_char c) OR of_char d)
     # be_words r"
| "be_words _ = []"

definition small_sigma0 :: "u32 \<Rightarrow> u32" where
  "small_sigma0 x = word_rotr 7 x XOR word_rotr 18 x XOR drop_bit 3 x"

definition small_sigma1 :: "u32 \<Rightarrow> u32" where
  "small_sigma1 x = word_rotr 17 x XOR word_rotr 19 x XOR drop_bit 10 x"

definition big_sigma0 :: "u32 \<Rightarrow> u32" where
  "big_sigma0 x = word_rotr 2 x XOR word_rotr 13 x XOR word_rotr 22 x"

definition big_sigma1 :: "u32 \<Rightarrow> u32" where
  "big_sigma1 x = word_rotr 6 x XOR word_rotr 11 x XOR word_rotr 25 x"

text \<open>The message schedule, most recent word first.\<close>

primrec sha_schedule :: "nat \<Rightarrow> u32 list \<Rightarrow> u32 list" where
  "sha_schedule 0 ws = ws"
| "sha_schedule (Suc n) ws = sha_schedule n
     ((small_sigma1 (ws ! 1) + ws ! 6 + small_sigma0 (ws ! 14) + ws ! 15) # ws)"

type_synonym sha_vars = "u32 \<times> u32 \<times> u32 \<times> u32 \<times> u32 \<times> u32 \<times> u32 \<times> u32"

fun sha_round :: "sha_vars \<Rightarrow> u32 \<times> u32 \<Rightarrow> sha_vars" where
  "sha_round (a, b, c, d, e, f, g, h) (k, w) =
     (let t1 = h + big_sigma1 e + ((e AND f) XOR (NOT e AND g)) + k + w;
          t2 = big_sigma0 a + ((a AND b) XOR (a AND c) XOR (b AND c))
      in (t1 + t2, a, b, c, d + t1, e, f, g))"

fun sha_list :: "sha_vars \<Rightarrow> u32 list" where
  "sha_list (a, b, c, d, e, f, g, h) = [a, b, c, d, e, f, g, h]"

definition sha_block :: "u32 list \<Rightarrow> u32 list \<Rightarrow> u32 list" where
  "sha_block hs ws =
     (let ks = zip sha_k (rev (sha_schedule 48 (rev ws)));
          v = (hs ! 0, hs ! 1, hs ! 2, hs ! 3, hs ! 4, hs ! 5, hs ! 6, hs ! 7)
      in map2 (+) hs (sha_list (foldl sha_round v ks)))"

primrec sha_blocks :: "nat \<Rightarrow> u32 list \<Rightarrow> u32 list \<Rightarrow> u32 list" where
  "sha_blocks 0 hs ws = hs"
| "sha_blocks (Suc n) hs ws = sha_blocks n (sha_block hs (take 16 ws)) (drop 16 ws)"

definition sha256_words :: "string \<Rightarrow> u32 list" where
  "sha256_words m = (let ws = be_words (sha_pad m) in sha_blocks (length ws div 16) sha_h0 ws)"

definition sha256_hex :: "string \<Rightarrow> string" where
  "sha256_hex m = concat (map (\<lambda>w. hexw 8 (unat w)) (sha256_words m))"

section \<open>Shape of a digest\<close>

definition digest_ok :: "string \<Rightarrow> bool" where
  "digest_ok s \<longleftrightarrow> length s = 64 \<and> list_all lower_hex s"

lemma length_sha_blocks: "length hs = 8 \<Longrightarrow> length (sha_blocks n hs ws) = 8"
proof (induction n arbitrary: hs ws)
  case (Suc n)
  have "length (sha_list v) = 8" for v by (cases v rule: sha_list.cases) simp
  then have "length (sha_block hs (take 16 ws)) = 8"
    by (simp add: sha_block_def Let_def Suc.prems)
  then show ?case by (simp add: Suc.IH)
qed simp

lemma digest_ok_sha256 [simp]: "digest_ok (sha256_hex m)"
proof -
  have "length (sha256_words m) = 8"
    by (simp add: sha256_words_def Let_def length_sha_blocks sha_h0_def)
  then have "length (sha256_hex m) = 64"
    by (simp add: sha256_hex_def length_concat comp_def sum_list_triv)
  then show ?thesis
    by (auto simp: digest_ok_def sha256_hex_def list_all_iff dest: hexw_lower)
qed

lemma sha256_not_empty [simp]: "sha256_hex m \<noteq> []"
  using digest_ok_sha256 [of m] by (auto simp: digest_ok_def)

end
