(* ===== verification/Lifecycle.thy ===== *)
theory Lifecycle
  imports Engine Sha256
begin

text \<open>
  What \<open>rails/card.py\<close> and \<open>rails/a2a.py\<close> share: field checks, request fingerprints, the
  commitment chain over the idempotency records, and the flow of validation, retry, transition and
  posting in \<open>handle\<close>. A \<open>lifecycle\<close> record holds what differs between the two rails (tables,
  schemas, texts and effects); the theories of the rails fill it in. The lemmas are proved once, for
  any rail that meets the interface \<open>lifecycle_rail\<close>.
\<close>

section \<open>Texts of decimals\<close>

text \<open>\<open>str(Decimal)\<close>\<close>

fun dec_str :: "pydec \<Rightarrow> string" where
  "dec_str (Dec s c e) =
     (let ds = nat_str c;
          left = e + int (length ds);
          dot = if e \<le> 0 \<and> left > - 6 then left else 1;
          digits = if dot \<le> 0 then ''0.'' @ replicate (nat (- dot)) (CHR ''0'') @ ds
                   else if dot \<ge> int (length ds)
                   then ds @ replicate (nat dot - length ds) (CHR ''0'')
                   else take (nat dot) ds @ ''.'' @ drop (nat dot) ds;
          ex = left - dot
      in (if s then ''-'' else []) @ digits @
         (if ex = 0 then [] else ''E'' @ (if 0 < ex then ''+'' else []) @ int_str ex))"
| "dec_str (DInf s) = (if s then ''-Infinity'' else ''Infinity'')"
| "dec_str DNaN = ''NaN''"

section \<open>Field checks\<close>

definition dict_get :: "payload \<Rightarrow> string \<Rightarrow> pyval res" where
  "dict_get d k = (case map_of d k of None \<Rightarrow> Inl (KeyError k) | Some v \<Rightarrow> Inr v)"

fun rail_text :: "string \<Rightarrow> pyval \<Rightarrow> string res" where
  "rail_text l (PStr s) = (if s = [] then Inl (ValueError (l @ '' must not be empty'')) else Inr s)"
| "rail_text l _ = Inl (TypeError (l @ '' must be an exact string''))"

definition rail_uuid_text :: "string \<Rightarrow> pyval \<Rightarrow> string res" where
  "rail_uuid_text l v = bindr (rail_text l v) (\<lambda>t.
     if uuid_of_text t = None then Inl (ValueError (l @ '' must be a UUID string'')) else Inr t)"

definition history_event_position :: "pyval \<Rightarrow> (string \<times> nat \<times> nat) res" where
  "history_event_position v = bindr (rail_text ''history event_id'' v) (\<lambda>t.
     case uuid_of_text t of
       None \<Rightarrow> Inl (ValueError ''history event_id must be a UUID string'')
     | Some n \<Rightarrow>
         if uuid_text n \<noteq> t \<or> uuid_version n \<noteq> Some 4
         then Inl (ValueError ''history event_id must be a canonical version-4 UUID'')
         else Inr (t, uuid_prefix n, uuid_sequence n))"

definition rail_exponents :: "(string \<times> int) list" where
  "rail_exponents = [(''EUR'', 2), (''JPY'', 0), (''KWD'', 3), (''USD'', 2)]"

fun rail_money :: "string \<Rightarrow> pyval \<Rightarrow> string \<Rightarrow> bool \<Rightarrow> pydec res" where
  "rail_money l (PDec a) currency positive =
     (if \<not> dfinite a \<or> (if positive then dec_le a dec_zero else dec_less a dec_zero)
      then Inl (ValueError (l @ '' must be finite and '' @ (if positive then ''positive'' else ''non-negative'')))
      else case map_of rail_exponents currency of
        None \<Rightarrow> Inl (ValueError (''unsupported currency: '' @ currency))
      | Some e \<Rightarrow>
          bindr (rethrow (ValueError (l @ '' cannot be represented in '' @ currency)) (quantize a (- e))) (\<lambda>q.
          if positive \<and> dec_le q dec_zero then Inl (ValueError (l @ '' must be finite and positive''))
          else Inr q))"
| "rail_money l _ currency positive = Inl (TypeError (l @ '' must be an exact Decimal''))"

definition require_distinct_accounts :: "string \<Rightarrow> string list \<Rightarrow> unit res" where
  "require_distinct_accounts rail_name accounts =
     (if distinct accounts then Inr ()
      else Inl (ValueError (rail_name @ '' account roles must be pairwise distinct'')))"

fun fingerprint_row :: "string \<Rightarrow> string \<times> pyval \<Rightarrow> string list res" where
  "fingerprint_row rail_name (k, PStr s) = Inr [k, ''str'', s]"
| "fingerprint_row rail_name (k, PDec d) = Inr [k, ''decimal'', dec_str d]"
| "fingerprint_row rail_name _ = Inl (TypeError (rail_name @ '' command payload contains unsupported value type''))"

definition payload_fingerprint :: "string \<Rightarrow> payload \<Rightarrow> string res" where
  "payload_fingerprint rail_name p =
     bindr (mapr (fingerprint_row rail_name) (sort_key fst p)) (\<lambda>rows. Inr (sha256_hex (json_rows rows)))"

fun digest_text :: "string \<Rightarrow> pyval \<Rightarrow> string res" where
  "digest_text l (PStr s) = (if digest_ok s then Inr s
     else Inl (ValueError (l @ '' must be a lowercase SHA-256 digest'')))"
| "digest_text l _ = Inl (ValueError (l @ '' must be a lowercase SHA-256 digest''))"

definition record_commitment ::
  "string \<Rightarrow> string \<Rightarrow> string \<Rightarrow> string \<Rightarrow> string \<Rightarrow> string \<Rightarrow> string \<Rightarrow> string" where
  "record_commitment domain previous payment_id operation key fingerprint event_id =
     sha256_hex (json_rows
       [[''domain'', domain], [''previous_commitment'', previous], [''payment_id'', payment_id],
        [''operation'', operation], [''idempotency_key'', key],
        [''request_fingerprint'', fingerprint], [''event_id'', event_id]])"

section \<open>What differs between the rails\<close>

record 'st lifecycle =
  lc_code :: string
  lc_name :: string
  lc_domain :: string
  lc_rail :: rail
  lc_operations :: "(command_class \<times> string) list"
  lc_opening :: "command_class \<Rightarrow> bool"
  lc_fields :: "string list"
  lc_open_command :: "command_class \<Rightarrow> payload \<Rightarrow> command res"
  lc_state_value :: "'st \<Rightarrow> string"
  lc_state_of :: "string \<Rightarrow> 'st option"
  lc_created :: 'st
  lc_transitions :: "(('st \<times> command_class) \<times> ('st \<times> event_kind \<times> string)) list"
  lc_missing :: "(command_class \<times> string) list"
  lc_invalid_code :: "'st \<Rightarrow> command_class \<Rightarrow> string"
  lc_check_fields :: "payload \<Rightarrow> unit res"
  lc_effect :: "payload \<Rightarrow> string \<Rightarrow> string \<Rightarrow> ledger_entry option res"

definition lc_error :: "'st lifecycle \<Rightarrow> string \<Rightarrow> exn" where
  "lc_error R suffix = LifecycleError (lc_code R @ suffix)"

section \<open>Commands\<close>

definition payload_str :: "payload \<Rightarrow> string \<Rightarrow> string" where
  "payload_str p k = (case map_of p k of Some (PStr s) \<Rightarrow> s | _ \<Rightarrow> [])"

definition default_key :: "string \<Rightarrow> string \<Rightarrow> pyval \<Rightarrow> pyval" where
  "default_key name payment_id v = (if v = PNone then PStr (name @ '':'' @ payment_id) else v)"

text \<open>The \<open>__init__\<close> of the follow-up command classes.\<close>

definition followup_command :: "command_class \<Rightarrow> string \<Rightarrow> pyval \<Rightarrow> pyval \<Rightarrow> command res" where
  "followup_command cls name payment_id key =
     bindr (rail_text ''payment_id'' payment_id) (\<lambda>pid.
     bindr (rail_text ''idempotency_key'' (default_key name pid key)) (\<lambda>k.
     new_command cls (PStr name)
       [(PStr ''payment_id'', PStr pid), (PStr ''idempotency_key'', PStr k)]))"

text \<open>The command a class and its arguments build: \<open>opening_type(...)\<close> or \<open>followup_type(...)\<close>.\<close>

definition build_command :: "'st lifecycle \<Rightarrow> command_class \<Rightarrow> payload \<Rightarrow> command res" where
  "build_command R cls args =
     (if lc_opening R cls then lc_open_command R cls args
      else bindr (dict_get args ''payment_id'') (\<lambda>p.
           bindr (dict_get args ''idempotency_key'') (\<lambda>k.
           case map_of (lc_operations R) cls of
             None \<Rightarrow> Inl (KeyError [])
           | Some name \<Rightarrow> followup_command cls name p k)))"

definition canonical_command :: "'st lifecycle \<Rightarrow> command \<Rightarrow> command res" where
  "canonical_command R cmd =
     (case map_of (lc_operations R) (cmd_class cmd) of
        None \<Rightarrow> Inl (lc_error R ''_UNKNOWN_COMMAND'')
      | Some operation \<Rightarrow>
          rethrow (lc_error R ''_COMMAND_INVALID'')
            (if cmd_name cmd \<noteq> operation
             then Inl (ValueError ''command name does not match concrete operation'')
             else if set (map fst (cmd_payload cmd)) \<noteq>
               (if lc_opening R (cmd_class cmd) then set (lc_fields R) \<union> {''idempotency_key''}
                else {''payment_id'', ''idempotency_key''})
             then Inl (ValueError ''command payload fields do not match concrete operation'')
             else
               bindr (payload_fingerprint (lc_name R) (cmd_payload cmd)) (\<lambda>incoming.
               bindr (build_command R (cmd_class cmd) (cmd_payload cmd)) (\<lambda>canonical.
               bindr (payload_fingerprint (lc_name R) (cmd_payload canonical)) (\<lambda>fp.
               if fp \<noteq> incoming then Inl (ValueError ''command payload is not canonical'')
               else Inr canonical)))))"

section \<open>History\<close>

definition operation_class :: "'st lifecycle \<Rightarrow> string \<Rightarrow> command_class option" where
  "operation_class R operation = map_of (map (\<lambda>(c, n). (n, c)) (lc_operations R)) operation"

definition command_from_record :: "'st lifecycle \<Rightarrow> string \<Rightarrow> string \<Rightarrow> payload \<Rightarrow> command res" where
  "command_from_record R operation key state =
     (case operation_class R operation of
        None \<Rightarrow> Inl (KeyError operation)
      | Some cls \<Rightarrow> build_command R cls (AList.update ''idempotency_key'' (PStr key) state))"

record 'st history =
  hs_keys :: "string list"
  hs_event_ids :: "string list"
  hs_prefix :: "nat option"
  hs_sequence :: int
  hs_state :: 'st
  hs_commitment :: string
  hs_index :: nat

definition new_history :: "'st lifecycle \<Rightarrow> 'st history" where
  "new_history R = \<lparr>hs_keys = [], hs_event_ids = [], hs_prefix = None, hs_sequence = - 1,
     hs_state = lc_created R, hs_commitment = [], hs_index = 0\<rparr>"

text \<open>The second half of the loop body over \<open>idempotency_records\<close>: the identifier's place in the
  sequence, the request the record stands for, its commitment and its transition.\<close>

definition history_link ::
  "'st lifecycle \<Rightarrow> payload \<Rightarrow> string \<Rightarrow> 'st history \<Rightarrow> string \<Rightarrow> string \<Rightarrow> string \<Rightarrow> string \<Rightarrow>
    string \<Rightarrow> nat \<Rightarrow> nat \<Rightarrow> 'st history res" where
  "history_link R state payment_id h key operation fingerprint commitment event_id prefix sequence =
     bindr (ensure (event_id \<notin> set (hs_event_ids h))
       (ValueError ''idempotency record event IDs must be unique'')) (\<lambda>_.
     bindr (ensure (hs_prefix h = None \<or> hs_prefix h = Some prefix)
       (ValueError ''idempotency record event IDs must share an engine prefix'')) (\<lambda>_.
     bindr (ensure (hs_sequence h < int sequence)
       (ValueError ''idempotency record event IDs must increase'')) (\<lambda>_.
     bindr (command_from_record R operation key state) (\<lambda>command.
     bindr (payload_fingerprint (lc_name R) (cmd_payload command)) (\<lambda>fp.
     bindr (ensure (fp = fingerprint)
       (ValueError ''idempotency record fingerprint does not match request'')) (\<lambda>_.
     bindr (ensure (commitment = record_commitment (lc_domain R) (hs_commitment h) payment_id operation
         key fingerprint event_id)
       (ValueError ''idempotency record commitment does not match history'')) (\<lambda>_.
     bindr (ensure (hs_index h = 0 \<longrightarrow> lc_opening R (cmd_class command))
       (ValueError ''history must begin with an opening operation'')) (\<lambda>_.
     bindr (ensure (0 < hs_index h \<longrightarrow> \<not> lc_opening R (cmd_class command))
       (ValueError ''history contains a repeated opening operation'')) (\<lambda>_.
     case map_of (lc_transitions R) (hs_state h, cmd_class command) of
       None \<Rightarrow> Inl (ValueError ''history contains an illegal transition'')
     | Some (next, _) \<Rightarrow>
         Inr \<lparr>hs_keys = hs_keys h @ [key], hs_event_ids = hs_event_ids h @ [event_id],
              hs_prefix = Some prefix, hs_sequence = int sequence, hs_state = next,
              hs_commitment = commitment, hs_index = hs_index h + 1\<rparr>)))))))))"

text \<open>The loop body, on the five fields of a record.\<close>

definition history_record ::
  "'st lifecycle \<Rightarrow> payload \<Rightarrow> string \<Rightarrow> 'st history \<Rightarrow> pyval \<Rightarrow> pyval \<Rightarrow> pyval \<Rightarrow> pyval \<Rightarrow> pyval \<Rightarrow>
    'st history res" where
  "history_record R state payment_id h key_v operation_v fingerprint_v event_v commitment_v =
     bindr (rail_text ''idempotency record key'' key_v) (\<lambda>key.
     bindr (rail_text ''idempotency record operation'' operation_v) (\<lambda>operation.
     bindr (ensure (operation \<in> snd ` set (lc_operations R))
       (ValueError ''idempotency record operation is invalid'')) (\<lambda>_.
     bindr (digest_text ''idempotency record fingerprint'' fingerprint_v) (\<lambda>fingerprint.
     bindr (digest_text ''idempotency record commitment'' commitment_v) (\<lambda>commitment.
     bindr (ensure (key \<notin> set (hs_keys h))
       (ValueError ''idempotency record keys must be unique'')) (\<lambda>_.
     bindr (history_event_position event_v) (\<lambda>(event_id, prefix, sequence).
     history_link R state payment_id h key operation fingerprint commitment event_id prefix sequence)))))))"

definition history_step ::
  "'st lifecycle \<Rightarrow> payload \<Rightarrow> string \<Rightarrow> 'st history \<Rightarrow> pyval \<Rightarrow> 'st history res" where
  "history_step R state payment_id h r = (case r of
       PTuple [key, operation, fingerprint, event_id, commitment] \<Rightarrow>
         history_record R state payment_id h key operation fingerprint event_id commitment
     | _ \<Rightarrow> Inl (ValueError ''idempotency record must contain five fields''))"

section \<open>Stored state\<close>

definition lc_state_keys :: "'st lifecycle \<Rightarrow> string list" where
  "lc_state_keys R = ''state'' # lc_fields R @ [''last_event_id'', ''history_commitment'', ''idempotency_records'']"

fun owned_mapping :: "pyval \<Rightarrow> payload res" where
  "owned_mapping (PMap k kvs) =
     (if k = PyOtherMapping then Inl (TypeError ''state must be an owned mapping'')
      else bindr (mapr (\<lambda>(k, v). bindr (str_key ''state fields do not match schema'' k)
             (\<lambda>s. Inr (plain_key s, v))) kvs) Inr)"
| "owned_mapping _ = Inl (TypeError ''state must be an owned mapping'')"

fun exact_str :: "string \<Rightarrow> pyval \<Rightarrow> string res" where
  "exact_str l (PStr s) = Inr s"
| "exact_str l _ = Inl (TypeError (l @ '' must be an exact string''))"

fun exact_tuple :: "string \<Rightarrow> pyval \<Rightarrow> pyval list res" where
  "exact_tuple l (PTuple xs) = Inr xs"
| "exact_tuple l _ = Inl (TypeError (l @ '' must be an exact tuple''))"

definition check_terminal :: "'st history \<Rightarrow> pyval list \<Rightarrow> string \<Rightarrow> string \<Rightarrow> unit res" where
  "check_terminal h records last_event_id commitment =
     (if records \<noteq> []
      then bindr (ensure (last_event_id = last (hs_event_ids h))
             (ValueError ''last_event_id does not match final history record'')) (\<lambda>_.
           ensure (commitment = hs_commitment h)
             (ValueError ''history_commitment does not match final record''))
      else ensure (last_event_id = [] \<and> commitment = [])
             (ValueError ''terminal history fields do not match empty history''))"

text \<open>\<open>CardState(text)\<close>, \<open>A2AState(text)\<close>\<close>

definition state_member :: "'st lifecycle \<Rightarrow> string \<Rightarrow> 'st res" where
  "state_member R t = (case lc_state_of R t of
       None \<Rightarrow> Inl (ValueError ''not a valid state'') | Some s \<Rightarrow> Inr s)"

definition validated_state :: "'st lifecycle \<Rightarrow> pyval \<Rightarrow> string \<Rightarrow> payload res" where
  "validated_state R v expected_payment_id =
     rethrow (lc_error R ''_STATE_CORRUPT'')
     (bindr (owned_mapping v) (\<lambda>state.
      bindr (ensure (set (map fst state) = set (lc_state_keys R))
        (ValueError ''state fields do not match schema'')) (\<lambda>_.
      bindr (bindr (dict_get state ''state'') (rail_text ''state'')) (\<lambda>state_text.
      bindr (state_member R state_text) (\<lambda>stored.
      bindr (bindr (dict_get state ''payment_id'') (rail_text ''payment_id'')) (\<lambda>payment_id.
      bindr (ensure (payment_id = expected_payment_id)
        (ValueError ''state payment_id does not match entity key'')) (\<lambda>_.
      bindr (lc_check_fields R state) (\<lambda>_.
      bindr (bindr (dict_get state ''last_event_id'') (exact_str ''last_event_id'')) (\<lambda>last_event_id.
      bindr (if last_event_id = [] then Inr [] else rail_uuid_text ''last_event_id'' (PStr last_event_id)) (\<lambda>_.
      bindr (bindr (dict_get state ''history_commitment'') (exact_str ''history_commitment'')) (\<lambda>commitment.
      bindr (if commitment = [] then Inr [] else digest_text ''history_commitment'' (PStr commitment)) (\<lambda>_.
      bindr (bindr (dict_get state ''idempotency_records'') (exact_tuple ''idempotency_records'')) (\<lambda>records.
      bindr (foldlr (history_step R state payment_id) (new_history R) records) (\<lambda>h.
      bindr (check_terminal h records last_event_id commitment) (\<lambda>_.
      bindr (ensure (hs_state h = stored)
        (ValueError ''stored state does not match replayed history'')) (\<lambda>_.
      Inr state))))))))))))))))"

definition opening_state :: "'st lifecycle \<Rightarrow> command \<Rightarrow> pyval" where
  "opening_state R cmd = str_map (
     (''state'', PStr (lc_state_value R (lc_created R))) #
     map (\<lambda>k. (k, case map_of (cmd_payload cmd) k of Some v \<Rightarrow> v | None \<Rightarrow> PNone)) (lc_fields R) @
     [(''last_event_id'', PStr []), (''history_commitment'', PStr []), (''idempotency_records'', PTuple [])])"

section \<open>Retries\<close>

fun record_match :: "string \<Rightarrow> string \<Rightarrow> string \<Rightarrow> pyval \<Rightarrow> bool option" where
  "record_match key operation fingerprint (PTuple [k, recorded_operation, recorded_fingerprint, _, _]) =
     (if k = PStr key
      then Some (recorded_operation = PStr operation \<and> recorded_fingerprint = PStr fingerprint)
      else None)"
| "record_match key operation fingerprint _ = None"

fun find_retry :: "exn \<Rightarrow> (pyval \<Rightarrow> bool option) \<Rightarrow> pyval list \<Rightarrow> bool res" where
  "find_retry e m [] = Inr False"
| "find_retry e m (r # rs) = (case m r of
       None \<Rightarrow> find_retry e m rs
     | Some True \<Rightarrow> Inr True
     | Some False \<Rightarrow> Inl e)"

definition command_operation :: "'st lifecycle \<Rightarrow> command \<Rightarrow> string" where
  "command_operation R cmd = (case map_of (lc_operations R) (cmd_class cmd) of None \<Rightarrow> [] | Some n \<Rightarrow> n)"

definition is_idempotent_retry :: "'st lifecycle \<Rightarrow> payload \<Rightarrow> command \<Rightarrow> (bool \<times> pyval list) res" where
  "is_idempotent_retry R state cmd =
     bindr (bindr (dict_get state ''idempotency_records'') (exact_tuple ''idempotency_records'')) (\<lambda>records.
     bindr (payload_fingerprint (lc_name R) (cmd_payload cmd)) (\<lambda>fp.
     bindr (find_retry (lc_error R ''_IDEMPOTENCY_KEY_COLLISION'')
       (record_match (payload_str (cmd_payload cmd) ''idempotency_key'') (command_operation R cmd) fp) records)
       (\<lambda>b. Inr (b, records))))"

section \<open>Handling a command\<close>

definition lifecycle_event ::
  "'st lifecycle \<Rightarrow> string \<Rightarrow> datetime \<Rightarrow> payload \<Rightarrow> event_kind \<Rightarrow> string \<Rightarrow> string \<Rightarrow> payment_event" where
  "lifecycle_event R viewpoint now state kind event_id previous_event_id =
     \<lparr>pe_schema_version = ''1.0.0'', pe_event_id = event_id,
      pe_campaign_id = payload_str state ''campaign_id'', pe_trace_id = payload_str state ''trace_id'',
      pe_rail = lc_rail R, pe_viewpoint = viewpoint, pe_event_type = kind,
      pe_amount = (case map_of state ''amount'' of Some (PDec a) \<Rightarrow> a | _ \<Rightarrow> DNaN),
      pe_currency = payload_str state ''currency'',
      pe_event_time = now, pe_ingested_at = now, pe_available_at = now, pe_decision_at = Some now,
      pe_actor_id = payload_str state ''actor_id'', pe_counterparty_id = payload_str state ''counterparty_id'',
      pe_party_refs = [],
      pe_rail_data = [(''payment_id'', PStr (payload_str state ''payment_id'')),
        (''lifecycle_state'', PStr (payload_str state ''state''))],
      pe_lineage = (''synthetic'', PBool True) #
        (if previous_event_id = [] then [] else [(''previous_event_id'', PStr previous_event_id)]),
      pe_privacy = [(''classification'', ''synthetic'')], pe_extensions = []\<rparr>"

text \<open>The state a handled command leaves, before it is validated again.\<close>

definition updated_state ::
  "'st lifecycle \<Rightarrow> payload \<Rightarrow> pyval list \<Rightarrow> command \<Rightarrow> 'st \<Rightarrow> string \<Rightarrow> string \<Rightarrow> string \<Rightarrow> payload" where
  "updated_state R state records cmd next event_id fingerprint commitment =
     AList.update ''idempotency_records''
       (PTuple (records @ [PTuple [PStr (payload_str (cmd_payload cmd) ''idempotency_key''),
          PStr (command_operation R cmd), PStr fingerprint, PStr event_id, PStr commitment]]))
     (AList.update ''history_commitment'' (PStr commitment)
     (AList.update ''last_event_id'' (PStr event_id)
     (AList.update ''state'' (PStr (lc_state_value R next)) state)))"

text \<open>\<open>context.entity_state\<close> with the \<open>except KeyError\<close> of \<open>handle\<close>.\<close>

definition load_entity :: "'st lifecycle \<Rightarrow> command \<Rightarrow> string \<Rightarrow> (('a, 'j) engine, pyval) act" where
  "load_entity R cmd payment_id = (\<lambda>E.
     case engine_entity_state payment_id E of
       (Inl (KeyError _), E') \<Rightarrow>
         (if lc_opening R (cmd_class cmd) then (Inr (opening_state R cmd), E')
          else (Inl (LifecycleError (case map_of (lc_missing R) (cmd_class cmd) of
                  None \<Rightarrow> lc_code R @ ''_INVALID_TRANSITION'' | Some code \<Rightarrow> code)), E'))
     | r \<Rightarrow> r)"

definition post_effect :: "'st lifecycle \<Rightarrow> payload \<Rightarrow> string \<Rightarrow> string \<Rightarrow> (('a, 'j) engine, unit) act" where
  "post_effect R state effect event_id =
     bindm (liftr (lc_effect R state effect event_id)) (\<lambda>e.
     case e of None \<Rightarrow> ret () | Some entry \<Rightarrow> engine_post entry)"

definition apply_transition ::
  "'j pydantic \<Rightarrow> 'st lifecycle \<Rightarrow> payload \<Rightarrow> pyval list \<Rightarrow> command \<Rightarrow> string \<Rightarrow>
    'st \<times> event_kind \<times> string \<Rightarrow> (('a, 'j) engine, payment_event list) act" where
  "apply_transition C R state records cmd payment_id = (\<lambda>(next, kind, effect).
     bindm engine_new_uuid (\<lambda>event_id.
     bindm (liftr (bindr (dict_get state ''last_event_id'') (exact_str ''last_event_id''))) (\<lambda>previous.
     bindm (liftr (bindr (dict_get state ''history_commitment'') (exact_str ''history_commitment''))) (\<lambda>chain.
     bindm (liftr (payload_fingerprint (lc_name R) (cmd_payload cmd))) (\<lambda>fp.
     let commitment = record_commitment (lc_domain R) chain payment_id (command_operation R cmd)
           (payload_str (cmd_payload cmd) ''idempotency_key'') fp event_id
     in
     bindm (liftr (validated_state R (str_map (updated_state R state records cmd next event_id fp commitment))
       payment_id)) (\<lambda>updated.
     bindm (engine_bundle C) (\<lambda>bundle.
     bindm engine_now (\<lambda>now.
     bindm (liftr (payment_event_valid
       (lifecycle_event R (sc_viewpoint bundle) now updated kind event_id previous))) (\<lambda>event.
     bindm (post_effect R updated effect event_id) (\<lambda>_.
     bindm (engine_set_entity_state payment_id (str_map updated)) (\<lambda>_.
     ret [event])))))))))))"

definition lifecycle_handle ::
  "'j pydantic \<Rightarrow> 'st lifecycle \<Rightarrow> command \<Rightarrow> (('a, 'j) engine, payment_event list) act" where
  "lifecycle_handle C R cmd =
     bindm (liftr (canonical_command R cmd)) (\<lambda>canonical.
     let payment_id = payload_str (cmd_payload canonical) ''payment_id'' in
     bindm (load_entity R canonical payment_id) (\<lambda>raw.
     bindm (liftr (validated_state R raw payment_id)) (\<lambda>state.
     bindm (liftr (is_idempotent_retry R state canonical)) (\<lambda>(retry, records).
     if retry then ret []
     else
       bindm (liftr (bindr (bindr (dict_get state ''state'') (exact_str ''state'')) (state_member R))) (\<lambda>current.
           (case map_of (lc_transitions R) (current, cmd_class canonical) of
              None \<Rightarrow> raise (LifecycleError (lc_invalid_code R current (cmd_class canonical)))
            | Some t \<Rightarrow> apply_transition C R state records canonical payment_id t))))))"

definition lifecycle_initialize :: "'j pydantic \<Rightarrow> 'st lifecycle \<Rightarrow> (('a, 'j) engine, unit) act" where
  "lifecycle_initialize C R =
     bindm (engine_bundle C) (\<lambda>b.
     if sc_rail b \<noteq> lc_rail R then raise (ValueError (lc_name R @ '' adapter requires '' @
         (if lc_rail R = A2A then ''an A2A'' else ''a card'') @ '' scenario''))
     else ret ())"

definition lifecycle_ops :: "'j pydantic \<Rightarrow> 'st lifecycle \<Rightarrow> ('a, 'j) rail_ops" where
  "lifecycle_ops C R = \<lparr>ad_initialize = lifecycle_initialize C R, ad_handle = lifecycle_handle C R\<rparr>"

section \<open>Records of a valid history\<close>

record history_entry =
  hr_key :: string
  hr_operation :: string
  hr_fingerprint :: string
  hr_event_id :: string
  hr_commitment :: string

definition record_value :: "history_entry \<Rightarrow> pyval" where
  "record_value r = PTuple [PStr (hr_key r), PStr (hr_operation r), PStr (hr_fingerprint r),
     PStr (hr_event_id r), PStr (hr_commitment r)]"

lemma rail_text_Inr [res_simps]: "rail_text l v = Inr t \<longleftrightarrow> v = PStr t \<and> t \<noteq> []"
  by (cases v) auto

lemma rail_uuid_text_Inr [res_simps]:
  "rail_uuid_text l v = Inr t \<longleftrightarrow> v = PStr t \<and> t \<noteq> [] \<and> uuid_of_text t \<noteq> None"
  by (auto simp: rail_uuid_text_def res_simps split: if_splits)

lemma digest_text_Inr [res_simps]: "digest_text l v = Inr t \<longleftrightarrow> v = PStr t \<and> digest_ok t"
  by (cases v) auto

lemma exact_str_Inr [res_simps]: "exact_str l v = Inr t \<longleftrightarrow> v = PStr t"
  by (cases v) auto

lemma exact_tuple_Inr [res_simps]: "exact_tuple l v = Inr t \<longleftrightarrow> v = PTuple t"
  by (cases v) auto

lemma distinct_accounts_Inr [res_simps]: "require_distinct_accounts l xs = Inr u \<longleftrightarrow> distinct xs"
  by (simp add: require_distinct_accounts_def)

lemma dict_get_Inr [res_simps]: "dict_get d k = Inr v \<longleftrightarrow> map_of d k = Some v"
  by (simp add: dict_get_def split: option.splits)

definition engine_event_id :: "string \<Rightarrow> nat \<Rightarrow> nat \<Rightarrow> bool" where
  "engine_event_id t p n \<longleftrightarrow> (\<exists>i. uuid_of_text t = Some i \<and> t = uuid_text i \<and> uuid_version i = Some 4 \<and>
     uuid_prefix i = p \<and> uuid_sequence i = n)"

lemma history_event_position_Inr [res_simps]:
  "history_event_position v = Inr (t, p, n) \<longleftrightarrow> v = PStr t \<and> engine_event_id t p n"
  by (auto simp: history_event_position_def res_simps engine_event_id_def split: option.splits if_splits)

lemma engine_event_id_inj:
  "engine_event_id t p n \<Longrightarrow> engine_event_id t' p n \<Longrightarrow> t = t'"
  unfolding engine_event_id_def uuid_prefix_def uuid_sequence_def
  by (metis div_mult_mod_eq)

lemma engine_event_id_fun:
  "engine_event_id t p n \<Longrightarrow> engine_event_id t p' n' \<Longrightarrow> p = p' \<and> n = n'"
  by (auto simp: engine_event_id_def)

lemma operation_class_member:
  "operation \<in> snd ` set (lc_operations R) \<longleftrightarrow> operation_class R operation \<noteq> None"
  by (auto simp: operation_class_def map_of_eq_None_iff image_iff case_prod_beta)

text \<open>One accepted record extends the history.\<close>

definition extends_history ::
  "'st lifecycle \<Rightarrow> payload \<Rightarrow> string \<Rightarrow> 'st history \<Rightarrow> history_entry \<Rightarrow> 'st history \<Rightarrow> bool" where
  "extends_history R state pid h r h' \<longleftrightarrow>
     (\<exists>prefix sequence.
       hr_key r \<noteq> [] \<and> hr_operation r \<noteq> [] \<and> hr_operation r \<in> snd ` set (lc_operations R) \<and>
       digest_ok (hr_fingerprint r) \<and> digest_ok (hr_commitment r) \<and> hr_key r \<notin> set (hs_keys h) \<and>
       engine_event_id (hr_event_id r) prefix sequence \<and>
       history_link R state pid h (hr_key r) (hr_operation r) (hr_fingerprint r) (hr_commitment r)
         (hr_event_id r) prefix sequence = Inr h')"

lemma history_link_Inr:
  "history_link R state pid h key operation fingerprint commitment event_id prefix sequence = Inr h' \<longleftrightarrow>
   (\<exists>command nxt kind effect. event_id \<notin> set (hs_event_ids h) \<and>
     (hs_prefix h = None \<or> hs_prefix h = Some prefix) \<and> hs_sequence h < int sequence \<and>
     command_from_record R operation key state = Inr command \<and>
     payload_fingerprint (lc_name R) (cmd_payload command) = Inr fingerprint \<and>
     commitment = record_commitment (lc_domain R) (hs_commitment h) pid operation key fingerprint event_id \<and>
     (hs_index h = 0 \<longleftrightarrow> lc_opening R (cmd_class command)) \<and>
     map_of (lc_transitions R) (hs_state h, cmd_class command) = Some (nxt, kind, effect) \<and>
     h' = \<lparr>hs_keys = hs_keys h @ [key], hs_event_ids = hs_event_ids h @ [event_id],
            hs_prefix = Some prefix, hs_sequence = int sequence, hs_state = nxt,
            hs_commitment = commitment, hs_index = hs_index h + 1\<rparr>)" (is "?l \<longleftrightarrow> ?r")
proof
  assume ?l
  then obtain command where
    1: "event_id \<notin> set (hs_event_ids h)" "hs_prefix h = None \<or> hs_prefix h = Some prefix"
      "hs_sequence h < int sequence" "command_from_record R operation key state = Inr command"
      "payload_fingerprint (lc_name R) (cmd_payload command) = Inr fingerprint"
      "commitment = record_commitment (lc_domain R) (hs_commitment h) pid operation key fingerprint event_id"
      "hs_index h = 0 \<longrightarrow> lc_opening R (cmd_class command)"
      "0 < hs_index h \<longrightarrow> \<not> lc_opening R (cmd_class command)"
      "(case map_of (lc_transitions R) (hs_state h, cmd_class command) of
         None \<Rightarrow> Inl (ValueError ''history contains an illegal transition'')
       | Some (nxt, _) \<Rightarrow>
         Inr \<lparr>hs_keys = hs_keys h @ [key], hs_event_ids = hs_event_ids h @ [event_id],
              hs_prefix = Some prefix, hs_sequence = int sequence, hs_state = nxt,
              hs_commitment = commitment, hs_index = hs_index h + 1\<rparr>) = Inr h'"
    unfolding history_link_def bindr_Inr ensure_Inr by (elim exE conjE) (rule that; simp)
  from 1(9) obtain nxt kind effect where
    2: "map_of (lc_transitions R) (hs_state h, cmd_class command) = Some (nxt, kind, effect)"
      "h' = \<lparr>hs_keys = hs_keys h @ [key], hs_event_ids = hs_event_ids h @ [event_id],
            hs_prefix = Some prefix, hs_sequence = int sequence, hs_state = nxt,
            hs_commitment = commitment, hs_index = hs_index h + 1\<rparr>"
    by (auto split: option.splits)
  from 1(7,8) have 3: "hs_index h = 0 \<longleftrightarrow> lc_opening R (cmd_class command)" by auto
  from 1(1-6) 2 3 show ?r by (intro exI conjI)
next
  assume ?r
  then show ?l by (elim exE conjE) (cases "hs_index h = 0"; simp add: history_link_def)
qed

lemma history_record_Inr:
  "history_record R state pid h k oper f e c = Inr h' \<longleftrightarrow>
   (\<exists>key operation fingerprint commitment event_id prefix sequence.
     k = PStr key \<and> key \<noteq> [] \<and> oper = PStr operation \<and> operation \<noteq> [] \<and>
     operation \<in> snd ` set (lc_operations R) \<and> f = PStr fingerprint \<and> digest_ok fingerprint \<and>
     c = PStr commitment \<and> digest_ok commitment \<and> key \<notin> set (hs_keys h) \<and>
     e = PStr event_id \<and> engine_event_id event_id prefix sequence \<and>
     history_link R state pid h key operation fingerprint commitment event_id prefix sequence = Inr h')"
  unfolding history_record_def bindr_Inr ensure_Inr rail_text_Inr digest_text_Inr split_paired_Ex
    history_event_position_Inr prod.case
  by (rule iffI; elim exE conjE; intro exI conjI; (assumption | rule refl))

lemma history_step_Inr:
  "history_step R state pid h v = Inr h' \<longleftrightarrow> (\<exists>r. v = record_value r \<and> extends_history R state pid h r h')"
  (is "?l \<longleftrightarrow> ?r")
proof
  assume l: ?l
  then obtain k oper f e c where v: "v = PTuple [k, oper, f, e, c]"
    by (auto simp: history_step_def split: pyval.splits list.splits)
  with l have "history_record R state pid h k oper f e c = Inr h'" by (simp add: history_step_def)
  then obtain key operation fingerprint commitment event_id prefix sequence where
    1: "k = PStr key" "key \<noteq> []" "oper = PStr operation" "operation \<noteq> []"
      "operation \<in> snd ` set (lc_operations R)" "f = PStr fingerprint" "digest_ok fingerprint"
      "c = PStr commitment" "digest_ok commitment" "key \<notin> set (hs_keys h)"
      "e = PStr event_id" "engine_event_id event_id prefix sequence"
      "history_link R state pid h key operation fingerprint commitment event_id prefix sequence = Inr h'"
    unfolding history_record_Inr by (elim exE conjE) (rule that)
  let ?e = "\<lparr>hr_key = key, hr_operation = operation, hr_fingerprint = fingerprint,
        hr_event_id = event_id, hr_commitment = commitment\<rparr>"
  have "extends_history R state pid h ?e h'"
    unfolding extends_history_def history_entry.simps using 1 by (intro exI conjI)
  then show ?r
    by (intro exI [of _ ?e]) (simp add: v record_value_def 1)
next
  assume ?r
  then obtain r prefix sequence where
    v: "v = record_value r" and
    rest: "hr_key r \<noteq> []" "hr_operation r \<noteq> []" "hr_operation r \<in> snd ` set (lc_operations R)"
    "digest_ok (hr_fingerprint r)" "digest_ok (hr_commitment r)" "hr_key r \<notin> set (hs_keys h)"
    "engine_event_id (hr_event_id r) prefix sequence"
    "history_link R state pid h (hr_key r) (hr_operation r) (hr_fingerprint r) (hr_commitment r)
      (hr_event_id r) prefix sequence = Inr h'"
    unfolding extends_history_def by blast
  have pos: "history_event_position (PStr (hr_event_id r)) = Inr (hr_event_id r, prefix, sequence)"
    using rest(7) by (simp add: history_event_position_Inr)
  have "history_record R state pid h (PStr (hr_key r)) (PStr (hr_operation r))
      (PStr (hr_fingerprint r)) (PStr (hr_event_id r)) (PStr (hr_commitment r)) = Inr h'"
    using rest(1-6,8) pos by (simp add: history_record_def)
  then show ?l by (simp add: v record_value_def history_step_def)
qed

section \<open>Chains of records\<close>

primrec history_chain ::
  "'st lifecycle \<Rightarrow> payload \<Rightarrow> string \<Rightarrow> 'st history \<Rightarrow> history_entry list \<Rightarrow> 'st history \<Rightarrow> bool" where
  "history_chain R state pid h [] h' \<longleftrightarrow> h' = h"
| "history_chain R state pid h (r # rs) h' \<longleftrightarrow>
     (\<exists>h1. extends_history R state pid h r h1 \<and> history_chain R state pid h1 rs h')"

lemma history_fold:
  "foldlr (history_step R state pid) h vs = Inr h' \<longleftrightarrow>
   (\<exists>rs. vs = map record_value rs \<and> history_chain R state pid h rs h')"
proof (induction vs arbitrary: h)
  case (Cons v vs)
  show ?case
  proof
    assume "foldlr (history_step R state pid) h (v # vs) = Inr h'"
    then obtain h1 where h1: "history_step R state pid h v = Inr h1"
      "foldlr (history_step R state pid) h1 vs = Inr h'"
      by (auto simp: bindr_Inr)
    from h1(1) obtain r where r: "v = record_value r" "extends_history R state pid h r h1"
      by (auto simp: history_step_Inr)
    from h1(2) obtain rs where "vs = map record_value rs" "history_chain R state pid h1 rs h'"
      by (auto simp: Cons.IH)
    with r show "\<exists>rs. v # vs = map record_value rs \<and> history_chain R state pid h rs h'"
      by (intro exI [of _ "r # rs"]) auto
  next
    assume "\<exists>rs. v # vs = map record_value rs \<and> history_chain R state pid h rs h'"
    then obtain r rs h1 where "v = record_value r" "vs = map record_value rs"
      "extends_history R state pid h r h1" "history_chain R state pid h1 rs h'"
      by (auto simp: Cons_eq_map_conv)
    moreover from this have "history_step R state pid h v = Inr h1" by (auto simp: history_step_Inr)
    ultimately show "foldlr (history_step R state pid) h (v # vs) = Inr h'"
      using Cons.IH [of h1] by auto
  qed
qed auto

lemma history_chain_append:
  "history_chain R state pid h (rs @ ss) h' \<longleftrightarrow>
   (\<exists>h1. history_chain R state pid h rs h1 \<and> history_chain R state pid h1 ss h')"
  by (induction rs arbitrary: h) auto

lemma extends_history_fields:
  assumes "extends_history R state pid h r h'"
  shows "hs_keys h' = hs_keys h @ [hr_key r]" "hs_event_ids h' = hs_event_ids h @ [hr_event_id r]"
    "hs_commitment h' = hr_commitment r" "hs_index h' = Suc (hs_index h)"
    "hr_key r \<notin> set (hs_keys h)" "hr_event_id r \<notin> set (hs_event_ids h)"
    "hr_key r \<noteq> []" "hr_operation r \<in> snd ` set (lc_operations R)" "digest_ok (hr_commitment r)"
    "digest_ok (hr_fingerprint r)"
    "\<exists>p n. engine_event_id (hr_event_id r) p n \<and> hs_prefix h' = Some p \<and> hs_sequence h' = int n \<and>
       hs_sequence h < int n \<and> (hs_prefix h = None \<or> hs_prefix h = Some p)"
  using assms unfolding extends_history_def history_link_Inr by auto

text \<open>What any prefix of a valid history satisfies.\<close>

definition history_sound :: "'st lifecycle \<Rightarrow> 'st history \<Rightarrow> bool" where
  "history_sound R h \<longleftrightarrow> distinct (hs_keys h) \<and> distinct (hs_event_ids h) \<and>
     length (hs_keys h) = hs_index h \<and> length (hs_event_ids h) = hs_index h \<and>
     (hs_index h = 0 \<longleftrightarrow> hs_prefix h = None) \<and>
     (hs_index h = 0 \<longrightarrow> hs_sequence h = - 1 \<and> hs_state h = lc_created R \<and> hs_commitment h = []) \<and>
     (0 < hs_index h \<longrightarrow> digest_ok (hs_commitment h)) \<and>
     (\<forall>t \<in> set (hs_event_ids h). \<exists>p n. hs_prefix h = Some p \<and> engine_event_id t p n \<and> int n \<le> hs_sequence h)"

lemma new_history_sound: "history_sound R (new_history R)"
  by (simp add: history_sound_def new_history_def)

lemma extends_history_sound:
  assumes "extends_history R state pid h r h'" "history_sound R h"
  shows "history_sound R h'"
proof -
  from extends_history_fields(11) [OF assms(1)] obtain p n where
    pn: "engine_event_id (hr_event_id r) p n" "hs_prefix h' = Some p" "hs_sequence h' = int n"
      "hs_sequence h < int n" "hs_prefix h = None \<or> hs_prefix h = Some p" by blast
  have ids: "\<exists>p' n'. hs_prefix h' = Some p' \<and> engine_event_id t p' n' \<and> int n' \<le> hs_sequence h'"
    if "t \<in> set (hs_event_ids h')" for t
  proof (cases "t = hr_event_id r")
    case True
    with pn show ?thesis by auto
  next
    case False
    with that have "t \<in> set (hs_event_ids h)" by (simp add: extends_history_fields(2) [OF assms(1)])
    with assms(2) obtain p' n' where "hs_prefix h = Some p'" "engine_event_id t p' n'" "int n' \<le> hs_sequence h"
      unfolding history_sound_def by blast
    with pn show ?thesis by (intro exI [of _ p] exI [of _ n']) auto
  qed
  from assms(2) show ?thesis
    unfolding history_sound_def
    using extends_history_fields(1-10) [OF assms(1)] pn(2) ids by simp
qed

lemma history_chain_sound:
  "history_chain R state pid h rs h' \<Longrightarrow> history_sound R h \<Longrightarrow> history_sound R h'"
  by (induction rs arbitrary: h) (auto dest: extends_history_sound)

lemma history_chain_fields:
  "history_chain R state pid h rs h' \<Longrightarrow>
   hs_keys h' = hs_keys h @ map hr_key rs \<and> hs_event_ids h' = hs_event_ids h @ map hr_event_id rs \<and>
   hs_index h' = hs_index h + length rs"
proof (induction rs arbitrary: h)
  case (Cons r rs)
  then obtain h1 where h1: "extends_history R state pid h r h1" "history_chain R state pid h1 rs h'" by auto
  from Cons.IH [OF h1(2)] extends_history_fields(1,2,4) [OF h1(1)] show ?case by simp
qed simp

section \<open>Valid payments\<close>

definition last_id :: "'st history \<Rightarrow> string" where
  "last_id h = (if hs_event_ids h = [] then [] else last (hs_event_ids h))"

definition payment_ok ::
  "'st lifecycle \<Rightarrow> payload \<Rightarrow> string \<Rightarrow> history_entry list \<Rightarrow> 'st history \<Rightarrow> bool" where
  "payment_ok R state pid rs h \<longleftrightarrow>
     set (map fst state) = set (lc_state_keys R) \<and>
     (\<exists>t. t \<noteq> [] \<and> map_of state ''state'' = Some (PStr t) \<and> lc_state_of R t = Some (hs_state h)) \<and>
     pid \<noteq> [] \<and> map_of state ''payment_id'' = Some (PStr pid) \<and> lc_check_fields R state = Inr () \<and>
     map_of state ''last_event_id'' = Some (PStr (last_id h)) \<and>
     map_of state ''history_commitment'' = Some (PStr (hs_commitment h)) \<and>
     map_of state ''idempotency_records'' = Some (PTuple (map record_value rs)) \<and>
     history_chain R state pid (new_history R) rs h"

lemma state_member_Inr [res_simps]: "state_member R t = Inr s \<longleftrightarrow> lc_state_of R t = Some s"
  by (simp add: state_member_def split: option.splits)

lemma history_sound_last:
  assumes "history_sound R h"
  shows "last_id h = [] \<or> uuid_of_text (last_id h) \<noteq> None" "hs_commitment h = [] \<or> digest_ok (hs_commitment h)"
    "last_id h = [] \<longrightarrow> hs_event_ids h = []"
proof -
  have *: "\<exists>p n. engine_event_id (last_id h) p n" if "hs_event_ids h \<noteq> []"
    using assms that last_in_set [OF that] unfolding history_sound_def last_id_def
    by (elim conjE) (drule (1) bspec, auto)
  then show "last_id h = [] \<or> uuid_of_text (last_id h) \<noteq> None"
    by (auto simp: last_id_def engine_event_id_def)
  show "hs_commitment h = [] \<or> digest_ok (hs_commitment h)"
    using assms by (auto simp: history_sound_def)
  show "last_id h = [] \<longrightarrow> hs_event_ids h = []"
    using * uuid_text_not_empty by (metis engine_event_id_def)
qed

lemma check_terminal_Inr:
  assumes "history_sound R h" "hs_index h = length records"
  shows "check_terminal h records l c = Inr () \<longleftrightarrow> l = last_id h \<and> c = hs_commitment h"
  using assms
  by (auto simp: check_terminal_def res_simps last_id_def history_sound_def)

lemma validated_state_Inr:
  "validated_state R v pid = Inr state \<longleftrightarrow>
   owned_mapping v = Inr state \<and> (\<exists>rs h. payment_ok R state pid rs h)" (is "?l \<longleftrightarrow> ?r")
proof
  assume ?l
  then obtain t stored l c records h where
    1: "owned_mapping v = Inr state" "set (map fst state) = set (lc_state_keys R)"
      "map_of state ''state'' = Some (PStr t)" "t \<noteq> []" "lc_state_of R t = Some stored"
      "map_of state ''payment_id'' = Some (PStr pid)" "pid \<noteq> []" "lc_check_fields R state = Inr ()"
      "map_of state ''last_event_id'' = Some (PStr l)" "map_of state ''history_commitment'' = Some (PStr c)"
      "map_of state ''idempotency_records'' = Some (PTuple records)"
      "foldlr (history_step R state pid) (new_history R) records = Inr h"
      "check_terminal h records l c = Inr ()" "hs_state h = stored"
    unfolding validated_state_def rethrow_Inr bindr_Inr ensure_Inr rail_text_Inr dict_get_Inr
      exact_str_Inr exact_tuple_Inr state_member_Inr
    by (elim exE conjE) (rule that; simp)
  from 1(12) obtain rs where rs: "records = map record_value rs" "history_chain R state pid (new_history R) rs h"
    by (auto simp: history_fold)
  have "hs_index h = length records"
    using history_chain_fields [OF rs(2)] by (simp add: rs(1) new_history_def)
  from 1(13) check_terminal_Inr [OF history_chain_sound [OF rs(2) new_history_sound] this]
  have "l = last_id h" "c = hs_commitment h" by auto
  with 1 rs have "payment_ok R state pid rs h"
    unfolding payment_ok_def by (intro conjI exI [of _ t]) auto
  with 1(1) show ?r by blast
next
  assume ?r
  then obtain rs h t where 1: "owned_mapping v = Inr state" "set (map fst state) = set (lc_state_keys R)"
      "map_of state ''state'' = Some (PStr t)" "t \<noteq> []" "lc_state_of R t = Some (hs_state h)"
      "map_of state ''payment_id'' = Some (PStr pid)" "pid \<noteq> []" "lc_check_fields R state = Inr ()"
      "map_of state ''last_event_id'' = Some (PStr (last_id h))"
      "map_of state ''history_commitment'' = Some (PStr (hs_commitment h))"
      "map_of state ''idempotency_records'' = Some (PTuple (map record_value rs))"
      "history_chain R state pid (new_history R) rs h"
    unfolding payment_ok_def by blast
  have f: "foldlr (history_step R state pid) (new_history R) (map record_value rs) = Inr h"
    using 1(12) by (auto simp: history_fold)
  have snd: "history_sound R h" using history_chain_sound [OF 1(12) new_history_sound] .
  have "hs_index h = length (map record_value rs)"
    using history_chain_fields [OF 1(12)] by (simp add: new_history_def)
  from check_terminal_Inr [OF snd this] have ct: "check_terminal h (map record_value rs) (last_id h) (hs_commitment h) = Inr ()"
    by simp
  have u: "\<exists>x. (if last_id h = [] then Inr [] else rail_uuid_text ''last_event_id'' (PStr (last_id h))) = Inr x"
    using history_sound_last(1) [OF snd] by (auto simp: rail_uuid_text_Inr)
  have d: "\<exists>x. (if hs_commitment h = [] then Inr [] else digest_text ''history_commitment'' (PStr (hs_commitment h))) = Inr x"
    using history_sound_last(2) [OF snd] by auto
  have g: "dict_get state k = Inr w" if "map_of state k = Some w" for k w
    using that by (simp add: dict_get_def)
  have m: "state_member R t = Inr (hs_state h)" using 1(5) by (simp add: state_member_def)
  from u d show ?l
    unfolding validated_state_def
    by (elim exE) (simp add: 1(1,4,7,8) 1(2) [unfolded set_map] g [OF 1(3)] g [OF 1(6)] g [OF 1(9)] g [OF 1(10)] g [OF 1(11)] m f ct
        del: if_split)
qed

section \<open>The interface of a rail\<close>

definition same_fields :: "'st lifecycle \<Rightarrow> payload \<Rightarrow> payload \<Rightarrow> bool" where
  "same_fields R a b \<longleftrightarrow> (\<forall>k \<in> set (lc_fields R). map_of a k = map_of b k)"

definition reserved_fields :: "string list" where
  "reserved_fields = [''state'', ''last_event_id'', ''history_commitment'', ''idempotency_records'',
     ''idempotency_key'']"

text \<open>What an event needs of the stored fields.\<close>

definition event_fields_ok :: "payload \<Rightarrow> bool" where
  "event_fields_ok d \<longleftrightarrow>
     (\<exists>a. map_of d ''amount'' = Some (PDec a) \<and> \<not> dec_less a dec_zero) \<and>
     (\<forall>k \<in> {''campaign_id'', ''trace_id'', ''actor_id'', ''counterparty_id''}. uuid_of_text (payload_str d k) \<noteq> None)"

locale lifecycle_rail =
  fixes R :: "'st lifecycle"
  assumes state_text: "lc_state_value R st \<noteq> [] \<and> lc_state_of R (lc_state_value R st) = Some st"
    and operations_distinct: "distinct (map fst (lc_operations R)) \<and> distinct (map snd (lc_operations R))"
    and operation_text: "n \<in> snd ` set (lc_operations R) \<Longrightarrow> n \<noteq> []"
    and fields_plain: "''payment_id'' \<in> set (lc_fields R) \<and> distinct (lc_fields R) \<and>
      set (lc_fields R) \<inter> set reserved_fields = {}"
    and transition_opening: "map_of (lc_transitions R) (st, cls) = Some t \<Longrightarrow>
      lc_opening R cls \<longleftrightarrow> st = lc_created R"
    and transition_next: "map_of (lc_transitions R) (st, cls) = Some (nxt, kind, effect) \<Longrightarrow>
      nxt \<noteq> lc_created R"
    and open_cong: "lc_opening R cls \<Longrightarrow> same_fields R a b \<Longrightarrow>
      map_of a ''idempotency_key'' = map_of b ''idempotency_key'' \<Longrightarrow>
      lc_open_command R cls a = lc_open_command R cls b"
    and open_result: "lc_opening R cls \<Longrightarrow> lc_open_command R cls args = Inr c \<Longrightarrow>
      cmd_class c = cls \<and> map fst (cmd_payload c) = lc_fields R @ [''idempotency_key''] \<and>
      (\<exists>pid key. pid \<noteq> [] \<and> key \<noteq> [] \<and> map_of (cmd_payload c) ''payment_id'' = Some (PStr pid) \<and>
        map_of (cmd_payload c) ''idempotency_key'' = Some (PStr key))"
    and open_again: "lc_opening R cls \<Longrightarrow> lc_open_command R cls args = Inr c \<Longrightarrow>
      lc_open_command R cls (cmd_payload c) = Inr c"
    and open_checked: "lc_opening R cls \<Longrightarrow> lc_open_command R cls args = Inr c \<Longrightarrow>
      lc_check_fields R (cmd_payload c) = Inr ()"
    and check_cong: "same_fields R a b \<Longrightarrow> lc_check_fields R a = lc_check_fields R b"
    and check_event: "lc_check_fields R d = Inr () \<Longrightarrow> event_fields_ok d"
    and check_frozen: "lc_check_fields R d = Inr () \<Longrightarrow> k \<in> set (lc_fields R) \<Longrightarrow>
      k \<noteq> ''payment_id'' \<Longrightarrow> map_of d k = Some v \<Longrightarrow> frozen_state v"
    and effect_total: "lc_check_fields R d = Inr () \<Longrightarrow>
      map_of (lc_transitions R) (st, cls) = Some (nxt, kind, effect) \<Longrightarrow>
      \<exists>e. lc_effect R d effect i = Inr e"
    and effect_cong: "same_fields R a b \<Longrightarrow> lc_effect R a effect i = lc_effect R b effect i"
begin

lemma field_not_reserved: "k \<in> set (lc_fields R) \<Longrightarrow> k \<notin> set reserved_fields"
  using fields_plain by auto

lemma payment_id_field: "''payment_id'' \<in> set (lc_fields R)"
  using fields_plain by auto

lemma same_fields_update:
  "k \<in> set reserved_fields \<Longrightarrow> same_fields R (AList.update k v a) b \<longleftrightarrow> same_fields R a b"
  using fields_plain by (auto simp: same_fields_def update_conv')

lemma same_fields_refl [simp]: "same_fields R a a"
  by (simp add: same_fields_def)

lemma operation_class_of: "map_of (lc_operations R) cls = Some n \<longleftrightarrow> operation_class R n = Some cls"
proof -
  have "distinct (map fst (map (\<lambda>(c, n). (n, c)) (lc_operations R)))"
    using operations_distinct by (simp add: comp_def case_prod_beta)
  then have "operation_class R n = Some cls \<longleftrightarrow> (n, cls) \<in> set (map (\<lambda>(c, n). (n, c)) (lc_operations R))"
    unfolding operation_class_def by (rule map_of_eq_Some_iff)
  also have "\<dots> \<longleftrightarrow> (cls, n) \<in> set (lc_operations R)" by auto
  also have "\<dots> \<longleftrightarrow> map_of (lc_operations R) cls = Some n"
    using operations_distinct by (simp add: map_of_eq_Some_iff)
  finally show ?thesis by simp
qed

lemma new_plain_command:
  assumes "name \<noteq> []"
  shows "new_command cls (PStr name) [(PStr ''payment_id'', PStr p), (PStr ''idempotency_key'', PStr k)] =
    Inr \<lparr>cmd_class = cls, cmd_name = name, cmd_payload = [(''payment_id'', PStr p), (''idempotency_key'', PStr k)]\<rparr>"
  using assms by (simp add: new_command_def freeze_mapping_def dict_of_def)

lemma followup_Inr:
  assumes "name \<noteq> []"
  shows "followup_command cls name (PStr p) (PStr k) = Inr c \<longleftrightarrow> p \<noteq> [] \<and> k \<noteq> [] \<and>
    c = \<lparr>cmd_class = cls, cmd_name = name, cmd_payload = [(''payment_id'', PStr p), (''idempotency_key'', PStr k)]\<rparr>"
  by (auto simp: followup_command_def res_simps default_key_def new_plain_command [OF assms])

lemma build_result:
  assumes "build_command R cls args = Inr c"
  shows "cmd_class c = cls \<and> (\<exists>pid key. pid \<noteq> [] \<and> key \<noteq> [] \<and>
    map_of (cmd_payload c) ''payment_id'' = Some (PStr pid) \<and>
    map_of (cmd_payload c) ''idempotency_key'' = Some (PStr key))"
proof (cases "lc_opening R cls")
  case True
  with assms open_result [OF True] show ?thesis by (simp add: build_command_def)
next
  case False
  with assms obtain name p k where 1: "map_of (lc_operations R) cls = Some name"
    "followup_command cls name p k = Inr c"
    by (auto simp: build_command_def res_simps split: option.splits)
  have "name \<noteq> []" using operation_text 1(1) by (force dest: map_of_SomeD)
  with 1(2) show ?thesis
    by (auto simp: followup_command_def res_simps new_plain_command)
qed

lemma build_again:
  assumes "build_command R cls args = Inr c"
    and "lc_opening R cls \<Longrightarrow> same_fields R d (cmd_payload c)"
    and "map_of d ''payment_id'' = map_of (cmd_payload c) ''payment_id''"
    and "map_of d ''idempotency_key'' = map_of (cmd_payload c) ''idempotency_key''"
  shows "build_command R cls d = Inr c"
proof (cases "lc_opening R cls")
  case True
  with assms open_again [OF True] open_cong [OF True assms(2) [OF True] assms(4)]
  show ?thesis by (simp add: build_command_def)
next
  case False
  with assms obtain name p k where 1: "map_of (lc_operations R) cls = Some name"
    "followup_command cls name p k = Inr c"
    by (auto simp: build_command_def res_simps split: option.splits)
  have n: "name \<noteq> []" using operation_text 1(1) by (force dest: map_of_SomeD)
  from 1(2) obtain p' k' where c: "p' \<noteq> []" "k' \<noteq> []"
    "c = \<lparr>cmd_class = cls, cmd_name = name, cmd_payload = [(''payment_id'', PStr p'), (''idempotency_key'', PStr k')]\<rparr>"
    by (auto simp: followup_command_def res_simps new_plain_command [OF n])
  with assms(3,4) False 1(1) show ?thesis
    by (simp add: build_command_def dict_get_def followup_Inr [OF n])
qed

lemma canonical_Inr:
  assumes "canonical_command R cmd = Inr c"
  shows "cmd_class c = cmd_class cmd" "\<exists>args. build_command R (cmd_class c) args = Inr c"
    "\<exists>fp. payload_fingerprint (lc_name R) (cmd_payload c) = Inr fp"
    "map_of (lc_operations R) (cmd_class c) = Some (command_operation R c)"
    "\<exists>pid key. pid \<noteq> [] \<and> key \<noteq> [] \<and> map_of (cmd_payload c) ''payment_id'' = Some (PStr pid) \<and>
      map_of (cmd_payload c) ''idempotency_key'' = Some (PStr key)"
proof -
  from assms obtain n where n: "map_of (lc_operations R) (cmd_class cmd) = Some n"
    and b: "build_command R (cmd_class cmd) (cmd_payload cmd) = Inr c"
    and f: "\<exists>fp. payload_fingerprint (lc_name R) (cmd_payload c) = Inr fp"
    by (auto simp: canonical_command_def res_simps split: option.splits if_splits)
  from build_result [OF b] show "cmd_class c = cmd_class cmd"
    and "\<exists>pid key. pid \<noteq> [] \<and> key \<noteq> [] \<and> map_of (cmd_payload c) ''payment_id'' = Some (PStr pid) \<and>
      map_of (cmd_payload c) ''idempotency_key'' = Some (PStr key)" by auto
  with n b show "\<exists>args. build_command R (cmd_class c) args = Inr c"
    "map_of (lc_operations R) (cmd_class c) = Some (command_operation R c)"
    by (auto simp: command_operation_def)
  show "\<exists>fp. payload_fingerprint (lc_name R) (cmd_payload c) = Inr fp" by (rule f)
qed

lemma command_from_record_cong:
  assumes "same_fields R a b"
  shows "command_from_record R n key a = command_from_record R n key b"
proof -
  have f: "same_fields R (AList.update ''idempotency_key'' (PStr key) a) (AList.update ''idempotency_key'' (PStr key) b)"
    using assms by (auto simp: same_fields_def update_conv')
  have p: "map_of a ''payment_id'' = map_of b ''payment_id''"
    using assms payment_id_field by (auto simp: same_fields_def)
  show ?thesis
    using open_cong [OF _ f] p
    by (auto simp: command_from_record_def build_command_def update_conv' dict_get_def split: option.split)
qed

lemma history_chain_cong:
  "same_fields R a b \<Longrightarrow> history_chain R a pid h rs h' \<longleftrightarrow> history_chain R b pid h rs h'"
proof (induction rs arbitrary: h)
  case (Cons r rs)
  have "extends_history R a pid h r h1 \<longleftrightarrow> extends_history R b pid h r h1" for h1
    unfolding extends_history_def history_link_def command_from_record_cong [OF Cons.prems] by (rule refl)
  with Cons show ?case by simp
qed simp

text \<open>The request a record of a canonical command stands for is that command.\<close>

lemma record_command:
  assumes "canonical_command R cmd = Inr c" "map_of (cmd_payload c) ''idempotency_key'' = Some (PStr key)"
    and "map_of state ''payment_id'' = map_of (cmd_payload c) ''payment_id''"
    and "lc_opening R (cmd_class c) \<Longrightarrow> same_fields R state (cmd_payload c)"
  shows "command_from_record R (command_operation R c) key state = Inr c"
proof -
  from canonical_Inr(2) [OF assms(1)] obtain args where b: "build_command R (cmd_class c) args = Inr c" by blast
  from canonical_Inr(4) [OF assms(1)] have cls: "operation_class R (command_operation R c) = Some (cmd_class c)"
    by (simp add: operation_class_of)
  have "build_command R (cmd_class c) (AList.update ''idempotency_key'' (PStr key) state) = Inr c"
    by (rule build_again [OF b])
      (use assms(2-4) in \<open>auto simp: same_fields_update reserved_fields_def update_conv'\<close>)
  with cls show ?thesis by (simp add: command_from_record_def)
qed

lemma chain_state_created:
  "history_chain R state pid h rs h' \<Longrightarrow> (hs_index h = 0 \<longleftrightarrow> hs_state h = lc_created R) \<Longrightarrow>
   (hs_index h' = 0 \<longleftrightarrow> hs_state h' = lc_created R)"
proof (induction rs arbitrary: h)
  case (Cons r rs)
  then obtain h1 where h1: "extends_history R state pid h r h1" "history_chain R state pid h1 rs h'" by auto
  then have "hs_index h1 \<noteq> 0 \<and> hs_state h1 \<noteq> lc_created R"
    unfolding extends_history_def history_link_Inr by (auto dest: transition_next)
  with Cons.IH [OF h1(2)] show ?case by simp
qed simp

end

section \<open>Transitions keep payments valid\<close>

context lifecycle_rail
begin

lemma reserved_apart:
  "''state'' \<in> set reserved_fields" "''last_event_id'' \<in> set reserved_fields"
  "''history_commitment'' \<in> set reserved_fields" "''idempotency_records'' \<in> set reserved_fields"
  "''idempotency_key'' \<in> set reserved_fields" "''payment_id'' \<notin> set reserved_fields"
  using field_not_reserved [OF payment_id_field] by (simp_all add: reserved_fields_def)

lemma updated_fields:
  "same_fields R (updated_state R state recs c n e f cm) b \<longleftrightarrow> same_fields R state b"
  by (simp add: updated_state_def same_fields_update reserved_apart)

lemma updated_keys:
  assumes "set (map fst state) = set (lc_state_keys R)"
  shows "set (map fst (updated_state R state recs c n e f cm)) = set (lc_state_keys R)"
  using assms by (auto simp: updated_state_def dom_update lc_state_keys_def)

lemma updated_lookup:
  "map_of (updated_state R state recs c n e f cm) k =
     (if k = ''idempotency_records'' then Some (PTuple (recs @ [PTuple [
          PStr (payload_str (cmd_payload c) ''idempotency_key''), PStr (command_operation R c), PStr f, PStr e, PStr cm]]))
      else if k = ''history_commitment'' then Some (PStr cm)
      else if k = ''last_event_id'' then Some (PStr e)
      else if k = ''state'' then Some (PStr (lc_state_value R n)) else map_of state k)"
  by (simp add: updated_state_def update_conv')

text \<open>The record a handled command appends.\<close>

definition new_entry :: "'st history \<Rightarrow> string \<Rightarrow> command \<Rightarrow> string \<Rightarrow> string \<Rightarrow> history_entry" where
  "new_entry h pid c fp e = \<lparr>hr_key = payload_str (cmd_payload c) ''idempotency_key'',
     hr_operation = command_operation R c, hr_fingerprint = fp, hr_event_id = e,
     hr_commitment = record_commitment (lc_domain R) (hs_commitment h) pid (command_operation R c)
       (payload_str (cmd_payload c) ''idempotency_key'') fp e\<rparr>"

lemma transition_validates:
  assumes ok: "payment_ok R state pid rs h"
    and c: "canonical_command R cmd = Inr c" "map_of (cmd_payload c) ''payment_id'' = Some (PStr pid)"
    and fields: "lc_opening R (cmd_class c) \<Longrightarrow> same_fields R state (cmd_payload c)"
    and key: "payload_str (cmd_payload c) ''idempotency_key'' \<notin> set (hs_keys h)"
    and t: "map_of (lc_transitions R) (hs_state h, cmd_class c) = Some (n, kind, effect)"
    and fp: "payload_fingerprint (lc_name R) (cmd_payload c) = Inr fp"
    and e: "engine_event_id e p q" "hs_prefix h = None \<or> hs_prefix h = Some p" "hs_sequence h < int q"
  defines "r \<equiv> new_entry h pid c fp e"
  shows "\<exists>h'. hs_prefix h' = Some p \<and> hs_sequence h' = int q \<and> hs_state h' = n \<and>
    payment_ok R (updated_state R state (map record_value rs) c n e fp (hr_commitment r)) pid (rs @ [r]) h'"
proof -
  let ?s = "updated_state R state (map record_value rs) c n e fp (hr_commitment r)"
  have chain: "history_chain R state pid (new_history R) rs h"
    and keys: "set (map fst state) = set (lc_state_keys R)"
    and pid: "pid \<noteq> []" "map_of state ''payment_id'' = Some (PStr pid)"
    and checked: "lc_check_fields R state = Inr ()"
    using ok by (auto simp: payment_ok_def)
  from canonical_Inr(5) [OF c(1)] obtain k where k: "k \<noteq> []" "map_of (cmd_payload c) ''idempotency_key'' = Some (PStr k)"
    by auto
  then have pk: "payload_str (cmd_payload c) ''idempotency_key'' = k" by (simp add: payload_str_def)
  have snd: "history_sound R h" using history_chain_sound [OF chain new_history_sound] .
  have ids: "e \<notin> set (hs_event_ids h)"
  proof
    assume "e \<in> set (hs_event_ids h)"
    with snd obtain p' n' where "engine_event_id e p' n'" "int n' \<le> hs_sequence h"
      unfolding history_sound_def by blast
    with e(3) engine_event_id_fun [OF e(1)] show False by auto
  qed
  have op: "command_operation R c \<noteq> []" "command_operation R c \<in> snd ` set (lc_operations R)"
    using canonical_Inr(4) [OF c(1)] operation_text by (force dest: map_of_SomeD)+
  have index: "hs_index h = 0 \<longleftrightarrow> lc_opening R (cmd_class c)"
    using chain_state_created [OF chain] transition_opening [OF t] by (simp add: new_history_def)
  have rec: "command_from_record R (command_operation R c) k state = Inr c"
    by (rule record_command [OF c(1) k(2)]) (use c(2) pid fields in auto)
  have fpd: "digest_ok fp"
    using fp by (auto simp: payload_fingerprint_def res_simps)
  have cmd: "digest_ok (hr_commitment r)"
    by (simp add: r_def new_entry_def record_commitment_def)
  define h' where "h' = \<lparr>hs_keys = hs_keys h @ [k], hs_event_ids = hs_event_ids h @ [e],
            hs_prefix = Some p, hs_sequence = int q, hs_state = n,
            hs_commitment = hr_commitment r, hs_index = hs_index h + 1\<rparr>"
  have link: "history_link R state pid h k (command_operation R c) fp (hr_commitment r) e p q = Inr h'"
    unfolding history_link_Inr using ids e(2,3) rec fp index t
    by (intro exI [of _ c] exI [of _ n] exI [of _ kind] exI [of _ effect])
      (simp add: r_def new_entry_def pk h'_def)
  have "extends_history R state pid h r h'"
    unfolding extends_history_def
    by (intro exI [of _ p] exI [of _ q])
      (use k(1) op fpd cmd key e(1) link in \<open>simp add: r_def new_entry_def pk\<close>)
  then have "history_chain R state pid (new_history R) (rs @ [r]) h'"
    using chain by (auto simp: history_chain_append)
  then have "history_chain R ?s pid (new_history R) (rs @ [r]) h'"
    by (subst history_chain_cong [of _ state]) (simp_all add: updated_fields)
  moreover have "lc_check_fields R ?s = Inr ()"
    by (subst check_cong [of _ state]) (simp_all add: updated_fields checked)
  moreover have "last_id h' = e" by (simp add: last_id_def h'_def)
  ultimately have "payment_ok R ?s pid (rs @ [r]) h'"
    using updated_keys [OF keys] pid state_text [of n]
    unfolding payment_ok_def
    by (simp add: updated_lookup h'_def r_def new_entry_def record_value_def)
  then show ?thesis
    by (intro exI [of _ h']) (simp add: h'_def)
qed

lemma opening_state_owned:
  assumes "canonical_command R cmd = Inr c"
  shows "owned_mapping (opening_state R c) = Inr ((''state'', PStr (lc_state_value R (lc_created R))) #
     map (\<lambda>k. (k, case map_of (cmd_payload c) k of Some v \<Rightarrow> v | None \<Rightarrow> PNone)) (lc_fields R) @
     [(''last_event_id'', PStr []), (''history_commitment'', PStr []), (''idempotency_records'', PTuple [])])"
    (is "_ = Inr ?d")
proof -
  have "mapr (\<lambda>(k, v). bindr (str_key ''state fields do not match schema'' k) (\<lambda>s. Inr (plain_key s, v)))
      (map (\<lambda>(k, v). (PStr k, v)) d) = Inr d" for d :: payload
    by (induction d) auto
  then show ?thesis by (simp add: opening_state_def str_map_def del: mapr.simps list.map)
qed

text \<open>An opening command's own initial state is a valid payment without records.\<close>

lemma opening_state_ok:
  assumes "canonical_command R cmd = Inr c" "lc_opening R (cmd_class c)"
    and "map_of (cmd_payload c) ''payment_id'' = Some (PStr pid)"
  shows "\<exists>state. owned_mapping (opening_state R c) = Inr state \<and> same_fields R state (cmd_payload c) \<and>
    distinct (map fst state) \<and> payment_ok R state pid [] (new_history R)"
proof -
  let ?d = "(''state'', PStr (lc_state_value R (lc_created R))) #
     map (\<lambda>k. (k, case map_of (cmd_payload c) k of Some v \<Rightarrow> v | None \<Rightarrow> PNone)) (lc_fields R) @
     [(''last_event_id'', PStr []), (''history_commitment'', PStr []), (''idempotency_records'', PTuple [])]"
  from canonical_Inr(2) [OF assms(1)] assms(2) obtain args where o: "lc_open_command R (cmd_class c) args = Inr c"
    by (auto simp: build_command_def)
  have dom: "\<exists>v. map_of (cmd_payload c) k = Some v" if "k \<in> set (lc_fields R)" for k
  proof -
    have "map fst (cmd_payload c) = lc_fields R @ [''idempotency_key'']"
      using open_result [OF assms(2) o] by blast
    then have "set (map fst (cmd_payload c)) = set (lc_fields R @ [''idempotency_key''])" by (rule arg_cong)
    with that have "k \<in> fst ` set (cmd_payload c)" by auto
    then show ?thesis by (cases "map_of (cmd_payload c) k") (simp_all add: map_of_eq_None_iff)
  qed
  have look: "map_of (map (\<lambda>k. (k, f k)) ks @ ys) k = (if k \<in> set ks then Some (f k) else map_of ys k)"
    for f :: "string \<Rightarrow> pyval" and ks ys k
    by (induction ks) auto
  have reserved: "k \<notin> set (lc_fields R)" if "k \<in> set reserved_fields" for k
    using that field_not_reserved by blast
  have same: "same_fields R ?d (cmd_payload c)"
    unfolding same_fields_def
  proof
    fix k assume k: "k \<in> set (lc_fields R)"
    with reserved reserved_apart(1) have "k \<noteq> ''state''" by blast
    with dom [OF k] k show "map_of ?d k = map_of (cmd_payload c) k"
      by (auto simp: look simp del: map_of_append)
  qed
  have "payment_ok R ?d pid [] (new_history R)"
    unfolding payment_ok_def
  proof (intro conjI exI)
    show "set (map fst ?d) = set (lc_state_keys R)" by (auto simp: lc_state_keys_def comp_def)
    show "lc_state_value R (lc_created R) \<noteq> []" "lc_state_of R (lc_state_value R (lc_created R)) = Some (hs_state (new_history R))"
      using state_text by (simp_all add: new_history_def)
    show "pid \<noteq> []" using canonical_Inr(5) [OF assms(1)] assms(3) by auto
    show "map_of ?d ''payment_id'' = Some (PStr pid)"
      using same [unfolded same_fields_def, rule_format, OF payment_id_field] assms(3)
      by (simp del: map_of_append)
    show "lc_check_fields R ?d = Inr ()"
      using check_cong [OF same] open_checked [OF assms(2) o] by simp
    show "map_of ?d ''last_event_id'' = Some (PStr (last_id (new_history R)))"
      "map_of ?d ''history_commitment'' = Some (PStr (hs_commitment (new_history R)))"
      "map_of ?d ''idempotency_records'' = Some (PTuple (map record_value []))"
      using reserved reserved_apart by (simp_all add: look last_id_def new_history_def del: map_of_append)
  qed simp_all
  moreover have "distinct (map fst ?d)"
    using fields_plain by (auto simp: reserved_fields_def comp_def)
  ultimately show ?thesis using same opening_state_owned [OF assms(1)] by blast
qed

end

section \<open>The store\<close>

text \<open>Every stored payment is valid and was numbered by this engine.\<close>

definition store_ok :: "'st lifecycle \<Rightarrow> ('a, 'j) engine \<Rightarrow> bool" where
  "store_ok R E \<longleftrightarrow> (\<forall>pid v. map_of (en_entity_state E) pid = Some v \<longrightarrow>
     (\<exists>state rs h. owned_mapping v = Inr state \<and> distinct (map fst state) \<and>
        payment_ok R state pid rs h \<and> rs \<noteq> [] \<and> hs_prefix h = Some (en_uuid_prefix E) \<and> hs_sequence h < int (en_uuid_sequence E)))"

lemma store_ok_mono:
  assumes "store_ok R E" "en_entity_state E' = en_entity_state E" "en_uuid_prefix E' = en_uuid_prefix E"
    and "en_uuid_sequence E \<le> en_uuid_sequence E'"
  shows "store_ok R E'"
  using assms unfolding store_ok_def by force

text \<open>The bundle that construction validated can be loaded again.\<close>

definition bundle_loaded :: "'j pydantic \<Rightarrow> ('a, 'j) engine \<Rightarrow> bool" where
  "bundle_loaded C E \<longleftrightarrow>
     bindr (load_bundle C (en_bundle_payload E)) scenario_bundle_valid = Inr (en_bundle E)"

lemma engine_new_bundle: "engine_new C rb b fs opening allow = Inr E \<Longrightarrow> bundle_loaded C E"
  by (auto simp: engine_new_def validated_bundle_def bundle_loaded_def res_simps split: prod.splits)

lemma bundle_loaded_run: "bundle_loaded C E \<Longrightarrow> engine_bundle C E = (Inr (en_bundle E), E)"
  by (simp add: bundle_loaded_def engine_bundle_def)

section \<open>Errors of the ledger\<close>

definition ledger_error :: "exn \<Rightarrow> bool" where
  "ledger_error e \<longleftrightarrow> e = InvalidOperation \<or> (\<exists>m. e = ValueError m)"

lemma ledger_error_simps [simp]: "ledger_error (ValueError m)" "ledger_error InvalidOperation"
  by (simp_all add: ledger_error_def)

lemma quantize_error: "ledger_quantize a c = Inl e \<Longrightarrow> ledger_error e"
  by (cases a) (auto simp: ledger_quantize_def currency_exponent_def bindr_Inl ledger_error_def
      split: option.splits if_splits)

lemma normalize_error: "normalize_legs l c = Inl e \<Longrightarrow> ledger_error e"
  by (auto simp: normalize_legs_def normalize_leg_def bindr_Inl case_prod_beta
      dest!: foldlr_error split: if_splits dest: quantize_error)

lemma debit_error: "foldlr (debit_leg al c) b l = Inl e \<Longrightarrow> ledger_error e"
  by (auto simp: debit_leg_def case_prod_beta Let_def dest!: foldlr_error split: if_splits)

lemma ledger_post_error: "ledger_post L en = Inl e \<Longrightarrow> ledger_error e"
  by (auto simp: ledger_post_def Let_def bindr_Inl currency_exponent_def
      split: if_splits option.splits dest: normalize_error debit_error)

section \<open>Outcomes of a command\<close>

lemma owned_str_map: "owned_mapping (str_map d) = Inr d"
proof -
  have "mapr (\<lambda>(k, v). bindr (str_key ''state fields do not match schema'' k) (\<lambda>s. Inr (plain_key s, v)))
      (map (\<lambda>(k, v). (PStr k, v)) d) = Inr d"
    by (induction d) auto
  then show ?thesis by (simp add: str_map_def del: mapr.simps list.map)
qed

definition frozen_map :: "payload \<Rightarrow> pyval" where
  "frozen_map d = PMap PyMappingProxy (map (\<lambda>(k, v). (PStr k, v)) d)"

lemma owned_frozen_map: "owned_mapping (frozen_map d) = Inr d"
  using owned_str_map [of d] by (simp add: frozen_map_def str_map_def)

lemma freeze_str_map: "\<forall>v \<in> snd ` set d. frozen_state v \<Longrightarrow> freeze_state (str_map d) = Inr (frozen_map d)"
proof -
  assume d: "\<forall>v \<in> snd ` set d. frozen_state v"
  have "mapr (\<lambda>(k, v). bindr (str_key ''entity state mapping keys must be exact strings'' k)
      (\<lambda>s. bindr (freeze_state v) (\<lambda>w. Inr (s, w)))) (map (\<lambda>(k, v). (PStr k, v)) d) =
    Inr (map (\<lambda>(k, v). (PStr k, v)) d)"
    by (rule mapr_fixed) (use d in \<open>auto simp: freeze_state_fixed\<close>)
  then show ?thesis by (simp add: str_map_def frozen_map_def del: mapr.simps)
qed

lemma find_retry_records:
  "find_retry e (record_match k n f) (map record_value rs) =
    (case find (\<lambda>r. hr_key r = k) rs of
       None \<Rightarrow> Inr False
     | Some r \<Rightarrow> if hr_operation r = n \<and> hr_fingerprint r = f then Inr True else Inl e)"
  by (induction rs) (auto simp: record_value_def)

text \<open>A handled command that moves a payment: what it emits and what it leaves.\<close>

definition moves_payment ::
  "'j pydantic \<Rightarrow> 'st lifecycle \<Rightarrow> command \<Rightarrow> payload \<Rightarrow> history_entry list \<Rightarrow> 'st history \<Rightarrow>
    ('a, 'j) engine \<Rightarrow> payment_event \<Rightarrow> ('a, 'j) engine \<Rightarrow> bool" where
  "moves_payment C R c state rs h E ev E' \<longleftrightarrow>
     (\<exists>n kind effect u fp lg' eo.
        let pid = payload_str (cmd_payload c) ''payment_id'';
            key = payload_str (cmd_payload c) ''idempotency_key'';
            cm = record_commitment (lc_domain R) (hs_commitment h) pid (command_operation R c) key fp u;
            updated = updated_state R state (map record_value rs) c n u fp cm
        in key \<notin> set (hs_keys h) \<and> payload_fingerprint (lc_name R) (cmd_payload c) = Inr fp \<and>
           map_of (lc_transitions R) (hs_state h, cmd_class c) = Some (n, kind, effect) \<and>
           u = uuid_text (en_uuid_prefix E * 2 ^ 48 + en_uuid_sequence E) \<and>
           lc_effect R updated effect u = Inr eo \<and>
           (case eo of None \<Rightarrow> lg' = en_ledger E | Some entry \<Rightarrow> ledger_post (en_ledger E) entry = Inr lg') \<and>
           ev = lifecycle_event R (sc_viewpoint (en_bundle E)) (ck_now (en_clock E)) updated kind u (last_id h) \<and>
           payment_event_valid ev = Inr ev \<and>
           E' = E\<lparr>en_uuid_sequence := en_uuid_sequence E + 1, en_ledger := lg',
                  en_entity_state := AList.update pid (frozen_map updated) (en_entity_state E)\<rparr>)"

text \<open>Why carrying out a transition can fail: no identifier is left, or the ledger refuses.\<close>

definition transition_error ::
  "'st lifecycle \<Rightarrow> payload \<Rightarrow> string \<Rightarrow> ('a, 'j) engine \<Rightarrow> exn \<Rightarrow> bool" where
  "transition_error R state effect E e \<longleftrightarrow>
     e = OverflowError ''deterministic UUID sequence exhausted'' \<and> 2 ^ 48 \<le> en_uuid_sequence E \<or>
     (\<exists>entry. lc_effect R state effect (uuid_text (en_uuid_prefix E * 2 ^ 48 + en_uuid_sequence E)) =
        Inr (Some entry) \<and> ledger_post (en_ledger E) entry = Inl e)"

text \<open>The payment a command finds or opens.\<close>

definition loaded_payment ::
  "'st lifecycle \<Rightarrow> command \<Rightarrow> ('a, 'j) engine \<Rightarrow> payload \<Rightarrow> history_entry list \<Rightarrow> 'st history \<Rightarrow> bool" where
  "loaded_payment R c E state rs h \<longleftrightarrow>
     (let pid = payload_str (cmd_payload c) ''payment_id''
      in distinct (map fst state) \<and> payment_ok R state pid rs h \<and>
         (case map_of (en_entity_state E) pid of
            None \<Rightarrow> lc_opening R (cmd_class c) \<and> owned_mapping (opening_state R c) = Inr state \<and> rs = [] \<and>
              h = new_history R \<and> same_fields R state (cmd_payload c)
          | Some v \<Rightarrow> owned_mapping v = Inr state \<and> rs \<noteq> [] \<and> hs_prefix h = Some (en_uuid_prefix E) \<and>
              hs_sequence h < int (en_uuid_sequence E)))"

context lifecycle_rail
begin

lemma payload_keys:
  assumes "canonical_command R cmd = Inr c"
  shows "payload_str (cmd_payload c) ''payment_id'' \<noteq> []"
    "map_of (cmd_payload c) ''payment_id'' = Some (PStr (payload_str (cmd_payload c) ''payment_id''))"
    "map_of (cmd_payload c) ''idempotency_key'' = Some (PStr (payload_str (cmd_payload c) ''idempotency_key''))"
  using canonical_Inr(5) [OF assms] by (auto simp: payload_str_def)

lemma load_entity_payment:
  assumes "store_ok R E" "canonical_command R cmd = Inr c"
    and "load_entity R c (payload_str (cmd_payload c) ''payment_id'') E = (r, E')"
  shows "E' = E" "r = Inr raw \<Longrightarrow> en_failure E = None \<and>
    (\<exists>state rs h. validated_state R raw (payload_str (cmd_payload c) ''payment_id'') = Inr state \<and>
       loaded_payment R c E state rs h)"
    "r = Inl e \<Longrightarrow> e = SimulationFailedError \<or> (\<exists>code. e = LifecycleError code \<and>
       (code = lc_code R @ ''_INVALID_TRANSITION'' \<or> code \<in> ran (map_of (lc_missing R))))"
proof -
  let ?pid = "payload_str (cmd_payload c) ''payment_id''"
  show "E' = E"
    using assms(3) by (auto simp: load_entity_def engine_entity_state_def healthy_def split: sum.splits exn.splits
        option.splits if_splits)
  show "r = Inl e \<Longrightarrow> e = SimulationFailedError \<or> (\<exists>code. e = LifecycleError code \<and>
       (code = lc_code R @ ''_INVALID_TRANSITION'' \<or> code \<in> ran (map_of (lc_missing R))))"
    using assms(3) by (cases "en_failure E"; cases "map_of (en_entity_state E) ?pid")
      (auto simp: load_entity_def engine_entity_state_def healthy_def ensure_healthy_def
        split: if_splits option.splits intro: ranI)
  assume r: "r = Inr raw"
  with assms(3) have healthy: "en_failure E = None"
    by (cases "en_failure E") (auto simp: load_entity_def engine_entity_state_def healthy_def ensure_healthy_def)
  show "en_failure E = None \<and> (\<exists>state rs h. validated_state R raw ?pid = Inr state \<and> loaded_payment R c E state rs h)"
  proof (cases "map_of (en_entity_state E) ?pid")
    case None
    with assms(3) r healthy have 1: "lc_opening R (cmd_class c)" "raw = opening_state R c"
      by (auto simp: load_entity_def engine_entity_state_def healthy_def ensure_healthy_def split: if_splits)
    from opening_state_ok [OF assms(2) 1(1) payload_keys(2) [OF assms(2)]] obtain state where
      s: "owned_mapping (opening_state R c) = Inr state" "same_fields R state (cmd_payload c)"
        "distinct (map fst state)" "payment_ok R state ?pid [] (new_history R)" by blast
    then have "validated_state R raw ?pid = Inr state" by (auto simp: validated_state_Inr 1(2))
    with s 1 None healthy show ?thesis
      by (auto simp: loaded_payment_def Let_def)
  next
    case (Some v)
    with assms(3) r healthy have "raw = v"
      by (auto simp: load_entity_def engine_entity_state_def healthy_def ensure_healthy_def)
    moreover from assms(1) Some obtain state rs h where
      s: "owned_mapping v = Inr state" "distinct (map fst state)" "payment_ok R state ?pid rs h" "rs \<noteq> []"
        "hs_prefix h = Some (en_uuid_prefix E)" "hs_sequence h < int (en_uuid_sequence E)"
      unfolding store_ok_def by blast
    moreover from s have "validated_state R v ?pid = Inr state" by (auto simp: validated_state_Inr)
    ultimately show ?thesis using healthy Some by (auto simp: loaded_payment_def Let_def)
  qed
qed

lemma loaded_facts:
  assumes "loaded_payment R c E state rs h" "canonical_command R cmd = Inr c"
  shows "hs_prefix h = None \<or> hs_prefix h = Some (en_uuid_prefix E)"
    "hs_sequence h < int (en_uuid_sequence E)"
    "map_of (lc_transitions R) (hs_state h, cmd_class c) = Some t \<Longrightarrow> lc_opening R (cmd_class c) \<Longrightarrow>
      same_fields R state (cmd_payload c)"
proof -
  let ?pid = "payload_str (cmd_payload c) ''payment_id''"
  have n: "hs_prefix (new_history R) = None" "hs_sequence (new_history R) < int (en_uuid_sequence E)"
    by (simp_all add: new_history_def)
  show "hs_prefix h = None \<or> hs_prefix h = Some (en_uuid_prefix E)" "hs_sequence h < int (en_uuid_sequence E)"
    using assms(1) n by (auto simp: loaded_payment_def Let_def split: option.splits)
  assume t: "map_of (lc_transitions R) (hs_state h, cmd_class c) = Some t" "lc_opening R (cmd_class c)"
  have created: "hs_state h = lc_created R" using transition_opening [OF t(1)] t(2) by simp
  have chain: "history_chain R state ?pid (new_history R) rs h"
    using assms(1) by (auto simp: loaded_payment_def Let_def payment_ok_def)
  have "hs_index h = 0"
    using chain_state_created [OF chain] created by (simp add: new_history_def)
  then have "rs = []" using history_chain_fields [OF chain] by simp
  with assms(1) show "same_fields R state (cmd_payload c)"
    by (auto simp: loaded_payment_def Let_def split: option.splits)
qed

end

context lifecycle_rail
begin

lemma frozen_record: "frozen_state (record_value r)"
  by (simp add: record_value_def)

lemma payment_frozen:
  assumes "payment_ok R state pid rs h" "distinct (map fst state)"
  shows "\<forall>v \<in> snd ` set state. frozen_state v"
proof
  fix v assume "v \<in> snd ` set state"
  then obtain k where "(k, v) \<in> set state" by auto
  with assms(2) have kv: "map_of state k = Some v" by (simp add: map_of_eq_Some_iff)
  then have "k \<in> set (map fst state)" by (auto dest: map_of_SomeD intro: rev_image_eqI)
  with assms(1) have "k \<in> set (lc_state_keys R)" by (auto simp: payment_ok_def)
  then consider "k \<in> set (lc_fields R)" | "k = ''state''" | "k = ''last_event_id''"
    | "k = ''history_commitment''" | "k = ''idempotency_records''"
    by (auto simp: lc_state_keys_def)
  then show "frozen_state v"
  proof cases
    case 1
    with assms(1) kv show ?thesis
      by (cases "k = ''payment_id''") (auto simp: payment_ok_def intro: check_frozen)
  next
    case 5
    with assms(1) kv show ?thesis by (auto simp: payment_ok_def list_all_iff frozen_record)
  qed (use assms(1) kv in \<open>auto simp: payment_ok_def\<close>)
qed

lemma semver_1_0_0: "validate_schema_version ''1.0.0'' = Inr ''1.0.0''"
  by (simp add: validate_schema_version_def validate_semantic_version_def semver_match_def digit_def)

lemma lifecycle_event_valid:
  assumes "event_fields_ok state" "uuid_of_text u \<noteq> None" "normal_utc now"
  shows "payment_event_valid (lifecycle_event R vp now state kind u prev) =
    Inr (lifecycle_event R vp now state kind u prev)"
  using assms
  by (auto simp: payment_event_valid_def lifecycle_event_def semver_1_0_0 validate_uuid_def optional_def
      event_times_and_amount_def event_fields_ok_def)

lemma event_fields_cong: "same_fields R a b \<Longrightarrow> lc_check_fields R b = Inr () \<Longrightarrow> event_fields_ok a"
  using check_cong check_event by metis

lemma set_state_runs:
  assumes "pid \<noteq> []" "en_failure E = None" "payment_ok R d pid rs h" "distinct (map fst d)"
  shows "engine_set_entity_state pid (str_map d) E =
    (Inr (), E\<lparr>en_entity_state := AList.update pid (frozen_map d) (en_entity_state E)\<rparr>)"
  using assms freeze_str_map [OF payment_frozen [OF assms(3,4)]]
  by (simp add: engine_set_entity_state_def healthy_def fail_closed_def ensure_healthy_def)

lemma updated_distinct:
  "distinct (map fst state) \<Longrightarrow> distinct (map fst (updated_state R state recs c n e f cm))"
  by (simp add: updated_state_def update_keys_distinct)

lemma apply_outcome:
  assumes loaded: "loaded_payment R c E state rs h" "distinct (map fst state)"
    and c: "canonical_command R cmd = Inr c"
    and E: "en_failure E = None" "prefix_ok (en_uuid_prefix E)" "bundle_loaded C E"
      "normal_utc (ck_now (en_clock E))"
    and key: "payload_str (cmd_payload c) ''idempotency_key'' \<notin> set (hs_keys h)"
    and t: "map_of (lc_transitions R) (hs_state h, cmd_class c) = Some (n, kind, effect)"
    and run: "apply_transition C R state (map record_value rs) c
      (payload_str (cmd_payload c) ''payment_id'') (n, kind, effect) E = (r, E')"
  shows "(\<exists>e. r = Inl e \<and> transition_error R state effect E e \<and>
      en_entity_state E' = en_entity_state E \<and> en_ledger E' = en_ledger E) \<or>
    (\<exists>ev. r = Inr [ev] \<and> moves_payment C R c state rs h E ev E' \<and>
      (\<exists>d rs' h'. map_of (en_entity_state E') (payload_str (cmd_payload c) ''payment_id'') = Some (frozen_map d) \<and>
        distinct (map fst d) \<and> payment_ok R d (payload_str (cmd_payload c) ''payment_id'') rs' h' \<and>
        rs' \<noteq> [] \<and> hs_prefix h' = Some (en_uuid_prefix E) \<and> hs_sequence h' = int (en_uuid_sequence E)))"
proof (cases "en_uuid_sequence E < 2 ^ 48")
  case False
  with run E(1) have "r = Inl (OverflowError ''deterministic UUID sequence exhausted'') \<and>
      E' = mark_failed (OverflowError ''deterministic UUID sequence exhausted'') E"
    by (auto simp: apply_transition_def bindm_def engine_new_uuid_def healthy_def ensure_healthy_def Let_def)
  with False show ?thesis by (auto simp: mark_failed_def transition_error_def split: option.splits)
next
  case True
  let ?pid = "payload_str (cmd_payload c) ''payment_id''"
  define u where "u = uuid_text (en_uuid_prefix E * 2 ^ 48 + en_uuid_sequence E)"
  define E1 where "E1 = E\<lparr>en_uuid_sequence := en_uuid_sequence E + 1\<rparr>"
  have new: "engine_new_uuid E = (Inr u, E1)"
    using True by (simp add: engine_new_uuid_Inr E(1) u_def E1_def)
  from new_uuid_text [OF E(2) new] have uu: "uuid_of_text u \<noteq> None" and
    pos: "engine_event_id u (en_uuid_prefix E) (en_uuid_sequence E)"
    by (auto simp: engine_event_id_def)
  from canonical_Inr(3) [OF c] obtain fp where fp: "payload_fingerprint (lc_name R) (cmd_payload c) = Inr fp" by blast
  have ok: "payment_ok R state ?pid rs h"
    using loaded(1) by (auto simp: loaded_payment_def Let_def)
  then have look: "dict_get state ''last_event_id'' = Inr (PStr (last_id h))"
    "dict_get state ''history_commitment'' = Inr (PStr (hs_commitment h))" and checked: "lc_check_fields R state = Inr ()"
    by (auto simp: payment_ok_def dict_get_def)
  define cm where "cm = record_commitment (lc_domain R) (hs_commitment h) ?pid (command_operation R c)
    (payload_str (cmd_payload c) ''idempotency_key'') fp u"
  define d where "d = updated_state R state (map record_value rs) c n u fp cm"
  from transition_validates [OF ok c payload_keys(2) [OF c] loaded_facts(3) [OF loaded(1) c t] key t fp pos
      loaded_facts(1,2) [OF loaded(1) c]]
  obtain h' where h': "hs_prefix h' = Some (en_uuid_prefix E)" "hs_sequence h' = int (en_uuid_sequence E)"
    and ok': "payment_ok R d ?pid (rs @ [new_entry h ?pid c fp u]) h'"
    by (auto simp: d_def cm_def new_entry_def)
  then have val: "validated_state R (str_map d) ?pid = Inr d"
    unfolding validated_state_Inr owned_str_map by auto
  have checked': "lc_check_fields R d = Inr ()" using ok' by (simp add: payment_ok_def)
  define ev where "ev = lifecycle_event R (sc_viewpoint (en_bundle E)) (ck_now (en_clock E)) d kind u (last_id h)"
  have ev: "payment_event_valid ev = Inr ev"
    unfolding ev_def by (rule lifecycle_event_valid [OF check_event [OF checked'] uu E(4)])
  from effect_total [OF checked' t] obtain eo where eo: "lc_effect R d effect u = Inr eo" by blast
  have loads: "engine_bundle C E1 = (Inr (en_bundle E), E1)"
    using bundle_loaded_run [of C E1] E(3) by (simp add: bundle_loaded_def E1_def)
  have now: "engine_now E1 = (Inr (ck_now (en_clock E)), E1)" by (simp add: engine_now_def E1_def)
  have run': "(r, E') = bindm (post_effect R d effect u) (\<lambda>_.
      bindm (engine_set_entity_state ?pid (str_map d)) (\<lambda>_. ret [ev])) E1"
    using run new look fp val loads now ev
    by (simp add: apply_transition_def bindm_def d_def [symmetric] cm_def [symmetric] ev_def [symmetric])
  have dist: "distinct (map fst d)" using updated_distinct [OF loaded(2)] by (simp add: d_def)
  have set: "engine_set_entity_state ?pid (str_map d) E2 =
      (Inr (), E2\<lparr>en_entity_state := AList.update ?pid (frozen_map d) (en_entity_state E2)\<rparr>)"
    if "en_failure E2 = None" for E2
    using set_state_runs [OF payload_keys(1) [OF c] that ok' dist] .
  have moved: ?thesis if lg: "case eo of None \<Rightarrow> lg' = en_ledger E | Some entry \<Rightarrow> ledger_post (en_ledger E) entry = Inr lg'"
    and res: "r = Inr [ev]" "E' = E1\<lparr>en_ledger := lg', en_entity_state := AList.update ?pid (frozen_map d) (en_entity_state E)\<rparr>"
    for lg'
  proof -
    have "moves_payment C R c state rs h E ev E'"
      unfolding moves_payment_def Let_def
      by (rule exI [of _ n], rule exI [of _ kind], rule exI [of _ effect], rule exI [of _ u], rule exI [of _ fp],
          rule exI [of _ lg'], rule exI [of _ eo])
        (use key fp t eo lg ev in \<open>simp add: u_def [simplified, symmetric] cm_def [symmetric] d_def [symmetric] ev_def [symmetric]
          res(2) E1_def\<close>)
    moreover have "map_of (en_entity_state E') ?pid = Some (frozen_map d)"
      by (simp add: res(2) update_conv')
    ultimately show ?thesis using res(1) h' ok' dist by blast
  qed
  show ?thesis
  proof (cases eo)
    case None
    with run' eo have "(r, E') = (Inr [ev], E1\<lparr>en_entity_state := AList.update ?pid (frozen_map d) (en_entity_state E1)\<rparr>)"
      using set [of E1] E(1) by (simp add: post_effect_def bindm_def E1_def)
    then show ?thesis by (intro moved [of "en_ledger E"]) (simp_all add: None E1_def)
  next
    case (Some entry)
    show ?thesis
    proof (cases "ledger_post (en_ledger E) entry")
      case (Inl e)
      with run' eo Some E(1) have "r = Inl e" "E' = mark_failed e E1"
        by (simp_all add: post_effect_def bindm_def engine_post_def healthy_def ensure_healthy_def fail_closed_def E1_def)
      moreover have "transition_error R state effect E e"
        unfolding transition_error_def u_def [symmetric]
        using Inl eo Some effect_cong [of d state effect u] updated_fields by (auto simp: d_def)
      ultimately show ?thesis by (auto simp: mark_failed_def E1_def E(1))
    next
      case (Inr lg')
      with run' eo Some E(1) have "(r, E') = (Inr [ev], E1\<lparr>en_ledger := lg',
          en_entity_state := AList.update ?pid (frozen_map d) (en_entity_state E1)\<rparr>)"
        using set [of "E1\<lparr>en_ledger := lg'\<rparr>"]
        by (simp add: post_effect_def bindm_def engine_post_def healthy_def ensure_healthy_def fail_closed_def E1_def)
      with Inr show ?thesis by (intro moved [of lg']) (simp_all add: Some E1_def)
    qed
  qed
qed

end

context lifecycle_rail
begin

lemma retry_outcome:
  assumes "loaded_payment R c E state rs h" "canonical_command R cmd = Inr c"
    "payload_fingerprint (lc_name R) (cmd_payload c) = Inr fp"
  shows "is_idempotent_retry R state c =
    (case find (\<lambda>r. hr_key r = payload_str (cmd_payload c) ''idempotency_key'') rs of
       None \<Rightarrow> Inr (False, map record_value rs)
     | Some r \<Rightarrow> if hr_operation r = command_operation R c \<and> hr_fingerprint r = fp
                 then Inr (True, map record_value rs)
                 else Inl (lc_error R ''_IDEMPOTENCY_KEY_COLLISION''))"
proof -
  have "map_of state ''idempotency_records'' = Some (PTuple (map record_value rs))"
    using assms(1) by (auto simp: loaded_payment_def Let_def payment_ok_def)
  then show ?thesis
    by (auto simp: is_idempotent_retry_def dict_get_def assms(3) find_retry_records split: option.splits)
qed

lemma loaded_keys:
  assumes "loaded_payment R c E state rs h"
  shows "hs_keys h = map hr_key rs"
  using assms history_chain_fields [of R state _ "new_history R" rs h]
  by (auto simp: loaded_payment_def Let_def payment_ok_def new_history_def)

text \<open>How handling a command can end.\<close>

definition rail_code :: "string \<Rightarrow> bool" where
  "rail_code code \<longleftrightarrow> code \<in> {lc_code R @ ''_UNKNOWN_COMMAND'', lc_code R @ ''_COMMAND_INVALID'',
     lc_code R @ ''_IDEMPOTENCY_KEY_COLLISION'', lc_code R @ ''_INVALID_TRANSITION''} \<or>
     code \<in> ran (map_of (lc_missing R)) \<or> (\<exists>st cls. code = lc_invalid_code R st cls)"

definition expected_error :: "exn \<Rightarrow> bool" where
  "expected_error e \<longleftrightarrow> (\<exists>code. e = LifecycleError code \<and> rail_code code) \<or> ledger_error e \<or>
     e = SimulationFailedError \<or> e = OverflowError ''deterministic UUID sequence exhausted''"

lemma canonical_error:
  "canonical_command R cmd = Inl e \<Longrightarrow> \<exists>code. e = LifecycleError code \<and> rail_code code"
  by (auto simp: canonical_command_def rethrow_Inl lc_error_def rail_code_def split: option.splits)

lemma handle_outcome:
  assumes store: "store_ok R E" and E: "prefix_ok (en_uuid_prefix E)" "bundle_loaded C E"
      "normal_utc (ck_now (en_clock E))"
    and run: "lifecycle_handle C R cmd E = (r, E')"
  shows "(\<exists>e. r = Inl e \<and> expected_error e \<and> en_entity_state E' = en_entity_state E \<and> en_ledger E' = en_ledger E) \<or>
    (r = Inr [] \<and> E' = E \<and> (\<exists>c state rs h hr. canonical_command R cmd = Inr c \<and> loaded_payment R c E state rs h \<and>
       hr \<in> set rs \<and> hr_key hr = payload_str (cmd_payload c) ''idempotency_key'' \<and>
       hr_operation hr = command_operation R c \<and>
       payload_fingerprint (lc_name R) (cmd_payload c) = Inr (hr_fingerprint hr))) \<or>
    (\<exists>ev c state rs h d rs' h'. r = Inr [ev] \<and> canonical_command R cmd = Inr c \<and> loaded_payment R c E state rs h \<and>
       moves_payment C R c state rs h E ev E' \<and>
       map_of (en_entity_state E') (payload_str (cmd_payload c) ''payment_id'') = Some (frozen_map d) \<and>
       distinct (map fst d) \<and> payment_ok R d (payload_str (cmd_payload c) ''payment_id'') rs' h' \<and>
       rs' \<noteq> [] \<and> hs_prefix h' = Some (en_uuid_prefix E) \<and> hs_sequence h' = int (en_uuid_sequence E))"
    (is "?err \<or> ?retry \<or> ?move")
proof (cases "canonical_command R cmd")
  case (Inl e)
  with run canonical_error [OF Inl] have ?err
    by (auto simp: lifecycle_handle_def expected_error_def)
  then show ?thesis ..
next
  case (Inr c)
  let ?pid = "payload_str (cmd_payload c) ''payment_id''"
  obtain l E1 where l: "load_entity R c ?pid E = (l, E1)" by fastforce
  note load = load_entity_payment [OF store Inr l]
  show ?thesis
  proof (cases l)
    case (Inl e)
    with run l load(1) Inr have "r = Inl e" "E' = E"
      by (auto simp: lifecycle_handle_def Let_def bindm_def)
    moreover have "expected_error e"
      using load(3) [OF Inl]
      by (elim disjE exE conjE) (simp_all add: expected_error_def rail_code_def)
    ultimately have ?err by simp
    then show ?thesis ..
  next
    case (Inr raw)
    from load(2) [OF Inr] obtain state rs h where healthy: "en_failure E = None"
      and v: "validated_state R raw ?pid = Inr state" and lp: "loaded_payment R c E state rs h" by blast
    from canonical_Inr(3) [OF \<open>canonical_command R cmd = Inr c\<close>] obtain fp where
      fp: "payload_fingerprint (lc_name R) (cmd_payload c) = Inr fp" by blast
    note retry = retry_outcome [OF lp \<open>canonical_command R cmd = Inr c\<close> fp]
    let ?k = "payload_str (cmd_payload c) ''idempotency_key''"
    have run1: "(r, E') = bindm (liftr (is_idempotent_retry R state c)) (\<lambda>(retry, records).
        if retry then ret []
        else bindm (liftr (bindr (bindr (dict_get state ''state'') (exact_str ''state'')) (state_member R))) (\<lambda>current.
           (case map_of (lc_transitions R) (current, cmd_class c) of
              None \<Rightarrow> raise (LifecycleError (lc_invalid_code R current (cmd_class c)))
            | Some t \<Rightarrow> apply_transition C R state records c ?pid t))) E"
      using run l load(1) \<open>l = Inr raw\<close> \<open>canonical_command R cmd = Inr c\<close> v
      by (simp add: lifecycle_handle_def Let_def bindm_def)
    show ?thesis
    proof (cases "find (\<lambda>r. hr_key r = ?k) rs")
      case (Some hr)
      then have hr: "hr \<in> set rs" "hr_key hr = ?k" by (auto simp: find_Some_iff)
      show ?thesis
      proof (cases "hr_operation hr = command_operation R c \<and> hr_fingerprint hr = fp")
        case True
        with run1 retry Some have "r = Inr []" "E' = E" by simp_all
        with hr True fp lp \<open>canonical_command R cmd = Inr c\<close> show ?thesis by blast
      next
        case False
        with run1 retry Some have "r = Inl (lc_error R ''_IDEMPOTENCY_KEY_COLLISION'')" "E' = E" by auto
        then have ?err by (simp add: expected_error_def lc_error_def rail_code_def)
        then show ?thesis ..
      qed
    next
      case None
      then have key: "?k \<notin> set (hs_keys h)" by (auto simp: loaded_keys [OF lp] find_None_iff)
      have st: "bindr (bindr (dict_get state ''state'') (exact_str ''state'')) (state_member R) = Inr (hs_state h)"
        using lp by (auto simp: loaded_payment_def Let_def payment_ok_def dict_get_def state_member_def)
      show ?thesis
      proof (cases "map_of (lc_transitions R) (hs_state h, cmd_class c)")
        case t: None
        with run1 retry None st have "r = Inl (LifecycleError (lc_invalid_code R (hs_state h) (cmd_class c)))" "E' = E"
          by simp_all
        then have ?err by (auto simp: expected_error_def rail_code_def)
        then show ?thesis ..
      next
        case (Some t)
        obtain n kind effect where t: "t = (n, kind, effect)" by (cases t)
        have dist: "distinct (map fst state)" using lp by (simp add: loaded_payment_def Let_def)
        from run1 retry None st Some
        have "apply_transition C R state (map record_value rs) c ?pid (n, kind, effect) E = (r, E')"
          by (simp add: t)
        from apply_outcome [OF lp dist \<open>canonical_command R cmd = Inr c\<close> healthy E key Some [unfolded t] this]
        show ?thesis
        proof
          assume "\<exists>e. r = Inl e \<and> transition_error R state effect E e \<and>
            en_entity_state E' = en_entity_state E \<and> en_ledger E' = en_ledger E"
          then have ?err by (auto simp: expected_error_def transition_error_def dest: ledger_post_error)
          then show ?thesis ..
        next
          assume "\<exists>ev. r = Inr [ev] \<and> moves_payment C R c state rs h E ev E' \<and>
            (\<exists>d rs' h'. map_of (en_entity_state E') ?pid = Some (frozen_map d) \<and>
              distinct (map fst d) \<and> payment_ok R d ?pid rs' h' \<and>
              rs' \<noteq> [] \<and> hs_prefix h' = Some (en_uuid_prefix E) \<and> hs_sequence h' = int (en_uuid_sequence E))"
          with lp \<open>canonical_command R cmd = Inr c\<close> have ?move by blast
          then show ?thesis by blast
        qed
      qed
    qed
  qed
qed

lemma handle_frame: "keeps callback_frame (lifecycle_handle C R cmd :: (('a, 'j) engine, payment_event list) act)"
proof -
  have load: "keeps callback_frame (load_entity R c pid :: (('a, 'j) engine, pyval) act)" for c pid
  proof -
    have "snd (load_entity R c pid E) = snd (engine_entity_state pid E)" for E :: "('a, 'j) engine"
      by (auto simp: load_entity_def split: prod.splits sum.splits exn.splits)
    with engine_entity_state_frame [of pid] show ?thesis by (simp add: keeps_def)
  qed
  have effect: "keeps callback_frame (post_effect R state e u)" for state e u
    unfolding post_effect_def by (intro frame_intros) (auto intro: frame_intros split: option.splits)
  have moves: "keeps callback_frame (apply_transition C R state recs c pid t)" for state recs c pid t
    unfolding apply_transition_def Let_def by (cases t) (auto intro!: frame_intros effect)
  show ?thesis
    unfolding lifecycle_handle_def Let_def
    by (auto intro!: frame_intros load moves split: option.splits prod.splits)
qed

lemma initialize_frame: "keeps callback_frame (lifecycle_initialize C R)"
  unfolding lifecycle_initialize_def by (auto intro!: frame_intros)

lemma rail_adapter_ops: "rail_adapter (lifecycle_ops C R)"
  by unfold_locales (simp_all add: lifecycle_ops_def handle_frame initialize_frame)

end

end
