(* ===== verification/RailFields.thy ===== *)
theory RailFields
  imports Lifecycle
begin

text \<open>
  What the two payment rails say about stored money and about the fields their ledger effects read:
  the checks that a stored amount is canonically quantized (\<open>_validated_state\<close>), the typed reads of
  \<open>_state_value\<close>, and the arithmetic of quantized amounts.
\<close>

section \<open>Optional arguments\<close>

text \<open>An absent optional argument of a constructor is its default.\<close>

definition arg_default :: "payload \<Rightarrow> string \<Rightarrow> pyval \<Rightarrow> pyval" where
  "arg_default args k v = (case map_of args k of None \<Rightarrow> v | Some w \<Rightarrow> w)"

lemma arg_default_cong: "map_of a k = map_of b k \<Longrightarrow> arg_default a k v = arg_default b k v"
  by (simp add: arg_default_def)

lemma arg_default_some: "map_of a k = Some w \<Longrightarrow> arg_default a k v = w"
  by (simp add: arg_default_def)

section \<open>The campaign of a command\<close>

text \<open>\<open>s.rsplit(sep, 1)[1]\<close> when \<open>sep in s\<close>\<close>

fun after_last :: "string \<Rightarrow> string \<Rightarrow> string option" where
  "after_last sep [] = None"
| "after_last sep (c # s) = (case after_last sep s of
       Some r \<Rightarrow> Some r
     | None \<Rightarrow> if take (length sep) (c # s) = sep then Some (drop (length sep) (c # s)) else None)"

text \<open>The property \<open>campaign_id\<close> of a rail command.\<close>

definition command_campaign_id :: "payload \<Rightarrow> string" where
  "command_campaign_id p = (case map_of p ''campaign_id'' of
       Some (PStr direct) \<Rightarrow> direct
     | _ \<Rightarrow> (case map_of p ''idempotency_key'' of
         Some (PStr key) \<Rightarrow> (case after_last '':campaign:'' key of
           Some candidate \<Rightarrow> (case uuid_of_text candidate of
             Some n \<Rightarrow> if uuid_text n = candidate then candidate else [] | None \<Rightarrow> [])
         | None \<Rightarrow> [])
       | _ \<Rightarrow> []))"

section \<open>Stored money\<close>

definition canonical_money :: "string \<Rightarrow> pyval \<Rightarrow> string \<Rightarrow> bool \<Rightarrow> pydec res" where
  "canonical_money l v currency positive =
     bindr (rail_money l v currency positive) (\<lambda>q.
     if v \<noteq> PDec q then Inl (ValueError (''state '' @ l @ '' must be canonically quantized'')) else Inr q)"

section \<open>Typed reads\<close>

text \<open>\<open>_state_value\<close> at the two types the effects read.\<close>

definition state_dec :: "string \<Rightarrow> payload \<Rightarrow> string \<Rightarrow> pydec res" where
  "state_dec corrupt state k = bindr (dict_get state k) (\<lambda>v.
     case v of PDec d \<Rightarrow> Inr d | _ \<Rightarrow> Inl (LifecycleError corrupt))"

definition state_str :: "string \<Rightarrow> payload \<Rightarrow> string \<Rightarrow> string res" where
  "state_str corrupt state k = bindr (dict_get state k) (\<lambda>v.
     case v of PStr s \<Rightarrow> Inr s | _ \<Rightarrow> Inl (LifecycleError corrupt))"

definition posting :: "string \<Rightarrow> amounts \<Rightarrow> amounts \<Rightarrow> string \<Rightarrow> ledger_entry" where
  "posting i d c currency = \<lparr>entry_id = i, debit = d, credit = c, entry_currency = currency\<rparr>"

section \<open>Quantized amounts\<close>

text \<open>\<open>q\<close> is the amount that \<open>_money\<close> makes of \<open>a\<close>.\<close>

definition money_of :: "pydec \<Rightarrow> string \<Rightarrow> bool \<Rightarrow> pydec \<Rightarrow> bool" where
  "money_of a currency positive q \<longleftrightarrow> dfinite a \<and> (if positive then 0 < dsig a else 0 \<le> dsig a) \<and>
     (\<exists>e. map_of rail_exponents currency = Some e \<and> quantize a (- e) = Inr q) \<and>
     (positive \<longrightarrow> 0 < dsig q)"

lemma rail_money_Inr [res_simps]:
  "rail_money l v currency positive = Inr q \<longleftrightarrow> (\<exists>a. v = PDec a \<and> money_of a currency positive q)"
  by (cases v) (auto simp: money_of_def dec_less_zero dec_le_zero not_le not_less res_simps
    split: option.splits if_splits)

lemma money_of_result:
  assumes "money_of a currency positive q"
  shows "dfinite q" "0 \<le> dsig q" "positive \<Longrightarrow> 0 < dsig q" "money_of q currency positive q"
    "map_of rail_exponents currency = Some (- dexp q)" "\<bar>dsig q\<bar> < int dec_limit"
proof -
  from assms obtain e where e: "dfinite a" "if positive then 0 < dsig a else 0 \<le> dsig a"
    "map_of rail_exponents currency = Some e" "quantize a (- e) = Inr q" "positive \<longrightarrow> 0 < dsig q"
    unfolding money_of_def by blast
  from quantize_finite [OF e(4,1)] show q: "dfinite q" and "map_of rail_exponents currency = Some (- dexp q)"
    by (simp_all add: e(3))
  from e(2) have "0 \<le> dsig a" by (simp split: if_splits)
  from quantize_nonneg [OF e(4,1) this] show n: "0 \<le> dsig q" .
  from e(5) show "positive \<Longrightarrow> 0 < dsig q" by simp
  from quantize_limit [OF e(4,1)] show "\<bar>dsig q\<bar> < int dec_limit" .
  from quantize_idem [OF e(4,1)] show "money_of q currency positive q"
    using q n e(3,5) by (simp add: money_of_def)
qed

lemma canonical_money_Inr [res_simps]:
  "canonical_money l v currency positive = Inr q \<longleftrightarrow> v = PDec q \<and> money_of q currency positive q"
  by (auto simp: canonical_money_def res_simps intro: money_of_result(4) split: if_splits)

lemma uuid_of_empty [simp]: "uuid_of_text [] = None"
  by (simp add: uuid_of_text_def strip_chars_none)

lemma if_Inl_Inr: "(if b then Inl e else m) = Inr x \<longleftrightarrow> \<not> b \<and> m = Inr x"
  by simp

lemma case_option_Inl_Inr:
  "(case m of None \<Rightarrow> Inl e | Some y \<Rightarrow> f y) = Inr x \<longleftrightarrow> (\<exists>y. m = Some y \<and> f y = Inr x)"
  by (simp split: option.splits)

text \<open>The checks on values that pass them.\<close>

lemma field_checks:
  "t \<noteq> [] \<Longrightarrow> rail_text l (PStr t) = Inr t"
  "uuid_of_text t \<noteq> None \<Longrightarrow> rail_uuid_text l (PStr t) = Inr t"
  "distinct xs \<Longrightarrow> require_distinct_accounts l xs = Inr ()"
  "map_of d k = Some v \<Longrightarrow> dict_get d k = Inr v"
  "money_of q currency positive q \<Longrightarrow> canonical_money l (PDec q) currency positive = Inr q"
  "money_of a currency positive q \<Longrightarrow> rail_money l (PDec a) currency positive = Inr q"
  by (auto simp: res_simps simp del: rail_money.simps rail_text.simps)

lemma money_again:
  "money_of a currency positive q \<Longrightarrow> rail_money l (PDec q) currency positive = Inr q"
  "money_of a currency positive q \<Longrightarrow> canonical_money l (PDec q) currency positive = Inr q"
  by (simp_all add: field_checks money_of_result(4) del: rail_money.simps)

lemma money_finite:
  "money_of q currency positive q \<Longrightarrow> dfinite q"
  "money_of q currency positive q \<Longrightarrow> 0 \<le> dsig q"
  by (rule money_of_result, assumption)+

end
