(* ===== verification/RailContract.thy ===== *)
theory RailContract
  imports RailFields
begin

text \<open>
  What handling a command promises, for any rail that meets \<open>lifecycle_rail\<close>: the engine stays ready
  for the rail, a failed command leaves payments and ledger alone, the status of a payment moves along
  the transition table only, a legal command is carried out, an illegal one gets the table's code, and
  a command once carried out is never carried out again.
\<close>

section \<open>Ready engines and statuses\<close>

text \<open>An engine whose store the rail built, able to load its bundle and to number events.\<close>

definition rail_ready :: "'j pydantic \<Rightarrow> 'st lifecycle \<Rightarrow> ('a, 'j) engine \<Rightarrow> bool" where
  "rail_ready C R E \<longleftrightarrow> store_ok R E \<and> prefix_ok (en_uuid_prefix E) \<and> bundle_loaded C E \<and>
     normal_utc (ck_now (en_clock E))"

text \<open>The state of a payment, \<open>CREATED\<close> before its first command.\<close>

definition payment_status :: "'st lifecycle \<Rightarrow> ('a, 'j) engine \<Rightarrow> string \<Rightarrow> 'st option" where
  "payment_status R E pid = (case map_of (en_entity_state E) pid of
       None \<Rightarrow> Some (lc_created R)
     | Some v \<Rightarrow> (case owned_mapping v of
         Inl _ \<Rightarrow> None
       | Inr d \<Rightarrow> (case map_of d ''state'' of Some (PStr t) \<Rightarrow> lc_state_of R t | _ \<Rightarrow> None)))"

text \<open>The fields a command's ledger effect is computed from: the stored ones or the opening command's.\<close>

definition payment_fields :: "('a, 'j) engine \<Rightarrow> command \<Rightarrow> payload" where
  "payment_fields E c = (case map_of (en_entity_state E) (payload_str (cmd_payload c) ''payment_id'') of
       None \<Rightarrow> cmd_payload c
     | Some v \<Rightarrow> (case owned_mapping v of Inl _ \<Rightarrow> [] | Inr d \<Rightarrow> d))"

text \<open>A payment's records.\<close>

definition payment_records :: "('a, 'j) engine \<Rightarrow> string \<Rightarrow> pyval list" where
  "payment_records E pid = (case map_of (en_entity_state E) pid of
       None \<Rightarrow> []
     | Some v \<Rightarrow> (case owned_mapping v of
         Inl _ \<Rightarrow> []
       | Inr d \<Rightarrow> (case map_of d ''idempotency_records'' of Some (PTuple rs) \<Rightarrow> rs | _ \<Rightarrow> [])))"

lemma record_value_inject [simp]: "record_value r = record_value s \<longleftrightarrow> r = s"
  by (cases r; cases s) (auto simp: record_value_def)

lemma map_record_value [simp]: "map record_value rs = map record_value ss \<longleftrightarrow> rs = ss"
  by (rule inj_map_eq_map) (simp add: inj_on_def)

lemma frozen_map_lookup:
  assumes "map_of (en_entity_state E) pid = Some v" "owned_mapping v = Inr d" "payment_ok R d pid rs h"
  shows "payment_status R E pid = Some (hs_state h)" "payment_records E pid = map record_value rs"
  using assms by (auto simp: payment_status_def payment_records_def payment_ok_def)

context lifecycle_rail
begin

lemma loaded_status:
  assumes "loaded_payment R c E state rs h"
  shows "payment_status R E (payload_str (cmd_payload c) ''payment_id'') = Some (hs_state h)"
    "payment_records E (payload_str (cmd_payload c) ''payment_id'') = map record_value rs"
proof -
  let ?pid = "payload_str (cmd_payload c) ''payment_id''"
  have "payment_status R E ?pid = Some (hs_state h) \<and> payment_records E ?pid = map record_value rs"
  proof (cases "map_of (en_entity_state E) ?pid")
    case None
    with assms show ?thesis
      by (auto simp: loaded_payment_def Let_def payment_status_def payment_records_def new_history_def)
  next
    case (Some v)
    with assms have "owned_mapping v = Inr state" "payment_ok R state ?pid rs h"
      by (auto simp: loaded_payment_def Let_def)
    from frozen_map_lookup [OF Some this] show ?thesis by simp
  qed
  then show "payment_status R E ?pid = Some (hs_state h)"
    "payment_records E ?pid = map record_value rs" by auto
qed

text \<open>What a healthy engine does with a canonical command.\<close>

lemma handle_dispatch:
  assumes "rail_ready C R E" "en_failure E = None" "canonical_command R cmd = Inr c"
  defines "pid \<equiv> payload_str (cmd_payload c) ''payment_id''"
    and "key \<equiv> payload_str (cmd_payload c) ''idempotency_key''"
  shows "map_of (en_entity_state E) pid = None \<and> \<not> lc_opening R (cmd_class c) \<and>
      lifecycle_handle C R cmd E = (Inl (LifecycleError (case map_of (lc_missing R) (cmd_class c) of
        None \<Rightarrow> lc_code R @ ''_INVALID_TRANSITION'' | Some code \<Rightarrow> code)), E) \<or>
    (map_of (en_entity_state E) pid \<noteq> None \<or> lc_opening R (cmd_class c)) \<and>
    (\<exists>state rs h fp. loaded_payment R c E state rs h \<and> payload_fingerprint (lc_name R) (cmd_payload c) = Inr fp \<and>
      lifecycle_handle C R cmd E = (case find (\<lambda>r. hr_key r = key) rs of
         Some r \<Rightarrow> if hr_operation r = command_operation R c \<and> hr_fingerprint r = fp then (Inr [], E)
                   else (Inl (lc_error R ''_IDEMPOTENCY_KEY_COLLISION''), E)
       | None \<Rightarrow> (case map_of (lc_transitions R) (hs_state h, cmd_class c) of
           None \<Rightarrow> (Inl (LifecycleError (lc_invalid_code R (hs_state h) (cmd_class c))), E)
         | Some t \<Rightarrow> apply_transition C R state (map record_value rs) c pid t E)))"
    (is "?missing \<or> ?found")
proof -
  obtain l E1 where l: "load_entity R c pid E = (l, E1)" by fastforce
  have store: "store_ok R E" using assms(1) by (simp add: rail_ready_def)
  note load = load_entity_payment [OF store assms(3) l [unfolded pid_def]]
  show ?thesis
  proof (cases "map_of (en_entity_state E) pid = None \<and> \<not> lc_opening R (cmd_class c)")
    case True
    then have "load_entity R c pid E = (Inl (LifecycleError (case map_of (lc_missing R) (cmd_class c) of
        None \<Rightarrow> lc_code R @ ''_INVALID_TRANSITION'' | Some code \<Rightarrow> code)), E)"
      by (simp add: load_entity_def engine_entity_state_def healthy_def ensure_healthy_def assms(2))
    with True assms(3) have ?missing
      by (simp add: lifecycle_handle_def Let_def bindm_def flip: pid_def)
    then show ?thesis ..
  next
    case False
    with l assms(2) obtain raw where raw: "l = Inr raw"
      by (cases "map_of (en_entity_state E) pid")
        (auto simp: load_entity_def engine_entity_state_def healthy_def ensure_healthy_def)
    from load(2) [OF raw] obtain state rs h where
      v: "validated_state R raw pid = Inr state" and lp: "loaded_payment R c E state rs h"
      unfolding pid_def by blast
    from canonical_Inr(3) [OF assms(3)] obtain fp where
      fp: "payload_fingerprint (lc_name R) (cmd_payload c) = Inr fp" by blast
    have st: "bindr (bindr (dict_get state ''state'') (exact_str ''state'')) (state_member R) = Inr (hs_state h)"
      using lp by (auto simp: loaded_payment_def Let_def payment_ok_def dict_get_def state_member_def)
    have "lifecycle_handle C R cmd E = (case find (\<lambda>r. hr_key r = key) rs of
         Some r \<Rightarrow> if hr_operation r = command_operation R c \<and> hr_fingerprint r = fp then (Inr [], E)
                   else (Inl (lc_error R ''_IDEMPOTENCY_KEY_COLLISION''), E)
       | None \<Rightarrow> (case map_of (lc_transitions R) (hs_state h, cmd_class c) of
           None \<Rightarrow> (Inl (LifecycleError (lc_invalid_code R (hs_state h) (cmd_class c))), E)
         | Some t \<Rightarrow> apply_transition C R state (map record_value rs) c pid t E))"
      using l load(1) raw assms(3) v retry_outcome [OF lp assms(3) fp] st
      by (simp add: lifecycle_handle_def Let_def bindm_def flip: pid_def key_def split: option.splits)
    note found = this
    from False have "map_of (en_entity_state E) pid \<noteq> None \<or> lc_opening R (cmd_class c)" by simp
    then have ?found
      by (rule conjI) (rule exI [of _ state], rule exI [of _ rs], rule exI [of _ h], rule exI [of _ fp],
        intro conjI lp fp found)
    then show ?thesis ..
  qed
qed

lemma moved_fields:
  assumes "moves_payment C R c state rs h E ev E'"
  shows "en_bundle E' = en_bundle E" "en_bundle_payload E' = en_bundle_payload E"
    "en_uuid_prefix E' = en_uuid_prefix E" "en_uuid_sequence E' = en_uuid_sequence E + 1"
    "en_clock E' = en_clock E" "en_failure E' = en_failure E"
    "\<exists>n kind effect u fp cm. map_of (lc_transitions R) (hs_state h, cmd_class c) = Some (n, kind, effect) \<and>
       payload_fingerprint (lc_name R) (cmd_payload c) = Inr fp \<and> pe_event_type ev = kind \<and>
       u = uuid_text (en_uuid_prefix E * 2 ^ 48 + en_uuid_sequence E) \<and> pe_event_id ev = u \<and>
       en_entity_state E' = AList.update (payload_str (cmd_payload c) ''payment_id'')
         (frozen_map (updated_state R state (map record_value rs) c n u fp cm)) (en_entity_state E)"
  using assms unfolding moves_payment_def Let_def
  by (auto simp: lifecycle_event_def)

lemma moved_payment:
  assumes "moves_payment C R c state rs h E ev E'"
  shows "\<exists>n kind effect u fp cm d. map_of (lc_transitions R) (hs_state h, cmd_class c) = Some (n, kind, effect) \<and>
       payload_fingerprint (lc_name R) (cmd_payload c) = Inr fp \<and> pe_event_type ev = kind \<and>
       map_of (en_entity_state E') (payload_str (cmd_payload c) ''payment_id'') = Some (frozen_map d) \<and>
       map_of d ''state'' = Some (PStr (lc_state_value R n)) \<and>
       map_of d ''idempotency_records'' = Some (PTuple (map record_value (rs @
         [\<lparr>hr_key = payload_str (cmd_payload c) ''idempotency_key'', hr_operation = command_operation R c,
           hr_fingerprint = fp, hr_event_id = u, hr_commitment = cm\<rparr>]))) \<and>
       (\<forall>i. i \<noteq> payload_str (cmd_payload c) ''payment_id'' \<longrightarrow>
          map_of (en_entity_state E') i = map_of (en_entity_state E) i)"
proof -
  let ?pid = "payload_str (cmd_payload c) ''payment_id''"
  from moved_fields(7) [OF assms] obtain n kind effect u fp cm where
    1: "map_of (lc_transitions R) (hs_state h, cmd_class c) = Some (n, kind, effect)"
    "payload_fingerprint (lc_name R) (cmd_payload c) = Inr fp" "pe_event_type ev = kind"
    "en_entity_state E' = AList.update ?pid
       (frozen_map (updated_state R state (map record_value rs) c n u fp cm)) (en_entity_state E)"
    by blast
  have "map_of (en_entity_state E') i = (if i = ?pid
      then Some (frozen_map (updated_state R state (map record_value rs) c n u fp cm))
      else map_of (en_entity_state E) i)" for i
    by (simp add: 1(4) update_conv')
  then show ?thesis
    by (intro exI [of _ n] exI [of _ kind] exI [of _ effect] exI [of _ u] exI [of _ fp] exI [of _ cm]
        exI [of _ "updated_state R state (map record_value rs) c n u fp cm"])
      (simp add: 1(1-3) updated_lookup record_value_def)
qed

text \<open>The engine stays ready, whatever the command does.\<close>

lemma handle_ready:
  assumes ready: "rail_ready C R E" and run: "lifecycle_handle C R cmd E = (r, E')"
  shows "rail_ready C R E'"
proof -
  from ready have E: "store_ok R E" "prefix_ok (en_uuid_prefix E)" "bundle_loaded C E" "normal_utc (ck_now (en_clock E))"
    by (simp_all add: rail_ready_def)
  from handle_frame [of C cmd] run have frame: "callback_frame E E'" by (auto simp: keeps_def dest: spec [of _ E])
  then have rest: "prefix_ok (en_uuid_prefix E')" "bundle_loaded C E'" "normal_utc (ck_now (en_clock E'))"
    using E by (simp_all add: callback_frame_def bundle_loaded_def)
  have "store_ok R E'"
    using handle_outcome [OF E run]
  proof (elim disjE exE conjE)
    fix e assume "en_entity_state E' = en_entity_state E"
    with E(1) frame show ?thesis by (auto intro!: store_ok_mono [of R E] simp: callback_frame_def)
  next
    assume "E' = E"
    with E(1) show ?thesis by simp
  next
    fix ev state rs h d rs' h' and c :: command
    let ?pid = "payload_str (cmd_payload c) ''payment_id''"
    assume m: "moves_payment C R c state rs h E ev E'"
      and d: "map_of (en_entity_state E') ?pid = Some (frozen_map d)" "distinct (map fst d)"
        "payment_ok R d ?pid rs' h'" "rs' \<noteq> []" "hs_prefix h' = Some (en_uuid_prefix E)"
        "hs_sequence h' = int (en_uuid_sequence E)"
    from moved_payment [OF m] have others: "\<forall>i. i \<noteq> ?pid \<longrightarrow> map_of (en_entity_state E') i = map_of (en_entity_state E) i"
      by blast
    show ?thesis
      unfolding store_ok_def
    proof (intro allI impI)
      fix pid v assume v: "map_of (en_entity_state E') pid = Some v"
      show "\<exists>state rs h. owned_mapping v = Inr state \<and> distinct (map fst state) \<and> payment_ok R state pid rs h \<and>
        rs \<noteq> [] \<and> hs_prefix h = Some (en_uuid_prefix E') \<and> hs_sequence h < int (en_uuid_sequence E')"
      proof (cases "pid = ?pid")
        case True
        with v d(1) have "v = frozen_map d" by simp
        then have "owned_mapping v = Inr d" by (simp add: owned_frozen_map)
        with d True show ?thesis
          by (intro exI [of _ d] exI [of _ rs'] exI [of _ h']) (simp add: moved_fields [OF m])
      next
        case False
        with v others have "map_of (en_entity_state E) pid = Some v" by simp
        with E(1) obtain state rs h where "owned_mapping v = Inr state" "distinct (map fst state)"
          "payment_ok R state pid rs h" "rs \<noteq> []" "hs_prefix h = Some (en_uuid_prefix E)"
          "hs_sequence h < int (en_uuid_sequence E)"
          unfolding store_ok_def by blast
        then show ?thesis
          by (intro exI [of _ state] exI [of _ rs] exI [of _ h]) (simp add: moved_fields [OF m])
      qed
    qed
  qed
  with rest show ?thesis by (simp add: rail_ready_def)
qed

lemma handle_error:
  assumes "rail_ready C R E" "lifecycle_handle C R cmd E = (Inl e, E')"
  shows "expected_error e \<and> en_entity_state E' = en_entity_state E \<and> en_ledger E' = en_ledger E"
  using assms(1) handle_outcome [OF _ _ _ _ assms(2)] by (auto simp: rail_ready_def)

text \<open>A carried-out command moves its payment along the table and touches no other.\<close>

lemma handle_table:
  assumes ready: "rail_ready C R E" and run: "lifecycle_handle C R cmd E = (Inr evs, E')"
  shows "evs = [] \<and> E' = E \<or>
    (\<exists>c ev s n kind effect fp u cm. evs = [ev] \<and> canonical_command R cmd = Inr c \<and>
       payload_fingerprint (lc_name R) (cmd_payload c) = Inr fp \<and> pe_event_type ev = kind \<and>
       map_of (lc_transitions R) (s, cmd_class c) = Some (n, kind, effect) \<and>
       payment_status R E (payload_str (cmd_payload c) ''payment_id'') = Some s \<and>
       payment_status R E' (payload_str (cmd_payload c) ''payment_id'') = Some n \<and>
       payment_records E' (payload_str (cmd_payload c) ''payment_id'') =
         payment_records E (payload_str (cmd_payload c) ''payment_id'') @
         [record_value \<lparr>hr_key = payload_str (cmd_payload c) ''idempotency_key'', hr_operation = command_operation R c,
           hr_fingerprint = fp, hr_event_id = u, hr_commitment = cm\<rparr>] \<and>
       (\<forall>i. i \<noteq> payload_str (cmd_payload c) ''payment_id'' \<longrightarrow>
          map_of (en_entity_state E') i = map_of (en_entity_state E) i))"
proof -
  from ready have E: "store_ok R E" "prefix_ok (en_uuid_prefix E)" "bundle_loaded C E" "normal_utc (ck_now (en_clock E))"
    by (simp_all add: rail_ready_def)
  from handle_outcome [OF E run] show ?thesis
  proof (elim disjE exE conjE)
    fix ev state rs h d rs' h' and c :: command
    let ?pid = "payload_str (cmd_payload c) ''payment_id''"
    assume r: "(Inr evs :: payment_event list res) = Inr [ev]" and c: "canonical_command R cmd = Inr c"
      and lp: "loaded_payment R c E state rs h" and m: "moves_payment C R c state rs h E ev E'"
    from moved_payment [OF m] obtain n kind effect u fp cm d where
      1: "map_of (lc_transitions R) (hs_state h, cmd_class c) = Some (n, kind, effect)"
       "payload_fingerprint (lc_name R) (cmd_payload c) = Inr fp" "pe_event_type ev = kind"
       "map_of (en_entity_state E') ?pid = Some (frozen_map d)"
       "map_of d ''state'' = Some (PStr (lc_state_value R n))"
       "map_of d ''idempotency_records'' = Some (PTuple (map record_value (rs @
         [\<lparr>hr_key = payload_str (cmd_payload c) ''idempotency_key'', hr_operation = command_operation R c,
           hr_fingerprint = fp, hr_event_id = u, hr_commitment = cm\<rparr>])))"
       "\<forall>i. i \<noteq> ?pid \<longrightarrow> map_of (en_entity_state E') i = map_of (en_entity_state E) i"
      by (elim exE conjE) (rule that)
    have "payment_status R E' ?pid = Some n"
      using 1(4,5) state_text by (simp add: payment_status_def owned_frozen_map)
    moreover have "payment_records E' ?pid = payment_records E ?pid @ [record_value \<lparr>
        hr_key = payload_str (cmd_payload c) ''idempotency_key'', hr_operation = command_operation R c,
        hr_fingerprint = fp, hr_event_id = u, hr_commitment = cm\<rparr>]"
      using 1(4,6) loaded_status(2) [OF lp] by (simp add: payment_records_def owned_frozen_map)
    ultimately show ?thesis
      using r c 1(1-3,7) loaded_status(1) [OF lp]
      by (intro disjI2 exI [of _ c] exI [of _ ev] exI [of _ "hs_state h"] exI [of _ n] exI [of _ kind]
          exI [of _ effect] exI [of _ fp] exI [of _ u] exI [of _ cm]) simp
  qed simp_all
qed

text \<open>Records are only ever added.\<close>

lemma handle_records:
  assumes "rail_ready C R E" "lifecycle_handle C R cmd E = (r, E')"
  shows "set (payment_records E pid) \<subseteq> set (payment_records E' pid)"
proof (cases r)
  case (Inl e)
  with handle_error [OF assms(1)] assms(2) show ?thesis by (simp add: payment_records_def)
next
  case (Inr evs)
  from handle_table [OF assms(1) assms(2) [unfolded Inr]] show ?thesis
  proof (elim disjE exE conjE)
    fix c :: command and fp u cm
    assume "payment_records E' (payload_str (cmd_payload c) ''payment_id'') =
         payment_records E (payload_str (cmd_payload c) ''payment_id'') @
         [record_value \<lparr>hr_key = payload_str (cmd_payload c) ''idempotency_key'', hr_operation = command_operation R c,
           hr_fingerprint = fp, hr_event_id = u, hr_commitment = cm\<rparr>]"
      and "\<forall>i. i \<noteq> payload_str (cmd_payload c) ''payment_id'' \<longrightarrow>
          map_of (en_entity_state E') i = map_of (en_entity_state E) i"
    then show ?thesis
      by (cases "pid = payload_str (cmd_payload c) ''payment_id''") (auto simp: payment_records_def)
  qed simp
qed

text \<open>A recorded command is a retry.\<close>

lemma recorded_retry:
  assumes "rail_ready C R E" "en_failure E = None" "canonical_command R cmd = Inr c"
    and "payload_fingerprint (lc_name R) (cmd_payload c) = Inr (hr_fingerprint r)"
    and "record_value r \<in> set (payment_records E (payload_str (cmd_payload c) ''payment_id''))"
    and "hr_key r = payload_str (cmd_payload c) ''idempotency_key''" "hr_operation r = command_operation R c"
  shows "lifecycle_handle C R cmd E = (Inr [], E)"
proof -
  let ?pid = "payload_str (cmd_payload c) ''payment_id''"
  have "map_of (en_entity_state E) ?pid \<noteq> None"
    using assms(5) by (cases "map_of (en_entity_state E) ?pid") (simp_all add: payment_records_def)
  with handle_dispatch [OF assms(1-3)] obtain state rs h fp where
    lp: "loaded_payment R c E state rs h" and fp: "payload_fingerprint (lc_name R) (cmd_payload c) = Inr fp" and
    run: "lifecycle_handle C R cmd E = (case find (\<lambda>r. hr_key r = payload_str (cmd_payload c) ''idempotency_key'') rs of
         Some r \<Rightarrow> if hr_operation r = command_operation R c \<and> hr_fingerprint r = fp then (Inr [], E)
                   else (Inl (lc_error R ''_IDEMPOTENCY_KEY_COLLISION''), E)
       | None \<Rightarrow> (case map_of (lc_transitions R) (hs_state h, cmd_class c) of
           None \<Rightarrow> (Inl (LifecycleError (lc_invalid_code R (hs_state h) (cmd_class c))), E)
         | Some t \<Rightarrow> apply_transition C R state (map record_value rs) c ?pid t E))"
    by (elim disjE exE conjE) (auto intro: that)
  from lp have "history_chain R state ?pid (new_history R) rs h"
    by (auto simp: loaded_payment_def Let_def payment_ok_def)
  from history_chain_fields [OF this] history_chain_sound [OF this new_history_sound]
  have dist: "distinct (map hr_key rs)" by (simp add: history_sound_def new_history_def)
  from assms(5) loaded_status(2) [OF lp] have r: "r \<in> set rs" by auto
  then have "find (\<lambda>s. hr_key s = hr_key r) rs \<noteq> None" by (auto simp: find_None_iff)
  then obtain s where s: "find (\<lambda>s. hr_key s = hr_key r) rs = Some s" by auto
  then have "s \<in> set rs" "hr_key s = hr_key r" by (auto simp: find_Some_iff)
  with dist r have "s = r" by (auto simp: distinct_map inj_on_def)
  with run s fp assms(4,6,7) show ?thesis by simp
qed

end

text \<open>A sequence of commands, each handled whether or not the one before it raised.\<close>

primrec handle_all :: "'j pydantic \<Rightarrow> 'st lifecycle \<Rightarrow> command list \<Rightarrow> ('a, 'j) engine \<Rightarrow> ('a, 'j) engine" where
  "handle_all C R [] E = E"
| "handle_all C R (cmd # cmds) E = handle_all C R cmds (snd (lifecycle_handle C R cmd E))"

context lifecycle_rail
begin

lemma handle_all_records:
  "rail_ready C R E \<Longrightarrow> rail_ready C R (handle_all C R cmds E) \<and>
    set (payment_records E pid) \<subseteq> set (payment_records (handle_all C R cmds E) pid)"
proof (induction cmds arbitrary: E)
  case (Cons cmd cmds)
  obtain r E1 where run: "lifecycle_handle C R cmd E = (r, E1)" by fastforce
  from Cons.IH [OF handle_ready [OF Cons.prems run]] handle_records [OF Cons.prems run, of pid]
  show ?case by (auto simp: run)
qed simp

lemma handle_all_ready: "rail_ready C R E \<Longrightarrow> rail_ready C R (handle_all C R cmds E)"
  using handle_all_records by blast

lemma handled_once:
  assumes "rail_ready C R E" "lifecycle_handle C R cmd E = (Inr [ev], E1)"
    and "E2 = handle_all C R cmds E1" "en_failure E2 = None"
  shows "lifecycle_handle C R cmd E2 = (Inr [], E2)"
proof -
  from handle_table [OF assms(1,2)] obtain c fp u cm where c: "canonical_command R cmd = Inr c"
    "payload_fingerprint (lc_name R) (cmd_payload c) = Inr fp"
    "payment_records E1 (payload_str (cmd_payload c) ''payment_id'') =
         payment_records E (payload_str (cmd_payload c) ''payment_id'') @
         [record_value \<lparr>hr_key = payload_str (cmd_payload c) ''idempotency_key'', hr_operation = command_operation R c,
           hr_fingerprint = fp, hr_event_id = u, hr_commitment = cm\<rparr>]"
    by blast
  have ready: "rail_ready C R E1" using handle_ready [OF assms(1,2)] .
  let ?r = "\<lparr>hr_key = payload_str (cmd_payload c) ''idempotency_key'', hr_operation = command_operation R c,
           hr_fingerprint = fp, hr_event_id = u, hr_commitment = cm\<rparr>"
  have "record_value ?r \<in> set (payment_records E2 (payload_str (cmd_payload c) ''payment_id''))"
    using handle_all_records [OF ready, of cmds "payload_str (cmd_payload c) ''payment_id''"] c(3)
    by (auto simp: assms(3))
  from recorded_retry [OF _ assms(4) c(1) _ this] handle_all_ready [OF ready] c(2)
  show ?thesis by (simp add: assms(3))
qed

lemma loaded_same:
  assumes "loaded_payment R c E state rs h"
  shows "same_fields R state (payment_fields E c)"
  using assms by (auto simp: loaded_payment_def payment_fields_def Let_def split: option.splits)

lemma handle_progress:
  assumes ready: "rail_ready C R E" "en_failure E = None" "en_uuid_sequence E < 2 ^ 48"
    and c: "canonical_command R cmd = Inr c"
  defines "pid \<equiv> payload_str (cmd_payload c) ''payment_id''"
  assumes s: "payment_status R E pid = Some s"
    and t: "map_of (lc_transitions R) (s, cmd_class c) = Some (n, kind, effect)"
    and key: "\<forall>r. record_value r \<in> set (payment_records E pid) \<longrightarrow>
      hr_key r \<noteq> payload_str (cmd_payload c) ''idempotency_key''"
    and post: "\<forall>entry. lc_effect R (payment_fields E c) effect (uuid_text (en_uuid_prefix E * 2 ^ 48 + en_uuid_sequence E)) =
      Inr (Some entry) \<longrightarrow> (\<exists>L. ledger_post (en_ledger E) entry = Inr L)"
  shows "\<exists>ev E'. lifecycle_handle C R cmd E = (Inr [ev], E') \<and> pe_event_type ev = kind \<and>
    payment_status R E' pid = Some n \<and> en_failure E' = None"
proof -
  from ready(1) have E: "prefix_ok (en_uuid_prefix E)" "bundle_loaded C E" "normal_utc (ck_now (en_clock E))"
    by (simp_all add: rail_ready_def)
  have open_ok: "lc_opening R (cmd_class c)" if "map_of (en_entity_state E) pid = None"
    using that s t transition_opening [OF t] by (auto simp: payment_status_def)
  with handle_dispatch [OF ready(1,2) c, folded pid_def] obtain state rs h fp where
    lp: "loaded_payment R c E state rs h" and
    run: "lifecycle_handle C R cmd E = (case find (\<lambda>r. hr_key r = payload_str (cmd_payload c) ''idempotency_key'') rs of
         Some r \<Rightarrow> if hr_operation r = command_operation R c \<and> hr_fingerprint r = fp then (Inr [], E)
                   else (Inl (lc_error R ''_IDEMPOTENCY_KEY_COLLISION''), E)
       | None \<Rightarrow> (case map_of (lc_transitions R) (hs_state h, cmd_class c) of
           None \<Rightarrow> (Inl (LifecycleError (lc_invalid_code R (hs_state h) (cmd_class c))), E)
         | Some t \<Rightarrow> apply_transition C R state (map record_value rs) c pid t E))"
    by (elim disjE exE conjE) (auto intro: that)
  have h: "hs_state h = s" using s loaded_status(1) [OF lp] by (simp add: pid_def)
  have fresh: "payload_str (cmd_payload c) ''idempotency_key'' \<notin> set (map hr_key rs)"
    using key loaded_status(2) [OF lp, folded pid_def] by auto
  then have "find (\<lambda>r. hr_key r = payload_str (cmd_payload c) ''idempotency_key'') rs = None"
    by (simp add: find_None_iff) (metis image_eqI)
  with run t h have run': "lifecycle_handle C R cmd E =
      apply_transition C R state (map record_value rs) c pid (n, kind, effect) E" by simp
  obtain r E' where r: "lifecycle_handle C R cmd E = (r, E')" by fastforce
  have dist: "distinct (map fst state)" using lp by (simp add: loaded_payment_def Let_def)
  have "\<not> transition_error R state effect E e" for e
    using ready(3) post effect_cong [OF loaded_same [OF lp]]
    by (auto simp: transition_error_def)
  with apply_outcome [OF lp dist c ready(2) E _ t [folded h] run' [unfolded r pid_def, symmetric]]
    fresh loaded_keys [OF lp]
  obtain ev where ev: "r = Inr [ev]" "moves_payment C R c state rs h E ev E'" by auto
  from handle_table [OF ready(1) r [unfolded ev(1)]] c s t
  have "payment_status R E' pid = Some n" "pe_event_type ev = kind" by (auto simp: pid_def)
  with r ev(1) moved_fields(6) [OF ev(2)] ready(2) show ?thesis by auto
qed

lemma handle_illegal:
  assumes ready: "rail_ready C R E" "en_failure E = None" and c: "canonical_command R cmd = Inr c"
  defines "pid \<equiv> payload_str (cmd_payload c) ''payment_id''"
  assumes s: "payment_status R E pid = Some s"
    and t: "map_of (lc_transitions R) (s, cmd_class c) = None"
    and key: "\<forall>r. record_value r \<in> set (payment_records E pid) \<longrightarrow>
      hr_key r \<noteq> payload_str (cmd_payload c) ''idempotency_key''"
  shows "lifecycle_handle C R cmd E = (Inl (LifecycleError (
      if map_of (en_entity_state E) pid = None \<and> \<not> lc_opening R (cmd_class c)
      then case map_of (lc_missing R) (cmd_class c) of None \<Rightarrow> lc_code R @ ''_INVALID_TRANSITION'' | Some code \<Rightarrow> code
      else lc_invalid_code R s (cmd_class c))), E)"
proof (cases "map_of (en_entity_state E) pid = None \<and> \<not> lc_opening R (cmd_class c)")
  case True
  with handle_dispatch [OF ready c, folded pid_def] show ?thesis by auto
next
  case False
  with handle_dispatch [OF ready c, folded pid_def] obtain state rs h fp where
    lp: "loaded_payment R c E state rs h" and
    run: "lifecycle_handle C R cmd E = (case find (\<lambda>r. hr_key r = payload_str (cmd_payload c) ''idempotency_key'') rs of
         Some r \<Rightarrow> if hr_operation r = command_operation R c \<and> hr_fingerprint r = fp then (Inr [], E)
                   else (Inl (lc_error R ''_IDEMPOTENCY_KEY_COLLISION''), E)
       | None \<Rightarrow> (case map_of (lc_transitions R) (hs_state h, cmd_class c) of
           None \<Rightarrow> (Inl (LifecycleError (lc_invalid_code R (hs_state h) (cmd_class c))), E)
         | Some t \<Rightarrow> apply_transition C R state (map record_value rs) c pid t E))"
    by (elim disjE exE conjE) (auto intro: that)
  have h: "hs_state h = s" using s loaded_status(1) [OF lp] by (simp add: pid_def)
  have "find (\<lambda>r. hr_key r = payload_str (cmd_payload c) ''idempotency_key'') rs = None"
    using key loaded_status(2) [OF lp, folded pid_def] by (auto simp: find_None_iff)
  with run t h False show ?thesis by auto
qed

end

end
