(* ===== verification/RailMoney.thy ===== *)
theory RailMoney
  imports RailContract
begin

text \<open>
  What the rails do to the ledger. A rail assigns every state of a payment a position: what each
  account holds because of it. The interface \<open>priced_rail\<close> asks that the posting of a transition moves
  from one position to the next; then the ledger is at all times the opening ledger plus the positions
  of the stored payments.
\<close>

section \<open>Amounts the ledger takes as they are\<close>

definition canonical_amount :: "string \<Rightarrow> pydec \<Rightarrow> bool" where
  "canonical_amount c x \<longleftrightarrow> map_of currency_exponents c \<noteq> None \<and>
     (\<exists>s n. x = Dec s n (- exponent_of c) \<and> n < dec_limit) \<and> 0 \<le> dsig x"

lemma canonical_quantize: "canonical_amount c x \<Longrightarrow> ledger_quantize x c = Inr x"
  by (auto simp: canonical_amount_def ledger_quantize_def currency_exponent_def exponent_of_def)

lemma canonical_cents: "canonical_amount c x \<Longrightarrow> cents c x = dsig x" "canonical_amount c x \<Longrightarrow> 0 \<le> cents c x"
  by (auto simp: canonical_amount_def cents_def units_def)

lemma money_canonical: "money_of a c p q \<Longrightarrow> canonical_amount c q"
proof -
  assume m: "money_of a c p q"
  then obtain e where e: "map_of rail_exponents c = Some e" "quantize a (- e) = Inr q" "dfinite a"
    by (auto simp: money_of_def)
  have "map_of currency_exponents c = Some e"
    using e(1) by (simp add: rail_exponents_def currency_exponents_def)
  with quantize_Inr [OF e(2,3)] money_of_result(2) [OF m] show ?thesis
    by (auto simp: canonical_amount_def exponent_of_def)
qed

lemma canonical_from_cents:
  assumes "canonical_amount c x" "canonical_amount c y"
  shows "cents c y \<le> cents c x \<Longrightarrow> canonical_amount c (dec_sub x y) \<and> cents c (dec_sub x y) = cents c x - cents c y"
    and "cents c x + cents c y < int dec_limit \<Longrightarrow>
      canonical_amount c (dec_add x y) \<and> cents c (dec_add x y) = cents c x + cents c y"
proof -
  from assms(1) obtain s n where x: "x = Dec s n (- exponent_of c)" "n < dec_limit" "0 \<le> dsig x"
    "map_of currency_exponents c \<noteq> None"
    by (auto simp: canonical_amount_def)
  from assms(2) obtain s' n' where y: "y = Dec s' n' (- exponent_of c)" "n' < dec_limit" "0 \<le> dsig y"
    by (auto simp: canonical_amount_def)
  have pos: "dsig x = int n" "dsig y = int n'" using x(1,3) y(1,3) by (auto split: if_splits)
  have cx: "cents c x = int n" "cents c y = int n'"
    using canonical_cents(1) [OF assms(1)] canonical_cents(1) [OF assms(2)] pos by simp_all
  have ux: "units (- exponent_of c) (Dec s n (- exponent_of c)) = int n"
    "units (- exponent_of c) (Dec s' n' (- exponent_of c)) = int n'"
    "units (- exponent_of c) (Dec (\<not> s') n' (- exponent_of c)) = - int n'"
    using pos x(1) y(1) by (auto simp: units_def split: if_splits)
  {
    assume le: "cents c y \<le> cents c x"
    then have le': "n' \<le> n" using cx by simp
    then have small: "nat \<bar>int n - int n'\<bar> < dec_limit" using x(2) by linarith
    have "\<exists>b. dec_sub x y = Dec b (nat \<bar>int n - int n'\<bar>) (- exponent_of c) \<and> (\<not> b \<or> n = n')"
      using small le' by (simp add: dec_sub_def x(1) y(1) Let_def ux)
    then show "canonical_amount c (dec_sub x y) \<and> cents c (dec_sub x y) = cents c x - cents c y"
      using small le' x(4) unfolding cx by (auto simp: canonical_amount_def cents_def units_def)
  }
  assume lt: "cents c x + cents c y < int dec_limit"
  then have small: "nat \<bar>int n + int n'\<bar> < dec_limit" using cx by linarith
  have "\<exists>b. dec_add x y = Dec b (nat \<bar>int n + int n'\<bar>) (- exponent_of c) \<and> (\<not> b \<or> n + n' = 0)"
    using small by (simp add: x(1) y(1) Let_def ux)
  then show "canonical_amount c (dec_add x y) \<and> cents c (dec_add x y) = cents c x + cents c y"
    using small x(4) unfolding cx by (auto simp: canonical_amount_def cents_def units_def)
qed

lemma canonical_legs:
  assumes "\<forall>(a, x) \<in> set legs. a \<noteq> [] \<and> canonical_amount c x" "distinct (map fst legs)"
  shows "normalize_legs legs c = Inr legs"
proof -
  have "foldlr (normalize_leg c) acc legs = Inr (acc @ legs)"
    if "\<forall>(a, x) \<in> set legs. a \<noteq> [] \<and> canonical_amount c x" "distinct (map fst (acc @ legs))" for acc
    using that
  proof (induction legs arbitrary: acc)
    case (Cons l legs)
    obtain a x where l: "l = (a, x)" by (cases l)
    from Cons.prems(1) have x: "a \<noteq> []" "canonical_amount c x" by (auto simp: l)
    then have "dfinite x" "\<not> dec_less x dec_zero"
      by (auto simp: canonical_amount_def dec_less_zero)
    moreover have "a \<notin> fst ` set acc" using Cons.prems(2) by (auto simp: l)
    then have "AList.update a x acc = acc @ [(a, x)]" by (induction acc) auto
    ultimately have "normalize_leg c acc l = Inr (acc @ [(a, x)])"
      using x canonical_quantize [OF x(2)] by (simp add: normalize_leg_def l)
    with Cons.IH [of "acc @ [(a, x)]"] Cons.prems show ?case by (simp add: l)
  qed simp
  from this [of "[]"] assms show ?thesis by (simp add: normalize_legs_def)
qed

lemma canonical_posting:
  assumes "\<forall>(a, x) \<in> set ds. a \<noteq> [] \<and> canonical_amount c x" "distinct (map fst ds)"
    and "\<forall>(a, x) \<in> set cs. a \<noteq> [] \<and> canonical_amount c x" "distinct (map fst cs)"
  shows "normalized_entry (posting i ds cs c) = Inr (posting i ds cs c)"
  using canonical_legs [OF assms(1,2)] canonical_legs [OF assms(3,4)]
  by (simp add: normalized_entry_def posting_def)

section \<open>Positions\<close>

text \<open>The cents of an amount of a payment in the payment's currency.\<close>

definition pay_cents :: "payload \<Rightarrow> string \<Rightarrow> int" where
  "pay_cents d k = (case map_of d k of Some (PDec a) \<Rightarrow> cents (payload_str d ''currency'') a | _ \<Rightarrow> 0)"

text \<open>More than any posting of the payment moves.\<close>

definition rail_gross :: "payload \<Rightarrow> int" where
  "rail_gross d = 2 * (pay_cents d ''amount'' + pay_cents d ''fee'')"

text \<open>What the account named by a role holds, in the payment's currency.\<close>

definition at_role :: "payload \<Rightarrow> string \<Rightarrow> int \<Rightarrow> string \<times> string \<Rightarrow> int" where
  "at_role d role v k = (if snd k = payload_str d ''currency'' \<and> fst k = payload_str d role then v else 0)"

text \<open>What the stored payments hold together.\<close>

definition held ::
  "'st lifecycle \<Rightarrow> ('st \<Rightarrow> payload \<Rightarrow> string \<times> string \<Rightarrow> int) \<Rightarrow> ('a, 'j) engine \<Rightarrow> string \<Rightarrow>
    string \<times> string \<Rightarrow> int" where
  "held R position E pid k = (case map_of (en_entity_state E) pid of
       None \<Rightarrow> 0
     | Some v \<Rightarrow> (case (owned_mapping v, payment_status R E pid) of
         (Inr d, Some st) \<Rightarrow> position st d k | _ \<Rightarrow> 0))"

lemma held_cong:
  assumes "map_of (en_entity_state E') i = map_of (en_entity_state E) i"
  shows "held R position E' i k = held R position E i k"
proof -
  have "payment_status R E' i = payment_status R E i" by (simp add: payment_status_def assms)
  then show ?thesis unfolding held_def assms by presburger
qed

definition books ::
  "'st lifecycle \<Rightarrow> ('st \<Rightarrow> payload \<Rightarrow> string \<times> string \<Rightarrow> int) \<Rightarrow> ('a, 'j) engine \<Rightarrow>
    string \<times> string \<Rightarrow> int" where
  "books R position E k = (\<Sum>pid \<in> fst ` set (en_entity_state E). held R position E pid k)"

text \<open>The largest posting a command can make.\<close>

definition command_gross :: "'st lifecycle \<Rightarrow> command \<Rightarrow> ('a, 'j) engine \<Rightarrow> int" where
  "command_gross R cmd E = (case canonical_command R cmd of
       Inl _ \<Rightarrow> 0 | Inr c \<Rightarrow> rail_gross (payment_fields E c))"

locale priced_rail = lifecycle_rail R for R :: "'st lifecycle" +
  fixes position :: "'st \<Rightarrow> payload \<Rightarrow> string \<times> string \<Rightarrow> int"
  assumes position_created: "position (lc_created R) d k = 0"
    and position_cong: "same_fields R a b \<Longrightarrow> position st a k = position st b k"
    and gross_cong: "same_fields R a b \<Longrightarrow> rail_gross a = rail_gross b"
    and effect_net: "lc_check_fields R d = Inr () \<Longrightarrow>
      map_of (lc_transitions R) (st, cls) = Some (nxt, kind, effect) \<Longrightarrow>
      lc_effect R d effect i = Inr eo \<Longrightarrow> rail_gross d < 10 ^ 28 \<Longrightarrow>
      (case eo of None \<Rightarrow> position nxt d k = position st d k
       | Some en \<Rightarrow> (\<exists>m. normalized_entry en = Inr m \<and>
           entry_gross (entry_currency en) m \<le> rail_gross d \<and>
           entry_net m k = position nxt d k - position st d k))"
begin

text \<open>A command moves exactly from the old position to the new one.\<close>

lemma moved_holdings:
  assumes m: "moves_payment C R c state rs h E ev E'" and lp: "loaded_payment R c E state rs h"
    and fits: "fits_all (lg_balances (en_ledger E))"
    and room: "\<forall>cur. exposure cur (en_ledger E) + rail_gross state < 10 ^ 28"
    and t: "map_of (lc_transitions R) (hs_state h, cmd_class c) = Some (n, kind, effect)"
  shows "holding (en_ledger E') k = holding (en_ledger E) k + position n state k - position (hs_state h) state k"
    "fits_all (lg_balances (en_ledger E'))"
proof -
  from m t obtain u fp eo cm where
    e: "lc_effect R (updated_state R state (map record_value rs) c n u fp cm) effect u = Inr eo"
    and lg: "case eo of None \<Rightarrow> en_ledger E' = en_ledger E | Some en \<Rightarrow> ledger_post (en_ledger E) en = Inr (en_ledger E')"
    unfolding moves_payment_def Let_def by (auto split: option.splits)
  have same: "same_fields R (updated_state R state (map record_value rs) c n u fp cm) state"
    by (simp add: updated_fields)
  from e effect_cong [OF same] have e': "lc_effect R state effect u = Inr eo" by simp
  have chk: "lc_check_fields R state = Inr ()"
    using lp by (auto simp: loaded_payment_def Let_def payment_ok_def)
  have "0 \<le> exposure cur (en_ledger E)" for cur by (simp add: exposure_def bsum_abs_nonneg)
  with room have g: "rail_gross state < 10 ^ 28" by (metis add.commute le_add_same_cancel1 order_le_less_trans)
  note net = effect_net [OF chk t e' g, of k]
  have "holding (en_ledger E') k = holding (en_ledger E) k + position n state k - position (hs_state h) state k \<and>
    fits_all (lg_balances (en_ledger E'))"
  proof (cases eo)
    case None
    with net lg fits show ?thesis by simp
  next
    case (Some en)
    with net obtain ne where ne: "normalized_entry en = Inr ne" "entry_gross (entry_currency en) ne \<le> rail_gross state"
      "entry_net ne k = position n state k - position (hs_state h) state k" by auto
    from room ne(2) have "exposure (entry_currency en) (en_ledger E) + entry_gross (entry_currency en) ne < int dec_limit"
      unfolding dec_limit_def by (simp add: order_le_less_trans [OF add_left_mono])
    from ledger_post_effect(1,4) [OF _ fits ne(1) this, of "en_ledger E'"] lg Some ne(3) show ?thesis by auto
  qed
  then show "holding (en_ledger E') k = holding (en_ledger E) k + position n state k - position (hs_state h) state k"
    "fits_all (lg_balances (en_ledger E'))" by auto
qed

lemma loaded_held:
  assumes "loaded_payment R c E state rs h"
  shows "held R position E (payload_str (cmd_payload c) ''payment_id'') k = position (hs_state h) state k"
proof -
  let ?pid = "payload_str (cmd_payload c) ''payment_id''"
  show ?thesis
  proof (cases "map_of (en_entity_state E) ?pid")
    case None
    with assms have "h = new_history R" by (simp add: loaded_payment_def Let_def)
    with None show ?thesis by (simp add: held_def new_history_def position_created)
  next
    case (Some v)
    with assms have "owned_mapping v = Inr state" by (simp add: loaded_payment_def Let_def)
    with Some loaded_status(1) [OF assms] show ?thesis by (simp add: held_def)
  qed
qed

lemma books_update:
  assumes "en_entity_state E' = AList.update pid v (en_entity_state E)"
    and "\<And>i. i \<noteq> pid \<Longrightarrow> held R position E' i k = held R position E i k"
  shows "books R position E' k = books R position E k + held R position E' pid k - held R position E pid k"
proof -
  let ?A = "fst ` set (en_entity_state E)"
  have fin: "finite ?A" by simp
  have dom': "fst ` set (en_entity_state E') = insert pid ?A"
    by (simp add: assms(1) update_fst_set)
  have absent: "held R position E pid k = 0" if "pid \<notin> ?A"
  proof -
    from that have "map_of (en_entity_state E) pid = None" by (simp add: map_of_eq_None_iff)
    then show ?thesis by (simp add: held_def)
  qed
  have rest: "(\<Sum>i \<in> ?A - {pid}. held R position E' i k) = (\<Sum>i \<in> ?A - {pid}. held R position E i k)"
    using assms(2) by (intro sum.cong) auto
  have "books R position E' k = held R position E' pid k + (\<Sum>i \<in> ?A - {pid}. held R position E i k)"
    unfolding books_def dom' using fin by (simp add: sum.insert_remove rest)
  moreover have "books R position E k = held R position E pid k + (\<Sum>i \<in> ?A - {pid}. held R position E i k)"
    unfolding books_def using fin absent by (cases "pid \<in> ?A") (simp_all add: sum.remove)
  ultimately show ?thesis by simp
qed

text \<open>Whatever a command does, the ledger moves by what the stored payments move.\<close>

lemma handle_books:
  assumes ready: "rail_ready C R E" and fits: "fits_all (lg_balances (en_ledger E))"
    and room: "\<forall>cur. exposure cur (en_ledger E) + command_gross R cmd E < 10 ^ 28"
    and run: "lifecycle_handle C R cmd E = (r, E')"
  shows "holding (en_ledger E') k - holding (en_ledger E) k = books R position E' k - books R position E k"
    "fits_all (lg_balances (en_ledger E'))"
proof -
  from ready have E: "store_ok R E" "prefix_ok (en_uuid_prefix E)" "bundle_loaded C E" "normal_utc (ck_now (en_clock E))"
    by (simp_all add: rail_ready_def)
  have "holding (en_ledger E') k - holding (en_ledger E) k = books R position E' k - books R position E k \<and>
    fits_all (lg_balances (en_ledger E'))"
    using handle_outcome [OF E run]
  proof (elim disjE exE conjE)
    fix e assume same: "en_entity_state E' = en_entity_state E" "en_ledger E' = en_ledger E"
    then have "held R position E' i k = held R position E i k" for i by (intro held_cong) simp
    with same fits show ?thesis by (simp add: books_def)
  next
    fix ev state rs h and c :: command
    let ?pid = "payload_str (cmd_payload c) ''payment_id''"
    assume c: "canonical_command R cmd = Inr c" and lp: "loaded_payment R c E state rs h"
      and m: "moves_payment C R c state rs h E ev E'"
    from moved_fields(7) [OF m] obtain n kind effect u fp cm where
      1: "map_of (lc_transitions R) (hs_state h, cmd_class c) = Some (n, kind, effect)"
      "en_entity_state E' = AList.update ?pid
         (frozen_map (updated_state R state (map record_value rs) c n u fp cm)) (en_entity_state E)"
      by blast
    let ?d = "updated_state R state (map record_value rs) c n u fp cm"
    from room c gross_cong [OF loaded_same [OF lp]]
    have room': "\<forall>cur. exposure cur (en_ledger E) + rail_gross state < 10 ^ 28" by (simp add: command_gross_def)
    have at: "map_of (en_entity_state E') i = (if i = ?pid then Some (frozen_map ?d) else map_of (en_entity_state E) i)" for i
      by (simp add: 1(2) update_conv')
    have others: "held R position E' i k = held R position E i k" if "i \<noteq> ?pid" for i
      using at [of i] that by (intro held_cong) simp
    have "payment_status R E' ?pid = Some n"
      using at [of ?pid] state_text by (simp add: payment_status_def owned_frozen_map updated_lookup)
    then have "held R position E' ?pid k = position n ?d k"
      using at [of ?pid] by (simp add: held_def owned_frozen_map)
    also have "\<dots> = position n state k" by (rule position_cong) (simp add: updated_fields)
    finally have new: "held R position E' ?pid k = position n state k" .
    from books_update [OF 1(2) others] new loaded_held [OF lp, of k]
    have "books R position E' k = books R position E k + position n state k - position (hs_state h) state k" by simp
    with moved_holdings(1) [OF m lp fits room' 1(1), of k] moved_holdings(2) [OF m lp fits room' 1(1)]
    show ?thesis by simp
  qed (use fits in simp_all)
  then show "holding (en_ledger E') k - holding (en_ledger E) k = books R position E' k - books R position E k"
    "fits_all (lg_balances (en_ledger E'))" by auto
qed

end

end
