(* ===== verification/RailRuns.thy ===== *)
theory RailRuns
  imports RailContract
begin

text \<open>
  Runs of the engine under an adapter that schedules nothing, as the card and A2A adapters do: the
  loop always ends, and what every callback keeps holds after the run. The interface \<open>quiet_adapter\<close>
  extends \<open>rail_adapter\<close>; a lifecycle rail provides it with \<open>rail_ready\<close> as the invariant.
\<close>

section \<open>The interface\<close>

text \<open>Same payments, ledger, numbering and bundle.\<close>

definition same_business :: "('a, 'j) engine \<Rightarrow> ('a, 'j) engine \<Rightarrow> bool" where
  "same_business E E' \<longleftrightarrow> en_bundle E' = en_bundle E \<and> en_bundle_payload E' = en_bundle_payload E \<and>
     en_uuid_prefix E' = en_uuid_prefix E \<and> en_uuid_sequence E' = en_uuid_sequence E \<and>
     en_ledger E' = en_ledger E \<and> en_entity_state E' = en_entity_state E \<and> en_adapter E' = en_adapter E"

locale quiet_adapter = rail_adapter V for V :: "('a, 'j) rail_ops" +
  fixes I :: "('a, 'j) engine \<Rightarrow> bool"
  assumes initialize_quiet: "en_scheduled_times (snd (ad_initialize V E)) = en_scheduled_times E"
    and handle_quiet: "en_scheduled_times (snd (ad_handle V cmd E)) = en_scheduled_times E"
    and initialize_keeps: "I E \<Longrightarrow> I (snd (ad_initialize V E))"
    and handle_keeps: "I E \<Longrightarrow> I (snd (ad_handle V cmd E))"
    and business_only: "I E \<Longrightarrow> same_business E E' \<Longrightarrow> normal_utc (ck_now (en_clock E')) \<Longrightarrow> I E'"
begin

lemma append_batch_business:
  "append_batch C cands E = (r, E') \<Longrightarrow> same_business E E' \<and> en_scheduled_times E' = en_scheduled_times E \<and>
    en_clock E' = en_clock E"
  by (auto simp: append_batch_def Let_def same_business_def split: sum.splits if_splits)

lemma run_step_shorter:
  assumes "run_step C V E = (Inr u, E')"
  shows "length (en_scheduled_times E') < length (en_scheduled_times E)"
proof (cases "en_scheduled_times E")
  case Nil
  with assms show ?thesis by (simp add: run_step_def)
next
  case (Cons d due)
  with assms obtain s ck where "clock_pop (en_clock E) = Inr (s, ck)"
    "bindm (ad_handle V (scheduled_command s)) (append_batch C)
      (E\<lparr>en_scheduled_times := due, en_clock := ck\<rparr>) = (Inr u, E')"
    by (auto simp: run_step_def Let_def split: sum.splits if_splits)
  then obtain evs E1 where h: "ad_handle V (scheduled_command s) (E\<lparr>en_scheduled_times := due, en_clock := ck\<rparr>) = (Inr evs, E1)"
    "append_batch C evs E1 = (Inr u, E')"
    by (auto simp: bindm_Inr)
  from handle_quiet [of "scheduled_command s" "E\<lparr>en_scheduled_times := due, en_clock := ck\<rparr>"] h(1)
  have "en_scheduled_times E1 = due" by simp
  with append_batch_business [OF h(2)] Cons show ?thesis by simp
qed

lemma run_loop_ends: "\<exists>re. run_loop C V until E = Some re"
proof (induction "length (en_scheduled_times E)" arbitrary: E rule: less_induct)
  case less
  show ?case
  proof (cases "fst (run_step C V E)")
    case (Inl e)
    then show ?thesis by (subst run_loop.simps) simp
  next
    case (Inr u)
    then have "run_step C V E = (Inr u, snd (run_step C V E))" by (metis prod.collapse)
    from less.hyps [OF run_step_shorter [OF this]] Inr show ?thesis by (subst run_loop.simps) auto
  qed
qed

lemma run_ends: "\<exists>r E'. engine_run C V until E = Some (r, E')"
proof -
  have "(run_body C V u E = None) = False" for u
    using run_loop_ends by (auto simp: run_body_def split: prod.splits sum.splits)
  then have "(engine_run C V until E = None) = False"
    by (cases "ensure_healthy E"; cases "normalize_until until") (simp_all add: engine_run_def del: not_None_eq)
  then show ?thesis by auto
qed

lemma run_step_keeps:
  assumes "json_stable C" "engine_ok C E" "I E" "en_scheduled_times E \<noteq> []" "run_step C V E = (r, E')"
  shows "I E'"
proof -
  from assms(2) have coherent: "queue_coherent E" by (simp add: engine_ok_def)
  from run_step_pops [OF this assms(4), of C V] obtain s q due where
    q: "ck_queue (en_clock E) = s # q"
    "run_step C V E = bindm (ad_handle V (scheduled_command s)) (append_batch C)
      (E\<lparr>en_scheduled_times := due, en_clock := en_clock E\<lparr>ck_queue := q, ck_now := at s\<rparr>\<rparr>)"
    by blast
  define E0 where "E0 = E\<lparr>en_scheduled_times := due, en_clock := en_clock E\<lparr>ck_queue := q, ck_now := at s\<rparr>\<rparr>"
  have "normal_utc (at s)" using coherent q(1) by (simp add: queue_coherent_def clock_ok_def)
  then have "I E0"
    by (intro business_only [OF assms(3)]) (simp_all add: same_business_def E0_def)
  obtain h E1 where h: "ad_handle V (scheduled_command s) E0 = (h, E1)" by fastforce
  from handle_keeps [OF \<open>I E0\<close>, of "scheduled_command s"] h have I1: "I E1" by simp
  from handle_frame [of "scheduled_command s"] h have "callback_frame E0 E1" by (auto simp: keeps_def dest: spec [of _ E0])
  then have n1: "normal_utc (ck_now (en_clock E1))"
    using \<open>normal_utc (at s)\<close> by (simp add: callback_frame_def E0_def)
  show ?thesis
  proof (cases h)
    case (Inl e)
    with h q(2) assms(5) I1 show ?thesis by (simp add: bindm_def E0_def)
  next
    case (Inr evs)
    with h q(2) assms(5) have a: "append_batch C evs E1 = (r, E')"
      by (simp add: bindm_def flip: E0_def)
    from append_batch_business [OF a] n1 business_only [OF I1, of E'] show ?thesis by simp
  qed
qed

lemma run_loop_keeps:
  assumes "json_stable C" "engine_ok C E" "I E" "run_loop C V until E = Some (r, E')"
  shows "I E'"
  using assms(2-4)
proof (induction "length (en_scheduled_times E)" arbitrary: E rule: less_induct)
  case less
  show ?case
  proof (cases "is_due until (en_scheduled_times E)")
    case False
    with less.prems(3) have "E' = E" by (subst (asm) run_loop.simps) simp
    with less.prems(2) show ?thesis by simp
  next
    case True
    then have due: "en_scheduled_times E \<noteq> []" by (auto simp: is_due_def)
    obtain h E1 where h: "run_step C V E = (h, E1)" by fastforce
    from run_step_ok [OF assms(1) less.prems(1) due h] have ok: "engine_ok C E1" by simp
    from run_step_keeps [OF assms(1) less.prems(1,2) due h] have I1: "I E1" .
    show ?thesis
    proof (cases h)
      case (Inl e)
      with less.prems(3) True h have "E' = E1" by (subst (asm) run_loop.simps) simp
      with I1 show ?thesis by simp
    next
      case (Inr u)
      with less.prems(3) True h have "run_loop C V until E1 = Some (r, E')"
        by (subst (asm) run_loop.simps) simp
      from less.hyps [OF run_step_shorter [OF h [unfolded Inr]] ok I1 this] show ?thesis .
    qed
  qed
qed

lemma run_keeps:
  assumes "json_stable C" "engine_ok C E" "I E" "engine_run C V until E = Some (r, E')"
  shows "I E'"
proof (cases "E' = E")
  case True
  with assms(3) show ?thesis by simp
next
  case False
  with assms(4) obtain u where u: "map_option (\<lambda>r. case r of
        (Inl e, E') \<Rightarrow> (Inl e, mark_failed e E')
      | (Inr _, E') \<Rightarrow> engine_events C E') (run_body C V u E) = Some (r, E')"
    by (auto simp: engine_run_def split: sum.splits if_splits)
  then obtain b E1 where "run_body C V u E = Some (b, E1)" by auto
  with u have b: "run_body C V u E = Some (b, E1)"
    "(case b of Inl e \<Rightarrow> (Inl e, mark_failed e E1) | Inr _ \<Rightarrow> engine_events C E1) = (r, E')" by simp_all
  have ok1: "engine_ok C E1 \<and> I E1"
  proof (cases "en_adapter E = None")
    case True
    with b(1) assms(2,3) show ?thesis by (simp add: run_body_def)
  next
    case False
    obtain h E2 where h: "run_initialize V E = (h, E2)" by fastforce
    from run_initialize_ok [OF assms(2) h] have ok2: "engine_ok C E2" by simp
    obtain h3 E3 where h3: "ad_initialize V E = (h3, E3)" by fastforce
    have I2: "I E2"
    proof (cases "en_initialized E")
      case True
      with h assms(3) show ?thesis by (simp add: run_initialize_def)
    next
      case no: False
      from initialize_keeps [OF assms(3)] h3 have "I E3" by simp
      moreover have "same_business E3 E2" "ck_now (en_clock E2) = ck_now (en_clock E3)"
        using no h h3 by (auto simp: run_initialize_def same_business_def split: sum.splits)
      moreover have "normal_utc (ck_now (en_clock E2))"
        using ok2 by (simp add: engine_ok_def queue_coherent_def clock_ok_def)
      ultimately show ?thesis using business_only [of E3 E2] by blast
    qed
    show ?thesis
    proof (cases h)
      case (Inl e)
      with False b(1) h ok2 I2 show ?thesis by (auto simp: run_body_def)
    next
      case (Inr x)
      with False b(1) h have l: "run_loop C V u E2 = Some (b, E1)" by (auto simp: run_body_def)
      from run_loop_keeps [OF assms(1) ok2 I2 l] run_loop_ok [OF assms(1) l ok2] show ?thesis by simp
    qed
  qed
  have n1: "normal_utc (ck_now (en_clock E1))"
    using ok1 by (simp add: engine_ok_def queue_coherent_def clock_ok_def)
  have "same_business E1 E' \<and> ck_now (en_clock E') = ck_now (en_clock E1)"
    using b(2) by (auto simp: mark_failed_def engine_events_def healthy_def same_business_def
      split: sum.splits option.splits)
  with ok1 n1 business_only [of E1 E'] show ?thesis by simp
qed

end

section \<open>Lifecycle rails are quiet\<close>

definition quiet :: "('a, 'j) engine \<Rightarrow> ('a, 'j) engine \<Rightarrow> bool" where
  "quiet E E' \<longleftrightarrow> en_scheduled_times E' = en_scheduled_times E"

lemma quiet_order: "reflp quiet" "transp quiet"
  by (auto simp: quiet_def intro: reflpI transpI)

lemma quiet_capabilities:
  "keeps quiet (engine_post entry)" "keeps quiet (engine_entity_state i)"
  "keeps quiet (engine_set_entity_state i v)" "keeps quiet engine_new_uuid"
  "keeps quiet (engine_bundle C)" "keeps quiet engine_now"
  by (auto simp: keeps_def quiet_def engine_post_def engine_entity_state_def engine_set_entity_state_def
      engine_new_uuid_def engine_bundle_def engine_now_def healthy_def fail_closed_def mark_failed_def Let_def
      split: sum.splits option.splits prod.splits)

lemmas quiet_intros = keeps_bindm [OF quiet_order(2)] keeps_pure [OF quiet_order(1)] quiet_capabilities

lemma lifecycle_handle_quiet: "keeps quiet (lifecycle_handle C R cmd :: (('a, 'j) engine, payment_event list) act)"
proof -
  have load: "keeps quiet (load_entity R c pid :: (('a, 'j) engine, pyval) act)" for c pid
  proof -
    have "snd (load_entity R c pid E) = snd (engine_entity_state pid E)" for E :: "('a, 'j) engine"
      by (auto simp: load_entity_def split: prod.splits sum.splits exn.splits)
    with quiet_capabilities(2) [of pid] show ?thesis by (simp add: keeps_def)
  qed
  have effect: "keeps quiet (post_effect R state e u)" for state e u
    unfolding post_effect_def by (intro quiet_intros) (auto intro: quiet_intros split: option.splits)
  have moves: "keeps quiet (apply_transition C R state recs c pid t)" for state recs c pid t
    unfolding apply_transition_def Let_def by (cases t) (auto intro!: quiet_intros effect)
  show ?thesis
    unfolding lifecycle_handle_def Let_def
    by (auto intro!: quiet_intros load moves split: option.splits prod.splits)
qed

lemma lifecycle_initialize_state: "snd (lifecycle_initialize C R E) = E"
  by (auto simp: lifecycle_initialize_def engine_bundle_def bindm_def split: sum.splits)

context lifecycle_rail
begin

lemma quiet_ops: "quiet_adapter (lifecycle_ops C R :: ('a, 'j) rail_ops) (rail_ready C R)"
proof (intro quiet_adapter.intro quiet_adapter_axioms.intro)
  show "rail_adapter (lifecycle_ops C R :: ('a, 'j) rail_ops)" by (rule rail_adapter_ops)
  fix E E' :: "('a, 'j) engine" and cmd
  show "en_scheduled_times (snd (ad_initialize (lifecycle_ops C R) E)) = en_scheduled_times E"
    by (simp add: lifecycle_ops_def lifecycle_initialize_state)
  show "en_scheduled_times (snd (ad_handle (lifecycle_ops C R) cmd E)) = en_scheduled_times E"
    using lifecycle_handle_quiet [where 'a = 'a and C = C and R = R and cmd = cmd] by (simp add: lifecycle_ops_def keeps_def quiet_def)
  assume ready: "rail_ready C R E"
  show "rail_ready C R (snd (ad_initialize (lifecycle_ops C R) E))"
    using ready by (simp add: lifecycle_ops_def lifecycle_initialize_state)
  show "rail_ready C R (snd (ad_handle (lifecycle_ops C R) cmd E))"
    using handle_ready [OF ready, of cmd] by (simp add: lifecycle_ops_def) (metis prod.collapse)
  show "rail_ready C R E'" if "same_business E E'" "normal_utc (ck_now (en_clock E'))"
    using ready that by (simp add: rail_ready_def same_business_def store_ok_def bundle_loaded_def)
qed

end

end
