(* ===== verification/A2ARail.thy ===== *)
theory A2ARail
  imports RailMoney RailRuns
begin

text \<open>
  The account-to-account rail (\<open>simulator/rails/a2a.py\<close>): states, transition table, command
  constructors, schema checks, ledger effects and adapter. As in \<open>card.py\<close>, of which the file repeats
  the helpers and the flow of \<open>handle\<close>, those are the generic definitions of theory Lifecycle at
  \<open>a2a_rail\<close>.
\<close>

section \<open>States and tables\<close>

datatype a2a_state =
    A2ACreated | A2AInitiated | A2AAccepted | A2ARejected | A2APosted | A2AReported | A2AFrozen
  | A2ARecovered | A2AReturned

fun a2a_state_value :: "a2a_state \<Rightarrow> string" where
  "a2a_state_value A2ACreated = ''created''"
| "a2a_state_value A2AInitiated = ''initiated''"
| "a2a_state_value A2AAccepted = ''accepted''"
| "a2a_state_value A2ARejected = ''rejected''"
| "a2a_state_value A2APosted = ''posted''"
| "a2a_state_value A2AReported = ''reported''"
| "a2a_state_value A2AFrozen = ''frozen''"
| "a2a_state_value A2ARecovered = ''recovered''"
| "a2a_state_value A2AReturned = ''returned''"

definition a2a_states :: "a2a_state list" where
  "a2a_states = [A2ACreated, A2AInitiated, A2AAccepted, A2ARejected, A2APosted, A2AReported,
     A2AFrozen, A2ARecovered, A2AReturned]"

definition a2a_state_of :: "string \<Rightarrow> a2a_state option" where
  "a2a_state_of t = map_of (map (\<lambda>s. (a2a_state_value s, s)) a2a_states) t"

definition a2a_transitions ::
  "((a2a_state \<times> command_class) \<times> (a2a_state \<times> event_kind \<times> string)) list" where
  "a2a_transitions =
     [((A2ACreated, InitiateA2A), (A2AInitiated, TransferInitiated, ''none'')),
      ((A2AInitiated, AcceptA2A), (A2AAccepted, TransferAccepted, ''none'')),
      ((A2AInitiated, RejectA2A), (A2ARejected, TransferRejected, ''none'')),
      ((A2AAccepted, PostA2A), (A2APosted, TransferPosted, ''post'')),
      ((A2APosted, ReportA2AFraud), (A2AReported, FraudReported, ''none'')),
      ((A2APosted, ReturnA2A), (A2AReturned, TransferReturned, ''return'')),
      ((A2AReported, FreezeA2AFunds), (A2AFrozen, FundsFrozen, ''freeze'')),
      ((A2AFrozen, RecoverA2A), (A2ARecovered, Recovery, ''recovery''))]"

definition a2a_missing_codes :: "(command_class \<times> string) list" where
  "a2a_missing_codes =
     [(AcceptA2A, ''A2A_ACCEPT_BEFORE_INITIATE''),
      (RejectA2A, ''A2A_REJECT_BEFORE_INITIATE''),
      (PostA2A, ''A2A_POST_BEFORE_ACCEPT''),
      (ReportA2AFraud, ''A2A_REPORT_BEFORE_POST''),
      (FreezeA2AFunds, ''A2A_FREEZE_BEFORE_REPORT''),
      (RecoverA2A, ''A2A_RECOVERY_BEFORE_FREEZE''),
      (ReturnA2A, ''A2A_RETURN_BEFORE_POST'')]"

definition a2a_operations :: "(command_class \<times> string) list" where
  "a2a_operations =
     [(InitiateA2A, ''a2a.initiate''), (AcceptA2A, ''a2a.accept''), (RejectA2A, ''a2a.reject''),
      (PostA2A, ''a2a.post''), (ReportA2AFraud, ''a2a.report''), (FreezeA2AFunds, ''a2a.freeze''),
      (RecoverA2A, ''a2a.recover''), (ReturnA2A, ''a2a.return'')]"

definition a2a_opening :: "command_class \<Rightarrow> bool" where
  "a2a_opening cls \<longleftrightarrow> cls = InitiateA2A"

definition a2a_fields :: "string list" where
  "a2a_fields = [''payment_id'', ''amount'', ''currency'', ''payer_account'', ''payee_account'',
     ''actor_id'', ''counterparty_id'', ''campaign_id'', ''trace_id'', ''fee'', ''fee_account'',
     ''frozen_account'']"

definition a2a_invalid_code :: "a2a_state \<Rightarrow> command_class \<Rightarrow> string" where
  "a2a_invalid_code current cls =
     (if cls = RejectA2A \<and> current \<in> {A2AAccepted, A2APosted, A2AReported, A2AFrozen, A2ARecovered}
      then ''A2A_REJECT_AFTER_ACCEPT''
      else case map_of a2a_missing_codes cls of None \<Rightarrow> ''A2A_INVALID_TRANSITION'' | Some c \<Rightarrow> c)"

section \<open>Commands\<close>

text \<open>\<open>InitiateA2A.__init__\<close>\<close>

definition a2a_open_command :: "command_class \<Rightarrow> payload \<Rightarrow> command res" where
  "a2a_open_command cls args =
     bindr (bindr (dict_get args ''currency'') (rail_text ''currency'')) (\<lambda>currency.
     bindr (bindr (dict_get args ''amount'') (\<lambda>v. rail_money ''amount'' v currency True)) (\<lambda>amount.
     bindr (rail_money ''fee'' (arg_default args ''fee'' (PDec dec_zero)) currency False) (\<lambda>fee.
     bindr (bindr (dict_get args ''payment_id'') (rail_text ''payment_id'')) (\<lambda>payment_id.
     bindr (bindr (dict_get args ''payer_account'') (rail_text ''payer_account'')) (\<lambda>payer.
     bindr (bindr (dict_get args ''payee_account'') (rail_text ''payee_account'')) (\<lambda>payee.
     bindr (rail_text ''fee_account'' (arg_default args ''fee_account'' (PStr ''a2a:fees''))) (\<lambda>fee_account.
     bindr (rail_text ''frozen_account''
       (arg_default args ''frozen_account'' (PStr ''a2a:frozen''))) (\<lambda>frozen.
     bindr (require_distinct_accounts ''A2A'' [payer, payee, fee_account, frozen]) (\<lambda>_.
     bindr (bindr (dict_get args ''actor_id'') (rail_uuid_text ''actor_id'')) (\<lambda>actor.
     bindr (bindr (dict_get args ''counterparty_id'') (rail_uuid_text ''counterparty_id'')) (\<lambda>counterparty.
     bindr (bindr (dict_get args ''campaign_id'') (rail_uuid_text ''campaign_id'')) (\<lambda>campaign.
     bindr (bindr (dict_get args ''trace_id'') (rail_uuid_text ''trace_id'')) (\<lambda>trace.
     case map_of a2a_operations cls of None \<Rightarrow> Inl (KeyError []) | Some name \<Rightarrow>
     bindr (rail_text ''idempotency_key''
       (default_key name payment_id (arg_default args ''idempotency_key'' PNone))) (\<lambda>key.
     new_command cls (PStr name)
       [(PStr ''payment_id'', PStr payment_id), (PStr ''amount'', PDec amount),
        (PStr ''currency'', PStr currency), (PStr ''payer_account'', PStr payer),
        (PStr ''payee_account'', PStr payee), (PStr ''actor_id'', PStr actor),
        (PStr ''counterparty_id'', PStr counterparty), (PStr ''campaign_id'', PStr campaign),
        (PStr ''trace_id'', PStr trace), (PStr ''fee'', PDec fee),
        (PStr ''fee_account'', PStr fee_account), (PStr ''frozen_account'', PStr frozen),
        (PStr ''idempotency_key'', PStr key)]))))))))))))))"

section \<open>Stored payments\<close>

text \<open>The schema checks of \<open>_validated_state\<close> between the payment id and the history.\<close>

definition a2a_check_fields :: "payload \<Rightarrow> unit res" where
  "a2a_check_fields state =
     bindr (bindr (dict_get state ''currency'') (rail_text ''currency'')) (\<lambda>currency.
     bindr (dict_get state ''amount'') (\<lambda>amount_value.
     bindr (dict_get state ''fee'') (\<lambda>fee_value.
     bindr (canonical_money ''amount'' amount_value currency True) (\<lambda>amount.
     bindr (canonical_money ''fee'' fee_value currency False) (\<lambda>fee.
     bindr (bindr (dict_get state ''payer_account'') (rail_text ''payer_account'')) (\<lambda>payer.
     bindr (bindr (dict_get state ''payee_account'') (rail_text ''payee_account'')) (\<lambda>payee.
     bindr (bindr (dict_get state ''fee_account'') (rail_text ''fee_account'')) (\<lambda>fee_account.
     bindr (bindr (dict_get state ''frozen_account'') (rail_text ''frozen_account'')) (\<lambda>frozen.
     bindr (require_distinct_accounts ''A2A'' [payer, payee, fee_account, frozen]) (\<lambda>_.
     bindr (bindr (dict_get state ''actor_id'') (rail_uuid_text ''actor_id'')) (\<lambda>_.
     bindr (bindr (dict_get state ''counterparty_id'') (rail_uuid_text ''counterparty_id'')) (\<lambda>_.
     bindr (bindr (dict_get state ''campaign_id'') (rail_uuid_text ''campaign_id'')) (\<lambda>_.
     bindr (bindr (dict_get state ''trace_id'') (rail_uuid_text ''trace_id'')) (\<lambda>_. Inr ()))))))))))))))"

section \<open>Ledger effects\<close>

definition a2a_effect_entry ::
  "string \<Rightarrow> string \<Rightarrow> pydec \<Rightarrow> pydec \<Rightarrow> string \<Rightarrow> string \<Rightarrow> string \<Rightarrow> string \<Rightarrow> string \<Rightarrow>
    ledger_entry option res" where
  "a2a_effect_entry effect event_id amount fee currency payer payee fee_account frozen =
     (if effect = ''none'' then Inr None
      else if effect = ''post''
      then Inr (Some (posting (event_id @ '':post'') [(payer, dec_add amount fee)]
             [(payee, amount), (fee_account, fee)] currency))
      else if effect = ''return''
      then Inr (Some (posting (event_id @ '':return'') [(payee, amount)] [(payer, amount)] currency))
      else if effect = ''freeze''
      then Inr (Some (posting (event_id @ '':freeze'') [(payee, amount)] [(frozen, amount)] currency))
      else if effect = ''recovery''
      then Inr (Some (posting (event_id @ '':recovery'') [(frozen, amount)] [(payer, amount)] currency))
      else Inl (AssertionError (''unknown A2A ledger effect: '' @ effect)))"

definition a2a_effect :: "payload \<Rightarrow> string \<Rightarrow> string \<Rightarrow> ledger_entry option res" where
  "a2a_effect state effect event_id =
     (let dec = state_dec ''A2A_STATE_CORRUPT'' state; str = state_str ''A2A_STATE_CORRUPT'' state in
     bindr (dec ''amount'') (\<lambda>amount.
     bindr (dec ''fee'') (\<lambda>fee.
     bindr (str ''currency'') (\<lambda>currency.
     bindr (str ''payer_account'') (\<lambda>payer.
     bindr (str ''payee_account'') (\<lambda>payee.
     bindr (str ''fee_account'') (\<lambda>fee_account.
     bindr (str ''frozen_account'') (\<lambda>frozen.
     a2a_effect_entry effect event_id amount fee currency payer payee fee_account frozen))))))))"

section \<open>Helpers\<close>

text \<open>The file's own copies of the helpers of \<open>card.py\<close>.\<close>

definition a2a_text :: "string \<Rightarrow> pyval \<Rightarrow> string res" where
  "a2a_text = rail_text"

definition a2a_uuid_text :: "string \<Rightarrow> pyval \<Rightarrow> string res" where
  "a2a_uuid_text = rail_uuid_text"

definition a2a_history_event_position :: "pyval \<Rightarrow> (string \<times> nat \<times> nat) res" where
  "a2a_history_event_position = history_event_position"

definition a2a_money :: "string \<Rightarrow> pyval \<Rightarrow> string \<Rightarrow> bool \<Rightarrow> pydec res" where
  "a2a_money = rail_money"

definition a2a_distinct_accounts :: "string list \<Rightarrow> unit res" where
  "a2a_distinct_accounts = require_distinct_accounts ''A2A''"

definition a2a_payload_fingerprint :: "payload \<Rightarrow> string res" where
  "a2a_payload_fingerprint = payload_fingerprint ''A2A''"

definition a2a_digest_text :: "string \<Rightarrow> pyval \<Rightarrow> string res" where
  "a2a_digest_text = digest_text"

definition a2a_record_commitment ::
  "string \<Rightarrow> string \<Rightarrow> string \<Rightarrow> string \<Rightarrow> string \<Rightarrow> string \<Rightarrow> string" where
  "a2a_record_commitment = record_commitment ''apar.a2a-history.v1''"

definition a2a_campaign_id :: "payload \<Rightarrow> string" where
  "a2a_campaign_id = command_campaign_id"

definition a2a_followup_command :: "command_class \<Rightarrow> string \<Rightarrow> pyval \<Rightarrow> pyval \<Rightarrow> command res" where
  "a2a_followup_command = followup_command"

section \<open>The adapter\<close>

definition a2a_rail :: "a2a_state lifecycle" where
  "a2a_rail = \<lparr>lc_code = ''A2A'', lc_name = ''A2A'', lc_domain = ''apar.a2a-history.v1'',
     lc_rail = A2A, lc_operations = a2a_operations, lc_opening = a2a_opening,
     lc_fields = a2a_fields, lc_open_command = a2a_open_command,
     lc_state_value = a2a_state_value, lc_state_of = a2a_state_of, lc_created = A2ACreated,
     lc_transitions = a2a_transitions, lc_missing = a2a_missing_codes,
     lc_invalid_code = a2a_invalid_code, lc_check_fields = a2a_check_fields,
     lc_effect = a2a_effect\<rparr>"

definition a2a_canonical_command :: "command \<Rightarrow> command res" where
  "a2a_canonical_command = canonical_command a2a_rail"

definition a2a_command_from_record :: "string \<Rightarrow> string \<Rightarrow> payload \<Rightarrow> command res" where
  "a2a_command_from_record = command_from_record a2a_rail"

definition a2a_history_step :: "payload \<Rightarrow> string \<Rightarrow> a2a_state history \<Rightarrow> pyval \<Rightarrow> a2a_state history res" where
  "a2a_history_step = history_step a2a_rail"

definition a2a_opening_state :: "command \<Rightarrow> pyval" where
  "a2a_opening_state = opening_state a2a_rail"

definition a2a_is_idempotent_retry :: "payload \<Rightarrow> command \<Rightarrow> (bool \<times> pyval list) res" where
  "a2a_is_idempotent_retry = is_idempotent_retry a2a_rail"

definition a2a_event ::
  "string \<Rightarrow> datetime \<Rightarrow> payload \<Rightarrow> event_kind \<Rightarrow> string \<Rightarrow> string \<Rightarrow> payment_event" where
  "a2a_event = lifecycle_event a2a_rail"

definition a2a_validated_state :: "pyval \<Rightarrow> string \<Rightarrow> payload res" where
  "a2a_validated_state = validated_state a2a_rail"

definition a2a_handle :: "'j pydantic \<Rightarrow> command \<Rightarrow> (('a, 'j) engine, payment_event list) act" where
  "a2a_handle C = lifecycle_handle C a2a_rail"

definition a2a_initialize :: "'j pydantic \<Rightarrow> (('a, 'j) engine, unit) act" where
  "a2a_initialize C = lifecycle_initialize C a2a_rail"

definition a2a_adapter :: "'j pydantic \<Rightarrow> ('a, 'j) rail_ops" where
  "a2a_adapter C = lifecycle_ops C a2a_rail"

section \<open>The A2A rail meets the interface\<close>

lemma new_a2a_command:
  "new_command cls (PStr name)
       [(PStr ''payment_id'', PStr payment_id), (PStr ''amount'', PDec amount),
        (PStr ''currency'', PStr currency), (PStr ''payer_account'', PStr payer),
        (PStr ''payee_account'', PStr payee), (PStr ''actor_id'', PStr actor),
        (PStr ''counterparty_id'', PStr counterparty), (PStr ''campaign_id'', PStr campaign),
        (PStr ''trace_id'', PStr trace), (PStr ''fee'', PDec fee),
        (PStr ''fee_account'', PStr fee_account), (PStr ''frozen_account'', PStr frozen),
        (PStr ''idempotency_key'', PStr key)] = Inr command \<longleftrightarrow>
     name \<noteq> [] \<and> command = \<lparr>cmd_class = cls, cmd_name = name, cmd_payload =
       [(''payment_id'', PStr payment_id), (''amount'', PDec amount),
        (''currency'', PStr currency), (''payer_account'', PStr payer),
        (''payee_account'', PStr payee), (''actor_id'', PStr actor),
        (''counterparty_id'', PStr counterparty), (''campaign_id'', PStr campaign),
        (''trace_id'', PStr trace), (''fee'', PDec fee),
        (''fee_account'', PStr fee_account), (''frozen_account'', PStr frozen),
        (''idempotency_key'', PStr key)]\<rparr>"
  by (auto simp: new_command_def freeze_mapping_def dict_of_def)

lemma a2a_check_fields_Inr:
  "a2a_check_fields d = Inr () \<longleftrightarrow> (\<exists>currency amount fee payer payee fee_account frozen a c g t.
     map_of d ''currency'' = Some (PStr currency) \<and> currency \<noteq> [] \<and>
     map_of d ''amount'' = Some (PDec amount) \<and> map_of d ''fee'' = Some (PDec fee) \<and>
     money_of amount currency True amount \<and> money_of fee currency False fee \<and>
     map_of d ''payer_account'' = Some (PStr payer) \<and> payer \<noteq> [] \<and>
     map_of d ''payee_account'' = Some (PStr payee) \<and> payee \<noteq> [] \<and>
     map_of d ''fee_account'' = Some (PStr fee_account) \<and> fee_account \<noteq> [] \<and>
     map_of d ''frozen_account'' = Some (PStr frozen) \<and> frozen \<noteq> [] \<and>
     distinct [payer, payee, fee_account, frozen] \<and>
     map_of d ''actor_id'' = Some (PStr a) \<and> uuid_of_text a \<noteq> None \<and>
     map_of d ''counterparty_id'' = Some (PStr c) \<and> uuid_of_text c \<noteq> None \<and>
     map_of d ''campaign_id'' = Some (PStr g) \<and> uuid_of_text g \<noteq> None \<and>
     map_of d ''trace_id'' = Some (PStr t) \<and> uuid_of_text t \<noteq> None)"
  (is "?l \<longleftrightarrow> ?r")
proof
  assume ?l
  then show ?r
    unfolding a2a_check_fields_def bindr_Inr ensure_Inr rail_text_Inr rail_uuid_text_Inr dict_get_Inr
      canonical_money_Inr distinct_accounts_Inr
    by (elim exE conjE; hypsubst) (intro exI conjI; assumption)
next
  assume ?r
  then show ?l
    by (elim exE conjE) (simp add: a2a_check_fields_def field_checks del: rail_text.simps)
qed

lemma a2a_open_Inr:
  "a2a_open_command cls args = Inr command \<longleftrightarrow>
   (\<exists>currency a amount f fee payment_id payer payee fee_account frozen actor counterparty campaign trace
      name key.
     map_of args ''currency'' = Some (PStr currency) \<and> currency \<noteq> [] \<and>
     map_of args ''amount'' = Some (PDec a) \<and> money_of a currency True amount \<and>
     arg_default args ''fee'' (PDec dec_zero) = PDec f \<and> money_of f currency False fee \<and>
     map_of args ''payment_id'' = Some (PStr payment_id) \<and> payment_id \<noteq> [] \<and>
     map_of args ''payer_account'' = Some (PStr payer) \<and> payer \<noteq> [] \<and>
     map_of args ''payee_account'' = Some (PStr payee) \<and> payee \<noteq> [] \<and>
     arg_default args ''fee_account'' (PStr ''a2a:fees'') = PStr fee_account \<and> fee_account \<noteq> [] \<and>
     arg_default args ''frozen_account'' (PStr ''a2a:frozen'') = PStr frozen \<and> frozen \<noteq> [] \<and>
     distinct [payer, payee, fee_account, frozen] \<and>
     map_of args ''actor_id'' = Some (PStr actor) \<and> uuid_of_text actor \<noteq> None \<and>
     map_of args ''counterparty_id'' = Some (PStr counterparty) \<and> uuid_of_text counterparty \<noteq> None \<and>
     map_of args ''campaign_id'' = Some (PStr campaign) \<and> uuid_of_text campaign \<noteq> None \<and>
     map_of args ''trace_id'' = Some (PStr trace) \<and> uuid_of_text trace \<noteq> None \<and>
     map_of a2a_operations cls = Some name \<and>
     default_key name payment_id (arg_default args ''idempotency_key'' PNone) = PStr key \<and> key \<noteq> [] \<and>
     name \<noteq> [] \<and>
     command = \<lparr>cmd_class = cls, cmd_name = name, cmd_payload =
       [(''payment_id'', PStr payment_id), (''amount'', PDec amount),
        (''currency'', PStr currency), (''payer_account'', PStr payer),
        (''payee_account'', PStr payee), (''actor_id'', PStr actor),
        (''counterparty_id'', PStr counterparty), (''campaign_id'', PStr campaign),
        (''trace_id'', PStr trace), (''fee'', PDec fee),
        (''fee_account'', PStr fee_account), (''frozen_account'', PStr frozen),
        (''idempotency_key'', PStr key)]\<rparr>)"
  (is "?l \<longleftrightarrow> ?r")
proof
  assume ?l
  then show ?r
    unfolding a2a_open_command_def bindr_Inr ensure_Inr rail_text_Inr rail_uuid_text_Inr dict_get_Inr
      rail_money_Inr distinct_accounts_Inr if_Inl_Inr case_option_Inl_Inr new_a2a_command
    by (elim exE conjE; hypsubst) (intro exI conjI; (assumption | rule refl))
next
  assume ?r
  then show ?l
    by (elim exE conjE) (simp add: a2a_open_command_def field_checks new_a2a_command del: rail_text.simps rail_money.simps)
qed

lemma a2a_open_again:
  assumes "a2a_open_command cls args = Inr c"
  shows "a2a_open_command cls (cmd_payload c) = Inr c"
  using assms unfolding a2a_open_Inr [of cls args]
  by (elim exE conjE) (simp add: a2a_open_command_def field_checks new_a2a_command
    arg_default_some money_again default_key_def del: rail_text.simps rail_money.simps)

lemma a2a_open_result:
  assumes "a2a_open_command cls args = Inr c"
  shows "cmd_class c = cls \<and> map fst (cmd_payload c) = a2a_fields @ [''idempotency_key''] \<and>
    (\<exists>pid key. pid \<noteq> [] \<and> key \<noteq> [] \<and> map_of (cmd_payload c) ''payment_id'' = Some (PStr pid) \<and>
      map_of (cmd_payload c) ''idempotency_key'' = Some (PStr key))"
  using assms unfolding a2a_open_Inr [of cls args]
  by (elim exE conjE) (simp add: a2a_fields_def)

lemma a2a_open_checked:
  assumes "a2a_open_command cls args = Inr c"
  shows "a2a_check_fields (cmd_payload c) = Inr ()"
  using assms unfolding a2a_open_Inr [of cls args]
  by (elim exE conjE) (simp add: a2a_check_fields_def field_checks money_again
    del: rail_text.simps rail_money.simps)

lemma a2a_open_cong:
  assumes "\<forall>k \<in> set a2a_fields. map_of a k = map_of b k"
    "map_of a ''idempotency_key'' = map_of b ''idempotency_key''"
  shows "a2a_open_command cls a = a2a_open_command cls b"
  using assms by (simp add: a2a_fields_def a2a_open_command_def dict_get_def arg_default_def cong: if_cong option.case_cong)

lemma a2a_check_cong:
  assumes "\<forall>k \<in> set a2a_fields. map_of a k = map_of b k"
  shows "a2a_check_fields a = a2a_check_fields b"
  using assms by (simp add: a2a_fields_def a2a_check_fields_def dict_get_def)

lemma a2a_effect_cong:
  assumes "\<forall>k \<in> set a2a_fields. map_of a k = map_of b k"
  shows "a2a_effect a effect i = a2a_effect b effect i"
  using assms by (simp add: a2a_fields_def a2a_effect_def Let_def state_dec_def state_str_def dict_get_def)

lemma a2a_effects: "(tr, (n, kind, effect)) \<in> set a2a_transitions \<Longrightarrow>
  effect \<in> {''none'', ''post'', ''return'', ''freeze'', ''recovery''}"
  by (auto simp: a2a_transitions_def)

lemma a2a_fields_frozen:
  assumes "a2a_check_fields d = Inr ()" "k \<in> set a2a_fields" "k \<noteq> ''payment_id''" "map_of d k = Some v"
  shows "frozen_state v"
proof -
  from assms(1) have "\<forall>k \<in> set a2a_fields - {''payment_id''}. \<exists>v. map_of d k = Some v \<and> frozen_state v"
    unfolding a2a_check_fields_Inr a2a_fields_def by (elim exE conjE) (simp add: money_finite)
  with assms(2-4) show ?thesis by (metis DiffI singletonD option.inject)
qed

lemma a2a_fields_event: "a2a_check_fields d = Inr () \<Longrightarrow> event_fields_ok d"
  unfolding a2a_check_fields_Inr event_fields_ok_def
  by (elim exE conjE) (simp add: payload_str_def dec_less_zero money_finite not_less)

lemma a2a_effect_total:
  assumes "a2a_check_fields d = Inr ()"
    "effect \<in> {''none'', ''post'', ''return'', ''freeze'', ''recovery''}"
  shows "\<exists>e. a2a_effect d effect i = Inr e"
proof -
  from assms(2) have "\<exists>e. a2a_effect_entry effect i a f c p q fa fr = Inr e" for a f c p q fa fr
    by (auto simp: a2a_effect_entry_def)
  with assms(1) show ?thesis
    unfolding a2a_check_fields_Inr
    by (elim exE conjE) (simp add: a2a_effect_def Let_def state_dec_def state_str_def field_checks)
qed

interpretation a2a: lifecycle_rail a2a_rail
proof unfold_locales
  show "lc_state_value a2a_rail st \<noteq> [] \<and> lc_state_of a2a_rail (lc_state_value a2a_rail st) = Some st" for st
    by (cases st) (simp_all add: a2a_rail_def a2a_state_of_def a2a_states_def)
  show "distinct (map fst (lc_operations a2a_rail)) \<and> distinct (map snd (lc_operations a2a_rail))"
    by (simp add: a2a_rail_def a2a_operations_def)
  show "n \<in> snd ` set (lc_operations a2a_rail) \<Longrightarrow> n \<noteq> []" for n
    by (auto simp: a2a_rail_def a2a_operations_def)
  show "''payment_id'' \<in> set (lc_fields a2a_rail) \<and> distinct (lc_fields a2a_rail) \<and>
      set (lc_fields a2a_rail) \<inter> set reserved_fields = {}"
    by (simp add: a2a_rail_def a2a_fields_def reserved_fields_def)
  show "map_of (lc_transitions a2a_rail) (st, cls) = Some t \<Longrightarrow>
      lc_opening a2a_rail cls \<longleftrightarrow> st = lc_created a2a_rail" for st cls t
    by (drule map_of_SomeD) (auto simp: a2a_rail_def a2a_transitions_def a2a_opening_def)
  show "map_of (lc_transitions a2a_rail) (st, cls) = Some (nxt, kind, effect) \<Longrightarrow> nxt \<noteq> lc_created a2a_rail"
    for st cls nxt kind effect
    by (drule map_of_SomeD) (auto simp: a2a_rail_def a2a_transitions_def)
  show "same_fields a2a_rail a b \<Longrightarrow> map_of a ''idempotency_key'' = map_of b ''idempotency_key'' \<Longrightarrow>
      lc_open_command a2a_rail cls a = lc_open_command a2a_rail cls b" for cls a b
    using a2a_open_cong [of a b cls] by (simp add: same_fields_def a2a_rail_def)
  show "lc_open_command a2a_rail cls args = Inr c \<Longrightarrow>
      cmd_class c = cls \<and> map fst (cmd_payload c) = lc_fields a2a_rail @ [''idempotency_key''] \<and>
      (\<exists>pid key. pid \<noteq> [] \<and> key \<noteq> [] \<and> map_of (cmd_payload c) ''payment_id'' = Some (PStr pid) \<and>
        map_of (cmd_payload c) ''idempotency_key'' = Some (PStr key))" for cls args c
    using a2a_open_result by (simp add: a2a_rail_def)
  show "lc_open_command a2a_rail cls args = Inr c \<Longrightarrow>
      lc_open_command a2a_rail cls (cmd_payload c) = Inr c" for cls args c
    using a2a_open_again by (simp add: a2a_rail_def)
  show "lc_open_command a2a_rail cls args = Inr c \<Longrightarrow>
      lc_check_fields a2a_rail (cmd_payload c) = Inr ()" for cls args c
    using a2a_open_checked by (simp add: a2a_rail_def)
  show "same_fields a2a_rail a b \<Longrightarrow> lc_check_fields a2a_rail a = lc_check_fields a2a_rail b" for a b
    using a2a_check_cong [of a b] by (simp add: same_fields_def a2a_rail_def)
  show "lc_check_fields a2a_rail d = Inr () \<Longrightarrow> event_fields_ok d" for d
    using a2a_fields_event by (simp add: a2a_rail_def)
  show "lc_check_fields a2a_rail d = Inr () \<Longrightarrow> k \<in> set (lc_fields a2a_rail) \<Longrightarrow>
      k \<noteq> ''payment_id'' \<Longrightarrow> map_of d k = Some v \<Longrightarrow> frozen_state v" for d k v
    using a2a_fields_frozen by (simp add: a2a_rail_def)
  show "lc_check_fields a2a_rail d = Inr () \<Longrightarrow>
      map_of (lc_transitions a2a_rail) (st, cls) = Some (nxt, kind, effect) \<Longrightarrow>
      \<exists>e. lc_effect a2a_rail d effect i = Inr e" for d st cls nxt kind effect i
    by (simp add: a2a_rail_def) (erule a2a_effect_total, rule a2a_effects, erule map_of_SomeD)
  show "same_fields a2a_rail a b \<Longrightarrow> lc_effect a2a_rail a effect i = lc_effect a2a_rail b effect i" for a b effect i
    using a2a_effect_cong [of a b] by (simp add: same_fields_def a2a_rail_def)
qed

interpretation a2a_engine: rail_adapter "a2a_adapter C" for C
  unfolding a2a_adapter_def by (rule a2a.rail_adapter_ops)

end
