(* ===== verification/CardRail.thy ===== *)
theory CardRail
  imports RailMoney RailRuns
begin

text \<open>
  The card rail (\<open>simulator/rails/card.py\<close>): its states and transition table, the constructors of its command
  classes, the schema checks of a stored payment, the ledger effect of each transition, and the
  adapter. The flow of \<open>handle\<close> and the history checks are those of theory Lifecycle, at
  \<open>card_rail\<close>.
\<close>

section \<open>States and tables\<close>

datatype card_state =
    CardCreated | CardAuthorized | CardDeclined | CardCleared | CardSettled | CardReported
  | CardDispute | CardChargeback | CardRecovery | CardReversed | CardRefunded

fun card_state_value :: "card_state \<Rightarrow> string" where
  "card_state_value CardCreated = ''created''"
| "card_state_value CardAuthorized = ''authorized''"
| "card_state_value CardDeclined = ''declined''"
| "card_state_value CardCleared = ''cleared''"
| "card_state_value CardSettled = ''settled''"
| "card_state_value CardReported = ''reported''"
| "card_state_value CardDispute = ''dispute''"
| "card_state_value CardChargeback = ''chargeback''"
| "card_state_value CardRecovery = ''recovery''"
| "card_state_value CardReversed = ''reversed''"
| "card_state_value CardRefunded = ''refunded''"

definition card_states :: "card_state list" where
  "card_states = [CardCreated, CardAuthorized, CardDeclined, CardCleared, CardSettled, CardReported,
     CardDispute, CardChargeback, CardRecovery, CardReversed, CardRefunded]"

text \<open>\<open>CardState(text)\<close>\<close>

definition card_state_of :: "string \<Rightarrow> card_state option" where
  "card_state_of t = map_of (map (\<lambda>s. (card_state_value s, s)) card_states) t"

definition card_transitions ::
  "((card_state \<times> command_class) \<times> (card_state \<times> event_kind \<times> string)) list" where
  "card_transitions =
     [((CardCreated, AuthorizeCard), (CardAuthorized, Authorization, ''hold'')),
      ((CardCreated, DeclineCardAuthorization), (CardDeclined, AuthorizationDeclined, ''none'')),
      ((CardAuthorized, ClearCard), (CardCleared, Clearing, ''none'')),
      ((CardAuthorized, ReverseCardAuthorization), (CardReversed, Reversal, ''release_hold'')),
      ((CardCleared, ReverseCardAuthorization), (CardReversed, Reversal, ''release_hold'')),
      ((CardCleared, SettleCard), (CardSettled, Settlement, ''settle'')),
      ((CardSettled, ReportCardFraud), (CardReported, FraudReported, ''none'')),
      ((CardSettled, RefundCard), (CardRefunded, Refund, ''refund'')),
      ((CardReported, OpenCardDispute), (CardDispute, DisputeOpened, ''none'')),
      ((CardDispute, ChargebackCard), (CardChargeback, ChargebackEvent, ''chargeback'')),
      ((CardChargeback, RecoverCard), (CardRecovery, Recovery, ''recovery''))]"

definition card_missing_codes :: "(command_class \<times> string) list" where
  "card_missing_codes =
     [(ClearCard, ''CARD_CLEAR_BEFORE_AUTHORIZE''),
      (SettleCard, ''CARD_SETTLE_BEFORE_CLEAR''),
      (ReverseCardAuthorization, ''CARD_REVERSE_BEFORE_AUTHORIZE''),
      (ReportCardFraud, ''CARD_REPORT_BEFORE_SETTLEMENT''),
      (OpenCardDispute, ''CARD_DISPUTE_BEFORE_REPORT''),
      (ChargebackCard, ''CARD_CHARGEBACK_BEFORE_DISPUTE''),
      (RecoverCard, ''CARD_RECOVERY_BEFORE_CHARGEBACK''),
      (RefundCard, ''CARD_REFUND_BEFORE_SETTLEMENT'')]"

definition card_operations :: "(command_class \<times> string) list" where
  "card_operations =
     [(AuthorizeCard, ''card.authorize''), (DeclineCardAuthorization, ''card.decline''),
      (ClearCard, ''card.clear''), (SettleCard, ''card.settle''),
      (ReverseCardAuthorization, ''card.reverse''), (ReportCardFraud, ''card.report''),
      (OpenCardDispute, ''card.dispute''), (ChargebackCard, ''card.chargeback''),
      (RecoverCard, ''card.recover''), (RefundCard, ''card.refund'')]"

definition card_opening :: "command_class \<Rightarrow> bool" where
  "card_opening cls \<longleftrightarrow> cls = AuthorizeCard \<or> cls = DeclineCardAuthorization"

text \<open>The open payload's fields but the idempotency key.\<close>

definition card_fields :: "string list" where
  "card_fields = [''payment_id'', ''amount'', ''currency'', ''payer_account'', ''payee_account'',
     ''actor_id'', ''counterparty_id'', ''campaign_id'', ''trace_id'', ''fee'', ''hold_account'',
     ''fee_account'', ''chargeback_account'']"

definition card_invalid_code :: "card_state \<Rightarrow> command_class \<Rightarrow> string" where
  "card_invalid_code current cls =
     (if cls = ReverseCardAuthorization \<and>
         current \<in> {CardSettled, CardReported, CardDispute, CardChargeback, CardRecovery}
      then ''CARD_REVERSE_AFTER_SETTLEMENT''
      else case map_of card_missing_codes cls of None \<Rightarrow> ''CARD_INVALID_TRANSITION'' | Some c \<Rightarrow> c)"

section \<open>Commands\<close>

text \<open>\<open>_OpenCardCommand.__init__\<close>\<close>

definition card_open_command :: "command_class \<Rightarrow> payload \<Rightarrow> command res" where
  "card_open_command cls args =
     bindr (bindr (dict_get args ''currency'') (rail_text ''currency'')) (\<lambda>currency.
     bindr (bindr (dict_get args ''amount'') (\<lambda>v. rail_money ''amount'' v currency True)) (\<lambda>amount.
     bindr (rail_money ''fee'' (arg_default args ''fee'' (PDec dec_zero)) currency False) (\<lambda>fee.
     if dec_less amount fee then Inl (ValueError ''fee must not exceed amount'') else
     bindr (bindr (dict_get args ''payment_id'') (rail_text ''payment_id'')) (\<lambda>payment_id.
     bindr (bindr (dict_get args ''payer_account'') (rail_text ''payer_account'')) (\<lambda>payer.
     bindr (bindr (dict_get args ''payee_account'') (rail_text ''payee_account'')) (\<lambda>payee.
     bindr (rail_text ''hold_account'' (arg_default args ''hold_account'' (PStr ''card:holds''))) (\<lambda>hold.
     bindr (rail_text ''fee_account'' (arg_default args ''fee_account'' (PStr ''card:fees''))) (\<lambda>fee_account.
     bindr (rail_text ''chargeback_account''
       (arg_default args ''chargeback_account'' (PStr ''card:chargebacks''))) (\<lambda>chargeback.
     bindr (require_distinct_accounts ''card'' [payer, payee, hold, fee_account, chargeback]) (\<lambda>_.
     bindr (bindr (dict_get args ''actor_id'') (rail_uuid_text ''actor_id'')) (\<lambda>actor.
     bindr (bindr (dict_get args ''counterparty_id'') (rail_uuid_text ''counterparty_id'')) (\<lambda>counterparty.
     bindr (bindr (dict_get args ''campaign_id'') (rail_uuid_text ''campaign_id'')) (\<lambda>campaign.
     bindr (bindr (dict_get args ''trace_id'') (rail_uuid_text ''trace_id'')) (\<lambda>trace.
     case map_of card_operations cls of None \<Rightarrow> Inl (KeyError []) | Some name \<Rightarrow>
     bindr (rail_text ''idempotency_key''
       (default_key name payment_id (arg_default args ''idempotency_key'' PNone))) (\<lambda>key.
     new_command cls (PStr name)
       [(PStr ''payment_id'', PStr payment_id), (PStr ''amount'', PDec amount),
        (PStr ''currency'', PStr currency), (PStr ''payer_account'', PStr payer),
        (PStr ''payee_account'', PStr payee), (PStr ''actor_id'', PStr actor),
        (PStr ''counterparty_id'', PStr counterparty), (PStr ''campaign_id'', PStr campaign),
        (PStr ''trace_id'', PStr trace), (PStr ''fee'', PDec fee), (PStr ''hold_account'', PStr hold),
        (PStr ''fee_account'', PStr fee_account), (PStr ''chargeback_account'', PStr chargeback),
        (PStr ''idempotency_key'', PStr key)])))))))))))))))"

text \<open>\<open>DeclineCardAuthorization.from_authorization\<close>\<close>

definition decline_of_authorization :: "command \<Rightarrow> command res" where
  "decline_of_authorization cmd =
     bindr (mapr (\<lambda>k. bindr (dict_get (cmd_payload cmd) k) (\<lambda>v. Inr (k, v))) card_fields) (\<lambda>args.
     card_open_command DeclineCardAuthorization
       (args @ [(''idempotency_key'', PStr (''card.decline:'' @ payload_str (cmd_payload cmd) ''payment_id''))]))"

section \<open>Stored payments\<close>

text \<open>The schema checks of \<open>_validated_state\<close> between the payment id and the history.\<close>

definition card_check_fields :: "payload \<Rightarrow> unit res" where
  "card_check_fields state =
     bindr (bindr (dict_get state ''currency'') (rail_text ''currency'')) (\<lambda>currency.
     bindr (dict_get state ''amount'') (\<lambda>amount_value.
     bindr (dict_get state ''fee'') (\<lambda>fee_value.
     bindr (canonical_money ''amount'' amount_value currency True) (\<lambda>amount.
     bindr (canonical_money ''fee'' fee_value currency False) (\<lambda>fee.
     bindr (ensure (\<not> dec_less amount fee) (ValueError ''state fee must not exceed amount'')) (\<lambda>_.
     bindr (bindr (dict_get state ''payer_account'') (rail_text ''payer_account'')) (\<lambda>payer.
     bindr (bindr (dict_get state ''payee_account'') (rail_text ''payee_account'')) (\<lambda>payee.
     bindr (bindr (dict_get state ''hold_account'') (rail_text ''hold_account'')) (\<lambda>hold.
     bindr (bindr (dict_get state ''fee_account'') (rail_text ''fee_account'')) (\<lambda>fee_account.
     bindr (bindr (dict_get state ''chargeback_account'') (rail_text ''chargeback_account'')) (\<lambda>chargeback.
     bindr (require_distinct_accounts ''card'' [payer, payee, hold, fee_account, chargeback]) (\<lambda>_.
     bindr (bindr (dict_get state ''actor_id'') (rail_uuid_text ''actor_id'')) (\<lambda>_.
     bindr (bindr (dict_get state ''counterparty_id'') (rail_uuid_text ''counterparty_id'')) (\<lambda>_.
     bindr (bindr (dict_get state ''campaign_id'') (rail_uuid_text ''campaign_id'')) (\<lambda>_.
     bindr (bindr (dict_get state ''trace_id'') (rail_uuid_text ''trace_id'')) (\<lambda>_. Inr ()))))))))))))))))"

section \<open>Ledger effects\<close>

definition card_effect_entry ::
  "string \<Rightarrow> string \<Rightarrow> pydec \<Rightarrow> pydec \<Rightarrow> string \<Rightarrow> string \<Rightarrow> string \<Rightarrow> string \<Rightarrow> string \<Rightarrow> string \<Rightarrow>
    ledger_entry option res" where
  "card_effect_entry effect event_id amount fee currency payer payee hold fee_account chargeback =
     (if effect = ''none'' then Inr None
      else if effect = ''hold''
      then Inr (Some (posting (event_id @ '':hold'') [(payer, amount)] [(hold, amount)] currency))
      else if effect = ''release_hold''
      then Inr (Some (posting (event_id @ '':release'') [(hold, amount)] [(payer, amount)] currency))
      else if effect = ''settle''
      then Inr (Some (posting (event_id @ '':settle'') [(hold, amount)]
             [(payee, dec_sub amount fee), (fee_account, fee)] currency))
      else if effect = ''refund''
      then Inr (Some (posting (event_id @ '':refund'')
             [(payee, dec_sub amount fee), (fee_account, fee)] [(payer, amount)] currency))
      else if effect = ''chargeback''
      then Inr (Some (posting (event_id @ '':chargeback'')
             [(payee, dec_sub amount fee), (fee_account, fee)] [(chargeback, amount)] currency))
      else if effect = ''recovery''
      then Inr (Some (posting (event_id @ '':recovery'') [(chargeback, amount)] [(payer, amount)] currency))
      else Inl (AssertionError (''unknown card ledger effect: '' @ effect)))"

definition card_effect :: "payload \<Rightarrow> string \<Rightarrow> string \<Rightarrow> ledger_entry option res" where
  "card_effect state effect event_id =
     (let dec = state_dec ''CARD_STATE_CORRUPT'' state; str = state_str ''CARD_STATE_CORRUPT'' state in
     bindr (dec ''amount'') (\<lambda>amount.
     bindr (dec ''fee'') (\<lambda>fee.
     bindr (str ''currency'') (\<lambda>currency.
     bindr (str ''payer_account'') (\<lambda>payer.
     bindr (str ''payee_account'') (\<lambda>payee.
     bindr (str ''hold_account'') (\<lambda>hold.
     bindr (str ''fee_account'') (\<lambda>fee_account.
     bindr (str ''chargeback_account'') (\<lambda>chargeback.
     card_effect_entry effect event_id amount fee currency payer payee hold fee_account chargeback)))))))))"

section \<open>The adapter\<close>

definition card_rail :: "card_state lifecycle" where
  "card_rail = \<lparr>lc_code = ''CARD'', lc_name = ''card'', lc_domain = ''apar.card-history.v1'',
     lc_rail = Card, lc_operations = card_operations, lc_opening = card_opening,
     lc_fields = card_fields, lc_open_command = card_open_command,
     lc_state_value = card_state_value, lc_state_of = card_state_of, lc_created = CardCreated,
     lc_transitions = card_transitions, lc_missing = card_missing_codes,
     lc_invalid_code = card_invalid_code, lc_check_fields = card_check_fields,
     lc_effect = card_effect\<rparr>"

definition card_canonical_command :: "command \<Rightarrow> command res" where
  "card_canonical_command = canonical_command card_rail"

definition card_validated_state :: "pyval \<Rightarrow> string \<Rightarrow> payload res" where
  "card_validated_state = validated_state card_rail"

definition card_handle :: "'j pydantic \<Rightarrow> command \<Rightarrow> (('a, 'j) engine, payment_event list) act" where
  "card_handle C = lifecycle_handle C card_rail"

definition card_adapter :: "'j pydantic \<Rightarrow> ('a, 'j) rail_ops" where
  "card_adapter C = lifecycle_ops C card_rail"

section \<open>The card rail meets the interface\<close>

lemma new_card_command:
  "new_command cls (PStr name)
       [(PStr ''payment_id'', PStr payment_id), (PStr ''amount'', PDec amount),
        (PStr ''currency'', PStr currency), (PStr ''payer_account'', PStr payer),
        (PStr ''payee_account'', PStr payee), (PStr ''actor_id'', PStr actor),
        (PStr ''counterparty_id'', PStr counterparty), (PStr ''campaign_id'', PStr campaign),
        (PStr ''trace_id'', PStr trace), (PStr ''fee'', PDec fee), (PStr ''hold_account'', PStr hold),
        (PStr ''fee_account'', PStr fee_account), (PStr ''chargeback_account'', PStr chargeback),
        (PStr ''idempotency_key'', PStr key)] = Inr command \<longleftrightarrow>
     name \<noteq> [] \<and> command = \<lparr>cmd_class = cls, cmd_name = name, cmd_payload =
       [(''payment_id'', PStr payment_id), (''amount'', PDec amount),
        (''currency'', PStr currency), (''payer_account'', PStr payer),
        (''payee_account'', PStr payee), (''actor_id'', PStr actor),
        (''counterparty_id'', PStr counterparty), (''campaign_id'', PStr campaign),
        (''trace_id'', PStr trace), (''fee'', PDec fee), (''hold_account'', PStr hold),
        (''fee_account'', PStr fee_account), (''chargeback_account'', PStr chargeback),
        (''idempotency_key'', PStr key)]\<rparr>"
  by (auto simp: new_command_def freeze_mapping_def dict_of_def)

lemma card_check_fields_Inr:
  "card_check_fields d = Inr () \<longleftrightarrow> (\<exists>currency amount fee payer payee hold fee_account chargeback a c g t.
     map_of d ''currency'' = Some (PStr currency) \<and> currency \<noteq> [] \<and>
     map_of d ''amount'' = Some (PDec amount) \<and> map_of d ''fee'' = Some (PDec fee) \<and>
     money_of amount currency True amount \<and> money_of fee currency False fee \<and> \<not> dec_less amount fee \<and>
     map_of d ''payer_account'' = Some (PStr payer) \<and> payer \<noteq> [] \<and>
     map_of d ''payee_account'' = Some (PStr payee) \<and> payee \<noteq> [] \<and>
     map_of d ''hold_account'' = Some (PStr hold) \<and> hold \<noteq> [] \<and>
     map_of d ''fee_account'' = Some (PStr fee_account) \<and> fee_account \<noteq> [] \<and>
     map_of d ''chargeback_account'' = Some (PStr chargeback) \<and> chargeback \<noteq> [] \<and>
     distinct [payer, payee, hold, fee_account, chargeback] \<and>
     map_of d ''actor_id'' = Some (PStr a) \<and> uuid_of_text a \<noteq> None \<and>
     map_of d ''counterparty_id'' = Some (PStr c) \<and> uuid_of_text c \<noteq> None \<and>
     map_of d ''campaign_id'' = Some (PStr g) \<and> uuid_of_text g \<noteq> None \<and>
     map_of d ''trace_id'' = Some (PStr t) \<and> uuid_of_text t \<noteq> None)"
  (is "?l \<longleftrightarrow> ?r")
proof
  assume ?l
  then show ?r
    unfolding card_check_fields_def bindr_Inr ensure_Inr rail_text_Inr rail_uuid_text_Inr dict_get_Inr
      canonical_money_Inr distinct_accounts_Inr
    by (elim exE conjE; hypsubst) (intro exI conjI; assumption)
next
  assume ?r
  then show ?l
    by (elim exE conjE) (simp add: card_check_fields_def field_checks del: rail_text.simps)
qed

lemma card_open_Inr:
  "card_open_command cls args = Inr command \<longleftrightarrow>
   (\<exists>currency a amount f fee payment_id payer payee hold fee_account chargeback actor counterparty campaign trace
      name key.
     map_of args ''currency'' = Some (PStr currency) \<and> currency \<noteq> [] \<and>
     map_of args ''amount'' = Some (PDec a) \<and> money_of a currency True amount \<and>
     arg_default args ''fee'' (PDec dec_zero) = PDec f \<and> money_of f currency False fee \<and>
     \<not> dec_less amount fee \<and>
     map_of args ''payment_id'' = Some (PStr payment_id) \<and> payment_id \<noteq> [] \<and>
     map_of args ''payer_account'' = Some (PStr payer) \<and> payer \<noteq> [] \<and>
     map_of args ''payee_account'' = Some (PStr payee) \<and> payee \<noteq> [] \<and>
     arg_default args ''hold_account'' (PStr ''card:holds'') = PStr hold \<and> hold \<noteq> [] \<and>
     arg_default args ''fee_account'' (PStr ''card:fees'') = PStr fee_account \<and> fee_account \<noteq> [] \<and>
     arg_default args ''chargeback_account'' (PStr ''card:chargebacks'') = PStr chargeback \<and> chargeback \<noteq> [] \<and>
     distinct [payer, payee, hold, fee_account, chargeback] \<and>
     map_of args ''actor_id'' = Some (PStr actor) \<and> uuid_of_text actor \<noteq> None \<and>
     map_of args ''counterparty_id'' = Some (PStr counterparty) \<and> uuid_of_text counterparty \<noteq> None \<and>
     map_of args ''campaign_id'' = Some (PStr campaign) \<and> uuid_of_text campaign \<noteq> None \<and>
     map_of args ''trace_id'' = Some (PStr trace) \<and> uuid_of_text trace \<noteq> None \<and>
     map_of card_operations cls = Some name \<and>
     default_key name payment_id (arg_default args ''idempotency_key'' PNone) = PStr key \<and> key \<noteq> [] \<and>
     name \<noteq> [] \<and>
     command = \<lparr>cmd_class = cls, cmd_name = name, cmd_payload =
       [(''payment_id'', PStr payment_id), (''amount'', PDec amount),
        (''currency'', PStr currency), (''payer_account'', PStr payer),
        (''payee_account'', PStr payee), (''actor_id'', PStr actor),
        (''counterparty_id'', PStr counterparty), (''campaign_id'', PStr campaign),
        (''trace_id'', PStr trace), (''fee'', PDec fee), (''hold_account'', PStr hold),
        (''fee_account'', PStr fee_account), (''chargeback_account'', PStr chargeback),
        (''idempotency_key'', PStr key)]\<rparr>)"
  (is "?l \<longleftrightarrow> ?r")
proof
  assume ?l
  then show ?r
    unfolding card_open_command_def bindr_Inr ensure_Inr rail_text_Inr rail_uuid_text_Inr dict_get_Inr
      rail_money_Inr distinct_accounts_Inr if_Inl_Inr case_option_Inl_Inr new_card_command
    by (elim exE conjE; hypsubst) (intro exI conjI; (assumption | rule refl))
next
  assume ?r
  then show ?l
    by (elim exE conjE) (simp add: card_open_command_def field_checks new_card_command del: rail_text.simps rail_money.simps)
qed

lemma card_open_again:
  assumes "card_open_command cls args = Inr c"
  shows "card_open_command cls (cmd_payload c) = Inr c"
  using assms unfolding card_open_Inr [of cls args]
  by (elim exE conjE) (simp add: card_open_command_def field_checks new_card_command
    arg_default_some money_again default_key_def del: rail_text.simps rail_money.simps)

lemma card_open_result:
  assumes "card_open_command cls args = Inr c"
  shows "cmd_class c = cls \<and> map fst (cmd_payload c) = card_fields @ [''idempotency_key''] \<and>
    (\<exists>pid key. pid \<noteq> [] \<and> key \<noteq> [] \<and> map_of (cmd_payload c) ''payment_id'' = Some (PStr pid) \<and>
      map_of (cmd_payload c) ''idempotency_key'' = Some (PStr key))"
  using assms unfolding card_open_Inr [of cls args]
  by (elim exE conjE) (simp add: card_fields_def)

lemma card_open_checked:
  assumes "card_open_command cls args = Inr c"
  shows "card_check_fields (cmd_payload c) = Inr ()"
  using assms unfolding card_open_Inr [of cls args]
  by (elim exE conjE) (simp add: card_check_fields_def field_checks money_again
    del: rail_text.simps rail_money.simps)

lemma card_open_cong:
  assumes "\<forall>k \<in> set card_fields. map_of a k = map_of b k"
    "map_of a ''idempotency_key'' = map_of b ''idempotency_key''"
  shows "card_open_command cls a = card_open_command cls b"
  using assms by (simp add: card_fields_def card_open_command_def dict_get_def arg_default_def cong: if_cong option.case_cong)

lemma card_check_cong:
  assumes "\<forall>k \<in> set card_fields. map_of a k = map_of b k"
  shows "card_check_fields a = card_check_fields b"
  using assms by (simp add: card_fields_def card_check_fields_def dict_get_def)

lemma card_effect_cong:
  assumes "\<forall>k \<in> set card_fields. map_of a k = map_of b k"
  shows "card_effect a effect i = card_effect b effect i"
  using assms by (simp add: card_fields_def card_effect_def Let_def state_dec_def state_str_def dict_get_def)

lemma card_effects: "(tr, (n, kind, effect)) \<in> set card_transitions \<Longrightarrow>
  effect \<in> {''none'', ''hold'', ''release_hold'', ''settle'', ''refund'', ''chargeback'', ''recovery''}"
  by (auto simp: card_transitions_def)

lemma card_fields_frozen:
  assumes "card_check_fields d = Inr ()" "k \<in> set card_fields" "k \<noteq> ''payment_id''" "map_of d k = Some v"
  shows "frozen_state v"
proof -
  from assms(1) have "\<forall>k \<in> set card_fields - {''payment_id''}. \<exists>v. map_of d k = Some v \<and> frozen_state v"
    unfolding card_check_fields_Inr card_fields_def by (elim exE conjE) (simp add: money_finite)
  with assms(2-4) show ?thesis by (metis DiffI singletonD option.inject)
qed

lemma card_fields_event: "card_check_fields d = Inr () \<Longrightarrow> event_fields_ok d"
  unfolding card_check_fields_Inr event_fields_ok_def
  by (elim exE conjE) (simp add: payload_str_def dec_less_zero money_finite not_less)

lemma card_effect_total:
  assumes "card_check_fields d = Inr ()"
    "effect \<in> {''none'', ''hold'', ''release_hold'', ''settle'', ''refund'', ''chargeback'', ''recovery''}"
  shows "\<exists>e. card_effect d effect i = Inr e"
proof -
  from assms(2) have "\<exists>e. card_effect_entry effect i a f c p q h fa cb = Inr e" for a f c p q h fa cb
    by (auto simp: card_effect_entry_def)
  with assms(1) show ?thesis
    unfolding card_check_fields_Inr
    by (elim exE conjE) (simp add: card_effect_def Let_def state_dec_def state_str_def field_checks)
qed

interpretation card: lifecycle_rail card_rail
proof unfold_locales
  show "lc_state_value card_rail st \<noteq> [] \<and> lc_state_of card_rail (lc_state_value card_rail st) = Some st" for st
    by (cases st) (simp_all add: card_rail_def card_state_of_def card_states_def)
  show "distinct (map fst (lc_operations card_rail)) \<and> distinct (map snd (lc_operations card_rail))"
    by (simp add: card_rail_def card_operations_def)
  show "n \<in> snd ` set (lc_operations card_rail) \<Longrightarrow> n \<noteq> []" for n
    by (auto simp: card_rail_def card_operations_def)
  show "''payment_id'' \<in> set (lc_fields card_rail) \<and> distinct (lc_fields card_rail) \<and>
      set (lc_fields card_rail) \<inter> set reserved_fields = {}"
    by (simp add: card_rail_def card_fields_def reserved_fields_def)
  show "map_of (lc_transitions card_rail) (st, cls) = Some t \<Longrightarrow>
      lc_opening card_rail cls \<longleftrightarrow> st = lc_created card_rail" for st cls t
    by (drule map_of_SomeD) (auto simp: card_rail_def card_transitions_def card_opening_def)
  show "map_of (lc_transitions card_rail) (st, cls) = Some (nxt, kind, effect) \<Longrightarrow> nxt \<noteq> lc_created card_rail"
    for st cls nxt kind effect
    by (drule map_of_SomeD) (auto simp: card_rail_def card_transitions_def)
  show "same_fields card_rail a b \<Longrightarrow> map_of a ''idempotency_key'' = map_of b ''idempotency_key'' \<Longrightarrow>
      lc_open_command card_rail cls a = lc_open_command card_rail cls b" for cls a b
    using card_open_cong [of a b cls] by (simp add: same_fields_def card_rail_def)
  show "lc_open_command card_rail cls args = Inr c \<Longrightarrow>
      cmd_class c = cls \<and> map fst (cmd_payload c) = lc_fields card_rail @ [''idempotency_key''] \<and>
      (\<exists>pid key. pid \<noteq> [] \<and> key \<noteq> [] \<and> map_of (cmd_payload c) ''payment_id'' = Some (PStr pid) \<and>
        map_of (cmd_payload c) ''idempotency_key'' = Some (PStr key))" for cls args c
    using card_open_result by (simp add: card_rail_def)
  show "lc_open_command card_rail cls args = Inr c \<Longrightarrow>
      lc_open_command card_rail cls (cmd_payload c) = Inr c" for cls args c
    using card_open_again by (simp add: card_rail_def)
  show "lc_open_command card_rail cls args = Inr c \<Longrightarrow>
      lc_check_fields card_rail (cmd_payload c) = Inr ()" for cls args c
    using card_open_checked by (simp add: card_rail_def)
  show "same_fields card_rail a b \<Longrightarrow> lc_check_fields card_rail a = lc_check_fields card_rail b" for a b
    using card_check_cong [of a b] by (simp add: same_fields_def card_rail_def)
  show "lc_check_fields card_rail d = Inr () \<Longrightarrow> event_fields_ok d" for d
    using card_fields_event by (simp add: card_rail_def)
  show "lc_check_fields card_rail d = Inr () \<Longrightarrow> k \<in> set (lc_fields card_rail) \<Longrightarrow>
      k \<noteq> ''payment_id'' \<Longrightarrow> map_of d k = Some v \<Longrightarrow> frozen_state v" for d k v
    using card_fields_frozen by (simp add: card_rail_def)
  show "lc_check_fields card_rail d = Inr () \<Longrightarrow>
      map_of (lc_transitions card_rail) (st, cls) = Some (nxt, kind, effect) \<Longrightarrow>
      \<exists>e. lc_effect card_rail d effect i = Inr e" for d st cls nxt kind effect i
    by (simp add: card_rail_def) (erule card_effect_total, rule card_effects, erule map_of_SomeD)
  show "same_fields card_rail a b \<Longrightarrow> lc_effect card_rail a effect i = lc_effect card_rail b effect i" for a b effect i
    using card_effect_cong [of a b] by (simp add: same_fields_def card_rail_def)
qed

interpretation card_engine: rail_adapter "card_adapter C" for C
  unfolding card_adapter_def by (rule card.rail_adapter_ops)

end
