(* ===== verification/Examples.thy ===== *)
theory Examples
  imports CardRail A2ARail
begin

text \<open>
  Concrete values for the witnesses: a pydantic that keeps values as they are, a scenario per rail, the
  engine its constructor builds, and commands of one payment of 25.00 USD from \<open>A\<close> to \<open>B\<close>.
\<close>

section \<open>An engine\<close>

definition echo_json :: "(payment_event + scenario_bundle) pydantic" where
  "echo_json = \<lparr>dump_event = (\<lambda>ev. Inr (Inl ev)),
     load_event = (\<lambda>j. case j of Inl ev \<Rightarrow> Inr ev | Inr _ \<Rightarrow> Inl (ValueError ''event'')),
     dump_bundle = (\<lambda>b. Inr (Inr b)),
     load_bundle = (\<lambda>j. case j of Inl _ \<Rightarrow> Inl (ValueError ''bundle'') | Inr b \<Rightarrow> Inr b)\<rparr>"

definition demo_start_time :: datetime where
  "demo_start_time = \<lparr>dt_local = 0, dt_tz = Some UTC, dt_fold = 0\<rparr>"

definition demo_bundle :: "rail \<Rightarrow> scenario_bundle" where
  "demo_bundle r = \<lparr>sc_schema_version = ''1.0.0'', sc_scenario_id = ''demo'', sc_version = ''1.0.0'',
     sc_rail = r, sc_viewpoint = ''issuer'', sc_attacker_mode = StaticAttacker,
     sc_attacker_objective = ''none'', sc_query_budget = 1, sc_feedback = [ActionField],
     sc_benign_entity_count = 1, sc_illicit_entity_count = 1, sc_duration_hours = 1, sc_seed = 7,
     sc_campaign_stages = [\<lparr>stage_id = ''a'', stage_description = ''start''\<rparr>],
     sc_transition_rules = [\<lparr>from_stage = ''a'', to_stage = ''a'', transition_condition = ''always''\<rparr>],
     sc_economics = [], sc_lifecycle = [], sc_hidden_validity = [], sc_extensions = [],
     sb_threat_card_ref = ''card'', sb_defender_knowledge_boundary = ''none'',
     sb_replay_manifest = \<lparr>random_seed = 7, simulation_start = demo_start_time,
       generator_version = ''1.0.0'', event_ordering = EventTimeThenEventId,
       rm_scenario_id = ''demo'', rm_scenario_version = ''1.0.0'', rm_threat_card_ref = ''card''\<rparr>,
     sb_genai_capability = [], sb_safety = []\<rparr>"

definition demo_engine_with :: "'a \<Rightarrow> rail \<Rightarrow> ('a, payment_event + scenario_bundle) engine" where
  "demo_engine_with a r = \<lparr>en_bundle = demo_bundle r, en_bundle_payload = Inr (demo_bundle r),
     en_uuid_prefix = be_nat [0, 0, 0, 0, 0, 0, 64, 0, 128, 0], en_uuid_sequence = 0,
     en_clock = \<lparr>ck_now = demo_start_time, ck_sequence = 0, ck_queue = []\<rparr>, en_ledger = demo_start,
     en_adapter = Some a, en_entity_state = [], en_events = [], en_seen_event_ids = {},
     en_scheduled_times = [], en_initialized = False, en_failure = None\<rparr>"

abbreviation demo_engine :: "rail \<Rightarrow> (unit, payment_event + scenario_bundle) engine" where
  "demo_engine \<equiv> demo_engine_with ()"

lemma demo_bundle_valid: "scenario_bundle_valid (demo_bundle r) = Inr (demo_bundle r)"
proof -
  have v: "validate_semantic_version ''1.0.0'' f = Inr ''1.0.0''" for f
    by (simp add: validate_semantic_version_def semver_match_def digit_def)
  have w: "validate_schema_version ''1.0.0'' = Inr ''1.0.0''"
    by (simp add: validate_schema_version_def v semver_match_def digit_def)
  have s: "stage_name ''a''" by (simp add: stage_name_def stage_word_def)
  show ?thesis
    by (simp add: demo_bundle_def scenario_bundle_valid_def replay_manifest_valid_def replay_config_valid_def
      validate_utc_timestamp_def demo_start_time_def utcoffset_def tzname_def v s w
      scenario_parameters_valid_def campaign_stage_valid_def stage_transition_valid_def campaign_graph_closed_def)
qed

lemma echo_stable: "json_stable echo_json"
  by (auto simp: json_stable_def echo_json_def)

lemma demo_engine_new:
  "engine_new echo_json (\<lambda>_. replicate 10 0) (demo_bundle r) (\<lambda>_. Some a) demo_opening {} = Inr (demo_engine_with a r)"
proof -
  have f: "finite_tree ''scenario bundle'' (bundle_dump (demo_bundle r)) = Inr ()"
    by (simp add: bundle_dump_def demo_bundle_def str_map_def)
  have c: "new_clock (simulation_start (sb_replay_manifest (demo_bundle r))) =
      Inr \<lparr>ck_now = demo_start_time, ck_sequence = 0, ck_queue = []\<rparr>"
    by (simp add: demo_bundle_def new_clock_def normalize_utc_datetime_def is_utc_def demo_start_time_def
      utcoffset_def tzname_def)
  have u: "uuid_prefix_bytes (replicate 10 0) = [0, 0, 0, 0, 0, 0, 64, 0, 128, 0]"
    by code_simp
  show ?thesis
    by (simp add: engine_new_def validated_bundle_def bundle_json_def echo_json_def demo_bundle_valid
      demo_run f c u) (simp add: demo_engine_with_def demo_bundle_def)
qed

lemma demo_engine_ready:
  "prefix_ok (en_uuid_prefix (demo_engine_with a r))" "bundle_loaded echo_json (demo_engine_with a r)"
  "normal_utc (ck_now (en_clock (demo_engine_with a r)))" "en_failure (demo_engine_with a r) = None"
  "en_uuid_sequence (demo_engine_with a r) = 0" "en_entity_state (demo_engine_with a r) = []"
  "en_ledger (demo_engine_with a r) = demo_start" "engine_ok echo_json (demo_engine_with a r)"
  using engine_new_ok(1) [OF demo_engine_new] engine_new_bundle [OF demo_engine_new]
  by (simp_all add: demo_engine_with_def prefix_ok_def be_nat_def normal_utc_def demo_start_time_def)

lemma demo_ready: "rail_ready echo_json R (demo_engine r)"
  by (simp add: rail_ready_def store_ok_def demo_engine_ready)

section \<open>Commands\<close>

lemma fingerprint_exists:
  assumes "\<forall>v \<in> snd ` set p. (\<exists>s. v = PStr s) \<or> (\<exists>d. v = PDec d)"
  shows "\<exists>f. payload_fingerprint n p = Inr f"
proof -
  have "\<exists>rows. mapr (fingerprint_row n) q = Inr rows"
    if "\<forall>v \<in> snd ` set q. (\<exists>s. v = PStr s) \<or> (\<exists>d. v = PDec d)" for q
    using that
  proof (induction q)
    case (Cons kv q)
    then obtain rows where rows: "mapr (fingerprint_row n) q = Inr rows" by auto
    obtain k v where "kv = (k, v)" by (cases kv)
    with Cons.prems have "\<exists>row. fingerprint_row n kv = Inr row" by auto
    with rows show ?case by auto
  qed simp
  from this [of "sort_key fst p"] assms show ?thesis
    by (auto simp: payload_fingerprint_def)
qed

lemma canonical_own:
  assumes "map_of (lc_operations R) cls = Some n"
    and "set (map fst p) = (if lc_opening R cls then set (lc_fields R) \<union> {''idempotency_key''}
      else {''payment_id'', ''idempotency_key''})"
    and "build_command R cls p = Inr \<lparr>cmd_class = cls, cmd_name = n, cmd_payload = p\<rparr>"
    and "\<forall>v \<in> snd ` set p. (\<exists>s. v = PStr s) \<or> (\<exists>d. v = PDec d)"
  shows "canonical_command R \<lparr>cmd_class = cls, cmd_name = n, cmd_payload = p\<rparr> =
    Inr \<lparr>cmd_class = cls, cmd_name = n, cmd_payload = p\<rparr>"
  using assms fingerprint_exists [OF assms(4), of "lc_name R"]
  by (auto simp: canonical_command_def)

definition demo_uuid :: string where
  "demo_uuid = uuid_text 1"

lemma demo_uuid_ok: "uuid_of_text demo_uuid \<noteq> None"
  by (simp add: demo_uuid_def uuid_roundtrip)

definition demo_payment :: payload where
  "demo_payment = [(''payment_id'', PStr ''p1''), (''amount'', PDec (Dec False 2500 (-2))),
     (''currency'', PStr ''USD''), (''payer_account'', PStr ''A''), (''payee_account'', PStr ''B''),
     (''actor_id'', PStr demo_uuid), (''counterparty_id'', PStr demo_uuid),
     (''campaign_id'', PStr demo_uuid), (''trace_id'', PStr demo_uuid),
     (''fee'', PDec (Dec False 50 (-2)))]"

definition demo_authorize :: command where
  "demo_authorize = \<lparr>cmd_class = AuthorizeCard, cmd_name = ''card.authorize'', cmd_payload = demo_payment @
     [(''hold_account'', PStr ''card:holds''), (''fee_account'', PStr ''card:fees''),
      (''chargeback_account'', PStr ''card:chargebacks''), (''idempotency_key'', PStr ''k1'')]\<rparr>"

definition demo_settle :: command where
  "demo_settle = \<lparr>cmd_class = SettleCard, cmd_name = ''card.settle'',
     cmd_payload = [(''payment_id'', PStr ''p1''), (''idempotency_key'', PStr ''k2'')]\<rparr>"

definition demo_initiate :: command where
  "demo_initiate = \<lparr>cmd_class = InitiateA2A, cmd_name = ''a2a.initiate'', cmd_payload = demo_payment @
     [(''fee_account'', PStr ''a2a:fees''), (''frozen_account'', PStr ''a2a:frozen''),
      (''idempotency_key'', PStr ''k1'')]\<rparr>"

definition demo_reject :: command where
  "demo_reject = \<lparr>cmd_class = RejectA2A, cmd_name = ''a2a.reject'',
     cmd_payload = [(''payment_id'', PStr ''p1''), (''idempotency_key'', PStr ''k2'')]\<rparr>"

lemma demo_money: "money_of (Dec False 2500 (-2)) ''USD'' True (Dec False 2500 (-2))"
  "money_of (Dec False 50 (-2)) ''USD'' False (Dec False 50 (-2))"
  by (simp_all add: money_of_def rail_exponents_def dec_limit_def)

lemma demo_authorize_canonical: "canonical_command card_rail demo_authorize = Inr demo_authorize"
  unfolding demo_authorize_def
proof (rule canonical_own)
  let ?p = "demo_payment @ [(''hold_account'', PStr ''card:holds''), (''fee_account'', PStr ''card:fees''),
      (''chargeback_account'', PStr ''card:chargebacks''), (''idempotency_key'', PStr ''k1'')]"
  show "map_of (lc_operations card_rail) AuthorizeCard = Some ''card.authorize''"
    by (simp add: card_rail_def card_operations_def)
  have "map fst ?p = lc_fields card_rail @ [''idempotency_key'']"
    by (simp add: card_rail_def card_fields_def demo_payment_def)
  then have "set (map fst ?p) = set (lc_fields card_rail @ [''idempotency_key''])" by (rule arg_cong)
  then show "set (map fst ?p) = (if lc_opening card_rail AuthorizeCard
      then set (lc_fields card_rail) \<union> {''idempotency_key''} else {''payment_id'', ''idempotency_key''})"
    by (simp add: card_rail_def card_opening_def)
  have "card_open_command AuthorizeCard ?p =
      Inr \<lparr>cmd_class = AuthorizeCard, cmd_name = ''card.authorize'', cmd_payload = ?p\<rparr>"
    using demo_uuid_ok
    by (simp add: card_open_command_def demo_payment_def field_checks demo_money [THEN money_again(1)]
      new_card_command arg_default_def dec_less_def units_def card_operations_def default_key_def
      del: rail_money.simps rail_text.simps)
  then show "build_command card_rail AuthorizeCard ?p =
      Inr \<lparr>cmd_class = AuthorizeCard, cmd_name = ''card.authorize'', cmd_payload = ?p\<rparr>"
    by (simp add: build_command_def card_rail_def card_opening_def)
  show "\<forall>v \<in> snd ` set ?p. (\<exists>s. v = PStr s) \<or> (\<exists>d. v = PDec d)"
    by (simp add: demo_payment_def)
qed

lemma demo_settle_canonical: "canonical_command card_rail demo_settle = Inr demo_settle"
  unfolding demo_settle_def
  by (rule canonical_own) (auto simp: card_rail_def card_operations_def card_opening_def build_command_def
    dict_get_def card.followup_Inr)

lemma demo_initiate_canonical: "canonical_command a2a_rail demo_initiate = Inr demo_initiate"
  unfolding demo_initiate_def
proof (rule canonical_own)
  let ?p = "demo_payment @ [(''fee_account'', PStr ''a2a:fees''), (''frozen_account'', PStr ''a2a:frozen''),
      (''idempotency_key'', PStr ''k1'')]"
  show "map_of (lc_operations a2a_rail) InitiateA2A = Some ''a2a.initiate''"
    by (simp add: a2a_rail_def a2a_operations_def)
  have "map fst ?p = lc_fields a2a_rail @ [''idempotency_key'']"
    by (simp add: a2a_rail_def a2a_fields_def demo_payment_def)
  then have "set (map fst ?p) = set (lc_fields a2a_rail @ [''idempotency_key''])" by (rule arg_cong)
  then show "set (map fst ?p) = (if lc_opening a2a_rail InitiateA2A
      then set (lc_fields a2a_rail) \<union> {''idempotency_key''} else {''payment_id'', ''idempotency_key''})"
    by (simp add: a2a_rail_def a2a_opening_def)
  have "a2a_open_command InitiateA2A ?p =
      Inr \<lparr>cmd_class = InitiateA2A, cmd_name = ''a2a.initiate'', cmd_payload = ?p\<rparr>"
    using demo_uuid_ok
    by (simp add: a2a_open_command_def demo_payment_def field_checks demo_money [THEN money_again(1)]
      new_a2a_command arg_default_def a2a_operations_def default_key_def
      del: rail_money.simps rail_text.simps)
  then show "build_command a2a_rail InitiateA2A ?p =
      Inr \<lparr>cmd_class = InitiateA2A, cmd_name = ''a2a.initiate'', cmd_payload = ?p\<rparr>"
    by (simp add: build_command_def a2a_rail_def a2a_opening_def)
  show "\<forall>v \<in> snd ` set ?p. (\<exists>s. v = PStr s) \<or> (\<exists>d. v = PDec d)"
    by (simp add: demo_payment_def)
qed

lemma demo_reject_canonical: "canonical_command a2a_rail demo_reject = Inr demo_reject"
  unfolding demo_reject_def
  by (rule canonical_own) (auto simp: a2a_rail_def a2a_operations_def a2a_opening_def build_command_def
    dict_get_def a2a.followup_Inr)

end
