(* ===== verification/A2AProperties.thy ===== *)
theory A2AProperties
  imports A2ARail Examples
begin

text \<open>
  The A2A rail's promises: the positions of its payments in the ledger, where the payer bears the fee
  on top of the amount and a return or recovery gives back the amount only, and its properties.
\<close>

section \<open>Positions of A2A payments\<close>

text \<open>Shares of payer, payee, fee and frozen account for amount \<open>a\<close> and fee \<open>f\<close>.\<close>

fun a2a_shares :: "a2a_state \<Rightarrow> int \<Rightarrow> int \<Rightarrow> int \<times> int \<times> int \<times> int" where
  "a2a_shares A2ACreated a f = (0, 0, 0, 0)"
| "a2a_shares A2AInitiated a f = (0, 0, 0, 0)"
| "a2a_shares A2AAccepted a f = (0, 0, 0, 0)"
| "a2a_shares A2ARejected a f = (0, 0, 0, 0)"
| "a2a_shares A2APosted a f = (- (a + f), a, f, 0)"
| "a2a_shares A2AReported a f = (- (a + f), a, f, 0)"
| "a2a_shares A2AFrozen a f = (- (a + f), 0, f, a)"
| "a2a_shares A2ARecovered a f = (- f, 0, f, 0)"
| "a2a_shares A2AReturned a f = (- f, 0, f, 0)"

definition a2a_position :: "a2a_state \<Rightarrow> payload \<Rightarrow> string \<times> string \<Rightarrow> int" where
  "a2a_position st d k =
     (case a2a_shares st (pay_cents d ''amount'') (pay_cents d ''fee'') of (p, q, e, z) \<Rightarrow>
        at_role d ''payer_account'' p k + at_role d ''payee_account'' q k +
        at_role d ''fee_account'' e k + at_role d ''frozen_account'' z k)"

lemma a2a_position_cong:
  assumes "same_fields a2a_rail a b"
  shows "a2a_position st a k = a2a_position st b k" "rail_gross a = rail_gross b"
proof -
  have look: "map_of a k = map_of b k" if "k \<in> set a2a_fields" for k
    using assms that by (simp add: same_fields_def a2a_rail_def)
  then have str: "payload_str a k = payload_str b k" if "k \<in> set a2a_fields" for k
    using that by (simp add: payload_str_def)
  have cur: "payload_str a ''currency'' = payload_str b ''currency''" by (rule str) (simp add: a2a_fields_def)
  have "pay_cents a k = pay_cents b k" if "k \<in> set a2a_fields" for k
    unfolding pay_cents_def cur look [OF that] by (rule refl)
  with str show "a2a_position st a k = a2a_position st b k" "rail_gross a = rail_gross b"
    by (simp_all add: a2a_position_def at_role_def rail_gross_def a2a_fields_def)
qed

lemma a2a_effect_positions:
  assumes d: "map_of d ''currency'' = Some (PStr currency)"
      "map_of d ''amount'' = Some (PDec amount)" "map_of d ''fee'' = Some (PDec fee)"
      "map_of d ''payer_account'' = Some (PStr payer)" "map_of d ''payee_account'' = Some (PStr payee)"
      "map_of d ''fee_account'' = Some (PStr fee_account)" "map_of d ''frozen_account'' = Some (PStr frozen)"
    and money: "canonical_amount currency amount" "canonical_amount currency fee" "rail_gross d < 10 ^ 28"
    and roles: "distinct [payer, payee, fee_account, frozen]"
      "payer \<noteq> []" "payee \<noteq> []" "fee_account \<noteq> []" "frozen \<noteq> []"
    and t: "((st, cls), (nxt, kind, effect)) \<in> set a2a_transitions"
    and e: "a2a_effect d effect i = Inr eo"
  shows "case eo of None \<Rightarrow> a2a_position nxt d k = a2a_position st d k
    | Some en \<Rightarrow> (\<exists>m. normalized_entry en = Inr m \<and> entry_gross (entry_currency en) m \<le> rail_gross d \<and>
        entry_net m k = a2a_position nxt d k - a2a_position st d k)"
proof -
  define a f where "a = cents currency amount" and "f = cents currency fee"
  have pos: "0 \<le> f" "0 \<le> a" using canonical_cents(2) money(1,2) by (auto simp: a_def f_def)
  have cur: "payload_str d ''currency'' = currency" "payload_str d ''payer_account'' = payer"
    "payload_str d ''payee_account'' = payee"
    "payload_str d ''fee_account'' = fee_account" "payload_str d ''frozen_account'' = frozen"
    by (simp_all add: payload_str_def d)
  have pc: "pay_cents d ''amount'' = a" "pay_cents d ''fee'' = f"
    by (simp_all add: pay_cents_def d cur a_def f_def)
  have "a + f < int dec_limit" using money(3) pos by (simp add: rail_gross_def pc dec_limit_def)
  from canonical_from_cents(2) [OF money(1,2)] this
  have sum: "canonical_amount currency (dec_add amount fee)" "cents currency (dec_add amount fee) = a + f"
    by (simp_all add: a_def f_def)
  have ee: "a2a_effect_entry effect i amount fee currency payer payee fee_account frozen = Inr eo"
    using e by (simp add: a2a_effect_def Let_def state_dec_def state_str_def dict_get_def d)
  have n: "normalized_entry (posting j ds cs currency) = Inr (posting j ds cs currency)"
    if "set ds \<union> set cs \<subseteq> {payer, payee, fee_account, frozen} \<times> {amount, fee, dec_add amount fee}"
      "distinct (map fst ds)" "distinct (map fst cs)" for j ds cs
    by (rule canonical_posting) (use that roles(2-) money(1,2) sum(1) in auto)
  have eq: ?thesis if "eo = Some (posting j ds cs currency)"
      "set ds \<union> set cs \<subseteq> {payer, payee, fee_account, frozen} \<times> {amount, fee, dec_add amount fee}"
      "distinct (map fst ds)" "distinct (map fst cs)"
      "leg_total currency ds + leg_total currency cs \<le> 2 * (a + f)"
      "snd k = currency \<Longrightarrow> leg_at currency cs (fst k) - leg_at currency ds (fst k) =
         a2a_position nxt d k - a2a_position st d k" for j ds cs
  proof -
    have zero: "a2a_position s d k = 0" if "snd k \<noteq> currency" for s
      using that by (simp add: a2a_position_def at_role_def cur split: prod.splits)
    have "entry_net (posting j ds cs currency) k = a2a_position nxt d k - a2a_position st d k"
      using that(6) zero by (auto simp: entry_net_def posting_def)
    moreover have "entry_gross currency (posting j ds cs currency) \<le> rail_gross d"
      using that(5) by (simp add: entry_gross_def posting_def rail_gross_def pc)
    ultimately show ?thesis using n [OF that(2-4)] that(1) by (auto simp: posting_def)
  qed
  have cases: "effect = ''none'' \<and> a2a_shares st a f = a2a_shares nxt a f \<or>
      effect = ''post'' \<and> a2a_shares st a f = (0, 0, 0, 0) \<and> a2a_shares nxt a f = (- (a + f), a, f, 0) \<or>
      effect = ''return'' \<and> a2a_shares st a f = (- (a + f), a, f, 0) \<and> a2a_shares nxt a f = (- f, 0, f, 0) \<or>
      effect = ''freeze'' \<and> a2a_shares st a f = (- (a + f), a, f, 0) \<and> a2a_shares nxt a f = (- (a + f), 0, f, a) \<or>
      effect = ''recovery'' \<and> a2a_shares st a f = (- (a + f), 0, f, a) \<and> a2a_shares nxt a f = (- f, 0, f, 0)"
    using t unfolding a2a_transitions_def list.set insert_iff empty_iff prod.inject
    by (elim disjE conjE FalseE; hypsubst; simp)
  note evals = a2a_position_def pc at_role_def cur a_def [symmetric] f_def [symmetric] sum(2)
  from cases show ?thesis
  proof (elim disjE conjE)
    assume "effect = ''none''" "a2a_shares st a f = a2a_shares nxt a f"
    with ee show ?thesis by (auto simp: a2a_effect_entry_def a2a_position_def pc)
  next
    assume "effect = ''post''" "a2a_shares st a f = (0, 0, 0, 0)" "a2a_shares nxt a f = (- (a + f), a, f, 0)"
    with ee roles pos show ?thesis
      by (intro eq [of "i @ '':post''" "[(payer, dec_add amount fee)]" "[(payee, amount), (fee_account, fee)]"])
        (auto simp: a2a_effect_entry_def evals)
  next
    assume "effect = ''return''" "a2a_shares st a f = (- (a + f), a, f, 0)" "a2a_shares nxt a f = (- f, 0, f, 0)"
    with ee roles pos show ?thesis
      by (intro eq [of "i @ '':return''" "[(payee, amount)]" "[(payer, amount)]"]) (auto simp: a2a_effect_entry_def evals)
  next
    assume "effect = ''freeze''" "a2a_shares st a f = (- (a + f), a, f, 0)" "a2a_shares nxt a f = (- (a + f), 0, f, a)"
    with ee roles pos show ?thesis
      by (intro eq [of "i @ '':freeze''" "[(payee, amount)]" "[(frozen, amount)]"]) (auto simp: a2a_effect_entry_def evals)
  next
    assume "effect = ''recovery''" "a2a_shares st a f = (- (a + f), 0, f, a)" "a2a_shares nxt a f = (- f, 0, f, 0)"
    with ee roles pos show ?thesis
      by (intro eq [of "i @ '':recovery''" "[(frozen, amount)]" "[(payer, amount)]"]) (auto simp: a2a_effect_entry_def evals)
  qed
qed

interpretation a2a_money: priced_rail a2a_rail a2a_position
proof unfold_locales
  show "a2a_position (lc_created a2a_rail) d k = 0" for d k
    by (simp add: a2a_position_def at_role_def a2a_rail_def)
  show "same_fields a2a_rail a b \<Longrightarrow> a2a_position st a k = a2a_position st b k" for a b st k
    by (rule a2a_position_cong(1))
  show "same_fields a2a_rail a b \<Longrightarrow> rail_gross a = rail_gross b" for a b
    by (rule a2a_position_cong(2))
  show "case eo of None \<Rightarrow> a2a_position nxt d k = a2a_position st d k
       | Some en \<Rightarrow> (\<exists>m. normalized_entry en = Inr m \<and> entry_gross (entry_currency en) m \<le> rail_gross d \<and>
           entry_net m k = a2a_position nxt d k - a2a_position st d k)"
    if chk: "lc_check_fields a2a_rail d = Inr ()"
      and t: "map_of (lc_transitions a2a_rail) (st, cls) = Some (nxt, kind, effect)"
      and e: "lc_effect a2a_rail d effect i = Inr eo" and room: "rail_gross d < 10 ^ 28"
    for d st cls nxt kind effect i eo k
  proof -
    from chk have "a2a_check_fields d = Inr ()" by (simp add: a2a_rail_def)
    then obtain currency amount fee payer payee fee_account frozen where
      1: "map_of d ''currency'' = Some (PStr currency)" "map_of d ''amount'' = Some (PDec amount)"
      "map_of d ''fee'' = Some (PDec fee)"
      "map_of d ''payer_account'' = Some (PStr payer)" "map_of d ''payee_account'' = Some (PStr payee)"
      "map_of d ''fee_account'' = Some (PStr fee_account)" "map_of d ''frozen_account'' = Some (PStr frozen)"
      "money_of amount currency True amount" "money_of fee currency False fee"
      "distinct [payer, payee, fee_account, frozen]"
      "payer \<noteq> []" "payee \<noteq> []" "fee_account \<noteq> []" "frozen \<noteq> []"
      unfolding a2a_check_fields_Inr by (elim exE conjE) (rule that)
    have "((st, cls), (nxt, kind, effect)) \<in> set a2a_transitions"
      using map_of_SomeD [OF t] by (simp add: a2a_rail_def)
    moreover have "a2a_effect d effect i = Inr eo" using e by (simp add: a2a_rail_def)
    ultimately show ?thesis
      by (rule a2a_effect_positions [OF 1(1-7) money_canonical [OF 1(8)] money_canonical [OF 1(9)] room 1(10-14)])
  qed
qed

interpretation a2a_runs: quiet_adapter "a2a_adapter C" "rail_ready C a2a_rail" for C
  unfolding a2a_adapter_def by (rule a2a.quiet_ops)

section \<open>A first step for the witnesses\<close>

abbreviation demo_a2a :: "(unit, payment_event + scenario_bundle) engine" where
  "demo_a2a \<equiv> demo_engine A2A"

lemma demo_a2a_initiated:
  "\<exists>ev E'. a2a_handle echo_json demo_initiate demo_a2a = (Inr [ev], E') \<and>
     pe_event_type ev = TransferInitiated \<and> payment_status a2a_rail E' ''p1'' = Some A2AInitiated \<and>
     en_failure E' = None"
proof -
  have pid: "payload_str (cmd_payload demo_initiate) ''payment_id'' = ''p1''"
    by (simp add: demo_initiate_def demo_payment_def payload_str_def)
  have f: "payment_fields demo_a2a demo_initiate = cmd_payload demo_initiate"
    by (simp add: payment_fields_def demo_engine_ready)
  have e: "lc_effect a2a_rail (cmd_payload demo_initiate) ''none'' u = Inr None" for u
    by (simp add: a2a_rail_def a2a_effect_def Let_def state_dec_def state_str_def dict_get_def
      demo_initiate_def demo_payment_def a2a_effect_entry_def)
  have "\<exists>ev E'. lifecycle_handle echo_json a2a_rail demo_initiate demo_a2a = (Inr [ev], E') \<and>
     pe_event_type ev = TransferInitiated \<and>
     payment_status a2a_rail E' (payload_str (cmd_payload demo_initiate) ''payment_id'') = Some A2AInitiated \<and>
     en_failure E' = None"
  proof (rule a2a.handle_progress [OF demo_ready _ _ demo_initiate_canonical])
    show "payment_status a2a_rail demo_a2a (payload_str (cmd_payload demo_initiate) ''payment_id'') = Some A2ACreated"
      by (simp add: payment_status_def demo_engine_ready a2a_rail_def)
    show "map_of (lc_transitions a2a_rail) (A2ACreated, cmd_class demo_initiate) =
        Some (A2AInitiated, TransferInitiated, ''none'')"
      by (simp add: a2a_rail_def a2a_transitions_def demo_initiate_def)
    show "\<forall>entry. lc_effect a2a_rail (payment_fields demo_a2a demo_initiate) ''none''
        (uuid_text (en_uuid_prefix demo_a2a * 2 ^ 48 + en_uuid_sequence demo_a2a)) = Inr (Some entry) \<longrightarrow>
        (\<exists>L. ledger_post (en_ledger demo_a2a) entry = Inr L)"
      unfolding f e by simp
  qed (simp_all add: demo_engine_ready payment_records_def)
  then show ?thesis by (simp add: a2a_handle_def pid)
qed

section \<open>Properties\<close>

text \<open>An A2A command carried out once is never carried out again, after any further commands.\<close>

theorem a2a_carried_out_once:
  assumes "rail_ready C a2a_rail E" "a2a_handle C cmd E = (Inr [ev], E1)"
    and "E2 = handle_all C a2a_rail cmds E1" "en_failure E2 = None"
  shows "a2a_handle C cmd E2 = (Inr [], E2)"
  using a2a.handled_once [OF assms(1) assms(2) [unfolded a2a_handle_def] assms(3,4)] by (simp add: a2a_handle_def)

theorem a2a_carried_out_once_witness:
  "\<exists>ev E'. a2a_handle echo_json demo_initiate demo_a2a = (Inr [ev], E') \<and>
     a2a_handle echo_json demo_initiate E' = (Inr [], E')"
proof -
  from demo_a2a_initiated obtain ev E' where
    1: "a2a_handle echo_json demo_initiate demo_a2a = (Inr [ev], E')" "en_failure E' = None" by blast
  from a2a_carried_out_once [OF demo_ready 1(1), of E' "[]"] 1 show ?thesis by auto
qed

text \<open>C28. Refinement of the A2A transition table: a command that succeeds is a retry, or moves its own
  payment to the table's next state with one event of the table's kind and leaves the others alone.\<close>

theorem a2a_follows_table:
  assumes "rail_ready C a2a_rail E" "a2a_handle C cmd E = (Inr evs, E')"
  shows "evs = [] \<and> E' = E \<or>
    (\<exists>c ev st nxt effect. evs = [ev] \<and> a2a_canonical_command cmd = Inr c \<and>
       map_of a2a_transitions (st, cmd_class c) = Some (nxt, pe_event_type ev, effect) \<and>
       payment_status a2a_rail E (payload_str (cmd_payload c) ''payment_id'') = Some st \<and>
       payment_status a2a_rail E' (payload_str (cmd_payload c) ''payment_id'') = Some nxt \<and>
       (\<forall>i. i \<noteq> payload_str (cmd_payload c) ''payment_id'' \<longrightarrow>
          map_of (en_entity_state E') i = map_of (en_entity_state E) i))"
proof -
  have tr: "lc_transitions a2a_rail = a2a_transitions" by (simp add: a2a_rail_def)
  show ?thesis
    using a2a.handle_table [OF assms(1) assms(2) [unfolded a2a_handle_def], unfolded tr]
  proof (elim disjE exE conjE)
    fix ev s n kind effect and c :: command
    assume 1: "evs = [ev]" "canonical_command a2a_rail cmd = Inr c" "pe_event_type ev = kind"
      "map_of a2a_transitions (s, cmd_class c) = Some (n, kind, effect)"
      "payment_status a2a_rail E (payload_str (cmd_payload c) ''payment_id'') = Some s"
      "payment_status a2a_rail E' (payload_str (cmd_payload c) ''payment_id'') = Some n"
      "\<forall>i. i \<noteq> payload_str (cmd_payload c) ''payment_id'' \<longrightarrow>
         map_of (en_entity_state E') i = map_of (en_entity_state E) i"
    show ?thesis
      by (rule disjI2, rule exI [of _ c], rule exI [of _ ev], rule exI [of _ s], rule exI [of _ n],
          rule exI [of _ effect]) (simp add: a2a_canonical_command_def 1)
  qed simp
qed

theorem a2a_follows_table_witness:
  "\<exists>ev E'. a2a_handle echo_json demo_initiate demo_a2a = (Inr [ev], E') \<and>
     (\<exists>cls st nxt effect. map_of a2a_transitions (st, cls) = Some (nxt, pe_event_type ev, effect))"
proof -
  from demo_a2a_initiated obtain ev E' where
    1: "a2a_handle echo_json demo_initiate demo_a2a = (Inr [ev], E')" by blast
  from a2a_follows_table [OF demo_ready 1]
  have "\<exists>cls st nxt effect. map_of a2a_transitions (st, cls) = Some (nxt, pe_event_type ev, effect)"
    by (elim disjE exE conjE) auto
  with 1 show ?thesis by blast
qed

text \<open>C29. The A2A books balance: a command moves every account's holding by exactly what the positions of
  the stored A2A payments move, within the 28 digits of the decimal context.\<close>

theorem a2a_books:
  assumes "rail_ready C a2a_rail E" "a2a_handle C cmd E = (r, E')"
    and "fits_all (lg_balances (en_ledger E))"
    and "\<forall>currency. exposure currency (en_ledger E) + command_gross a2a_rail cmd E < 10 ^ 28"
  shows "holding (en_ledger E') k - books a2a_rail a2a_position E' k =
    holding (en_ledger E) k - books a2a_rail a2a_position E k"
  using a2a_money.handle_books(1) [OF assms(1,3,4) assms(2) [unfolded a2a_handle_def], of k] by simp

theorem a2a_books_witness:
  "\<exists>ev E'. a2a_handle echo_json demo_initiate demo_a2a = (Inr [ev], E') \<and>
     holding (en_ledger E') (''A'', ''USD'') = 10000 + books a2a_rail a2a_position E' (''A'', ''USD'')"
proof -
  from demo_a2a_initiated obtain ev E' where
    1: "a2a_handle echo_json demo_initiate demo_a2a = (Inr [ev], E')" by blast
  have f: "fits_all (lg_balances (en_ledger demo_a2a))"
    by (simp add: demo_engine_ready demo_start_def fits_all_def fits_def exponent_of_def currency_exponents_def)
  have g: "command_gross a2a_rail demo_initiate demo_a2a = 5100"
    by (simp add: command_gross_def demo_initiate_canonical payment_fields_def demo_engine_ready)
      (simp add: rail_gross_def pay_cents_def demo_initiate_def demo_payment_def payload_str_def cents_def
      units_def exponent_of_def currency_exponents_def)
  have x: "exposure currency (en_ledger demo_a2a) \<le> 10000" for currency
    by (simp add: exposure_def demo_engine_ready demo_start_def bsum_def cents_def units_def exponent_of_def
      currency_exponents_def)
  have r: "\<forall>currency. exposure currency (en_ledger demo_a2a) + command_gross a2a_rail demo_initiate demo_a2a < 10 ^ 28"
    by (simp add: g order_le_less_trans [OF x])
  have h: "holding (en_ledger demo_a2a) (''A'', ''USD'') = 10000"
    by (simp add: demo_engine_ready demo_start_def holding_def dict_dec_def cents_def units_def exponent_of_def
      currency_exponents_def)
  from a2a_books [OF demo_ready 1 f r, of "(''A'', ''USD'')"] h
  have "holding (en_ledger E') (''A'', ''USD'') = 10000 + books a2a_rail a2a_position E' (''A'', ''USD'')"
    by (simp add: books_def demo_engine_ready)
  with 1 show ?thesis by blast
qed

end
