(* ===== verification/Trust.thy ===== *)
theory Trust
  imports RailFields
begin

text \<open>
  The data of \<open>trust/verifier.py\<close>: mandates, signed payment requests, authentication evidence and
  integrity receipts, the checks of their constructors and the bytes that are signed and digested.
  A constructor takes its keyword arguments as a payload of values; an argument whose only check is
  an exact class comes typed, with \<open>None\<close> for an object of any other class.
\<close>

section \<open>Checks\<close>

definition trust_text :: "string \<Rightarrow> pyval \<Rightarrow> string res" where
  "trust_text = rail_text"

definition trust_uuid_text :: "string \<Rightarrow> pyval \<Rightarrow> string res" where
  "trust_uuid_text = rail_uuid_text"

text \<open>\<open>value == ""\<close>\<close>

fun equals_empty :: "pyval \<Rightarrow> bool" where
  "equals_empty (PStr s) = (s = [])"
| "equals_empty (PEnum True v) = equals_empty v"
| "equals_empty (PSub _ v) = equals_empty v"
| "equals_empty _ = False"

definition trust_digest :: "string \<Rightarrow> pyval \<Rightarrow> bool \<Rightarrow> string res" where
  "trust_digest l v allow_empty =
     (if allow_empty \<and> equals_empty v then Inr [] else digest_text l v)"

fun trust_utc :: "string \<Rightarrow> pyval \<Rightarrow> datetime res" where
  "trust_utc l (PDt d) = (if dt_tz d \<noteq> Some UTC then Inl (ValueError (l @ '' must be an exact UTC datetime''))
     else Inr \<lparr>dt_local = dt_local d, dt_tz = Some UTC, dt_fold = dt_fold d\<rparr>)"
| "trust_utc l _ = Inl (ValueError (l @ '' must be an exact UTC datetime''))"

definition trust_exponents :: "(string \<times> int) list" where
  "trust_exponents = [(''EUR'', 2), (''JPY'', 0), (''KWD'', 3), (''USD'', 2)]"

fun trust_money :: "string \<Rightarrow> pyval \<Rightarrow> string \<Rightarrow> pydec res" where
  "trust_money l (PDec a) currency =
     (if \<not> dfinite a \<or> dec_le a dec_zero then Inl (ValueError (l @ '' must be finite and positive''))
      else case map_of trust_exponents currency of
        None \<Rightarrow> Inl (ValueError (''unsupported currency: '' @ currency))
      | Some e \<Rightarrow>
          bindr (rethrow (ValueError (l @ '' cannot be represented in '' @ currency)) (quantize a (- e))) (\<lambda>q.
          if dec_le q dec_zero then Inl (ValueError (l @ '' must be finite and positive''))
          else if a \<noteq> q then Inl (ValueError (l @ '' must be canonically quantized for '' @ currency))
          else Inr a))"
| "trust_money l _ currency = Inl (TypeError (l @ '' must be an exact Decimal''))"

definition timestamp_text :: "datetime \<Rightarrow> string" where
  "timestamp_text d = iso_local (dt_local d) @ ''Z''"

definition canonical_bytes :: "string \<Rightarrow> string list list \<Rightarrow> string" where
  "canonical_bytes domain values = json_rows ([''domain'', domain] # values)"

text \<open>A scope is a sorted tuple of different texts.\<close>

fun trust_scope :: "string \<Rightarrow> pyval \<Rightarrow> string list res" where
  "trust_scope l (PTuple xs) =
     (if xs = [] then Inl (TypeError (l @ '' must be a non-empty exact tuple''))
      else bindr (mapr (trust_text l) xs) (\<lambda>checked.
        if \<not> distinct checked \<or> checked \<noteq> sort checked
        then Inl (ValueError (l @ '' must be unique and sorted'')) else Inr checked))"
| "trust_scope l _ = Inl (TypeError (l @ '' must be a non-empty exact tuple''))"

section \<open>Vocabularies\<close>

datatype auth_requirement = NoAuthentication | StepUp

fun requirement_value :: "auth_requirement \<Rightarrow> string" where
  "requirement_value NoAuthentication = ''none''"
| "requirement_value StepUp = ''step_up''"

datatype auth_outcome = StepUpVerified

datatype receipt_outcome =
    RejectedReceipt | PreviewReceipt | VerifiedReceipt | ApproveReceipt | ChallengeReceipt | DeclineReceipt

fun outcome_value :: "receipt_outcome \<Rightarrow> string" where
  "outcome_value RejectedReceipt = ''rejected''"
| "outcome_value PreviewReceipt = ''preview''"
| "outcome_value VerifiedReceipt = ''verified''"
| "outcome_value ApproveReceipt = ''approve''"
| "outcome_value ChallengeReceipt = ''challenge''"
| "outcome_value DeclineReceipt = ''decline''"

text \<open>\<open>ReceiptOutcome(text)\<close>\<close>

definition outcome_of :: "string \<Rightarrow> receipt_outcome res" where
  "outcome_of t = (case map_of (map (\<lambda>o'. (outcome_value o', o'))
       [RejectedReceipt, PreviewReceipt, VerifiedReceipt, ApproveReceipt, ChallengeReceipt, DeclineReceipt]) t of
       None \<Rightarrow> Inl (ValueError ''not a valid ReceiptOutcome'') | Some o' \<Rightarrow> Inr o')"

definition final_outcomes :: "receipt_outcome list" where
  "final_outcomes = [VerifiedReceipt, ApproveReceipt, ChallengeReceipt, DeclineReceipt]"

section \<open>Arguments\<close>

definition arg :: "payload \<Rightarrow> string \<Rightarrow> pyval res" where
  "arg args k = (case map_of args k of
       None \<Rightarrow> Inl (TypeError (''missing required argument: '' @ k)) | Some v \<Rightarrow> Inr v)"

definition text_arg :: "payload \<Rightarrow> string \<Rightarrow> string res" where
  "text_arg args k = bindr (arg args k) (trust_text k)"

definition uuid_arg :: "payload \<Rightarrow> string \<Rightarrow> string res" where
  "uuid_arg args k = bindr (arg args k) (trust_uuid_text k)"

definition digest_arg :: "payload \<Rightarrow> string \<Rightarrow> bool \<Rightarrow> string res" where
  "digest_arg args k allow_empty = bindr (arg args k) (\<lambda>v. trust_digest k v allow_empty)"

definition utc_arg :: "payload \<Rightarrow> string \<Rightarrow> datetime res" where
  "utc_arg args k = bindr (arg args k) (trust_utc k)"

definition scope_arg :: "payload \<Rightarrow> string \<Rightarrow> string list res" where
  "scope_arg args k = bindr (arg args k) (trust_scope k)"

definition money_arg :: "payload \<Rightarrow> string \<Rightarrow> string \<Rightarrow> pydec res" where
  "money_arg args k currency = bindr (arg args k) (\<lambda>v. trust_money k v currency)"

section \<open>Authentication evidence\<close>

record auth_evidence =
  ae_evidence_id :: string
  ae_agent_id :: string
  ae_user_ref :: string
  ae_mandate_id :: string
  ae_nonce :: string
  ae_payment_intent_hash :: string
  ae_request_id :: string
  ae_outcome :: auth_outcome
  ae_issued_at :: datetime
  ae_expires_at :: datetime

definition new_evidence :: "payload \<Rightarrow> auth_outcome option \<Rightarrow> auth_evidence res" where
  "new_evidence args result =
     bindr (text_arg args ''evidence_id'') (\<lambda>evidence_id.
     bindr (text_arg args ''agent_id'') (\<lambda>agent_id.
     bindr (text_arg args ''user_ref'') (\<lambda>user_ref.
     bindr (text_arg args ''mandate_id'') (\<lambda>mandate_id.
     bindr (text_arg args ''nonce'') (\<lambda>nonce.
     bindr (digest_arg args ''payment_intent_hash'' False) (\<lambda>intent.
     bindr (text_arg args ''request_id'') (\<lambda>request_id.
     case result of None \<Rightarrow> Inl (TypeError ''outcome must be an exact AuthenticationOutcome'') | Some r \<Rightarrow>
     bindr (utc_arg args ''issued_at'') (\<lambda>issued.
     bindr (utc_arg args ''expires_at'') (\<lambda>expires.
     if instant expires \<le> instant issued
     then Inl (ValueError ''authentication evidence expires_at must be after issued_at'')
     else Inr \<lparr>ae_evidence_id = evidence_id, ae_agent_id = agent_id, ae_user_ref = user_ref,
       ae_mandate_id = mandate_id, ae_nonce = nonce, ae_payment_intent_hash = intent,
       ae_request_id = request_id, ae_outcome = r, ae_issued_at = issued, ae_expires_at = expires\<rparr>)))))))))"

section \<open>Mandates\<close>

record agent_mandate =
  am_mandate_id :: string
  am_version :: int
  am_agent_id :: string
  am_user_ref :: string
  am_user_entity_id :: string
  am_beneficiary_entity_id :: string
  am_consent_ref :: string
  am_merchant_id :: string
  am_payee_id :: string
  am_cart_hash :: string
  am_payment_intent_hash :: string
  am_permitted_categories :: "string list"
  am_permitted_products :: "string list"
  am_credential_id :: string
  am_credential_scope :: string
  am_required_authentication :: auth_requirement
  am_max_amount :: pydec
  am_currency :: string
  am_issued_at :: datetime
  am_expires_at :: datetime

fun mandate_version :: "pyval \<Rightarrow> int res" where
  "mandate_version (PInt n) = (if n \<le> 0 then Inl (TypeError ''version must be a positive exact integer'') else Inr n)"
| "mandate_version _ = Inl (TypeError ''version must be a positive exact integer'')"

definition new_mandate :: "payload \<Rightarrow> auth_requirement option \<Rightarrow> agent_mandate res" where
  "new_mandate args requirement =
     bindr (text_arg args ''mandate_id'') (\<lambda>mandate_id.
     bindr (bindr (arg args ''version'') mandate_version) (\<lambda>version.
     bindr (text_arg args ''agent_id'') (\<lambda>agent_id.
     bindr (text_arg args ''user_ref'') (\<lambda>user_ref.
     bindr (uuid_arg args ''user_entity_id'') (\<lambda>user_entity.
     bindr (uuid_arg args ''beneficiary_entity_id'') (\<lambda>beneficiary.
     bindr (text_arg args ''consent_ref'') (\<lambda>consent.
     bindr (text_arg args ''merchant_id'') (\<lambda>merchant.
     bindr (text_arg args ''payee_id'') (\<lambda>payee.
     bindr (digest_arg args ''cart_hash'' False) (\<lambda>cart.
     bindr (digest_arg args ''payment_intent_hash'' False) (\<lambda>intent.
     bindr (scope_arg args ''permitted_categories'') (\<lambda>categories.
     bindr (scope_arg args ''permitted_products'') (\<lambda>products.
     bindr (text_arg args ''credential_id'') (\<lambda>credential.
     bindr (text_arg args ''credential_scope'') (\<lambda>scope.
     case requirement of
       None \<Rightarrow> Inl (TypeError ''required_authentication must be an exact AuthenticationRequirement'')
     | Some required \<Rightarrow>
     bindr (text_arg args ''currency'') (\<lambda>currency.
     bindr (money_arg args ''max_amount'' currency) (\<lambda>max_amount.
     bindr (utc_arg args ''issued_at'') (\<lambda>issued.
     bindr (utc_arg args ''expires_at'') (\<lambda>expires.
     if instant expires \<le> instant issued then Inl (ValueError ''mandate expires_at must be after issued_at'')
     else Inr \<lparr>am_mandate_id = mandate_id, am_version = version, am_agent_id = agent_id,
       am_user_ref = user_ref, am_user_entity_id = user_entity, am_beneficiary_entity_id = beneficiary,
       am_consent_ref = consent, am_merchant_id = merchant, am_payee_id = payee, am_cart_hash = cart,
       am_payment_intent_hash = intent, am_permitted_categories = categories,
       am_permitted_products = products, am_credential_id = credential, am_credential_scope = scope,
       am_required_authentication = required, am_max_amount = max_amount, am_currency = currency,
       am_issued_at = issued, am_expires_at = expires\<rparr>)))))))))))))))))))"

text \<open>\<open>json.dumps\<close> of a tuple of texts, with the default separators.\<close>

fun json_texts_tail :: "string list \<Rightarrow> string" where
  "json_texts_tail [] = '']''"
| "json_texts_tail (x # xs) = '', '' @ json_str x @ json_texts_tail xs"

fun json_texts :: "string list \<Rightarrow> string" where
  "json_texts [] = ''[]''"
| "json_texts (x # xs) = ''['' @ json_str x @ json_texts_tail xs"

definition mandate_bytes :: "agent_mandate \<Rightarrow> string" where
  "mandate_bytes m = canonical_bytes ''apar.agent-mandate.v1''
     [[''mandate_id'', am_mandate_id m], [''version'', int_str (am_version m)],
      [''agent_id'', am_agent_id m], [''user_ref'', am_user_ref m],
      [''user_entity_id'', am_user_entity_id m],
      [''beneficiary_entity_id'', am_beneficiary_entity_id m],
      [''consent_ref'', am_consent_ref m], [''merchant_id'', am_merchant_id m],
      [''payee_id'', am_payee_id m], [''cart_hash'', am_cart_hash m],
      [''payment_intent_hash'', am_payment_intent_hash m],
      [''permitted_categories'', json_texts (am_permitted_categories m)],
      [''permitted_products'', json_texts (am_permitted_products m)],
      [''credential_id'', am_credential_id m], [''credential_scope'', am_credential_scope m],
      [''required_authentication'', requirement_value (am_required_authentication m)],
      [''max_amount'', dec_str (am_max_amount m)], [''currency'', am_currency m],
      [''issued_at'', timestamp_text (am_issued_at m)],
      [''expires_at'', timestamp_text (am_expires_at m)]]"

section \<open>Payment requests\<close>

record payment_request =
  ar_request_id :: string
  ar_payment_id :: string
  ar_agent_id :: string
  ar_key_id :: string
  ar_mandate :: agent_mandate
  ar_amount :: pydec
  ar_currency :: string
  ar_merchant_id :: string
  ar_payee_id :: string
  ar_cart_hash :: string
  ar_payment_intent_hash :: string
  ar_category :: string
  ar_product_id :: string
  ar_credential_id :: string
  ar_credential_scope :: string
  ar_consent_ref :: string
  ar_evidence_ref :: "string option"
  ar_nonce :: string
  ar_created_at :: datetime
  ar_expires_at :: datetime
  ar_prior_receipt_hash :: string
  ar_campaign_id :: string
  ar_trace_id :: string
  ar_actor_id :: string
  ar_counterparty_id :: string
  ar_signature :: string

definition evidence_ref_arg :: "payload \<Rightarrow> agent_mandate \<Rightarrow> string option res" where
  "evidence_ref_arg args m = bindr (arg args ''authentication_evidence_ref'') (\<lambda>v.
     if am_required_authentication m = NoAuthentication
     then if v \<noteq> PNone
          then Inl (ValueError ''authentication_evidence_ref must be None when step-up is not required'')
          else Inr None
     else bindr (trust_text ''authentication_evidence_ref'' v) (\<lambda>s. Inr (Some s)))"

fun exact_bytes :: "string \<Rightarrow> pyval \<Rightarrow> string res" where
  "exact_bytes l (PBytes b) = Inr b"
| "exact_bytes l _ = Inl (TypeError (l @ '' must be exact bytes''))"

definition new_request :: "payload \<Rightarrow> agent_mandate option \<Rightarrow> payment_request res" where
  "new_request args mandate_arg =
     bindr (text_arg args ''request_id'') (\<lambda>request_id.
     bindr (text_arg args ''payment_id'') (\<lambda>payment_id.
     bindr (text_arg args ''agent_id'') (\<lambda>agent_id.
     bindr (text_arg args ''key_id'') (\<lambda>key_id.
     case mandate_arg of None \<Rightarrow> Inl (TypeError ''mandate must be an exact AgentMandate'') | Some mandate \<Rightarrow>
     bindr (text_arg args ''currency'') (\<lambda>currency.
     bindr (money_arg args ''amount'' currency) (\<lambda>amount.
     bindr (text_arg args ''merchant_id'') (\<lambda>merchant.
     bindr (text_arg args ''payee_id'') (\<lambda>payee.
     bindr (digest_arg args ''cart_hash'' False) (\<lambda>cart.
     bindr (digest_arg args ''payment_intent_hash'' False) (\<lambda>intent.
     bindr (text_arg args ''category'') (\<lambda>category.
     bindr (text_arg args ''product_id'') (\<lambda>product.
     bindr (text_arg args ''credential_id'') (\<lambda>credential.
     bindr (text_arg args ''credential_scope'') (\<lambda>scope.
     bindr (text_arg args ''consent_ref'') (\<lambda>consent.
     bindr (evidence_ref_arg args mandate) (\<lambda>evidence.
     bindr (text_arg args ''nonce'') (\<lambda>nonce.
     bindr (utc_arg args ''created_at'') (\<lambda>created.
     bindr (utc_arg args ''expires_at'') (\<lambda>expires.
     if instant expires \<le> instant created then Inl (ValueError ''request expires_at must be after created_at'') else
     bindr (digest_arg args ''prior_receipt_hash'' True) (\<lambda>prior.
     bindr (uuid_arg args ''campaign_id'') (\<lambda>campaign.
     bindr (uuid_arg args ''trace_id'') (\<lambda>trace.
     bindr (uuid_arg args ''actor_id'') (\<lambda>actor.
     bindr (uuid_arg args ''counterparty_id'') (\<lambda>counterparty.
     bindr (bindr (arg args ''signature'') (exact_bytes ''signature'')) (\<lambda>signature.
     Inr \<lparr>ar_request_id = request_id, ar_payment_id = payment_id, ar_agent_id = agent_id,
       ar_key_id = key_id, ar_mandate = mandate, ar_amount = amount, ar_currency = currency,
       ar_merchant_id = merchant, ar_payee_id = payee, ar_cart_hash = cart,
       ar_payment_intent_hash = intent, ar_category = category, ar_product_id = product,
       ar_credential_id = credential, ar_credential_scope = scope, ar_consent_ref = consent,
       ar_evidence_ref = evidence, ar_nonce = nonce, ar_created_at = created,
       ar_expires_at = expires, ar_prior_receipt_hash = prior, ar_campaign_id = campaign,
       ar_trace_id = trace, ar_actor_id = actor, ar_counterparty_id = counterparty,
       ar_signature = signature\<rparr>)))))))))))))))))))))))))"

definition evidence_text :: "payment_request \<Rightarrow> string" where
  "evidence_text r = (case ar_evidence_ref r of None \<Rightarrow> [] | Some s \<Rightarrow> s)"

definition signing_bytes :: "payment_request \<Rightarrow> string" where
  "signing_bytes r = canonical_bytes ''apar.agent-payment-request.v1''
     [[''request_id'', ar_request_id r], [''payment_id'', ar_payment_id r],
      [''agent_id'', ar_agent_id r], [''key_id'', ar_key_id r],
      [''mandate_hash'', sha256_hex (mandate_bytes (ar_mandate r))],
      [''amount'', dec_str (ar_amount r)], [''currency'', ar_currency r],
      [''merchant_id'', ar_merchant_id r], [''payee_id'', ar_payee_id r],
      [''cart_hash'', ar_cart_hash r], [''payment_intent_hash'', ar_payment_intent_hash r],
      [''category'', ar_category r], [''product_id'', ar_product_id r],
      [''credential_id'', ar_credential_id r], [''credential_scope'', ar_credential_scope r],
      [''consent_ref'', ar_consent_ref r], [''authentication_evidence_ref'', evidence_text r],
      [''nonce'', ar_nonce r], [''created_at'', timestamp_text (ar_created_at r)],
      [''expires_at'', timestamp_text (ar_expires_at r)],
      [''prior_receipt_hash'', ar_prior_receipt_hash r], [''campaign_id'', ar_campaign_id r],
      [''trace_id'', ar_trace_id r], [''actor_id'', ar_actor_id r],
      [''counterparty_id'', ar_counterparty_id r]]"

section \<open>Receipts\<close>

record receipt =
  ir_request_id :: string
  ir_allowed :: bool
  ir_reason_code :: "reason_code option"
  ir_receipt_hash :: string
  ir_previous_receipt_hash :: string
  ir_request_hash :: string
  ir_signature_hash :: string
  ir_outcome :: receipt_outcome

definition new_receipt ::
  "string \<Rightarrow> bool \<Rightarrow> reason_code option \<Rightarrow> string \<Rightarrow> string \<Rightarrow> string \<Rightarrow> string \<Rightarrow> receipt_outcome \<Rightarrow>
    receipt res" where
  "new_receipt request_id allowed reason receipt_hash previous request_hash signature_hash outcome =
     bindr (trust_text ''request_id'' (PStr request_id)) (\<lambda>_.
     bindr (ensure (allowed \<noteq> (reason \<noteq> None))
       (ValueError ''allowed and reason_code are inconsistent'')) (\<lambda>_.
     bindr (trust_digest ''receipt_hash'' (PStr receipt_hash) False) (\<lambda>_.
     bindr (trust_digest ''previous_receipt_hash'' (PStr previous) True) (\<lambda>_.
     bindr (trust_digest ''request_hash'' (PStr request_hash) False) (\<lambda>_.
     bindr (trust_digest ''signature_hash'' (PStr signature_hash) False) (\<lambda>_.
     bindr (ensure (\<not> (allowed \<and> outcome = RejectedReceipt))
       (ValueError ''allowed receipt cannot have rejected outcome'')) (\<lambda>_.
     bindr (ensure (\<not> (\<not> allowed \<and> outcome \<noteq> RejectedReceipt))
       (ValueError ''rejected receipt must have rejected outcome'')) (\<lambda>_.
     Inr \<lparr>ir_request_id = request_id, ir_allowed = allowed, ir_reason_code = reason,
       ir_receipt_hash = receipt_hash, ir_previous_receipt_hash = previous,
       ir_request_hash = request_hash, ir_signature_hash = signature_hash, ir_outcome = outcome\<rparr>))))))))"

definition receipt_digest ::
  "string \<Rightarrow> string \<Rightarrow> string \<Rightarrow> string \<Rightarrow> string \<Rightarrow> string \<Rightarrow> receipt_outcome \<Rightarrow> string" where
  "receipt_digest agent_id nonce evidence_ref request_hash signature_hash previous outcome =
     sha256_hex (canonical_bytes ''apar.synthetic-integrity-receipt.v1''
       [[''agent_id'', agent_id], [''nonce'', nonce], [''authentication_evidence_ref'', evidence_ref],
        [''request_hash'', request_hash], [''signature_hash'', signature_hash],
        [''previous_receipt_hash'', previous], [''outcome'', outcome_value outcome]])"

definition owned_receipt :: "receipt \<Rightarrow> receipt res" where
  "owned_receipt r = new_receipt (ir_request_id r) (ir_allowed r) (ir_reason_code r) (ir_receipt_hash r)
     (ir_previous_receipt_hash r) (ir_request_hash r) (ir_signature_hash r) (ir_outcome r)"

text \<open>\<open>TrustVerifier._failure\<close> and \<open>TrustVerifier._allowed_receipt\<close>\<close>

definition failure_receipt :: "payment_request \<Rightarrow> reason_code \<Rightarrow> receipt res" where
  "failure_receipt r reason =
     (let request_hash = sha256_hex (signing_bytes r);
          signature_hash = sha256_hex (ar_signature r);
          failure_hash = sha256_hex (canonical_bytes ''apar.synthetic-integrity-failure.v1''
            [[''request_id'', ar_request_id r], [''request_hash'', request_hash],
             [''signature_hash'', signature_hash], [''reason_code'', reason_value reason],
             [''prior_receipt_hash'', ar_prior_receipt_hash r],
             [''outcome'', outcome_value RejectedReceipt]])
      in new_receipt (ar_request_id r) False (Some reason) failure_hash (ar_prior_receipt_hash r)
           request_hash signature_hash RejectedReceipt)"

definition allowed_receipt :: "payment_request \<Rightarrow> string \<Rightarrow> receipt_outcome \<Rightarrow> receipt res" where
  "allowed_receipt r previous outcome =
     (let request_hash = sha256_hex (signing_bytes r);
          signature_hash = sha256_hex (ar_signature r)
      in new_receipt (ar_request_id r) True None
           (receipt_digest (ar_agent_id r) (ar_nonce r) (evidence_text r) request_hash signature_hash
              previous outcome)
           previous request_hash signature_hash outcome)"

end
