(* ===== verification/TrustVerifier.thy ===== *)
theory TrustVerifier
  imports Trust
begin

text \<open>
  \<open>TrustVerifier\<close> of \<open>trust/verifier.py\<close>: the registries it is built from, \<open>preview\<close> with its
  ordered reasons, the two-phase commit, the state it dumps and loads. Ed25519 is the parameter
  \<open>ed25519\<close>: whether 32 bytes are a public key and whether a signature verifies. Objects the code
  compares by identity carry a number from a counter of the verifier, so plans and previews are those of
  one verifier; that a plan of another one is refused cannot be stated here.
\<close>

section \<open>State\<close>

record ed25519 =
  valid_key :: "string \<Rightarrow> bool"
  ed_verify :: "string \<Rightarrow> string \<Rightarrow> string \<Rightarrow> bool"

text \<open>\<open>_StateRecord\<close>\<close>

record state_record =
  sr_agent_id :: string
  sr_nonce :: string
  sr_evidence_ref :: string
  sr_previous :: string
  sr_request_hash :: string
  sr_signature_hash :: string
  sr_outcome :: string
  sr_receipt :: string

record commit_plan =
  cp_object :: nat
  cp_receipt :: receipt

record pending_commit =
  pc_capability :: commit_plan
  pc_receipt :: receipt
  pc_record :: state_record

record trust_verifier =
  tv_keys :: "((string \<times> string) \<times> string) list"
  tv_mandates :: "(string \<times> agent_mandate) list"
  tv_evidence :: "(string \<times> auth_evidence) list"
  tv_records :: "state_record list"
  tv_pending_preview :: "((nat \<times> receipt) \<times> datetime) option"
  tv_pending_commit :: "pending_commit option"
  tv_objects :: nat

type_synonym 'r trusting = "(trust_verifier, 'r) act"

definition tv_agent_ids :: "trust_verifier \<Rightarrow> string set" where
  "tv_agent_ids V = fst ` fst ` set (tv_keys V)"

section \<open>Construction\<close>

fun identity_pair :: "pyval \<Rightarrow> (string \<times> string) res" where
  "identity_pair (PTuple [a, k]) =
     bindr (trust_text ''registered agent_id'' a) (\<lambda>agent_id.
     bindr (trust_text ''registered key_id'' k) (\<lambda>key_id. Inr (agent_id, key_id)))"
| "identity_pair _ = Inl (TypeError ''registered agent identity must be an exact pair'')"

fun public_key :: "ed25519 \<Rightarrow> pyval \<Rightarrow> string res" where
  "public_key P (PBytes b) =
     (if length b \<noteq> 32 then Inl (ValueError ''registered key must be a 32-byte Ed25519 public key'')
      else if \<not> valid_key P b then Inl (ValueError ''registered key must be a valid Ed25519 public key'')
      else Inr b)"
| "public_key P _ = Inl (ValueError ''registered key must be a 32-byte Ed25519 public key'')"

definition register_agents ::
  "ed25519 \<Rightarrow> (pyval \<times> pyval) list \<Rightarrow> ((string \<times> string) \<times> string) list res" where
  "register_agents P = foldlr (\<lambda>keys (identity, raw_key).
     bindr (identity_pair identity) (\<lambda>i.
     bindr (public_key P raw_key) (\<lambda>key. Inr (AList.update i key keys)))) []"

definition register_mandates ::
  "(pyval \<times> agent_mandate option) list \<Rightarrow> (string \<times> agent_mandate) list res" where
  "register_mandates = foldlr (\<lambda>approved (mandate_id, mandate).
     bindr (trust_text ''mandate mapping key'' mandate_id) (\<lambda>key.
     case mandate of
       None \<Rightarrow> Inl (TypeError ''mandates must contain exact AgentMandate values keyed by ID'')
     | Some m \<Rightarrow> if am_mandate_id m \<noteq> key
         then Inl (TypeError ''mandates must contain exact AgentMandate values keyed by ID'')
         else Inr (AList.update key m approved))) []"

definition register_evidence ::
  "(pyval \<times> auth_evidence option) list \<Rightarrow> (string \<times> auth_evidence) list res" where
  "register_evidence = foldlr (\<lambda>registry (evidence_id, evidence).
     bindr (trust_text ''authentication evidence mapping key'' evidence_id) (\<lambda>key.
     case evidence of
       None \<Rightarrow> Inl (TypeError
         ''authentication_evidence must contain exact AuthenticationEvidence values keyed by ID'')
     | Some e \<Rightarrow> if ae_evidence_id e \<noteq> key
         then Inl (TypeError
           ''authentication_evidence must contain exact AuthenticationEvidence values keyed by ID'')
         else Inr (AList.update key e registry))) []"

definition new_verifier ::
  "ed25519 \<Rightarrow> (pyval \<times> pyval) list \<Rightarrow> (pyval \<times> agent_mandate option) list \<Rightarrow>
    (pyval \<times> auth_evidence option) list \<Rightarrow> trust_verifier res" where
  "new_verifier P agents mandates evidence =
     bindr (register_agents P agents) (\<lambda>keys.
     bindr (register_mandates mandates) (\<lambda>approved.
     bindr (register_evidence evidence) (\<lambda>registry.
     Inr \<lparr>tv_keys = keys, tv_mandates = approved, tv_evidence = registry, tv_records = [],
       tv_pending_preview = None, tv_pending_commit = None, tv_objects = 0\<rparr>)))"

section \<open>Helpers\<close>

definition revoke_ephemeral :: "unit trusting" where
  "revoke_ephemeral V = (Inr (), V\<lparr>tv_pending_preview := None, tv_pending_commit := None\<rparr>)"

definition take_pending_preview :: "((nat \<times> receipt) \<times> datetime) option trusting" where
  "take_pending_preview V =
     (Inr (tv_pending_preview V), V\<lparr>tv_pending_preview := None, tv_pending_commit := None\<rparr>)"

text \<open>\<open>_last_receipt\<close>: the scan runs from the newest record.\<close>

definition last_receipt :: "state_record list \<Rightarrow> string \<Rightarrow> string" where
  "last_receipt records agent_id =
     (case find (\<lambda>s. sr_agent_id s = agent_id) (rev records) of None \<Rightarrow> [] | Some s \<Rightarrow> sr_receipt s)"

definition nonce_used :: "state_record list \<Rightarrow> payment_request \<Rightarrow> bool" where
  "nonce_used records r \<longleftrightarrow> list_ex (\<lambda>s. sr_agent_id s = ar_agent_id r \<and> sr_nonce s = ar_nonce r) records"

text \<open>A new object.\<close>

definition issue :: "'r \<Rightarrow> (nat \<times> 'r) trusting" where
  "issue x V = (Inr (tv_objects V, x), V\<lparr>tv_objects := tv_objects V + 1\<rparr>)"

definition reject :: "payment_request \<Rightarrow> reason_code \<Rightarrow> (nat \<times> receipt) trusting" where
  "reject r reason = bindm (liftr (failure_receipt r reason)) issue"

text \<open>The reason of the first check that fires.\<close>

fun first_reason :: "(bool \<times> reason_code) list \<Rightarrow> reason_code option" where
  "first_reason [] = None"
| "first_reason ((b, reason) # checks) = (if b then Some reason else first_reason checks)"

section \<open>Preview\<close>

definition binding_checks :: "agent_mandate \<Rightarrow> payment_request \<Rightarrow> datetime \<Rightarrow> (bool \<times> reason_code) list" where
  "binding_checks approved r now =
     [(ar_actor_id r \<noteq> am_user_entity_id approved \<or>
         ar_counterparty_id r \<noteq> am_beneficiary_entity_id approved, AUTHORITY_IDENTITY_MISMATCH),
      (dec_less (am_max_amount approved) (ar_amount r), AMOUNT_LIMIT_EXCEEDED),
      (ar_currency r \<noteq> am_currency approved, CURRENCY_MISMATCH),
      (ar_merchant_id r \<noteq> am_merchant_id approved, MERCHANT_BINDING_MISMATCH),
      (ar_payee_id r \<noteq> am_payee_id approved, PAYEE_BINDING_MISMATCH),
      (ar_category r \<notin> set (am_permitted_categories approved), CATEGORY_SCOPE_VIOLATION),
      (ar_product_id r \<notin> set (am_permitted_products approved), PRODUCT_SCOPE_VIOLATION),
      (ar_cart_hash r \<noteq> am_cart_hash approved, CART_HASH_MISMATCH),
      (ar_payment_intent_hash r \<noteq> am_payment_intent_hash approved, PAYMENT_INTENT_HASH_MISMATCH),
      (ar_credential_id r \<noteq> am_credential_id approved, CREDENTIAL_BINDING_MISMATCH),
      (ar_credential_scope r \<noteq> am_credential_scope approved, TOKEN_SCOPE_VIOLATION),
      (ar_consent_ref r \<noteq> am_consent_ref approved, CONSENT_BINDING_MISMATCH),
      (instant (ar_created_at r) < instant (am_issued_at approved) \<or>
         instant (am_expires_at approved) < instant (ar_expires_at r), MANDATE_TIME_SCOPE_VIOLATION),
      (instant now < instant (ar_created_at r) \<or> instant now < instant (am_issued_at approved) \<or>
         instant (ar_expires_at r) \<le> instant now \<or> instant (am_expires_at approved) \<le> instant now,
         MANDATE_EXPIRED)]"

definition chain_checks :: "trust_verifier \<Rightarrow> payment_request \<Rightarrow> (bool \<times> reason_code) list" where
  "chain_checks V r =
     [(nonce_used (tv_records V) r, NONCE_REPLAY),
      (ar_prior_receipt_hash r \<noteq> last_receipt (tv_records V) (ar_agent_id r), RECEIPT_CHAIN_BROKEN)]"

text \<open>Trusted step-up evidence, looked up by the signed reference.\<close>

definition evidence_reason ::
  "trust_verifier \<Rightarrow> agent_mandate \<Rightarrow> payment_request \<Rightarrow> datetime \<Rightarrow> string \<Rightarrow> reason_code option" where
  "evidence_reason V approved r now ref =
     (if list_ex (\<lambda>s. sr_evidence_ref s \<noteq> [] \<and> sr_evidence_ref s = ref) (tv_records V)
      then Some AUTHENTICATION_EVIDENCE_REPLAY
      else case map_of (tv_evidence V) ref of
        None \<Rightarrow> Some AUTHENTICATION_EVIDENCE_MISSING
      | Some e \<Rightarrow> first_reason
          [(ae_agent_id e \<noteq> ar_agent_id r \<or> ae_user_ref e \<noteq> am_user_ref approved \<or>
              ae_mandate_id e \<noteq> am_mandate_id approved \<or> ae_nonce e \<noteq> ar_nonce r \<or>
              ae_payment_intent_hash e \<noteq> ar_payment_intent_hash r \<or>
              ae_request_id e \<noteq> ar_request_id r \<or> ae_outcome e \<noteq> StepUpVerified,
              AUTHENTICATION_EVIDENCE_MISMATCH),
           (instant now < instant (ae_issued_at e) \<or> instant (ae_expires_at e) \<le> instant now,
              AUTHENTICATION_EVIDENCE_EXPIRED)])"

definition step_up_reason ::
  "trust_verifier \<Rightarrow> agent_mandate \<Rightarrow> payment_request \<Rightarrow> datetime \<Rightarrow> reason_code option res" where
  "step_up_reason V approved r now =
     (if am_required_authentication approved = StepUp
      then case ar_evidence_ref r of
        None \<Rightarrow> Inl (AssertionError [])
      | Some ref \<Rightarrow> Inr (evidence_reason V approved r now ref)
      else Inr None)"

definition preview_reason ::
  "ed25519 \<Rightarrow> trust_verifier \<Rightarrow> payment_request \<Rightarrow> datetime \<Rightarrow> reason_code option res" where
  "preview_reason P V r now =
     (case map_of (tv_keys V) (ar_agent_id r, ar_key_id r) of
        None \<Rightarrow> Inr (Some AGENT_IDENTITY_MISMATCH)
      | Some key \<Rightarrow>
          if \<not> ed_verify P key (ar_signature r) (signing_bytes r) then Inr (Some SIGNATURE_INVALID)
          else case map_of (tv_mandates V) (am_mandate_id (ar_mandate r)) of
            None \<Rightarrow> Inr (Some MANDATE_SCOPE_VIOLATION)
          | Some approved \<Rightarrow>
              if mandate_bytes (ar_mandate r) \<noteq> mandate_bytes approved \<or>
                am_agent_id (ar_mandate r) \<noteq> ar_agent_id r
              then Inr (Some MANDATE_SCOPE_VIOLATION)
              else case first_reason (binding_checks approved r now @ chain_checks V r) of
                Some reason \<Rightarrow> Inr (Some reason)
              | None \<Rightarrow> step_up_reason V approved r now)"

definition trust_preview :: "ed25519 \<Rightarrow> payment_request \<Rightarrow> datetime \<Rightarrow> (nat \<times> receipt) trusting" where
  "trust_preview P r now =
     bindm revoke_ephemeral (\<lambda>_.
     bindm (liftr (trust_utc ''now'' (PDt now))) (\<lambda>checked_now.
     bindm (\<lambda>V. (preview_reason P V r checked_now, V)) (\<lambda>reason.
     case reason of
       Some code \<Rightarrow> reject r code
     | None \<Rightarrow>
         bindm (\<lambda>V. (allowed_receipt r (last_receipt (tv_records V) (ar_agent_id r)) PreviewReceipt, V)) (\<lambda>p.
         bindm (issue p) (\<lambda>preview V.
           (Inr preview, V\<lparr>tv_pending_preview := Some (preview, checked_now), tv_pending_commit := None\<rparr>))))))"

section \<open>Commit\<close>

datatype prepared = Rejection "nat \<times> receipt" | Plan commit_plan

text \<open>The checks of \<open>_prepare_commit\<close> after the preview has matched.\<close>

definition prepare_evidence_expired :: "trust_verifier \<Rightarrow> payment_request \<Rightarrow> datetime \<Rightarrow> bool res" where
  "prepare_evidence_expired V r now =
     (if am_required_authentication (ar_mandate r) = StepUp
      then case ar_evidence_ref r of
        None \<Rightarrow> Inl (AssertionError [])
      | Some ref \<Rightarrow> Inr (case map_of (tv_evidence V) ref of
          None \<Rightarrow> False
        | Some e \<Rightarrow> instant now < instant (ae_issued_at e) \<or> instant (ae_expires_at e) \<le> instant now)
      else Inr False)"

definition prepare_checks :: "trust_verifier \<Rightarrow> payment_request \<Rightarrow> datetime \<Rightarrow> (bool \<times> reason_code) list" where
  "prepare_checks V r now =
     [(instant now < instant (ar_created_at r) \<or> instant now < instant (am_issued_at (ar_mandate r)) \<or>
         instant (ar_expires_at r) \<le> instant now \<or> instant (am_expires_at (ar_mandate r)) \<le> instant now,
         MANDATE_EXPIRED)] @ chain_checks V r"

definition prepare_reason ::
  "trust_verifier \<Rightarrow> payment_request \<Rightarrow> receipt \<Rightarrow> datetime \<Rightarrow> ((nat \<times> receipt) \<times> datetime) option \<Rightarrow>
    reason_code option res" where
  "prepare_reason V r preview now issued_preview =
     bindr (allowed_receipt r (last_receipt (tv_records V) (ar_agent_id r)) PreviewReceipt) (\<lambda>expected.
     case issued_preview of
       None \<Rightarrow> Inr (Some EXECUTION_RECEIPT_MISMATCH)
     | Some ((_, issued), since) \<Rightarrow>
         if preview \<noteq> expected \<or> issued \<noteq> preview then Inr (Some EXECUTION_RECEIPT_MISMATCH)
         else if instant now < instant since then Inr (Some EXECUTION_RECEIPT_MISMATCH)
         else bindr (prepare_evidence_expired V r now) (\<lambda>expired.
           Inr (first_reason ((expired, AUTHENTICATION_EVIDENCE_EXPIRED) # prepare_checks V r now))))"

definition new_state_record :: "payment_request \<Rightarrow> receipt \<Rightarrow> state_record" where
  "new_state_record r final = \<lparr>sr_agent_id = ar_agent_id r, sr_nonce = ar_nonce r,
     sr_evidence_ref = evidence_text r, sr_previous = ir_previous_receipt_hash final,
     sr_request_hash = ir_request_hash final, sr_signature_hash = ir_signature_hash final,
     sr_outcome = outcome_value (ir_outcome final), sr_receipt = ir_receipt_hash final\<rparr>"

definition plan_commit :: "payment_request \<Rightarrow> receipt_outcome \<Rightarrow> prepared trusting" where
  "plan_commit r outcome =
     bindm (\<lambda>V. (allowed_receipt r (last_receipt (tv_records V) (ar_agent_id r)) outcome, V)) (\<lambda>final.
     bindm (liftr (owned_receipt final)) (\<lambda>owned.
     bindm (issue owned) (\<lambda>(i, p) V.
       let plan = \<lparr>cp_object = i, cp_receipt = p\<rparr> in
       (Inr (Plan plan), V\<lparr>tv_pending_commit :=
          Some \<lparr>pc_capability = plan, pc_receipt = final, pc_record = new_state_record r final\<rparr>\<rparr>))))"

definition trust_prepare ::
  "payment_request \<Rightarrow> receipt \<Rightarrow> receipt_outcome \<Rightarrow> datetime \<Rightarrow>
    ((nat \<times> receipt) \<times> datetime) option \<Rightarrow> prepared trusting" where
  "trust_prepare r preview outcome now issued_preview =
     bindm (liftr (ensure (outcome \<in> set final_outcomes)
       (TypeError ''outcome must be an exact final ReceiptOutcome''))) (\<lambda>_.
     bindm (liftr (trust_utc ''now'' (PDt now))) (\<lambda>checked_now.
     bindm (\<lambda>V. (prepare_reason V r preview checked_now issued_preview, V)) (\<lambda>reason.
     case reason of
       Some code \<Rightarrow> bindm (reject r code) (\<lambda>p. ret (Rejection p))
     | None \<Rightarrow> plan_commit r outcome)))"

definition prepare_commit ::
  "payment_request \<Rightarrow> receipt \<Rightarrow> receipt_outcome \<Rightarrow> datetime \<Rightarrow> prepared trusting" where
  "prepare_commit r preview outcome now =
     bindm take_pending_preview (trust_prepare r preview outcome now)"

definition apply_pending :: "pending_commit \<Rightarrow> receipt trusting" where
  "apply_pending p V =
     (Inr (pc_receipt p), V\<lparr>tv_records := tv_records V @ [pc_record p], tv_pending_commit := None\<rparr>)"

definition unissued_plan :: exn where
  "unissued_plan = ValueError ''commit plan was not issued or was already consumed''"

definition apply_commit :: "commit_plan \<Rightarrow> receipt trusting" where
  "apply_commit plan V = (case tv_pending_commit V of
       Some p \<Rightarrow>
         (if cp_object (pc_capability p) = cp_object plan
          then bindm revoke_ephemeral (\<lambda>_. apply_pending p) V
          else bindm revoke_ephemeral (\<lambda>_. raise unissued_plan) V)
     | None \<Rightarrow> bindm revoke_ephemeral (\<lambda>_. raise unissued_plan) V)"

definition trust_commit ::
  "payment_request \<Rightarrow> receipt \<Rightarrow> receipt_outcome \<Rightarrow> datetime \<Rightarrow> receipt trusting" where
  "trust_commit r preview outcome now =
     bindm (prepare_commit r preview outcome now) (\<lambda>q V. case q of
       Rejection (_, p) \<Rightarrow> (Inr p, V)
     | Plan plan \<Rightarrow> (case tv_pending_commit V of
         Some p \<Rightarrow> if cp_object (pc_capability p) = cp_object plan then apply_pending p V
           else (Inl (AssertionError []), V)
       | None \<Rightarrow> (Inl (AssertionError []), V)))"

definition trust_verify :: "ed25519 \<Rightarrow> payment_request \<Rightarrow> datetime \<Rightarrow> receipt trusting" where
  "trust_verify P r now =
     bindm (trust_preview P r now) (\<lambda>(_, preview).
     if \<not> ir_allowed preview then ret preview else trust_commit r preview VerifiedReceipt now)"

definition discard_commit :: "commit_plan \<Rightarrow> unit trusting" where
  "discard_commit plan V = (case tv_pending_commit V of
       Some p \<Rightarrow>
         (if cp_object (pc_capability p) = cp_object plan then revoke_ephemeral V
          else bindm revoke_ephemeral (\<lambda>_. raise unissued_plan) V)
     | None \<Rightarrow> bindm revoke_ephemeral (\<lambda>_. raise unissued_plan) V)"

definition discard_preview :: "nat \<times> receipt \<Rightarrow> unit trusting" where
  "discard_preview preview V = (case tv_pending_preview V of
       Some (issued, _) \<Rightarrow>
         (if fst issued = fst preview then revoke_ephemeral V
          else bindm revoke_ephemeral
            (\<lambda>_. raise (ValueError ''preview was not issued or was already consumed'')) V)
     | None \<Rightarrow> bindm revoke_ephemeral
         (\<lambda>_. raise (ValueError ''preview was not issued or was already consumed'')) V)"

section \<open>Dumped state\<close>

definition state_record_value :: "state_record \<Rightarrow> pyval" where
  "state_record_value s = PTuple (map PStr [sr_agent_id s, sr_nonce s, sr_evidence_ref s, sr_previous s,
     sr_request_hash s, sr_signature_hash s, sr_outcome s, sr_receipt s])"

definition state_value :: "state_record list \<Rightarrow> pyval" where
  "state_value records = PMap PyMappingProxy
     [(PStr ''version'', PInt 1), (PStr ''records'', PTuple (map state_record_value records))]"

definition dump_state :: "trust_verifier \<Rightarrow> pyval" where
  "dump_state V = state_value (tv_records V)"

definition projected_state :: "commit_plan \<Rightarrow> pyval trusting" where
  "projected_state plan V = (case tv_pending_commit V of
       Some p \<Rightarrow>
         (if cp_object (pc_capability p) = cp_object plan
          then (Inr (state_value (tv_records V @ [pc_record p])), V)
          else (Inl unissued_plan, V))
     | None \<Rightarrow> (Inl unissued_plan, V))"

text \<open>The loop variables of \<open>load_state\<close>: the nonces, the evidence references, the last receipt of
  each agent and the records read so far.\<close>

record loading =
  ld_nonces :: "(string \<times> string) list"
  ld_evidence_refs :: "string list"
  ld_last :: "(string \<times> string) list"
  ld_records :: "state_record list"

definition load_fields ::
  "trust_verifier \<Rightarrow> pyval \<Rightarrow> pyval \<Rightarrow> pyval \<Rightarrow> pyval \<Rightarrow> pyval \<Rightarrow> pyval \<Rightarrow> pyval \<Rightarrow> pyval \<Rightarrow>
    state_record res" where
  "load_fields V v0 v1 v2 v3 v4 v5 v6 v7 =
     bindr (trust_text ''state agent_id'' v0) (\<lambda>agent_id.
     bindr (ensure (agent_id \<in> tv_agent_ids V)
       (ValueError ''verifier state agent is not registered'')) (\<lambda>_.
     bindr (trust_text ''state nonce'' v1) (\<lambda>nonce.
     bindr (exact_str ''state authentication evidence ref'' v2) (\<lambda>evidence_ref.
     bindr (trust_digest ''state previous receipt'' v3 True) (\<lambda>previous.
     bindr (trust_digest ''state request hash'' v4 False) (\<lambda>request_hash.
     bindr (trust_digest ''state signature hash'' v5 False) (\<lambda>signature_hash.
     bindr (bindr (trust_text ''state outcome'' v6) outcome_of) (\<lambda>outcome.
     bindr (ensure (outcome \<in> set final_outcomes)
       (ValueError ''verifier state outcome is not final'')) (\<lambda>_.
     bindr (trust_digest ''state receipt'' v7 False) (\<lambda>receipt.
     Inr \<lparr>sr_agent_id = agent_id, sr_nonce = nonce, sr_evidence_ref = evidence_ref,
       sr_previous = previous, sr_request_hash = request_hash, sr_signature_hash = signature_hash,
       sr_outcome = outcome_value outcome, sr_receipt = receipt\<rparr>))))))))))"

definition load_record :: "loading \<Rightarrow> state_record \<Rightarrow> loading res" where
  "load_record l s =
     (if (sr_agent_id s, sr_nonce s) \<in> set (ld_nonces l)
      then Inl (ValueError ''verifier state nonce is duplicated'')
      else if sr_evidence_ref s \<noteq> [] \<and> sr_evidence_ref s \<in> set (ld_evidence_refs l)
      then Inl (ValueError ''verifier state authentication evidence is duplicated'')
      else if sr_previous s \<noteq> (case map_of (ld_last l) (sr_agent_id s) of None \<Rightarrow> [] | Some x \<Rightarrow> x)
      then Inl (ValueError ''verifier state receipt chain is broken'')
      else bindr (outcome_of (sr_outcome s)) (\<lambda>outcome.
        if sr_receipt s \<noteq> receipt_digest (sr_agent_id s) (sr_nonce s) (sr_evidence_ref s)
          (sr_request_hash s) (sr_signature_hash s) (sr_previous s) outcome
        then Inl (ValueError ''verifier state receipt is not reproducible'')
        else Inr \<lparr>ld_nonces = (sr_agent_id s, sr_nonce s) # ld_nonces l,
          ld_evidence_refs = (if sr_evidence_ref s \<noteq> [] then sr_evidence_ref s # ld_evidence_refs l
            else ld_evidence_refs l),
          ld_last = AList.update (sr_agent_id s) (sr_receipt s) (ld_last l),
          ld_records = ld_records l @ [s]\<rparr>))"

definition load_step :: "trust_verifier \<Rightarrow> loading \<Rightarrow> pyval \<Rightarrow> loading res" where
  "load_step V l raw = (case raw of
       PTuple [v0, v1, v2, v3, v4, v5, v6, v7] \<Rightarrow>
         bindr (load_fields V v0 v1 v2 v3 v4 v5 v6 v7) (load_record l)
     | _ \<Rightarrow> Inl (ValueError ''verifier state record is malformed''))"

definition loaded_records :: "trust_verifier \<Rightarrow> pyval \<Rightarrow> state_record list res" where
  "loaded_records V value =
     bindr (owned_mapping value) (\<lambda>state.
     bindr (ensure (set (map fst state) = {''version'', ''records''})
       (ValueError ''verifier state fields are invalid'')) (\<lambda>_.
     bindr (dict_get state ''version'') (\<lambda>version.
     bindr (ensure (version = PInt 1) (ValueError ''verifier state version is invalid'')) (\<lambda>_.
     bindr (bindr (dict_get state ''records'') (exact_tuple ''verifier state records'')) (\<lambda>records.
     bindr (foldlr (load_step V) \<lparr>ld_nonces = [], ld_evidence_refs = [], ld_last = [], ld_records = []\<rparr>
       records) (\<lambda>l. Inr (ld_records l)))))))"

definition load_state :: "pyval \<Rightarrow> unit trusting" where
  "load_state value V = (case rethrow TrustVerifierStateError (loaded_records V value) of
       Inl e \<Rightarrow> (Inl e, V)
     | Inr records \<Rightarrow>
         (Inr (), V\<lparr>tv_records := records, tv_pending_preview := None, tv_pending_commit := None\<rparr>))"

end
