(* ===== verification/TrustState.thy ===== *)
theory TrustState
  imports TrustVerifier
begin

text \<open>
  What a valid verifier state is (\<open>valid_records\<close>: a receipt chain per agent, one use of every nonce
  and of every piece of evidence, reproducible receipts), that \<open>load_state\<close> accepts exactly such
  states, and what the constructors of requests and mandates guarantee.
\<close>

section \<open>Valid records\<close>

definition record_ok :: "string set \<Rightarrow> state_record list \<Rightarrow> state_record \<Rightarrow> bool" where
  "record_ok ids rs s \<longleftrightarrow>
     sr_agent_id s \<noteq> [] \<and> sr_agent_id s \<in> ids \<and> sr_nonce s \<noteq> [] \<and>
     (sr_previous s = [] \<or> digest_ok (sr_previous s)) \<and>
     digest_ok (sr_request_hash s) \<and> digest_ok (sr_signature_hash s) \<and>
     (sr_agent_id s, sr_nonce s) \<notin> (\<lambda>q. (sr_agent_id q, sr_nonce q)) ` set rs \<and>
     (sr_evidence_ref s \<noteq> [] \<longrightarrow> sr_evidence_ref s \<notin> sr_evidence_ref ` set rs) \<and>
     sr_previous s = last_receipt rs (sr_agent_id s) \<and>
     (\<exists>result \<in> set final_outcomes. sr_outcome s = outcome_value result \<and>
        sr_receipt s = receipt_digest (sr_agent_id s) (sr_nonce s) (sr_evidence_ref s)
          (sr_request_hash s) (sr_signature_hash s) (sr_previous s) result)"

primrec valid_after :: "string set \<Rightarrow> state_record list \<Rightarrow> state_record list \<Rightarrow> bool" where
  "valid_after ids rs [] = True"
| "valid_after ids rs (s # ss) \<longleftrightarrow> record_ok ids rs s \<and> valid_after ids (rs @ [s]) ss"

definition valid_records :: "string set \<Rightarrow> state_record list \<Rightarrow> bool" where
  "valid_records ids rs \<longleftrightarrow> valid_after ids [] rs"

lemma valid_after_append:
  "valid_after ids rs (xs @ ys) \<longleftrightarrow> valid_after ids rs xs \<and> valid_after ids (rs @ xs) ys"
  by (induction xs arbitrary: rs) auto

lemma valid_records_Nil [simp]: "valid_records ids []"
  by (simp add: valid_records_def)

lemma valid_records_snoc: "valid_records ids (rs @ [s]) \<longleftrightarrow> valid_records ids rs \<and> record_ok ids rs s"
  by (simp add: valid_records_def valid_after_append)

lemma valid_records_distinct:
  "valid_records ids rs \<Longrightarrow> distinct (map (\<lambda>q. (sr_agent_id q, sr_nonce q)) rs) \<and>
    distinct (filter (\<lambda>e. e \<noteq> []) (map sr_evidence_ref rs))"
  by (induction rs rule: rev_induct) (auto simp: valid_records_snoc record_ok_def)

lemma last_receipt_snoc: "last_receipt (rs @ [s]) a = (if sr_agent_id s = a then sr_receipt s else last_receipt rs a)"
  by (simp add: last_receipt_def)

lemma last_receipt_Nil [simp]: "last_receipt [] a = []"
  by (simp add: last_receipt_def)

lemma receipt_digest_ok [simp]: "digest_ok (receipt_digest a n e q s p result)"
  by (simp add: receipt_digest_def)

lemma last_receipt_digest:
  "valid_records ids rs \<Longrightarrow> last_receipt rs a = [] \<or> digest_ok (last_receipt rs a)"
  by (induction rs rule: rev_induct) (auto simp: valid_records_snoc last_receipt_snoc record_ok_def)

text \<open>Each record is sound over the records before it: the chain the receipts form.\<close>

lemma valid_records_at:
  "valid_records ids rs \<Longrightarrow> i < length rs \<Longrightarrow> record_ok ids (take i rs) (rs ! i)"
  by (induction rs rule: rev_induct) (auto simp: valid_records_snoc nth_append less_Suc_eq)

section \<open>Inversions\<close>

lemma trust_text_Inr [res_simps]: "trust_text l v = Inr t \<longleftrightarrow> v = PStr t \<and> t \<noteq> []"
  by (simp add: trust_text_def res_simps)

lemma trust_uuid_text_Inr [res_simps]:
  "trust_uuid_text l v = Inr t \<longleftrightarrow> v = PStr t \<and> t \<noteq> [] \<and> uuid_of_text t \<noteq> None"
  by (simp add: trust_uuid_text_def res_simps)

lemma trust_digest_Inr [res_simps]: "trust_digest l v False = Inr t \<longleftrightarrow> v = PStr t \<and> digest_ok t"
  by (simp add: trust_digest_def res_simps)

lemma digest_not_empty: "digest_ok t \<Longrightarrow> t \<noteq> []"
  by (auto simp: digest_ok_def)

lemma trust_digest_empty:
  "trust_digest l v True = Inr t \<Longrightarrow> t = [] \<or> digest_ok t"
  "trust_digest l (PStr s) True = Inr t \<longleftrightarrow> t = s \<and> (s = [] \<or> digest_ok s)"
  by (auto simp: trust_digest_def res_simps split: if_splits)

lemma trust_utc_Inr [res_simps]: "trust_utc l v = Inr d \<longleftrightarrow> v = PDt d \<and> dt_tz d = Some UTC"
  by (cases v) (auto simp: datetime.splits intro: datetime.equality)

lemma outcome_of_Inr [res_simps]: "outcome_of t = Inr result \<longleftrightarrow> t = outcome_value result"
  by (cases result) (auto simp: outcome_of_def split: if_splits)

lemma outcome_value_inject [simp]: "outcome_value a = outcome_value b \<longleftrightarrow> a = b"
  by (cases a; cases b) simp_all

lemma outcome_value_not_empty [simp]: "outcome_value a \<noteq> []" "[] \<noteq> outcome_value a"
  by (cases a; simp)+

section \<open>Loading\<close>

definition loading_of :: "loading \<Rightarrow> state_record list \<Rightarrow> bool" where
  "loading_of l rs \<longleftrightarrow> ld_records l = rs \<and>
     set (ld_nonces l) = (\<lambda>q. (sr_agent_id q, sr_nonce q)) ` set rs \<and>
     set (ld_evidence_refs l) = sr_evidence_ref ` set rs - {[]} \<and>
     (\<forall>a. (case map_of (ld_last l) a of None \<Rightarrow> [] | Some x \<Rightarrow> x) = last_receipt rs a)"

lemma load_fields_Inr:
  assumes "load_fields V v0 v1 v2 v3 v4 v5 v6 v7 = Inr s"
  shows "sr_agent_id s \<noteq> [] \<and> sr_agent_id s \<in> tv_agent_ids V \<and> sr_nonce s \<noteq> [] \<and>
    (sr_previous s = [] \<or> digest_ok (sr_previous s)) \<and> digest_ok (sr_request_hash s) \<and>
    digest_ok (sr_signature_hash s) \<and> (\<exists>result \<in> set final_outcomes. sr_outcome s = outcome_value result)"
  using assms unfolding load_fields_def
  by (auto simp: res_simps dest: trust_digest_empty(1))

lemma last_of_update:
  "(case map_of (AList.update k v d) a of None \<Rightarrow> [] | Some x \<Rightarrow> x) =
    (if a = k then v else case map_of d a of None \<Rightarrow> [] | Some x \<Rightarrow> x)"
  by (simp add: update_conv')

lemma loading_of_snoc:
  assumes "loading_of l rs" "ld_records l' = rs @ [s]"
    and "ld_nonces l' = (sr_agent_id s, sr_nonce s) # ld_nonces l"
    and "ld_evidence_refs l' = (if sr_evidence_ref s \<noteq> [] then sr_evidence_ref s # ld_evidence_refs l
      else ld_evidence_refs l)"
    and "ld_last l' = AList.update (sr_agent_id s) (sr_receipt s) (ld_last l)"
  shows "loading_of l' (rs @ [s])"
proof -
  from assms(1) have 1: "set (ld_nonces l) = (\<lambda>q. (sr_agent_id q, sr_nonce q)) ` set rs"
    "set (ld_evidence_refs l) = sr_evidence_ref ` set rs - {[]}"
    "\<And>a. (case map_of (ld_last l) a of None \<Rightarrow> [] | Some x \<Rightarrow> x) = last_receipt rs a"
    by (simp_all add: loading_of_def)
  have "set (ld_evidence_refs l') = sr_evidence_ref ` set (rs @ [s]) - {[]}"
    by (auto simp: assms(4) 1(2))
  moreover have "\<forall>a. (case map_of (ld_last l') a of None \<Rightarrow> [] | Some x \<Rightarrow> x) = last_receipt (rs @ [s]) a"
    by (simp add: assms(5) last_of_update last_receipt_snoc 1(3))
  ultimately show ?thesis by (simp add: loading_of_def assms(2,3) 1(1))
qed

text \<open>What \<open>load_record\<close> checks, over the records before.\<close>

definition record_links :: "state_record list \<Rightarrow> state_record \<Rightarrow> receipt_outcome \<Rightarrow> bool" where
  "record_links rs s result \<longleftrightarrow>
     (sr_agent_id s, sr_nonce s) \<notin> (\<lambda>q. (sr_agent_id q, sr_nonce q)) ` set rs \<and>
     (sr_evidence_ref s \<noteq> [] \<longrightarrow> sr_evidence_ref s \<notin> sr_evidence_ref ` set rs) \<and>
     sr_previous s = last_receipt rs (sr_agent_id s) \<and>
     sr_receipt s = receipt_digest (sr_agent_id s) (sr_nonce s) (sr_evidence_ref s)
          (sr_request_hash s) (sr_signature_hash s) (sr_previous s) result"

lemma load_record_iff:
  assumes "loading_of l rs" "sr_outcome s = outcome_value result"
  shows "(\<exists>l'. load_record l s = Inr l') \<longleftrightarrow> record_links rs s result"
    and "load_record l s = Inr l' \<Longrightarrow> loading_of l' (rs @ [s])"
proof -
  from assms(1) have 1: "set (ld_nonces l) = (\<lambda>q. (sr_agent_id q, sr_nonce q)) ` set rs"
    "set (ld_evidence_refs l) = sr_evidence_ref ` set rs - {[]}" "ld_records l = rs"
    and last: "(case map_of (ld_last l) (sr_agent_id s) of None \<Rightarrow> [] | Some x \<Rightarrow> x) =
      last_receipt rs (sr_agent_id s)"
    by (simp_all add: loading_of_def)
  have o: "outcome_of (sr_outcome s) = Inr result" using assms(2) by (simp add: outcome_of_Inr)
  have m: "sr_evidence_ref s \<noteq> [] \<and> sr_evidence_ref s \<in> sr_evidence_ref ` set rs - {[]} \<longleftrightarrow>
    sr_evidence_ref s \<noteq> [] \<and> sr_evidence_ref s \<in> sr_evidence_ref ` set rs" by blast
  define checks where "checks \<longleftrightarrow> record_links rs s result"
  have eq: "load_record l s = Inr l' \<longleftrightarrow> checks \<and>
      l' = \<lparr>ld_nonces = (sr_agent_id s, sr_nonce s) # ld_nonces l,
          ld_evidence_refs = (if sr_evidence_ref s \<noteq> [] then sr_evidence_ref s # ld_evidence_refs l
            else ld_evidence_refs l),
          ld_last = AList.update (sr_agent_id s) (sr_receipt s) (ld_last l),
          ld_records = rs @ [s]\<rparr>" for l'
    unfolding load_record_def last o 1 m checks_def record_links_def bindr_simps if_Inl_Inr sum.inject
    by blast
  show "(\<exists>l'. load_record l s = Inr l') \<longleftrightarrow> record_links rs s result"
    unfolding eq checks_def by blast
  show "load_record l s = Inr l' \<Longrightarrow> loading_of l' (rs @ [s])"
    unfolding eq by (rule loading_of_snoc [OF assms(1)]) auto
qed

lemma load_fields_ok:
  assumes "record_ok (tv_agent_ids V) rs s"
  shows "load_step V l (state_record_value s) = load_record l s"
proof -
  from assms obtain result where "result \<in> set final_outcomes" "sr_outcome s = outcome_value result"
    by (auto simp: record_ok_def)
  then have "load_fields V (PStr (sr_agent_id s)) (PStr (sr_nonce s)) (PStr (sr_evidence_ref s))
      (PStr (sr_previous s)) (PStr (sr_request_hash s)) (PStr (sr_signature_hash s))
      (PStr (sr_outcome s)) (PStr (sr_receipt s)) = Inr s"
    using assms unfolding load_fields_def record_ok_def
    by (auto simp: res_simps trust_digest_empty)
  then show ?thesis by (simp add: load_step_def state_record_value_def)
qed

lemma record_ok_links:
  "record_ok ids rs s \<longleftrightarrow> sr_agent_id s \<noteq> [] \<and> sr_agent_id s \<in> ids \<and> sr_nonce s \<noteq> [] \<and>
     (sr_previous s = [] \<or> digest_ok (sr_previous s)) \<and> digest_ok (sr_request_hash s) \<and>
     digest_ok (sr_signature_hash s) \<and>
     (\<exists>result \<in> set final_outcomes. sr_outcome s = outcome_value result \<and> record_links rs s result)"
  unfolding record_ok_def record_links_def by blast

lemma load_step_Inr:
  assumes "loading_of l rs" "load_step V l raw = Inr l'"
  shows "\<exists>s. record_ok (tv_agent_ids V) rs s \<and> loading_of l' (rs @ [s])"
proof -
  from assms(2) obtain v0 v1 v2 v3 v4 v5 v6 v7 s where
    f: "load_fields V v0 v1 v2 v3 v4 v5 v6 v7 = Inr s" "load_record l s = Inr l'"
    unfolding load_step_def
    by (auto simp: bindr_Inr split: pyval.splits list.splits)
  from load_fields_Inr [OF f(1)] obtain result where
    r: "result \<in> set final_outcomes" "sr_outcome s = outcome_value result" by blast
  from load_record_iff(1) [OF assms(1) r(2)] f(2) have "record_links rs s result" by blast
  with load_fields_Inr [OF f(1)] r have "record_ok (tv_agent_ids V) rs s"
    unfolding record_ok_links by blast
  with load_record_iff(2) [OF assms(1) r(2) f(2)] show ?thesis by blast
qed

lemma load_step_ok:
  assumes "loading_of l rs" "record_ok (tv_agent_ids V) rs s"
  shows "\<exists>l'. load_step V l (state_record_value s) = Inr l' \<and> loading_of l' (rs @ [s])"
proof -
  from assms(2) obtain result where r: "sr_outcome s = outcome_value result" "record_links rs s result"
    unfolding record_ok_links by blast
  from load_record_iff [OF assms(1) r(1)] r(2) obtain l' where
    "load_record l s = Inr l'" "loading_of l' (rs @ [s])" by blast
  with load_fields_ok [OF assms(2)] show ?thesis by auto
qed

lemma load_loop:
  "foldlr (load_step V) l raws = Inr l' \<Longrightarrow> loading_of l rs \<Longrightarrow>
    \<exists>ss. valid_after (tv_agent_ids V) rs ss \<and> loading_of l' (rs @ ss) \<and> length ss = length raws"
proof (induction raws arbitrary: l rs)
  case Nil
  then show ?case by (intro exI [of _ "[]"]) simp
next
  case (Cons raw raws)
  from Cons.prems(1) obtain l1 where 1: "load_step V l raw = Inr l1" "foldlr (load_step V) l1 raws = Inr l'"
    by (auto simp: bindr_Inr)
  from load_step_Inr [OF Cons.prems(2) 1(1)] obtain s where
    s: "record_ok (tv_agent_ids V) rs s" "loading_of l1 (rs @ [s])" by blast
  from Cons.IH [OF 1(2) s(2)] obtain ss where
    "valid_after (tv_agent_ids V) (rs @ [s]) ss" "loading_of l' ((rs @ [s]) @ ss)" "length ss = length raws"
    by blast
  with s(1) show ?case by (intro exI [of _ "s # ss"]) simp
qed

lemma load_loop_ok:
  "loading_of l rs \<Longrightarrow> valid_after (tv_agent_ids V) rs ss \<Longrightarrow>
    \<exists>l'. foldlr (load_step V) l (map state_record_value ss) = Inr l' \<and> loading_of l' (rs @ ss)"
proof (induction ss arbitrary: l rs)
  case (Cons s ss)
  from Cons.prems have v: "record_ok (tv_agent_ids V) rs s" "valid_after (tv_agent_ids V) (rs @ [s]) ss"
    by simp_all
  from load_step_ok [OF Cons.prems(1) v(1)] obtain l1 where
    1: "load_step V l (state_record_value s) = Inr l1" "loading_of l1 (rs @ [s])" by blast
  from Cons.IH [OF 1(2) v(2)] 1(1) show ?case by simp
qed simp

lemma loading_start: "loading_of \<lparr>ld_nonces = [], ld_evidence_refs = [], ld_last = [], ld_records = []\<rparr> []"
  by (simp add: loading_of_def)

lemma loaded_records_valid:
  assumes "loaded_records V value = Inr rs"
  shows "valid_records (tv_agent_ids V) rs"
proof -
  from assms obtain raws l where
    "foldlr (load_step V) \<lparr>ld_nonces = [], ld_evidence_refs = [], ld_last = [], ld_records = []\<rparr> raws = Inr l"
    "ld_records l = rs"
    by (auto simp: loaded_records_def res_simps)
  with load_loop [OF _ loading_start] show ?thesis
    by (fastforce simp: valid_records_def loading_of_def)
qed

lemma loaded_records_value:
  assumes "valid_records (tv_agent_ids V) rs"
  shows "loaded_records V (state_value rs) = Inr rs"
proof -
  from load_loop_ok [OF loading_start, of V rs] assms obtain l where
    "foldlr (load_step V) \<lparr>ld_nonces = [], ld_evidence_refs = [], ld_last = [], ld_records = []\<rparr>
      (map state_record_value rs) = Inr l" "ld_records l = rs"
    by (auto simp: valid_records_def loading_of_def)
  then show ?thesis
    by (simp add: loaded_records_def state_value_def dict_get_def insert_commute)
qed

lemma frozen_state_value: "freeze_state (state_value rs) = Inr (state_value rs)"
proof -
  have 1: "freeze_state (state_record_value s) = Inr (state_record_value s)" for s
    by (simp add: state_record_value_def)
  have "mapr freeze_state (map state_record_value rs) = Inr (map state_record_value rs)"
    by (induction rs) (simp_all add: 1)
  then have "freeze_state (PTuple (map state_record_value rs)) = Inr (PTuple (map state_record_value rs))"
    by simp
  then show ?thesis by (simp add: state_value_def del: freeze_state.simps(12))
qed

end
