(* ===== verification/TrustProtocol.thy ===== *)
theory TrustProtocol
  imports TrustState
begin

text \<open>
  The protocol of the verifier: what constructed requests carry, what each operation does to the
  state, the invariant \<open>verifier_ok\<close> of every session and the abstract condition \<open>authorized\<close> that
  a preview decides.
\<close>

section \<open>Constructed values\<close>

definition constructed_mandate :: "agent_mandate \<Rightarrow> bool" where
  "constructed_mandate m \<longleftrightarrow> (\<exists>args q. new_mandate args q = Inr m)"

definition constructed :: "payment_request \<Rightarrow> bool" where
  "constructed r \<longleftrightarrow> (\<exists>args. new_request args (Some (ar_mandate r)) = Inr r)"

lemma arg_simps: "(text_arg args k = Inr t) = (map_of args k = Some (PStr t) \<and> t \<noteq> [])"
  "(uuid_arg args k = Inr t) = (map_of args k = Some (PStr t) \<and> t \<noteq> [] \<and> uuid_of_text t \<noteq> None)"
  "(digest_arg args k False = Inr t) = (map_of args k = Some (PStr t) \<and> digest_ok t)"
  "(utc_arg args k = Inr d) = (map_of args k = Some (PDt d) \<and> dt_tz d = Some UTC)"
  by (auto simp: text_arg_def uuid_arg_def digest_arg_def utc_arg_def arg_def res_simps split: option.splits)

lemma digest_arg_empty: "digest_arg args k True = Inr t \<Longrightarrow> t = [] \<or> digest_ok t"
  by (auto simp: digest_arg_def res_simps dest: trust_digest_empty(1))

lemma evidence_ref_arg_Inr:
  "evidence_ref_arg args m = Inr e \<Longrightarrow> (e = None \<longleftrightarrow> am_required_authentication m = NoAuthentication) \<and> e \<noteq> Some []"
  by (auto simp: evidence_ref_arg_def res_simps split: if_splits)

lemma new_request_Inr:
  "new_request args (Some m) = Inr r \<longleftrightarrow> ar_mandate r = m \<and>
     text_arg args ''request_id'' = Inr (ar_request_id r) \<and>
     text_arg args ''payment_id'' = Inr (ar_payment_id r) \<and>
     text_arg args ''agent_id'' = Inr (ar_agent_id r) \<and>
     text_arg args ''key_id'' = Inr (ar_key_id r) \<and>
     text_arg args ''currency'' = Inr (ar_currency r) \<and>
     money_arg args ''amount'' (ar_currency r) = Inr (ar_amount r) \<and>
     text_arg args ''merchant_id'' = Inr (ar_merchant_id r) \<and>
     text_arg args ''payee_id'' = Inr (ar_payee_id r) \<and>
     digest_arg args ''cart_hash'' False = Inr (ar_cart_hash r) \<and>
     digest_arg args ''payment_intent_hash'' False = Inr (ar_payment_intent_hash r) \<and>
     text_arg args ''category'' = Inr (ar_category r) \<and>
     text_arg args ''product_id'' = Inr (ar_product_id r) \<and>
     text_arg args ''credential_id'' = Inr (ar_credential_id r) \<and>
     text_arg args ''credential_scope'' = Inr (ar_credential_scope r) \<and>
     text_arg args ''consent_ref'' = Inr (ar_consent_ref r) \<and>
     evidence_ref_arg args m = Inr (ar_evidence_ref r) \<and>
     text_arg args ''nonce'' = Inr (ar_nonce r) \<and>
     utc_arg args ''created_at'' = Inr (ar_created_at r) \<and>
     utc_arg args ''expires_at'' = Inr (ar_expires_at r) \<and>
     \<not> instant (ar_expires_at r) \<le> instant (ar_created_at r) \<and>
     digest_arg args ''prior_receipt_hash'' True = Inr (ar_prior_receipt_hash r) \<and>
     uuid_arg args ''campaign_id'' = Inr (ar_campaign_id r) \<and>
     uuid_arg args ''trace_id'' = Inr (ar_trace_id r) \<and>
     uuid_arg args ''actor_id'' = Inr (ar_actor_id r) \<and>
     uuid_arg args ''counterparty_id'' = Inr (ar_counterparty_id r) \<and>
     bindr (arg args ''signature'') (exact_bytes ''signature'') = Inr (ar_signature r)" (is "?l \<longleftrightarrow> ?r")
proof
  assume ?l
  then show ?r
    unfolding new_request_def option.case
    by (simp only: bindr_Inr if_Inl_Inr sum.inject) (elim exE conjE, hypsubst, simp add: bindr_Inr)
next
  assume ?r
  then show ?l
    unfolding new_request_def option.case
    by (simp add: payment_request.equality)
qed

lemma constructed_fields:
  assumes "constructed r"
  shows "ar_request_id r \<noteq> []" "ar_agent_id r \<noteq> []" "ar_nonce r \<noteq> []"
    "ar_prior_receipt_hash r = [] \<or> digest_ok (ar_prior_receipt_hash r)"
    "ar_evidence_ref r = None \<longleftrightarrow> am_required_authentication (ar_mandate r) = NoAuthentication"
    "ar_evidence_ref r \<noteq> Some []"
  using assms unfolding constructed_def new_request_Inr
  by (auto simp: arg_simps dest: digest_arg_empty evidence_ref_arg_Inr)

text \<open>Equal canonical bytes mean equal fields, where the field is a text of its own.\<close>

lemma requirement_value_inject [simp]: "requirement_value a = requirement_value b \<longleftrightarrow> a = b"
  by (cases a; cases b) simp_all

lemma mandate_bytes_fields:
  assumes "mandate_bytes m = mandate_bytes m'"
  shows "am_required_authentication m = am_required_authentication m'" "am_user_ref m = am_user_ref m'"
    "am_agent_id m = am_agent_id m'" "am_payee_id m = am_payee_id m'" "am_currency m = am_currency m'"
  using assms by (simp_all add: mandate_bytes_def canonical_bytes_def json_rows_inj)

section \<open>Receipts never fail to build\<close>

lemma new_receipt_Inr:
  "new_receipt q allowed reason h p rh sh result = Inr x \<longleftrightarrow>
     q \<noteq> [] \<and> allowed \<noteq> (reason \<noteq> None) \<and> digest_ok h \<and> (p = [] \<or> digest_ok p) \<and> digest_ok rh \<and>
     digest_ok sh \<and> (allowed \<longleftrightarrow> result \<noteq> RejectedReceipt) \<and>
     x = \<lparr>ir_request_id = q, ir_allowed = allowed, ir_reason_code = reason, ir_receipt_hash = h,
       ir_previous_receipt_hash = p, ir_request_hash = rh, ir_signature_hash = sh, ir_outcome = result\<rparr>"
  unfolding new_receipt_def bindr_Inr ensure_Inr trust_digest_Inr trust_text_Inr
  by (auto simp: trust_digest_empty)

lemma allowed_receipt_Inr:
  assumes "ar_request_id r \<noteq> []" "p = [] \<or> digest_ok p" "result \<noteq> RejectedReceipt"
  shows "allowed_receipt r p result = Inr \<lparr>ir_request_id = ar_request_id r, ir_allowed = True,
     ir_reason_code = None,
     ir_receipt_hash = receipt_digest (ar_agent_id r) (ar_nonce r) (evidence_text r)
       (sha256_hex (signing_bytes r)) (sha256_hex (ar_signature r)) p result,
     ir_previous_receipt_hash = p, ir_request_hash = sha256_hex (signing_bytes r),
     ir_signature_hash = sha256_hex (ar_signature r), ir_outcome = result\<rparr>"
  unfolding allowed_receipt_def Let_def new_receipt_Inr using assms by simp

lemma failure_receipt_Inr:
  assumes "ar_request_id r \<noteq> []" "ar_prior_receipt_hash r = [] \<or> digest_ok (ar_prior_receipt_hash r)"
  shows "\<exists>p. failure_receipt r reason = Inr p \<and> \<not> ir_allowed p \<and> ir_reason_code p = Some reason"
  unfolding failure_receipt_def Let_def new_receipt_Inr using assms by simp

lemma owned_receipt_same: "allowed_receipt r p result = Inr x \<Longrightarrow> owned_receipt x = Inr x"
  unfolding allowed_receipt_def Let_def owned_receipt_def new_receipt_Inr by auto

lemma reject_Inr:
  assumes "constructed r"
  shows "\<exists>p. reject r reason V = (Inr (tv_objects V, p), V\<lparr>tv_objects := tv_objects V + 1\<rparr>) \<and>
    \<not> ir_allowed p \<and> ir_reason_code p = Some reason"
proof -
  from failure_receipt_Inr [OF constructed_fields(1,4) [OF assms]] obtain p where
    "failure_receipt r reason = Inr p" "\<not> ir_allowed p" "ir_reason_code p = Some reason" by blast
  then show ?thesis by (simp add: reject_def issue_def)
qed

section \<open>What a preview decides\<close>

definition within_mandate :: "agent_mandate \<Rightarrow> payment_request \<Rightarrow> datetime \<Rightarrow> bool" where
  "within_mandate m r now \<longleftrightarrow>
     ar_actor_id r = am_user_entity_id m \<and> ar_counterparty_id r = am_beneficiary_entity_id m \<and>
     \<not> dec_less (am_max_amount m) (ar_amount r) \<and> ar_currency r = am_currency m \<and>
     ar_merchant_id r = am_merchant_id m \<and> ar_payee_id r = am_payee_id m \<and>
     ar_category r \<in> set (am_permitted_categories m) \<and> ar_product_id r \<in> set (am_permitted_products m) \<and>
     ar_cart_hash r = am_cart_hash m \<and> ar_payment_intent_hash r = am_payment_intent_hash m \<and>
     ar_credential_id r = am_credential_id m \<and> ar_credential_scope r = am_credential_scope m \<and>
     ar_consent_ref r = am_consent_ref m \<and>
     instant (am_issued_at m) \<le> instant (ar_created_at r) \<and> instant (ar_created_at r) \<le> instant now \<and>
     instant now < instant (ar_expires_at r) \<and> instant (ar_expires_at r) \<le> instant (am_expires_at m)"

definition evidence_accepted :: "trust_verifier \<Rightarrow> agent_mandate \<Rightarrow> payment_request \<Rightarrow> datetime \<Rightarrow> bool" where
  "evidence_accepted V m r now \<longleftrightarrow>
     (\<exists>ref e. ar_evidence_ref r = Some ref \<and> ref \<notin> sr_evidence_ref ` set (tv_records V) \<and>
       map_of (tv_evidence V) ref = Some e \<and> ae_agent_id e = ar_agent_id r \<and>
       ae_user_ref e = am_user_ref m \<and> ae_mandate_id e = am_mandate_id m \<and> ae_nonce e = ar_nonce r \<and>
       ae_payment_intent_hash e = ar_payment_intent_hash r \<and> ae_request_id e = ar_request_id r \<and>
       instant (ae_issued_at e) \<le> instant now \<and> instant now < instant (ae_expires_at e))"

text \<open>The request is signed with a registered key, its mandate is the approved one, it stays within the
  mandate, it continues the agent's chain with a fresh nonce and, where the mandate asks for it, fresh
  evidence of a step-up.\<close>

definition authorized :: "ed25519 \<Rightarrow> trust_verifier \<Rightarrow> payment_request \<Rightarrow> datetime \<Rightarrow> bool" where
  "authorized P V r now \<longleftrightarrow> (\<exists>key m.
     map_of (tv_keys V) (ar_agent_id r, ar_key_id r) = Some key \<and>
     ed_verify P key (ar_signature r) (signing_bytes r) \<and>
     map_of (tv_mandates V) (am_mandate_id (ar_mandate r)) = Some m \<and>
     mandate_bytes (ar_mandate r) = mandate_bytes m \<and> am_agent_id (ar_mandate r) = ar_agent_id r \<and>
     within_mandate m r now \<and>
     (ar_agent_id r, ar_nonce r) \<notin> (\<lambda>s. (sr_agent_id s, sr_nonce s)) ` set (tv_records V) \<and>
     ar_prior_receipt_hash r = last_receipt (tv_records V) (ar_agent_id r) \<and>
     (am_required_authentication m = StepUp \<longrightarrow> evidence_accepted V m r now))"

lemma first_reason_None: "first_reason cs = None \<longleftrightarrow> (\<forall>c \<in> set cs. \<not> fst c)"
  by (induction cs rule: first_reason.induct) auto

lemma nonce_used_iff:
  "nonce_used rs r \<longleftrightarrow> (ar_agent_id r, ar_nonce r) \<in> (\<lambda>s. (sr_agent_id s, sr_nonce s)) ` set rs"
  unfolding nonce_used_def list_ex_iff image_iff prod.inject by metis

lemma binding_checks_None:
  "first_reason (binding_checks m r now @ chain_checks V r) = None \<longleftrightarrow>
     within_mandate m r now \<and> instant (am_issued_at m) \<le> instant now \<and> instant now < instant (am_expires_at m) \<and>
     \<not> nonce_used (tv_records V) r \<and> ar_prior_receipt_hash r = last_receipt (tv_records V) (ar_agent_id r)"
  unfolding first_reason_None binding_checks_def chain_checks_def within_mandate_def
  by (simp add: not_less not_le) linarith

lemma evidence_reason_None:
  assumes "ar_evidence_ref r = Some ref" "ref \<noteq> []"
  shows "evidence_reason V m r now ref = None \<longleftrightarrow> evidence_accepted V m r now"
proof -
  have "(ae_outcome e \<noteq> StepUpVerified) = False" for e by (cases "ae_outcome e") simp
  with assms show ?thesis
    unfolding evidence_reason_def evidence_accepted_def
    by (auto simp: list_ex_iff image_iff first_reason_None not_less not_le split: option.splits)
qed

lemma step_up_reason_None:
  assumes "constructed r" "mandate_bytes (ar_mandate r) = mandate_bytes m"
  shows "step_up_reason V m r now \<noteq> Inl e"
    "step_up_reason V m r now = Inr None \<longleftrightarrow>
      (am_required_authentication m = StepUp \<longrightarrow> evidence_accepted V m r now)"
proof -
  from mandate_bytes_fields(1) [OF assms(2)] constructed_fields(5,6) [OF assms(1)] have
    "am_required_authentication m = StepUp \<Longrightarrow> \<exists>ref. ar_evidence_ref r = Some ref \<and> ref \<noteq> []"
    by (cases "ar_evidence_ref r") auto
  then show "step_up_reason V m r now \<noteq> Inl e"
    "step_up_reason V m r now = Inr None \<longleftrightarrow>
      (am_required_authentication m = StepUp \<longrightarrow> evidence_accepted V m r now)"
    by (auto simp: step_up_reason_def evidence_reason_None)
qed

lemma preview_reason_Inr:
  assumes "constructed r"
  shows "\<exists>x. preview_reason P V r now = Inr x" and "preview_reason P V r now = Inr None \<longleftrightarrow> authorized P V r now"
proof -
  show "\<exists>x. preview_reason P V r now = Inr x"
  proof (cases "\<exists>m. map_of (tv_mandates V) (am_mandate_id (ar_mandate r)) = Some m \<and>
      mandate_bytes (ar_mandate r) = mandate_bytes m")
    case True
    then obtain m where m: "map_of (tv_mandates V) (am_mandate_id (ar_mandate r)) = Some m"
      "mandate_bytes (ar_mandate r) = mandate_bytes m" by blast
    then show ?thesis
      using step_up_reason_None(1) [OF assms m(2), of V now]
      by (cases "step_up_reason V m r now") (auto simp: preview_reason_def split: option.splits)
  next
    case False
    then show ?thesis by (auto simp: preview_reason_def split: option.splits)
  qed
  have w: "within_mandate m r now \<and> instant (am_issued_at m) \<le> instant now \<and> instant now < instant (am_expires_at m)
      \<longleftrightarrow> within_mandate m r now" for m
    by (auto simp: within_mandate_def)
  show "preview_reason P V r now = Inr None \<longleftrightarrow> authorized P V r now"
  proof (cases "\<exists>m. map_of (tv_mandates V) (am_mandate_id (ar_mandate r)) = Some m \<and>
      mandate_bytes (ar_mandate r) = mandate_bytes m")
    case True
    then obtain m where m: "map_of (tv_mandates V) (am_mandate_id (ar_mandate r)) = Some m"
      "mandate_bytes (ar_mandate r) = mandate_bytes m" by blast
    show ?thesis
      unfolding preview_reason_def authorized_def nonce_used_iff [symmetric]
      using step_up_reason_None(2) [OF assms m(2), of V now] binding_checks_None [of m r now V] w [of m]
      by (auto simp: m split: option.splits)
  next
    case False
    then show ?thesis by (auto simp: preview_reason_def authorized_def split: option.splits)
  qed
qed

section \<open>Frames\<close>

definition same_registry :: "trust_verifier \<Rightarrow> trust_verifier \<Rightarrow> bool" where
  "same_registry V V' \<longleftrightarrow> tv_keys V' = tv_keys V \<and> tv_mandates V' = tv_mandates V \<and>
     tv_evidence V' = tv_evidence V \<and> tv_objects V \<le> tv_objects V'"

lemma preview_reason_cong:
  "same_registry V V' \<Longrightarrow> tv_records V' = tv_records V \<Longrightarrow>
    preview_reason P V' r now = preview_reason P V r now"
  by (simp add: preview_reason_def same_registry_def step_up_reason_def evidence_reason_def chain_checks_def
      cong: option.case_cong if_cong)

lemma authorized_cong:
  "same_registry V V' \<Longrightarrow> tv_records V' = tv_records V \<Longrightarrow> authorized P V' r now = authorized P V r now"
  by (simp add: authorized_def evidence_accepted_def same_registry_def)

lemma same_registry_order: "same_registry V V" "same_registry V V1 \<Longrightarrow> same_registry V1 V2 \<Longrightarrow> same_registry V V2"
  by (auto simp: same_registry_def)

text \<open>What a preview leaves and returns.\<close>

lemma trust_preview_cases:
  assumes "constructed r" "valid_records ids (tv_records V)" "trust_preview P r now V = (q, V')"
  obtains (utc) e where "dt_tz now \<noteq> Some UTC" "q = Inl e" "same_registry V V'"
      "tv_records V' = tv_records V" "tv_pending_preview V' = None" "tv_pending_commit V' = None"
  | (failed) p reason where "dt_tz now = Some UTC" "\<not> authorized P V r now"
      "preview_reason P V r now = Inr (Some reason)"
      "q = Inr (tv_objects V, p)" "\<not> ir_allowed p" "ir_reason_code p = Some reason"
      "V' = V\<lparr>tv_pending_preview := None, tv_pending_commit := None, tv_objects := tv_objects V + 1\<rparr>"
  | (allowed) p where "dt_tz now = Some UTC" "authorized P V r now" "q = Inr (tv_objects V, p)" "ir_allowed p"
      "allowed_receipt r (last_receipt (tv_records V) (ar_agent_id r)) PreviewReceipt = Inr p"
      "V' = V\<lparr>tv_pending_preview := Some ((tv_objects V, p), now), tv_pending_commit := None,
        tv_objects := tv_objects V + 1\<rparr>"
proof -
  define V0 where "V0 = V\<lparr>tv_pending_preview := None, tv_pending_commit := None\<rparr>"
  have V0: "same_registry V V0" "tv_records V0 = tv_records V" "tv_objects V0 = tv_objects V"
    by (simp_all add: V0_def same_registry_def)
  have rv: "revoke_ephemeral V = (Inr (), V0)" by (simp add: revoke_ephemeral_def V0_def)
  show thesis
  proof (cases "dt_tz now = Some UTC")
    case False
    then have "trust_preview P r now V = (Inl (ValueError (''now'' @ '' must be an exact UTC datetime'')), V0)"
      by (simp add: trust_preview_def bindm_def rv trust_utc.simps)
    with assms(3) False V0 show thesis
      by (intro utc) (auto simp: V0_def)
  next
    case True
    then have u: "trust_utc ''now'' (PDt now) = Inr now" by (simp add: trust_utc_Inr)
    note pr = preview_reason_cong [OF V0(1,2)] authorized_cong [OF V0(1,2)]
    from preview_reason_Inr [OF assms(1)] obtain x where x: "preview_reason P V r now = Inr x" "x = None \<longleftrightarrow> authorized P V r now"
      by (metis sum.inject(2))
    show thesis
    proof (cases x)
      case (Some reason)
      from reject_Inr [OF assms(1), of reason V0] obtain p where
        p: "reject r reason V0 = (Inr (tv_objects V, p), V0\<lparr>tv_objects := tv_objects V + 1\<rparr>)"
        "\<not> ir_allowed p" "ir_reason_code p = Some reason" by (auto simp: V0(3))
      have "trust_preview P r now V = (Inr (tv_objects V, p), V0\<lparr>tv_objects := tv_objects V + 1\<rparr>)"
        by (simp add: trust_preview_def bindm_def rv u pr x Some p del: trust_utc.simps)
      with assms(3) True p(2,3) x Some show thesis
        by (intro failed) (auto simp: V0_def)
    next
      case None
      from allowed_receipt_Inr [OF constructed_fields(1) [OF assms(1)]
          last_receipt_digest [OF assms(2)], of PreviewReceipt]
      obtain p where p: "allowed_receipt r (last_receipt (tv_records V) (ar_agent_id r)) PreviewReceipt = Inr p"
        "ir_allowed p" by auto
      have "trust_preview P r now V = (Inr (tv_objects V, p),
          V0\<lparr>tv_pending_preview := Some ((tv_objects V, p), now), tv_objects := tv_objects V + 1\<rparr>)"
        by (simp add: trust_preview_def bindm_def rv u pr x None p V0 issue_def del: trust_utc.simps)
          (simp add: V0_def)
      with assms(3) True p x None show thesis
        by (intro allowed) (auto simp: V0_def)
    qed
  qed
qed

text \<open>What a prepared plan has checked.\<close>

lemma prepare_reason_None:
  assumes "prepare_reason V r p now issued = Inr None"
  shows "\<exists>i since. issued = Some ((i, p), since) \<and>
    allowed_receipt r (last_receipt (tv_records V) (ar_agent_id r)) PreviewReceipt = Inr p \<and>
    instant since \<le> instant now \<and> instant now < instant (ar_expires_at r) \<and>
    (ar_agent_id r, ar_nonce r) \<notin> (\<lambda>s. (sr_agent_id s, sr_nonce s)) ` set (tv_records V) \<and>
    ar_prior_receipt_hash r = last_receipt (tv_records V) (ar_agent_id r)"
proof -
  from assms obtain expected where e:
    "allowed_receipt r (last_receipt (tv_records V) (ar_agent_id r)) PreviewReceipt = Inr expected"
    by (auto simp: prepare_reason_def bindr_Inr)
  with assms show ?thesis
    by (cases issued) (auto simp: prepare_reason_def prepare_checks_def chain_checks_def nonce_used_iff
        bindr_Inr not_less not_le split: if_splits)
qed

lemma plan_commit_Inr:
  assumes "allowed_receipt r (last_receipt (tv_records V) (ar_agent_id r)) result = Inr final"
  shows "plan_commit r result V = (let plan = \<lparr>cp_object = tv_objects V, cp_receipt = final\<rparr> in
    (Inr (Plan plan), V\<lparr>tv_objects := tv_objects V + 1, tv_pending_commit :=
       Some \<lparr>pc_capability = plan, pc_receipt = final, pc_record = new_state_record r final\<rparr>\<rparr>))"
  by (simp add: plan_commit_def bindm_def assms owned_receipt_same [OF assms] issue_def Let_def)

lemma prepare_commit_cases:
  assumes "constructed r" "valid_records ids (tv_records V)" "prepare_commit r p result now V = (q, V')"
  obtains (planned) plan final where "q = Inr (Plan plan)" "dt_tz now = Some UTC" "result \<in> set final_outcomes"
      "prepare_reason V r p now (tv_pending_preview V) = Inr None"
      "allowed_receipt r (last_receipt (tv_records V) (ar_agent_id r)) result = Inr final"
      "plan = \<lparr>cp_object = tv_objects V, cp_receipt = final\<rparr>"
      "V' = V\<lparr>tv_pending_preview := None, tv_objects := tv_objects V + 1, tv_pending_commit :=
         Some \<lparr>pc_capability = plan, pc_receipt = final, pc_record = new_state_record r final\<rparr>\<rparr>"
  | (rejected) i p' where "q = Inr (Rejection (i, p'))" "\<not> ir_allowed p'" "same_registry V V'"
      "tv_records V' = tv_records V" "tv_pending_preview V' = None" "tv_pending_commit V' = None"
      "\<not> (dt_tz now = Some UTC \<and> result \<in> set final_outcomes \<and>
         prepare_reason V r p now (tv_pending_preview V) = Inr None)"
  | (failed) e where "q = Inl e" "same_registry V V'"
      "tv_records V' = tv_records V" "tv_pending_preview V' = None" "tv_pending_commit V' = None"
      "\<not> (dt_tz now = Some UTC \<and> result \<in> set final_outcomes \<and>
         prepare_reason V r p now (tv_pending_preview V) = Inr None)"
proof -
  define V0 where "V0 = V\<lparr>tv_pending_preview := None, tv_pending_commit := None\<rparr>"
  have V0: "same_registry V V0" "tv_records V0 = tv_records V" "tv_objects V0 = tv_objects V"
    "tv_pending_preview V0 = None" "tv_pending_commit V0 = None"
    by (simp_all add: V0_def same_registry_def)
  have rv: "take_pending_preview V = (Inr (tv_pending_preview V), V0)"
    by (simp add: take_pending_preview_def V0_def)
  have run: "trust_prepare r p result now (tv_pending_preview V) V0 = (q, V')"
    using assms(3) by (simp add: prepare_commit_def bindm_def rv)
  have pr: "prepare_reason V0 r p now x = prepare_reason V r p now x" for x
    by (simp add: V0_def prepare_reason_def prepare_evidence_expired_def prepare_checks_def chain_checks_def
        cong: option.case_cong if_cong)
  show thesis
  proof (cases "result \<in> set final_outcomes \<and> dt_tz now = Some UTC")
    case False
    with run obtain e where "V' = V0" "q = Inl e"
      by (cases "result \<in> set final_outcomes")
        (auto simp: trust_prepare_def split: if_splits)
    with V0 False show thesis by (intro failed [of e]) auto
  next
    case True
    then have u: "trust_utc ''now'' (PDt now) = Inr now" by (simp add: trust_utc_Inr)
    have step: "trust_prepare r p result now (tv_pending_preview V) V0 =
        (case prepare_reason V r p now (tv_pending_preview V) of
           Inl e \<Rightarrow> (Inl e, V0)
         | Inr (Some code) \<Rightarrow> bindm (reject r code) (\<lambda>p. ret (Rejection p)) V0
         | Inr None \<Rightarrow> plan_commit r result V0)"
      using True by (simp add: trust_prepare_def u bindm_def pr del: trust_utc.simps split: sum.split option.split)
    show thesis
    proof (cases "prepare_reason V r p now (tv_pending_preview V)")
      case (Inl e)
      with run step V0 show thesis by (intro failed) auto
    next
      case (Inr x)
      show thesis
      proof (cases x)
        case None
        have "result \<noteq> RejectedReceipt" using True by (auto simp: final_outcomes_def)
        from allowed_receipt_Inr [OF constructed_fields(1) [OF assms(1)] last_receipt_digest [OF assms(2)] this]
        obtain final where f: "allowed_receipt r (last_receipt (tv_records V) (ar_agent_id r)) result = Inr final"
          by blast
        with plan_commit_Inr [of r V0 result final] run step Inr None True V0 show thesis
          by (intro planned [of _ final]) (auto simp: Let_def V0_def)
      next
        case (Some code)
        from reject_Inr [OF assms(1), of code V0] obtain p' where
          "reject r code V0 = (Inr (tv_objects V0, p'), V0\<lparr>tv_objects := tv_objects V0 + 1\<rparr>)" "\<not> ir_allowed p'"
          by blast
        with run step Inr Some V0 show thesis
          by (intro rejected) (auto simp: bindm_def same_registry_def)
      qed
    qed
  qed
qed

end
