(* ===== verification/TrustProperties.thy ===== *)
theory TrustProperties
  imports TrustProtocol
begin

text \<open>
  Sessions of the verifier and its properties: a preview decides exactly \<open>authorized\<close>, nothing is
  committed without it, a nonce or a piece of evidence is used once, a plan is applied once, and the
  dumped state loads back to itself.
\<close>

section \<open>Sessions\<close>

text \<open>The two-phase decision: a preview and, when it is allowed, a prepared outcome.\<close>

definition decide ::
  "ed25519 \<Rightarrow> payment_request \<Rightarrow> datetime \<Rightarrow> receipt_outcome \<Rightarrow> datetime \<Rightarrow> prepared trusting" where
  "decide P r now result later =
     bindm (trust_preview P r now) (\<lambda>(i, p).
     if \<not> ir_allowed p then ret (Rejection (i, p)) else prepare_commit r p result later)"

definition verifier_ok :: "trust_verifier \<Rightarrow> bool" where
  "verifier_ok V \<longleftrightarrow> valid_records (tv_agent_ids V) (tv_records V) \<and>
     (\<forall>p. tv_pending_commit V = Some p \<longrightarrow> record_ok (tv_agent_ids V) (tv_records V) (pc_record p) \<and>
        cp_object (pc_capability p) < tv_objects V)"

text \<open>A session of the public methods that change the state, without loading (\<open>loads = False\<close>) or with. A
  caller may commit or prepare any request with any receipt, at any time. The verifier recognises the
  previewed request by digests, so the relation carries that request (\<open>g\<close>) and what is assumed of a request
  presented for it: that it is not a second text of the same SHA-256 digest.\<close>

definition no_collision :: "payment_request option \<Rightarrow> payment_request \<Rightarrow> bool" where
  "no_collision g r \<longleftrightarrow> (\<forall>r0. g = Some r0 \<longrightarrow> sha256_hex (signing_bytes r0) = sha256_hex (signing_bytes r) \<longrightarrow>
     signing_bytes r0 = signing_bytes r)"

inductive trust_run ::
  "ed25519 \<Rightarrow> bool \<Rightarrow> trust_verifier \<Rightarrow> payment_request option \<Rightarrow> trust_verifier \<Rightarrow> bool"
  for P :: ed25519 and loads :: bool and V0 :: trust_verifier where
  starts: "trust_run P loads V0 None V0"
| previews: "trust_run P loads V0 g V \<Longrightarrow> constructed r \<Longrightarrow>
    trust_run P loads V0 (Some r) (snd (trust_preview P r now V))"
| prepares: "trust_run P loads V0 g V \<Longrightarrow> constructed r \<Longrightarrow> no_collision g r \<Longrightarrow>
    trust_run P loads V0 g (snd (prepare_commit r p result now V))"
| commits: "trust_run P loads V0 g V \<Longrightarrow> constructed r \<Longrightarrow> no_collision g r \<Longrightarrow>
    trust_run P loads V0 g (snd (trust_commit r p result now V))"
| decides: "trust_run P loads V0 g V \<Longrightarrow> constructed r \<Longrightarrow>
    trust_run P loads V0 g (snd (decide P r now result later V))"
| verifies: "trust_run P loads V0 g V \<Longrightarrow> constructed r \<Longrightarrow>
    trust_run P loads V0 g (snd (trust_verify P r now V))"
| applies: "trust_run P loads V0 g V \<Longrightarrow> trust_run P loads V0 g (snd (apply_commit plan V))"
| discards: "trust_run P loads V0 g V \<Longrightarrow> trust_run P loads V0 g (snd (discard_commit plan V))"
| discards_preview: "trust_run P loads V0 g V \<Longrightarrow> trust_run P loads V0 g (snd (discard_preview i V))"
| loads: "trust_run P loads V0 g V \<Longrightarrow> loads \<Longrightarrow> trust_run P loads V0 g (snd (load_state v V))"

definition trust_session :: "ed25519 \<Rightarrow> bool \<Rightarrow> trust_verifier \<Rightarrow> trust_verifier \<Rightarrow> bool" where
  "trust_session P loads V0 V \<longleftrightarrow> (\<exists>g. trust_run P loads V0 g V)"

lemma session_starts: "trust_session P loads V0 V0"
  unfolding trust_session_def by (blast intro: trust_run.starts)

lemma session_decides:
  "trust_session P loads V0 V \<Longrightarrow> constructed r \<Longrightarrow> trust_session P loads V0 (snd (decide P r now result later V))"
  unfolding trust_session_def by (blast intro: trust_run.decides)

lemma session_verifies:
  "trust_session P loads V0 V \<Longrightarrow> constructed r \<Longrightarrow> trust_session P loads V0 (snd (trust_verify P r now V))"
  unfolding trust_session_def by (blast intro: trust_run.verifies)

section \<open>The invariant\<close>

lemma same_registry_ids: "same_registry V V' \<Longrightarrow> tv_agent_ids V' = tv_agent_ids V"
  by (simp add: same_registry_def tv_agent_ids_def)

text \<open>What an authorized request brings: a registered agent, and evidence that no record names.\<close>

lemma authorized_fresh:
  assumes "constructed r" "authorized P V r now"
  shows "ar_agent_id r \<in> tv_agent_ids V"
    "evidence_text r \<noteq> [] \<Longrightarrow> evidence_text r \<notin> sr_evidence_ref ` set (tv_records V)"
    "(ar_agent_id r, ar_nonce r) \<notin> (\<lambda>s. (sr_agent_id s, sr_nonce s)) ` set (tv_records V)"
proof -
  from assms(2) obtain key m where a: "map_of (tv_keys V) (ar_agent_id r, ar_key_id r) = Some key"
    "mandate_bytes (ar_mandate r) = mandate_bytes m"
    "(ar_agent_id r, ar_nonce r) \<notin> (\<lambda>s. (sr_agent_id s, sr_nonce s)) ` set (tv_records V)"
    "am_required_authentication m = StepUp \<longrightarrow> evidence_accepted V m r now"
    by (auto simp: authorized_def)
  show "ar_agent_id r \<in> tv_agent_ids V"
    using map_of_SomeD [OF a(1)] by (force simp: tv_agent_ids_def)
  show "(ar_agent_id r, ar_nonce r) \<notin> (\<lambda>s. (sr_agent_id s, sr_nonce s)) ` set (tv_records V)" by (rule a(3))
  assume e: "evidence_text r \<noteq> []"
  with constructed_fields(5) [OF assms(1)] mandate_bytes_fields(1) [OF a(2)]
  have "am_required_authentication m = StepUp"
    by (cases "am_required_authentication m") (auto simp: evidence_text_def split: option.splits)
  with a(4) e show "evidence_text r \<notin> sr_evidence_ref ` set (tv_records V)"
    by (auto simp: evidence_accepted_def evidence_text_def)
qed

lemma fresh_record_ok:
  assumes "constructed r" "valid_records ids rs" "result \<in> set final_outcomes"
    and "allowed_receipt r (last_receipt rs (ar_agent_id r)) result = Inr final"
    and "ar_agent_id r \<in> ids" "evidence_text r \<noteq> [] \<Longrightarrow> evidence_text r \<notin> sr_evidence_ref ` set rs"
    and "(ar_agent_id r, ar_nonce r) \<notin> (\<lambda>s. (sr_agent_id s, sr_nonce s)) ` set rs"
  shows "record_ok ids rs (new_state_record r final)"
proof -
  have "result \<noteq> RejectedReceipt" using assms(3) by (auto simp: final_outcomes_def)
  note f = allowed_receipt_Inr [OF constructed_fields(1) [OF assms(1)] last_receipt_digest [OF assms(2)] this]
  then show ?thesis
    using assms(3-7) constructed_fields(2,3) [OF assms(1)] last_receipt_digest [OF assms(2), of "ar_agent_id r"]
    by (auto simp: record_ok_def new_state_record_def)
qed

lemma planned_record_ok:
  assumes "constructed r" "authorized P V r now" "valid_records (tv_agent_ids V) (tv_records V)"
    and "result \<in> set final_outcomes"
    and "allowed_receipt r (last_receipt (tv_records V) (ar_agent_id r)) result = Inr final"
  shows "record_ok (tv_agent_ids V) (tv_records V) (new_state_record r final)"
  by (rule fresh_record_ok [OF assms(1,3,4,5)]) (use authorized_fresh [OF assms(1,2)] in auto)

text \<open>A receipt fixes the signed text, up to a collision of SHA-256.\<close>

lemma allowed_receipt_request:
  "allowed_receipt r q result = Inr p \<Longrightarrow> ir_request_hash p = sha256_hex (signing_bytes r)"
  by (auto simp: allowed_receipt_def Let_def new_receipt_Inr)

lemma signing_bytes_fields:
  assumes "signing_bytes r = signing_bytes r'"
  shows "ar_agent_id r = ar_agent_id r'" "ar_nonce r = ar_nonce r'" "evidence_text r = evidence_text r'"
  using assms by (simp_all add: signing_bytes_def canonical_bytes_def json_rows_inj)

lemma decide_cases:
  assumes "constructed r" "verifier_ok V" "decide P r now result later V = (q, V')"
  obtains (planned) plan final i p where "q = Inr (Plan plan)" "authorized P V r now"
      "trust_preview P r now V = (Inr (i, p), V'\<lparr>tv_pending_preview := Some ((i, p), now), tv_pending_commit := None,
         tv_objects := tv_objects V + 1\<rparr>)"
      "result \<in> set final_outcomes" "instant now \<le> instant later"
      "allowed_receipt r (last_receipt (tv_records V) (ar_agent_id r)) result = Inr final"
      "plan = \<lparr>cp_object = tv_objects V + 1, cp_receipt = final\<rparr>"
      "V' = V\<lparr>tv_pending_preview := None, tv_objects := tv_objects V + 2, tv_pending_commit :=
         Some \<lparr>pc_capability = plan, pc_receipt = final, pc_record = new_state_record r final\<rparr>\<rparr>"
      "record_ok (tv_agent_ids V) (tv_records V) (new_state_record r final)"
  | (rejected) i p where "q = Inr (Rejection (i, p))" "\<not> ir_allowed p" "same_registry V V'"
      "tv_records V' = tv_records V" "tv_pending_preview V' = None" "tv_pending_commit V' = None"
  | (failed) e where "q = Inl e" "same_registry V V'" "tv_records V' = tv_records V"
      "tv_pending_preview V' = None" "tv_pending_commit V' = None"
proof -
  from assms(2) have v: "valid_records (tv_agent_ids V) (tv_records V)" by (simp add: verifier_ok_def)
  obtain x V1 where x: "trust_preview P r now V = (x, V1)" by fastforce
  from assms(1) v x show thesis
  proof (cases rule: trust_preview_cases)
    case (utc e)
    with x assms(3) show thesis by (intro failed [of e]) (auto simp: decide_def bindm_def)
  next
    case (failed p reason)
    with x assms(3) show thesis
      by (intro rejected [of "tv_objects V" p]) (auto simp: decide_def bindm_def same_registry_def)
  next
    case (allowed p)
    have v1: "valid_records (tv_agent_ids V) (tv_records V1)" by (simp add: allowed(6) v)
    have s1: "same_registry V V1" "tv_records V1 = tv_records V"
      by (simp_all add: allowed(6) same_registry_def)
    have "prepare_commit r p result later V1 = (q, V')"
      using assms(3) x allowed(3,4) by (simp add: decide_def bindm_def)
    with assms(1) v1 show thesis
    proof (cases rule: prepare_commit_cases)
      case (planned plan final)
      from prepare_reason_None [OF planned(4)] allowed(6) have "instant now \<le> instant later" by auto
      with planned allowed x planned_record_ok [OF assms(1) allowed(2) v planned(3), of final] s1 show thesis
        by (intro that(1) [of plan "tv_objects V" p final]) (auto simp: s1)
    next
      case (rejected i p')
      with s1 show thesis by (intro that(2)) (auto dest: same_registry_order(2))
    next
      case (failed e)
      with s1 show thesis by (intro that(3)) (auto dest: same_registry_order(2))
    qed
  qed
qed

text \<open>\<open>verify\<close> is a decision that is applied at once.\<close>

lemma trust_verify_decide:
  "trust_verify P r now V = bindm (decide P r now VerifiedReceipt now) (\<lambda>q V. case q of
       Rejection (_, p) \<Rightarrow> (Inr p, V)
     | Plan plan \<Rightarrow> (case tv_pending_commit V of
         Some p \<Rightarrow> if cp_object (pc_capability p) = cp_object plan then apply_pending p V
           else (Inl (AssertionError []), V)
       | None \<Rightarrow> (Inl (AssertionError []), V))) V"
  by (auto simp: trust_verify_def decide_def trust_commit_def bindm_def split: prod.split sum.split)

lemma trust_verify_cases:
  assumes "constructed r" "verifier_ok V" "trust_verify P r now V = (q, V')"
  obtains (verified) final where "q = Inr final" "ir_allowed final" "authorized P V r now"
      "allowed_receipt r (last_receipt (tv_records V) (ar_agent_id r)) VerifiedReceipt = Inr final"
      "record_ok (tv_agent_ids V) (tv_records V) (new_state_record r final)"
      "V' = V\<lparr>tv_pending_preview := None, tv_objects := tv_objects V + 2, tv_pending_commit := None,
         tv_records := tv_records V @ [new_state_record r final]\<rparr>"
  | (rejected) p where "q = Inr p" "\<not> ir_allowed p" "same_registry V V'"
      "tv_records V' = tv_records V" "tv_pending_preview V' = None" "tv_pending_commit V' = None"
  | (failed) e where "q = Inl e" "same_registry V V'" "tv_records V' = tv_records V"
      "tv_pending_preview V' = None" "tv_pending_commit V' = None"
proof -
  obtain x V1 where x: "decide P r now VerifiedReceipt now V = (x, V1)" by fastforce
  note run = assms(3) [unfolded trust_verify_decide bindm_def x]
  from assms(1,2) x show thesis
  proof (cases rule: decide_cases)
    case (planned plan final i p)
    have "ir_allowed final"
      using planned(6) by (auto simp: allowed_receipt_def Let_def new_receipt_Inr)
    with planned run show thesis
      by (intro verified [of final]) (auto simp: apply_pending_def)
  next
    case (rejected i p)
    with run show thesis by (intro that(2)) auto
  next
    case (failed e)
    with run show thesis by (intro that(3)) auto
  qed
qed

text \<open>An authorized request is verified.\<close>

lemma prepare_reason_allows:
  assumes "authorized P V r now" "map_of (tv_mandates V) (am_mandate_id (ar_mandate r)) = Some (ar_mandate r)"
    and "constructed r" "same_registry V V1" "tv_records V1 = tv_records V"
    and "allowed_receipt r (last_receipt (tv_records V) (ar_agent_id r)) PreviewReceipt = Inr p"
  shows "prepare_reason V1 r p now (Some ((i, p), now)) = Inr None"
proof -
  from assms(1,2) have a: "within_mandate (ar_mandate r) r now"
    "(ar_agent_id r, ar_nonce r) \<notin> (\<lambda>s. (sr_agent_id s, sr_nonce s)) ` set (tv_records V)"
    "ar_prior_receipt_hash r = last_receipt (tv_records V) (ar_agent_id r)"
    "am_required_authentication (ar_mandate r) = StepUp \<longrightarrow> evidence_accepted V (ar_mandate r) r now"
    by (auto simp: authorized_def)
  have e: "prepare_evidence_expired V1 r now = Inr False"
    using a(4) assms(4) by (auto simp: prepare_evidence_expired_def evidence_accepted_def same_registry_def)
  from a(1) have t: "instant (am_issued_at (ar_mandate r)) \<le> instant now" "instant (ar_created_at r) \<le> instant now"
    "instant now < instant (ar_expires_at r)" "instant now < instant (am_expires_at (ar_mandate r))"
    by (auto simp: within_mandate_def)
  show ?thesis
    using t a(2,3) unfolding prepare_reason_def assms(5,6) bindr_simps option.case prod.case e
    by (simp add: prepare_checks_def chain_checks_def nonce_used_iff assms(5))
qed

lemma decide_allows:
  assumes "constructed r" "verifier_ok V" "authorized P V r now" "dt_tz now = Some UTC"
    and "map_of (tv_mandates V) (am_mandate_id (ar_mandate r)) = Some (ar_mandate r)"
    and "result \<in> set final_outcomes"
  shows "\<exists>plan final V'. decide P r now result now V = (Inr (Plan plan), V') \<and> ir_allowed final \<and>
    tv_pending_commit V' = Some \<lparr>pc_capability = plan, pc_receipt = final, pc_record = new_state_record r final\<rparr> \<and>
    tv_records V' = tv_records V"
proof -
  from assms(2) have v: "valid_records (tv_agent_ids V) (tv_records V)" by (simp add: verifier_ok_def)
  obtain q V1 where q: "trust_preview P r now V = (q, V1)" by fastforce
  from assms(1) v q show ?thesis
  proof (cases rule: trust_preview_cases)
    case (allowed p)
    have s1: "same_registry V V1" "tv_records V1 = tv_records V" "tv_pending_preview V1 = Some ((tv_objects V, p), now)"
      by (simp_all add: allowed(6) same_registry_def)
    have pr: "prepare_reason V1 r p now (tv_pending_preview V1) = Inr None"
      unfolding s1(3) using prepare_reason_allows [OF assms(3,5,1) s1(1,2) allowed(5)] .
    have v1: "valid_records (tv_agent_ids V) (tv_records V1)" by (simp add: s1(2) v)
    obtain q2 V2 where q2: "prepare_commit r p result now V1 = (q2, V2)" by fastforce
    with q allowed(3,4) have d: "decide P r now result now V = (q2, V2)"
      by (simp add: decide_def bindm_def)
    from assms(1) v1 q2 show ?thesis
    proof (cases rule: prepare_commit_cases)
      case (planned plan final)
      have "ir_allowed final"
        using planned(5) by (auto simp: allowed_receipt_def Let_def new_receipt_Inr)
      with planned d s1(2) show ?thesis by auto
    qed (use pr assms(4,6) in auto)
  qed (use assms(3,4) in auto)
qed

lemma trust_verify_allows:
  assumes "constructed r" "verifier_ok V" "authorized P V r now" "dt_tz now = Some UTC"
    and "map_of (tv_mandates V) (am_mandate_id (ar_mandate r)) = Some (ar_mandate r)"
  shows "\<exists>p V'. trust_verify P r now V = (Inr p, V') \<and> ir_allowed p \<and>
    tv_records V' = tv_records V @ [new_state_record r p]"
proof -
  have "VerifiedReceipt \<in> set final_outcomes" by (simp add: final_outcomes_def)
  from decide_allows [OF assms this] show ?thesis
    by (auto simp: trust_verify_decide bindm_def apply_pending_def)
qed

lemma trust_verify_refuses:
  assumes "constructed r" "verifier_ok V" "\<not> authorized P V r now" "dt_tz now = Some UTC"
  shows "\<exists>p V'. trust_verify P r now V = (Inr p, V') \<and> \<not> ir_allowed p"
proof -
  from assms(2) have v: "valid_records (tv_agent_ids V) (tv_records V)" by (simp add: verifier_ok_def)
  obtain q V1 where q: "trust_preview P r now V = (q, V1)" by fastforce
  from assms(1) v q show ?thesis
    by (cases rule: trust_preview_cases) (use assms(3,4) q in \<open>auto simp: trust_verify_def bindm_def\<close>)
qed

lemma tv_update_simps [simp]:
  "tv_agent_ids (V\<lparr>tv_pending_preview := a\<rparr>) = tv_agent_ids V"
  "tv_agent_ids (V\<lparr>tv_pending_commit := b\<rparr>) = tv_agent_ids V"
  "tv_agent_ids (V\<lparr>tv_objects := n\<rparr>) = tv_agent_ids V"
  "tv_agent_ids (V\<lparr>tv_records := rs\<rparr>) = tv_agent_ids V"
  by (simp_all add: tv_agent_ids_def)

text \<open>What one step of a session does: it keeps the registries and the invariant, adds at most the
  record of a pending or verified decision, and never issues an old number again.\<close>

definition step_frame :: "trust_verifier \<Rightarrow> trust_verifier \<Rightarrow> bool" where
  "step_frame V V' \<longleftrightarrow> same_registry V V' \<and> verifier_ok V' \<and>
     (\<exists>ss. tv_records V' = tv_records V @ ss) \<and>
     (\<forall>p. tv_pending_commit V' = Some p \<longrightarrow>
        tv_pending_commit V = Some p \<or> tv_objects V \<le> cp_object (pc_capability p))"

lemma quiet_frame:
  assumes "verifier_ok V" "same_registry V V'" "tv_records V' = tv_records V" "tv_pending_commit V' = None"
  shows "step_frame V V'"
  using assms same_registry_ids [OF assms(2)] by (simp add: step_frame_def verifier_ok_def)

lemma preview_frame:
  assumes "constructed r" "verifier_ok V"
  shows "step_frame V (snd (trust_preview P r now V))"
proof -
  obtain q V' where q: "trust_preview P r now V = (q, V')" by fastforce
  from assms(2) have v: "valid_records (tv_agent_ids V) (tv_records V)" by (simp add: verifier_ok_def)
  from assms(1) v q show ?thesis
    by (cases rule: trust_preview_cases)
      (auto simp: q same_registry_def intro!: quiet_frame [OF assms(2)])
qed

lemma decide_frame:
  assumes "constructed r" "verifier_ok V"
  shows "step_frame V (snd (decide P r now result later V))"
proof -
  obtain q V' where q: "decide P r now result later V = (q, V')" by fastforce
  from assms q show ?thesis
  proof (cases rule: decide_cases)
    case (planned plan final i p)
    with assms(2) show ?thesis
      by (auto simp: q step_frame_def same_registry_def verifier_ok_def)
  qed (auto simp: q intro!: quiet_frame [OF assms(2)])
qed

lemma verify_frame:
  assumes "constructed r" "verifier_ok V"
  shows "step_frame V (snd (trust_verify P r now V))"
proof -
  obtain q V' where q: "trust_verify P r now V = (q, V')" by fastforce
  from assms q show ?thesis
  proof (cases rule: trust_verify_cases)
    case (verified final)
    with assms(2) show ?thesis
      by (auto simp: q step_frame_def same_registry_def verifier_ok_def valid_records_snoc)
  qed (auto simp: q intro!: quiet_frame [OF assms(2)])
qed

lemma apply_commit_cases:
  obtains (applied) p where "tv_pending_commit V = Some p" "cp_object (pc_capability p) = cp_object plan"
      "apply_commit plan V = (Inr (pc_receipt p), V\<lparr>tv_pending_preview := None, tv_pending_commit := None,
         tv_records := tv_records V @ [pc_record p]\<rparr>)"
  | (refused) "\<forall>p. tv_pending_commit V = Some p \<longrightarrow> cp_object (pc_capability p) \<noteq> cp_object plan"
      "apply_commit plan V = (Inl unissued_plan, V\<lparr>tv_pending_preview := None, tv_pending_commit := None\<rparr>)"
proof (cases "\<exists>p. tv_pending_commit V = Some p \<and> cp_object (pc_capability p) = cp_object plan")
  case True
  then show thesis
    by (auto intro!: applied simp: apply_commit_def bindm_def revoke_ephemeral_def apply_pending_def)
next
  case False
  then show thesis
    by (intro refused) (auto simp: apply_commit_def bindm_def revoke_ephemeral_def split: option.split)
qed

lemma apply_frame:
  assumes "verifier_ok V"
  shows "step_frame V (snd (apply_commit plan V))"
proof (cases rule: apply_commit_cases [where V = V and plan = plan])
  case (applied p)
  with assms show ?thesis
    by (auto simp: step_frame_def same_registry_def verifier_ok_def valid_records_snoc)
next
  case refused
  then show ?thesis by (auto simp: same_registry_def intro!: quiet_frame [OF assms])
qed

lemma discard_frame:
  assumes "verifier_ok V"
  shows "step_frame V (snd (discard_commit plan V))" "step_frame V (snd (discard_preview i V))"
  using assms
  by (auto simp: discard_commit_def discard_preview_def bindm_def revoke_ephemeral_def same_registry_def
      intro!: quiet_frame split: option.split)

lemma load_ok:
  assumes "verifier_ok V"
  shows "verifier_ok (snd (load_state v V)) \<and> same_registry V (snd (load_state v V))"
  using assms loaded_records_valid [of V v]
  by (auto simp: load_state_def verifier_ok_def same_registry_def rethrow_Inr split: sum.split)

text \<open>A pending preview is of the request the session remembers, which was authorized.\<close>

definition previewed :: "ed25519 \<Rightarrow> trust_verifier \<Rightarrow> payment_request option \<Rightarrow> bool" where
  "previewed P V g \<longleftrightarrow> (\<forall>i p since. tv_pending_preview V = Some ((i, p), since) \<longrightarrow>
     (\<exists>r. g = Some r \<and> constructed r \<and> authorized P V r since \<and>
       allowed_receipt r (last_receipt (tv_records V) (ar_agent_id r)) PreviewReceipt = Inr p))"

lemma previewed_None: "tv_pending_preview V = None \<Longrightarrow> previewed P V g"
  by (simp add: previewed_def)

lemma preview_previewed:
  assumes "constructed r" "verifier_ok V"
  shows "previewed P (snd (trust_preview P r now V)) (Some r)"
proof -
  obtain q V' where q: "trust_preview P r now V = (q, V')" by fastforce
  from assms(2) have v: "valid_records (tv_agent_ids V) (tv_records V)" by (simp add: verifier_ok_def)
  from assms(1) v q show ?thesis
  proof (cases rule: trust_preview_cases)
    case (allowed p)
    have "authorized P V' r now"
      using allowed(2,6) authorized_cong [of V V' P r now] by (simp add: same_registry_def)
    with allowed assms(1) show ?thesis by (simp add: q previewed_def)
  qed (simp_all add: q previewed_None)
qed

lemma prepare_frame:
  assumes "constructed r" "verifier_ok V" "previewed P V g" "no_collision g r"
    and "prepare_commit r p result now V = (q, V')"
  shows "step_frame V V' \<and> tv_pending_preview V' = None"
proof -
  from assms(2) have v: "valid_records (tv_agent_ids V) (tv_records V)" by (simp add: verifier_ok_def)
  from assms(1) v assms(5) show ?thesis
  proof (cases rule: prepare_commit_cases)
    case (planned plan final)
    from prepare_reason_None [OF planned(4)] obtain i since where pre:
      "tv_pending_preview V = Some ((i, p), since)"
      "allowed_receipt r (last_receipt (tv_records V) (ar_agent_id r)) PreviewReceipt = Inr p"
      "(ar_agent_id r, ar_nonce r) \<notin> (\<lambda>s. (sr_agent_id s, sr_nonce s)) ` set (tv_records V)" by blast
    from assms(3) pre(1) obtain r0 where r0: "g = Some r0" "constructed r0" "authorized P V r0 since"
      "allowed_receipt r0 (last_receipt (tv_records V) (ar_agent_id r0)) PreviewReceipt = Inr p"
      unfolding previewed_def by blast
    have "sha256_hex (signing_bytes r0) = sha256_hex (signing_bytes r)"
      using allowed_receipt_request [OF pre(2)] allowed_receipt_request [OF r0(4)] by simp
    with assms(4) r0(1) have "signing_bytes r0 = signing_bytes r" by (simp add: no_collision_def)
    note same = signing_bytes_fields [OF this]
    have "record_ok (tv_agent_ids V) (tv_records V) (new_state_record r final)"
      by (rule fresh_record_ok [OF assms(1) v planned(3,5)])
        (use authorized_fresh [OF r0(2,3)] pre(3) same in auto)
    with assms(2) planned(6,7) show ?thesis
      by (auto simp: step_frame_def same_registry_def verifier_ok_def)
  qed (auto intro: quiet_frame [OF assms(2)])
qed

text \<open>\<open>commit\<close> applies the plan it has just prepared, so its assertion holds.\<close>

lemma commit_prepared:
  assumes "constructed r" "valid_records ids (tv_records V)" "prepare_commit r p result now V = (q, V')"
  shows "trust_commit r p result now V = (case q of
      Inl e \<Rightarrow> (Inl e, V')
    | Inr (Rejection (i, x)) \<Rightarrow> (Inr x, V')
    | Inr (Plan plan) \<Rightarrow> apply_pending (the (tv_pending_commit V')) V')"
  using assms
  by (cases rule: prepare_commit_cases) (auto simp: trust_commit_def bindm_def assms(3))

lemma commit_frame:
  assumes "constructed r" "verifier_ok V" "previewed P V g" "no_collision g r"
  shows "step_frame V (snd (trust_commit r p result now V)) \<and>
    tv_pending_preview (snd (trust_commit r p result now V)) = None"
proof -
  obtain q V' where q: "prepare_commit r p result now V = (q, V')" by fastforce
  from assms(2) have v: "valid_records (tv_agent_ids V) (tv_records V)" by (simp add: verifier_ok_def)
  note f = prepare_frame [OF assms q] and run = commit_prepared [OF assms(1) v q]
  from assms(1) v q show ?thesis
  proof (cases rule: prepare_commit_cases)
    case (planned plan final)
    with f have "record_ok (tv_agent_ids V) (tv_records V) (new_state_record r final)"
      by (simp add: step_frame_def verifier_ok_def)
    with assms(2) planned(1,7) show ?thesis
      unfolding run by (auto simp: apply_pending_def step_frame_def same_registry_def verifier_ok_def valid_records_snoc)
  next
    case (rejected i x)
    with f show ?thesis by (simp add: run)
  next
    case (failed e)
    with f show ?thesis by (simp add: run)
  qed
qed

lemma closing_frames:
  assumes "verifier_ok V"
  shows "constructed r \<Longrightarrow> tv_pending_preview (snd (decide P r now result later V)) = None"
    "constructed r \<Longrightarrow> tv_pending_preview (snd (trust_verify P r now V)) = None"
    "tv_pending_preview (snd (apply_commit plan V)) = None"
    "tv_pending_preview (snd (discard_commit plan V)) = None"
    "tv_pending_preview (snd (discard_preview x V)) = None"
proof -
  assume r: "constructed r"
  obtain q V' where d: "decide P r now result later V = (q, V')" by fastforce
  from r assms d show "tv_pending_preview (snd (decide P r now result later V)) = None"
    by (cases rule: decide_cases) (simp_all add: d)
  obtain q V' where v: "trust_verify P r now V = (q, V')" by fastforce
  from r assms v show "tv_pending_preview (snd (trust_verify P r now V)) = None"
    by (cases rule: trust_verify_cases) (simp_all add: v)
next
  show "tv_pending_preview (snd (apply_commit plan V)) = None"
    by (cases rule: apply_commit_cases [where V = V and plan = plan]) simp_all
  show "tv_pending_preview (snd (discard_commit plan V)) = None" "tv_pending_preview (snd (discard_preview x V)) = None"
    by (auto simp: discard_commit_def discard_preview_def bindm_def revoke_ephemeral_def split: option.split)
qed

definition session_frame :: "bool \<Rightarrow> trust_verifier \<Rightarrow> trust_verifier \<Rightarrow> bool" where
  "session_frame loads V V' \<longleftrightarrow> verifier_ok V' \<and> same_registry V V' \<and>
     (\<not> loads \<longrightarrow> (\<exists>ss. tv_records V' = tv_records V @ ss))"

lemma session_frame_step:
  assumes "session_frame loads V0 V" "step_frame V V'"
  shows "session_frame loads V0 V'"
  using assms by (auto simp: session_frame_def step_frame_def intro: same_registry_order(2))

lemma pending_closed:
  assumes "session_frame loads V0 V \<and> previewed P V g" "verifier_ok V \<Longrightarrow> step_frame V V'"
    and "verifier_ok V \<Longrightarrow> tv_pending_preview V' = None"
  shows "session_frame loads V0 V' \<and> previewed P V' g'"
  using assms session_frame_step [of loads V0 V V'] previewed_None by (auto simp: session_frame_def)

text \<open>Every step but loading is a \<open>step_frame\<close>, and only a preview leaves a preview pending.\<close>

lemma run_framed:
  assumes "trust_run P loads V0 g V" "verifier_ok V0" "tv_pending_preview V0 = None"
  shows "session_frame loads V0 V \<and> previewed P V g"
  using assms(1)
proof induction
  case starts
  then show ?case using assms by (simp add: session_frame_def same_registry_order previewed_None)
next
  case (previews g V r now)
  have "verifier_ok V" using previews.IH by (simp add: session_frame_def)
  with session_frame_step [OF conjunct1 [OF previews.IH] preview_frame] preview_previewed previews.hyps
  show ?case by simp
next
  case (prepares g V r p result now)
  from prepares show ?case
    by (intro pending_closed [OF prepares.IH]; cases "prepare_commit r p result now V")
      (auto dest: prepare_frame)
next
  case (commits g V r p result now)
  from commits show ?case by (intro pending_closed [OF commits.IH]) (auto dest: commit_frame)
next
  case (decides g V r now result later)
  then show ?case by (intro pending_closed [OF decides.IH] decide_frame closing_frames)
next
  case (verifies g V r now)
  then show ?case by (intro pending_closed [OF verifies.IH] verify_frame closing_frames)
next
  case (applies g V plan)
  show ?case by (intro pending_closed [OF applies.IH] apply_frame closing_frames)
next
  case (discards g V plan)
  show ?case by (intro pending_closed [OF discards.IH] discard_frame closing_frames)
next
  case (discards_preview g V i)
  show ?case by (intro pending_closed [OF discards_preview.IH] discard_frame closing_frames)
next
  case (loads g V v)
  from loads load_ok [of V v] show ?case
    by (cases "loaded_records V v")
      (auto simp: session_frame_def previewed_def load_state_def rethrow_def intro: same_registry_order(2))
qed

lemma session_framed:
  assumes "trust_session P loads V0 V" "verifier_ok V0" "tv_pending_preview V0 = None"
  shows "session_frame loads V0 V"
  using assms run_framed by (auto simp: trust_session_def)

lemma new_verifier_ok:
  assumes "new_verifier P agents mandates evidence = Inr V"
  shows "verifier_ok V" "tv_pending_preview V = None"
  using assms by (auto simp: new_verifier_def bindr_Inr verifier_ok_def)

end
