(* ===== verification/Agentic.thy ===== *)
theory Agentic
  imports TrustProperties Engine
begin

text \<open>
  The agentic rail (\<open>simulator/rails/agentic.py\<close>): signed payment requests as commands, the decision
  that joins the verifier's preview with a risk scorer, and the adapter whose \<open>handle\<close> loads the
  trust state from the engine, decides, posts, stores the projected state and only then commits. The
  engine's adapter state is the verifier; the scorer is a parameter whose result is an action, an
  object of another class (\<open>None\<close>) or an exception.
\<close>

section \<open>Requests as payloads\<close>

definition agentic_text :: "string \<Rightarrow> pyval \<Rightarrow> string res" where
  "agentic_text = rail_text"

definition request_payload :: "payment_request \<Rightarrow> payload" where
  "request_payload r = (let m = ar_mandate r in
     [(''request_id'', PStr (ar_request_id r)), (''payment_id'', PStr (ar_payment_id r)),
      (''agent_id'', PStr (ar_agent_id r)), (''key_id'', PStr (ar_key_id r)),
      (''mandate_id'', PStr (am_mandate_id m)), (''mandate_version'', PInt (am_version m)),
      (''mandate_agent_id'', PStr (am_agent_id m)), (''user_ref'', PStr (am_user_ref m)),
      (''user_entity_id'', PStr (am_user_entity_id m)),
      (''beneficiary_entity_id'', PStr (am_beneficiary_entity_id m)),
      (''mandate_consent_ref'', PStr (am_consent_ref m)),
      (''mandate_merchant_id'', PStr (am_merchant_id m)), (''mandate_payee_id'', PStr (am_payee_id m)),
      (''mandate_cart_hash'', PStr (am_cart_hash m)),
      (''mandate_payment_intent_hash'', PStr (am_payment_intent_hash m)),
      (''permitted_categories'', PTuple (map PStr (am_permitted_categories m))),
      (''permitted_products'', PTuple (map PStr (am_permitted_products m))),
      (''mandate_credential_id'', PStr (am_credential_id m)),
      (''mandate_credential_scope'', PStr (am_credential_scope m)),
      (''required_authentication'', PStr (requirement_value (am_required_authentication m))),
      (''max_amount'', PDec (am_max_amount m)), (''mandate_currency'', PStr (am_currency m)),
      (''mandate_issued_at'', PDt (am_issued_at m)), (''mandate_expires_at'', PDt (am_expires_at m)),
      (''amount'', PDec (ar_amount r)), (''currency'', PStr (ar_currency r)),
      (''merchant_id'', PStr (ar_merchant_id r)), (''payee_id'', PStr (ar_payee_id r)),
      (''cart_hash'', PStr (ar_cart_hash r)),
      (''payment_intent_hash'', PStr (ar_payment_intent_hash r)),
      (''category'', PStr (ar_category r)), (''product_id'', PStr (ar_product_id r)),
      (''credential_id'', PStr (ar_credential_id r)),
      (''credential_scope'', PStr (ar_credential_scope r)),
      (''consent_ref'', PStr (ar_consent_ref r)),
      (''authentication_evidence_ref'', case ar_evidence_ref r of None \<Rightarrow> PNone | Some e \<Rightarrow> PStr e),
      (''nonce'', PStr (ar_nonce r)), (''created_at'', PDt (ar_created_at r)),
      (''expires_at'', PDt (ar_expires_at r)),
      (''prior_receipt_hash'', PStr (ar_prior_receipt_hash r)),
      (''campaign_id'', PStr (ar_campaign_id r)), (''trace_id'', PStr (ar_trace_id r)),
      (''actor_id'', PStr (ar_actor_id r)), (''counterparty_id'', PStr (ar_counterparty_id r)),
      (''signature'', PBytes (ar_signature r))])"

text \<open>\<open>AuthenticationRequirement(value)\<close>\<close>

fun requirement_of :: "pyval \<Rightarrow> auth_requirement res" where
  "requirement_of (PStr t) =
     (if t = ''none'' then Inr NoAuthentication else if t = ''step_up'' then Inr StepUp
      else Inl (ValueError ''not a valid AuthenticationRequirement''))"
| "requirement_of _ = Inl (ValueError ''not a valid AuthenticationRequirement'')"

text \<open>Keyword arguments read from a payload: the parameter and the key it is read from.\<close>

definition pick :: "payload \<Rightarrow> (string \<times> string) list \<Rightarrow> payload res" where
  "pick p = mapr (\<lambda>(parameter, key). bindr (dict_get p key) (\<lambda>v. Inr (parameter, v)))"

definition mandate_arguments :: "(string \<times> string) list" where
  "mandate_arguments =
     [(''mandate_id'', ''mandate_id''), (''version'', ''mandate_version''),
      (''agent_id'', ''mandate_agent_id''), (''user_ref'', ''user_ref''),
      (''user_entity_id'', ''user_entity_id''), (''beneficiary_entity_id'', ''beneficiary_entity_id''),
      (''consent_ref'', ''mandate_consent_ref''), (''merchant_id'', ''mandate_merchant_id''),
      (''payee_id'', ''mandate_payee_id''), (''cart_hash'', ''mandate_cart_hash''),
      (''payment_intent_hash'', ''mandate_payment_intent_hash''),
      (''permitted_categories'', ''permitted_categories''),
      (''permitted_products'', ''permitted_products''), (''credential_id'', ''mandate_credential_id''),
      (''credential_scope'', ''mandate_credential_scope''), (''max_amount'', ''max_amount''),
      (''currency'', ''mandate_currency''), (''issued_at'', ''mandate_issued_at''),
      (''expires_at'', ''mandate_expires_at'')]"

definition request_arguments :: "(string \<times> string) list" where
  "request_arguments = map (\<lambda>k. (k, k))
     [''request_id'', ''payment_id'', ''agent_id'', ''key_id'', ''amount'', ''currency'', ''merchant_id'',
      ''payee_id'', ''cart_hash'', ''payment_intent_hash'', ''category'', ''product_id'',
      ''credential_id'', ''credential_scope'', ''consent_ref'', ''authentication_evidence_ref'',
      ''nonce'', ''created_at'', ''expires_at'', ''prior_receipt_hash'', ''campaign_id'', ''trace_id'',
      ''actor_id'', ''counterparty_id'', ''signature'']"

definition request_from_payload :: "payload \<Rightarrow> payment_request res" where
  "request_from_payload p =
     bindr (pick p mandate_arguments) (\<lambda>margs.
     bindr (bindr (dict_get p ''required_authentication'') requirement_of) (\<lambda>requirement.
     bindr (new_mandate margs (Some requirement)) (\<lambda>mandate.
     bindr (pick p request_arguments) (\<lambda>rargs.
     new_request rargs (Some mandate)))))"

definition agentic_request_keys :: "string list" where
  "agentic_request_keys =
     [''request_id'', ''payment_id'', ''agent_id'', ''key_id'', ''mandate_id'', ''mandate_version'',
      ''mandate_agent_id'', ''user_ref'', ''user_entity_id'', ''beneficiary_entity_id'',
      ''mandate_consent_ref'', ''mandate_merchant_id'', ''mandate_payee_id'', ''mandate_cart_hash'',
      ''mandate_payment_intent_hash'', ''permitted_categories'', ''permitted_products'',
      ''mandate_credential_id'', ''mandate_credential_scope'', ''required_authentication'',
      ''max_amount'', ''mandate_currency'', ''mandate_issued_at'', ''mandate_expires_at'', ''amount'',
      ''currency'', ''merchant_id'', ''payee_id'', ''cart_hash'', ''payment_intent_hash'', ''category'',
      ''product_id'', ''credential_id'', ''credential_scope'', ''consent_ref'',
      ''authentication_evidence_ref'', ''nonce'', ''created_at'', ''expires_at'',
      ''prior_receipt_hash'', ''campaign_id'', ''trace_id'', ''actor_id'', ''counterparty_id'',
      ''signature'']"

definition agentic_payload_keys :: "string list" where
  "agentic_payload_keys = agentic_request_keys @ [''payer_account'', ''payee_account'']"

definition bytes_hex :: "string \<Rightarrow> string" where
  "bytes_hex b = concat (map (\<lambda>c. hexw 2 (of_char c)) b)"

definition all_texts :: "pyval list \<Rightarrow> string list option" where
  "all_texts xs = those (map (\<lambda>v. case v of PStr s \<Rightarrow> Some s | _ \<Rightarrow> None) xs)"

fun agentic_row :: "string \<times> pyval \<Rightarrow> string list res" where
  "agentic_row (k, PNone) = Inr [k, ''none'', []]"
| "agentic_row (k, PStr s) = Inr [k, ''str'', s]"
| "agentic_row (k, PInt i) = Inr [k, ''int'', int_str i]"
| "agentic_row (k, PDec d) = Inr [k, ''decimal'', dec_str d]"
| "agentic_row (k, PDt d) = Inr [k, ''datetime'', isoformat d]"
| "agentic_row (k, PBytes b) = Inr [k, ''bytes'', bytes_hex b]"
| "agentic_row (k, PTuple xs) = (case all_texts xs of
       Some ts \<Rightarrow> Inr [k, ''tuple[str]'', json_list json_str ts]
     | None \<Rightarrow> Inl (TypeError ''agentic command payload contains unsupported value type''))"
| "agentic_row (k, _) = Inl (TypeError ''agentic command payload contains unsupported value type'')"

definition agentic_fingerprint :: "payload \<Rightarrow> string res" where
  "agentic_fingerprint p =
     bindr (mapr agentic_row (sort_key fst p)) (\<lambda>rows. Inr (sha256_hex (json_rows rows)))"

section \<open>Commands\<close>

text \<open>\<open>AgenticPaymentCommand.__init__\<close>\<close>

definition agentic_command :: "payment_request \<Rightarrow> pyval \<Rightarrow> pyval \<Rightarrow> command res" where
  "agentic_command r payer_account payee_account =
     bindr (agentic_text ''payer_account'' payer_account) (\<lambda>payer.
     bindr (agentic_text ''payee_account'' payee_account) (\<lambda>payee.
     if payer \<noteq> am_user_ref (ar_mandate r) \<or> payee \<noteq> ar_payee_id r
     then Inl (ValueError ''ledger accounts must match signed request binding'')
     else if payer = payee then Inl (ValueError ''agentic account roles must be pairwise distinct'')
     else new_command AgenticPaymentCommand (PStr ''agentic.pay'')
       (map (\<lambda>(k, v). (PStr k, v))
         (request_payload r @ [(''payer_account'', PStr payer), (''payee_account'', PStr payee)]))))"

definition agentic_campaign_id :: "command \<Rightarrow> string" where
  "agentic_campaign_id cmd = payload_str (cmd_payload cmd) ''campaign_id''"

definition agentic_canonical :: "command \<Rightarrow> command res" where
  "agentic_canonical cmd =
     (if cmd_class cmd \<noteq> AgenticPaymentCommand then Inl (LifecycleError ''AGENTIC_UNKNOWN_COMMAND'')
      else rethrow (LifecycleError ''AGENTIC_COMMAND_INVALID'')
        (if cmd_name cmd \<noteq> ''agentic.pay''
         then Inl (ValueError ''command name does not match agentic payment operation'')
         else if set (map fst (cmd_payload cmd)) \<noteq> set agentic_payload_keys
         then Inl (ValueError ''agentic command payload fields are invalid'')
         else
           bindr (agentic_fingerprint (cmd_payload cmd)) (\<lambda>incoming.
           bindr (request_from_payload (cmd_payload cmd)) (\<lambda>r.
           bindr (dict_get (cmd_payload cmd) ''payer_account'') (\<lambda>payer.
           bindr (dict_get (cmd_payload cmd) ''payee_account'') (\<lambda>payee.
           bindr (agentic_command r payer payee) (\<lambda>canonical.
           bindr (agentic_fingerprint (cmd_payload canonical)) (\<lambda>fp.
           if fp \<noteq> incoming then Inl (ValueError ''agentic command payload is not canonical'')
           else Inr canonical))))))))"

section \<open>Decisions\<close>

record agentic_decision =
  dc_action :: action
  dc_reasons :: "reason_code list"
  dc_receipt :: receipt

type_synonym scorer = "payment_request \<Rightarrow> receipt \<Rightarrow> action option res"

definition agentic_process ::
  "ed25519 \<Rightarrow> scorer \<Rightarrow> payment_request \<Rightarrow> datetime \<Rightarrow> agentic_decision trusting" where
  "agentic_process P score r now =
     bindm (trust_preview P r now) (\<lambda>(i, p).
     if \<not> ir_allowed p
     then (case ir_reason_code p of
             None \<Rightarrow> raise (AssertionError [])
           | Some reason \<Rightarrow> ret \<lparr>dc_action = Decline, dc_reasons = [reason], dc_receipt = p\<rparr>)
     else (case score r p of
             Inl e \<Rightarrow> bindm (discard_preview (i, p)) (\<lambda>_. raise e)
           | Inr None \<Rightarrow> bindm (discard_preview (i, p))
               (\<lambda>_. raise (TypeError ''agentic risk scorer must return an exact Action''))
           | Inr (Some a) \<Rightarrow> ret \<lparr>dc_action = a, dc_reasons = [], dc_receipt = p\<rparr>))"

fun action_outcome :: "action \<Rightarrow> receipt_outcome" where
  "action_outcome Approve = ApproveReceipt"
| "action_outcome Challenge = ChallengeReceipt"
| "action_outcome Decline = DeclineReceipt"

section \<open>The adapter\<close>

type_synonym 'j agentic_engine = "(trust_verifier, 'j) engine"

text \<open>A call on the adapter's verifier.\<close>

definition on_verifier :: "'r trusting \<Rightarrow> ('j agentic_engine, 'r) act" where
  "on_verifier m E = (case en_adapter E of
       None \<Rightarrow> (Inl (AssertionError []), E)
     | Some V \<Rightarrow> (case m V of (x, V') \<Rightarrow> (x, E\<lparr>en_adapter := Some V'\<rparr>)))"

definition trust_state_id :: string where
  "trust_state_id = ''agentic:trust''"

definition agentic_initialize :: "'j pydantic \<Rightarrow> ('j agentic_engine, unit) act" where
  "agentic_initialize C =
     bindm (engine_bundle C) (\<lambda>b.
     if sc_rail b \<noteq> Agentic then raise (ValueError ''agentic adapter requires an agentic scenario'')
     else ret ())"

definition agentic_event_kind :: "action \<Rightarrow> receipt \<Rightarrow> event_kind" where
  "agentic_event_kind a p =
     (if a = Approve \<and> ir_allowed p then Authorization
      else if a = Challenge \<and> ir_allowed p then AuthenticationChallenge
      else AuthorizationDeclined)"

definition agentic_payment_event ::
  "string \<Rightarrow> datetime \<Rightarrow> payment_request \<Rightarrow> agentic_decision \<Rightarrow> string \<Rightarrow> payment_event" where
  "agentic_payment_event viewpoint now r d event_id =
     (let p = dc_receipt d; m = ar_mandate r;
          reason = (case ir_reason_code p of None \<Rightarrow> [] | Some code \<Rightarrow> reason_value code)
      in \<lparr>pe_schema_version = ''1.0.0'', pe_event_id = event_id, pe_campaign_id = ar_campaign_id r,
        pe_trace_id = ar_trace_id r, pe_rail = Agentic, pe_viewpoint = viewpoint,
        pe_event_type = agentic_event_kind (dc_action d) p,
        pe_amount = ar_amount r, pe_currency = ar_currency r,
        pe_event_time = now, pe_ingested_at = now, pe_available_at = now, pe_decision_at = Some now,
        pe_actor_id = ar_actor_id r, pe_counterparty_id = ar_counterparty_id r,
        pe_party_refs = [(''user_ref'', am_user_ref m), (''merchant_id'', ar_merchant_id r),
          (''payee_id'', ar_payee_id r), (''user_entity_id'', am_user_entity_id m),
          (''beneficiary_entity_id'', am_beneficiary_entity_id m)],
        pe_rail_data = [(''payment_id'', PStr (ar_payment_id r)), (''request_id'', PStr (ar_request_id r)),
          (''integrity'', PStr (if ir_allowed p then ''pass'' else ''fail'')),
          (''reason_code'', PStr reason), (''action'', PStr (action_value (dc_action d))),
          (''receipt_hash'', PStr (ir_receipt_hash p)),
          (''receipt_outcome'', PStr (outcome_value (ir_outcome p)))],
        pe_lineage = [(''synthetic'', PBool True)],
        pe_privacy = [(''classification'', ''synthetic'')], pe_extensions = []\<rparr>)"

definition agentic_event ::
  "'j pydantic \<Rightarrow> payment_request \<Rightarrow> agentic_decision \<Rightarrow> string \<Rightarrow> ('j agentic_engine, payment_event) act" where
  "agentic_event C r d event_id =
     bindm (engine_bundle C) (\<lambda>b.
     bindm engine_now (\<lambda>now.
     liftr (payment_event_valid (agentic_payment_event (sc_viewpoint b) now r d event_id))))"

definition agentic_report ::
  "'j pydantic \<Rightarrow> payment_request \<Rightarrow> agentic_decision \<Rightarrow> ('j agentic_engine, payment_event list) act" where
  "agentic_report C r d =
     bindm engine_new_uuid (\<lambda>event_id. bindm (agentic_event C r d event_id) (\<lambda>ev. ret [ev]))"

text \<open>\<open>context.entity_state\<close> with its \<open>except KeyError\<close>, and \<open>load_state\<close> with its \<open>except\<close>.\<close>

definition agentic_state :: "('j agentic_engine, pyval) act" where
  "agentic_state = (\<lambda>E. case engine_entity_state trust_state_id E of
       (Inl (KeyError _), E') \<Rightarrow> (Inr (str_map [(''version'', PInt 1), (''records'', PTuple [])]), E')
     | x \<Rightarrow> x)"

definition agentic_load :: "pyval \<Rightarrow> ('j agentic_engine, unit) act" where
  "agentic_load v = (\<lambda>E. case on_verifier (load_state v) E of
       (Inl TrustVerifierStateError, E') \<Rightarrow> (Inl (LifecycleError ''AGENTIC_STATE_CORRUPT''), E')
     | x \<Rightarrow> x)"

definition agentic_entry :: "string \<Rightarrow> string \<Rightarrow> payment_request \<Rightarrow> string \<Rightarrow> ledger_entry" where
  "agentic_entry payer payee r event_id =
     posting (event_id @ '':agentic-payment'') [(payer, ar_amount r)] [(payee, ar_amount r)] (ar_currency r)"

text \<open>\<open>try: ... except Exception: cleanup; raise\<close>\<close>

definition on_error :: "('s, 'b) act \<Rightarrow> ('s, unit) act \<Rightarrow> ('s, 'b) act" where
  "on_error m cleanup = (\<lambda>s. case m s of
       (Inl e, s') \<Rightarrow> bindm cleanup (\<lambda>_. raise e) s'
     | (Inr x, s') \<Rightarrow> (Inr x, s'))"

definition agentic_effect ::
  "string \<Rightarrow> string \<Rightarrow> payment_request \<Rightarrow> action \<Rightarrow> string \<Rightarrow> pyval \<Rightarrow> ('j agentic_engine, unit) act" where
  "agentic_effect payer payee r a event_id projected =
     bindm (if a = Approve then engine_post (agentic_entry payer payee r event_id) else ret ()) (\<lambda>_.
     engine_set_entity_state trust_state_id projected)"

definition agentic_execute ::
  "'j pydantic \<Rightarrow> command \<Rightarrow> payment_request \<Rightarrow> action \<Rightarrow> commit_plan \<Rightarrow>
    ('j agentic_engine, payment_event list) act" where
  "agentic_execute C cmd r a plan =
     bindm engine_new_uuid (\<lambda>event_id.
     bindm (agentic_event C r \<lparr>dc_action = a, dc_reasons = [], dc_receipt = cp_receipt plan\<rparr> event_id) (\<lambda>ev.
     bindm (on_verifier (projected_state plan)) (\<lambda>projected.
     bindm (on_error
       (agentic_effect (payload_str (cmd_payload cmd) ''payer_account'')
         (payload_str (cmd_payload cmd) ''payee_account'') r a event_id projected)
       (on_verifier (discard_commit plan))) (\<lambda>_.
     bindm (on_verifier (apply_commit plan)) (\<lambda>_. ret [ev])))))"

definition agentic_decide ::
  "'j pydantic \<Rightarrow> command \<Rightarrow> payment_request \<Rightarrow> agentic_decision \<Rightarrow> ('j agentic_engine, payment_event list) act" where
  "agentic_decide C cmd r d =
     (if \<not> ir_allowed (dc_receipt d) then agentic_report C r d
      else
        bindm engine_now (\<lambda>now.
        bindm (on_verifier (prepare_commit r (dc_receipt d) (action_outcome (dc_action d)) now)) (\<lambda>q.
        case q of
          Rejection (i, p) \<Rightarrow>
            (case ir_reason_code p of
               None \<Rightarrow> raise (AssertionError [])
             | Some reason \<Rightarrow>
                 agentic_report C r \<lparr>dc_action = Decline, dc_reasons = [reason], dc_receipt = p\<rparr>)
        | Plan plan \<Rightarrow> agentic_execute C cmd r (dc_action d) plan)))"

definition agentic_handle ::
  "'j pydantic \<Rightarrow> ed25519 \<Rightarrow> scorer \<Rightarrow> command \<Rightarrow> ('j agentic_engine, payment_event list) act" where
  "agentic_handle C P score cmd =
     bindm (liftr (agentic_canonical cmd)) (\<lambda>canonical.
     bindm agentic_state (\<lambda>state.
     bindm (agentic_load state) (\<lambda>_.
     bindm (liftr (request_from_payload (cmd_payload canonical))) (\<lambda>r.
     bindm engine_now (\<lambda>now.
     bindm (on_verifier (agentic_process P score r now)) (\<lambda>d.
     agentic_decide C canonical r d))))))"

definition agentic_adapter :: "'j pydantic \<Rightarrow> ed25519 \<Rightarrow> scorer \<Rightarrow> (trust_verifier, 'j) rail_ops" where
  "agentic_adapter C P score =
     \<lparr>ad_initialize = agentic_initialize C, ad_handle = agentic_handle C P score\<rparr>"

end
