(* ===== verification/TrustExamples.thy ===== *)
theory TrustExamples
  imports TrustProperties Examples
begin

text \<open>A registered agent, an approved mandate and a signed request, for the witnesses: the example
  signature scheme accepts the key itself as the signature.\<close>

definition echo_keys :: ed25519 where
  "echo_keys = \<lparr>valid_key = (\<lambda>k. True), ed_verify = (\<lambda>key signature message. signature = key)\<rparr>"

definition demo_key :: string where
  "demo_key = replicate 32 CHR 0x41"

definition demo_hash :: string where
  "demo_hash = sha256_hex ''cart''"

definition demo_mandate :: agent_mandate where
  "demo_mandate = \<lparr>am_mandate_id = ''m1'', am_version = 1, am_agent_id = ''agent'', am_user_ref = ''A'',
     am_user_entity_id = demo_uuid, am_beneficiary_entity_id = demo_uuid, am_consent_ref = ''c1'',
     am_merchant_id = ''shop'', am_payee_id = ''B'', am_cart_hash = demo_hash,
     am_payment_intent_hash = demo_hash, am_permitted_categories = [''books''],
     am_permitted_products = [''p''], am_credential_id = ''cred'', am_credential_scope = ''pay'',
     am_required_authentication = NoAuthentication, am_max_amount = Dec False 2500 (-2),
     am_currency = ''USD'', am_issued_at = utc_at 0, am_expires_at = utc_at 100\<rparr>"

definition demo_request :: payment_request where
  "demo_request = \<lparr>ar_request_id = ''r1'', ar_payment_id = ''p1'', ar_agent_id = ''agent'',
     ar_key_id = ''k1'', ar_mandate = demo_mandate, ar_amount = Dec False 2500 (-2),
     ar_currency = ''USD'', ar_merchant_id = ''shop'', ar_payee_id = ''B'', ar_cart_hash = demo_hash,
     ar_payment_intent_hash = demo_hash, ar_category = ''books'', ar_product_id = ''p'',
     ar_credential_id = ''cred'', ar_credential_scope = ''pay'', ar_consent_ref = ''c1'',
     ar_evidence_ref = None, ar_nonce = ''n1'', ar_created_at = utc_at 0, ar_expires_at = utc_at 50,
     ar_prior_receipt_hash = [], ar_campaign_id = demo_uuid, ar_trace_id = demo_uuid,
     ar_actor_id = demo_uuid, ar_counterparty_id = demo_uuid, ar_signature = demo_key\<rparr>"

definition demo_request_args :: payload where
  "demo_request_args = [(''request_id'', PStr ''r1''), (''payment_id'', PStr ''p1''),
     (''agent_id'', PStr ''agent''), (''key_id'', PStr ''k1''), (''amount'', PDec (Dec False 2500 (-2))),
     (''currency'', PStr ''USD''), (''merchant_id'', PStr ''shop''), (''payee_id'', PStr ''B''),
     (''cart_hash'', PStr demo_hash), (''payment_intent_hash'', PStr demo_hash),
     (''category'', PStr ''books''), (''product_id'', PStr ''p''), (''credential_id'', PStr ''cred''),
     (''credential_scope'', PStr ''pay''), (''consent_ref'', PStr ''c1''),
     (''authentication_evidence_ref'', PNone), (''nonce'', PStr ''n1''), (''created_at'', PDt (utc_at 0)),
     (''expires_at'', PDt (utc_at 50)), (''prior_receipt_hash'', PStr []),
     (''campaign_id'', PStr demo_uuid), (''trace_id'', PStr demo_uuid), (''actor_id'', PStr demo_uuid),
     (''counterparty_id'', PStr demo_uuid), (''signature'', PBytes demo_key)]"

lemma demo_uuid_nonempty: "demo_uuid \<noteq> []"
  using demo_uuid_ok uuid_of_empty by metis

lemma demo_hash_ok [simp]: "digest_ok demo_hash" "demo_hash \<noteq> []"
  by (simp_all add: demo_hash_def)

lemma demo_trust_money: "trust_money l (PDec (Dec False 2500 (-2))) ''USD'' = Inr (Dec False 2500 (-2))"
  by (simp add: trust_exponents_def dec_limit_def dec_le_def units_def dec_zero_def)

lemma demo_request_constructed: "constructed demo_request"
  unfolding constructed_def new_request_Inr
  using demo_uuid_ok demo_uuid_nonempty
  by (intro exI [of _ demo_request_args])
    (simp add: demo_request_def demo_request_args_def arg_simps arg_def money_arg_def demo_trust_money
      evidence_ref_arg_def demo_mandate_def digest_arg_def trust_digest_empty trust_digest_Inr utc_at_def instant_def
      utcoffset_def del: trust_money.simps)

definition demo_verifier :: trust_verifier where
  "demo_verifier = \<lparr>tv_keys = [((''agent'', ''k1''), demo_key)], tv_mandates = [(''m1'', demo_mandate)],
     tv_evidence = [], tv_records = [], tv_pending_preview = None, tv_pending_commit = None, tv_objects = 0\<rparr>"

lemma demo_verifier_new:
  "new_verifier echo_keys [(PTuple [PStr ''agent'', PStr ''k1''], PBytes demo_key)]
     [(PStr ''m1'', Some demo_mandate)] [] = Inr demo_verifier"
  by (simp add: new_verifier_def register_agents_def register_mandates_def register_evidence_def
    demo_key_def echo_keys_def trust_text_def demo_mandate_def demo_verifier_def)

lemma demo_authorized: "authorized echo_keys demo_verifier demo_request (utc_at 10)"
  unfolding authorized_def
  by (intro exI [of _ demo_key] exI [of _ demo_mandate])
    (simp add: demo_verifier_def demo_request_def echo_keys_def demo_mandate_def within_mandate_def
      dec_less_def units_def)

lemma demo_verifier_ok: "verifier_ok demo_verifier"
  using new_verifier_ok(1) [OF demo_verifier_new] .

end
