(* ===== verification/AgenticState.thy ===== *)
theory AgenticState
  imports Agentic TrustExamples
begin

text \<open>
  A request survives its command: the payload of an agentic command is the request's values, and
  \<open>request\<close> reads the same request back. With it, what the adapter's \<open>handle\<close> does to the trust
  state, the ledger and the verifier.
\<close>

section \<open>Mandates\<close>

lemma scope_arg_Inr: "scope_arg args k = Inr ts \<longleftrightarrow>
    map_of args k = Some (PTuple (map PStr ts)) \<and> ts \<noteq> [] \<and> distinct ts \<and> sorted ts \<and> [] \<notin> set ts"
proof -
  have m: "mapr (trust_text l) xs = Inr ts \<longleftrightarrow> xs = map PStr ts \<and> [] \<notin> set ts" for l xs ts
  proof (induction xs arbitrary: ts)
    case (Cons x xs)
    then show ?case by (cases ts) (auto simp: res_simps)
  qed auto
  have "trust_scope k v = Inr ts \<longleftrightarrow> v = PTuple (map PStr ts) \<and> ts \<noteq> [] \<and> distinct ts \<and> sorted ts \<and> [] \<notin> set ts" for v
    by (cases v) (auto simp: bindr_Inr m sorted_sort_id, metis sorted_sort)
  then show ?thesis by (auto simp: scope_arg_def arg_def bindr_Inr split: option.splits)
qed

lemma new_mandate_Inr:
  "new_mandate args (Some requirement) = Inr m \<longleftrightarrow> am_required_authentication m = requirement \<and>
     text_arg args ''mandate_id'' = Inr (am_mandate_id m) \<and>
     bindr (arg args ''version'') mandate_version = Inr (am_version m) \<and>
     text_arg args ''agent_id'' = Inr (am_agent_id m) \<and>
     text_arg args ''user_ref'' = Inr (am_user_ref m) \<and>
     uuid_arg args ''user_entity_id'' = Inr (am_user_entity_id m) \<and>
     uuid_arg args ''beneficiary_entity_id'' = Inr (am_beneficiary_entity_id m) \<and>
     text_arg args ''consent_ref'' = Inr (am_consent_ref m) \<and>
     text_arg args ''merchant_id'' = Inr (am_merchant_id m) \<and>
     text_arg args ''payee_id'' = Inr (am_payee_id m) \<and>
     digest_arg args ''cart_hash'' False = Inr (am_cart_hash m) \<and>
     digest_arg args ''payment_intent_hash'' False = Inr (am_payment_intent_hash m) \<and>
     scope_arg args ''permitted_categories'' = Inr (am_permitted_categories m) \<and>
     scope_arg args ''permitted_products'' = Inr (am_permitted_products m) \<and>
     text_arg args ''credential_id'' = Inr (am_credential_id m) \<and>
     text_arg args ''credential_scope'' = Inr (am_credential_scope m) \<and>
     text_arg args ''currency'' = Inr (am_currency m) \<and>
     money_arg args ''max_amount'' (am_currency m) = Inr (am_max_amount m) \<and>
     utc_arg args ''issued_at'' = Inr (am_issued_at m) \<and>
     utc_arg args ''expires_at'' = Inr (am_expires_at m) \<and>
     \<not> instant (am_expires_at m) \<le> instant (am_issued_at m)" (is "?l \<longleftrightarrow> ?r")
proof
  assume ?l
  then show ?r
    unfolding new_mandate_def option.case
    by (simp only: bindr_Inr if_Inl_Inr sum.inject) (elim exE conjE, hypsubst, simp add: bindr_Inr)
next
  assume ?r
  then show ?l
    unfolding new_mandate_def option.case
    by (simp add: agent_mandate.equality)
qed

lemma mandate_version_Inr: "mandate_version v = Inr n \<longleftrightarrow> v = PInt n \<and> 0 < n"
  by (cases v) auto

lemma money_arg_Inr: "money_arg args k c = Inr a \<longleftrightarrow> map_of args k = Some (PDec a) \<and> trust_money k (PDec a) c = Inr a"
proof -
  have 1: "v = PDec a" if "trust_money k v c = Inr a" for v
    using that by (cases v) (auto simp: res_simps split: if_splits option.splits)
  have "money_arg args k c = Inr a \<longleftrightarrow> (\<exists>v. map_of args k = Some v \<and> trust_money k v c = Inr a)"
    by (simp add: money_arg_def arg_def del: trust_money.simps split: option.split)
  with 1 show ?thesis by blast
qed

section \<open>Round trip of a request\<close>

definition full_request :: "payment_request \<Rightarrow> bool" where
  "full_request r \<longleftrightarrow> constructed r \<and> (\<exists>args. new_mandate args (Some (am_required_authentication (ar_mandate r))) = Inr (ar_mandate r))"

lemma requirement_of_value: "requirement_of (PStr (requirement_value q)) = Inr q"
  by (cases q) simp_all

lemma mandate_read:
  assumes "new_mandate args (Some (am_required_authentication m)) = Inr m" "ar_mandate r = m"
  shows "\<exists>margs. pick (request_payload r @ rest) mandate_arguments = Inr margs \<and>
    new_mandate margs (Some (am_required_authentication m)) = Inr m"
proof -
  let ?margs = "[(''mandate_id'', PStr (am_mandate_id m)), (''version'', PInt (am_version m)),
      (''agent_id'', PStr (am_agent_id m)), (''user_ref'', PStr (am_user_ref m)),
      (''user_entity_id'', PStr (am_user_entity_id m)),
      (''beneficiary_entity_id'', PStr (am_beneficiary_entity_id m)),
      (''consent_ref'', PStr (am_consent_ref m)), (''merchant_id'', PStr (am_merchant_id m)),
      (''payee_id'', PStr (am_payee_id m)), (''cart_hash'', PStr (am_cart_hash m)),
      (''payment_intent_hash'', PStr (am_payment_intent_hash m)),
      (''permitted_categories'', PTuple (map PStr (am_permitted_categories m))),
      (''permitted_products'', PTuple (map PStr (am_permitted_products m))),
      (''credential_id'', PStr (am_credential_id m)), (''credential_scope'', PStr (am_credential_scope m)),
      (''max_amount'', PDec (am_max_amount m)), (''currency'', PStr (am_currency m)),
      (''issued_at'', PDt (am_issued_at m)), (''expires_at'', PDt (am_expires_at m))]"
  have "pick (request_payload r @ rest) mandate_arguments = Inr ?margs"
    by (simp add: pick_def mandate_arguments_def request_payload_def dict_get_def assms(2))
  moreover have "new_mandate ?margs (Some (am_required_authentication m)) = Inr m"
    using assms(1) unfolding new_mandate_Inr arg_simps scope_arg_Inr money_arg_Inr bindr_Inr mandate_version_Inr
    by (elim conjE exE) (simp add: arg_def)
  ultimately show ?thesis by blast
qed

lemma request_read:
  assumes "constructed r"
  shows "\<exists>rargs. pick (request_payload r @ rest) request_arguments = Inr rargs \<and>
    new_request rargs (Some (ar_mandate r)) = Inr r"
proof -
  let ?rargs = "[(''request_id'', PStr (ar_request_id r)), (''payment_id'', PStr (ar_payment_id r)),
      (''agent_id'', PStr (ar_agent_id r)), (''key_id'', PStr (ar_key_id r)),
      (''amount'', PDec (ar_amount r)), (''currency'', PStr (ar_currency r)),
      (''merchant_id'', PStr (ar_merchant_id r)), (''payee_id'', PStr (ar_payee_id r)),
      (''cart_hash'', PStr (ar_cart_hash r)), (''payment_intent_hash'', PStr (ar_payment_intent_hash r)),
      (''category'', PStr (ar_category r)), (''product_id'', PStr (ar_product_id r)),
      (''credential_id'', PStr (ar_credential_id r)), (''credential_scope'', PStr (ar_credential_scope r)),
      (''consent_ref'', PStr (ar_consent_ref r)),
      (''authentication_evidence_ref'', case ar_evidence_ref r of None \<Rightarrow> PNone | Some e \<Rightarrow> PStr e),
      (''nonce'', PStr (ar_nonce r)), (''created_at'', PDt (ar_created_at r)),
      (''expires_at'', PDt (ar_expires_at r)), (''prior_receipt_hash'', PStr (ar_prior_receipt_hash r)),
      (''campaign_id'', PStr (ar_campaign_id r)), (''trace_id'', PStr (ar_trace_id r)),
      (''actor_id'', PStr (ar_actor_id r)), (''counterparty_id'', PStr (ar_counterparty_id r)),
      (''signature'', PBytes (ar_signature r))]"
  have "pick (request_payload r @ rest) request_arguments = Inr ?rargs"
    by (simp add: pick_def request_arguments_def request_payload_def dict_get_def Let_def)
  moreover have "evidence_ref_arg ?rargs (ar_mandate r) = Inr (ar_evidence_ref r)"
    using constructed_fields(5,6) [OF assms]
    by (cases "ar_evidence_ref r") (auto simp: evidence_ref_arg_def arg_def res_simps)
  moreover have "digest_arg ?rargs ''prior_receipt_hash'' True = Inr (ar_prior_receipt_hash r)"
    using constructed_fields(4) [OF assms] by (simp add: digest_arg_def arg_def trust_digest_empty)
  moreover have "bindr (arg ?rargs ''signature'') (exact_bytes ''signature'') = Inr (ar_signature r)"
    by (simp add: arg_def)
  ultimately show ?thesis
    using assms unfolding constructed_def new_request_Inr
    apply (elim exE conjE)
    apply (rule exI [of _ ?rargs])
    apply (simp add: arg_simps money_arg_Inr del: trust_money.simps)
    done
qed

lemma request_from_own_payload:
  assumes "full_request r"
  shows "request_from_payload (request_payload r @ rest) = Inr r"
proof -
  from assms obtain args where "constructed r"
    "new_mandate args (Some (am_required_authentication (ar_mandate r))) = Inr (ar_mandate r)"
    by (auto simp: full_request_def)
  from mandate_read [OF this(2) refl, of rest] request_read [OF this(1), of rest] obtain margs rargs where
    1: "pick (request_payload r @ rest) mandate_arguments = Inr margs"
      "new_mandate margs (Some (am_required_authentication (ar_mandate r))) = Inr (ar_mandate r)"
      "pick (request_payload r @ rest) request_arguments = Inr rargs"
      "new_request rargs (Some (ar_mandate r)) = Inr r" by blast
  have "dict_get (request_payload r @ rest) ''required_authentication'' =
      Inr (PStr (requirement_value (am_required_authentication (ar_mandate r))))"
    by (simp add: request_payload_def dict_get_def Let_def)
  then show ?thesis
    by (simp add: request_from_payload_def 1 requirement_of_value del: requirement_of.simps)
qed

lemma request_from_payload_full:
  assumes "request_from_payload p = Inr r"
  shows "full_request r"
proof -
  from assms obtain margs q m rargs where "new_mandate margs (Some q) = Inr m" "new_request rargs (Some m) = Inr r"
    by (auto simp: request_from_payload_def bindr_Inr)
  moreover from this have "ar_mandate r = m" "am_required_authentication m = q"
    by (simp_all add: new_request_Inr new_mandate_Inr)
  ultimately show ?thesis by (auto simp: full_request_def constructed_def)
qed

lemma full_request_frozen: "full_request r \<Longrightarrow> v \<in> snd ` set (request_payload r) \<Longrightarrow> frozen_payload v"
proof -
  assume "full_request r" and v: "v \<in> snd ` set (request_payload r)"
  then have "dt_tz (ar_created_at r) = Some UTC" "dt_tz (ar_expires_at r) = Some UTC"
    "dt_tz (am_issued_at (ar_mandate r)) = Some UTC" "dt_tz (am_expires_at (ar_mandate r)) = Some UTC"
    by (auto simp: full_request_def constructed_def new_request_Inr new_mandate_Inr arg_simps)
  with v show ?thesis
    by (auto simp: request_payload_def Let_def normal_utc_def list_all_iff split: option.splits)
qed

lemma request_payload_keys: "map fst (request_payload r) = agentic_request_keys"
  by (simp add: request_payload_def agentic_request_keys_def Let_def)

lemma agentic_keys_distinct: "distinct agentic_payload_keys"
  by (simp add: agentic_payload_keys_def agentic_request_keys_def)

lemma freeze_mapping_frozen:
  assumes "distinct (map fst p)" "\<forall>v \<in> snd ` set p. frozen_payload v"
  shows "freeze_mapping (map (\<lambda>(k, v). (PStr k, v)) p) = Inr p"
proof -
  let ?p = "map (\<lambda>(k, v). (PStr k, v)) p"
  have "map fst ?p = map PStr (map fst p)" by (induction p) auto
  then have "distinct (map fst ?p)"
    using assms(1) by (simp add: distinct_map inj_on_def)
  with assms(2) have "frozen_payload (PMap PyMappingProxy ?p)"
    by (auto simp: list_all_iff)
  from freeze_fixed [OF this] have "freeze (PMap PyDict ?p) = Inr (PMap PyMappingProxy ?p)" by simp
  moreover have "map (\<lambda>(k, v). (plain_key k, v)) ?p = p" by (induction p) auto
  ultimately show ?thesis by (simp add: freeze_mapping_def del: freeze.simps)
qed

lemma agentic_command_Inr:
  assumes "full_request r" "agentic_command r payer_v payee_v = Inr c"
  shows "payer_v = PStr (am_user_ref (ar_mandate r))" "payee_v = PStr (ar_payee_id r)"
    "am_user_ref (ar_mandate r) \<noteq> ar_payee_id r"
    "c = \<lparr>cmd_class = AgenticPaymentCommand, cmd_name = ''agentic.pay'', cmd_payload = request_payload r @
      [(''payer_account'', PStr (am_user_ref (ar_mandate r))), (''payee_account'', PStr (ar_payee_id r))]\<rparr>"
proof -
  let ?p = "request_payload r @ [(''payer_account'', PStr (am_user_ref (ar_mandate r))),
      (''payee_account'', PStr (ar_payee_id r))]"
  from assms(2) have 1: "payer_v = PStr (am_user_ref (ar_mandate r)) \<and> payee_v = PStr (ar_payee_id r) \<and>
      am_user_ref (ar_mandate r) \<noteq> ar_payee_id r"
    and n: "new_command AgenticPaymentCommand (PStr ''agentic.pay'') (map (\<lambda>(k, v). (PStr k, v)) ?p) = Inr c"
    by (auto simp: agentic_command_def agentic_text_def bindr_Inr rail_text_Inr split: if_splits)
  have "map fst ?p = agentic_payload_keys"
    by (simp add: request_payload_keys agentic_payload_keys_def)
  with agentic_keys_distinct have "distinct (map fst ?p)" by simp
  from freeze_mapping_frozen [OF this] full_request_frozen [OF assms(1)]
  have "freeze_mapping (map (\<lambda>(k, v). (PStr k, v)) ?p) = Inr ?p" by auto
  with n show "c = \<lparr>cmd_class = AgenticPaymentCommand, cmd_name = ''agentic.pay'', cmd_payload = ?p\<rparr>"
    by (auto simp: new_command_def)
  from 1 show "payer_v = PStr (am_user_ref (ar_mandate r))" "payee_v = PStr (ar_payee_id r)"
    "am_user_ref (ar_mandate r) \<noteq> ar_payee_id r" by auto
qed

lemma agentic_canonical_Inr:
  assumes "agentic_canonical cmd = Inr c"
  shows "\<exists>r. full_request r \<and> request_from_payload (cmd_payload c) = Inr r \<and>
    payload_str (cmd_payload c) ''payer_account'' = am_user_ref (ar_mandate r) \<and>
    payload_str (cmd_payload c) ''payee_account'' = ar_payee_id r \<and> am_user_ref (ar_mandate r) \<noteq> ar_payee_id r"
proof -
  from assms obtain r payer_v payee_v where "request_from_payload (cmd_payload cmd) = Inr r"
    and c: "agentic_command r payer_v payee_v = Inr c"
    by (auto simp: agentic_canonical_def bindr_Inr rethrow_Inr split: if_splits)
  from request_from_payload_full [OF this(1)] have f: "full_request r" .
  from agentic_command_Inr(4) [OF f c] have p: "cmd_payload c = request_payload r @
      [(''payer_account'', PStr (am_user_ref (ar_mandate r))), (''payee_account'', PStr (ar_payee_id r))]" by simp
  have "payload_str (cmd_payload c) ''payer_account'' = am_user_ref (ar_mandate r)"
    "payload_str (cmd_payload c) ''payee_account'' = ar_payee_id r"
    unfolding p payload_str_def by (simp_all add: request_payload_def Let_def)
  with f request_from_own_payload [OF f] agentic_command_Inr(3) [OF f c] show ?thesis
    by (auto simp: p)
qed

end
