(* ===== verification/AgenticRail.thy ===== *)
theory AgenticRail
  imports AgenticState
begin

text \<open>
  What one command does to the engine: the invariant \<open>agentic_ready\<close>, that nothing moves on any path
  but an authorized and approved one, and that the trust state grows by exactly the record of the
  request. The agentic adapter is interpreted as a \<open>rail_adapter\<close>, so every property of engine
  sessions holds for it.
\<close>

section \<open>The trust state in the engine\<close>

definition stored_trust :: "'j agentic_engine \<Rightarrow> state_record list \<Rightarrow> bool" where
  "stored_trust E rs \<longleftrightarrow> (case map_of (en_entity_state E) trust_state_id of
       None \<Rightarrow> rs = [] | Some v \<Rightarrow> v = state_value rs)"

definition agentic_ready :: "'j agentic_engine \<Rightarrow> trust_verifier \<Rightarrow> state_record list \<Rightarrow> bool" where
  "agentic_ready E V rs \<longleftrightarrow> en_adapter E = Some V \<and> verifier_ok V \<and> stored_trust E rs \<and>
     valid_records (tv_agent_ids V) rs"

text \<open>The verifier the command is decided by.\<close>

definition loaded_with :: "trust_verifier \<Rightarrow> state_record list \<Rightarrow> trust_verifier" where
  "loaded_with V rs = V\<lparr>tv_records := rs, tv_pending_preview := None, tv_pending_commit := None\<rparr>"

lemma loaded_with_simps [simp]:
  "tv_records (loaded_with V rs) = rs" "tv_agent_ids (loaded_with V rs) = tv_agent_ids V"
  by (simp_all add: loaded_with_def)

lemma loaded_with_ok:
  assumes "valid_records (tv_agent_ids V) rs"
  shows "same_registry V (loaded_with V rs)" "verifier_ok (loaded_with V rs)"
  using assms by (simp_all add: loaded_with_def same_registry_def verifier_ok_def)

lemma state_record_value_inject: "state_record_value a = state_record_value b \<longleftrightarrow> a = b"
  by (auto simp: state_record_value_def intro: state_record.equality)

lemma state_value_inject: "state_value rs = state_value rs' \<longleftrightarrow> rs = rs'"
proof -
  have "inj state_record_value" by (auto simp: inj_def state_record_value_inject)
  then show ?thesis by (auto simp: state_value_def inj_map_eq_map)
qed

lemma empty_state_loads: "loaded_records V (str_map [(''version'', PInt 1), (''records'', PTuple [])]) = Inr []"
  by (simp add: loaded_records_def owned_str_map dict_get_def insert_commute)

lemma agentic_load_ready:
  assumes "agentic_ready E V rs" "en_failure E = None"
  shows "bindm agentic_state agentic_load E = (Inr (), E\<lparr>en_adapter := Some (loaded_with V rs)\<rparr>)"
proof -
  obtain v where v: "agentic_state E = (Inr v, E)" "loaded_records V v = Inr rs"
  proof (cases "map_of (en_entity_state E) trust_state_id")
    case None
    with assms show thesis
      by (intro that) (auto simp: agentic_state_def engine_entity_state_def healthy_def ensure_healthy_def
          stored_trust_def agentic_ready_def empty_state_loads)
  next
    case (Some v)
    with assms show thesis
      by (intro that [of v]) (auto simp: agentic_state_def engine_entity_state_def healthy_def ensure_healthy_def
          stored_trust_def agentic_ready_def loaded_records_value)
  qed
  with assms(1) show ?thesis
    by (simp add: bindm_def agentic_load_def on_verifier_def agentic_ready_def load_state_def loaded_with_def)
qed

lemma agentic_state_failed:
  "en_failure E \<noteq> None \<Longrightarrow> agentic_state E = (Inl SimulationFailedError, E)"
  by (auto simp: agentic_state_def engine_entity_state_def healthy_def ensure_healthy_def)

section \<open>Steps that move nothing\<close>

definition same_books :: "'j agentic_engine \<Rightarrow> 'j agentic_engine \<Rightarrow> bool" where
  "same_books E E' \<longleftrightarrow> en_ledger E' = en_ledger E \<and> en_entity_state E' = en_entity_state E \<and>
     en_adapter E' = en_adapter E \<and> en_clock E' = en_clock E"

lemma same_books_order: "reflp same_books" "transp same_books"
  by (auto simp: same_books_def intro!: reflpI transpI)

lemma agentic_event_same: "agentic_event C r d i E = (q, E') \<Longrightarrow> E' = E"
  by (auto simp: agentic_event_def bindm_def engine_bundle_def engine_now_def split: sum.splits prod.splits)

lemma agentic_event_kind_is:
  assumes "agentic_event C r d i E = (Inr ev, E')"
  shows "pe_event_type ev = agentic_event_kind (dc_action d) (dc_receipt d)"
proof -
  from assms have "\<exists>b :: scenario_bundle. payment_event_valid (agentic_payment_event (sc_viewpoint b) (ck_now (en_clock E)) r d i) = Inr ev"
    by (auto simp: agentic_event_def bindm_def engine_bundle_def engine_now_def split: sum.splits)
  then obtain b :: scenario_bundle where "payment_event_valid (agentic_payment_event (sc_viewpoint b) (ck_now (en_clock E)) r d i) = Inr ev" ..
  from payment_event_valid_Inr [OF this] show ?thesis by (simp add: agentic_payment_event_def Let_def)
qed

lemma new_uuid_same: "engine_new_uuid E = (q, E') \<Longrightarrow> same_books E E'"
  by (auto simp: engine_new_uuid_def healthy_def ensure_healthy_def mark_failed_def Let_def same_books_def
      split: option.splits if_splits)

lemma agentic_report_same:
  assumes "agentic_report C r d E = (q, E')"
  shows "same_books E E'"
    "(\<exists>e. q = Inl e) \<or> (\<exists>ev. q = Inr [ev] \<and> pe_event_type ev = agentic_event_kind (dc_action d) (dc_receipt d))"
  using assms unfolding agentic_report_def bindm_def
  by (auto split: prod.splits sum.splits dest!: new_uuid_same dest: agentic_event_same agentic_event_kind_is)

section \<open>Executing a plan\<close>

lemma on_verifier_at: "en_adapter E = Some V \<Longrightarrow> on_verifier m E = (fst (m V), E\<lparr>en_adapter := Some (snd (m V))\<rparr>)"
  by (simp add: on_verifier_def split: prod.split)

lemma agentic_effect_cases:
  assumes "agentic_effect payer payee r a i (state_value rs) E = (q, E')" "en_failure E = None"
  shows "(\<exists>e. q = Inl e \<and> same_books E E') \<or>
    (q = Inr () \<and> en_adapter E' = en_adapter E \<and> en_clock E' = en_clock E \<and>
     en_entity_state E' = AList.update trust_state_id (state_value rs) (en_entity_state E) \<and>
     (if a = Approve then ledger_post (en_ledger E) (agentic_entry payer payee r i) = Inr (en_ledger E')
      else en_ledger E' = en_ledger E))"
proof (cases "a = Approve")
  case True
  show ?thesis
  proof (cases "ledger_post (en_ledger E) (agentic_entry payer payee r i)")
    case (Inl e)
    with assms True show ?thesis
      by (auto simp: agentic_effect_def bindm_def engine_post_def healthy_def ensure_healthy_def fail_closed_def
          same_books_def mark_failed_def)
  next
    case (Inr L)
    with assms True show ?thesis
      by (auto simp: agentic_effect_def bindm_def engine_post_def engine_set_entity_state_def healthy_def
          ensure_healthy_def fail_closed_def frozen_state_value trust_state_id_def)
  qed
next
  case False
  with assms show ?thesis
    by (auto simp: agentic_effect_def bindm_def engine_set_entity_state_def healthy_def
        ensure_healthy_def fail_closed_def frozen_state_value trust_state_id_def)
qed

text \<open>\<open>committed_step\<close>: the trust state grows by the record, and value moves if and only if the action
  is an approval.\<close>

definition committed_step ::
  "payment_request \<Rightarrow> action \<Rightarrow> state_record list \<Rightarrow> state_record \<Rightarrow> 'j agentic_engine \<Rightarrow> 'j agentic_engine \<Rightarrow> bool" where
  "committed_step r a rs s E E' \<longleftrightarrow>
     en_entity_state E' = AList.update trust_state_id (state_value (rs @ [s])) (en_entity_state E) \<and>
     (if a = Approve
      then \<exists>i. ledger_post (en_ledger E)
        (agentic_entry (am_user_ref (ar_mandate r)) (ar_payee_id r) r i) = Inr (en_ledger E')
      else en_ledger E' = en_ledger E)"

lemma agentic_execute_cases:
  assumes "agentic_execute C cmd r a plan E = (q, E')"
    and "en_adapter E = Some V" "tv_records V = rs" "tv_pending_preview V = None"
    and "tv_pending_commit V = Some p" "cp_object (pc_capability p) = cp_object plan"
    and "payload_str (cmd_payload cmd) ''payer_account'' = am_user_ref (ar_mandate r)"
    and "payload_str (cmd_payload cmd) ''payee_account'' = ar_payee_id r"
  shows "en_clock E' = en_clock E \<and>
    ((\<exists>e. q = Inl e) \<and> en_ledger E' = en_ledger E \<and> en_entity_state E' = en_entity_state E \<and>
       (en_adapter E' = Some V \<or> en_adapter E' = Some (V\<lparr>tv_pending_commit := None\<rparr>)) \<or>
     (\<exists>ev. q = Inr [ev] \<and> pe_event_type ev = agentic_event_kind a (cp_receipt plan)) \<and> committed_step r a rs (pc_record p) E E' \<and>
       en_adapter E' = Some (V\<lparr>tv_pending_commit := None, tv_records := rs @ [pc_record p]\<rparr>))"
proof -
  obtain u E1 where u: "engine_new_uuid E = (u, E1)" by fastforce
  from new_uuid_same [OF u] have s1: "same_books E E1" .
  show ?thesis
  proof (cases u)
    case (Inl e)
    with assms(1,2) u s1 show ?thesis by (auto simp: agentic_execute_def bindm_def same_books_def)
  next
    case (Inr i)
    let ?d = "\<lparr>dc_action = a, dc_reasons = [], dc_receipt = cp_receipt plan\<rparr>"
    obtain x E2 where ev: "agentic_event C r ?d i E1 = (x, E2)" by fastforce
    from agentic_event_same [OF ev] have E2: "E2 = E1" .
    show ?thesis
    proof (cases x)
      case (Inl e)
      with assms(1,2) u s1 Inr ev E2 show ?thesis by (auto simp: agentic_execute_def bindm_def same_books_def)
    next
      case ev': (Inr ev')
      have ad: "en_adapter E1 = Some V" using s1 assms(2) by (simp add: same_books_def)
      have pr: "on_verifier (projected_state plan) E1 = (Inr (state_value (rs @ [pc_record p])), E1)"
        using ad assms(3,5,6) by (simp add: on_verifier_at projected_state_def)
      obtain y E3 where y: "agentic_effect (am_user_ref (ar_mandate r)) (ar_payee_id r) r a i
          (state_value (rs @ [pc_record p])) E1 = (y, E3)" by fastforce
      have h: "en_failure E1 = None" using u Inr by (auto simp: engine_new_uuid_Inr)
      have uu: "engine_new_uuid E = (Inr i, E1)" and evv: "agentic_event C r ?d i E1 = (Inr ev', E1)"
        using u Inr ev E2 ev' by simp_all
      have run: "(q, E') = (case y of
            Inl e \<Rightarrow> bindm (on_verifier (discard_commit plan)) (\<lambda>_. raise e) E3
          | Inr _ \<Rightarrow> bindm (on_verifier (apply_commit plan)) (\<lambda>_. ret [ev']) E3)"
        using assms(1) by (simp add: agentic_execute_def bindm_def uu evv pr assms(7,8) on_error_def y
          split: sum.splits prod.splits)
      from agentic_effect_cases [OF y h] show ?thesis
      proof (elim disjE exE conjE)
        fix e
        assume "y = Inl e" and s3: "same_books E1 E3"
        have "tv_pending_preview V = None \<Longrightarrow> V\<lparr>tv_pending_preview := None, tv_pending_commit := None\<rparr> =
            V\<lparr>tv_pending_commit := None\<rparr>" by simp
        then have "on_verifier (discard_commit plan) E3 =
            (Inr (), E3\<lparr>en_adapter := Some (V\<lparr>tv_pending_commit := None\<rparr>)\<rparr>)"
          using ad s3 assms(4-6)
          by (simp add: on_verifier_at same_books_def discard_commit_def revoke_ephemeral_def)
        with run \<open>y = Inl e\<close> s1 s3 show ?thesis
          by (auto simp: bindm_def same_books_def)
      next
        assume "y = Inr ()" and eff: "en_adapter E3 = en_adapter E1" "en_clock E3 = en_clock E1"
          "en_entity_state E3 = AList.update trust_state_id (state_value (rs @ [pc_record p])) (en_entity_state E1)"
          "if a = Approve then ledger_post (en_ledger E1)
             (agentic_entry (am_user_ref (ar_mandate r)) (ar_payee_id r) r i) = Inr (en_ledger E3)
           else en_ledger E3 = en_ledger E1"
        have "on_verifier (apply_commit plan) E3 = (Inr (pc_receipt p),
            E3\<lparr>en_adapter := Some (V\<lparr>tv_pending_commit := None, tv_records := rs @ [pc_record p]\<rparr>)\<rparr>)"
          using ad eff(1) assms(3-6)
          by (simp add: on_verifier_at apply_commit_def bindm_def revoke_ephemeral_def apply_pending_def)
        with run \<open>y = Inr ()\<close> eff s1 agentic_event_kind_is [OF evv] show ?thesis
          by (auto simp: bindm_def committed_step_def same_books_def split: if_splits)
      qed
    qed
  qed
qed

section \<open>Deciding\<close>

text \<open>The decision of \<open>process\<close>: nothing is kept pending unless the verifier allows the request and the
  scorer answers with an action.\<close>

lemma agentic_process_cases:
  assumes "constructed r" "verifier_ok V" "agentic_process P score r now V = (q, V')"
  obtains (failed) e where "q = Inl e" "same_registry V V'" "tv_records V' = tv_records V" "tv_pending_commit V' = None"
  | (refused) d where "q = Inr d" "\<not> ir_allowed (dc_receipt d)" "dc_action d = Decline"
      "same_registry V V'" "tv_records V' = tv_records V" "tv_pending_commit V' = None"
  | (scored) i p a where "q = Inr \<lparr>dc_action = a, dc_reasons = [], dc_receipt = p\<rparr>"
      "trust_preview P r now V = (Inr (i, p), V')" "ir_allowed p" "score r p = Inr (Some a)"
proof -
  from assms(2) have v: "valid_records (tv_agent_ids V) (tv_records V)" by (simp add: verifier_ok_def)
  obtain x V1 where x: "trust_preview P r now V = (x, V1)" by fastforce
  from assms(1) v x show thesis
  proof (cases rule: trust_preview_cases)
    case (utc e)
    with x assms(3) show thesis by (intro failed [of e]) (auto simp: agentic_process_def bindm_def)
  next
    case (failed p reason)
    with x assms(3) show thesis
      by (intro refused [of "\<lparr>dc_action = Decline, dc_reasons = [reason], dc_receipt = p\<rparr>"])
        (auto simp: agentic_process_def bindm_def same_registry_def)
  next
    case (allowed p)
    have dp: "discard_preview (tv_objects V, p) V1 = (Inr (), V1\<lparr>tv_pending_preview := None, tv_pending_commit := None\<rparr>)"
      by (simp add: discard_preview_def allowed(6) revoke_ephemeral_def)
    have run: "(q, V') = (case score r p of
          Inl e \<Rightarrow> (Inl e, V1\<lparr>tv_pending_preview := None, tv_pending_commit := None\<rparr>)
        | Inr None \<Rightarrow> (Inl (TypeError ''agentic risk scorer must return an exact Action''),
            V1\<lparr>tv_pending_preview := None, tv_pending_commit := None\<rparr>)
        | Inr (Some a) \<Rightarrow> (Inr \<lparr>dc_action = a, dc_reasons = [], dc_receipt = p\<rparr>, V1))"
      using assms(3) x allowed(3,4)
      by (auto simp: agentic_process_def bindm_def dp split: sum.split option.split)
    show thesis
    proof (cases "score r p")
      case (Inl e)
      with run allowed(6) show thesis by (intro that(1) [of e]) (auto simp: same_registry_def)
    next
      case (Inr y)
      show thesis
      proof (cases y)
        case None
        with run allowed(6) Inr show thesis
          by (intro that(1) [of "TypeError ''agentic risk scorer must return an exact Action''"])
            (auto simp: same_registry_def)
      next
        case (Some a)
        with run allowed(3,4) Inr x show thesis by (intro that(3) [of a p "tv_objects V"]) auto
      qed
    qed
  qed
qed

lemma ready_quiet:
  assumes "verifier_ok V" "same_registry V V'" "tv_records V' = tv_records V" "tv_pending_commit V' = None"
  shows "verifier_ok V'"
  using assms same_registry_ids [OF assms(2)] by (simp add: verifier_ok_def)

text \<open>What is left of a verifier by a command that commits nothing.\<close>

definition unmoved :: "'j agentic_engine \<Rightarrow> trust_verifier \<Rightarrow> 'j agentic_engine \<Rightarrow> bool" where
  "unmoved E V E' \<longleftrightarrow> en_ledger E' = en_ledger E \<and> en_entity_state E' = en_entity_state E \<and> en_clock E' = en_clock E \<and>
     (\<exists>V'. en_adapter E' = Some V' \<and> verifier_ok V' \<and> same_registry V V')"

lemma unmoved_ready: "agentic_ready E V rs \<Longrightarrow> unmoved E V E' \<Longrightarrow> \<exists>V'. agentic_ready E' V' rs \<and> same_registry V V'"
  using same_registry_ids by (fastforce simp: unmoved_def agentic_ready_def stored_trust_def)

definition declined :: "payment_event list res \<Rightarrow> bool" where
  "declined q \<longleftrightarrow> (\<exists>e. q = Inl e) \<or> (\<exists>ev. q = Inr [ev] \<and> pe_event_type ev = AuthorizationDeclined)"

lemma agentic_report_declined:
  assumes "agentic_report C r d E = (q, E')" "\<not> ir_allowed (dc_receipt d)"
    and "en_adapter E = Some V'" "verifier_ok V'" "same_registry V V'"
  shows "declined q \<and> unmoved E V E'"
  using agentic_report_same [OF assms(1)] assms(2-)
  by (auto simp: declined_def unmoved_def same_books_def agentic_event_kind_def)

text \<open>One command: declined without effect, or committed.\<close>

definition committed ::
  "ed25519 \<Rightarrow> scorer \<Rightarrow> payment_request \<Rightarrow> action \<Rightarrow> trust_verifier \<Rightarrow> state_record \<Rightarrow> payment_event list res \<Rightarrow>
    'j agentic_engine \<Rightarrow> 'j agentic_engine \<Rightarrow> bool" where
  "committed P score r a V s q E E' \<longleftrightarrow>
     authorized P V r (ck_now (en_clock E)) \<and> (\<exists>p. score r p = Inr (Some a)) \<and>
     record_ok (tv_agent_ids V) (tv_records V) s \<and> sr_agent_id s = ar_agent_id r \<and> sr_nonce s = ar_nonce r \<and>
     committed_step r a (tv_records V) s E E' \<and> en_clock E' = en_clock E \<and>
     (\<exists>ev. q = Inr [ev] \<and> pe_event_type ev =
        (case a of Approve \<Rightarrow> Authorization | Challenge \<Rightarrow> AuthenticationChallenge | Decline \<Rightarrow> AuthorizationDeclined)) \<and>
     (\<exists>V'. en_adapter E' = Some V' \<and> verifier_ok V' \<and> same_registry V V' \<and> tv_records V' = tv_records V @ [s])"

lemma agentic_decided:
  assumes "constructed r" "verifier_ok V" "en_adapter E = Some V"
    and "payload_str (cmd_payload c) ''payer_account'' = am_user_ref (ar_mandate r)"
    and "payload_str (cmd_payload c) ''payee_account'' = ar_payee_id r"
    and "bindm (on_verifier (agentic_process P score r (ck_now (en_clock E)))) (agentic_decide C c r) E = (q, E')"
  shows "declined q \<and> unmoved E V E' \<or> (\<exists>a s. committed P score r a V s q E E')"
proof -
  let ?now = "ck_now (en_clock E)"
  obtain x V1 where x: "agentic_process P score r ?now V = (x, V1)" by fastforce
  let ?E1 = "E\<lparr>en_adapter := Some V1\<rparr>"
  have run: "(case x of Inl e \<Rightarrow> (Inl e, ?E1) | Inr d \<Rightarrow> agentic_decide C c r d ?E1) = (q, E')"
    using assms(6) by (simp add: bindm_def on_verifier_at [OF assms(3)] x split: sum.splits)
  from assms(1,2) x show ?thesis
  proof (cases rule: agentic_process_cases)
    case (failed e)
    with run ready_quiet [OF assms(2) failed(2,3,4)] show ?thesis
      by (auto simp: declined_def unmoved_def)
  next
    case (refused d)
    with run have "agentic_report C r d ?E1 = (q, E')" by (simp add: agentic_decide_def)
    from agentic_report_declined [OF this refused(2) _ ready_quiet [OF assms(2) refused(4,5,6)] refused(4)]
    show ?thesis by (simp add: unmoved_def)
  next
    case (scored i p a)
    obtain y V2 where y: "decide P r ?now (action_outcome a) ?now V = (y, V2)" by fastforce
    have py: "prepare_commit r p (action_outcome a) ?now V1 = (y, V2)"
      using y scored(2,3) by (simp add: decide_def bindm_def)
    let ?E2 = "E\<lparr>en_adapter := Some V2\<rparr>"
    have run2: "(case y of
          Inl e \<Rightarrow> (Inl e, ?E2)
        | Inr (Rejection (i, p')) \<Rightarrow> (case ir_reason_code p' of
              None \<Rightarrow> (Inl (AssertionError []), ?E2)
            | Some reason \<Rightarrow> agentic_report C r \<lparr>dc_action = Decline, dc_reasons = [reason], dc_receipt = p'\<rparr> ?E2)
        | Inr (Plan plan) \<Rightarrow> agentic_execute C c r a plan ?E2) = (q, E')"
      using run scored(1,3) py
      by (auto simp: agentic_decide_def bindm_def engine_now_def on_verifier_at split: sum.splits prepared.splits option.splits)
    from assms(1,2) y show ?thesis
    proof (cases rule: decide_cases)
      case (planned plan final i' p')
      have fin: "ir_allowed final"
        using planned(6) by (auto simp: allowed_receipt_def Let_def new_receipt_Inr)
      have ok2: "verifier_ok V2" "verifier_ok (V2\<lparr>tv_pending_commit := None\<rparr>)" "same_registry V V2"
        using assms(2) planned(9) by (auto simp: planned(7,8) verifier_ok_def same_registry_def)
      have ex: "agentic_execute C c r a plan ?E2 = (q, E')" using run2 planned(1) by simp
      from agentic_execute_cases [OF ex, of V2 "tv_records V"] assms(4,5)
      have "en_clock E' = en_clock E \<and>
        ((\<exists>e. q = Inl e) \<and> en_ledger E' = en_ledger E \<and> en_entity_state E' = en_entity_state E \<and>
           (en_adapter E' = Some V2 \<or> en_adapter E' = Some (V2\<lparr>tv_pending_commit := None\<rparr>)) \<or>
         (\<exists>ev. q = Inr [ev] \<and> pe_event_type ev = agentic_event_kind a final) \<and>
           committed_step r a (tv_records V) (new_state_record r final) ?E2 E' \<and>
           en_adapter E' = Some (V2\<lparr>tv_pending_commit := None, tv_records := tv_records V @ [new_state_record r final]\<rparr>))"
        by (simp add: planned(7,8))
      then show ?thesis
      proof (elim conjE disjE)
        assume 1: "en_clock E' = en_clock E" "\<exists>e. q = Inl e" "en_ledger E' = en_ledger E" "en_entity_state E' = en_entity_state E"
        have "same_registry V (V2\<lparr>tv_pending_commit := None\<rparr>)" using ok2(3) by (simp add: same_registry_def)
        moreover assume "en_adapter E' = Some V2"
        ultimately show ?thesis using 1 ok2 by (simp add: declined_def unmoved_def)
      next
        assume 1: "en_clock E' = en_clock E" "\<exists>e. q = Inl e" "en_ledger E' = en_ledger E" "en_entity_state E' = en_entity_state E"
        have "same_registry V (V2\<lparr>tv_pending_commit := None\<rparr>)" using ok2(3) by (simp add: same_registry_def)
        moreover assume "en_adapter E' = Some (V2\<lparr>tv_pending_commit := None\<rparr>)"
        ultimately show ?thesis using 1 ok2 by (simp add: declined_def unmoved_def)
      next
        assume 1: "en_clock E' = en_clock E" "\<exists>ev. q = Inr [ev] \<and> pe_event_type ev = agentic_event_kind a final"
          and step: "committed_step r a (tv_records V) (new_state_record r final) ?E2 E'"
          and ad: "en_adapter E' = Some (V2\<lparr>tv_pending_commit := None, tv_records := tv_records V @ [new_state_record r final]\<rparr>)"
        have kind: "agentic_event_kind a final =
            (case a of Approve \<Rightarrow> Authorization | Challenge \<Rightarrow> AuthenticationChallenge | Decline \<Rightarrow> AuthorizationDeclined)"
          using fin by (cases a) (simp_all add: agentic_event_kind_def)
        have "verifier_ok (V2\<lparr>tv_pending_commit := None, tv_records := tv_records V @ [new_state_record r final]\<rparr>)"
          "same_registry V (V2\<lparr>tv_pending_commit := None, tv_records := tv_records V @ [new_state_record r final]\<rparr>)"
          using assms(2) planned(9) by (auto simp: planned(8) verifier_ok_def same_registry_def valid_records_snoc)
        with 1 step ad kind planned(2,9) scored(4)
        have "committed P score r a V (new_state_record r final) q E E'"
          by (auto simp: committed_def committed_step_def new_state_record_def)
        then show ?thesis by blast
      qed
    next
      case (rejected i' p')
      have ok2: "verifier_ok V2" using ready_quiet [OF assms(2) rejected(3,4,6)] .
      show ?thesis
      proof (cases "ir_reason_code p'")
        case None
        with run2 rejected ok2 show ?thesis by (auto simp: declined_def unmoved_def)
      next
        case (Some reason)
        with run2 rejected(1)
        have "agentic_report C r \<lparr>dc_action = Decline, dc_reasons = [reason], dc_receipt = p'\<rparr> ?E2 = (q, E')" by simp
        from agentic_report_declined [OF this _ _ ok2 rejected(3)] rejected(2)
        show ?thesis by (simp add: unmoved_def)
      qed
    next
      case (failed e)
      with run2 ready_quiet [OF assms(2) failed(2,3,5)] show ?thesis
        by (auto simp: declined_def unmoved_def)
    qed
  qed
qed

section \<open>A command\<close>

lemma agentic_handle_cases:
  assumes "agentic_ready E V rs" "agentic_handle C P score cmd E = (q, E')"
  shows "declined q \<and> unmoved E V E' \<or>
    (\<exists>c r a s. agentic_canonical cmd = Inr c \<and> request_from_payload (cmd_payload c) = Inr r \<and> constructed r \<and>
       committed P score r a (loaded_with V rs) s q E E')"
proof (cases "agentic_canonical cmd")
  case (Inl e)
  with assms have "q = Inl e" "E' = E" by (auto simp: agentic_handle_def bindm_def)
  with assms(1) show ?thesis by (auto simp: declined_def unmoved_def agentic_ready_def same_registry_order)
next
  case (Inr c)
  from agentic_canonical_Inr [OF Inr] obtain r where
    r: "full_request r" "request_from_payload (cmd_payload c) = Inr r"
      "payload_str (cmd_payload c) ''payer_account'' = am_user_ref (ar_mandate r)"
      "payload_str (cmd_payload c) ''payee_account'' = ar_payee_id r" by blast
  have con: "constructed r" using r(1) by (simp add: full_request_def)
  have valid: "valid_records (tv_agent_ids V) rs" using assms(1) by (simp add: agentic_ready_def)
  define E1 where "E1 = E\<lparr>en_adapter := Some (loaded_with V rs)\<rparr>"
  have same: "en_adapter E1 = Some (loaded_with V rs)" "en_clock E1 = en_clock E" "en_ledger E1 = en_ledger E"
    "en_entity_state E1 = en_entity_state E" by (simp_all add: E1_def)
  show ?thesis
  proof (cases "en_failure E = None")
    case False
    from agentic_state_failed [OF this] assms(2) Inr have "q = Inl SimulationFailedError" "E' = E"
      by (auto simp: agentic_handle_def bindm_def)
    with assms(1) show ?thesis by (auto simp: declined_def unmoved_def agentic_ready_def same_registry_order)
  next
    case True
    have "agentic_handle C P score cmd E = bindm (bindm agentic_state agentic_load) (\<lambda>_.
        bindm engine_now (\<lambda>now. bindm (on_verifier (agentic_process P score r now)) (agentic_decide C c r))) E"
      by (simp add: agentic_handle_def Inr r(2) bindm_def split: prod.split sum.split)
    also have "\<dots> = bindm (on_verifier (agentic_process P score r (ck_now (en_clock E1)))) (agentic_decide C c r) E1"
      unfolding bindm_def [of "bindm agentic_state agentic_load"] agentic_load_ready [OF assms(1) True]
      by (simp add: bindm_def engine_now_def E1_def)
    finally have "bindm (on_verifier (agentic_process P score r (ck_now (en_clock E1)))) (agentic_decide C c r) E1 = (q, E')"
      using assms(2) by simp
    from agentic_decided [OF con loaded_with_ok(2) [OF valid] same(1) r(3,4) this]
    consider "declined q" "unmoved E1 (loaded_with V rs) E'"
      | a s where "committed P score r a (loaded_with V rs) s q E1 E'" by blast
    then show ?thesis
    proof cases
      case 1
      then have "unmoved E V E'"
        using same_registry_order(2) [OF loaded_with_ok(1) [OF valid]] by (auto simp: unmoved_def same)
      with 1(1) show ?thesis by blast
    next
      case 2
      then have "committed P score r a (loaded_with V rs) s q E E'"
        by (simp add: committed_def committed_step_def same cong: if_cong)
      with Inr r(2) con show ?thesis by blast
    qed
  qed
qed

lemma committed_ready:
  assumes "agentic_ready E V rs" "committed P score r a (loaded_with V rs) s q E E'"
  shows "\<exists>V'. agentic_ready E' V' (rs @ [s]) \<and> same_registry V V'"
proof -
  from assms(1) have valid: "valid_records (tv_agent_ids V) rs" by (simp add: agentic_ready_def)
  from assms(2) obtain V' where V': "en_adapter E' = Some V'" "verifier_ok V'" "same_registry (loaded_with V rs) V'"
    "tv_records V' = rs @ [s]" "committed_step r a rs s E E'"
    by (auto simp: committed_def)
  have reg: "same_registry V V'" using same_registry_order(2) [OF loaded_with_ok(1) [OF valid] V'(3)] .
  have "stored_trust E' (rs @ [s])"
    using V'(5) by (simp add: stored_trust_def committed_step_def update_conv)
  moreover have "valid_records (tv_agent_ids V') (rs @ [s])"
    using V'(2,4) by (simp add: verifier_ok_def)
  ultimately show ?thesis using V' reg by (auto simp: agentic_ready_def)
qed

text \<open>Every command keeps the engine ready; the records only grow.\<close>

lemma agentic_handle_ready:
  assumes "agentic_ready E V rs" "agentic_handle C P score cmd E = (q, E')"
  shows "\<exists>V' ss. agentic_ready E' V' (rs @ ss) \<and> same_registry V V'"
  using agentic_handle_cases [OF assms]
proof (elim disjE conjE exE)
  assume "unmoved E V E'"
  from unmoved_ready [OF assms(1) this] show ?thesis by (metis append_Nil2)
next
  fix c r a s
  assume "committed P score r a (loaded_with V rs) s q E E'"
  from committed_ready [OF assms(1) this] show ?thesis by blast
qed

primrec agentic_commands ::
  "'j pydantic \<Rightarrow> ed25519 \<Rightarrow> scorer \<Rightarrow> command list \<Rightarrow> 'j agentic_engine \<Rightarrow> 'j agentic_engine" where
  "agentic_commands C P score [] E = E"
| "agentic_commands C P score (cmd # cmds) E = agentic_commands C P score cmds (snd (agentic_handle C P score cmd E))"

lemma agentic_commands_ready:
  "agentic_ready E V rs \<Longrightarrow> \<exists>V' ss. agentic_ready (agentic_commands C P score cmds E) V' (rs @ ss) \<and> same_registry V V'"
proof (induction cmds arbitrary: E V rs)
  case Nil
  then show ?case using same_registry_order(1) by (metis agentic_commands.simps(1) append_Nil2)
next
  case (Cons cmd cmds)
  obtain q E1 where h: "agentic_handle C P score cmd E = (q, E1)" by fastforce
  from agentic_handle_ready [OF Cons.prems h] obtain V1 ss where
    1: "agentic_ready E1 V1 (rs @ ss)" "same_registry V V1" by blast
  from Cons.IH [OF 1(1)] obtain V2 ss' where
    "agentic_ready (agentic_commands C P score cmds E1) V2 ((rs @ ss) @ ss')" "same_registry V1 V2" by blast
  with same_registry_order(2) [OF 1(2)] show ?case by (auto simp: h)
qed

section \<open>The adapter in the engine\<close>

lemma on_verifier_frame: "keeps callback_frame (on_verifier m)" "keeps quiet (on_verifier m)"
  by (auto simp: keeps_def on_verifier_def callback_frame_def quiet_def queue_coherent_def posted_from.start
      split: option.split prod.split)

lemma on_error_keeps:
  fixes m :: "('s, 'b) act"
  assumes "reflp R" "transp R" "keeps R m" "keeps R cleanup"
  shows "keeps R (on_error m cleanup)"
  unfolding keeps_def
proof
  fix E
  obtain x E1 where m: "m E = (x, E1)" by fastforce
  have 1: "R E E1" using assms(3) m by (auto simp: keeps_def dest: spec [of _ E])
  have "keeps R (bindm cleanup (\<lambda>_. raise e :: ('s, 'b) act))" for e
    by (rule keeps_bindm [OF assms(2,4) keeps_pure(2) [OF assms(1)]])
  then have "R E1 (snd (bindm cleanup (\<lambda>_. raise e :: ('s, 'b) act) E1))" for e
    by (simp add: keeps_def)
  with 1 show "R E (snd (on_error m cleanup E))"
    by (cases x) (auto simp: on_error_def m dest: transpD [OF assms(2)])
qed

lemma agentic_caught_keeps:
  assumes "keeps R (engine_entity_state trust_state_id)" "keeps R (on_verifier (load_state v))"
  shows "keeps R agentic_state" "keeps R (agentic_load v)"
  using assms
  by (auto simp: keeps_def agentic_state_def agentic_load_def split: prod.split sum.split exn.split)
    (metis snd_conv)+

lemma agentic_decision_keeps:
  assumes r: "reflp R" and t: "transp R"
    and b: "keeps R (engine_bundle C :: ('j agentic_engine, scenario_bundle) act)"
    and n: "keeps R (engine_now :: ('j agentic_engine, datetime) act)"
    and u: "keeps R (engine_new_uuid :: ('j agentic_engine, string) act)"
    and p: "\<And>entry. keeps R (engine_post entry :: ('j agentic_engine, unit) act)"
    and e: "keeps R (engine_entity_state trust_state_id :: ('j agentic_engine, pyval) act)"
    and s: "\<And>v. keeps R (engine_set_entity_state trust_state_id v :: ('j agentic_engine, unit) act)"
    and v: "\<And>m :: unit trusting. keeps R (on_verifier m)"
      "\<And>m :: agentic_decision trusting. keeps R (on_verifier m)"
      "\<And>m :: prepared trusting. keeps R (on_verifier m)" "\<And>m :: receipt trusting. keeps R (on_verifier m)"
      "\<And>m :: pyval trusting. keeps R (on_verifier m)"
  shows "keeps R (agentic_initialize C)" "keeps R (agentic_handle C P score cmd)"
proof -
  note intros = keeps_bindm [OF t] keeps_pure [OF r] b n u p s v agentic_caught_keeps [OF e v(1)] on_error_keeps [OF r t]
  show "keeps R (agentic_initialize C)"
    unfolding agentic_initialize_def by (intro intros) (auto intro: intros)
  have report: "keeps R (agentic_report C rq d)" for rq d
    unfolding agentic_report_def agentic_event_def by (intro intros)
  have effect: "keeps R (agentic_effect payer payee rq a i projected)" for payer payee rq a i projected
    unfolding agentic_effect_def by (intro keeps_bindm [OF t] s) (simp add: p keeps_pure [OF r])
  have execute: "keeps R (agentic_execute C c rq a plan)" for c rq a plan
    unfolding agentic_execute_def agentic_event_def by (intro intros effect)
  have dec: "keeps R (case q of
        Rejection (i, p) \<Rightarrow> (case ir_reason_code p of
            None \<Rightarrow> raise (AssertionError [])
          | Some reason \<Rightarrow> agentic_report C rq \<lparr>dc_action = Decline, dc_reasons = [reason], dc_receipt = p\<rparr>)
      | Plan plan \<Rightarrow> agentic_execute C c rq a plan)" for q c rq a
    by (auto simp: report execute keeps_pure [OF r] split: prepared.split option.split prod.split)
  have "keeps R (agentic_decide C c rq d)" for c rq d
    unfolding agentic_decide_def using report by (auto intro!: intros dec)
  then show "keeps R (agentic_handle C P score cmd)"
    unfolding agentic_handle_def by (intro intros)
qed

text \<open>The engine's adapter is a verifier of the registries of \<open>V0\<close>, and the stored trust state is sound.\<close>

definition agentic_invariant :: "trust_verifier \<Rightarrow> 'j agentic_engine \<Rightarrow> bool" where
  "agentic_invariant V0 E \<longleftrightarrow> (\<exists>V rs. agentic_ready E V rs \<and> same_registry V0 V)"

interpretation agentic_engine: quiet_adapter "agentic_adapter C P score" "agentic_invariant V0" for C P score V0
proof unfold_locales
  note frame = agentic_decision_keeps [OF callback_frame_refl callback_frame_trans engine_read_frame
    engine_new_uuid_frame engine_post_frame engine_entity_state_frame engine_set_entity_state_frame
    on_verifier_frame(1) on_verifier_frame(1) on_verifier_frame(1) on_verifier_frame(1) on_verifier_frame(1)]
  note still = agentic_decision_keeps [OF quiet_order quiet_capabilities(5,6,4,1,2,3)
    on_verifier_frame(2) on_verifier_frame(2) on_verifier_frame(2) on_verifier_frame(2) on_verifier_frame(2)]
  show "keeps callback_frame (ad_initialize (agentic_adapter C P score))"
    "keeps callback_frame (ad_handle (agentic_adapter C P score) cmd)" for cmd
    using frame by (simp_all add: agentic_adapter_def)
  show "en_scheduled_times (snd (ad_initialize (agentic_adapter C P score) E)) = en_scheduled_times E"
    "en_scheduled_times (snd (ad_handle (agentic_adapter C P score) cmd E)) = en_scheduled_times E" for cmd E
    by (simp_all add: agentic_adapter_def still [unfolded keeps_def quiet_def])
  have "snd (agentic_initialize C E) = E" for E
    by (auto simp: agentic_initialize_def bindm_def engine_bundle_def split: sum.split)
  then show "agentic_invariant V0 E \<Longrightarrow> agentic_invariant V0 (snd (ad_initialize (agentic_adapter C P score) E))" for E
    by (simp add: agentic_adapter_def)
  show "agentic_invariant V0 (snd (ad_handle (agentic_adapter C P score) cmd E))" if inv: "agentic_invariant V0 E" for E cmd
  proof -
    obtain q E' where h: "agentic_handle C P score cmd E = (q, E')" by fastforce
    from inv obtain V rs where "agentic_ready E V rs" "same_registry V0 V" by (auto simp: agentic_invariant_def)
    with agentic_handle_ready [OF this(1) h] show ?thesis
      using same_registry_order(2) by (auto simp: agentic_adapter_def agentic_invariant_def h)
  qed
  show "agentic_invariant V0 E \<Longrightarrow> same_business E E' \<Longrightarrow> normal_utc (ck_now (en_clock E')) \<Longrightarrow>
      agentic_invariant V0 E'" for E E'
    by (auto simp: agentic_invariant_def agentic_ready_def same_business_def stored_trust_def)
qed

end
