(* ===== verification/CardProperties.thy ===== *)
theory CardProperties
  imports CardRail Examples
begin

text \<open>
  The card rail's promises: the instances of the rail contracts, the positions of card payments in
  the ledger, and the properties with their witnesses.
\<close>

section \<open>Positions of card payments\<close>

text \<open>Shares of payer, payee, hold, fee and chargeback account for amount \<open>a\<close> and fee \<open>f\<close>.\<close>

fun card_shares :: "card_state \<Rightarrow> int \<Rightarrow> int \<Rightarrow> int \<times> int \<times> int \<times> int \<times> int" where
  "card_shares CardAuthorized a f = (- a, 0, a, 0, 0)"
| "card_shares CardCleared a f = (- a, 0, a, 0, 0)"
| "card_shares CardSettled a f = (- a, a - f, 0, f, 0)"
| "card_shares CardReported a f = (- a, a - f, 0, f, 0)"
| "card_shares CardDispute a f = (- a, a - f, 0, f, 0)"
| "card_shares CardChargeback a f = (- a, 0, 0, 0, a)"
| "card_shares CardCreated a f = (0, 0, 0, 0, 0)"
| "card_shares CardDeclined a f = (0, 0, 0, 0, 0)"
| "card_shares CardReversed a f = (0, 0, 0, 0, 0)"
| "card_shares CardRefunded a f = (0, 0, 0, 0, 0)"
| "card_shares CardRecovery a f = (0, 0, 0, 0, 0)"

definition card_position :: "card_state \<Rightarrow> payload \<Rightarrow> string \<times> string \<Rightarrow> int" where
  "card_position st d k =
     (case card_shares st (pay_cents d ''amount'') (pay_cents d ''fee'') of (p, q, h, e, c) \<Rightarrow>
        at_role d ''payer_account'' p k + at_role d ''payee_account'' q k + at_role d ''hold_account'' h k +
        at_role d ''fee_account'' e k + at_role d ''chargeback_account'' c k)"

lemma card_position_cong:
  assumes "same_fields card_rail a b"
  shows "card_position st a k = card_position st b k" "rail_gross a = rail_gross b"
proof -
  have look: "map_of a k = map_of b k" if "k \<in> set card_fields" for k
    using assms that by (simp add: same_fields_def card_rail_def)
  then have str: "payload_str a k = payload_str b k" if "k \<in> set card_fields" for k
    using that by (simp add: payload_str_def)
  have cur: "payload_str a ''currency'' = payload_str b ''currency''" by (rule str) (simp add: card_fields_def)
  have "pay_cents a k = pay_cents b k" if "k \<in> set card_fields" for k
    unfolding pay_cents_def cur look [OF that] by (rule refl)
  with str show "card_position st a k = card_position st b k" "rail_gross a = rail_gross b"
    by (simp_all add: card_position_def at_role_def rail_gross_def card_fields_def)
qed

lemma card_effect_positions:
  assumes d: "map_of d ''currency'' = Some (PStr currency)"
      "map_of d ''amount'' = Some (PDec amount)" "map_of d ''fee'' = Some (PDec fee)"
      "map_of d ''payer_account'' = Some (PStr payer)" "map_of d ''payee_account'' = Some (PStr payee)"
      "map_of d ''hold_account'' = Some (PStr hold)" "map_of d ''fee_account'' = Some (PStr fee_account)"
      "map_of d ''chargeback_account'' = Some (PStr chargeback)"
    and money: "canonical_amount currency amount" "canonical_amount currency fee" "\<not> dec_less amount fee"
    and roles: "distinct [payer, payee, hold, fee_account, chargeback]"
      "payer \<noteq> []" "payee \<noteq> []" "hold \<noteq> []" "fee_account \<noteq> []" "chargeback \<noteq> []"
    and t: "((st, cls), (nxt, kind, effect)) \<in> set card_transitions"
    and e: "card_effect d effect i = Inr eo"
  shows "case eo of None \<Rightarrow> card_position nxt d k = card_position st d k
    | Some en \<Rightarrow> (\<exists>m. normalized_entry en = Inr m \<and> entry_gross (entry_currency en) m \<le> rail_gross d \<and>
        entry_net m k = card_position nxt d k - card_position st d k)"
proof -
  define a f where "a = cents currency amount" and "f = cents currency fee"
  have exps: "dexp amount = - exponent_of currency" "dexp fee = - exponent_of currency"
    using money(1,2) by (auto simp: canonical_amount_def)
  then have fa: "f \<le> a" using money(3) dec_less_units [of "- exponent_of currency" amount fee]
    by (simp add: a_def f_def cents_def not_less)
  have pos: "0 \<le> f" "0 \<le> a" using canonical_cents(2) money(1,2) by (auto simp: a_def f_def)
  from canonical_from_cents(1) [OF money(1,2)] fa
  have net: "canonical_amount currency (dec_sub amount fee)" "cents currency (dec_sub amount fee) = a - f"
    by (simp_all add: a_def f_def)
  have cur: "payload_str d ''currency'' = currency" "payload_str d ''payer_account'' = payer"
    "payload_str d ''payee_account'' = payee" "payload_str d ''hold_account'' = hold"
    "payload_str d ''fee_account'' = fee_account" "payload_str d ''chargeback_account'' = chargeback"
    by (simp_all add: payload_str_def d)
  have pc: "pay_cents d ''amount'' = a" "pay_cents d ''fee'' = f"
    by (simp_all add: pay_cents_def d cur a_def f_def)
  have ee: "card_effect_entry effect i amount fee currency payer payee hold fee_account chargeback = Inr eo"
    using e by (simp add: card_effect_def Let_def state_dec_def state_str_def dict_get_def d)
  have n: "normalized_entry (posting j ds cs currency) = Inr (posting j ds cs currency)"
    if "set ds \<union> set cs \<subseteq> {payer, payee, hold, fee_account, chargeback} \<times> {amount, fee, dec_sub amount fee}"
      "distinct (map fst ds)" "distinct (map fst cs)" for j ds cs
    by (rule canonical_posting) (use that roles(2-) money(1,2) net(1) in auto)
  have eq: ?thesis if "eo = Some (posting j ds cs currency)"
      "set ds \<union> set cs \<subseteq> {payer, payee, hold, fee_account, chargeback} \<times> {amount, fee, dec_sub amount fee}"
      "distinct (map fst ds)" "distinct (map fst cs)"
      "leg_total currency ds + leg_total currency cs \<le> 2 * (a + f)"
      "snd k = currency \<Longrightarrow> leg_at currency cs (fst k) - leg_at currency ds (fst k) =
         card_position nxt d k - card_position st d k" for j ds cs
  proof -
    have zero: "card_position s d k = 0" if "snd k \<noteq> currency" for s
      using that by (simp add: card_position_def at_role_def cur split: prod.splits)
    have "entry_net (posting j ds cs currency) k = card_position nxt d k - card_position st d k"
      using that(6) zero by (auto simp: entry_net_def posting_def)
    moreover have "entry_gross currency (posting j ds cs currency) \<le> rail_gross d"
      using that(5) by (simp add: entry_gross_def posting_def rail_gross_def pc)
    ultimately show ?thesis using n [OF that(2-4)] that(1) by (auto simp: posting_def)
  qed
  have cases: "effect = ''none'' \<and> card_shares st a f = card_shares nxt a f \<or>
      effect = ''hold'' \<and> card_shares st a f = (0, 0, 0, 0, 0) \<and> card_shares nxt a f = (- a, 0, a, 0, 0) \<or>
      effect = ''release_hold'' \<and> card_shares st a f = (- a, 0, a, 0, 0) \<and> card_shares nxt a f = (0, 0, 0, 0, 0) \<or>
      effect = ''settle'' \<and> card_shares st a f = (- a, 0, a, 0, 0) \<and> card_shares nxt a f = (- a, a - f, 0, f, 0) \<or>
      effect = ''refund'' \<and> card_shares st a f = (- a, a - f, 0, f, 0) \<and> card_shares nxt a f = (0, 0, 0, 0, 0) \<or>
      effect = ''chargeback'' \<and> card_shares st a f = (- a, a - f, 0, f, 0) \<and> card_shares nxt a f = (- a, 0, 0, 0, a) \<or>
      effect = ''recovery'' \<and> card_shares st a f = (- a, 0, 0, 0, a) \<and> card_shares nxt a f = (0, 0, 0, 0, 0)"
    using t unfolding card_transitions_def list.set insert_iff empty_iff prod.inject
    by (elim disjE conjE FalseE; hypsubst; simp)
  note evals = card_position_def pc at_role_def cur a_def [symmetric] f_def [symmetric] net(2)
  from cases show ?thesis
  proof (elim disjE conjE)
    assume "effect = ''none''" "card_shares st a f = card_shares nxt a f"
    with ee show ?thesis by (auto simp: card_effect_entry_def card_position_def pc)
  next
    assume "effect = ''hold''" "card_shares st a f = (0, 0, 0, 0, 0)" "card_shares nxt a f = (- a, 0, a, 0, 0)"
    with ee roles pos show ?thesis
      by (intro eq [of "i @ '':hold''" "[(payer, amount)]" "[(hold, amount)]"]) (auto simp: card_effect_entry_def evals)
  next
    assume "effect = ''release_hold''" "card_shares st a f = (- a, 0, a, 0, 0)" "card_shares nxt a f = (0, 0, 0, 0, 0)"
    with ee roles pos show ?thesis
      by (intro eq [of "i @ '':release''" "[(hold, amount)]" "[(payer, amount)]"]) (auto simp: card_effect_entry_def evals)
  next
    assume "effect = ''settle''" "card_shares st a f = (- a, 0, a, 0, 0)" "card_shares nxt a f = (- a, a - f, 0, f, 0)"
    with ee roles pos show ?thesis
      by (intro eq [of "i @ '':settle''" "[(hold, amount)]" "[(payee, dec_sub amount fee), (fee_account, fee)]"])
        (auto simp: card_effect_entry_def evals)
  next
    assume "effect = ''refund''" "card_shares st a f = (- a, a - f, 0, f, 0)" "card_shares nxt a f = (0, 0, 0, 0, 0)"
    with ee roles pos show ?thesis
      by (intro eq [of "i @ '':refund''" "[(payee, dec_sub amount fee), (fee_account, fee)]" "[(payer, amount)]"])
        (auto simp: card_effect_entry_def evals)
  next
    assume "effect = ''chargeback''" "card_shares st a f = (- a, a - f, 0, f, 0)" "card_shares nxt a f = (- a, 0, 0, 0, a)"
    with ee roles pos show ?thesis
      by (intro eq [of "i @ '':chargeback''" "[(payee, dec_sub amount fee), (fee_account, fee)]" "[(chargeback, amount)]"])
        (auto simp: card_effect_entry_def evals)
  next
    assume "effect = ''recovery''" "card_shares st a f = (- a, 0, 0, 0, a)" "card_shares nxt a f = (0, 0, 0, 0, 0)"
    with ee roles pos show ?thesis
      by (intro eq [of "i @ '':recovery''" "[(chargeback, amount)]" "[(payer, amount)]"])
        (auto simp: card_effect_entry_def evals)
  qed
qed

interpretation card_money: priced_rail card_rail card_position
proof unfold_locales
  show "card_position (lc_created card_rail) d k = 0" for d k
    by (simp add: card_position_def at_role_def card_rail_def)
  show "same_fields card_rail a b \<Longrightarrow> card_position st a k = card_position st b k" for a b st k
    by (rule card_position_cong(1))
  show "same_fields card_rail a b \<Longrightarrow> rail_gross a = rail_gross b" for a b
    by (rule card_position_cong(2))
  show "case eo of None \<Rightarrow> card_position nxt d k = card_position st d k
       | Some en \<Rightarrow> (\<exists>m. normalized_entry en = Inr m \<and> entry_gross (entry_currency en) m \<le> rail_gross d \<and>
           entry_net m k = card_position nxt d k - card_position st d k)"
    if chk: "lc_check_fields card_rail d = Inr ()"
      and t: "map_of (lc_transitions card_rail) (st, cls) = Some (nxt, kind, effect)"
      and e: "lc_effect card_rail d effect i = Inr eo" for d st cls nxt kind effect i eo k
  proof -
    from chk have "card_check_fields d = Inr ()" by (simp add: card_rail_def)
    then obtain currency amount fee payer payee hold fee_account chargeback where
      1: "map_of d ''currency'' = Some (PStr currency)" "map_of d ''amount'' = Some (PDec amount)"
      "map_of d ''fee'' = Some (PDec fee)"
      "map_of d ''payer_account'' = Some (PStr payer)" "map_of d ''payee_account'' = Some (PStr payee)"
      "map_of d ''hold_account'' = Some (PStr hold)" "map_of d ''fee_account'' = Some (PStr fee_account)"
      "map_of d ''chargeback_account'' = Some (PStr chargeback)"
      "money_of amount currency True amount" "money_of fee currency False fee" "\<not> dec_less amount fee"
      "distinct [payer, payee, hold, fee_account, chargeback]"
      "payer \<noteq> []" "payee \<noteq> []" "hold \<noteq> []" "fee_account \<noteq> []" "chargeback \<noteq> []"
      unfolding card_check_fields_Inr by (elim exE conjE) (rule that)
    have "((st, cls), (nxt, kind, effect)) \<in> set card_transitions"
      using map_of_SomeD [OF t] by (simp add: card_rail_def)
    moreover have "card_effect d effect i = Inr eo" using e by (simp add: card_rail_def)
    ultimately show ?thesis
      by (rule card_effect_positions [OF 1(1-8) money_canonical [OF 1(9)] money_canonical [OF 1(10)] 1(11-17)])
  qed
qed

interpretation card_runs: quiet_adapter "card_adapter C" "rail_ready C card_rail" for C
  unfolding card_adapter_def by (rule card.quiet_ops)

lemma card_rail_sel:
  "lc_transitions card_rail = card_transitions" "lc_missing card_rail = card_missing_codes"
  "lc_code card_rail = ''CARD''" "lc_opening card_rail = card_opening"
  "lc_invalid_code card_rail = card_invalid_code" "lc_effect card_rail = card_effect"
  "lc_created card_rail = CardCreated"
  by (simp_all add: card_rail_def)

section \<open>A first step for the witnesses\<close>

abbreviation demo_card :: "(unit, payment_event + scenario_bundle) engine" where
  "demo_card \<equiv> demo_engine Card"

lemma demo_hold_accepted: "\<exists>L. ledger_post demo_start
    (posting (u @ '':hold'') [(''A'', Dec False 2500 (-2))] [(''card:holds'', Dec False 2500 (-2))] ''USD'') = Inr L"
proof -
  have "\<not> blank (u @ '':hold'')" by (simp add: blank_def py_space_def)
  then show ?thesis
    by (simp add: ledger_eval Let_def demo_start_def posting_def)
qed

lemma demo_card_authorized:
  "\<exists>ev E'. card_handle echo_json demo_authorize demo_card = (Inr [ev], E') \<and>
     pe_event_type ev = Authorization \<and> payment_status card_rail E' ''p1'' = Some CardAuthorized \<and>
     en_failure E' = None"
proof -
  have pid: "payload_str (cmd_payload demo_authorize) ''payment_id'' = ''p1''"
    by (simp add: demo_authorize_def demo_payment_def payload_str_def)
  have f: "payment_fields demo_card demo_authorize = cmd_payload demo_authorize"
    by (simp add: payment_fields_def demo_engine_ready)
  have e: "lc_effect card_rail (cmd_payload demo_authorize) ''hold'' u =
      Inr (Some (posting (u @ '':hold'') [(''A'', Dec False 2500 (-2))]
        [(''card:holds'', Dec False 2500 (-2))] ''USD''))" for u
    by (simp add: card_rail_def card_effect_def Let_def state_dec_def state_str_def dict_get_def
      demo_authorize_def demo_payment_def card_effect_entry_def)
  have "\<exists>ev E'. lifecycle_handle echo_json card_rail demo_authorize demo_card = (Inr [ev], E') \<and>
     pe_event_type ev = Authorization \<and>
     payment_status card_rail E' (payload_str (cmd_payload demo_authorize) ''payment_id'') = Some CardAuthorized \<and>
     en_failure E' = None"
  proof (rule card.handle_progress [OF demo_ready _ _ demo_authorize_canonical])
    show "payment_status card_rail demo_card (payload_str (cmd_payload demo_authorize) ''payment_id'') = Some CardCreated"
      by (simp add: payment_status_def demo_engine_ready card_rail_def)
    show "map_of (lc_transitions card_rail) (CardCreated, cmd_class demo_authorize) =
        Some (CardAuthorized, Authorization, ''hold'')"
      by (simp add: card_rail_def card_transitions_def demo_authorize_def)
    show "\<forall>entry. lc_effect card_rail (payment_fields demo_card demo_authorize) ''hold''
        (uuid_text (en_uuid_prefix demo_card * 2 ^ 48 + en_uuid_sequence demo_card)) = Inr (Some entry) \<longrightarrow>
        (\<exists>L. ledger_post (en_ledger demo_card) entry = Inr L)"
      unfolding f e using demo_hold_accepted by (simp add: demo_engine_ready)
  qed (simp_all add: demo_engine_ready payment_records_def)
  then show ?thesis by (simp add: card_handle_def pid)
qed

section \<open>Properties\<close>

text \<open>C26. The store stays valid: whatever command the card adapter is given and however it ends, every
  stored payment still has the schema, checked fields, a commitment chain over unique keys and
  increasing identifiers of this engine, and a stored state that its history replays to.\<close>

theorem card_store_kept:
  assumes "rail_ready C card_rail E" "card_handle C cmd E = (r, E')"
  shows "rail_ready C card_rail E'"
  using card.handle_ready [OF assms(1) assms(2) [unfolded card_handle_def]] .

theorem card_store_kept_witness:
  "rail_ready echo_json card_rail (snd (card_handle echo_json demo_authorize demo_card))"
  by (rule card_store_kept [OF demo_ready prod.collapse [symmetric]])

text \<open>C16. A command that raises leaves every payment and the ledger as they were, and raises nothing
  unforeseen: a code of the card tables, a refusal of the ledger, a failed engine or an exhausted
  numbering, and never \<open>CARD_STATE_CORRUPT\<close>.\<close>

theorem card_failure_atomic:
  assumes "rail_ready C card_rail E" "card_handle C cmd E = (Inl e, E')"
  shows "en_entity_state E' = en_entity_state E \<and> en_ledger E' = en_ledger E \<and>
    e \<noteq> LifecycleError ''CARD_STATE_CORRUPT'' \<and>
    ((\<exists>code. e = LifecycleError code) \<or> ledger_error e \<or> e = SimulationFailedError \<or>
     e = OverflowError ''deterministic UUID sequence exhausted'')"
proof -
  from card.handle_error [OF assms(1) assms(2) [unfolded card_handle_def]]
  have e: "card.expected_error e" and same: "en_entity_state E' = en_entity_state E" "en_ledger E' = en_ledger E"
    by simp_all
  have codes: "map_of card_missing_codes cls = Some c \<Longrightarrow> c \<noteq> ''CARD_STATE_CORRUPT''" for cls c
    by (drule map_of_SomeD) (auto simp: card_missing_codes_def)
  then have "card_invalid_code st cls \<noteq> ''CARD_STATE_CORRUPT''" for st cls
    by (auto simp: card_invalid_code_def split: option.splits)
  then have "\<not> card.rail_code ''CARD_STATE_CORRUPT''"
    unfolding card.rail_code_def using codes by (simp add: card_rail_def ran_def) metis
  with e have "e \<noteq> LifecycleError ''CARD_STATE_CORRUPT''"
    by (auto simp: card.expected_error_def ledger_error_def)
  with e same show ?thesis by (auto simp: card.expected_error_def)
qed

theorem card_failure_atomic_witness:
  "\<exists>e E'. card_handle echo_json demo_settle demo_card = (Inl e, E') \<and> en_ledger E' = en_ledger demo_card"
proof -
  have "lifecycle_handle echo_json card_rail demo_settle demo_card =
      (Inl (LifecycleError ''CARD_SETTLE_BEFORE_CLEAR''), demo_card)"
    using card.handle_illegal [OF demo_ready demo_engine_ready(4) demo_settle_canonical, of Card CardCreated]
    by (simp add: payment_status_def payment_records_def demo_engine_ready card_rail_def demo_settle_def
      card_transitions_def card_opening_def card_missing_codes_def)
  then have run: "card_handle echo_json demo_settle demo_card =
      (Inl (LifecycleError ''CARD_SETTLE_BEFORE_CLEAR''), demo_card)" by (simp add: card_handle_def)
  from card_failure_atomic [OF demo_ready this] run show ?thesis by blast
qed

text \<open>C3. A command carried out once is never carried out again: after any further commands, failed or
  not, handling it returns no event and leaves the engine as it is.\<close>

theorem card_carried_out_once:
  assumes "rail_ready C card_rail E" "card_handle C cmd E = (Inr [ev], E1)"
    and "E2 = handle_all C card_rail cmds E1" "en_failure E2 = None"
  shows "card_handle C cmd E2 = (Inr [], E2)"
  using card.handled_once [OF assms(1) assms(2) [unfolded card_handle_def] assms(3,4)] by (simp add: card_handle_def)

theorem card_carried_out_once_witness:
  "\<exists>ev E'. card_handle echo_json demo_authorize demo_card = (Inr [ev], E') \<and>
     card_handle echo_json demo_authorize E' = (Inr [], E')"
proof -
  from demo_card_authorized obtain ev E' where
    1: "card_handle echo_json demo_authorize demo_card = (Inr [ev], E')" "en_failure E' = None" by blast
  from card_carried_out_once [OF demo_ready 1(1), of E' "[]"] 1 show ?thesis by auto
qed

text \<open>C12. Refinement of the transition table: a command that succeeds is a retry that changes nothing, or
  moves its own payment from its state to the table's next state, emits one event of the table's kind
  and leaves every other payment alone.\<close>

theorem card_follows_table:
  assumes "rail_ready C card_rail E" "card_handle C cmd E = (Inr evs, E')"
  shows "evs = [] \<and> E' = E \<or>
    (\<exists>c ev st nxt effect. evs = [ev] \<and> card_canonical_command cmd = Inr c \<and>
       map_of card_transitions (st, cmd_class c) = Some (nxt, pe_event_type ev, effect) \<and>
       payment_status card_rail E (payload_str (cmd_payload c) ''payment_id'') = Some st \<and>
       payment_status card_rail E' (payload_str (cmd_payload c) ''payment_id'') = Some nxt \<and>
       (\<forall>i. i \<noteq> payload_str (cmd_payload c) ''payment_id'' \<longrightarrow>
          map_of (en_entity_state E') i = map_of (en_entity_state E) i))"
proof -
  have tr: "lc_transitions card_rail = card_transitions" by (simp add: card_rail_def)
  show ?thesis
    using card.handle_table [OF assms(1) assms(2) [unfolded card_handle_def], unfolded tr]
  proof (elim disjE exE conjE)
    fix ev s n kind effect and c :: command
    assume 1: "evs = [ev]" "canonical_command card_rail cmd = Inr c" "pe_event_type ev = kind"
      "map_of card_transitions (s, cmd_class c) = Some (n, kind, effect)"
      "payment_status card_rail E (payload_str (cmd_payload c) ''payment_id'') = Some s"
      "payment_status card_rail E' (payload_str (cmd_payload c) ''payment_id'') = Some n"
      "\<forall>i. i \<noteq> payload_str (cmd_payload c) ''payment_id'' \<longrightarrow>
         map_of (en_entity_state E') i = map_of (en_entity_state E) i"
    show ?thesis
      by (rule disjI2, rule exI [of _ c], rule exI [of _ ev], rule exI [of _ s], rule exI [of _ n],
          rule exI [of _ effect]) (simp add: card_canonical_command_def 1)
  qed simp
qed

theorem card_follows_table_witness:
  "\<exists>ev E'. card_handle echo_json demo_authorize demo_card = (Inr [ev], E') \<and>
     (\<exists>cls st nxt effect. map_of card_transitions (st, cls) = Some (nxt, pe_event_type ev, effect))"
proof -
  from demo_card_authorized obtain ev E' where
    1: "card_handle echo_json demo_authorize demo_card = (Inr [ev], E')" by blast
  from card_follows_table [OF demo_ready 1]
  have "\<exists>cls st nxt effect. map_of card_transitions (st, cls) = Some (nxt, pe_event_type ev, effect)"
    by (elim disjE exE conjE) auto
  with 1 show ?thesis by blast
qed

text \<open>C27. Progress: a canonical command that the table allows, with a fresh key, is carried out whenever
  the engine is healthy, identifiers are left and the ledger takes the posting.\<close>

theorem card_legal_command_runs:
  assumes "rail_ready C card_rail E" "en_failure E = None" "en_uuid_sequence E < 2 ^ 48"
    and "card_canonical_command cmd = Inr c" "pid = payload_str (cmd_payload c) ''payment_id''"
    and "payment_status card_rail E pid = Some st"
    and "map_of card_transitions (st, cmd_class c) = Some (nxt, kind, effect)"
    and "\<forall>r. record_value r \<in> set (payment_records E pid) \<longrightarrow>
      hr_key r \<noteq> payload_str (cmd_payload c) ''idempotency_key''"
    and "\<forall>entry. card_effect (payment_fields E c) effect
        (uuid_text (en_uuid_prefix E * 2 ^ 48 + en_uuid_sequence E)) = Inr (Some entry) \<longrightarrow>
      (\<exists>L. ledger_post (en_ledger E) entry = Inr L)"
  shows "\<exists>ev E'. card_handle C cmd E = (Inr [ev], E') \<and> pe_event_type ev = kind \<and>
    payment_status card_rail E' pid = Some nxt \<and> en_failure E' = None"
  using card.handle_progress [OF assms(1-3) assms(4) [unfolded card_canonical_command_def], of st nxt kind effect]
    assms(5-9)
  by (simp add: card_handle_def card_rail_sel)

theorem card_legal_command_runs_witness:
  "\<exists>ev E'. card_handle echo_json demo_authorize demo_card = (Inr [ev], E') \<and> pe_event_type ev = Authorization"
proof -
  have p: "payment_fields demo_card demo_authorize = cmd_payload demo_authorize"
    by (simp add: payment_fields_def demo_engine_ready)
  have e: "card_effect (cmd_payload demo_authorize) ''hold'' u =
      Inr (Some (posting (u @ '':hold'') [(''A'', Dec False 2500 (-2))]
        [(''card:holds'', Dec False 2500 (-2))] ''USD''))" for u
    by (simp add: card_effect_def Let_def state_dec_def state_str_def dict_get_def
      demo_authorize_def demo_payment_def card_effect_entry_def)
  have "\<exists>ev E'. card_handle echo_json demo_authorize demo_card = (Inr [ev], E') \<and> pe_event_type ev = Authorization \<and>
      payment_status card_rail E' (payload_str (cmd_payload demo_authorize) ''payment_id'') = Some CardAuthorized \<and>
      en_failure E' = None"
  proof (rule card_legal_command_runs [OF demo_ready _ _ demo_authorize_canonical [folded card_canonical_command_def] refl])
    show "map_of card_transitions (CardCreated, cmd_class demo_authorize) = Some (CardAuthorized, Authorization, ''hold'')"
      by (simp add: card_transitions_def demo_authorize_def)
    show "\<forall>entry. card_effect (payment_fields demo_card demo_authorize) ''hold''
        (uuid_text (en_uuid_prefix demo_card * 2 ^ 48 + en_uuid_sequence demo_card)) = Inr (Some entry) \<longrightarrow>
        (\<exists>L. ledger_post (en_ledger demo_card) entry = Inr L)"
      unfolding p e using demo_hold_accepted by (simp add: demo_engine_ready)
    show "payment_status card_rail demo_card (payload_str (cmd_payload demo_authorize) ''payment_id'') = Some CardCreated"
      by (simp add: payment_status_def demo_engine_ready card_rail_def)
  qed (simp_all add: demo_engine_ready payment_records_def)
  then show ?thesis by blast
qed

text \<open>An illegal command raises the code the tables give it and changes nothing: the missing code
  for a payment that does not exist yet, and after settlement a reversal is told so.\<close>

theorem card_illegal_command_code:
  assumes "rail_ready C card_rail E" "en_failure E = None"
    and "card_canonical_command cmd = Inr c" "pid = payload_str (cmd_payload c) ''payment_id''"
    and "payment_status card_rail E pid = Some st"
    and "map_of card_transitions (st, cmd_class c) = None"
    and "\<forall>r. record_value r \<in> set (payment_records E pid) \<longrightarrow>
      hr_key r \<noteq> payload_str (cmd_payload c) ''idempotency_key''"
  shows "card_handle C cmd E = (Inl (LifecycleError (
      if map_of (en_entity_state E) pid = None \<and> \<not> card_opening (cmd_class c)
      then case map_of card_missing_codes (cmd_class c) of None \<Rightarrow> ''CARD_INVALID_TRANSITION'' | Some code \<Rightarrow> code
      else card_invalid_code st (cmd_class c))), E)"
  using card.handle_illegal [OF assms(1,2) assms(3) [unfolded card_canonical_command_def], of st] assms(4-7)
  by (simp add: card_handle_def card_rail_sel cong: option.case_cong if_cong)

theorem card_illegal_command_code_witness:
  "card_handle echo_json demo_settle demo_card = (Inl (LifecycleError ''CARD_SETTLE_BEFORE_CLEAR''), demo_card)"
  using card_illegal_command_code [OF demo_ready demo_engine_ready(4)
    demo_settle_canonical [folded card_canonical_command_def] refl, of Card CardCreated]
  by (simp add: payment_status_def payment_records_def demo_engine_ready card_rail_def demo_settle_def
      card_transitions_def card_opening_def card_missing_codes_def)

text \<open>Replayed commitments: in an accepted payment the keys and the identifiers of the records are
  pairwise different, the identifiers are version-4 UUIDs of one engine, and the stored commitment and
  identifier are the last record's.\<close>

theorem card_history_sound:
  assumes "card_validated_state v pid = Inr d"
  shows "\<exists>rs. map_of d ''idempotency_records'' = Some (PTuple (map record_value rs)) \<and>
    distinct (map hr_key rs) \<and> distinct (map hr_event_id rs) \<and>
    (\<exists>p. \<forall>r \<in> set rs. \<exists>n. engine_event_id (hr_event_id r) p n) \<and>
    (rs \<noteq> [] \<longrightarrow> map_of d ''history_commitment'' = Some (PStr (hr_commitment (last rs))) \<and>
       map_of d ''last_event_id'' = Some (PStr (hr_event_id (last rs))))"
proof -
  from assms obtain rs h where ok: "payment_ok card_rail d pid rs h"
    unfolding card_validated_state_def validated_state_Inr by blast
  then have chain: "history_chain card_rail d pid (new_history card_rail) rs h" by (simp add: payment_ok_def)
  from history_chain_fields [OF chain] have f: "hs_keys h = map hr_key rs" "hs_event_ids h = map hr_event_id rs"
    by (simp_all add: new_history_def)
  have s: "history_sound card_rail h" using history_chain_sound [OF chain new_history_sound] .
  have ids: "\<exists>p. \<forall>r \<in> set rs. \<exists>n. engine_event_id (hr_event_id r) p n"
    using s f(2) unfolding history_sound_def by (cases "hs_prefix h") (auto, blast)
  have "hs_commitment h = hr_commitment (last rs)" if "rs \<noteq> []"
  proof -
    from that obtain qs r where rs: "rs = qs @ [r]" by (metis append_butlast_last_id)
    with chain obtain h1 where "extends_history card_rail d pid h1 r h"
      by (auto simp: history_chain_append)
    from extends_history_fields(3) [OF this] show ?thesis by (simp add: rs)
  qed
  then show ?thesis
    using ok s ids f
    by (intro exI [of _ rs]) (auto simp: payment_ok_def history_sound_def last_id_def last_map)
qed

theorem card_history_sound_witness:
  "\<exists>d. card_validated_state (opening_state card_rail demo_authorize) ''p1'' = Inr d \<and>
     map_of d ''idempotency_records'' = Some (PTuple [])"
proof -
  from card.opening_state_ok [OF demo_authorize_canonical, of "''p1''"] obtain d where
    d: "owned_mapping (opening_state card_rail demo_authorize) = Inr d"
      "payment_ok card_rail d ''p1'' [] (new_history card_rail)"
    by (auto simp: card_rail_def card_opening_def demo_authorize_def demo_payment_def)
  then have v: "card_validated_state (opening_state card_rail demo_authorize) ''p1'' = Inr d"
    by (auto simp: card_validated_state_def validated_state_Inr)
  from card_history_sound [OF v] have "\<exists>rs. map_of d ''idempotency_records'' = Some (PTuple (map record_value rs))"
    by blast
  with v d(2) show ?thesis by (auto simp: payment_ok_def)
qed

text \<open>C8. The books balance: whatever a command does, every account's holding moves by exactly what the
  positions of the stored card payments move, within the 28 digits of the decimal context.\<close>

theorem card_books:
  assumes "rail_ready C card_rail E" "card_handle C cmd E = (r, E')"
    and "fits_all (lg_balances (en_ledger E))"
    and "\<forall>currency. exposure currency (en_ledger E) + command_gross card_rail cmd E < 10 ^ 28"
  shows "holding (en_ledger E') k - books card_rail card_position E' k =
    holding (en_ledger E) k - books card_rail card_position E k"
  using card_money.handle_books(1) [OF assms(1,3,4) assms(2) [unfolded card_handle_def], of k] by simp

theorem card_books_witness:
  "\<exists>ev E'. card_handle echo_json demo_authorize demo_card = (Inr [ev], E') \<and>
     holding (en_ledger E') (''A'', ''USD'') = 10000 + books card_rail card_position E' (''A'', ''USD'')"
proof -
  from demo_card_authorized obtain ev E' where
    1: "card_handle echo_json demo_authorize demo_card = (Inr [ev], E')" by blast
  have f: "fits_all (lg_balances (en_ledger demo_card))"
    by (simp add: demo_engine_ready demo_start_def fits_all_def fits_def exponent_of_def currency_exponents_def)
  have g: "command_gross card_rail demo_authorize demo_card = 5100"
    by (simp add: command_gross_def demo_authorize_canonical payment_fields_def demo_engine_ready)
      (simp add: rail_gross_def pay_cents_def demo_authorize_def demo_payment_def payload_str_def cents_def units_def exponent_of_def
      currency_exponents_def)
  have x: "exposure currency (en_ledger demo_card) \<le> 10000" for currency
    by (simp add: exposure_def demo_engine_ready demo_start_def bsum_def cents_def units_def exponent_of_def
      currency_exponents_def)
  have r: "\<forall>currency. exposure currency (en_ledger demo_card) + command_gross card_rail demo_authorize demo_card < 10 ^ 28"
    by (simp add: g order_le_less_trans [OF x])
  have h: "holding (en_ledger demo_card) (''A'', ''USD'') = 10000"
    by (simp add: demo_engine_ready demo_start_def holding_def dict_dec_def cents_def units_def exponent_of_def
      currency_exponents_def)
  from card_books [OF demo_ready 1 f r, of "(''A'', ''USD'')"] h
  have "holding (en_ledger E') (''A'', ''USD'') = 10000 + books card_rail card_position E' (''A'', ''USD'')"
    by (simp add: books_def demo_engine_ready)
  with 1 show ?thesis by blast
qed

text \<open>C14. A run of the engine with the card adapter always ends, keeps the order and uniqueness of the
  event history and the agreement of clock and due-time index, keeps the payment store valid, and
  changes the ledger by accepted postings only.\<close>

theorem card_run_ends:
  assumes "json_stable C" "engine_ok C E" "rail_ready C card_rail E"
  shows "\<exists>r E'. engine_run C (card_adapter C) until E = Some (r, E') \<and> engine_ok C E' \<and>
    rail_ready C card_rail E' \<and> posted_from (en_ledger E) (en_ledger E') \<and>
    (\<exists>evs. en_events E' = en_events E @ evs)"
proof -
  from card_runs.run_ends obtain r E' where run: "engine_run C (card_adapter C) until E = Some (r, E')" by blast
  from card_runs.run_keeps [OF assms run] card_engine.run_ok [OF assms(1,2) run]
  show ?thesis unfolding run by (intro exI [of _ r] exI [of _ E']) (simp add: run_frame_def)
qed

theorem card_run_ends_witness:
  "\<exists>r E'. engine_run echo_json (card_adapter echo_json) None demo_card = Some (r, E') \<and>
     engine_ok echo_json E'"
  using card_run_ends [OF echo_stable demo_engine_ready(8) [of "()" Card] demo_ready, of None] by blast

end
