(* ===== verification/EngineProperties.thy ===== *)
theory EngineProperties
  imports CardProperties
begin

text \<open>
  Properties of the simulation engine under any adapter that works through the lent capabilities:
  sessions of its public operations as an inductive relation, the history they build, the replay of
  its serialization, its identifiers, and failing closed.
\<close>

section \<open>Sessions\<close>

text \<open>The engines that calls of the public operations lead to, whether the calls return or raise.\<close>

inductive session ::
  "'j pydantic \<Rightarrow> ('a, 'j) rail_ops \<Rightarrow> ('a, 'j) engine \<Rightarrow> ('a, 'j) engine \<Rightarrow> bool"
  for C :: "'j pydantic" and V :: "('a, 'j) rail_ops" and E0 :: "('a, 'j) engine" where
  start: "session C V E0 E0"
| schedules: "session C V E0 E \<Longrightarrow> session C V E0 (snd (engine_schedule t prio cmd E))"
| posts: "session C V E0 E \<Longrightarrow> session C V E0 (snd (engine_post entry E))"
| sets: "session C V E0 E \<Longrightarrow> session C V E0 (snd (engine_set_entity_state i v E))"
| numbers: "session C V E0 E \<Longrightarrow> session C V E0 (snd (engine_new_uuid E))"
| emits: "session C V E0 E \<Longrightarrow> session C V E0 (snd (engine_emit C ev E))"
| runs: "session C V E0 E \<Longrightarrow> engine_run C V until E = Some (r, E') \<Longrightarrow> session C V E0 E'"

lemma keepsD: "keeps R m \<Longrightarrow> R s (snd (m s))"
  by (simp add: keeps_def)

lemma emit_ok:
  assumes "json_stable C" "engine_ok C E"
  shows "engine_ok C (snd (engine_emit C ev E))" "run_frame E (snd (engine_emit C ev E))"
proof -
  obtain r E1 where a: "append_batch C [ev] E = (r, E1)" by fastforce
  from append_batch_ok [OF assms a] append_batch_frame [OF a]
  have 1: "engine_ok C E1" "run_frame E E1" by auto
  have "engine_ok C (snd (engine_emit C ev E)) \<and> run_frame E (snd (engine_emit C ev E))"
    using 1 assms(2) mark_failed_ok [OF 1(1)] run_frame_trans [OF 1(2) callback_run_frame [OF mark_failed_frame]]
    by (cases r) (auto simp: engine_emit_def healthy_def fail_closed_def a split: sum.splits)
  then show "engine_ok C (snd (engine_emit C ev E))" "run_frame E (snd (engine_emit C ev E))" by auto
qed

lemma callback_session:
  assumes "callback_frame E E'" "engine_ok C E \<and> run_frame E0 E"
  shows "engine_ok C E' \<and> run_frame E0 E'"
  using callback_frame_ok [OF assms(1)] run_frame_trans [OF _ callback_run_frame [OF assms(1)]] assms(2) by blast

lemma session_ok:
  assumes "session C V E0 E" "rail_adapter V" "json_stable C" "engine_ok C E0"
  shows "engine_ok C E \<and> run_frame E0 E"
  using assms(1)
proof induction
  case start
  with assms(4) show ?case by simp
next
  case (schedules E t prio cmd)
  have "callback_frame E (snd (engine_schedule t prio cmd E))"
    by (rule keepsD [OF engine_schedule_frame])
  from callback_session [OF this schedules.IH] show ?case .
next
  case (posts E entry)
  have "callback_frame E (snd (engine_post entry E))"
    by (rule keepsD [OF engine_post_frame])
  from callback_session [OF this posts.IH] show ?case .
next
  case (sets E i v)
  have "callback_frame E (snd (engine_set_entity_state i v E))"
    by (rule keepsD [OF engine_set_entity_state_frame])
  from callback_session [OF this sets.IH] show ?case .
next
  case (numbers E)
  have "callback_frame E (snd (engine_new_uuid E))"
    by (rule keepsD [OF engine_new_uuid_frame])
  from callback_session [OF this numbers.IH] show ?case .
next
  case (emits E ev)
  then have ok: "engine_ok C E" "run_frame E0 E" by simp_all
  from emit_ok(1) [OF assms(3) ok(1)] run_frame_trans [OF ok(2) emit_ok(2) [OF assms(3) ok(1)]]
  show ?case by simp
next
  case (runs E until r E')
  then have ok: "engine_ok C E" "run_frame E0 E" by simp_all
  from rail_adapter.run_ok [OF assms(2,3) ok(1) runs.hyps(2)] run_frame_trans [OF ok(2)] show ?case by simp
qed

section \<open>Properties\<close>

text \<open>C7. In every session from a fresh engine the event history is strictly ordered by time and then
  identifier, has no duplicate identifier, holds only events of the scenario's rail that are not in
  the future, and the clock's queue agrees with the due-time index, so a run never diverges.\<close>

theorem engine_history_ordered:
  assumes "engine_new C rb b fs opening allow = Inr E0" "rail_adapter V" "json_stable C" "session C V E0 E"
  shows "sorted_wrt (<) (map event_key (en_events E)) \<and> distinct (map pe_event_id (en_events E)) \<and>
    en_seen_event_ids E = pe_event_id ` set (en_events E) \<and>
    (\<forall>ev \<in> set (en_events E). pe_rail ev = sc_rail (en_bundle E) \<and>
       instant (pe_event_time ev) \<le> instant (ck_now (en_clock E))) \<and>
    map instant (en_scheduled_times E) = map (\<lambda>s. instant (at s)) (ck_queue (en_clock E))"
  using session_ok [OF assms(4,2,3) engine_new_ok(1) [OF assms(1)]]
  by (auto simp: engine_ok_def history_ok_def queue_coherent_def)

theorem engine_history_ordered_witness:
  "\<forall>ev. distinct (map pe_event_id (en_events (snd (engine_emit echo_json ev demo_card))))"
proof
  fix ev
  have s: "session echo_json (card_adapter echo_json) demo_card (snd (engine_emit echo_json ev demo_card))"
    by (rule emits [OF start])
  from engine_history_ordered [OF demo_engine_new [where a = "()"] card_engine.rail_adapter_axioms echo_stable s]
  show "distinct (map pe_event_id (en_events (snd (engine_emit echo_json ev demo_card))))" by blast
qed

text \<open>C15. A session conserves value: what the engine's ledger has accepted keeps every currency's total,
  within 28 digits.\<close>

theorem engine_conserves_value:
  assumes "engine_new C rb b fs opening allow = Inr E0" "rail_adapter V" "json_stable C" "session C V E0 E"
    and "\<forall>c. exposure c (en_ledger E0) + history_gross c (en_ledger E) < 10 ^ 28"
  shows "assert_conserved (en_ledger E) = Inr ()"
proof -
  from engine_new_ok(3) [OF assms(1)] have "ledger_open opening allow = Inr (en_ledger E0)" by auto
  moreover from session_ok [OF assms(4,2,3) engine_new_ok(1) [OF assms(1)]]
  have "posted_from (en_ledger E0) (en_ledger E)" by (simp add: run_frame_def)
  ultimately show ?thesis using posted_conserved assms(5) by blast
qed

theorem engine_conserves_value_witness:
  "assert_conserved (en_ledger (snd (engine_post demo_entry demo_card))) = Inr ()"
proof -
  have p: "engine_post demo_entry demo_card = (Inr (), demo_card\<lparr>en_ledger := demo_posted\<rparr>)"
    using demo_run(2) by (simp add: engine_post_def healthy_def ensure_healthy_def fail_closed_def demo_engine_ready)
  have "\<forall>c. exposure c (en_ledger demo_card) + history_gross c (en_ledger (snd (engine_post demo_entry demo_card))) < 10 ^ 28"
    using demo_bounds by (simp add: p demo_engine_ready)
  moreover have "session echo_json (card_adapter echo_json) demo_card (snd (engine_post demo_entry demo_card))"
    by (rule posts [OF start])
  ultimately show ?thesis
    using engine_conserves_value [OF demo_engine_new [where a = "()"] card_engine.rail_adapter_axioms echo_stable] by blast
qed

text \<open>C13. Replay: the artifact of a healthy session's history loads back to exactly that history.\<close>

theorem engine_replay_roundtrip:
  assumes "engine_new C rb b fs opening allow = Inr E0" "rail_adapter V" "json_stable C" "session C V E0 E"
    and "en_failure E = None"
  shows "\<exists>js. serialize_events C E = (Inr js, E) \<and> replay_events C (Some js) = Inr (en_events E)"
  using engine_replays [OF _ assms(5)] session_ok [OF assms(4,2,3) engine_new_ok(1) [OF assms(1)]] by blast

theorem engine_replay_roundtrip_witness:
  "\<exists>js. serialize_events echo_json demo_card = (Inr js, demo_card) \<and> replay_events echo_json (Some js) = Inr []"
proof -
  have s: "session echo_json (card_adapter echo_json) demo_card demo_card" by (rule start)
  from engine_replay_roundtrip [OF demo_engine_new [where a = "()"] card_engine.rail_adapter_axioms echo_stable s demo_engine_ready(4)]
  show ?thesis by (simp add: demo_engine_with_def)
qed

text \<open>Fail closed: once an operation has failed, every operation that changes the state or hands out
  stored entities or events (schedule, post, entity state, identifiers, emit, events, serialization, run)
  raises \<open>SimulationFailedError\<close> and changes nothing. The clock's time and the bundle can still be read,
  and reading them changes nothing either.\<close>

theorem engine_fails_closed:
  assumes "en_failure E = Some e"
  shows "engine_schedule t prio cmd E = (Inl SimulationFailedError, E) \<and>
    engine_post entry E = (Inl SimulationFailedError, E) \<and>
    engine_entity_state i E = (Inl SimulationFailedError, E) \<and>
    engine_set_entity_state i v E = (Inl SimulationFailedError, E) \<and>
    engine_new_uuid E = (Inl SimulationFailedError, E) \<and>
    engine_emit C ev E = (Inl SimulationFailedError, E) \<and>
    engine_events C E = (Inl SimulationFailedError, E) \<and>
    serialize_events C E = (Inl SimulationFailedError, E) \<and>
    engine_run C V until E = Some (Inl SimulationFailedError, E) \<and>
    engine_now E = (Inr (ck_now (en_clock E)), E) \<and> snd (engine_bundle C E) = E"
  using failed_operations [OF assms] by (simp add: engine_now_def engine_bundle_def)

theorem engine_fails_closed_witness:
  "engine_post demo_entry (mark_failed InvalidOperation demo_card) =
     (Inl SimulationFailedError, mark_failed InvalidOperation demo_card)"
proof -
  have "en_failure (mark_failed InvalidOperation demo_card) = Some InvalidOperation"
    by (simp add: mark_failed_def demo_engine_ready)
  from engine_fails_closed [OF this] show ?thesis by blast
qed

text \<open>A cutoff that \<open>run\<close> refuses before it starts: not in UTC, or in the past.\<close>

definition cutoff_refused :: "datetime option \<Rightarrow> ('a, 'j) engine \<Rightarrow> bool" where
  "cutoff_refused until E \<longleftrightarrow> (case normalize_until until of
       Inl _ \<Rightarrow> True
     | Inr None \<Rightarrow> False
     | Inr (Some t) \<Rightarrow> instant t < instant (ck_now (en_clock E)))"

lemma run_outcome:
  assumes "engine_run C V until E = Some (r, E')" "en_failure E = None" "\<not> cutoff_refused until E"
  shows "(\<exists>e. r = Inl e) \<and> en_failure E' \<noteq> None \<or>
    en_failure E' = None \<and> r = mapr (validated_event C) (en_events E')"
proof -
  from assms obtain u b E1 where u: "run_body C V u E = Some (b, E1)"
    "(case b of Inl e \<Rightarrow> (Inl e, mark_failed e E1) | Inr _ \<Rightarrow> engine_events C E1) = (r, E')"
    by (cases "normalize_until until")
      (auto simp: engine_run_def cutoff_refused_def ensure_healthy_def split: if_splits option.splits)
  then show ?thesis
    using mark_failed_failed [of _ E1]
    by (cases b) (auto simp: engine_events_def healthy_def ensure_healthy_def simp del: mark_failed_failed
        split: option.splits)
qed

text \<open>The outcome of a run in any session: a failed engine raises \<open>SimulationFailedError\<close> and a refused
  cutoff raises, both without any change; otherwise a run that raises leaves the engine failed, and one
  that returns leaves it healthy and returns its whole history.\<close>

theorem engine_run_outcome:
  assumes "engine_new C rb b fs opening allow = Inr E0" "rail_adapter V" "json_stable C" "session C V E0 E"
    and "engine_run C V until E = Some (r, E')"
  shows "if en_failure E \<noteq> None then r = Inl SimulationFailedError \<and> E' = E
    else if cutoff_refused until E then (\<exists>e. r = Inl e) \<and> E' = E
    else (\<exists>e. r = Inl e) \<and> en_failure E' \<noteq> None \<or> r = Inr (en_events E') \<and> en_failure E' = None"
proof -
  consider "en_failure E \<noteq> None" | "en_failure E = None" "cutoff_refused until E"
    | "en_failure E = None" "\<not> cutoff_refused until E" by blast
  then show ?thesis
  proof cases
    case 1
    with assms(5) show ?thesis by (auto simp: engine_run_def ensure_healthy_def)
  next
    case 2
    with assms(5) show ?thesis
      by (auto simp: engine_run_def ensure_healthy_def cutoff_refused_def split: sum.splits option.splits)
  next
    case 3
    have "engine_ok C E'"
      using session_ok [OF runs [OF assms(4,5)] assms(2,3) engine_new_ok(1) [OF assms(1)]] by blast
    then have "\<forall>ev \<in> set (en_events E'). owned_event C ev" by (simp add: engine_ok_def history_ok_def)
    with run_outcome [OF assms(5) 3] 3 owned_events_validate [of "en_events E'" C] show ?thesis by auto
  qed
qed

theorem engine_run_outcome_witness:
  "\<exists>r E'. engine_run echo_json (card_adapter echo_json) None demo_card = Some (r, E') \<and>
     ((\<exists>e. r = Inl e) \<and> en_failure E' \<noteq> None \<or> r = Inr (en_events E') \<and> en_failure E' = None)"
proof -
  from card_runs.run_ends obtain r E' where
    1: "engine_run echo_json (card_adapter echo_json) None demo_card = Some (r, E')" by blast
  have "session echo_json (card_adapter echo_json) demo_card demo_card" by (rule start)
  from engine_run_outcome [OF demo_engine_new [where a = "()"] card_engine.rail_adapter_axioms echo_stable this 1]
  have "(\<exists>e. r = Inl e) \<and> en_failure E' \<noteq> None \<or> r = Inr (en_events E') \<and> en_failure E' = None"
    by (simp add: demo_engine_ready cutoff_refused_def normalize_until_def optional_def)
  with 1 show ?thesis by blast
qed

text \<open>C34. Identifiers: each identifier the engine issues is the text of a version-4 UUID that carries the
  engine's prefix and the running number, so no two are equal; numbers are issued below \<open>2 ^ 48\<close> only, and
  a healthy engine that has used them up raises \<open>OverflowError\<close> and is failed from then on.\<close>

theorem engine_identifiers_unique:
  fixes E0 :: "('a, 'b) engine"
  assumes "engine_new C rb b fs opening allow = Inr E0" "rail_adapter V" "json_stable C"
    and "length (rb (sc_seed (en_bundle E0))) = 10" "\<forall>x \<in> set (rb (sc_seed (en_bundle E0))). x < 256"
    and "session C V E0 E1" "engine_new_uuid E1 = (Inr u1, E2)"
    and "session C V E2 E3" "engine_new_uuid E3 = (Inr u2, E4)"
  shows "u1 \<noteq> u2 \<and> (\<exists>n. uuid_of_text u1 = Some n \<and> uuid_version n = Some 4 \<and>
      uuid_prefix n = en_uuid_prefix E0 \<and> uuid_sequence n = en_uuid_sequence E1) \<and>
    en_uuid_sequence E1 < en_uuid_sequence E3 \<and> en_uuid_sequence E3 < 2 ^ 48 \<and>
    (\<forall>E :: ('a, 'b) engine. en_failure E = None \<and> 2 ^ 48 \<le> en_uuid_sequence E \<longrightarrow>
       engine_new_uuid E = (Inl (OverflowError ''deterministic UUID sequence exhausted''),
         E\<lparr>en_failure := Some (OverflowError ''deterministic UUID sequence exhausted'')\<rparr>))"
proof -
  have s1: "engine_ok C E1 \<and> run_frame E0 E1"
    by (rule session_ok [OF assms(6,2,3) engine_new_ok(1) [OF assms(1)]])
  from assms(7) have e2: "E2 = E1\<lparr>en_uuid_sequence := en_uuid_sequence E1 + 1\<rparr>"
    by (simp add: engine_new_uuid_Inr)
  then have "engine_ok C E2" using s1 by (simp add: engine_ok_def queue_coherent_def)
  from session_ok [OF assms(8,2,3) this] have s3: "run_frame E2 E3" by simp
  have "prefix_ok (en_uuid_prefix E0)"
    using assms(1) uuid_prefix_ok [OF assms(4,5)]
    by (auto simp: engine_new_def res_simps split: prod.splits)
  with s1 s3 e2 have p: "prefix_ok (en_uuid_prefix E1)" "prefix_ok (en_uuid_prefix E3)"
    "en_uuid_prefix E1 = en_uuid_prefix E0" by (simp_all add: run_frame_def)
  from new_uuid_text [OF p(1) assms(7)] obtain n1 where n1: "uuid_of_text u1 = Some n1" "uuid_version n1 = Some 4"
    "uuid_prefix n1 = en_uuid_prefix E1" "uuid_sequence n1 = en_uuid_sequence E1" by auto
  from new_uuid_text [OF p(2) assms(9)] obtain n2 where n2: "uuid_of_text u2 = Some n2"
    "uuid_sequence n2 = en_uuid_sequence E3" by auto
  have "en_uuid_sequence E1 < en_uuid_sequence E3" using s3 e2 by (simp add: run_frame_def)
  moreover have "en_uuid_sequence E3 < 2 ^ 48" using assms(9) by (simp add: engine_new_uuid_Inr)
  moreover have "engine_new_uuid E = (Inl (OverflowError ''deterministic UUID sequence exhausted''),
      E\<lparr>en_failure := Some (OverflowError ''deterministic UUID sequence exhausted'')\<rparr>)"
    if "en_failure E = None" "2 ^ 48 \<le> en_uuid_sequence E" for E :: "('a, 'b) engine"
    using that by (simp add: engine_new_uuid_def healthy_def ensure_healthy_def Let_def mark_failed_def)
  ultimately show ?thesis using n1 n2 p(3) by auto
qed

theorem engine_identifiers_unique_witness:
  "\<exists>u1 u2 E2 E4. engine_new_uuid demo_card = (Inr u1, E2) \<and> engine_new_uuid E2 = (Inr u2, E4) \<and> u1 \<noteq> u2"
proof -
  obtain u1 E2 where 1: "engine_new_uuid demo_card = (Inr u1, E2)"
    by (auto simp: engine_new_uuid_Inr demo_engine_ready)
  then obtain u2 E4 where 2: "engine_new_uuid E2 = (Inr u2, E4)"
    by (auto simp: engine_new_uuid_Inr demo_engine_ready)
  have s: "session echo_json (card_adapter echo_json) demo_card demo_card"
    "session echo_json (card_adapter echo_json) E2 E2" by (rule start)+
  from engine_identifiers_unique [OF demo_engine_new [where a = "()"] card_engine.rail_adapter_axioms echo_stable _ _ s(1) 1 s(2) 2]
  have "u1 \<noteq> u2" by simp
  with 1 2 show ?thesis by blast
qed

end
