(* ===== verification/TrustClaims.thy ===== *)
theory TrustClaims
  imports TrustExamples
begin

text \<open>The properties of the verifier over its sessions, with their instances on the example.\<close>

section \<open>The example\<close>

lemma demo_now: "dt_tz (utc_at t) = Some UTC"
  by (simp add: utc_at_def)

lemma demo_registered:
  "map_of (tv_mandates demo_verifier) (am_mandate_id (ar_mandate demo_request)) = Some (ar_mandate demo_request)"
  by (simp add: demo_verifier_def demo_request_def demo_mandate_def)

lemmas demo_allows = demo_request_constructed demo_verifier_ok demo_authorized demo_now demo_registered

lemma demo_session: "trust_session echo_keys loads demo_verifier demo_verifier"
  by (rule session_starts)

section \<open>Authorization\<close>

text \<open>C9. The ordered checks of a preview decide exactly whether the request is authorized: a receipt is
  allowed if and only if the request is signed with a registered key, carries the approved mandate,
  stays within it, continues the agent's receipt chain with a fresh nonce and brings fresh step-up
  evidence where the mandate asks for it; and a preview commits nothing.\<close>

theorem trust_preview_authorized:
  assumes "new_verifier P agents mandates evidence = Inr V0" "trust_session P True V0 V" "constructed r"
    and "trust_preview P r now V = (Inr (i, p), V')"
  shows "(ir_allowed p \<longleftrightarrow> authorized P V r now) \<and> tv_records V' = tv_records V \<and>
    (\<not> ir_allowed p \<longrightarrow> (\<exists>reason. ir_reason_code p = Some reason \<and>
       preview_reason P V r now = Inr (Some reason)))"
proof -
  from session_framed [OF assms(2) new_verifier_ok [OF assms(1)]]
  have "valid_records (tv_agent_ids V) (tv_records V)" by (simp add: session_frame_def verifier_ok_def)
  with assms(3) show ?thesis
    using assms(4) by (cases rule: trust_preview_cases) auto
qed

theorem trust_preview_authorized_witness:
  "\<exists>i p V. trust_preview echo_keys demo_request (utc_at 10) demo_verifier = (Inr (i, p), V) \<and> ir_allowed p"
proof -
  have v: "valid_records (tv_agent_ids demo_verifier) (tv_records demo_verifier)"
    using demo_verifier_ok by (simp add: verifier_ok_def)
  obtain q V where q: "trust_preview echo_keys demo_request (utc_at 10) demo_verifier = (q, V)" by fastforce
  from demo_request_constructed v q obtain i p where "q = Inr (i, p)"
    by (cases rule: trust_preview_cases) (auto simp: demo_now)
  with q trust_preview_authorized [OF demo_verifier_new demo_session demo_request_constructed] demo_authorized
  show ?thesis by blast
qed

text \<open>C18. Nothing is committed without authorization: when \<open>verify\<close> allows a request, the request was
  authorized in the state before, and the new state has exactly one more record, which holds the
  request's agent, nonce and digests, the receipt before and the receipt returned.\<close>

theorem trust_verify_commits:
  assumes "new_verifier P agents mandates evidence = Inr V0" "trust_session P True V0 V" "constructed r"
    and "trust_verify P r now V = (Inr p, V')" "ir_allowed p"
  shows "authorized P V r now \<and> (\<exists>s. tv_records V' = tv_records V @ [s] \<and> sr_agent_id s = ar_agent_id r \<and>
    sr_nonce s = ar_nonce r \<and> sr_previous s = last_receipt (tv_records V) (ar_agent_id r) \<and>
    sr_request_hash s = sha256_hex (signing_bytes r) \<and> sr_receipt s = ir_receipt_hash p \<and>
    sr_outcome s = ''verified'')"
proof -
  from session_framed [OF assms(2) new_verifier_ok [OF assms(1)]]
  have ok: "verifier_ok V" by (simp add: session_frame_def)
  from assms(3) ok assms(4) show ?thesis
  proof (cases rule: trust_verify_cases)
    case (verified final)
    then show ?thesis
      by (auto simp: new_state_record_def record_ok_def allowed_receipt_def Let_def new_receipt_Inr)
  qed (use assms(5) in auto)
qed

theorem trust_verify_commits_witness:
  "\<exists>p V. trust_verify echo_keys demo_request (utc_at 10) demo_verifier = (Inr p, V) \<and> ir_allowed p \<and>
     (\<exists>s. tv_records V = [s] \<and> sr_nonce s = ''n1'')"
proof -
  from trust_verify_allows [OF demo_allows] obtain p V where
    1: "trust_verify echo_keys demo_request (utc_at 10) demo_verifier = (Inr p, V)" "ir_allowed p" by blast
  from trust_verify_commits [OF demo_verifier_new demo_session demo_request_constructed 1] 1 show ?thesis
    by (auto simp: demo_verifier_def demo_request_def)
qed

section \<open>Single use\<close>

lemma distinct_map_filter_one:
  "distinct (map f xs) \<Longrightarrow> y \<in> f ` set xs \<Longrightarrow> length (filter (\<lambda>x. f x = y) xs) = 1"
proof (induction xs)
  case (Cons x xs)
  have "f x = y \<Longrightarrow> filter (\<lambda>z. f z = y) xs = []" using Cons.prems(1) by (auto simp: filter_empty_conv image_iff)
  with Cons show ?case by auto
qed simp

lemma verify_closes:
  assumes "constructed r" "verifier_ok V" "trust_verify P r now V = (q, V')"
  shows "verifier_ok V'" "tv_pending_preview V' = None"
  using verify_frame [OF assms(1,2), of P now] closing_frames(2) [OF assms(2,1), of P now] assms(3)
  by (simp_all add: step_frame_def)

text \<open>C17. No replay: once \<open>verify\<close> has allowed a request, no request of the same agent with the same
  nonce is allowed again by \<open>verify\<close> or by a preview, nor recorded, in any later session of the same verifier
  into which no other state is loaded. (Nonces are per agent, and \<open>load_state\<close> replaces the records:
  after it the loaded records decide.)\<close>

theorem trust_no_replay:
  assumes "new_verifier P agents mandates evidence = Inr V0" "trust_session P True V0 V" "constructed r"
    and "trust_verify P r now V = (Inr p, V1)" "ir_allowed p" "trust_session P False V1 V2"
    and "constructed r'" "ar_agent_id r' = ar_agent_id r" "ar_nonce r' = ar_nonce r"
    and "trust_verify P r' later V2 = (Inr p', V3)"
  shows "\<not> ir_allowed p' \<and> tv_records V3 = tv_records V2 \<and>
    (\<forall>i p''. fst (trust_preview P r' later V2) = Inr (i, p'') \<longrightarrow> \<not> ir_allowed p'') \<and>
    length (filter (\<lambda>s. sr_agent_id s = ar_agent_id r \<and> sr_nonce s = ar_nonce r) (tv_records V2)) = 1"
proof -
  from session_framed [OF assms(2) new_verifier_ok [OF assms(1)]]
  have ok: "verifier_ok V" by (simp add: session_frame_def)
  note V1 = verify_closes [OF assms(3) ok assms(4)]
  let ?key = "\<lambda>s. (sr_agent_id s, sr_nonce s)"
  from assms(3) ok assms(4) have "(ar_agent_id r, ar_nonce r) \<in> ?key ` set (tv_records V1)"
    by (cases rule: trust_verify_cases) (use assms(5) in \<open>auto simp: new_state_record_def\<close>)
  moreover from session_framed [OF assms(6) V1] have
    ok2: "verifier_ok V2" and "set (tv_records V1) \<subseteq> set (tv_records V2)"
    by (auto simp: session_frame_def)
  ultimately have used: "(ar_agent_id r, ar_nonce r) \<in> ?key ` set (tv_records V2)" by auto
  then have "\<not> authorized P V2 r' later" using assms(8,9) by (auto simp: authorized_def)
  note no = this
  have v2: "valid_records (tv_agent_ids V2) (tv_records V2)" using ok2 by (simp add: verifier_ok_def)
  have refused: "\<not> ir_allowed p' \<and> tv_records V3 = tv_records V2"
    using assms(7) ok2 assms(10) no by (cases rule: trust_verify_cases) auto
  have preview: "\<not> ir_allowed p''" if "fst (trust_preview P r' later V2) = Inr (i, p'')" for i p''
  proof -
    have run: "trust_preview P r' later V2 = (Inr (i, p''), snd (trust_preview P r' later V2))"
      using that by (simp add: prod_eq_iff)
    from assms(7) v2 run show ?thesis by (cases rule: trust_preview_cases) (use no in auto)
  qed
  have "distinct (map ?key (tv_records V2))" using valid_records_distinct [OF v2] by simp
  from distinct_map_filter_one [OF this used]
  have "length (filter (\<lambda>s. sr_agent_id s = ar_agent_id r \<and> sr_nonce s = ar_nonce r) (tv_records V2)) = 1" by simp
  with refused preview show ?thesis by blast
qed

theorem trust_no_replay_witness:
  "\<exists>p V p' V'. trust_verify echo_keys demo_request (utc_at 10) demo_verifier = (Inr p, V) \<and> ir_allowed p \<and>
     trust_verify echo_keys demo_request (utc_at 11) V = (Inr p', V') \<and> \<not> ir_allowed p'"
proof -
  from trust_verify_allows [OF demo_allows] obtain p V where
    1: "trust_verify echo_keys demo_request (utc_at 10) demo_verifier = (Inr p, V)" "ir_allowed p"
      "tv_records V = tv_records demo_verifier @ [new_state_record demo_request p]" by blast
  from verify_frame [OF demo_allows(1,2), of echo_keys "utc_at 10"] 1(1) have ok: "verifier_ok V"
    by (simp add: step_frame_def)
  have "\<not> authorized echo_keys V demo_request (utc_at 11)"
    by (auto simp: authorized_def 1(3) new_state_record_def)
  from trust_verify_refuses [OF demo_allows(1) ok this demo_now] obtain p' V' where
    2: "trust_verify echo_keys demo_request (utc_at 11) V = (Inr p', V')" by blast
  from trust_no_replay [OF demo_verifier_new demo_session demo_allows(1) 1(1,2) session_starts
    demo_allows(1) refl refl 2] 1 2 show ?thesis by blast
qed

lemma plan_dead:
  assumes "trust_run P loads V1 g V2" "verifier_ok V1" "tv_pending_preview V1 = None" "n < tv_objects V1"
    and "\<forall>p. tv_pending_commit V1 = Some p \<longrightarrow> cp_object (pc_capability p) \<noteq> n"
  shows "n < tv_objects V2 \<and> (\<forall>p. tv_pending_commit V2 = Some p \<longrightarrow> cp_object (pc_capability p) \<noteq> n)"
proof -
  define dead where "dead V \<longleftrightarrow> n < tv_objects V \<and>
    (\<forall>p. tv_pending_commit V = Some p \<longrightarrow> cp_object (pc_capability p) \<noteq> n)" for V :: trust_verifier
  have step: "dead V \<Longrightarrow> step_frame V V' \<Longrightarrow> dead V'" for V V'
    by (fastforce simp: dead_def step_frame_def same_registry_def)
  have ok: "verifier_ok V" "previewed P V g" if "trust_run P loads V1 g V" for g V
    using run_framed [OF that assms(2,3)] by (simp_all add: session_frame_def)
  from assms(1) have "dead V2"
  proof induction
    case starts
    then show ?case using assms(4,5) by (simp add: dead_def)
  next
    case (loads g V v)
    then show ?case by (auto simp: dead_def load_state_def split: sum.split)
  next
    case (previews g V r now)
    then show ?case by (intro step [OF previews.IH preview_frame] ok)
  next
    case (prepares g V r p result now)
    obtain q V' where q: "prepare_commit r p result now V = (q, V')" by fastforce
    with prepare_frame [OF prepares.hyps(2) ok [OF prepares.hyps(1)] prepares.hyps(3) q] step [OF prepares.IH]
    show ?case by simp
  next
    case (commits g V r p result now)
    with commit_frame [OF commits.hyps(2) ok [OF commits.hyps(1)] commits.hyps(3)] step [OF commits.IH]
    show ?case by blast
  next
    case (decides g V r now result later)
    then show ?case by (intro step [OF decides.IH decide_frame] ok)
  next
    case (verifies g V r now)
    then show ?case by (intro step [OF verifies.IH verify_frame] ok)
  next
    case (applies g V plan)
    then show ?case by (intro step [OF applies.IH apply_frame] ok)
  next
    case (discards g V plan)
    then show ?case by (intro step [OF discards.IH discard_frame(1)] ok)
  next
    case (discards_preview g V i)
    then show ?case by (intro step [OF discards_preview.IH discard_frame(2)] ok)
  qed
  then show ?thesis by (simp add: dead_def)
qed

text \<open>C19. A commit plan works once: after \<open>apply_commit\<close> has accepted it, every later session refuses it
  for \<open>apply_commit\<close>, \<open>projected_state\<close> and \<open>discard_commit\<close> and records nothing for it.\<close>

theorem trust_plan_once:
  assumes "new_verifier P agents mandates evidence = Inr V0" "trust_session P True V0 V"
    and "apply_commit plan V = (Inr p, V1)" "trust_session P True V1 V2"
  shows "fst (apply_commit plan V2) = Inl unissued_plan \<and>
    tv_records (snd (apply_commit plan V2)) = tv_records V2 \<and>
    projected_state plan V2 = (Inl unissued_plan, V2) \<and> fst (discard_commit plan V2) = Inl unissued_plan"
proof -
  from session_framed [OF assms(2) new_verifier_ok [OF assms(1)]]
  have ok: "verifier_ok V" by (simp add: session_frame_def)
  from apply_frame [OF ok, of plan] assms(3) have ok1: "verifier_ok V1" by (simp add: step_frame_def)
  have V1: "cp_object plan < tv_objects V1" "tv_pending_commit V1 = None" "tv_pending_preview V1 = None"
    using ok assms(3) by (cases rule: apply_commit_cases [where V = V and plan = plan]; auto simp: verifier_ok_def)+
  obtain g where "trust_run P True V1 g V2" using assms(4) by (auto simp: trust_session_def)
  from plan_dead [OF this ok1 V1(3), of "cp_object plan"] V1(1,2)
  have dead: "\<forall>p. tv_pending_commit V2 = Some p \<longrightarrow> cp_object (pc_capability p) \<noteq> cp_object plan" by simp
  then show ?thesis
    by (auto simp: apply_commit_def projected_state_def discard_commit_def bindm_def revoke_ephemeral_def
        split: option.split)
qed

theorem trust_plan_once_witness:
  "\<exists>plan p V V1. decide echo_keys demo_request (utc_at 10) ApproveReceipt (utc_at 10) demo_verifier = (Inr (Plan plan), V) \<and>
     apply_commit plan V = (Inr p, V1) \<and> fst (apply_commit plan V1) = Inl unissued_plan"
proof -
  have "ApproveReceipt \<in> set final_outcomes" by (simp add: final_outcomes_def)
  from decide_allows [OF demo_allows this] obtain plan final V where
    1: "decide echo_keys demo_request (utc_at 10) ApproveReceipt (utc_at 10) demo_verifier = (Inr (Plan plan), V)"
      "tv_pending_commit V = Some \<lparr>pc_capability = plan, pc_receipt = final,
         pc_record = new_state_record demo_request final\<rparr>" by blast
  from session_decides [OF demo_session [where loads = True] demo_allows(1), where now = "utc_at 10"
      and result = ApproveReceipt and later = "utc_at 10"] 1(1)
  have s: "trust_session echo_keys True demo_verifier V" by simp
  obtain p V1 where 2: "apply_commit plan V = (Inr p, V1)"
    using 1(2) by (cases rule: apply_commit_cases [where V = V and plan = plan]) auto
  from trust_plan_once [OF demo_verifier_new s 2 session_starts] 1(1) 2 show ?thesis by blast
qed

section \<open>State\<close>

text \<open>C5. In every session the recorded state is sound: the agents are registered, no agent's nonce and
  no evidence reference occurs twice, every record names the receipt of its agent's record before it,
  and every receipt is the digest of its record. A session is any sequence of the public methods,
  \<open>prepare_commit\<close> and \<open>commit\<close> with any request and receipt included, as long as no request presented to
  them has the SHA-256 digest of the previewed request without its signed text.\<close>

theorem trust_chain_valid:
  assumes "new_verifier P agents mandates evidence = Inr V0" "trust_session P True V0 V"
  shows "distinct (map (\<lambda>s. (sr_agent_id s, sr_nonce s)) (tv_records V)) \<and>
    distinct (filter (\<lambda>e. e \<noteq> []) (map sr_evidence_ref (tv_records V))) \<and>
    (\<forall>i < length (tv_records V). let s = tv_records V ! i in sr_agent_id s \<in> tv_agent_ids V \<and>
       sr_previous s = last_receipt (take i (tv_records V)) (sr_agent_id s) \<and>
       (\<exists>result \<in> set final_outcomes. sr_outcome s = outcome_value result \<and>
          sr_receipt s = receipt_digest (sr_agent_id s) (sr_nonce s) (sr_evidence_ref s)
            (sr_request_hash s) (sr_signature_hash s) (sr_previous s) result))"
proof -
  from session_framed [OF assms(2) new_verifier_ok [OF assms(1)]]
  have v: "valid_records (tv_agent_ids V) (tv_records V)" by (simp add: session_frame_def verifier_ok_def)
  with valid_records_distinct [OF v] show ?thesis
    unfolding Let_def using valid_records_at [OF v] unfolding record_ok_def by blast
qed

theorem trust_chain_valid_witness:
  "\<exists>V s. tv_records V = [s] \<and> sr_nonce s = ''n1'' \<and> sr_agent_id s \<in> tv_agent_ids V \<and> sr_previous s = [] \<and>
     V = snd (trust_verify echo_keys demo_request (utc_at 10) demo_verifier)"
proof -
  from trust_verify_allows [OF demo_allows] obtain p V where
    1: "trust_verify echo_keys demo_request (utc_at 10) demo_verifier = (Inr p, V)"
      "tv_records V = tv_records demo_verifier @ [new_state_record demo_request p]" by blast
  then have r: "tv_records V = [new_state_record demo_request p]" by (simp add: demo_verifier_def)
  from session_verifies [OF demo_session demo_allows(1), where now = "utc_at 10"] 1(1)
  have "trust_session echo_keys True demo_verifier V" by simp
  from trust_chain_valid [OF demo_verifier_new this]
  have "sr_agent_id (new_state_record demo_request p) \<in> tv_agent_ids V \<and> sr_previous (new_state_record demo_request p) = []"
    by (simp add: r Let_def)
  with 1(1) r show ?thesis by (auto simp: new_state_record_def demo_request_def)
qed

text \<open>C32. Round trip: the state a session has come to loads into any verifier of the same registries,
  giving back exactly its records, and loading it into the session itself only revokes what is pending.\<close>

theorem trust_state_roundtrip:
  assumes "new_verifier P agents mandates evidence = Inr V0" "trust_session P True V0 V" "trust_session P True V0 W"
  shows "load_state (dump_state V) W =
    (Inr (), W\<lparr>tv_records := tv_records V, tv_pending_preview := None, tv_pending_commit := None\<rparr>)"
proof -
  note ok = new_verifier_ok [OF assms(1)]
  from session_framed [OF assms(2) ok] session_framed [OF assms(3) ok]
  have "valid_records (tv_agent_ids W) (tv_records V)"
    using same_registry_ids by (auto simp: session_frame_def verifier_ok_def)
  from loaded_records_value [OF this] show ?thesis by (simp add: load_state_def dump_state_def)
qed

theorem trust_state_roundtrip_witness:
  "\<exists>V. trust_verify echo_keys demo_request (utc_at 10) demo_verifier = (fst (trust_verify echo_keys demo_request (utc_at 10) demo_verifier), V) \<and>
     tv_records V \<noteq> [] \<and> tv_records (snd (load_state (dump_state V) demo_verifier)) = tv_records V"
proof -
  from trust_verify_allows [OF demo_allows] obtain p V where
    1: "trust_verify echo_keys demo_request (utc_at 10) demo_verifier = (Inr p, V)" "tv_records V \<noteq> []" by auto
  from session_verifies [OF demo_session [where loads = True] demo_allows(1), where now = "utc_at 10"] 1(1)
  have "trust_session echo_keys True demo_verifier V" by simp
  from trust_state_roundtrip [OF demo_verifier_new this demo_session] 1 show ?thesis by simp
qed

text \<open>C33. Loading is all or nothing: a value is either refused with \<open>AGENTIC_STATE_CORRUPT\<close> and leaves
  the verifier as it is, or leaves a state whose records form a sound chain.\<close>

theorem trust_load_sound:
  assumes "load_state v V = (q, V')"
  shows "q = Inl TrustVerifierStateError \<and> V' = V \<or>
    q = Inr () \<and> loaded_records V v = Inr (tv_records V') \<and> valid_records (tv_agent_ids V') (tv_records V') \<and>
    tv_pending_commit V' = None"
  using assms loaded_records_valid [of V v]
  by (auto simp: load_state_def rethrow_Inl rethrow_Inr split: sum.splits)

theorem trust_load_sound_witness:
  "load_state (PMap PyDict []) demo_verifier = (Inl TrustVerifierStateError, demo_verifier) \<and>
   snd (load_state (dump_state demo_verifier) demo_verifier) = demo_verifier"
proof -
  obtain q V where q: "load_state (PMap PyDict []) demo_verifier = (q, V)" by fastforce
  have "loaded_records demo_verifier (PMap PyDict []) = Inl (ValueError ''verifier state fields are invalid'')"
    by (simp add: loaded_records_def)
  moreover have "loaded_records demo_verifier (dump_state demo_verifier) = Inr []"
    using loaded_records_value [of demo_verifier "[]"] by (simp add: dump_state_def demo_verifier_def)
  ultimately show ?thesis
    using trust_load_sound [OF q] q by (auto simp: load_state_def demo_verifier_def)
qed

end
