(* ===== verification/AgenticProperties.thy ===== *)
theory AgenticProperties
  imports AgenticRail EngineProperties TrustClaims
begin

text \<open>
  The properties of the agentic rail: value moves only for an authorized and approved request and by
  exactly its amount, a committed request is never committed again, the stored trust state stays
  sound over whole runs, an authorized payment is carried out, and a command carries its request.
\<close>

section \<open>What a command carries\<close>

lemma agentic_row_exists:
  assumes "\<And>v. v \<in> snd ` set p \<Longrightarrow> v = PNone \<or> (\<exists>s. v = PStr s) \<or> (\<exists>i. v = PInt i) \<or> (\<exists>d. v = PDec d) \<or>
    (\<exists>d. v = PDt d) \<or> (\<exists>b. v = PBytes b) \<or> (\<exists>ts. v = PTuple (map PStr ts))"
  shows "\<exists>rows. mapr agentic_row p = Inr rows"
  using assms
proof (induction p)
  case (Cons kv p)
  obtain k v where kv: "kv = (k, v)" by (cases kv)
  have texts: "all_texts (map PStr ts) = Some ts" for ts
    by (induction ts) (simp_all add: all_texts_def)
  from Cons.prems [of v] have "\<exists>row. agentic_row kv = Inr row"
    by (auto simp: kv texts)
  moreover from Cons have "\<exists>rows. mapr agentic_row p = Inr rows" by auto
  ultimately show ?case by auto
qed simp

lemma own_command:
  assumes "full_request r" "am_user_ref (ar_mandate r) \<noteq> ar_payee_id r"
  shows "\<exists>c. agentic_command r (PStr (am_user_ref (ar_mandate r))) (PStr (ar_payee_id r)) = Inr c"
proof -
  let ?p = "request_payload r @ [(''payer_account'', PStr (am_user_ref (ar_mandate r))),
      (''payee_account'', PStr (ar_payee_id r))]"
  from assms(1) have n: "am_user_ref (ar_mandate r) \<noteq> []" "ar_payee_id r \<noteq> []"
    by (auto simp: full_request_def constructed_def new_request_Inr new_mandate_Inr arg_simps)
  have "map fst ?p = agentic_payload_keys"
    by (simp add: request_payload_keys agentic_payload_keys_def)
  with agentic_keys_distinct have "distinct (map fst ?p)" by simp
  from freeze_mapping_frozen [OF this] full_request_frozen [OF assms(1)]
  have "freeze_mapping (map (\<lambda>(k, v). (PStr k, v)) ?p) = Inr ?p" by auto
  with n assms(2) show ?thesis
    by (simp add: agentic_command_def agentic_text_def new_command_def)
qed

lemma command_canonical:
  assumes "full_request r" "agentic_command r payer_v payee_v = Inr c"
  shows "agentic_canonical c = Inr c" "request_from_payload (cmd_payload c) = Inr r"
proof -
  note c = agentic_command_Inr [OF assms]
  let ?p = "request_payload r @ [(''payer_account'', PStr (am_user_ref (ar_mandate r))),
      (''payee_account'', PStr (ar_payee_id r))]"
  have keys: "map fst ?p = agentic_payload_keys"
    by (simp add: request_payload_keys agentic_payload_keys_def)
  then have keyset: "set (map fst ?p) = set agentic_payload_keys" by (rule arg_cong)
  have "\<exists>rows. mapr agentic_row (sort_key fst ?p) = Inr rows"
    by (rule agentic_row_exists) (auto simp: request_payload_def Let_def split: option.splits)
  then obtain fp where fp: "agentic_fingerprint ?p = Inr fp" by (auto simp: agentic_fingerprint_def)
  have accounts: "dict_get ?p ''payer_account'' = Inr payer_v" "dict_get ?p ''payee_account'' = Inr payee_v"
    unfolding c(1,2) dict_get_def by (simp_all add: request_payload_def Let_def)
  have own: "request_from_payload ?p = Inr r" by (rule request_from_own_payload [OF assms(1)])
  show "request_from_payload (cmd_payload c) = Inr r" using own c(4) by simp
  have pc: "cmd_payload c = ?p" "cmd_class c = AgenticPaymentCommand" "cmd_name c = ''agentic.pay''"
    using c(4) by simp_all
  show "agentic_canonical c = Inr c"
    unfolding agentic_canonical_def pc
    by (simp only: keyset fp own accounts assms(2) pc bindr_simps rethrow_Inr simp_thms if_False if_True bindr_Inr)
qed

section \<open>The payment\<close>

lemma constructed_amount:
  assumes "constructed r"
  shows "canonical_amount (ar_currency r) (ar_amount r)" "0 < cents (ar_currency r) (ar_amount r)"
proof -
  from assms have t: "trust_money ''amount'' (PDec (ar_amount r)) (ar_currency r) = Inr (ar_amount r)"
    by (auto simp: constructed_def new_request_Inr money_arg_Inr simp del: trust_money.simps)
  then have "money_of (ar_amount r) (ar_currency r) True (ar_amount r)"
    by (auto simp: money_of_def trust_exponents_def rail_exponents_def dec_le_zero not_le res_simps
        split: option.splits if_splits)
  from money_canonical [OF this] money_of_result(3) [OF this]
  show "canonical_amount (ar_currency r) (ar_amount r)" "0 < cents (ar_currency r) (ar_amount r)"
    using canonical_cents(1) by auto
qed

text \<open>What an approved request adds to the holding \<open>k\<close>.\<close>

definition paid :: "payment_request \<Rightarrow> string \<times> string \<Rightarrow> int" where
  "paid r k = (if snd k \<noteq> ar_currency r then 0
     else if fst k = ar_payee_id r then cents (ar_currency r) (ar_amount r)
     else if fst k = am_user_ref (ar_mandate r) then - cents (ar_currency r) (ar_amount r) else 0)"

lemma agentic_entry_moves:
  assumes "full_request r" "am_user_ref (ar_mandate r) \<noteq> ar_payee_id r" "fits_all (lg_balances L)"
    and "ledger_post L (agentic_entry (am_user_ref (ar_mandate r)) (ar_payee_id r) r i) = Inr L'"
    and "exposure (ar_currency r) L + 2 * cents (ar_currency r) (ar_amount r) < 10 ^ 28"
  shows "holding L' k = holding L k + paid r k"
proof -
  let ?en = "agentic_entry (am_user_ref (ar_mandate r)) (ar_payee_id r) r i"
  from assms(1) have con: "constructed r" and ne: "am_user_ref (ar_mandate r) \<noteq> []" "ar_payee_id r \<noteq> []"
    by (auto simp: full_request_def constructed_def new_request_Inr new_mandate_Inr arg_simps)
  have n: "normalized_entry ?en = Inr ?en"
    unfolding agentic_entry_def
    by (rule canonical_posting) (use constructed_amount(1) [OF con] ne in auto)
  have "exposure (entry_currency ?en) L + entry_gross (entry_currency ?en) ?en < int dec_limit"
    using assms(5) by (simp add: agentic_entry_def posting_def entry_gross_def leg_total_def dec_limit_def)
  from ledger_post_effect(4) [OF assms(4,3) n this, of k]
  show ?thesis using assms(2)
    by (auto simp: agentic_entry_def posting_def entry_net_def leg_at_def paid_def)
qed

section \<open>An authorized payment is carried out\<close>

lemma schema_1_0_0: "validate_schema_version ''1.0.0'' = Inr ''1.0.0''"
  by (simp add: validate_schema_version_def validate_semantic_version_def semver_match_def digit_def)

lemma agentic_event_runs:
  assumes "constructed r" "uuid_of_text u \<noteq> None" "bundle_loaded C E" "normal_utc (ck_now (en_clock E))"
  shows "\<exists>ev. agentic_event C r d u E = (Inr ev, E)"
proof -
  have f: "uuid_of_text (ar_campaign_id r) \<noteq> None" "uuid_of_text (ar_trace_id r) \<noteq> None"
    "uuid_of_text (ar_actor_id r) \<noteq> None" "uuid_of_text (ar_counterparty_id r) \<noteq> None"
    using assms(1) by (auto simp: constructed_def new_request_Inr arg_simps)
  have "\<not> dec_less (ar_amount r) dec_zero"
    using constructed_amount(1) [OF assms(1)] by (auto simp: canonical_amount_def dec_less_zero)
  with assms(2,4) f
  have "payment_event_valid (agentic_payment_event vp (ck_now (en_clock E)) r d u) =
      Inr (agentic_payment_event vp (ck_now (en_clock E)) r d u)" for vp
    by (auto simp: payment_event_valid_def agentic_payment_event_def Let_def schema_1_0_0 validate_uuid_def
        optional_def event_times_and_amount_def)
  then show ?thesis
    by (simp add: agentic_event_def bindm_def bundle_loaded_run [OF assms(3)] engine_now_def)
qed

definition engine_able :: "'j pydantic \<Rightarrow> 'j agentic_engine \<Rightarrow> bool" where
  "engine_able C E \<longleftrightarrow> en_failure E = None \<and> bundle_loaded C E \<and> normal_utc (ck_now (en_clock E)) \<and>
     prefix_ok (en_uuid_prefix E) \<and> en_uuid_sequence E < 2 ^ 48"

lemma agentic_execute_runs:
  assumes "constructed r" "engine_able C E"
    and "en_adapter E = Some V" "tv_records V = rs" "tv_pending_preview V = None"
    and "tv_pending_commit V = Some p" "cp_object (pc_capability p) = cp_object plan"
    and "payload_str (cmd_payload cmd) ''payer_account'' = am_user_ref (ar_mandate r)"
    and "payload_str (cmd_payload cmd) ''payee_account'' = ar_payee_id r"
    and "\<exists>L. ledger_post (en_ledger E) (agentic_entry (am_user_ref (ar_mandate r)) (ar_payee_id r) r
      (uuid_text (en_uuid_prefix E * 2 ^ 48 + en_uuid_sequence E))) = Inr L"
  shows "\<exists>ev E'. agentic_execute C cmd r Approve plan E = (Inr [ev], E')"
proof -
  define u where "u = uuid_text (en_uuid_prefix E * 2 ^ 48 + en_uuid_sequence E)"
  define E1 where "E1 = E\<lparr>en_uuid_sequence := en_uuid_sequence E + 1\<rparr>"
  from assms(2) have new: "engine_new_uuid E = (Inr u, E1)"
    by (simp add: engine_new_uuid_Inr engine_able_def u_def E1_def)
  have E1: "en_adapter E1 = Some V" "en_ledger E1 = en_ledger E" "en_failure E1 = None" "bundle_loaded C E1"
    "normal_utc (ck_now (en_clock E1))"
    using assms(2,3) by (simp_all add: E1_def engine_able_def bundle_loaded_def)
  from new_uuid_text [OF _ new] assms(2) have uu: "uuid_of_text u \<noteq> None" by (auto simp: engine_able_def)
  from agentic_event_runs [OF assms(1) uu E1(4,5)] obtain ev where
    ev: "agentic_event C r \<lparr>dc_action = Approve, dc_reasons = [], dc_receipt = cp_receipt plan\<rparr> u E1 = (Inr ev, E1)" by blast
  from assms(10) obtain L where
    L: "ledger_post (en_ledger E) (agentic_entry (am_user_ref (ar_mandate r)) (ar_payee_id r) r u) = Inr L"
    by (auto simp: u_def)
  let ?v = "state_value (rs @ [pc_record p])"
  have pr: "on_verifier (projected_state plan) E1 = (Inr ?v, E1)"
    using E1(1) assms(4,6,7) by (simp add: on_verifier_at projected_state_def)
  define E2 where "E2 = E1\<lparr>en_ledger := L, en_entity_state := AList.update trust_state_id ?v (en_entity_state E1)\<rparr>"
  have eff: "agentic_effect (am_user_ref (ar_mandate r)) (ar_payee_id r) r Approve u ?v E1 = (Inr (), E2)"
    using L E1(2,3) by (simp add: agentic_effect_def bindm_def engine_post_def engine_set_entity_state_def healthy_def
      ensure_healthy_def fail_closed_def frozen_state_value trust_state_id_def E2_def)
  have "fst (on_verifier (apply_commit plan) E2) = Inr (pc_receipt p)"
    using E1(1) assms(3-7) by (simp add: on_verifier_at apply_commit_def bindm_def revoke_ephemeral_def
      apply_pending_def E2_def)
  then obtain E3 where ap: "on_verifier (apply_commit plan) E2 = (Inr (pc_receipt p), E3)"
    by (metis prod.collapse)
  show ?thesis
    by (simp add: agentic_execute_def bindm_def new ev pr assms(8,9) on_error_def eff ap)
qed

lemma agentic_progress:
  assumes "agentic_ready E V rs" "engine_able C E" "agentic_canonical cmd = Inr c"
    and "request_from_payload (cmd_payload c) = Inr r"
    and "authorized P (loaded_with V rs) r (ck_now (en_clock E))"
    and "map_of (tv_mandates V) (am_mandate_id (ar_mandate r)) = Some (ar_mandate r)"
    and "\<forall>p. score r p = Inr (Some Approve)"
    and "\<exists>L. ledger_post (en_ledger E) (agentic_entry (am_user_ref (ar_mandate r)) (ar_payee_id r) r
      (uuid_text (en_uuid_prefix E * 2 ^ 48 + en_uuid_sequence E))) = Inr L"
  shows "\<exists>ev E'. agentic_handle C P score cmd E = (Inr [ev], E') \<and> pe_event_type ev = Authorization"
proof -
  let ?now = "ck_now (en_clock E)" and ?V = "loaded_with V rs"
  from agentic_canonical_Inr [OF assms(3)] assms(4) have r: "full_request r"
      "payload_str (cmd_payload c) ''payer_account'' = am_user_ref (ar_mandate r)"
      "payload_str (cmd_payload c) ''payee_account'' = ar_payee_id r" by auto
  have con: "constructed r" using r(1) by (simp add: full_request_def)
  have valid: "valid_records (tv_agent_ids V) rs" using assms(1) by (simp add: agentic_ready_def)
  note ok = loaded_with_ok(2) [OF valid]
  have healthy: "en_failure E = None" and utc: "dt_tz ?now = Some UTC"
    using assms(2) by (auto simp: engine_able_def normal_utc_def)
  have "map_of (tv_mandates ?V) (am_mandate_id (ar_mandate r)) = Some (ar_mandate r)"
    using assms(6) by (simp add: loaded_with_def)
  note allows = con ok assms(5) utc this
  obtain x V1 where x: "trust_preview P r ?now ?V = (x, V1)" by fastforce
  have "valid_records (tv_agent_ids V) (tv_records ?V)" using valid by simp
  from con this x have "\<exists>i p. x = Inr (i, p) \<and> ir_allowed p"
    by (cases rule: trust_preview_cases) (use assms(5) utc in auto)
  with x obtain i p where pv: "trust_preview P r ?now ?V = (Inr (i, p), V1)" "ir_allowed p" by blast
  have "ApproveReceipt \<in> set final_outcomes" by (simp add: final_outcomes_def)
  from decide_allows [OF allows this] obtain plan final V2 where
    d: "decide P r ?now ApproveReceipt ?now ?V = (Inr (Plan plan), V2)" by blast
  have prep: "prepare_commit r p ApproveReceipt ?now V1 = (Inr (Plan plan), V2)"
    using d pv by (simp add: decide_def bindm_def)
  have plan: "\<exists>f. tv_pending_preview V2 = None \<and> tv_records V2 = rs \<and> tv_pending_commit V2 =
      Some \<lparr>pc_capability = plan, pc_receipt = f, pc_record = new_state_record r f\<rparr> \<and> cp_receipt plan = f \<and> ir_allowed f"
    by (cases rule: decide_cases [OF con ok d])
      (auto simp: allowed_receipt_def Let_def new_receipt_Inr)
  define E2 where "E2 = E\<lparr>en_adapter := Some V2\<rparr>"
  have able: "engine_able C E2" using assms(2) by (simp add: E2_def engine_able_def bundle_loaded_def)
  from agentic_execute_runs [OF con able, of V2 rs _ plan c] plan r(2,3) assms(8)
  obtain ev E' where ex: "agentic_execute C c r Approve plan E2 = (Inr [ev], E')" by (auto simp: E2_def)
  have kind: "pe_event_type ev = Authorization"
    using agentic_execute_cases [OF ex, of V2 rs] plan r(2,3) by (auto simp: E2_def agentic_event_kind_def)
  have proc: "agentic_process P score r ?now ?V = (Inr \<lparr>dc_action = Approve, dc_reasons = [], dc_receipt = p\<rparr>, V1)"
    by (simp add: agentic_process_def bindm_def pv assms(7))
  have "agentic_handle C P score cmd E = bindm (bindm agentic_state agentic_load) (\<lambda>_.
      bindm engine_now (\<lambda>now. bindm (on_verifier (agentic_process P score r now)) (agentic_decide C c r))) E"
    by (simp add: agentic_handle_def assms(3,4) bindm_def split: prod.split sum.split)
  also have "\<dots> = (Inr [ev], E')"
    unfolding bindm_def [of "bindm agentic_state agentic_load"] agentic_load_ready [OF assms(1) healthy]
    using ex pv(2) by (simp add: bindm_def engine_now_def on_verifier_at proc agentic_decide_def prep E2_def)
  finally show ?thesis using kind by blast
qed

section \<open>The example\<close>

text \<open>The example engine with the example verifier, and the command of the example request.\<close>

abbreviation demo_agentic :: "(payment_event + scenario_bundle) agentic_engine" where
  "demo_agentic \<equiv> demo_engine_with demo_verifier Agentic"

definition approve_all :: scorer where
  "approve_all r p = Inr (Some Approve)"

definition demo_pay :: command where
  "demo_pay = \<lparr>cmd_class = AgenticPaymentCommand, cmd_name = ''agentic.pay'', cmd_payload = request_payload demo_request @
     [(''payer_account'', PStr ''A''), (''payee_account'', PStr ''B'')]\<rparr>"

lemma demo_full_request: "full_request demo_request"
proof -
  let ?args = "[(''mandate_id'', PStr ''m1''), (''version'', PInt 1), (''agent_id'', PStr ''agent''),
      (''user_ref'', PStr ''A''), (''user_entity_id'', PStr demo_uuid),
      (''beneficiary_entity_id'', PStr demo_uuid), (''consent_ref'', PStr ''c1''),
      (''merchant_id'', PStr ''shop''), (''payee_id'', PStr ''B''), (''cart_hash'', PStr demo_hash),
      (''payment_intent_hash'', PStr demo_hash), (''permitted_categories'', PTuple [PStr ''books'']),
      (''permitted_products'', PTuple [PStr ''p'']), (''credential_id'', PStr ''cred''),
      (''credential_scope'', PStr ''pay''), (''max_amount'', PDec (Dec False 2500 (-2))),
      (''currency'', PStr ''USD''), (''issued_at'', PDt (utc_at 0)), (''expires_at'', PDt (utc_at 100))]"
  have "new_mandate ?args (Some (am_required_authentication demo_mandate)) = Inr demo_mandate"
    unfolding new_mandate_Inr using demo_uuid_ok demo_uuid_nonempty
    by (simp add: demo_mandate_def arg_simps arg_def scope_arg_Inr money_arg_def demo_trust_money utc_at_def
        instant_def utcoffset_def del: trust_money.simps)
  moreover have "ar_mandate demo_request = demo_mandate" by (simp add: demo_request_def)
  ultimately show ?thesis
    using demo_request_constructed by (auto simp: full_request_def simp del: trust_money.simps)
qed

lemma demo_pay_command: "agentic_command demo_request (PStr ''A'') (PStr ''B'') = Inr demo_pay"
proof -
  have m: "am_user_ref (ar_mandate demo_request) = ''A''" "ar_payee_id demo_request = ''B''"
    by (simp_all add: demo_request_def demo_mandate_def)
  from own_command [OF demo_full_request] obtain c where
    c: "agentic_command demo_request (PStr ''A'') (PStr ''B'') = Inr c" by (auto simp: m)
  from agentic_command_Inr(4) [OF demo_full_request c] c show ?thesis by (simp add: demo_pay_def m)
qed

lemmas demo_pay_canonical = command_canonical [OF demo_full_request demo_pay_command]

lemma demo_agentic_ready: "agentic_ready demo_agentic demo_verifier []"
  using demo_verifier_ok
  by (simp add: agentic_ready_def stored_trust_def demo_engine_ready) (simp add: demo_engine_with_def)

lemma demo_agentic_able: "engine_able echo_json demo_agentic"
  by (simp add: engine_able_def demo_engine_ready)

lemma demo_agentic_authorized:
  "authorized echo_keys (loaded_with demo_verifier []) demo_request (ck_now (en_clock demo_agentic))"
  unfolding authorized_def
  by (intro exI [of _ demo_key] exI [of _ demo_mandate])
    (simp add: demo_verifier_def loaded_with_def demo_request_def echo_keys_def demo_mandate_def within_mandate_def
      dec_less_def units_def demo_engine_with_def demo_start_time_def utc_at_def instant_def utcoffset_def)

lemma demo_pay_posts: "\<exists>L. ledger_post (en_ledger demo_agentic)
    (agentic_entry (am_user_ref (ar_mandate demo_request)) (ar_payee_id demo_request) demo_request i) = Inr L"
proof -
  have "\<not> blank (i @ '':agentic-payment'')" by (simp add: blank_def py_space_def)
  then show ?thesis
    by (simp add: demo_engine_ready ledger_eval Let_def demo_start_def agentic_entry_def posting_def demo_request_def
      demo_mandate_def)
qed

lemma demo_paid:
  "\<exists>ev E'. agentic_handle echo_json echo_keys approve_all demo_pay demo_agentic = (Inr [ev], E') \<and>
     pe_event_type ev = Authorization"
  by (rule agentic_progress [OF demo_agentic_ready demo_agentic_able demo_pay_canonical demo_agentic_authorized
        demo_registered _ demo_pay_posts])
    (simp add: approve_all_def)

lemma demo_agentic_fits:
  "fits_all (lg_balances (en_ledger demo_agentic))"
  "exposure (ar_currency demo_request) (en_ledger demo_agentic) +
     2 * cents (ar_currency demo_request) (ar_amount demo_request) < 10 ^ 28"
  by (simp_all add: demo_engine_ready demo_start_def demo_request_def fits_all_def fits_def exponent_of_def
      currency_exponents_def exposure_def bsum_def cents_def units_def)

section \<open>Properties\<close>

text \<open>C6. Value moves only with authority: a command of the agentic rail either leaves the ledger and
  the stored state as they are and raises or reports a decline, or its signed request is authorized
  against the stored state and the scorer has answered with an action; then the stored state grows by
  exactly one record, for the request's agent and nonce, and the ledger moves exactly the request's
  amount from the mandate's user to the payee for an approval and nothing for another action.\<close>

theorem agentic_value_authorized:
  assumes "agentic_ready E V rs" "agentic_handle C P score cmd E = (q, E')" "fits_all (lg_balances (en_ledger E))"
  shows "en_ledger E' = en_ledger E \<and> en_entity_state E' = en_entity_state E \<and>
      ((\<exists>e. q = Inl e) \<or> (\<exists>ev. q = Inr [ev] \<and> pe_event_type ev = AuthorizationDeclined)) \<or>
    (\<exists>c r a s ev. agentic_canonical cmd = Inr c \<and> request_from_payload (cmd_payload c) = Inr r \<and>
       authorized P (loaded_with V rs) r (ck_now (en_clock E)) \<and> (\<exists>p. score r p = Inr (Some a)) \<and>
       q = Inr [ev] \<and> (pe_event_type ev = Authorization \<longleftrightarrow> a = Approve) \<and>
       en_entity_state E' = AList.update trust_state_id (state_value (rs @ [s])) (en_entity_state E) \<and>
       sr_agent_id s = ar_agent_id r \<and> sr_nonce s = ar_nonce r \<and>
       (a \<noteq> Approve \<longrightarrow> en_ledger E' = en_ledger E) \<and>
       (a = Approve \<and> exposure (ar_currency r) (en_ledger E) + 2 * cents (ar_currency r) (ar_amount r) < 10 ^ 28 \<longrightarrow>
          (\<forall>k. holding (en_ledger E') k = holding (en_ledger E) k + paid r k)))"
  using agentic_handle_cases [OF assms(1,2)]
proof (elim disjE exE conjE)
  assume "declined q" "unmoved E V E'"
  then show ?thesis by (intro disjI1) (auto simp: declined_def unmoved_def)
next
  fix c r a s
  assume 1: "agentic_canonical cmd = Inr c" "request_from_payload (cmd_payload c) = Inr r"
    and com: "committed P score r a (loaded_with V rs) s q E E'"
  from agentic_canonical_Inr [OF 1(1)] 1(2) have r: "full_request r" "am_user_ref (ar_mandate r) \<noteq> ar_payee_id r" by auto
  from com obtain ev where ev: "q = Inr [ev]" "pe_event_type ev =
      (case a of Approve \<Rightarrow> Authorization | Challenge \<Rightarrow> AuthenticationChallenge | Decline \<Rightarrow> AuthorizationDeclined)"
    by (auto simp: committed_def)
  have step: "committed_step r a rs s E E'" and auth: "authorized P (loaded_with V rs) r (ck_now (en_clock E))"
    "\<exists>p. score r p = Inr (Some a)" "sr_agent_id s = ar_agent_id r" "sr_nonce s = ar_nonce r"
    using com by (auto simp: committed_def)
  have kind: "pe_event_type ev = Authorization \<longleftrightarrow> a = Approve" unfolding ev(2) by (cases a) simp_all
  have move: "holding (en_ledger E') k = holding (en_ledger E) k + paid r k"
    if "a = Approve" "exposure (ar_currency r) (en_ledger E) + 2 * cents (ar_currency r) (ar_amount r) < 10 ^ 28" for k
    using step agentic_entry_moves [OF r assms(3) _ that(2), where k = k] that(1) by (auto simp: committed_step_def)
  show ?thesis
    by (intro disjI2 exI [of _ c] exI [of _ r] exI [of _ a] exI [of _ s] exI [of _ ev])
      (use 1 auth ev(1) kind step move in \<open>auto simp: committed_step_def\<close>)
qed

theorem agentic_value_authorized_witness:
  "\<exists>ev E'. agentic_handle echo_json echo_keys approve_all demo_pay demo_agentic = (Inr [ev], E') \<and>
     holding (en_ledger E') (''A'', ''USD'') = 7500 \<and> holding (en_ledger E') (''B'', ''USD'') = 2500"
proof -
  from demo_paid obtain ev E' where
    1: "agentic_handle echo_json echo_keys approve_all demo_pay demo_agentic = (Inr [ev], E')"
      "pe_event_type ev = Authorization" by blast
  from agentic_value_authorized [OF demo_agentic_ready 1(1) demo_agentic_fits(1)] 1(2) demo_pay_canonical
  have h: "holding (en_ledger E') k = holding (en_ledger demo_agentic) k + paid demo_request k" for k
    using demo_agentic_fits(2) by (cases k) (auto simp: approve_all_def)
  have "holding (en_ledger E') (''A'', ''USD'') = 7500" "holding (en_ledger E') (''B'', ''USD'') = 2500"
    unfolding h by (simp_all add: holding_def demo_engine_ready demo_start_def dict_dec_def paid_def demo_request_def demo_mandate_def
      cents_def units_def exponent_of_def currency_exponents_def dec_zero_def)
  with 1 show ?thesis by blast
qed

text \<open>C20. A request is committed at most once: after a command that changed the stored state, and any
  further commands of any kind, a command of the same agent with the same nonce moves no value, changes
  no state and is raised or reported as declined, whatever the scorer says.\<close>

theorem agentic_commits_once:
  assumes "agentic_ready E V rs" "agentic_handle C P score cmd E = (q, E1)" "en_entity_state E1 \<noteq> en_entity_state E"
    and "agentic_canonical cmd = Inr c" "request_from_payload (cmd_payload c) = Inr r"
    and "E2 = agentic_commands C P score cmds E1"
    and "agentic_canonical cmd' = Inr c'" "request_from_payload (cmd_payload c') = Inr r'"
    and "ar_agent_id r' = ar_agent_id r" "ar_nonce r' = ar_nonce r"
    and "agentic_handle C P score' cmd' E2 = (q', E3)"
  shows "en_ledger E3 = en_ledger E2 \<and> en_entity_state E3 = en_entity_state E2 \<and>
    ((\<exists>e. q' = Inl e) \<or> (\<exists>ev. q' = Inr [ev] \<and> pe_event_type ev = AuthorizationDeclined))"
proof -
  from agentic_handle_cases [OF assms(1,2)] assms(3-5) obtain a s where
    com: "committed P score r a (loaded_with V rs) s q E E1" by (auto simp: unmoved_def)
  from committed_ready [OF assms(1) com] obtain V1 where V1: "agentic_ready E1 V1 (rs @ [s])" by blast
  from agentic_commands_ready [OF V1, of C P score cmds] assms(6) obtain V2 ss where
    V2: "agentic_ready E2 V2 ((rs @ [s]) @ ss)" by blast
  have "sr_agent_id s = ar_agent_id r'" "sr_nonce s = ar_nonce r'"
    using com assms(9,10) by (auto simp: committed_def)
  then have "\<not> authorized P (loaded_with V2 ((rs @ [s]) @ ss)) r' (ck_now (en_clock E2))"
    by (auto simp: authorized_def)
  then have "\<not> committed P score' r' a' (loaded_with V2 ((rs @ [s]) @ ss)) s' q' E2 E3" for a' s'
    by (simp add: committed_def)
  with agentic_handle_cases [OF V2 assms(11)] assms(7,8) show ?thesis
    by (auto simp: declined_def unmoved_def)
qed

theorem agentic_commits_once_witness:
  "\<exists>E' q E''. agentic_handle echo_json echo_keys approve_all demo_pay demo_agentic =
       (fst (agentic_handle echo_json echo_keys approve_all demo_pay demo_agentic), E') \<and>
     en_entity_state E' \<noteq> [] \<and> agentic_handle echo_json echo_keys approve_all demo_pay E' = (q, E'') \<and>
     en_ledger E'' = en_ledger E'"
proof -
  from demo_paid obtain ev E' where
    1: "agentic_handle echo_json echo_keys approve_all demo_pay demo_agentic = (Inr [ev], E')"
      "pe_event_type ev = Authorization" by blast
  have "en_entity_state E' \<noteq> en_entity_state demo_agentic"
    using agentic_handle_cases [OF demo_agentic_ready 1(1)] 1(2)
    by (auto simp: declined_def committed_def committed_step_def demo_engine_ready)
  moreover obtain q E'' where 2: "agentic_handle echo_json echo_keys approve_all demo_pay E' = (q, E'')" by fastforce
  ultimately have "en_ledger E'' = en_ledger E'"
    using agentic_commits_once [OF demo_agentic_ready 1(1) _ demo_pay_canonical, of E' "[]", OF _ _ demo_pay_canonical refl refl 2]
    by simp
  with 1 2 \<open>en_entity_state E' \<noteq> en_entity_state demo_agentic\<close> show ?thesis by (auto simp: demo_engine_ready)
qed

text \<open>C21. Runs of the agentic rail end and keep the trust state sound: from any engine whose adapter holds
  a verifier and whose stored trust state is a sound chain for it, a run returns, and so is the state
  it leaves, on every outcome.\<close>

theorem agentic_run_sound:
  assumes "json_stable C" "engine_ok C E" "agentic_invariant V0 E"
  shows "\<exists>r E'. engine_run C (agentic_adapter C P score) until E = Some (r, E') \<and> engine_ok C E' \<and>
    (\<exists>V rs. en_adapter E' = Some V \<and> same_registry V0 V \<and> valid_records (tv_agent_ids V0) rs \<and>
       (case map_of (en_entity_state E') trust_state_id of None \<Rightarrow> rs = [] | Some v \<Rightarrow> v = state_value rs))"
proof -
  from agentic_engine.run_ends obtain r E' where
    run: "engine_run C (agentic_adapter C P score) until E = Some (r, E')" by blast
  from agentic_engine.run_keeps [OF assms run] obtain V rs where
    "agentic_ready E' V rs" "same_registry V0 V" by (auto simp: agentic_invariant_def)
  with same_registry_ids [of V0 V] agentic_engine.run_ok(1) [OF assms(1,2) run] run show ?thesis
    unfolding agentic_ready_def stored_trust_def
    by (intro exI [of _ r] exI [of _ E'] conjI exI [of _ V] exI [of _ rs]) auto
qed

theorem agentic_run_sound_witness:
  "\<exists>r E'. engine_run echo_json (agentic_adapter echo_json echo_keys approve_all) None
       (snd (engine_schedule demo_start_time (PInt 0) demo_pay demo_agentic)) = Some (r, E') \<and> engine_ok echo_json E'"
proof -
  let ?E = "snd (engine_schedule demo_start_time (PInt 0) demo_pay demo_agentic)"
  have "session echo_json (agentic_adapter echo_json echo_keys approve_all) demo_agentic ?E"
    by (rule schedules [OF start])
  from session_ok [OF this _ echo_stable demo_engine_ready(8)] agentic_engine.rail_adapter_axioms
  have ok: "engine_ok echo_json ?E" by blast
  have "en_adapter ?E = Some demo_verifier \<and> en_entity_state ?E = []"
    by (auto simp: engine_schedule_def healthy_def ensure_healthy_def fail_closed_def mark_failed_def Let_def
        demo_engine_with_def split: sum.split)
  with demo_verifier_ok have "agentic_invariant demo_verifier ?E"
    by (auto simp: agentic_invariant_def agentic_ready_def stored_trust_def same_registry_order
        intro!: exI [of _ "[]"])
  from agentic_run_sound [OF echo_stable ok this] show ?thesis by blast
qed

text \<open>C30. An authorized payment is carried out: when the engine is healthy, the stored state allows the
  request, the scorer approves and the ledger takes the posting under the next identifier of the engine, the
  command returns one authorization.\<close>

theorem agentic_authorized_runs:
  assumes "agentic_ready E V rs" "engine_able C E" "agentic_canonical cmd = Inr c"
    and "request_from_payload (cmd_payload c) = Inr r"
    and "authorized P (loaded_with V rs) r (ck_now (en_clock E))"
    and "map_of (tv_mandates V) (am_mandate_id (ar_mandate r)) = Some (ar_mandate r)"
    and "\<forall>p. score r p = Inr (Some Approve)"
    and "\<exists>L. ledger_post (en_ledger E) (agentic_entry (am_user_ref (ar_mandate r)) (ar_payee_id r) r
      (uuid_text (en_uuid_prefix E * 2 ^ 48 + en_uuid_sequence E))) = Inr L"
  shows "\<exists>ev E'. agentic_handle C P score cmd E = (Inr [ev], E') \<and> pe_event_type ev = Authorization"
  by (rule agentic_progress [where score = score and r = r, OF assms])

theorem agentic_authorized_runs_witness:
  "\<exists>ev E'. agentic_handle echo_json echo_keys approve_all demo_pay demo_agentic = (Inr [ev], E') \<and>
     pe_event_type ev = Authorization"
  by (rule agentic_authorized_runs [OF demo_agentic_ready demo_agentic_able demo_pay_canonical demo_agentic_authorized
        demo_registered _ demo_pay_posts])
    (simp add: approve_all_def)

text \<open>C31. Round trip: a command built from a request that a payload can be read as is canonical, and the
  request read from the command is the request it was built from.\<close>

theorem agentic_request_roundtrip:
  assumes "request_from_payload p = Inr r" "agentic_command r payer payee = Inr c"
  shows "agentic_canonical c = Inr c \<and> request_from_payload (cmd_payload c) = Inr r"
  using command_canonical [OF request_from_payload_full [OF assms(1)] assms(2)] by blast

theorem agentic_request_roundtrip_witness:
  "agentic_canonical demo_pay = Inr demo_pay \<and> request_from_payload (cmd_payload demo_pay) = Inr demo_request"
  using agentic_request_roundtrip [OF request_from_own_payload [OF demo_full_request] demo_pay_command] .

end
