(* ===== verification/PyFloat.thy ===== *)
theory PyFloat
  imports Complex_Main PyDecimal
begin

text \<open>
  Python's \<open>float\<close>: IEEE 754 binary64. A finite value is the rational it stands for; \<open>fl\<close> rounds a
  rational to the nearest one, ties to even, gradually underflowing and overflowing to infinity.
  The four library functions whose results the standard does not fix are the parameter \<open>libm\<close>.
\<close>

datatype double = Fin rat | Inf bool | NaN

fun is_finite :: "double \<Rightarrow> bool" where
  "is_finite (Fin _) = True"
| "is_finite _ = False"

section \<open>Rounding\<close>

fun bit_len :: "nat \<Rightarrow> nat" where
  "bit_len n = (if n = 0 then 0 else Suc (bit_len (n div 2)))"

declare bit_len.simps [simp del]

definition two_pow :: "int \<Rightarrow> rat" where
  "two_pow e = (if 0 \<le> e then 2 ^ nat e else 1 / 2 ^ nat (- e))"

text \<open>\<open>floor(log2(x))\<close> of a positive rational.\<close>

definition floor_log2 :: "rat \<Rightarrow> int" where
  "floor_log2 x = (let (n, d) = quotient_of x; e = int (bit_len (nat n)) - int (bit_len (nat d))
     in if x < two_pow e then e - 1 else e)"

definition rat_half_even :: "rat \<Rightarrow> int" where
  "rat_half_even x = (let f = \<lfloor>x\<rfloor>; r = x - of_int f in
     if r < 1 / 2 then f else if 1 / 2 < r then f + 1 else if even f then f else f + 1)"

definition fl :: "rat \<Rightarrow> double" where
  "fl x = (if x = 0 then Fin 0 else
     let e = max (floor_log2 \<bar>x\<bar> - 52) (-1074); y = of_int (rat_half_even (x / two_pow e)) * two_pow e
     in if two_pow 1024 \<le> \<bar>y\<bar> then Inf (x < 0) else Fin y)"

section \<open>Operations\<close>

text \<open>\<open>int / int\<close> and \<open>float(int)\<close>; both are correctly rounded.\<close>

definition int_div :: "int \<Rightarrow> int \<Rightarrow> double" where
  "int_div n d = fl (of_int n / of_int d)"

definition float_of_int :: "int \<Rightarrow> double" where
  "float_of_int n = fl (of_int n)"

definition float_of_bool :: "bool \<Rightarrow> double" where
  "float_of_bool b = (if b then Fin 1 else Fin 0)"

definition dec_rat :: "pydec \<Rightarrow> rat" where
  "dec_rat d = (if 0 \<le> dexp d then of_int (dsig d) * 10 ^ nat (dexp d) else of_int (dsig d) / 10 ^ nat (- dexp d))"

definition float_of_dec :: "pydec \<Rightarrow> double" where
  "float_of_dec d = (case d of Dec _ _ _ \<Rightarrow> fl (dec_rat d) | DInf s \<Rightarrow> Inf s | DNaN \<Rightarrow> NaN)"

text \<open>Arithmetic of the source on finite operands; a division's divisor is a positive constant.\<close>

definition lift_fl :: "(rat \<Rightarrow> rat \<Rightarrow> rat) \<Rightarrow> double \<Rightarrow> double \<Rightarrow> double" where
  "lift_fl f a b = (case (a, b) of (Fin x, Fin y) \<Rightarrow> fl (f x y) | _ \<Rightarrow> NaN)"

abbreviation fadd :: "double \<Rightarrow> double \<Rightarrow> double" where "fadd \<equiv> lift_fl (+)"
abbreviation fsub :: "double \<Rightarrow> double \<Rightarrow> double" where "fsub \<equiv> lift_fl (-)"
abbreviation fmul :: "double \<Rightarrow> double \<Rightarrow> double" where "fmul \<equiv> lift_fl (*)"
abbreviation fdiv :: "double \<Rightarrow> double \<Rightarrow> double" where "fdiv \<equiv> lift_fl (/)"

text \<open>\<open>max(0.0, x)\<close>\<close>

definition fmax0 :: "double \<Rightarrow> double" where
  "fmax0 x = (case x of Fin y \<Rightarrow> Fin (max 0 y) | Inf s \<Rightarrow> if s then Fin 0 else Inf s | NaN \<Rightarrow> Fin 0)"

definition fin_values :: "double list \<Rightarrow> rat list option" where
  "fin_values xs = those (map (\<lambda>x. case x of Fin y \<Rightarrow> Some y | _ \<Rightarrow> None) xs)"

text \<open>\<open>statistics.fmean\<close>, whose sum is exact before its one rounding, and \<open>statistics.pstdev\<close>, which
  takes the correctly rounded root of the exact variance, of finite values.\<close>

record libm =
  lm_log1p :: "rat \<Rightarrow> double"
  lm_sin :: "rat \<Rightarrow> double"
  lm_cos :: "rat \<Rightarrow> double"
  lm_sqrt :: "rat \<Rightarrow> double"

definition fmean :: "double list \<Rightarrow> double" where
  "fmean xs = (case fin_values xs of
       None \<Rightarrow> NaN
     | Some vs \<Rightarrow> fdiv (fl (sum_list vs)) (float_of_int (int (length vs))))"

definition pstdev :: "libm \<Rightarrow> double list \<Rightarrow> double" where
  "pstdev M xs = (case fin_values xs of
       None \<Rightarrow> NaN
     | Some vs \<Rightarrow>
         let n = of_nat (length vs); mean = sum_list vs / n
         in lm_sqrt M (sum_list (map (\<lambda>v. (v - mean) * (v - mean)) vs) / n))"

definition lift_libm :: "(rat \<Rightarrow> double) \<Rightarrow> double \<Rightarrow> double" where
  "lift_libm f x = (case x of Fin y \<Rightarrow> f y | _ \<Rightarrow> NaN)"

section \<open>Bounds of the rounding\<close>

lemma two_pow_pos [simp]: "0 < two_pow e"
  by (simp add: two_pow_def)

lemma bit_len_bounds: "0 < n \<Longrightarrow> 2 ^ (bit_len n - 1) \<le> n \<and> n < 2 ^ bit_len n \<and> 0 < bit_len n"
proof (induction n rule: bit_len.induct)
  case (1 n)
  show ?case
  proof (cases "n = 1")
    case True
    then show ?thesis by (simp add: bit_len.simps)
  next
    case False
    then have pos: "0 < n div 2" using 1(2) by auto
    from 1 False pos have IH: "2 ^ (bit_len (n div 2) - 1) \<le> n div 2" "n div 2 < 2 ^ bit_len (n div 2)" "0 < bit_len (n div 2)"
      by auto
    have e: "bit_len n = Suc (bit_len (n div 2))" using 1(2) by (simp add: bit_len.simps [of n])
    have "(2::nat) ^ bit_len (n div 2) = 2 * 2 ^ (bit_len (n div 2) - 1)"
      using IH(3) by (cases "bit_len (n div 2)") auto
    moreover have "2 * (n div 2) \<le> n" "n < 2 * (n div 2) + 2" by auto
    ultimately show ?thesis using IH by (simp add: e) linarith
  qed
qed

lemma rat_half_even_bounds:
  "of_int (rat_half_even x) \<le> x + 1 / 2" "x - 1 / 2 \<le> of_int (rat_half_even x)"
proof -
  have "of_int \<lfloor>x\<rfloor> \<le> x" "x < of_int \<lfloor>x\<rfloor> + 1" by linarith+
  then show "of_int (rat_half_even x) \<le> x + 1 / 2" "x - 1 / 2 \<le> of_int (rat_half_even x)"
    unfolding rat_half_even_def Let_def by (auto, linarith)
qed

lemma rat_half_even_int: "rat_half_even (of_int k) = k"
  by (simp add: rat_half_even_def)

lemma rat_half_even_le: "x \<le> of_int k \<Longrightarrow> rat_half_even x \<le> k"
proof (cases "x = of_int k")
  case False
  assume "x \<le> of_int k"
  with False have lt: "x < of_int k" by simp
  then have "\<lfloor>x\<rfloor> < k" by (simp add: floor_less_iff)
  then show ?thesis by (auto simp: rat_half_even_def Let_def)
qed (simp add: rat_half_even_int)

end
