(* ===== verification/Observed.thy ===== *)
theory Observed
  imports Contracts PyFloat
begin

text \<open>
  What the defense sees (\<open>defense/contracts.py\<close>): payment events projected on the defender-visible
  schema; and the closed catalog of features (\<open>features/catalog.py\<close>) with its semantic audit.
\<close>

section \<open>Observed events\<close>

record observed =
  ob_event_id :: string
  ob_payment_id :: string
  ob_rail :: rail
  ob_event_type :: event_kind
  ob_amount :: pydec
  ob_currency :: string
  ob_event_time :: datetime
  ob_available_at :: datetime
  ob_decision_at :: "datetime option"
  ob_actor_id :: string
  ob_counterparty_id :: string
  ob_optional_refs :: "(string \<times> string) list"
  ob_integrity_status :: string
  ob_integrity_reason :: "string option"
  ob_is_decision_point :: bool

text \<open>Python's equality of two observations: instants and numbers are compared by value, and the
  optional references as a dictionary.\<close>

definition opt_instant :: "datetime option \<Rightarrow> int option" where
  "opt_instant = map_option instant"

definition same_observed :: "observed \<Rightarrow> observed \<Rightarrow> bool" where
  "same_observed a b \<longleftrightarrow> ob_event_id a = ob_event_id b \<and> ob_payment_id a = ob_payment_id b \<and>
     ob_rail a = ob_rail b \<and> ob_event_type a = ob_event_type b \<and> dec_eq (ob_amount a) (ob_amount b) \<and>
     ob_currency a = ob_currency b \<and> instant (ob_event_time a) = instant (ob_event_time b) \<and>
     instant (ob_available_at a) = instant (ob_available_at b) \<and>
     opt_instant (ob_decision_at a) = opt_instant (ob_decision_at b) \<and>
     ob_actor_id a = ob_actor_id b \<and> ob_counterparty_id a = ob_counterparty_id b \<and>
     length (ob_optional_refs a) = length (ob_optional_refs b) \<and>
     set (ob_optional_refs a) = set (ob_optional_refs b) \<and>
     ob_integrity_status a = ob_integrity_status b \<and> ob_integrity_reason a = ob_integrity_reason b \<and>
     ob_is_decision_point a = ob_is_decision_point b"

definition optional_reference_names :: "string list" where
  "optional_reference_names =
     [''merchant_id'', ''payee_id'', ''beneficiary_entity_id'', ''user_entity_id'', ''device_id'',
      ''institution_id'', ''agent_id'']"

text \<open>\<open>_integrity\<close>\<close>

definition integrity :: "payment_event \<Rightarrow> string \<times> string option" where
  "integrity ev =
     (if pe_rail ev \<noteq> Agentic then (''not_applicable'', None)
      else let status = map_of (pe_rail_data ev) ''integrity''; reason = map_of (pe_rail_data ev) ''reason_code''
      in if status = Some (PStr ''pass'') then (''pass'', None)
         else if status = Some (PStr ''fail'')
         then (''fail'', Some (case reason of Some (PStr t) \<Rightarrow> if t \<noteq> [] then t else ''receipt_failed''
           | _ \<Rightarrow> ''receipt_failed''))
         else (''fail'', Some ''missing_receipt_integrity''))"

text \<open>\<open>_is_decision_point\<close>\<close>

definition is_decision_point :: "payment_event \<Rightarrow> bool" where
  "is_decision_point ev = (case pe_rail ev of
       Card \<Rightarrow> pe_event_type ev \<in> {Authorization, AuthorizationDeclined}
     | A2A \<Rightarrow> pe_event_type ev = TransferInitiated
     | Agentic \<Rightarrow> pe_event_type ev \<in> {Authorization, AuthenticationChallenge, AuthorizationDeclined})"

definition scrub_event :: "payment_event \<Rightarrow> observed res" where
  "scrub_event ev = (case map_of (pe_rail_data ev) ''payment_id'' of
       Some (PStr payment_id) \<Rightarrow>
         (if payment_id = [] then Inl (ValueError ''event rail_data must contain a non-empty payment_id'')
          else let (status, reason) = integrity ev in
            Inr \<lparr>ob_event_id = pe_event_id ev, ob_payment_id = payment_id, ob_rail = pe_rail ev,
              ob_event_type = pe_event_type ev, ob_amount = pe_amount ev, ob_currency = pe_currency ev,
              ob_event_time = pe_event_time ev, ob_available_at = pe_available_at ev,
              ob_decision_at = pe_decision_at ev, ob_actor_id = pe_actor_id ev,
              ob_counterparty_id = pe_counterparty_id ev,
              ob_optional_refs = filter (\<lambda>(name, _). name \<in> set optional_reference_names) (pe_party_refs ev),
              ob_integrity_status = status, ob_integrity_reason = reason,
              ob_is_decision_point = is_decision_point ev\<rparr>)
     | _ \<Rightarrow> Inl (ValueError ''event rail_data must contain a non-empty payment_id''))"

record policy_thresholds =
  pt_challenge :: double
  pt_decline :: double

text \<open>\<open>PolicyThresholds\<close>: both fields are floats between 0 and 1, in order.\<close>

definition unit_float :: "double \<Rightarrow> bool" where
  "unit_float x = (case x of Fin y \<Rightarrow> 0 \<le> y \<and> y \<le> 1 | _ \<Rightarrow> False)"

definition float_less :: "double \<Rightarrow> double \<Rightarrow> bool" where
  "float_less a b = (case (a, b) of
       (Fin x, Fin y) \<Rightarrow> x < y | (Fin _, Inf s) \<Rightarrow> \<not> s | (Inf s, Fin _) \<Rightarrow> s | (Inf s, Inf t) \<Rightarrow> s \<and> \<not> t
     | _ \<Rightarrow> False)"

definition policy_thresholds_valid :: "policy_thresholds \<Rightarrow> policy_thresholds res" where
  "policy_thresholds_valid t =
     (if \<not> unit_float (pt_challenge t) \<or> \<not> unit_float (pt_decline t)
      then Inl (ValueError ''threshold out of range'')
      else if float_less (pt_decline t) (pt_challenge t)
      then Inl (ValueError ''challenge threshold must not exceed decline threshold'')
      else Inr t)"

section \<open>The feature catalog\<close>

definition expected_feature_names :: "string list" where
  "expected_feature_names =
     [''txn_log_amount'', ''txn_rail_card'', ''txn_rail_a2a'', ''txn_rail_agentic'', ''txn_hour_sin'',
      ''txn_hour_cos'', ''txn_integrity_pass'', ''txn_optional_ref_count'', ''actor_count_1m'',
      ''actor_count_10m'', ''actor_count_1h'', ''actor_count_24h'', ''actor_amount_1h'',
      ''actor_amount_24h'', ''counterparty_count_1h'', ''counterparty_count_24h'',
      ''counterparty_amount_24h'', ''actor_prior_decline_1h'', ''actor_prior_challenge_1h'',
      ''actor_prior_return_24h'', ''counterparty_prior_refund_24h'', ''actor_seconds_since_first'',
      ''actor_seconds_since_last'', ''counterparty_seconds_since_first'',
      ''counterparty_seconds_since_last'', ''pair_seconds_since_first'', ''pair_seconds_since_last'',
      ''actor_distinct_counterparties_24h'', ''counterparty_distinct_actors_24h'',
      ''actor_amount_zscore_24h'', ''counterparty_amount_zscore_24h'', ''pair_prior_count'',
      ''graph_actor_fanout'', ''graph_counterparty_fanin'', ''graph_shared_neighbor_count'',
      ''graph_two_hop_reach'', ''graph_component_size'', ''graph_edge_density'', ''graph_repeated_edge'',
      ''graph_burst_motif'', ''graph_prior_suspicious_count'', ''dq_missing_optional_count'',
      ''dq_current_availability_lag_ms'', ''dq_mean_history_lag_ms'', ''dq_late_event_count'',
      ''dq_history_count'', ''dq_history_age_seconds'', ''dq_degraded_state'']"

definition forbidden_semantics :: "string list" where
  "forbidden_semantics =
     [''fraud'', ''illicit'', ''label'', ''target'', ''campaign'', ''family'', ''scenario'', ''regime'',
      ''seed'', ''generator'', ''hidden'', ''policy'', ''role'', ''viewpoint'', ''chargeback_truth'',
      ''post_decision'']"

definition raw_id_fields :: "string list" where
  "raw_id_fields = [''event_id'', ''payment_id'', ''actor_id'', ''counterparty_id'']"

definition allowed_state_paths :: "string list" where
  "allowed_state_paths =
     [''state.past_observed_events'', ''state.past_observed_graph'', ''state.late_observed_events'']"

definition allowed_provenance_paths :: "string list" where
  "allowed_provenance_paths = [''provenance.source_event_ids'']"

definition allowed_observed_paths :: "string list" where
  "allowed_observed_paths =
     [''observed.amount'', ''observed.rail'', ''observed.event_time'', ''observed.integrity_status'',
      ''observed.optional_refs'', ''observed.available_at'']"

datatype feature_family = TransactionFeature | TemporalFeature | EntityFeature | GraphFeature | DataQualityFeature

datatype missing_behavior = ZeroWhenMissing | SentinelWhenMissing | IndicatorWhenMissing

record feature_definition =
  fd_name :: string
  fd_family :: feature_family
  fd_rails :: "rail list"
  fd_source_paths :: "string list"
  fd_state_keys :: "string list"
  fd_window_seconds :: "int option"
  fd_missing :: missing_behavior

record feature_catalog =
  fc_version :: string
  fc_features :: "feature_definition list"

definition catalog_names :: "feature_catalog \<Rightarrow> string list" where
  "catalog_names c = map fd_name (fc_features c)"

text \<open>\<open>str.lower\<close> and \<open>in\<close> on texts of 7-bit characters, and \<open>str.endswith\<close>.\<close>

definition ascii_lower :: "string \<Rightarrow> string" where
  "ascii_lower = map (\<lambda>c. if (65::nat) \<le> of_char c \<and> (of_char c :: nat) \<le> 90
     then char_of ((of_char c :: nat) + 32) else c)"

fun contains :: "string \<Rightarrow> string \<Rightarrow> bool" where
  "contains pat s \<longleftrightarrow> take (length pat) s = pat \<or> (case s of [] \<Rightarrow> False | _ # t \<Rightarrow> contains pat t)"

declare contains.simps [simp del]

definition ends_with :: "string \<Rightarrow> string \<Rightarrow> bool" where
  "ends_with suffix s \<longleftrightarrow> length suffix \<le> length s \<and> drop (length s - length suffix) s = suffix"

definition reject_forbidden :: "string \<Rightarrow> string \<Rightarrow> unit res" where
  "reject_forbidden value kind =
     (if list_ex (\<lambda>f. contains f (ascii_lower value)) forbidden_semantics
      then Inl (FeatureCatalogError (''forbidden '' @ kind @ '': '' @ value)) else Inr ())"

definition is_raw_id_path :: "string \<Rightarrow> bool" where
  "is_raw_id_path value =
     (let normalized = map (\<lambda>c. if c = CHR ''.'' then CHR ''_'' else c) (ascii_lower value)
      in list_ex (\<lambda>i. normalized = i \<or> ends_with (''_'' @ i) normalized) raw_id_fields)"

definition audit_source_path :: "string \<Rightarrow> unit res" where
  "audit_source_path path =
     bindr (reject_forbidden path ''source'') (\<lambda>_.
     if path \<in> set allowed_provenance_paths then Inr ()
     else if is_raw_id_path path
     then Inl (FeatureCatalogError (''raw ID source is not permitted: '' @ path))
     else if path \<in> set allowed_observed_paths \<or> path \<in> set allowed_state_paths then Inr ()
     else Inl (FeatureCatalogError (''unapproved source path: '' @ path)))"

definition audit_definition :: "feature_definition \<Rightarrow> unit res" where
  "audit_definition d =
     (if fd_name d = [] then Inl (FeatureCatalogError ''feature name must not be empty'')
      else bindr (reject_forbidden (fd_name d) ''feature name'') (\<lambda>_.
        if is_raw_id_path (fd_name d)
        then Inl (FeatureCatalogError (''raw ID feature name is not permitted: '' @ fd_name d))
        else if fd_rails d = []
        then Inl (FeatureCatalogError (''feature '' @ fd_name d @ '' must declare at least one rail''))
        else if \<not> distinct (fd_rails d)
        then Inl (FeatureCatalogError (''feature '' @ fd_name d @ '' declares a rail more than once''))
        else if fd_source_paths d = []
        then Inl (FeatureCatalogError (''feature '' @ fd_name d @ '' must declare at least one source''))
        else bindr (mapr audit_source_path (fd_source_paths d)) (\<lambda>_.
          bindr (mapr (\<lambda>k. ensure (k \<in> set (map (\<lambda>i. ''observed.'' @ i) raw_id_fields))
            (FeatureCatalogError (''unapproved state key: '' @ k))) (fd_state_keys d)) (\<lambda>_. Inr ()))))"

definition audit_feature_catalog :: "feature_catalog \<Rightarrow> unit res" where
  "audit_feature_catalog c =
     (if fc_features c = [] then Inl (FeatureCatalogError ''catalog must contain at least one feature'')
      else if \<not> distinct (catalog_names c) then Inl (FeatureCatalogError ''catalog feature names must be unique'')
      else bindr (mapr audit_definition (fc_features c)) (\<lambda>_. Inr ()))"

text \<open>What the field types leave to check of a definition: a window of at least one second.\<close>

definition feature_definition_valid :: "feature_definition \<Rightarrow> unit res" where
  "feature_definition_valid d =
     ensure (case fd_window_seconds d of None \<Rightarrow> True | Some w \<Rightarrow> 1 \<le> w) (ValueError ''window_seconds'')"

definition feature_catalog_valid :: "feature_catalog \<Rightarrow> feature_catalog res" where
  "feature_catalog_valid c =
     bindr (validate_semantic_version (fc_version c) ''version'') (\<lambda>_.
     bindr (mapr feature_definition_valid (fc_features c)) (\<lambda>_. Inr c))"

text \<open>\<open>load_feature_catalog\<close> after the document has been read and coerced.\<close>

definition checked_catalog :: "feature_catalog \<Rightarrow> feature_catalog res" where
  "checked_catalog c =
     bindr (rethrow (FeatureCatalogError ''unable to load feature catalog'') (feature_catalog_valid c)) (\<lambda>_.
     bindr (audit_feature_catalog c) (\<lambda>_.
     if catalog_names c \<noteq> expected_feature_names
     then Inl (FeatureCatalogError ''catalog feature names must match the frozen ordered allowlist'')
     else Inr c))"

end
