(* ===== verification/FeatureState.thy ===== *)
theory FeatureState
  imports Observed Sha256
begin

text \<open>
  The state of \<open>CausalFeatureState\<close> (\<open>features/state.py\<close>): the observations it knows, those it has
  admitted as history, the histories and graph edges it keeps of them, the decisions it has emitted
  and what came late. Sets are lists without duplicates, dictionaries association lists.
\<close>

section \<open>State\<close>

record feature_vector =
  fv_event_id :: string
  fv_decision_at :: datetime
  fv_source_event_ids :: "string list"
  fv_max_source :: "datetime option"
  fv_catalog_digest :: string
  fv_values :: "(string \<times> double) list"

record graph_edge =
  ge_event_id :: string
  ge_payment_id :: string
  ge_actor_id :: string
  ge_counterparty_id :: string
  ge_event_time :: datetime
  ge_available_at :: datetime
  ge_suspicious :: bool

record feature_state =
  fs_catalog :: feature_catalog
  fs_catalog_digest :: string
  fs_known :: "(string \<times> observed) list"
  fs_admitted :: "string list"
  fs_emitted :: "string list"
  fs_late :: "string list"
  fs_late_marks :: "(string \<times> datetime) list"
  fs_openings :: "string list"
  fs_watermark :: "datetime option"
  fs_actor :: "(string \<times> string list) list"
  fs_counterparty :: "(string \<times> string list) list"
  fs_pair :: "((string \<times> string) \<times> string list) list"
  fs_outcome :: "(event_kind \<times> string list) list"
  fs_actor_amount :: "(string \<times> string list) list"
  fs_counterparty_amount :: "(string \<times> string list) list"
  fs_edges :: "graph_edge list"

definition suspicious_events :: "event_kind list" where
  "suspicious_events =
     [AuthorizationDeclined, AuthenticationChallenge, TransferRejected, TransferReturned, FundsFrozen, Refund,
      DisputeOpened, ChargebackEvent]"

text \<open>\<open>J\<close> is the canonical JSON of pydantic's dump of a catalog.\<close>

definition feature_catalog_digest :: "(feature_catalog \<Rightarrow> string) \<Rightarrow> feature_catalog \<Rightarrow> string res" where
  "feature_catalog_digest J c = bindr (audit_feature_catalog c) (\<lambda>_. Inr (sha256_hex (J c)))"

definition new_feature_state :: "(feature_catalog \<Rightarrow> string) \<Rightarrow> feature_catalog \<Rightarrow> feature_state res" where
  "new_feature_state J c =
     bindr (audit_feature_catalog c) (\<lambda>_.
     bindr (feature_catalog_digest J c) (\<lambda>digest.
     Inr \<lparr>fs_catalog = c, fs_catalog_digest = digest, fs_known = [], fs_admitted = [], fs_emitted = [],
       fs_late = [], fs_late_marks = [], fs_openings = [], fs_watermark = None, fs_actor = [],
       fs_counterparty = [], fs_pair = [], fs_outcome = [], fs_actor_amount = [],
       fs_counterparty_amount = [], fs_edges = []\<rparr>))"

section \<open>Remembering\<close>

text \<open>One event of \<open>_remember\<close>: known or staged already, refused or staged.\<close>

definition remember_step ::
  "feature_state \<Rightarrow> (string \<times> observed) list \<Rightarrow> observed \<Rightarrow> (string \<times> observed) list res" where
  "remember_step S staged ev =
     (case (case map_of (fs_known S) (ob_event_id ev) of Some e \<Rightarrow> Some e | None \<Rightarrow> map_of staged (ob_event_id ev)) of
        Some previous \<Rightarrow>
          if \<not> same_observed previous ev
          then Inl (FeatureStateError ''duplicate event ID has conflicting observations'') else Inr staged
      | None \<Rightarrow>
          if ob_is_decision_point ev \<and> ob_decision_at ev = None
          then Inl (FeatureStateError ''decision-point event must declare decision_at'')
          else if ob_is_decision_point ev \<and> (case (ob_decision_at ev, fs_watermark S) of
              (Some d, Some w) \<Rightarrow> instant d \<le> instant w | _ \<Rightarrow> False)
          then Inl (FeatureStateError ''decision belongs to a closed decision timestamp'')
          else Inr (staged @ [(ob_event_id ev, ev)]))"

definition store_event :: "feature_state \<Rightarrow> string \<times> observed \<Rightarrow> feature_state" where
  "store_event S = (\<lambda>(i, ev).
     let S' = (case fs_watermark S of
         None \<Rightarrow> S
       | Some w \<Rightarrow> if instant (ob_available_at ev) < instant w
           then S\<lparr>fs_late := List.insert i (fs_late S), fs_late_marks := AList.update i w (fs_late_marks S)\<rparr>
           else S)
     in S'\<lparr>fs_known := AList.update i ev (fs_known S')\<rparr>)"

definition remember :: "observed list \<Rightarrow> (feature_state, unit) act" where
  "remember events S = (case foldlr (remember_step S) [] events of
       Inl e \<Rightarrow> (Inl e, S)
     | Inr staged \<Rightarrow> (Inr (), foldl store_event S staged))"

section \<open>Admitting history\<close>

text \<open>\<open>history[key].append(event_id)\<close> on a \<open>defaultdict(list)\<close>\<close>

definition history :: "('k \<times> string list) list \<Rightarrow> 'k \<Rightarrow> string list" where
  "history h k = (case map_of h k of None \<Rightarrow> [] | Some l \<Rightarrow> l)"

definition history_add :: "'k \<Rightarrow> string \<Rightarrow> ('k \<times> string list) list \<Rightarrow> ('k \<times> string list) list" where
  "history_add k i h = AList.update k (history h k @ [i]) h"

definition edge_of :: "observed \<Rightarrow> graph_edge" where
  "edge_of ev = \<lparr>ge_event_id = ob_event_id ev, ge_payment_id = ob_payment_id ev, ge_actor_id = ob_actor_id ev,
     ge_counterparty_id = ob_counterparty_id ev, ge_event_time = ob_event_time ev,
     ge_available_at = ob_available_at ev,
     ge_suspicious = (ob_event_type ev \<in> set suspicious_events \<or> ob_integrity_status ev = ''fail'')\<rparr>"

definition admit_event :: "feature_state \<Rightarrow> observed \<Rightarrow> feature_state" where
  "admit_event S ev =
     (if ob_event_id ev \<in> set (fs_admitted S) then S
      else let i = ob_event_id ev;
             S1 = S\<lparr>fs_admitted := i # fs_admitted S,
               fs_actor := history_add (ob_actor_id ev) i (fs_actor S),
               fs_counterparty := history_add (ob_counterparty_id ev) i (fs_counterparty S),
               fs_pair := history_add (ob_actor_id ev, ob_counterparty_id ev) i (fs_pair S),
               fs_outcome := history_add (ob_event_type ev) i (fs_outcome S)\<rparr>
           in if \<not> ob_is_decision_point ev then S1
              else let S2 = S1\<lparr>fs_actor_amount := history_add (ob_actor_id ev) i (fs_actor_amount S1),
                     fs_counterparty_amount := history_add (ob_counterparty_id ev) i (fs_counterparty_amount S1)\<rparr>
                   in if ob_payment_id ev \<in> set (fs_openings S2) then S2
                      else S2\<lparr>fs_openings := ob_payment_id ev # fs_openings S2,
                             fs_edges := fs_edges S2 @ [edge_of ev]\<rparr>)"

definition known_events :: "feature_state \<Rightarrow> observed list" where
  "known_events S = map snd (fs_known S)"

text \<open>Sorting by availability and identifier, and by decision time and identifier.\<close>

definition available_key :: "observed \<Rightarrow> int \<times> string" where
  "available_key ev = (instant (ob_available_at ev), ob_event_id ev)"

definition decision_key :: "observed \<Rightarrow> int \<times> string" where
  "decision_key ev = ((case ob_decision_at ev of None \<Rightarrow> 0 | Some d \<Rightarrow> instant d), ob_event_id ev)"

definition admission_candidates :: "datetime \<Rightarrow> string list \<Rightarrow> feature_state \<Rightarrow> observed list" where
  "admission_candidates decision_at excluding S =
     sort_key available_key (filter (\<lambda>ev. ob_event_id ev \<notin> set (fs_admitted S) \<and>
       ob_event_id ev \<notin> set excluding \<and> instant (ob_available_at ev) < instant decision_at) (known_events S))"

definition admit_sources :: "datetime \<Rightarrow> string list \<Rightarrow> feature_state \<Rightarrow> feature_state" where
  "admit_sources decision_at excluding S = foldl admit_event S (admission_candidates decision_at excluding S)"

end
