(* ===== verification/Features.thy ===== *)
theory Features
  imports FeatureState "HOL-Library.Product_Lexorder"
begin

text \<open>
  The 48 features (\<open>_FeatureContext\<close>), each with the identifiers of the observations it looks at, the
  vector of one decision and \<open>process\<close>, which admits history cohort by cohort.
\<close>

section \<open>Selecting history\<close>

text \<open>Every identifier a history holds is known, so no lookup fails (\<open>feature_ok\<close>).\<close>

definition lookup_known :: "feature_state \<Rightarrow> string list \<Rightarrow> observed list" where
  "lookup_known S ids = List.map_filter (map_of (fs_known S)) ids"

abbreviation seconds :: "int \<Rightarrow> int" where "seconds n \<equiv> n * 1000000"

definition hour_window :: int where "hour_window = seconds 3600"

definition day_window :: int where "day_window = seconds 86400"

definition selected ::
  "feature_state \<Rightarrow> observed \<Rightarrow> string list \<Rightarrow> int option \<Rightarrow> event_kind list option \<Rightarrow> observed list" where
  "selected S ev ids window outcomes =
     filter (\<lambda>e. instant (ob_event_time e) \<le> instant (ob_event_time ev) \<and>
       (case window of None \<Rightarrow> True | Some w \<Rightarrow> instant (ob_event_time ev) - w \<le> instant (ob_event_time e)) \<and>
       (case outcomes of None \<Rightarrow> True | Some ks \<Rightarrow> ob_event_type e \<in> set ks)) (lookup_known S ids)"

definition actor_events :: "feature_state \<Rightarrow> observed \<Rightarrow> int option \<Rightarrow> observed list" where
  "actor_events S ev w = selected S ev (history (fs_actor S) (ob_actor_id ev)) w None"

definition counterparty_events :: "feature_state \<Rightarrow> observed \<Rightarrow> int option \<Rightarrow> observed list" where
  "counterparty_events S ev w = selected S ev (history (fs_counterparty S) (ob_counterparty_id ev)) w None"

definition pair_events :: "feature_state \<Rightarrow> observed \<Rightarrow> int option \<Rightarrow> observed list" where
  "pair_events S ev w = selected S ev (history (fs_pair S) (ob_actor_id ev, ob_counterparty_id ev)) w None"

definition actor_amount_events :: "feature_state \<Rightarrow> observed \<Rightarrow> int \<Rightarrow> observed list" where
  "actor_amount_events S ev w = selected S ev (history (fs_actor_amount S) (ob_actor_id ev)) (Some w) None"

definition counterparty_amount_events :: "feature_state \<Rightarrow> observed \<Rightarrow> observed list" where
  "counterparty_amount_events S ev =
     selected S ev (history (fs_counterparty_amount S) (ob_counterparty_id ev)) (Some day_window) None"

definition graph_edges :: "feature_state \<Rightarrow> observed \<Rightarrow> int \<Rightarrow> graph_edge list" where
  "graph_edges S ev w =
     filter (\<lambda>e. instant (ob_event_time ev) - w \<le> instant (ge_event_time e) \<and>
       instant (ge_event_time e) \<le> instant (ob_event_time ev)) (fs_edges S)"

section \<open>Values\<close>

text \<open>A feature: its value and the observations it has looked at.\<close>

type_synonym feature = "feature_state \<Rightarrow> observed \<Rightarrow> double \<times> string list"

definition event_ids :: "observed list \<Rightarrow> string list" where
  "event_ids = map ob_event_id"

definition edge_ids :: "graph_edge list \<Rightarrow> string list" where
  "edge_ids = map ge_event_id"

definition count_of :: "'a list \<Rightarrow> double" where
  "count_of xs = float_of_int (int (length xs))"

definition with_events :: "(observed list \<Rightarrow> double) \<Rightarrow> observed list \<Rightarrow> double \<times> string list" where
  "with_events f es = (f es, event_ids es)"

definition with_edges :: "(graph_edge list \<Rightarrow> double) \<Rightarrow> graph_edge list \<Rightarrow> double \<times> string list" where
  "with_edges f es = (f es, edge_ids es)"

text \<open>\<open>timedelta.total_seconds()\<close> of a difference in microseconds\<close>

definition total_seconds :: "int \<Rightarrow> double" where
  "total_seconds us = int_div us 1000000"

definition sum_amounts :: "observed list \<Rightarrow> double" where
  "sum_amounts es = float_of_dec (dec_sum (map ob_amount es))"

definition sentinel :: double where
  "sentinel = Fin (- 1)"

definition elapsed :: "observed \<Rightarrow> bool \<Rightarrow> observed list \<Rightarrow> double" where
  "elapsed ev earliest es =
     (if es = [] then sentinel
      else let ts = map (instant \<circ> ob_event_time) es;
             source = (if earliest then Min (set ts) else Max (set ts))
           in fmax0 (total_seconds (instant (ob_event_time ev) - source)))"

definition zscore :: "libm \<Rightarrow> observed \<Rightarrow> observed list \<Rightarrow> double" where
  "zscore M ev es =
     (if es = [] then sentinel
      else let amounts = map (float_of_dec \<circ> ob_amount) es; deviation = pstdev M amounts
           in if deviation = Fin 0 then Fin 0
              else fdiv (fsub (float_of_dec (ob_amount ev)) (fmean amounts)) deviation)"

definition pi_double :: double where
  "pi_double = Fin (884279719003555 / 281474976710656)"

definition fractional_hour :: "datetime \<Rightarrow> double" where
  "fractional_hour t =
     (let s = dt_local t mod 86400000000 div 1000000
      in fadd (fadd (fadd (float_of_int (s div 3600)) (int_div (s div 60 mod 60) 60)) (int_div (s mod 60) 3600))
           (int_div (dt_local t mod 1000000) 3600000000))"

definition hour_angle :: "observed \<Rightarrow> double" where
  "hour_angle ev = fdiv (fmul (fmul (Fin 2) pi_double) (fractional_hour (ob_event_time ev))) (Fin 24)"

definition lag_ms :: "observed \<Rightarrow> double" where
  "lag_ms ev = fmax0 (fmul (total_seconds (instant (ob_available_at ev) - instant (ob_event_time ev))) (Fin 1000))"

section \<open>Graph\<close>

definition neighbors :: "graph_edge list \<Rightarrow> string \<Rightarrow> string list" where
  "neighbors es n = remdups (concat (map (\<lambda>e.
     (if ge_actor_id e = n then [ge_counterparty_id e] else []) @
     (if ge_counterparty_id e = n then [ge_actor_id e] else [])) es))"

definition graph_nodes :: "graph_edge list \<Rightarrow> string list" where
  "graph_nodes es = remdups (concat (map (\<lambda>e. [ge_actor_id e, ge_counterparty_id e]) es))"

definition shared_neighbors :: "graph_edge list \<Rightarrow> observed \<Rightarrow> string list" where
  "shared_neighbors es ev =
     filter (\<lambda>n. n \<in> set (neighbors es (ob_counterparty_id ev))) (neighbors es (ob_actor_id ev))"

definition two_hop :: "graph_edge list \<Rightarrow> observed \<Rightarrow> string list" where
  "two_hop es ev =
     (let direct = neighbors es (ob_actor_id ev)
      in filter (\<lambda>n. n \<notin> set direct \<and> n \<noteq> ob_actor_id ev) (remdups (concat (map (neighbors es) direct))))"

text \<open>The worklist of \<open>_component\<close>: \<open>frontier.pop()\<close> takes the head here.\<close>

function reach :: "graph_edge list \<Rightarrow> string list \<Rightarrow> string list \<Rightarrow> string list" where
  "reach es seen [] = seen"
| "reach es seen (n # frontier) =
     (if n \<in> set seen then reach es seen frontier
      else reach es (n # seen) (filter (\<lambda>m. m \<notin> set (n # seen)) (neighbors es n) @ frontier))"
  by pat_completeness auto

lemma neighbors_nodes: "m \<in> set (neighbors es n) \<Longrightarrow> n \<in> set (graph_nodes es) \<and> m \<in> set (graph_nodes es)"
  by (fastforce simp: neighbors_def graph_nodes_def split: if_splits)

termination reach
proof (relation "(\<lambda>(es, seen, frontier). card (set (graph_nodes es) - set seen)) <*mlex*>
    measure (\<lambda>(es, seen, frontier). length frontier)", goal_cases)
  case 1
  then show ?case by (simp add: wf_mlex)
next
  case (2 es seen n frontier)
  then show ?case by (simp add: mlex_iff)
next
  case (3 es seen n frontier)
  show ?case
  proof (cases "n \<in> set (graph_nodes es)")
    case True
    with 3 have "set (graph_nodes es) - set (n # seen) \<subset> set (graph_nodes es) - set seen" by auto
    then have "card (set (graph_nodes es) - set (n # seen)) < card (set (graph_nodes es) - set seen)"
      by (intro psubset_card_mono) auto
    then show ?thesis by (simp add: mlex_iff)
  next
    case False
    then have "neighbors es n = []" using neighbors_nodes by (cases "neighbors es n") (auto, force)
    moreover have "set (graph_nodes es) - set (n # seen) = set (graph_nodes es) - set seen" using False by auto
    ultimately show ?thesis by (simp add: mlex_iff)
  qed
qed

definition component_nodes :: "graph_edge list \<Rightarrow> observed \<Rightarrow> string list" where
  "component_nodes es ev =
     reach es [] (filter (\<lambda>n. n \<in> set (graph_nodes es)) (remdups [ob_actor_id ev, ob_counterparty_id ev]))"

definition component_edges :: "graph_edge list \<Rightarrow> observed \<Rightarrow> (string \<times> string) list" where
  "component_edges es ev =
     (let seen = set (component_nodes es ev)
      in remdups (map (\<lambda>e. (min (ge_actor_id e) (ge_counterparty_id e), max (ge_actor_id e) (ge_counterparty_id e)))
           (filter (\<lambda>e. ge_actor_id e \<in> seen \<and> ge_counterparty_id e \<in> seen) es)))"

definition edge_density :: "observed \<Rightarrow> graph_edge list \<Rightarrow> double" where
  "edge_density ev es =
     (let n = int (length (component_nodes es ev)); possible = int_div (n * (n - 1)) 2
      in if possible = Fin 0 then Fin 0 else fdiv (count_of (component_edges es ev)) possible)"

section \<open>The table of features\<close>

definition plain :: "(observed \<Rightarrow> double) \<Rightarrow> feature" where
  "plain f S ev = (f ev, [])"

definition actor_outcomes :: "event_kind \<Rightarrow> int \<Rightarrow> feature" where
  "actor_outcomes kind w S ev =
     with_events count_of (selected S ev (history (fs_actor S) (ob_actor_id ev)) (Some w) (Some [kind]))"

definition admitted_events :: "feature_state \<Rightarrow> observed \<Rightarrow> int option \<Rightarrow> observed list" where
  "admitted_events S ev w = selected S ev (fs_admitted S) w None"

definition late_events :: "feature_state \<Rightarrow> observed \<Rightarrow> int option \<Rightarrow> observed list" where
  "late_events S ev w = selected S ev (fs_late S) w None"

definition transaction_features :: "libm \<Rightarrow> (string \<times> feature) list" where
  "transaction_features M =
     [(''txn_log_amount'', plain (\<lambda>ev. lift_libm (lm_log1p M) (float_of_dec (ob_amount ev)))),
      (''txn_rail_card'', plain (\<lambda>ev. float_of_bool (ob_rail ev = Card))),
      (''txn_rail_a2a'', plain (\<lambda>ev. float_of_bool (ob_rail ev = A2A))),
      (''txn_rail_agentic'', plain (\<lambda>ev. float_of_bool (ob_rail ev = Agentic))),
      (''txn_hour_sin'', plain (\<lambda>ev. lift_libm (lm_sin M) (hour_angle ev))),
      (''txn_hour_cos'', plain (\<lambda>ev. lift_libm (lm_cos M) (hour_angle ev))),
      (''txn_integrity_pass'', plain (\<lambda>ev. float_of_bool (ob_rail ev = Agentic \<and> ob_integrity_status ev = ''pass''))),
      (''txn_optional_ref_count'', plain (\<lambda>ev. count_of (ob_optional_refs ev)))]"

definition temporal_features :: "(string \<times> feature) list" where
  "temporal_features =
     [(''actor_count_1m'', \<lambda>S ev. with_events count_of (actor_events S ev (Some (seconds 60)))),
      (''actor_count_10m'', \<lambda>S ev. with_events count_of (actor_events S ev (Some (seconds 600)))),
      (''actor_count_1h'', \<lambda>S ev. with_events count_of (actor_events S ev (Some hour_window))),
      (''actor_count_24h'', \<lambda>S ev. with_events count_of (actor_events S ev (Some day_window))),
      (''actor_amount_1h'', \<lambda>S ev. with_events sum_amounts (actor_amount_events S ev hour_window)),
      (''actor_amount_24h'', \<lambda>S ev. with_events sum_amounts (actor_amount_events S ev day_window)),
      (''counterparty_count_1h'', \<lambda>S ev. with_events count_of (counterparty_events S ev (Some hour_window))),
      (''counterparty_count_24h'', \<lambda>S ev. with_events count_of (counterparty_events S ev (Some day_window))),
      (''counterparty_amount_24h'', \<lambda>S ev. with_events sum_amounts (counterparty_amount_events S ev)),
      (''actor_prior_decline_1h'', actor_outcomes AuthorizationDeclined hour_window),
      (''actor_prior_challenge_1h'', actor_outcomes AuthenticationChallenge hour_window),
      (''actor_prior_return_24h'', actor_outcomes TransferReturned day_window),
      (''counterparty_prior_refund_24h'', \<lambda>S ev. with_events count_of
         (selected S ev (history (fs_counterparty S) (ob_counterparty_id ev)) (Some day_window) (Some [Refund])))]"

definition entity_features :: "libm \<Rightarrow> (string \<times> feature) list" where
  "entity_features M =
     [(''actor_seconds_since_first'', \<lambda>S ev. with_events (elapsed ev True) (actor_events S ev None)),
      (''actor_seconds_since_last'', \<lambda>S ev. with_events (elapsed ev False) (actor_events S ev None)),
      (''counterparty_seconds_since_first'', \<lambda>S ev. with_events (elapsed ev True) (counterparty_events S ev None)),
      (''counterparty_seconds_since_last'', \<lambda>S ev. with_events (elapsed ev False) (counterparty_events S ev None)),
      (''pair_seconds_since_first'', \<lambda>S ev. with_events (elapsed ev True) (pair_events S ev None)),
      (''pair_seconds_since_last'', \<lambda>S ev. with_events (elapsed ev False) (pair_events S ev None)),
      (''actor_distinct_counterparties_24h'', \<lambda>S ev. with_events
         (\<lambda>es. count_of (remdups (map ob_counterparty_id es))) (actor_events S ev (Some day_window))),
      (''counterparty_distinct_actors_24h'', \<lambda>S ev. with_events
         (\<lambda>es. count_of (remdups (map ob_actor_id es))) (counterparty_events S ev (Some day_window))),
      (''actor_amount_zscore_24h'', \<lambda>S ev. with_events (zscore M ev) (actor_amount_events S ev day_window)),
      (''counterparty_amount_zscore_24h'', \<lambda>S ev. with_events (zscore M ev) (counterparty_amount_events S ev)),
      (''pair_prior_count'', \<lambda>S ev. with_events count_of (pair_events S ev None))]"

definition graph_features :: "(string \<times> feature) list" where
  "graph_features =
     [(''graph_actor_fanout'', \<lambda>S ev. with_edges (\<lambda>es. count_of (remdups (map ge_counterparty_id
         (filter (\<lambda>e. ge_actor_id e = ob_actor_id ev) es)))) (graph_edges S ev day_window)),
      (''graph_counterparty_fanin'', \<lambda>S ev. with_edges (\<lambda>es. count_of (remdups (map ge_actor_id
         (filter (\<lambda>e. ge_counterparty_id e = ob_counterparty_id ev) es)))) (graph_edges S ev day_window)),
      (''graph_shared_neighbor_count'', \<lambda>S ev. with_edges (\<lambda>es. count_of (shared_neighbors es ev))
         (graph_edges S ev day_window)),
      (''graph_two_hop_reach'', \<lambda>S ev. with_edges (\<lambda>es. count_of (two_hop es ev)) (graph_edges S ev day_window)),
      (''graph_component_size'', \<lambda>S ev. with_edges (\<lambda>es. count_of (component_nodes es ev))
         (graph_edges S ev day_window)),
      (''graph_edge_density'', \<lambda>S ev. with_edges (edge_density ev) (graph_edges S ev day_window)),
      (''graph_repeated_edge'', \<lambda>S ev. with_edges (\<lambda>es. float_of_bool (list_ex (\<lambda>e.
         ge_actor_id e = ob_actor_id ev \<and> ge_counterparty_id e = ob_counterparty_id ev) es))
         (graph_edges S ev day_window)),
      (''graph_burst_motif'', \<lambda>S ev. with_edges (\<lambda>es. count_of (filter (\<lambda>e.
         ge_actor_id e = ob_actor_id ev \<or> ge_counterparty_id e = ob_counterparty_id ev) es))
         (graph_edges S ev hour_window)),
      (''graph_prior_suspicious_count'', \<lambda>S ev. with_edges (\<lambda>es. count_of (filter (\<lambda>e.
         ge_suspicious e \<and> ge_actor_id e = ob_actor_id ev) es)) (graph_edges S ev day_window))]"

definition quality_features :: "(string \<times> feature) list" where
  "quality_features =
     [(''dq_missing_optional_count'', plain (\<lambda>ev. float_of_int (max 0 (7 - int (length (ob_optional_refs ev)))))),
      (''dq_current_availability_lag_ms'', plain lag_ms),
      (''dq_mean_history_lag_ms'', \<lambda>S ev. with_events (\<lambda>es. if es = [] then sentinel else fmean (map lag_ms es))
         (admitted_events S ev (Some day_window))),
      (''dq_late_event_count'', \<lambda>S ev. with_events count_of (late_events S ev (Some day_window))),
      (''dq_history_count'', \<lambda>S ev. with_events count_of (admitted_events S ev (Some day_window))),
      (''dq_history_age_seconds'', \<lambda>S ev. with_events (elapsed ev True) (admitted_events S ev None)),
      (''dq_degraded_state'', \<lambda>S ev. let hs = admitted_events S ev None; ls = late_events S ev None
         in (float_of_bool (hs = [] \<or> ls \<noteq> []), event_ids hs @ event_ids ls))]"

definition feature_table :: "libm \<Rightarrow> (string \<times> feature) list" where
  "feature_table M = transaction_features M @ temporal_features @ entity_features M @ graph_features @ quality_features"

section \<open>Vectors\<close>

text \<open>\<open>math.log1p\<close> raises on what is not above \<open>-1\<close>.\<close>

definition log_domain :: "observed \<Rightarrow> bool" where
  "log_domain ev \<longleftrightarrow> (case float_of_dec (ob_amount ev) of Fin x \<Rightarrow> - 1 < x | Inf s \<Rightarrow> \<not> s | NaN \<Rightarrow> True)"

definition derive_feature :: "libm \<Rightarrow> feature_state \<Rightarrow> observed \<Rightarrow> feature_definition \<Rightarrow> (double \<times> string list) res" where
  "derive_feature M S ev d = (case map_of (feature_table M) (fd_name d) of
       None \<Rightarrow> Inl (FeatureStateError (''feature has no executable definition: '' @ fd_name d))
     | Some f \<Rightarrow> if fd_name d = ''txn_log_amount'' \<and> \<not> log_domain ev
         then Inl (ValueError ''math domain error'')
         else let (value, sources) = f S ev in
         Inr (if is_finite value then value else if fd_missing d = SentinelWhenMissing then sentinel else Fin 0, sources))"

text \<open>The first of the latest instants, as \<open>max\<close> returns it.\<close>

fun latest :: "datetime list \<Rightarrow> datetime option" where
  "latest [] = None"
| "latest (d # ds) = Some (foldl (\<lambda>m x. if instant m < instant x then x else m) d ds)"

definition feature_vector_valid :: "feature_vector \<Rightarrow> feature_vector res" where
  "feature_vector_valid v =
     bindr (validate_utc_timestamp (fv_decision_at v)) (\<lambda>_.
     bindr (optional validate_utc_timestamp (fv_max_source v)) (\<lambda>_. Inr v))"

definition compute_vector :: "libm \<Rightarrow> datetime \<Rightarrow> feature_state \<Rightarrow> observed \<Rightarrow> feature_vector res" where
  "compute_vector M decision_at S ev =
     bindr (mapr (\<lambda>d. bindr (derive_feature M S ev d) (\<lambda>(v, sources). Inr ((fd_name d, v), sources)))
       (fc_features (fs_catalog S))) (\<lambda>rows.
     let ordered = sort (remdups (concat (map snd rows)));
         max_source = latest (map ob_available_at (lookup_known S ordered))
     in if (case max_source of None \<Rightarrow> False | Some m \<Rightarrow> \<not> instant m < instant decision_at)
        then Inl (FeatureStateError ''historical source violates strict knowledge time'')
        else feature_vector_valid
          \<lparr>fv_event_id = ob_event_id ev, fv_decision_at = decision_at, fv_source_event_ids = ordered,
            fv_max_source = max_source, fv_catalog_digest = fs_catalog_digest S,
            fv_values = foldl (\<lambda>vs (k, v). AList.update k v vs) [] (map fst rows)\<rparr>)"

section \<open>Processing\<close>

definition pending_decisions :: "feature_state \<Rightarrow> observed list" where
  "pending_decisions S = sort_key decision_key (filter (\<lambda>ev. ob_is_decision_point ev \<and>
     ob_event_id ev \<notin> set (fs_emitted S)) (known_events S))"

text \<open>\<open>groupby(decisions, key=attrgetter("decision_at"))\<close>\<close>

definition same_decision :: "observed \<Rightarrow> observed \<Rightarrow> bool" where
  "same_decision a b \<longleftrightarrow> opt_instant (ob_decision_at a) = opt_instant (ob_decision_at b)"

function cohorts :: "observed list \<Rightarrow> observed list list" where
  "cohorts [] = []"
| "cohorts (e # es) = (e # takeWhile (same_decision e) es) # cohorts (dropWhile (same_decision e) es)"
  by pat_completeness auto
termination by (relation "measure length") (auto simp: le_imp_less_Suc length_dropWhile_le)

definition process_cohort :: "libm \<Rightarrow> observed list \<Rightarrow> (feature_state, feature_vector list) act" where
  "process_cohort M batch S = (case batch of
       [] \<Rightarrow> (Inr [], S)
     | ev # _ \<Rightarrow> (case ob_decision_at ev of
         None \<Rightarrow> (Inl (FeatureStateError ''decision-point event must declare decision_at''), S)
       | Some decision_at \<Rightarrow>
           if (case fs_watermark S of None \<Rightarrow> False | Some w \<Rightarrow> instant decision_at \<le> instant w)
           then (Inl (FeatureStateError ''decision belongs to a closed decision timestamp''), S)
           else let S1 = admit_sources decision_at (event_ids batch) S
             in case mapr (compute_vector M decision_at S1) batch of
                  Inl e \<Rightarrow> (Inl e, S1)
                | Inr vs \<Rightarrow> (Inr vs, S1\<lparr>fs_emitted := event_ids batch @ fs_emitted S1,
                    fs_watermark := Some decision_at\<rparr>)))"

primrec process_cohorts :: "libm \<Rightarrow> observed list list \<Rightarrow> (feature_state, feature_vector list) act" where
  "process_cohorts M [] = ret []"
| "process_cohorts M (batch # batches) =
     bindm (process_cohort M batch) (\<lambda>vs.
     bindm (process_cohorts M batches) (\<lambda>ws. ret (vs @ ws)))"

definition process_features :: "libm \<Rightarrow> observed list \<Rightarrow> (feature_state, feature_vector list) act" where
  "process_features M events =
     bindm (remember events) (\<lambda>_ S.
       if list_ex (\<lambda>ev. ob_decision_at ev = None) (pending_decisions S)
       then (Inl (FeatureStateError ''decision-point event must declare decision_at''), S)
       else process_cohorts M (cohorts (pending_decisions S)) S)"

section \<open>One-shot matrices\<close>

text \<open>\<open>features/builders.py\<close>\<close>

record feature_matrix =
  fm_events :: "observed list"
  fm_catalog :: feature_catalog
  fm_catalog_digest :: string
  fm_rows :: "feature_vector list"

definition build_feature_matrix ::
  "(feature_catalog \<Rightarrow> string) \<Rightarrow> libm \<Rightarrow> observed list \<Rightarrow> feature_catalog \<Rightarrow> feature_matrix res" where
  "build_feature_matrix J M events c =
     (let ordered = sort_key ob_event_id events
      in bindr (new_feature_state J c) (\<lambda>S.
         bindr (fst (process_features M ordered S)) (\<lambda>rows.
         bindr (feature_catalog_digest J c) (\<lambda>digest.
         Inr \<lparr>fm_events = ordered, fm_catalog = c, fm_catalog_digest = digest, fm_rows = rows\<rparr>))))"

end
