(* ===== verification/FeatureFrames.thy ===== *)
theory FeatureFrames
  imports Features
begin

text \<open>
  What the operations of the feature state keep: every identifier a history, an edge or the late list
  holds is known and was available before the cohort that looks at it. From this the sources of every
  feature are bounded, and lookups never fail.
\<close>

section \<open>The invariant\<close>

definition before :: "feature_state \<Rightarrow> int \<Rightarrow> string \<Rightarrow> bool" where
  "before S t i \<longleftrightarrow> (\<exists>ev. map_of (fs_known S) i = Some ev \<and> instant (ob_available_at ev) < t)"

definition histories_admitted :: "feature_state \<Rightarrow> bool" where
  "histories_admitted S \<longleftrightarrow>
     (\<forall>k. set (history (fs_actor S) k) \<subseteq> set (fs_admitted S)) \<and>
     (\<forall>k. set (history (fs_counterparty S) k) \<subseteq> set (fs_admitted S)) \<and>
     (\<forall>k. set (history (fs_pair S) k) \<subseteq> set (fs_admitted S)) \<and>
     (\<forall>k. set (history (fs_actor_amount S) k) \<subseteq> set (fs_admitted S)) \<and>
     (\<forall>k. set (history (fs_counterparty_amount S) k) \<subseteq> set (fs_admitted S)) \<and>
     set (edge_ids (fs_edges S)) \<subseteq> set (fs_admitted S)"

definition well_keyed :: "feature_state \<Rightarrow> bool" where
  "well_keyed S \<longleftrightarrow> distinct (map fst (fs_known S)) \<and> (\<forall>(i, ev) \<in> set (fs_known S). ob_event_id ev = i)"

definition feature_ok :: "feature_state \<Rightarrow> bool" where
  "feature_ok S \<longleftrightarrow> well_keyed S \<and> histories_admitted S \<and>
     set (fs_admitted S) \<union> set (fs_late S) \<union> set (fs_emitted S) \<subseteq> fst ` set (fs_known S)"

lemma history_add_set: "set (history (history_add k i h) k') = (if k' = k then insert i (set (history h k)) else set (history h k'))"
  by (auto simp: history_def history_add_def update_conv)

lemma admit_event_frame:
  assumes "histories_admitted S"
  shows "histories_admitted (admit_event S ev)" "fs_known (admit_event S ev) = fs_known S"
    "set (fs_admitted (admit_event S ev)) = insert (ob_event_id ev) (set (fs_admitted S))"
    "fs_late (admit_event S ev) = fs_late S" "fs_watermark (admit_event S ev) = fs_watermark S"
    "fs_emitted (admit_event S ev) = fs_emitted S" "fs_catalog (admit_event S ev) = fs_catalog S"
proof -
  show "histories_admitted (admit_event S ev)"
  proof (cases "ob_event_id ev \<in> set (fs_admitted S)")
    case True
    with assms show ?thesis by (simp add: admit_event_def)
  next
    case False
    have e: "edge_ids [edge_of ev] = [ob_event_id ev]" by (simp add: edge_ids_def edge_of_def)
    from False assms show ?thesis
      unfolding histories_admitted_def
      by (auto simp: admit_event_def Let_def history_add_set edge_ids_def edge_of_def subset_iff)
  qed
qed (auto simp: admit_event_def Let_def)

lemma admit_all_frame:
  "histories_admitted S \<Longrightarrow> histories_admitted (foldl admit_event S evs) \<and>
    fs_known (foldl admit_event S evs) = fs_known S \<and>
    set (fs_admitted (foldl admit_event S evs)) = set (event_ids evs) \<union> set (fs_admitted S) \<and>
    fs_late (foldl admit_event S evs) = fs_late S \<and> fs_watermark (foldl admit_event S evs) = fs_watermark S \<and>
    fs_emitted (foldl admit_event S evs) = fs_emitted S \<and> fs_catalog (foldl admit_event S evs) = fs_catalog S"
proof (induction evs arbitrary: S)
  case (Cons ev evs)
  from Cons.IH [OF admit_event_frame(1) [OF Cons.prems]] admit_event_frame(2-) [OF Cons.prems, of ev]
  show ?case by (auto simp: event_ids_def)
qed (simp add: event_ids_def)

lemma known_lookup:
  assumes "well_keyed S" "ev \<in> set (known_events S)"
  shows "map_of (fs_known S) (ob_event_id ev) = Some ev"
  using assms by (auto simp: well_keyed_def known_events_def intro!: map_of_is_SomeI)

lemma lookup_known_ids:
  assumes "well_keyed S"
  shows "ob_event_id ` set (lookup_known S ids) \<subseteq> set ids"
    and "ev \<in> set (lookup_known S ids) \<Longrightarrow> map_of (fs_known S) (ob_event_id ev) = Some ev"
proof -
  have "ob_event_id ev = i" if "map_of (fs_known S) i = Some ev" for i ev
    using assms map_of_SomeD [OF that] by (auto simp: well_keyed_def)
  then show "ob_event_id ` set (lookup_known S ids) \<subseteq> set ids"
    and "ev \<in> set (lookup_known S ids) \<Longrightarrow> map_of (fs_known S) (ob_event_id ev) = Some ev"
    by (auto simp: lookup_known_def List.map_filter_def)
qed

section \<open>Sources\<close>

lemma selected_ids: "well_keyed S \<Longrightarrow> set (event_ids (selected S ev ids w ks)) \<subseteq> set ids"
  using lookup_known_ids(1) by (fastforce simp: selected_def event_ids_def)

lemma graph_edges_ids: "set (edge_ids (graph_edges S ev w)) \<subseteq> set (edge_ids (fs_edges S))"
  by (auto simp: graph_edges_def edge_ids_def)

text \<open>Whatever feature is computed, its sources are admitted or late.\<close>

lemma feature_sources:
  assumes "(n, f) \<in> set (feature_table M)" "well_keyed S" "histories_admitted S"
  shows "set (snd (f S ev)) \<subseteq> set (fs_admitted S) \<union> set (fs_late S)"
proof -
  note sel = selected_ids [OF assms(2)]
  have h: "set (event_ids (actor_events S ev w)) \<subseteq> set (fs_admitted S)"
    "set (event_ids (counterparty_events S ev w)) \<subseteq> set (fs_admitted S)"
    "set (event_ids (pair_events S ev w)) \<subseteq> set (fs_admitted S)"
    "set (event_ids (actor_amount_events S ev w')) \<subseteq> set (fs_admitted S)"
    "set (event_ids (counterparty_amount_events S ev)) \<subseteq> set (fs_admitted S)"
    "set (edge_ids (graph_edges S ev w')) \<subseteq> set (fs_admitted S)"
    "set (event_ids (admitted_events S ev w)) \<subseteq> set (fs_admitted S)"
    "set (event_ids (late_events S ev w)) \<subseteq> set (fs_late S)"
    "set (event_ids (selected S ev (history (fs_actor S) k) w ks)) \<subseteq> set (fs_admitted S)"
    "set (event_ids (selected S ev (history (fs_counterparty S) k) w ks)) \<subseteq> set (fs_admitted S)" for w w' k ks
    using sel graph_edges_ids [of S ev w'] assms(3)
    unfolding actor_events_def counterparty_events_def pair_events_def actor_amount_events_def
      counterparty_amount_events_def admitted_events_def late_events_def histories_admitted_def
    by (meson order_trans)+
  note evals = with_events_def with_edges_def plain_def actor_outcomes_def Let_def
  from assms(1) consider "(n, f) \<in> set (transaction_features M)" | "(n, f) \<in> set temporal_features"
    | "(n, f) \<in> set (entity_features M)" | "(n, f) \<in> set graph_features" | "(n, f) \<in> set quality_features"
    by (auto simp: feature_table_def)
  then show ?thesis
  proof cases
    case 1
    then show ?thesis by (auto simp: transaction_features_def plain_def)
  next
    case 2
    then have "set (snd (f S ev)) \<subseteq> set (fs_admitted S)"
      unfolding temporal_features_def list.set insert_iff empty_iff prod.inject
      by (elim disjE conjE FalseE; hypsubst; simp add: evals h)
    then show ?thesis by blast
  next
    case 3
    then have "set (snd (f S ev)) \<subseteq> set (fs_admitted S)"
      unfolding entity_features_def list.set insert_iff empty_iff prod.inject
      by (elim disjE conjE FalseE; hypsubst; simp add: evals h)
    then show ?thesis by blast
  next
    case 4
    then have "set (snd (f S ev)) \<subseteq> set (fs_admitted S)"
      unfolding graph_features_def list.set insert_iff empty_iff prod.inject
      by (elim disjE conjE FalseE; hypsubst; simp add: evals h)
    then show ?thesis by blast
  next
    case 5
    then show ?thesis
      unfolding quality_features_def list.set insert_iff empty_iff prod.inject
      by (elim disjE conjE FalseE; hypsubst; simp add: evals h le_supI1 le_supI2)
  qed
qed

lemma derive_sources:
  assumes "derive_feature M S ev d = Inr (v, sources)" "well_keyed S" "histories_admitted S"
  shows "set sources \<subseteq> set (fs_admitted S) \<union> set (fs_late S)" "is_finite v"
proof -
  from assms(1) obtain f where f: "map_of (feature_table M) (fd_name d) = Some f" "sources = snd (f S ev)"
    "v = (if is_finite (fst (f S ev)) then fst (f S ev) else if fd_missing d = SentinelWhenMissing then sentinel else Fin 0)"
    by (auto simp: derive_feature_def Let_def split: option.splits prod.splits if_splits)
  from feature_sources [OF map_of_SomeD [OF f(1)] assms(2,3)] show "set sources \<subseteq> set (fs_admitted S) \<union> set (fs_late S)"
    by (simp add: f(2))
  show "is_finite v" by (simp add: f(3) sentinel_def)
qed

section \<open>Vectors\<close>

lemma latest_bound:
  assumes "latest ds = Some m" "d \<in> set ds"
  shows "instant d \<le> instant m"
proof -
  obtain x xs where ds: "ds = x # xs" using assms(2) by (cases ds) auto
  define pick where "pick = (\<lambda>m x. if instant m < instant x then x else m :: datetime)"
  have "instant y \<le> instant (foldl pick y ys) \<and> (\<forall>z \<in> set ys. instant z \<le> instant (foldl pick y ys))" for y ys
  proof (induction ys arbitrary: y)
    case (Cons z zs)
    from Cons [of "pick y z"] show ?case by (auto simp: pick_def split: if_splits)
  qed simp
  with assms show ?thesis by (auto simp: ds pick_def)
qed

lemma latest_None: "latest ds = None \<longleftrightarrow> ds = []"
  by (cases ds) auto

lemma alist_update_fresh: "k \<notin> fst ` set d \<Longrightarrow> AList.update k v d = d @ [(k, v)]"
  by (induction d) auto

lemma fold_update_rows:
  "distinct (map fst d @ map fst rows) \<Longrightarrow> foldl (\<lambda>vs (k, v). AList.update k v vs) d rows = d @ rows"
proof (induction rows arbitrary: d)
  case (Cons r rows)
  obtain k v where r: "r = (k, v)" by (cases r)
  from Cons.prems have "k \<notin> fst ` set d" by (auto simp: r)
  with Cons.IH [of "d @ [r]"] Cons.prems show ?case by (simp add: r alist_update_fresh)
qed simp

text \<open>A vector: what it looks at, and one finite value per feature of the catalog, in its order.\<close>

lemma compute_vector_facts:
  assumes "compute_vector M d S ev = Inr v" "feature_ok S"
  shows "fv_event_id v = ob_event_id ev" "fv_decision_at v = d"
    "\<forall>i \<in> set (fv_source_event_ids v). before S (instant d) i"
    "set (fv_source_event_ids v) \<subseteq> set (fs_admitted S) \<union> set (fs_late S)"
    "distinct (catalog_names (fs_catalog S)) \<Longrightarrow> map fst (fv_values v) = catalog_names (fs_catalog S)"
    "distinct (catalog_names (fs_catalog S)) \<Longrightarrow> \<forall>(n, x) \<in> set (fv_values v). is_finite x"
proof -
  let ?f = "\<lambda>d. bindr (derive_feature M S ev d) (\<lambda>(v, sources). Inr ((fd_name d, v), sources))"
  from assms(1) obtain rows where rows: "mapr ?f (fc_features (fs_catalog S)) = Inr rows"
    and ok: "\<not> (case latest (map ob_available_at (lookup_known S (sort (remdups (concat (map snd rows)))))) of
        None \<Rightarrow> False | Some m \<Rightarrow> \<not> instant m < instant d)"
    and v: "fv_event_id v = ob_event_id ev" "fv_decision_at v = d"
      "fv_source_event_ids v = sort (remdups (concat (map snd rows)))"
      "fv_values v = foldl (\<lambda>vs (k, v). AList.update k v vs) [] (map fst rows)"
    by (auto simp: compute_vector_def Let_def bindr_Inr feature_vector_valid_def split: if_splits)
  show "fv_event_id v = ob_event_id ev" "fv_decision_at v = d" by fact+
  have wk: "well_keyed S" and ha: "histories_admitted S" using assms(2) by (simp_all add: feature_ok_def)
  have names: "mapr ?f ds = Inr rs \<Longrightarrow> map (fst \<circ> fst) rs = map fd_name ds" for ds rs
    by (induction ds arbitrary: rs) (auto simp: bindr_Inr)
  have derived: "mapr ?f ds = Inr rs \<Longrightarrow> r \<in> set rs \<Longrightarrow>
      \<exists>x w sources. derive_feature M S ev x = Inr (w, sources) \<and> r = ((fd_name x, w), sources)" for ds rs r
    by (induction ds arbitrary: rs) (auto simp: bindr_Inr, blast)
  have row: "set (snd r) \<subseteq> set (fs_admitted S) \<union> set (fs_late S) \<and> is_finite (snd (fst r))"
    if "r \<in> set rows" for r
  proof -
    from derived [OF rows that] obtain x w sources where
      "derive_feature M S ev x = Inr (w, sources)" "r = ((fd_name x, w), sources)" by blast
    with derive_sources [OF this(1) wk ha] show ?thesis by simp
  qed
  show "set (fv_source_event_ids v) \<subseteq> set (fs_admitted S) \<union> set (fs_late S)"
    using row by (fastforce simp: v(3))
  then have known: "set (fv_source_event_ids v) \<subseteq> fst ` set (fs_known S)"
    using assms(2) by (auto simp: feature_ok_def)
  show "\<forall>i \<in> set (fv_source_event_ids v). before S (instant d) i"
  proof
    fix i
    assume i: "i \<in> set (fv_source_event_ids v)"
    with known obtain e where e: "map_of (fs_known S) i = Some e"
      by (metis (no_types) in_mono map_of_eq_None_iff not_None_eq)
    then have mem: "ob_available_at e \<in> set (map ob_available_at (lookup_known S (fv_source_event_ids v)))"
      using i by (force simp: lookup_known_def List.map_filter_def)
    then obtain m where m: "latest (map ob_available_at (lookup_known S (fv_source_event_ids v))) = Some m"
      by (metis empty_iff latest_None list.set(1) not_None_eq)
    with ok latest_bound [OF m mem] e show "before S (instant d) i"
      by (auto simp: v(3) before_def)
  qed
  assume dist: "distinct (catalog_names (fs_catalog S))"
  have nm: "map (fst \<circ> fst) rows = catalog_names (fs_catalog S)"
    using names [OF rows] by (simp add: catalog_names_def)
  with dist have vals: "fv_values v = map fst rows"
    using fold_update_rows [of "[]" "map fst rows"] by (simp add: v(4))
  show "map fst (fv_values v) = catalog_names (fs_catalog S)" using nm by (simp add: vals)
  show "\<forall>(n, x) \<in> set (fv_values v). is_finite x" using row by (auto simp: vals)
qed

end
