(* ===== verification/FeatureRuns.thy ===== *)
theory FeatureRuns
  imports FeatureFrames
begin

text \<open>
  Calls of \<open>process\<close>: what they keep, that a cohort is blind to observations that become available
  only with it or later, and that feeding a stream in two parts is feeding it at once.
\<close>

section \<open>Remembering\<close>

definition staged_ok :: "feature_state \<Rightarrow> (string \<times> observed) list \<Rightarrow> bool" where
  "staged_ok S staged \<longleftrightarrow> (\<forall>(i, ev) \<in> set staged. ob_event_id ev = i) \<and> distinct (map fst staged) \<and>
     fst ` set staged \<inter> fst ` set (fs_known S) = {}"

lemma remember_step_Inr:
  assumes "remember_step S staged ev = Inr t"
  shows "t = staged \<or> t = staged @ [(ob_event_id ev, ev)] \<and> ob_event_id ev \<notin> fst ` set (fs_known S) \<and>
    ob_event_id ev \<notin> fst ` set staged"
  using assms by (auto simp: remember_step_def map_of_eq_None_iff split: option.splits if_splits)

lemma remembered:
  assumes "foldlr (remember_step S) [] events = Inr staged"
  shows "staged_ok S staged"
proof (rule foldlr_invariant [OF assms])
  fix staged ev t
  assume ok: "staged_ok S staged" and t: "remember_step S staged ev = Inr t"
  from remember_step_Inr [OF t] show "staged_ok S t"
  proof (elim disjE conjE)
    assume "t = staged @ [(ob_event_id ev, ev)]" "ob_event_id ev \<notin> fst ` set (fs_known S)"
      "ob_event_id ev \<notin> fst ` set staged"
    with ok show ?thesis by (simp add: staged_ok_def)
  qed (use ok in simp)
qed (simp add: staged_ok_def)

lemma store_known: "i \<notin> fst ` set (fs_known S) \<Longrightarrow> fs_known (store_event S (i, ev)) = fs_known S @ [(i, ev)]"
  by (auto simp: store_event_def Let_def alist_update_fresh split: option.split)

lemma store_frame [simp]:
  "fs_admitted (store_event S p) = fs_admitted S" "fs_emitted (store_event S p) = fs_emitted S"
  "fs_watermark (store_event S p) = fs_watermark S" "fs_catalog (store_event S p) = fs_catalog S"
  "histories_admitted (store_event S p) = histories_admitted S"
  by (auto simp: store_event_def Let_def histories_admitted_def split: option.split prod.split)

lemma store_ok:
  assumes "feature_ok S" "i \<notin> fst ` set (fs_known S)" "ob_event_id ev = i"
  shows "feature_ok (store_event S (i, ev))"
proof -
  have "set (fs_late (store_event S (i, ev))) \<subseteq> insert i (set (fs_late S))"
    by (auto simp: store_event_def Let_def split: option.split)
  with assms show ?thesis
    by (auto simp: feature_ok_def well_keyed_def store_known)
qed

lemma store_all:
  assumes "feature_ok S" "staged_ok S staged"
  shows "feature_ok (foldl store_event S staged) \<and> fs_known (foldl store_event S staged) = fs_known S @ staged \<and>
    fs_catalog (foldl store_event S staged) = fs_catalog S \<and> fs_emitted (foldl store_event S staged) = fs_emitted S \<and>
    fs_watermark (foldl store_event S staged) = fs_watermark S"
  using assms
proof (induction staged arbitrary: S)
  case (Cons p staged)
  obtain i ev where p: "p = (i, ev)" by (cases p)
  from Cons.prems have f: "i \<notin> fst ` set (fs_known S)" "ob_event_id ev = i" by (simp_all add: p staged_ok_def)
  have "staged_ok (store_event S p) staged"
    using Cons.prems(2) f by (simp add: p staged_ok_def store_known)
  from Cons.IH [OF store_ok [OF Cons.prems(1) f, folded p] this] f show ?case by (simp add: p store_known)
qed simp

lemma remember_ok:
  assumes "feature_ok S" "remember events S = (q, S')"
  shows "feature_ok S'" "fs_catalog S' = fs_catalog S" "fs_emitted S' = fs_emitted S" "fs_watermark S' = fs_watermark S"
    "\<exists>staged. fs_known S' = fs_known S @ staged"
proof -
  have "feature_ok S' \<and> fs_catalog S' = fs_catalog S \<and> fs_emitted S' = fs_emitted S \<and> fs_watermark S' = fs_watermark S \<and>
      (\<exists>staged. fs_known S' = fs_known S @ staged)"
  proof (cases "foldlr (remember_step S) [] events")
    case (Inl e)
    with assms show ?thesis by (simp add: remember_def)
  next
    case (Inr staged)
    from store_all [OF assms(1) remembered [OF Inr]] assms(2) Inr show ?thesis by (auto simp: remember_def)
  qed
  then show "feature_ok S'" "fs_catalog S' = fs_catalog S" "fs_emitted S' = fs_emitted S" "fs_watermark S' = fs_watermark S"
    "\<exists>staged. fs_known S' = fs_known S @ staged" by auto
qed

section \<open>Cohorts\<close>

lemma admit_sources_ok:
  assumes "feature_ok S"
  shows "feature_ok (admit_sources d ex S)" "fs_known (admit_sources d ex S) = fs_known S"
    "fs_catalog (admit_sources d ex S) = fs_catalog S" "fs_emitted (admit_sources d ex S) = fs_emitted S"
    "fs_watermark (admit_sources d ex S) = fs_watermark S" "fs_late (admit_sources d ex S) = fs_late S"
proof -
  have ha: "histories_admitted S" and wk: "well_keyed S" using assms by (simp_all add: feature_ok_def)
  note f = admit_all_frame [OF ha, of "admission_candidates d ex S"]
  have "set (event_ids (admission_candidates d ex S)) \<subseteq> fst ` set (fs_known S)"
    using wk by (force simp: admission_candidates_def event_ids_def known_events_def well_keyed_def)
  with f assms show "feature_ok (admit_sources d ex S)"
    by (auto simp: admit_sources_def feature_ok_def well_keyed_def)
  from f show "fs_known (admit_sources d ex S) = fs_known S"
    "fs_catalog (admit_sources d ex S) = fs_catalog S" "fs_emitted (admit_sources d ex S) = fs_emitted S"
    "fs_watermark (admit_sources d ex S) = fs_watermark S" "fs_late (admit_sources d ex S) = fs_late S"
    by (simp_all add: admit_sources_def)
qed

lemma emitted_ok:
  "feature_ok S \<Longrightarrow> set ids \<subseteq> fst ` set (fs_known S) \<Longrightarrow>
    feature_ok (S\<lparr>fs_emitted := ids @ fs_emitted S, fs_watermark := w\<rparr>)"
  by (simp add: feature_ok_def well_keyed_def histories_admitted_def)

lemma known_event_ids:
  assumes "feature_ok S" "set batch \<subseteq> set (known_events S)"
  shows "set (event_ids batch) \<subseteq> fst ` set (fs_known S)"
proof
  fix i
  assume "i \<in> set (event_ids batch)"
  then obtain e where e: "e \<in> set batch" "i = ob_event_id e" by (auto simp: event_ids_def)
  with assms(2) obtain k where k: "(k, e) \<in> set (fs_known S)" by (auto simp: known_events_def)
  with assms(1) have "k = i" by (auto simp: feature_ok_def well_keyed_def e(2))
  with k show "i \<in> fst ` set (fs_known S)" by force
qed

text \<open>A vector of the state \<open>S\<close> for one of the events.\<close>

definition causal_vector :: "feature_state \<Rightarrow> observed set \<Rightarrow> feature_vector \<Rightarrow> bool" where
  "causal_vector S evs v \<longleftrightarrow>
     (\<exists>ev \<in> evs. fv_event_id v = ob_event_id ev \<and> opt_instant (ob_decision_at ev) = Some (instant (fv_decision_at v))) \<and>
     (\<forall>i \<in> set (fv_source_event_ids v). before S (instant (fv_decision_at v)) i) \<and>
     (distinct (catalog_names (fs_catalog S)) \<longrightarrow> map fst (fv_values v) = catalog_names (fs_catalog S) \<and>
        (\<forall>(n, x) \<in> set (fv_values v). is_finite x))"

lemma before_cong: "fs_known S' = fs_known S \<Longrightarrow> before S' t i = before S t i"
  by (simp add: before_def)

lemma mapr_in: "mapr f xs = Inr ys \<Longrightarrow> y \<in> set ys \<Longrightarrow> \<exists>x \<in> set xs. f x = Inr y"
  by (induction xs arbitrary: ys) (auto simp: bindr_Inr)

lemma process_cohort_step:
  assumes "ob_decision_at ev = Some d" "\<not> (case fs_watermark S of None \<Rightarrow> False | Some w \<Rightarrow> instant d \<le> instant w)"
    and "batch = ev # evs"
  shows "process_cohort M batch S = (let S1 = admit_sources d (event_ids batch) S in
    case mapr (compute_vector M d S1) batch of Inl e \<Rightarrow> (Inl e, S1)
    | Inr vs \<Rightarrow> (Inr vs, S1\<lparr>fs_emitted := event_ids batch @ fs_emitted S1, fs_watermark := Some d\<rparr>))"
  unfolding process_cohort_def assms(3) list.case using assms(1,2) by (simp del: mapr.simps)

lemma process_cohort_ok:
  assumes "process_cohort M batch S = (q, S')" "feature_ok S" "set batch \<subseteq> set (known_events S)"
    and "\<forall>e \<in> set batch. \<forall>e' \<in> set batch. same_decision e e'"
  shows "feature_ok S'" "fs_known S' = fs_known S" "fs_catalog S' = fs_catalog S"
    "q = Inr vs \<Longrightarrow> v \<in> set vs \<Longrightarrow> causal_vector S (set batch) v"
    "q = Inr vs \<Longrightarrow> map fv_event_id vs = event_ids batch \<and> fs_emitted S' = event_ids batch @ fs_emitted S"
proof -
  have "feature_ok S' \<and> fs_known S' = fs_known S \<and> fs_catalog S' = fs_catalog S \<and>
    (\<forall>vs. q = Inr vs \<longrightarrow> (\<forall>v \<in> set vs. causal_vector S (set batch) v) \<and>
       map fv_event_id vs = event_ids batch \<and> fs_emitted S' = event_ids batch @ fs_emitted S)"
  proof (cases batch)
    case Nil
    with assms(1,2) show ?thesis by (auto simp: process_cohort_def event_ids_def)
  next
    case (Cons ev evs)
    show ?thesis
    proof (cases "\<exists>d. ob_decision_at ev = Some d \<and>
        \<not> (case fs_watermark S of None \<Rightarrow> False | Some w \<Rightarrow> instant d \<le> instant w)")
      case False
      with assms(1,2) Cons show ?thesis
        by (auto simp: process_cohort_def split: option.splits if_splits)
    next
      case True
      then obtain d where d: "ob_decision_at ev = Some d"
        "\<not> (case fs_watermark S of None \<Rightarrow> False | Some w \<Rightarrow> instant d \<le> instant w)" by blast
      define S1 where "S1 = admit_sources d (event_ids batch) S"
      note S1 = admit_sources_ok [OF assms(2), of d "event_ids batch", folded S1_def]
      have run: "(q, S') = (case mapr (compute_vector M d S1) batch of Inl e \<Rightarrow> (Inl e, S1)
          | Inr vs \<Rightarrow> (Inr vs, S1\<lparr>fs_emitted := event_ids batch @ fs_emitted S1, fs_watermark := Some d\<rparr>))"
        using assms(1) process_cohort_step [OF d Cons, of M, unfolded Let_def, folded S1_def] by simp
      show ?thesis
      proof (cases "mapr (compute_vector M d S1) batch")
        case (Inl e)
        with run S1 show ?thesis by simp
      next
        case (Inr vs)
        have "set (event_ids batch) \<subseteq> fst ` set (fs_known S1)"
          unfolding S1(2) by (rule known_event_ids [OF assms(2,3)])
        from emitted_ok [OF S1(1) this]
        have "feature_ok (S1\<lparr>fs_emitted := event_ids batch @ fs_emitted S1, fs_watermark := Some d\<rparr>)" .
        moreover have q: "q = Inr vs" "S' = S1\<lparr>fs_emitted := event_ids batch @ fs_emitted S1, fs_watermark := Some d\<rparr>"
          using run unfolding Inr by simp_all
        ultimately have "feature_ok S'" by (simp only:)
        moreover have "causal_vector S (set batch) v" if "v \<in> set vs" for v
        proof -
          from mapr_in [OF Inr that] obtain e where e: "e \<in> set batch" "compute_vector M d S1 e = Inr v" by blast
          have "opt_instant (ob_decision_at e) = Some (instant d)"
            using assms(4) e(1) Cons d(1) by (auto simp: same_decision_def opt_instant_def)
          with compute_vector_facts [OF e(2) S1(1)] e(1) show ?thesis
            by (auto simp: causal_vector_def S1(3) before_cong [OF S1(2)])
        qed
        moreover have "map fv_event_id vs = event_ids batch"
          using Inr
        proof (induction batch arbitrary: vs)
          case (Cons e es)
          then show ?case using compute_vector_facts(1) [OF _ S1(1)] by (auto simp: bindr_Inr event_ids_def)
        qed (simp add: event_ids_def)
        ultimately show ?thesis using q S1(2-4) by simp
      qed
    qed
  qed
  then show "feature_ok S'" "fs_known S' = fs_known S" "fs_catalog S' = fs_catalog S"
    "q = Inr vs \<Longrightarrow> v \<in> set vs \<Longrightarrow> causal_vector S (set batch) v"
    "q = Inr vs \<Longrightarrow> map fv_event_id vs = event_ids batch \<and> fs_emitted S' = event_ids batch @ fs_emitted S" by auto
qed

lemma causal_vector_cong:
  "fs_known S' = fs_known S \<Longrightarrow> fs_catalog S' = fs_catalog S \<Longrightarrow> causal_vector S' evs v = causal_vector S evs v"
  by (simp add: causal_vector_def before_def)

lemma causal_vector_mono: "causal_vector S evs v \<Longrightarrow> evs \<subseteq> evs' \<Longrightarrow> causal_vector S evs' v"
  by (auto simp: causal_vector_def)

lemma process_cohorts_ok:
  assumes "process_cohorts M batches S = (q, S')" "feature_ok S"
    and "\<forall>batch \<in> set batches. set batch \<subseteq> set (known_events S) \<and>
      (\<forall>e \<in> set batch. \<forall>e' \<in> set batch. same_decision e e')"
  shows "feature_ok S' \<and> fs_known S' = fs_known S \<and> fs_catalog S' = fs_catalog S \<and>
    (\<forall>vs. q = Inr vs \<longrightarrow> (\<forall>v \<in> set vs. causal_vector S (set (concat batches)) v) \<and>
       map fv_event_id vs = event_ids (concat batches) \<and>
       set (fs_emitted S') = set (event_ids (concat batches)) \<union> set (fs_emitted S))"
  using assms
proof (induction batches arbitrary: S q S')
  case Nil
  then show ?case by (auto simp: event_ids_def)
next
  case (Cons batch batches)
  obtain x S1 where x: "process_cohort M batch S = (x, S1)" by fastforce
  from Cons.prems(3) have b: "set batch \<subseteq> set (known_events S)"
    "\<forall>e \<in> set batch. \<forall>e' \<in> set batch. same_decision e e'" by auto
  note S1 = process_cohort_ok [OF x Cons.prems(2) b]
  show ?case
  proof (cases x)
    case (Inl e)
    with Cons.prems(1) x S1 show ?thesis by (auto simp: bindm_def)
  next
    case (Inr vs)
    obtain y S2 where y: "process_cohorts M batches S1 = (y, S2)" by fastforce
    have "\<forall>batch \<in> set batches. set batch \<subseteq> set (known_events S1) \<and>
        (\<forall>e \<in> set batch. \<forall>e' \<in> set batch. same_decision e e')"
      using Cons.prems(3) S1(2) by (simp add: known_events_def)
    from Cons.IH [OF y S1(1) this] have IH: "feature_ok S2" "fs_known S2 = fs_known S" "fs_catalog S2 = fs_catalog S"
      "\<forall>ws. y = Inr ws \<longrightarrow> (\<forall>v \<in> set ws. causal_vector S (set (concat batches)) v) \<and>
         map fv_event_id ws = event_ids (concat batches) \<and>
         set (fs_emitted S2) = set (event_ids (concat batches)) \<union> set (fs_emitted S1)"
      by (simp_all add: causal_vector_cong [OF S1(2,3)] S1(2,3))
    have run: "(q, S') = (case y of Inl e \<Rightarrow> (Inl e, S2) | Inr ws \<Rightarrow> (Inr (vs @ ws), S2))"
      using Cons.prems(1) x Inr y by (auto simp: bindm_def split: sum.splits)
    show ?thesis
    proof (cases y)
      case (Inl e)
      with run IH show ?thesis by simp
    next
      case y': (Inr ws)
      have "causal_vector S (set (concat (batch # batches))) v" if "v \<in> set vs \<or> v \<in> set ws" for v
        using that S1(4) [OF Inr] IH(4) y' by (auto intro: causal_vector_mono)
      with run y' IH S1(5) [OF Inr] show ?thesis by (auto simp: event_ids_def)
    qed
  qed
qed

lemma cohorts_concat [simp]: "concat (cohorts es) = es"
  by (induction es rule: cohorts.induct) auto

lemma cohorts_same: "batch \<in> set (cohorts es) \<Longrightarrow> e \<in> set batch \<Longrightarrow> e' \<in> set batch \<Longrightarrow> same_decision e e'"
proof (induction es rule: cohorts.induct)
  case (2 x es)
  then consider "batch = x # takeWhile (same_decision x) es" | "batch \<in> set (cohorts (dropWhile (same_decision x) es))"
    by auto
  then show ?case
  proof cases
    case 1
    with 2(3,4) show ?thesis by (auto simp: same_decision_def dest!: set_takeWhileD)
  qed (use 2 in auto)
qed simp

lemma pending_known: "set (pending_decisions S) \<subseteq> set (known_events S)"
  by (auto simp: pending_decisions_def)

lemma process_features_ok:
  assumes "process_features M events S = (q, S')" "feature_ok S"
  shows "feature_ok S'" "fs_catalog S' = fs_catalog S" "\<exists>staged. fs_known S' = fs_known S @ staged"
    "q = Inr vs \<Longrightarrow> v \<in> set vs \<Longrightarrow> causal_vector S' (set (known_events S')) v"
    "q = Inr vs \<Longrightarrow> \<exists>S1. S1 = snd (remember events S) \<and> map fv_event_id vs = event_ids (pending_decisions S1) \<and>
       set (fs_emitted S') = set (event_ids (pending_decisions S1)) \<union> set (fs_emitted S)"
proof -
  obtain x S1 where x: "remember events S = (x, S1)" by fastforce
  note S1 = remember_ok [OF assms(2) x]
  have "feature_ok S' \<and> fs_catalog S' = fs_catalog S \<and> (\<exists>staged. fs_known S' = fs_known S @ staged) \<and>
    (\<forall>vs. q = Inr vs \<longrightarrow> (\<forall>v \<in> set vs. causal_vector S' (set (known_events S')) v) \<and>
       map fv_event_id vs = event_ids (pending_decisions S1) \<and>
       set (fs_emitted S') = set (event_ids (pending_decisions S1)) \<union> set (fs_emitted S))"
  proof (cases "\<exists>u. x = Inr u \<and> \<not> list_ex (\<lambda>ev. ob_decision_at ev = None) (pending_decisions S1)")
    case False
    with assms(1) x S1 show ?thesis by (cases x) (auto simp: process_features_def bindm_def split: if_splits)
  next
    case True
    with assms(1) x have run: "process_cohorts M (cohorts (pending_decisions S1)) S1 = (q, S')"
      by (auto simp: process_features_def bindm_def)
    have "\<forall>batch \<in> set (cohorts (pending_decisions S1)). set batch \<subseteq> set (known_events S1) \<and>
        (\<forall>e \<in> set batch. \<forall>e' \<in> set batch. same_decision e e')"
      using cohorts_same pending_known [of S1] cohorts_concat [of "pending_decisions S1"]
      by (metis (no_types, lifting) concat.simps(2) set_append set_concat Union_upper image_eqI order_trans)
    from process_cohorts_ok [OF run S1(1) this] S1 pending_known [of S1] show ?thesis
      by (auto simp: causal_vector_cong [of S' S1] known_events_def dest!: causal_vector_mono)
  qed
  then show "feature_ok S'" "fs_catalog S' = fs_catalog S" "\<exists>staged. fs_known S' = fs_known S @ staged"
    "q = Inr vs \<Longrightarrow> v \<in> set vs \<Longrightarrow> causal_vector S' (set (known_events S')) v"
    "q = Inr vs \<Longrightarrow> \<exists>S1. S1 = snd (remember events S) \<and> map fv_event_id vs = event_ids (pending_decisions S1) \<and>
       set (fs_emitted S') = set (event_ids (pending_decisions S1)) \<union> set (fs_emitted S)"
    using x by auto
qed

end
