(* ===== verification/FeatureTotal.thy ===== *)
theory FeatureTotal
  imports FeatureRuns
begin

text \<open>
  When a call of \<open>process\<close> cannot fail: on observations with UTC times and an amount \<open>math.log1p\<close>
  takes, once they are remembered, every pending decision gets its vector.
\<close>

section \<open>Observations and states\<close>

definition utc_time :: "datetime \<Rightarrow> bool" where
  "utc_time d \<longleftrightarrow> validate_utc_timestamp d = Inr d"

definition observable :: "observed \<Rightarrow> bool" where
  "observable ev \<longleftrightarrow> utc_time (ob_available_at ev) \<and> pred_option utc_time (ob_decision_at ev) \<and> log_domain ev"

definition held_before :: "feature_state \<Rightarrow> int \<Rightarrow> bool" where
  "held_before S t \<longleftrightarrow> (\<forall>i \<in> set (fs_admitted S) \<union> set (fs_late S). before S t i)"

definition closed_before :: "feature_state \<Rightarrow> int \<Rightarrow> bool" where
  "closed_before S t \<longleftrightarrow> (\<forall>w. fs_watermark S = Some w \<longrightarrow> instant w < t)"

definition timely :: "feature_state \<Rightarrow> bool" where
  "timely S \<longleftrightarrow> (case fs_watermark S of
       None \<Rightarrow> fs_admitted S = [] \<and> fs_late S = [] | Some w \<Rightarrow> held_before S (instant w))"

definition settled :: "feature_state \<Rightarrow> bool" where
  "settled S \<longleftrightarrow> pending_decisions S = []"

definition executable :: "feature_catalog \<Rightarrow> bool" where
  "executable c \<longleftrightarrow> set (catalog_names c) \<subseteq> set expected_feature_names"

definition all_observable :: "feature_state \<Rightarrow> bool" where
  "all_observable S \<longleftrightarrow> (\<forall>ev \<in> set (known_events S). observable ev)"

lemma before_mono: "before S t i \<Longrightarrow> t \<le> t' \<Longrightarrow> before S t' i"
  by (auto simp: before_def)

lemma timely_held: "timely S \<Longrightarrow> closed_before S t \<Longrightarrow> held_before S t"
  by (auto simp: timely_def held_before_def closed_before_def split: option.splits intro: before_mono)

section \<open>Vectors\<close>

lemma feature_table_names: "map fst (feature_table M) = expected_feature_names"
  by (simp add: feature_table_def transaction_features_def temporal_features_def entity_features_def
      graph_features_def quality_features_def expected_feature_names_def)

lemma derive_total:
  assumes "fd_name d \<in> set expected_feature_names" "log_domain ev"
  shows "\<exists>r. derive_feature M S ev d = Inr r"
proof -
  from assms(1) have "fd_name d \<in> fst ` set (feature_table M)"
    using feature_table_names [of M] by (metis set_map)
  then obtain f where "map_of (feature_table M) (fd_name d) = Some f"
    by (metis map_of_eq_None_iff option.exhaust)
  then show ?thesis using assms(2) by (simp add: derive_feature_def split: prod.split)
qed

lemma latest_in: "latest ds = Some m \<Longrightarrow> m \<in> set ds"
proof -
  have "foldl (\<lambda>m x. if instant m < instant x then x else m) y ys \<in> insert y (set ys)" for y and ys :: "datetime list"
    by (induction ys arbitrary: y) auto
  then show "latest ds = Some m \<Longrightarrow> m \<in> set ds" by (cases ds) fastforce+
qed

lemma compute_total:
  assumes ok: "feature_ok S" "all_observable S" "executable (fs_catalog S)"
    and "held_before S (instant d)" "utc_time d" "log_domain ev"
  shows "\<exists>v. compute_vector M d S ev = Inr v"
proof -
  let ?f = "\<lambda>d. bindr (derive_feature M S ev d) (\<lambda>(v, sources). Inr ((fd_name d, v), sources))"
  have "\<exists>y. ?f x = Inr y" if "x \<in> set (fc_features (fs_catalog S))" for x
  proof -
    have "fd_name x \<in> set expected_feature_names" using ok(3) that by (auto simp: executable_def catalog_names_def)
    from derive_total [OF this assms(6), of M S] obtain w sources where "derive_feature M S ev x = Inr (w, sources)"
      by (metis prod.exhaust)
    then show ?thesis by simp
  qed
  then obtain rows where rows: "mapr ?f (fc_features (fs_catalog S)) = Inr rows" using mapr_total [of _ ?f] by blast
  define ids where "ids = sort (remdups (concat (map snd rows)))"
  have wk: "well_keyed S" and ha: "histories_admitted S" using ok(1) by (simp_all add: feature_ok_def)
  have "set (snd r) \<subseteq> set (fs_admitted S) \<union> set (fs_late S)" if "r \<in> set rows" for r
  proof -
    from mapr_in [OF rows that] obtain x where "?f x = Inr r" by blast
    then obtain w sources where "derive_feature M S ev x = Inr (w, sources)" "r = ((fd_name x, w), sources)"
      by (auto simp: bindr_Inr)
    with derive_sources(1) [OF this(1) wk ha] show ?thesis by simp
  qed
  then have ids: "set ids \<subseteq> set (fs_admitted S) \<union> set (fs_late S)" by (auto simp: ids_def)
  have max: "instant m < instant d \<and> utc_time m"
    if "latest (map ob_available_at (lookup_known S ids)) = Some m" for m
  proof -
    from latest_in [OF that] obtain i e where e: "i \<in> set ids" "map_of (fs_known S) i = Some e" "m = ob_available_at e"
      by (auto simp: lookup_known_def List.map_filter_def)
    with ids assms(4) have "before S (instant d) i" by (auto simp: held_before_def)
    moreover have "e \<in> set (known_events S)" using map_of_SomeD [OF e(2)] by (force simp: known_events_def)
    ultimately show ?thesis using e ok(2) by (auto simp: before_def all_observable_def observable_def)
  qed
  show ?thesis
    using max assms(5) unfolding compute_vector_def rows bindr_simps Let_def ids_def [symmetric]
    by (auto simp: feature_vector_valid_def utc_time_def optional_def split: option.splits)
qed

section \<open>Cohorts\<close>

lemma admit_timed:
  assumes "feature_ok S" "held_before S (instant d)"
  shows "held_before (admit_sources d ex S) (instant d)"
proof -
  have ha: "histories_admitted S" and wk: "well_keyed S" using assms(1) by (simp_all add: feature_ok_def)
  note f = admit_all_frame [OF ha, of "admission_candidates d ex S"]
  have new: "before S (instant d) (ob_event_id e)" if "e \<in> set (admission_candidates d ex S)" for e
  proof -
    from that have "e \<in> set (known_events S)" "instant (ob_available_at e) < instant d"
      by (simp_all add: admission_candidates_def)
    with known_lookup [OF wk this(1)] show ?thesis by (simp add: before_def)
  qed
  have b: "before (admit_sources d ex S) t i = before S t i" for t i
    using f by (simp add: admit_sources_def before_def)
  from f assms(2) new show ?thesis
    by (auto simp: held_before_def b) (auto simp: admit_sources_def event_ids_def)
qed

lemma observable_cong: "fs_known S' = fs_known S \<Longrightarrow> all_observable S' = all_observable S"
  by (simp add: all_observable_def known_events_def)

lemma process_cohort_total:
  assumes ok: "feature_ok S" "all_observable S" "executable (fs_catalog S)" "timely S"
    and batch: "batch \<noteq> []" "set batch \<subseteq> set (known_events S)" "closed_before S t"
      "\<forall>e \<in> set batch. opt_instant (ob_decision_at e) = Some t"
  obtains vs S' where "process_cohort M batch S = (Inr vs, S')" "timely S'"
    "opt_instant (fs_watermark S') = Some t"
proof -
  obtain ev evs where b: "batch = ev # evs" using batch(1) by (cases batch) auto
  then obtain d where d: "ob_decision_at ev = Some d" "instant d = t"
    using batch(4) by (auto simp: opt_instant_def)
  have open_d: "\<not> (case fs_watermark S of None \<Rightarrow> False | Some w \<Rightarrow> instant d \<le> instant w)"
    using batch(3) d(2) by (auto simp: closed_before_def split: option.splits)
  define S1 where "S1 = admit_sources d (event_ids batch) S"
  note S1 = admit_sources_ok [OF ok(1), of d "event_ids batch", folded S1_def]
  have held: "held_before S1 (instant d)"
    unfolding S1_def using timely_held [OF ok(4) batch(3)] d(2) by (intro admit_timed ok) simp
  have obs: "observable e" if "e \<in> set batch" for e using ok(2) batch(2) that by (auto simp: all_observable_def)
  have "utc_time d" using obs [of ev] b d(1) by (simp add: observable_def)
  then have "\<exists>v. compute_vector M d S1 e = Inr v" if "e \<in> set batch" for e
    using obs [OF that] by (intro compute_total S1(1) held) (simp_all only: S1(3) ok(2,3) observable_cong [OF S1(2)] observable_def)
  then obtain vs where vs: "mapr (compute_vector M d S1) batch = Inr vs"
    using mapr_total [of batch "compute_vector M d S1"] by blast
  show thesis
  proof (rule that)
    show "process_cohort M batch S = (Inr vs, S1\<lparr>fs_emitted := event_ids batch @ fs_emitted S1, fs_watermark := Some d\<rparr>)"
      using process_cohort_step [OF d(1) open_d b, of M] vs by (simp add: S1_def Let_def)
    show "timely (S1\<lparr>fs_emitted := event_ids batch @ fs_emitted S1, fs_watermark := Some d\<rparr>)"
      using held by (simp add: timely_def held_before_def before_def)
  qed (simp add: opt_instant_def d(2))
qed

text \<open>Batches with one decision time each, each later than the last.\<close>

fun rising :: "int option \<Rightarrow> observed list list \<Rightarrow> bool" where
  "rising w [] \<longleftrightarrow> True"
| "rising w (batch # batches) \<longleftrightarrow> batch \<noteq> [] \<and> (\<exists>t. (\<forall>e \<in> set batch. opt_instant (ob_decision_at e) = Some t) \<and>
     (\<forall>x. w = Some x \<longrightarrow> x < t) \<and> rising (Some t) batches)"

lemma process_cohorts_total:
  assumes "feature_ok S" "all_observable S" "executable (fs_catalog S)" "timely S"
    and "rising (opt_instant (fs_watermark S)) batches" "\<forall>batch \<in> set batches. set batch \<subseteq> set (known_events S)"
  shows "\<exists>vs S'. process_cohorts M batches S = (Inr vs, S') \<and> timely S'"
  using assms
proof (induction batches arbitrary: S)
  case (Cons batch batches)
  from Cons.prems(5) obtain t where t: "batch \<noteq> []" "\<forall>e \<in> set batch. opt_instant (ob_decision_at e) = Some t"
    "closed_before S t" "rising (Some t) batches"
    by (auto simp: closed_before_def opt_instant_def)
  have b: "set batch \<subseteq> set (known_events S)" using Cons.prems(6) by simp
  obtain vs S1 where S1: "process_cohort M batch S = (Inr vs, S1)" "timely S1" "opt_instant (fs_watermark S1) = Some t"
    using process_cohort_total [OF Cons.prems(1-4) t(1) b t(3,2)] by blast
  have same: "\<forall>e \<in> set batch. \<forall>e' \<in> set batch. same_decision e e'" using t(2) by (simp add: same_decision_def)
  note ok = process_cohort_ok(1-3) [OF S1(1) Cons.prems(1) b same]
  have "\<forall>b \<in> set batches. set b \<subseteq> set (known_events S1)"
    using Cons.prems(6) ok(2) by (simp add: known_events_def)
  then have "\<exists>ws S'. process_cohorts M batches S1 = (Inr ws, S') \<and> timely S'"
    using ok(1) S1(2) t(4) Cons.prems(2,3)
    by (intro Cons.IH) (simp_all only: S1(3) ok(3) observable_cong [OF ok(2)])
  then obtain ws S' where "process_cohorts M batches S1 = (Inr ws, S')" "timely S'" by blast
  with S1(1) show ?case by (auto simp: bindm_def)
qed simp

lemma cohorts_rising:
  assumes "sorted (map decision_key es)" "\<forall>e \<in> set es. \<exists>d. ob_decision_at e = Some d \<and> (\<forall>x. w = Some x \<longrightarrow> x < instant d)"
  shows "rising w (cohorts es)"
  using assms
proof (induction es arbitrary: w rule: cohorts.induct)
  case (2 e es)
  from 2(3) obtain d where d: "ob_decision_at e = Some d" "\<forall>x. w = Some x \<longrightarrow> x < instant d" by auto
  define rest where "rest = dropWhile (same_decision e) es"
  have srt: "sorted (map decision_key rest)"
    using 2(2) unfolding rest_def dropWhile_eq_drop by (simp add: drop_map [symmetric])
  have later: "\<exists>d'. ob_decision_at x = Some d' \<and> (\<forall>y. Some (instant d) = Some y \<longrightarrow> y < instant d')" if "x \<in> set rest" for x
  proof -
    have "rest \<noteq> []" using that by (auto simp only: list.set)
    then obtain r rs where r: "rest = r # rs" unfolding neq_Nil_conv by (elim exE)
    have "dropWhile (same_decision e) es \<noteq> []" using r by (simp add: rest_def)
    from hd_dropWhile [OF this] r have ns: "\<not> same_decision e r" by (simp add: rest_def [symmetric])
    have "set rest \<subseteq> set es" unfolding rest_def by (auto dest: set_dropWhileD)
    then have mem: "x \<in> set es" "r \<in> set es" using that r by auto
    from 2(3) mem obtain dr dx where dr: "ob_decision_at r = Some dr" "ob_decision_at x = Some dx"
      by (meson list.set_intros(2))
    with ns d(1) have "instant dr \<noteq> instant d" by (simp add: same_decision_def opt_instant_def)
    note dr = dr(1) this dr(2)
    have "decision_key e \<le> decision_key r" using 2(2) mem by simp
    then have "instant d \<le> instant dr" using d(1) dr(1) by (auto simp: decision_key_def)
    moreover have "decision_key r \<le> decision_key x" using srt that r by auto
    then have "instant dr \<le> instant dx" using dr by (auto simp: decision_key_def)
    ultimately show ?thesis using dr by simp
  qed
  have "rising (Some (instant d)) (cohorts rest)"
    by (rule 2(1) [folded rest_def]) (use srt later in auto)
  moreover have "opt_instant (ob_decision_at x) = Some (instant d)" if "same_decision e x" for x
    using that d(1) by (simp add: same_decision_def opt_instant_def)
  then have "\<forall>x \<in> set (e # takeWhile (same_decision e) es). opt_instant (ob_decision_at x) = Some (instant d)"
    using d(1) by (auto simp: opt_instant_def dest!: set_takeWhileD)
  ultimately show ?case using d(2) by (auto simp: rest_def)
qed simp

end
