(* ===== verification/FeatureSplit.thy ===== *)
theory FeatureSplit
  imports FeatureTotal
begin

text \<open>
  A cohort is blind to observations that become available only with its decision or later: the known
  observations may grow by them without any vector or admission changing. So processing a stream in
  two parts is processing it at once.
\<close>

section \<open>Growing what is known\<close>

definition grow :: "(string \<times> observed) list \<Rightarrow> feature_state \<Rightarrow> feature_state" where
  "grow new S = S\<lparr>fs_known := fs_known S @ new\<rparr>"

lemma grow_simps [simp]:
  "fs_catalog (grow new S) = fs_catalog S" "fs_catalog_digest (grow new S) = fs_catalog_digest S"
  "fs_known (grow new S) = fs_known S @ new" "fs_admitted (grow new S) = fs_admitted S"
  "fs_emitted (grow new S) = fs_emitted S" "fs_late (grow new S) = fs_late S"
  "fs_late_marks (grow new S) = fs_late_marks S" "fs_openings (grow new S) = fs_openings S"
  "fs_watermark (grow new S) = fs_watermark S" "fs_actor (grow new S) = fs_actor S"
  "fs_counterparty (grow new S) = fs_counterparty S" "fs_pair (grow new S) = fs_pair S"
  "fs_outcome (grow new S) = fs_outcome S" "fs_actor_amount (grow new S) = fs_actor_amount S"
  "fs_counterparty_amount (grow new S) = fs_counterparty_amount S" "fs_edges (grow new S) = fs_edges S"
  by (simp_all add: grow_def)

lemma lookup_known_grow:
  assumes "set ids \<subseteq> fst ` set (fs_known S)"
  shows "lookup_known (grow new S) ids = lookup_known S ids"
proof -
  have "map_of (fs_known S @ new) i = map_of (fs_known S) i" if "i \<in> set ids" for i
  proof -
    from assms that obtain e where "map_of (fs_known S) i = Some e"
      by (metis (no_types) in_mono map_of_eq_None_iff not_None_eq)
    then show ?thesis by (simp add: map_add_Some_iff)
  qed
  then show ?thesis unfolding lookup_known_def by (induction ids) (simp_all add: map_filter_simps split: option.split)
qed

lemma feature_grow:
  assumes "(n, f) \<in> set (feature_table M)" "feature_ok S"
  shows "f (grow new S) ev = f S ev"
proof -
  have known: "set (fs_admitted S) \<subseteq> fst ` set (fs_known S)" "set (fs_late S) \<subseteq> fst ` set (fs_known S)"
    "\<And>k. set (history (fs_actor S) k) \<subseteq> fst ` set (fs_known S)"
    "\<And>k. set (history (fs_counterparty S) k) \<subseteq> fst ` set (fs_known S)"
    "\<And>k. set (history (fs_pair S) k) \<subseteq> fst ` set (fs_known S)"
    "\<And>k. set (history (fs_actor_amount S) k) \<subseteq> fst ` set (fs_known S)"
    "\<And>k. set (history (fs_counterparty_amount S) k) \<subseteq> fst ` set (fs_known S)"
    using assms(2) unfolding feature_ok_def histories_admitted_def by blast+
  have sel: "selected (grow new S) ev ids w ks = selected S ev ids w ks" if "set ids \<subseteq> fst ` set (fs_known S)" for ids w ks
    by (simp add: selected_def lookup_known_grow [OF that])
  note evals = actor_events_def counterparty_events_def pair_events_def actor_amount_events_def
    counterparty_amount_events_def admitted_events_def late_events_def graph_edges_def plain_def
    actor_outcomes_def sel known
  from assms(1) consider "(n, f) \<in> set (transaction_features M)" | "(n, f) \<in> set temporal_features"
    | "(n, f) \<in> set (entity_features M)" | "(n, f) \<in> set graph_features" | "(n, f) \<in> set quality_features"
    by (auto simp: feature_table_def)
  then show ?thesis
  proof cases
    case 1
    then show ?thesis by (auto simp: transaction_features_def plain_def)
  next
    case 2
    then show ?thesis
      unfolding temporal_features_def list.set insert_iff empty_iff prod.inject
      by (elim disjE conjE FalseE; hypsubst; simp add: evals)
  next
    case 3
    then show ?thesis
      unfolding entity_features_def list.set insert_iff empty_iff prod.inject
      by (elim disjE conjE FalseE; hypsubst; simp add: evals)
  next
    case 4
    then show ?thesis
      unfolding graph_features_def list.set insert_iff empty_iff prod.inject
      by (elim disjE conjE FalseE; hypsubst; simp add: evals)
  next
    case 5
    then show ?thesis
      unfolding quality_features_def list.set insert_iff empty_iff prod.inject
      by (elim disjE conjE FalseE; hypsubst; simp add: evals)
  qed
qed

lemma derive_grow:
  assumes "feature_ok S"
  shows "derive_feature M (grow new S) ev d = derive_feature M S ev d"
proof (cases "map_of (feature_table M) (fd_name d)")
  case (Some f)
  with feature_grow [OF map_of_SomeD [OF Some] assms] show ?thesis by (simp add: derive_feature_def)
qed (simp add: derive_feature_def)

lemma compute_grow:
  assumes "feature_ok S"
  shows "compute_vector M d (grow new S) ev = compute_vector M d S ev"
proof -
  let ?f = "\<lambda>d. bindr (derive_feature M S ev d) (\<lambda>(v, sources). Inr ((fd_name d, v), sources))"
  have wk: "well_keyed S" and ha: "histories_admitted S" using assms by (simp_all add: feature_ok_def)
  have "lookup_known (grow new S) (sort (remdups (concat (map snd rows)))) = lookup_known S (sort (remdups (concat (map snd rows))))"
    if rows: "mapr ?f (fc_features (fs_catalog S)) = Inr rows" for rows
  proof (rule lookup_known_grow)
    have "set (snd r) \<subseteq> fst ` set (fs_known S)" if r: "r \<in> set rows" for r
    proof -
      from mapr_in [OF rows r] obtain x where "?f x = Inr r" by blast
      then obtain w sources where "derive_feature M S ev x = Inr (w, sources)" "r = ((fd_name x, w), sources)"
        by (auto simp: bindr_Inr)
      with derive_sources(1) [OF this(1) wk ha] assms show ?thesis unfolding feature_ok_def by auto
    qed
    then show "set (sort (remdups (concat (map snd rows)))) \<subseteq> fst ` set (fs_known S)" by (simp add: UN_subset_iff)
  qed
  then show ?thesis
    unfolding compute_vector_def derive_grow [OF assms] grow_simps
    by (cases "mapr ?f (fc_features (fs_catalog S))") (simp_all add: Let_def)
qed

lemma admit_event_grow: "admit_event (grow new S) ev = grow new (admit_event S ev)"
  by (simp add: admit_event_def Let_def grow_def)

lemma admit_all_grow: "foldl admit_event (grow new S) evs = grow new (foldl admit_event S evs)"
  by (induction evs arbitrary: S) (simp_all add: admit_event_grow)

lemma admit_sources_grow:
  assumes "\<forall>(i, e) \<in> set new. instant d \<le> instant (ob_available_at e)"
  shows "admit_sources d ex (grow new S) = grow new (admit_sources d ex S)"
proof -
  have "filter (\<lambda>ev. ob_event_id ev \<notin> set (fs_admitted S) \<and> ob_event_id ev \<notin> set ex \<and>
      instant (ob_available_at ev) < instant d) (map snd new) = []"
    using assms by (force simp: filter_empty_conv)
  then have "admission_candidates d ex (grow new S) = admission_candidates d ex S"
    by (simp add: admission_candidates_def known_events_def)
  then show ?thesis by (simp add: admit_sources_def admit_all_grow)
qed

lemma process_cohort_grow:
  assumes "process_cohort M batch S = (Inr vs, S')" "feature_ok S"
    and "\<forall>(i, e) \<in> set new. \<forall>b \<in> set batch. \<forall>d. ob_decision_at b = Some d \<longrightarrow> instant d \<le> instant (ob_available_at e)"
  shows "process_cohort M batch (grow new S) = (Inr vs, grow new S')"
proof (cases batch)
  case Nil
  with assms(1) show ?thesis by (simp add: process_cohort_def)
next
  case (Cons ev evs)
  from assms(1) Cons obtain d where d: "ob_decision_at ev = Some d"
    and w: "\<not> (case fs_watermark S of None \<Rightarrow> False | Some w \<Rightarrow> instant d \<le> instant w)"
    by (auto simp: process_cohort_def split: option.splits if_splits)
  define S1 where "S1 = admit_sources d (event_ids batch) S"
  have ok: "feature_ok S1" unfolding S1_def by (rule admit_sources_ok(1) [OF assms(2)])
  have "\<forall>(i, e) \<in> set new. instant d \<le> instant (ob_available_at e)" using assms(3) Cons d by auto
  then have S1: "admit_sources d (event_ids batch) (grow new S) = grow new S1"
    by (simp add: admit_sources_grow S1_def)
  from assms(1) process_cohort_step [OF d w Cons, of M] have
    "mapr (compute_vector M d S1) batch = Inr vs" "S' = S1\<lparr>fs_emitted := event_ids batch @ fs_emitted S1, fs_watermark := Some d\<rparr>"
    by (auto simp: S1_def Let_def split: sum.splits)
  moreover have "compute_vector M d (grow new S1) = compute_vector M d S1"
    by (rule ext) (rule compute_grow [OF ok])
  moreover have "grow new (S1\<lparr>fs_emitted := event_ids batch @ fs_emitted S1, fs_watermark := Some d\<rparr>) =
      (grow new S1)\<lparr>fs_emitted := event_ids batch @ fs_emitted S1, fs_watermark := Some d\<rparr>"
    by (simp add: grow_def)
  ultimately show ?thesis
    using process_cohort_step [of ev d "grow new S", OF d _ Cons, of M] w
    by (simp add: Let_def S1)
qed

lemma process_cohorts_grow:
  assumes "process_cohorts M batches S = (Inr vs, S')" "feature_ok S"
    and "\<forall>batch \<in> set batches. set batch \<subseteq> set (known_events S) \<and>
      (\<forall>e \<in> set batch. \<forall>e' \<in> set batch. same_decision e e')"
    and "\<forall>(i, e) \<in> set new. \<forall>batch \<in> set batches. \<forall>b \<in> set batch. \<forall>d. ob_decision_at b = Some d \<longrightarrow>
      instant d \<le> instant (ob_available_at e)"
  shows "process_cohorts M batches (grow new S) = (Inr vs, grow new S')"
  using assms
proof (induction batches arbitrary: S vs)
  case (Cons batch batches)
  from Cons.prems(1) obtain vs1 S1 vs2 where run: "process_cohort M batch S = (Inr vs1, S1)"
    "process_cohorts M batches S1 = (Inr vs2, S')" "vs = vs1 @ vs2"
    by (auto simp: res_simps)
  have b: "set batch \<subseteq> set (known_events S)" "\<forall>e \<in> set batch. \<forall>e' \<in> set batch. same_decision e e'"
    using Cons.prems(3) by simp_all
  note ok = process_cohort_ok(1-3) [OF run(1) Cons.prems(2) b]
  have g: "\<forall>(i, e) \<in> set new. \<forall>b \<in> set batch. \<forall>d. ob_decision_at b = Some d \<longrightarrow> instant d \<le> instant (ob_available_at e)"
    using Cons.prems(4) by auto
  have rest: "\<forall>b \<in> set batches. set b \<subseteq> set (known_events S1) \<and> (\<forall>e \<in> set b. \<forall>e' \<in> set b. same_decision e e')"
    using Cons.prems(3) ok(2) by (simp add: known_events_def)
  have g': "\<forall>(i, e) \<in> set new. \<forall>batch \<in> set batches. \<forall>b \<in> set batch. \<forall>d. ob_decision_at b = Some d \<longrightarrow>
      instant d \<le> instant (ob_available_at e)"
    using Cons.prems(4) by auto
  from process_cohort_grow [OF run(1) Cons.prems(2) g] Cons.IH [OF run(2) ok(1) rest g']
  show ?case by (simp add: bindm_def run(3))
qed simp

section \<open>Cohorts of a stream in two parts\<close>

lemma process_cohorts_append:
  "process_cohorts M (bs @ cs) = bindm (process_cohorts M bs) (\<lambda>vs. bindm (process_cohorts M cs) (\<lambda>ws. ret (vs @ ws)))"
proof (induction bs)
  case Nil
  show ?case by (rule ext) (auto simp: bindm_def split: prod.split sum.split)
next
  case (Cons b bs)
  show ?case by (rule ext) (auto simp: bindm_def Cons split: prod.split sum.split)
qed

lemma cohorts_append:
  assumes "\<forall>x \<in> set xs. \<forall>y \<in> set ys. \<not> same_decision x y"
  shows "cohorts (xs @ ys) = cohorts xs @ cohorts ys"
  using assms
proof (induction xs rule: cohorts.induct)
  case (2 e es)
  then have ns: "\<forall>y \<in> set ys. \<not> same_decision e y" by simp
  have tk: "takeWhile (same_decision e) (es @ ys) = takeWhile (same_decision e) es"
  proof (cases "\<forall>x \<in> set es. same_decision e x")
    case True
    then have "takeWhile (same_decision e) es = es" "takeWhile (same_decision e) (es @ ys) = es @ takeWhile (same_decision e) ys"
      by (simp_all add: takeWhile_eq_all_conv takeWhile_append2)
    moreover have "takeWhile (same_decision e) ys = []" using ns by (cases ys) simp_all
    ultimately show ?thesis by (simp only: append_Nil2)
  next
    case False
    then show ?thesis by (auto intro: takeWhile_append1)
  qed
  have "takeWhile (same_decision e) ys = []" "dropWhile (same_decision e) ys = ys" using ns by (cases ys; simp)+
  then have dw: "dropWhile (same_decision e) (es @ ys) = dropWhile (same_decision e) es @ ys"
    by (simp add: dropWhile_append)
  have "\<forall>x \<in> set (dropWhile (same_decision e) es). \<forall>y \<in> set ys. \<not> same_decision x y"
    using 2(2) by (auto dest: set_dropWhileD)
  from 2(1) [OF this] show ?case by (simp add: tk dw)
qed simp

end
