(* ===== verification/FeatureSessions.thy ===== *)
theory FeatureSessions
  imports FeatureSplit
begin

text \<open>
  A feature state over a series of calls of \<open>process\<close>: \<open>feature_session\<close> collects the vectors that the
  calls return, and every state it reaches is \<open>session_ok\<close>.
\<close>

section \<open>Remembered observations\<close>

lemma remember_step_new:
  assumes "remember_step S staged ev = Inr t"
  shows "t = staged \<or> t = staged @ [(ob_event_id ev, ev)] \<and>
    (ob_is_decision_point ev \<longrightarrow> (\<exists>d. ob_decision_at ev = Some d \<and> closed_before S (instant d)))"
  using assms by (auto simp: remember_step_def closed_before_def split: option.splits if_splits)

lemma staged_from:
  assumes "foldlr (remember_step S) [] events = Inr staged" "(i, ev) \<in> set staged"
  shows "ev \<in> set events" "ob_is_decision_point ev \<Longrightarrow> \<exists>d. ob_decision_at ev = Some d \<and> closed_before S (instant d)"
proof -
  let ?P = "\<lambda>staged. \<forall>(i, ev) \<in> set staged. ev \<in> set events \<and>
    (ob_is_decision_point ev \<longrightarrow> (\<exists>d. ob_decision_at ev = Some d \<and> closed_before S (instant d)))"
  have "?P staged"
  proof (rule foldlr_invariant [OF assms(1)])
    fix st ev t
    assume "ev \<in> set events" "?P st" "remember_step S st ev = Inr t"
    with remember_step_new [OF this(3)] show "?P t" by (elim disjE conjE) simp_all
  qed simp
  with assms(2) show "ev \<in> set events"
    "ob_is_decision_point ev \<Longrightarrow> \<exists>d. ob_decision_at ev = Some d \<and> closed_before S (instant d)" by auto
qed

lemma before_append: "fs_known S' = fs_known S @ new \<Longrightarrow> before S t i \<Longrightarrow> before S' t i"
  by (auto simp: before_def map_add_Some_iff)

lemma store_timely:
  assumes "feature_ok S" "timely S" "i \<notin> fst ` set (fs_known S)" "ob_event_id ev = i"
  shows "timely (store_event S (i, ev))"
proof (cases "fs_watermark S")
  case None
  with assms(2) show ?thesis by (simp add: timely_def store_event_def)
next
  case (Some w)
  let ?S = "store_event S (i, ev)"
  have k: "fs_known ?S = fs_known S @ [(i, ev)]" by (rule store_known [OF assms(3)])
  have "before ?S (instant w) j" if "j \<in> set (fs_admitted S) \<union> set (fs_late S)" for j
    using assms(2) Some that before_append [OF k] by (auto simp: timely_def held_before_def)
  moreover have "before ?S (instant w) i" if "instant (ob_available_at ev) < instant w"
  proof -
    have "map_of (fs_known S) i = None" using assms(3) by (simp add: map_of_eq_None_iff)
    with that show ?thesis by (simp add: before_def k map_add_def)
  qed
  ultimately show ?thesis
    using Some by (auto simp: timely_def held_before_def) (auto simp: store_event_def Let_def split: if_splits)
qed

lemma store_all_timely:
  assumes "feature_ok S" "timely S" "staged_ok S staged"
  shows "timely (foldl store_event S staged)"
  using assms
proof (induction staged arbitrary: S)
  case (Cons p staged)
  obtain i ev where p: "p = (i, ev)" by (cases p)
  from Cons.prems(3) have f: "i \<notin> fst ` set (fs_known S)" "ob_event_id ev = i" by (simp_all add: p staged_ok_def)
  have "staged_ok (store_event S p) staged"
    using Cons.prems(3) f by (simp add: p staged_ok_def store_known)
  from Cons.IH [OF store_ok [OF Cons.prems(1) f, folded p] store_timely [OF Cons.prems(1,2) f, folded p] this]
  show ?case by simp
qed simp

text \<open>What a successful call remembers.\<close>

lemma remember_facts:
  assumes "feature_ok S" "remember events S = (Inr u, T)"
  obtains staged where "foldlr (remember_step S) [] events = Inr staged" "staged_ok S staged"
    "T = foldl store_event S staged" "fs_known T = fs_known S @ staged"
proof -
  from assms(2) obtain staged where s: "foldlr (remember_step S) [] events = Inr staged" "T = foldl store_event S staged"
    by (auto simp: remember_def split: sum.splits)
  with store_all [OF assms(1) remembered [OF s(1)]] remembered [OF s(1)] show thesis by (intro that) simp_all
qed

lemma pending_of_settled:
  assumes "settled S" "fs_known T = fs_known S @ staged" "fs_emitted T = fs_emitted S"
    and "\<forall>(i, ev) \<in> set staged. ob_event_id ev = i" "fst ` set staged \<inter> set (fs_emitted S) = {}"
  shows "pending_decisions T = sort_key decision_key (filter ob_is_decision_point (map snd staged))"
proof -
  have "mset (sort_key decision_key (filter (\<lambda>ev. ob_is_decision_point ev \<and> ob_event_id ev \<notin> set (fs_emitted S)) (known_events S))) = {#}"
    using assms(1) unfolding settled_def pending_decisions_def by (simp only: mset.simps)
  then have "filter (\<lambda>ev. ob_is_decision_point ev \<and> ob_event_id ev \<notin> set (fs_emitted S)) (known_events S) = []"
    by simp
  moreover have "filter (\<lambda>ev. ob_is_decision_point ev \<and> ob_event_id ev \<notin> set (fs_emitted S)) (map snd staged) =
      filter ob_is_decision_point (map snd staged)"
    using assms(4,5) by (intro filter_cong) force+
  ultimately show ?thesis
    by (simp add: pending_decisions_def known_events_def assms(2,3))
qed

lemma known_ids: "well_keyed S \<Longrightarrow> event_ids (known_events S) = map fst (fs_known S)"
  by (auto simp: well_keyed_def event_ids_def known_events_def)

lemma pending_distinct:
  assumes "well_keyed S"
  shows "distinct (event_ids (pending_decisions S))"
proof -
  let ?P = "\<lambda>ev. ob_is_decision_point ev \<and> ob_event_id ev \<notin> set (fs_emitted S)"
  have "mset (event_ids (pending_decisions S)) = mset (event_ids (filter ?P (known_events S)))"
    by (simp add: pending_decisions_def event_ids_def)
  moreover have "distinct (event_ids (filter ?P (known_events S)))"
    using assms known_ids [OF assms] unfolding event_ids_def well_keyed_def by (metis distinct_map_filter)
  ultimately show ?thesis by (metis mset_eq_imp_distinct_iff)
qed

lemma pending_set: "set (pending_decisions S) =
    {ev \<in> set (known_events S). ob_is_decision_point ev \<and> ob_event_id ev \<notin> set (fs_emitted S)}"
  by (auto simp: pending_decisions_def)

section \<open>A call\<close>

definition session_ok :: "feature_state \<Rightarrow> bool" where
  "session_ok S \<longleftrightarrow> feature_ok S \<and> all_observable S \<and> timely S \<and> settled S \<and> executable (fs_catalog S)"

lemma process_call:
  assumes ok: "session_ok S" and obs: "\<forall>e \<in> set events. observable e" and rem: "remember events S = (Inr u, T)"
  obtains vs S' where "process_features M events S = (Inr vs, S')"
    "process_cohorts M (cohorts (pending_decisions T)) T = (Inr vs, S')" "session_ok S'"
    "\<forall>e \<in> set (pending_decisions T). \<exists>d. ob_decision_at e = Some d \<and> closed_before S (instant d)"
    "fs_known S' = fs_known T"
proof -
  have S: "feature_ok S" "all_observable S" "timely S" "settled S" "executable (fs_catalog S)"
    using ok by (simp_all add: session_ok_def)
  obtain staged where st: "foldlr (remember_step S) [] events = Inr staged" "staged_ok S staged"
    "T = foldl store_event S staged" "fs_known T = fs_known S @ staged"
    using remember_facts [OF S(1) rem] by blast
  note T = remember_ok(1-4) [OF S(1) rem]
  have new: "observable e" if "(i, e) \<in> set staged" for i e using obs staged_from(1) [OF st(1) that] by blast
  then have obs_T: "all_observable T"
    using S(2) by (auto simp: all_observable_def known_events_def st(4))
  have timely_T: "timely T" unfolding st(3) by (rule store_all_timely [OF S(1,3) st(2)])
  have "fst ` set staged \<inter> set (fs_emitted S) = {}"
    using S(1) st(2) by (auto simp: feature_ok_def staged_ok_def)
  then have pend: "pending_decisions T = sort_key decision_key (filter ob_is_decision_point (map snd staged))"
    using st(2) by (intro pending_of_settled [OF S(4) st(4) T(3)]) (simp_all add: staged_ok_def)
  have dec: "\<exists>d. ob_decision_at e = Some d \<and> closed_before S (instant d)" if "e \<in> set (pending_decisions T)" for e
    using that staged_from(2) [OF st(1)] by (auto simp: pend)
  have "rising (opt_instant (fs_watermark T)) (cohorts (pending_decisions T))"
    using dec by (intro cohorts_rising) (force simp: pending_decisions_def closed_before_def opt_instant_def T(4))+
  moreover have batches: "\<forall>batch \<in> set (cohorts (pending_decisions T)). set batch \<subseteq> set (known_events T) \<and>
      (\<forall>e \<in> set batch. \<forall>e' \<in> set batch. same_decision e e')"
    using cohorts_same pending_known [of T] cohorts_concat [of "pending_decisions T"]
    by (metis (no_types, lifting) set_concat Union_upper image_eqI order_trans)
  ultimately obtain vs S' where run: "process_cohorts M (cohorts (pending_decisions T)) T = (Inr vs, S')" "timely S'"
    using process_cohorts_total [OF T(1) obs_T _ timely_T] S(5) by (metis T(2))
  have "\<not> list_ex (\<lambda>ev. ob_decision_at ev = None) (pending_decisions T)"
    using dec by (auto simp: list_ex_iff)
  with rem run(1) have proc: "process_features M events S = (Inr vs, S')"
    by (simp add: process_features_def bindm_def)
  from process_cohorts_ok [OF run(1) T(1) batches] have S': "feature_ok S'" "fs_known S' = fs_known T" "fs_catalog S' = fs_catalog T"
    "set (fs_emitted S') = set (event_ids (pending_decisions T)) \<union> set (fs_emitted T)"
    by simp_all
  have "settled S'"
  proof -
    have "set (pending_decisions S') = {}"
      unfolding pending_set S'(4) using S'(2) by (auto simp: known_events_def event_ids_def pending_set)
    then show ?thesis by (simp add: settled_def)
  qed
  then have "session_ok S'"
    using S'(1) obs_T run(2) S(5) by (simp only: session_ok_def observable_cong [OF S'(2)] S'(3) T(2))
  from that [OF proc run(1) this _ S'(2)] dec show thesis by blast
qed

section \<open>Two calls\<close>

lemma process_cohort_mark:
  assumes "process_cohort M batch S = (Inr vs, S')" "\<forall>e \<in> set batch. \<forall>e' \<in> set batch. same_decision e e'"
  shows "batch = [] \<and> S' = S \<or> (\<exists>v w. v \<in> set vs \<and> fs_watermark S' = Some w \<and> fv_decision_at v = w \<and>
    closed_before S (instant w) \<and> (\<forall>b \<in> set batch. opt_instant (ob_decision_at b) = Some (instant w)))"
proof (cases batch)
  case Nil
  with assms(1) show ?thesis by (simp add: process_cohort_def)
next
  case (Cons ev evs)
  with assms(1) obtain d S1 where d: "ob_decision_at ev = Some d" "closed_before S (instant d)" "fs_watermark S' = Some d"
    "mapr (compute_vector M d S1) batch = Inr vs"
    by (auto simp: process_cohort_def Let_def closed_before_def simp del: mapr.simps split: option.splits if_splits sum.splits)
  from d(4) Cons obtain v where "v \<in> set vs" "compute_vector M d S1 ev = Inr v" by (auto simp: bindr_Inr)
  then have "v \<in> set vs \<and> fv_decision_at v = d"
    by (auto simp: compute_vector_def Let_def bindr_Inr feature_vector_valid_def split: if_splits)
  moreover have "\<forall>b \<in> set batch. opt_instant (ob_decision_at b) = Some (instant d)"
    using assms(2) Cons d(1) by (auto simp: same_decision_def opt_instant_def)
  ultimately show ?thesis using d by blast
qed

lemma closed_before_mono: "closed_before S t \<Longrightarrow> t \<le> t' \<Longrightarrow> closed_before S t'"
  by (force simp: closed_before_def)

lemma process_cohorts_mark:
  assumes "process_cohorts M batches S = (Inr vs, S')"
    and "\<forall>batch \<in> set batches. \<forall>e \<in> set batch. \<forall>e' \<in> set batch. same_decision e e'"
  shows "concat batches = [] \<and> S' = S \<or> (\<exists>v w. v \<in> set vs \<and> fs_watermark S' = Some w \<and> fv_decision_at v = w \<and>
    closed_before S (instant w) \<and>
    (\<forall>b \<in> set (concat batches). \<exists>d. ob_decision_at b = Some d \<and> instant d \<le> instant w))"
  using assms
proof (induction batches arbitrary: S vs)
  case (Cons batch batches)
  from Cons.prems(1) obtain vs1 S1 vs2 where run: "process_cohort M batch S = (Inr vs1, S1)"
    "process_cohorts M batches S1 = (Inr vs2, S')" "vs = vs1 @ vs2"
    by (auto simp: res_simps)
  have same: "\<forall>e \<in> set batch. \<forall>e' \<in> set batch. same_decision e e'"
    "\<forall>batch \<in> set batches. \<forall>e \<in> set batch. \<forall>e' \<in> set batch. same_decision e e'"
    using Cons.prems(2) by simp_all
  note IH = Cons.IH [OF run(2) same(2)]
  from process_cohort_mark [OF run(1) same(1)] show ?case
  proof (elim disjE exE conjE)
    assume "batch = []" "S1 = S"
    with IH run(3) show ?thesis by auto
  next
    fix v w
    assume v: "v \<in> set vs1" "fs_watermark S1 = Some w" "fv_decision_at v = w" "closed_before S (instant w)"
      and b: "\<forall>b \<in> set batch. opt_instant (ob_decision_at b) = Some (instant w)"
    have b': "\<exists>d. ob_decision_at e = Some d \<and> instant d \<le> instant w" if "e \<in> set batch" for e
      using b that by (auto simp: opt_instant_def)
    from IH show ?thesis
    proof (elim disjE exE conjE)
      assume "concat batches = []" "S' = S1"
      moreover have "\<forall>b \<in> set (concat (batch # batches)). \<exists>d. ob_decision_at b = Some d \<and> instant d \<le> instant w"
        using b' calculation(1) by (metis append_Nil2 concat.simps(2))
      ultimately show ?thesis using v run(3) by (intro disjI2 exI [of _ v] exI [of _ w]) simp
    next
      fix v' w'
      assume v': "v' \<in> set vs2" "fs_watermark S' = Some w'" "fv_decision_at v' = w'" "closed_before S1 (instant w')"
        "\<forall>b \<in> set (concat batches). \<exists>d. ob_decision_at b = Some d \<and> instant d \<le> instant w'"
      have le: "instant w \<le> instant w'" using v(2) v'(4) by (simp add: closed_before_def)
      have "\<forall>b \<in> set (concat (batch # batches)). \<exists>d. ob_decision_at b = Some d \<and> instant d \<le> instant w'"
      proof
        fix b
        assume "b \<in> set (concat (batch # batches))"
        then consider "b \<in> set batch" | "b \<in> set (concat batches)" by auto
        then show "\<exists>d. ob_decision_at b = Some d \<and> instant d \<le> instant w'"
        proof cases
          case 1
          from b' [OF this] le show ?thesis by auto
        qed (use v'(5) in blast)
      qed
      with v' closed_before_mono [OF v(4) le] run(3) show ?thesis by auto
    qed
  qed
qed simp

lemma remember_continue:
  assumes "foldlr (remember_step S1) t events = Inr t'" "fs_known S1 = fs_known S @ st"
    and "\<And>x. closed_before S1 x \<Longrightarrow> closed_before S x"
  shows "foldlr (remember_step S) (st @ t) events = Inr (st @ t')"
  using assms(1)
proof (induction events arbitrary: t)
  case (Cons ev events)
  from Cons.prems obtain u where u: "remember_step S1 t ev = Inr u" "foldlr (remember_step S1) u events = Inr t'"
    by (auto simp: bindr_Inr)
  define look where "look = (case map_of (fs_known S1) (ob_event_id ev) of Some e \<Rightarrow> Some e | None \<Rightarrow> map_of t (ob_event_id ev))"
  have look': "look = (case map_of (fs_known S) (ob_event_id ev) of Some e \<Rightarrow> Some e | None \<Rightarrow> map_of (st @ t) (ob_event_id ev))"
    by (simp add: look_def assms(2) map_add_def split: option.split)
  have "remember_step S (st @ t) ev = Inr (st @ u)"
    using u(1) assms(3) [of "case ob_decision_at ev of Some d \<Rightarrow> instant d | None \<Rightarrow> 0"]
    unfolding remember_step_def look_def [symmetric] look' [symmetric]
    by (cases look) (fastforce simp: closed_before_def not_le split: option.splits if_splits)+
  with Cons.IH [OF u(2)] show ?case by simp
qed simp

lemma store_all_grow:
  assumes "staged_ok S new" "\<forall>(i, e) \<in> set new. \<forall>w. fs_watermark S = Some w \<longrightarrow> instant w \<le> instant (ob_available_at e)"
  shows "foldl store_event S new = grow new S"
  using assms
proof (induction new arbitrary: S)
  case (Cons p new)
  obtain i ev where p: "p = (i, ev)" by (cases p)
  from Cons.prems(1) have f: "i \<notin> fst ` set (fs_known S)" by (simp add: p staged_ok_def)
  then have g: "store_event S p = grow [p] S"
    using Cons.prems(2) by (auto simp: p store_event_def grow_def Let_def alist_update_fresh split: option.splits)
  have "foldl store_event (grow [p] S) new = grow new (grow [p] S)"
    using Cons.prems f by (intro Cons.IH) (simp_all add: p staged_ok_def)
  then show ?case by (simp add: g grow_def)
qed (simp add: grow_def)

lemma process_in_two:
  assumes ok: "session_ok S" and obs: "\<forall>e \<in> set (E1 @ E2). observable e"
    and r1: "process_features M E1 S = (Inr vs1, S1)" and r2: "process_features M E2 S1 = (Inr vs2, S2)"
    and late: "\<forall>e \<in> set E2. ob_event_id e \<notin> fst ` set (fs_known S1) \<longrightarrow>
      (\<forall>v \<in> set vs1. instant (fv_decision_at v) \<le> instant (ob_available_at e))"
  shows "process_features M (E1 @ E2) S = (Inr (vs1 @ vs2), S2)"
proof -
  have obs1: "\<forall>e \<in> set E1. observable e" and obs2: "\<forall>e \<in> set E2. observable e" using obs by simp_all
  have f: "feature_ok S" using ok by (simp add: session_ok_def)
  from r1 obtain T where T: "remember E1 S = (Inr (), T)"
    by (auto simp: process_features_def res_simps)
  obtain st1 where st1: "foldlr (remember_step S) [] E1 = Inr st1" "staged_ok S st1" "T = foldl store_event S st1"
    "fs_known T = fs_known S @ st1"
    using remember_facts [OF f T] by blast
  note T' = remember_ok(1-4) [OF f T]
  have c1: "process_cohorts M (cohorts (pending_decisions T)) T = (Inr vs1, S1)" and s1: "session_ok S1"
    and k1: "fs_known S1 = fs_known T"
    and d1: "\<forall>e \<in> set (pending_decisions T). \<exists>d. ob_decision_at e = Some d \<and> closed_before S (instant d)"
    using process_call [OF ok obs1 T, of M] r1 by (metis prod.inject sum.inject(2))+
  have f1: "feature_ok S1" "settled S1" using s1 by (simp_all add: session_ok_def)
  from r2 obtain U where U: "remember E2 S1 = (Inr (), U)"
    by (auto simp: process_features_def res_simps)
  obtain st2 where st2: "foldlr (remember_step S1) [] E2 = Inr st2" "staged_ok S1 st2" "U = foldl store_event S1 st2"
    "fs_known U = fs_known S1 @ st2"
    using remember_facts [OF f1(1) U] by blast
  note U' = remember_ok(1-4) [OF f1(1) U]
  have c2: "process_cohorts M (cohorts (pending_decisions U)) U = (Inr vs2, S2)"
    and d2: "\<forall>e \<in> set (pending_decisions U). \<exists>d. ob_decision_at e = Some d \<and> closed_before S1 (instant d)"
    using process_call [OF s1 obs2 U, of M] r2 by (metis prod.inject sum.inject(2))+
  have same: "\<forall>batch \<in> set (cohorts es). \<forall>e \<in> set batch. \<forall>e' \<in> set batch. same_decision e e'" for es
    using cohorts_same by blast
  note mark = process_cohorts_mark [OF c1 same, unfolded cohorts_concat]
  have mono: "closed_before S x" if "closed_before S1 x" for x
    using mark
  proof (elim disjE exE conjE)
    assume "S1 = T"
    with that T'(4) show ?thesis by (simp add: closed_before_def)
  next
    fix v w
    assume "fs_watermark S1 = Some w" "closed_before T (instant w)"
    with that T'(4) show ?thesis by (force simp: closed_before_def)
  qed
  have "foldlr (remember_step S) [] (E1 @ E2) = Inr (st1 @ st2)"
    using remember_continue [OF st2(1), of S st1] k1 st1(1,4) mono by (simp add: foldlr_append)
  then have rem: "remember (E1 @ E2) S = (Inr (), foldl store_event T st2)"
    by (simp add: remember_def st1(3))
  from mark show ?thesis
  proof (elim disjE exE conjE)
    assume "pending_decisions T = []" "S1 = T"
    moreover have "vs1 = []" using c1 calculation by simp
    ultimately show ?thesis
      using rem r2 U st2(3) by (simp add: process_features_def bindm_def)
  next
    fix v w
    assume v: "v \<in> set vs1" "fs_watermark S1 = Some w" "fv_decision_at v = w" "closed_before T (instant w)"
      and dT: "\<forall>b \<in> set (pending_decisions T). \<exists>d. ob_decision_at b = Some d \<and> instant d \<le> instant w"
    have avail: "instant w \<le> instant (ob_available_at e)" if "(i, e) \<in> set st2" for i e
    proof -
      have "e \<in> set E2" by (rule staged_from(1) [OF st2(1) that])
      moreover have "ob_event_id e \<notin> fst ` set (fs_known S1)"
      proof -
        have "i \<in> fst ` set st2" using that by (intro image_eqI [of _ _ "(i, e)"]) simp_all
        moreover have "ob_event_id e = i" "fst ` set st2 \<inter> fst ` set (fs_known S1) = {}"
          using st2(2) that by (auto simp: staged_ok_def)
        ultimately show ?thesis by blast
      qed
      ultimately show ?thesis using late v(1,3) by blast
    qed
    have g1: "foldl store_event T st2 = grow st2 T"
      using st2(2) v(4) avail by (intro store_all_grow) (force simp: staged_ok_def k1 closed_before_def)+
    have g2: "U = grow st2 S1"
      unfolding st2(3) using v(2) avail by (intro store_all_grow st2(2)) auto
    have batches: "\<forall>batch \<in> set (cohorts (pending_decisions T)). set batch \<subseteq> set (known_events T) \<and>
        (\<forall>e \<in> set batch. \<forall>e' \<in> set batch. same_decision e e')"
      using cohorts_same pending_known [of T] cohorts_concat [of "pending_decisions T"]
      by (metis (no_types, lifting) set_concat Union_upper image_eqI order_trans)
    have "instant d \<le> instant (ob_available_at e)"
      if "(i, e) \<in> set st2" "batch \<in> set (cohorts (pending_decisions T))" "b \<in> set batch" "ob_decision_at b = Some d"
      for i e batch b d
    proof -
      have "b \<in> set (concat (cohorts (pending_decisions T)))" using that(2,3) unfolding set_concat by blast
      with dT that(4) have "instant d \<le> instant w" unfolding cohorts_concat by fastforce
      with avail [OF that(1)] show ?thesis by simp
    qed
    then have g3: "process_cohorts M (cohorts (pending_decisions T)) (grow st2 T) = (Inr vs1, grow st2 S1)"
      by (intro process_cohorts_grow [OF c1 T'(1) batches]) blast
    let ?P = "\<lambda>ev. ob_is_decision_point ev \<and> ob_event_id ev \<notin> set (fs_emitted S)"
    have fresh: "fst ` set st2 \<inter> set (fs_emitted S) = {}" "fst ` set st2 \<inter> set (fs_emitted S1) = {}"
    proof -
      have "set (fs_emitted S) \<subseteq> fst ` set (fs_known S1)" "set (fs_emitted S1) \<subseteq> fst ` set (fs_known S1)"
        using f f1(1) unfolding feature_ok_def k1 st1(4) by auto
      moreover have "fst ` set st2 \<inter> fst ` set (fs_known S1) = {}" using st2(2) by (simp add: staged_ok_def)
      ultimately show "fst ` set st2 \<inter> set (fs_emitted S) = {}" "fst ` set st2 \<inter> set (fs_emitted S1) = {}" by blast+
    qed
    have ids2: "\<forall>(i, ev) \<in> set st2. ob_event_id ev = i" using st2(2) by (simp add: staged_ok_def)
    have new: "filter ?P (map snd st2) = filter ob_is_decision_point (map snd st2)"
      using fresh(1) ids2 by (intro filter_cong) force+
    have pU: "pending_decisions U = sort_key decision_key (filter ob_is_decision_point (map snd st2))"
      by (rule pending_of_settled [OF f1(2) st2(4) U'(3) ids2 fresh(2)])
    have less: "\<exists>a b. ob_decision_at x = Some a \<and> ob_decision_at y = Some b \<and> instant a < instant b"
      if "x \<in> set (pending_decisions T)" "y \<in> set (pending_decisions U)" for x y
    proof -
      from dT that(1) obtain a where a: "ob_decision_at x = Some a" "instant a \<le> instant w" by blast
      from d2 that(2) obtain b where b: "ob_decision_at y = Some b" "closed_before S1 (instant b)" by blast
      with v(2) have "instant w < instant b" by (simp add: closed_before_def)
      with a b(1) show ?thesis by auto
    qed
    have pend: "pending_decisions (grow st2 T) = pending_decisions T @ pending_decisions U"
    proof -
      have "sort_key decision_key (filter ?P (known_events T) @ filter ob_is_decision_point (map snd st2)) =
          sort_key decision_key (filter ?P (known_events T)) @ sort_key decision_key (filter ob_is_decision_point (map snd st2))"
      proof (intro sort_key_append_less ballI)
        fix x y
        assume "x \<in> set (filter ?P (known_events T))" "y \<in> set (filter ob_is_decision_point (map snd st2))"
        then have "x \<in> set (pending_decisions T)" "y \<in> set (pending_decisions U)"
          unfolding pU pending_decisions_def [of T] T'(3) by (simp_all only: set_sort)
        from less [OF this] show "decision_key x < decision_key y" by (auto simp: decision_key_def)
      qed
      then show ?thesis
        using new by (simp add: pending_decisions_def [of "grow st2 T"] known_events_def pU T'(3)
            pending_decisions_def [of T])
    qed
    have "cohorts (pending_decisions T @ pending_decisions U) = cohorts (pending_decisions T) @ cohorts (pending_decisions U)"
      using less by (intro cohorts_append) (fastforce simp: same_decision_def opt_instant_def)
    moreover have "\<not> list_ex (\<lambda>ev. ob_decision_at ev = None) (pending_decisions T @ pending_decisions U)"
      using d1 d2 by (auto simp: list_ex_iff)
    ultimately show ?thesis
      using rem c2 g3 unfolding process_features_def bindm_def
      by (simp add: g1 pend process_cohorts_append bindm_def g2 [symmetric])
  qed
qed

end
