(* ===== verification/FeatureMatrix.thy ===== *)
theory FeatureMatrix
  imports FeatureSessions
begin

text \<open>
  Series of calls with all the vectors they have returned, and the one-shot matrix, whose rows depend
  on the set of observations alone.
\<close>

section \<open>Sessions\<close>

inductive feature_session ::
  "(feature_catalog \<Rightarrow> string) \<Rightarrow> libm \<Rightarrow> feature_catalog \<Rightarrow> feature_state \<Rightarrow> feature_vector list \<Rightarrow> bool"
  for J M c where
  created: "new_feature_state J c = Inr S \<Longrightarrow> feature_session J M c S []"
| called: "feature_session J M c S rows \<Longrightarrow> \<forall>e \<in> set events. observable e \<Longrightarrow> process_features M events S = (q, S') \<Longrightarrow>
    feature_session J M c S' (rows @ (case q of Inl _ \<Rightarrow> [] | Inr vs \<Rightarrow> vs))"

definition log_ok :: "feature_state \<Rightarrow> feature_vector list \<Rightarrow> bool" where
  "log_ok S rows \<longleftrightarrow> (\<forall>v \<in> set rows. causal_vector S (set (known_events S)) v) \<and>
     distinct (map fv_event_id rows) \<and> set (map fv_event_id rows) = set (fs_emitted S) \<and>
     set (fs_emitted S) \<subseteq> ob_event_id ` {ev \<in> set (known_events S). ob_is_decision_point ev}"

lemma new_state_facts:
  assumes "new_feature_state J c = Inr S"
  shows "fs_catalog S = c" "fs_known S = []" "fs_watermark S = None" "fs_emitted S = []" "fs_late S = []"
    "fs_admitted S = []" "distinct (catalog_names c)" "feature_ok S" "settled S" "all_observable S" "timely S"
proof -
  have S: "fs_catalog S = c" "fs_known S = []" "fs_watermark S = None" "fs_emitted S = []" "fs_late S = []"
    "fs_admitted S = []" "fs_actor S = []" "fs_counterparty S = []" "fs_pair S = []" "fs_actor_amount S = []"
    "fs_counterparty_amount S = []" "fs_edges S = []" "audit_feature_catalog c = Inr ()"
    using assms by (auto simp: new_feature_state_def bindr_Inr)
  then show "fs_catalog S = c" "fs_known S = []" "fs_watermark S = None" "fs_emitted S = []" "fs_late S = []"
    "fs_admitted S = []" by simp_all
  show "distinct (catalog_names c)" using S(13) by (auto simp: audit_feature_catalog_def split: if_splits)
  show "feature_ok S"
    using S by (simp add: feature_ok_def well_keyed_def histories_admitted_def history_def edge_ids_def)
  show "settled S" "all_observable S" "timely S"
    using S by (simp_all add: settled_def pending_decisions_def all_observable_def known_events_def timely_def)
qed

lemma log_ok_later:
  assumes "log_ok S rows" "fs_known S' = fs_known S @ new" "fs_catalog S' = fs_catalog S" "v \<in> set rows"
  shows "causal_vector S' (set (known_events S')) v"
proof -
  have "causal_vector S (set (known_events S)) v" using assms(1,4) by (simp add: log_ok_def)
  then have "causal_vector S (set (known_events S')) v"
    by (rule causal_vector_mono) (auto simp: known_events_def assms(2))
  with before_append [OF assms(2)] show ?thesis by (simp add: causal_vector_def assms(3))
qed

text \<open>A call that remembers its events returns, for all pending decisions; one that does not changes nothing.\<close>

lemma process_outcome:
  assumes "session_ok S" "\<forall>e \<in> set events. observable e"
  shows "(\<exists>e. process_features M events S = (Inl e, S) \<and> remember events S = (Inl e, S)) \<or>
    (\<exists>vs S'. process_features M events S = (Inr vs, S') \<and> session_ok S')"
proof (cases "fst (remember events S)")
  case (Inl e)
  then have "remember events S = (Inl e, S)" by (auto simp: remember_def split: sum.splits)
  then show ?thesis by (simp add: process_features_def bindm_def)
next
  case (Inr u)
  then obtain T where "remember events S = (Inr u, T)" by (metis prod.collapse)
  from process_call [OF assms this, of M] show ?thesis by metis
qed

lemma process_log:
  assumes ok: "session_ok S" and obs: "\<forall>e \<in> set events. observable e"
    and run: "process_features M events S = (Inr vs, S')" and rows: "log_ok S rows"
  shows "log_ok S' (rows @ vs)"
proof -
  have f: "feature_ok S" using ok by (simp add: session_ok_def)
  note post = process_features_ok [OF run f]
  obtain T where T: "remember events S = (Inr (), T)" using run by (auto simp: process_features_def res_simps)
  note T' = remember_ok(1-5) [OF f T]
  have wk: "well_keyed T" using T'(1) by (simp add: feature_ok_def)
  from post(5) T have ids: "map fv_event_id vs = event_ids (pending_decisions T)"
    "set (fs_emitted S') = set (event_ids (pending_decisions T)) \<union> set (fs_emitted S)" by simp_all
  have "set (event_ids (pending_decisions T)) \<inter> set (fs_emitted S) = {}"
    using T'(3) by (auto simp: event_ids_def pending_decisions_def)
  then have "distinct (map fv_event_id (rows @ vs))" "set (map fv_event_id (rows @ vs)) = set (fs_emitted S')"
    using rows ids pending_distinct [OF wk] by (auto simp: log_ok_def)
  moreover obtain new where new: "fs_known S' = fs_known S @ new" using post(3) by blast
  moreover have "set (fs_emitted S') \<subseteq> ob_event_id ` {ev \<in> set (known_events S'). ob_is_decision_point ev}"
  proof -
    have "fs_known S' = fs_known T" using process_call [OF ok obs T, of M] run by (metis prod.inject)
    then have "set (event_ids (pending_decisions T)) \<subseteq> ob_event_id ` {ev \<in> set (known_events S'). ob_is_decision_point ev}"
      by (auto simp: event_ids_def pending_set known_events_def)
    moreover have "set (fs_emitted S) \<subseteq> ob_event_id ` {ev \<in> set (known_events S'). ob_is_decision_point ev}"
      using rows by (fastforce simp: log_ok_def known_events_def new)
    ultimately show ?thesis using ids(2) by simp
  qed
  ultimately show ?thesis
    using log_ok_later [OF rows new post(2)] post(4) [OF refl] unfolding log_ok_def by (simp add: ball_Un)
qed

lemma session_facts:
  assumes "feature_session J M c S rows" "executable c"
  shows "session_ok S" "fs_catalog S = c" "log_ok S rows" "distinct (catalog_names c)"
proof -
  from assms have "session_ok S \<and> fs_catalog S = c \<and> log_ok S rows \<and> distinct (catalog_names c)"
  proof (induction rule: feature_session.induct)
    case (created S)
    with new_state_facts [OF created(1)] show ?case by (simp add: session_ok_def log_ok_def)
  next
    case (called S rows events q S')
    then have S: "session_ok S" "fs_catalog S = c" "log_ok S rows" "distinct (catalog_names c)" by simp_all
    from process_outcome [OF S(1) called.hyps(2), of M] show ?case
    proof (elim disjE exE conjE)
      fix e
      assume "process_features M events S = (Inl e, S)"
      with called.hyps(3) S show ?thesis by auto
    next
      fix vs T
      assume T: "process_features M events S = (Inr vs, T)" "session_ok T"
      moreover have "fs_catalog T = c"
        using process_features_ok(2) [OF T(1)] S(1,2) by (simp add: session_ok_def)
      ultimately show ?thesis
        using called.hyps(3) process_log [OF S(1) called.hyps(2) T(1) S(3)] S(4) by auto
    qed
  qed
  then show "session_ok S" "fs_catalog S = c" "log_ok S rows" "distinct (catalog_names c)" by simp_all
qed

lemma settled_emitted:
  assumes "session_ok S"
  shows "ev \<in> set (known_events S) \<Longrightarrow> ob_is_decision_point ev \<Longrightarrow> ob_event_id ev \<in> set (fs_emitted S)"
proof -
  have "set (pending_decisions S) = {}" using assms by (simp add: session_ok_def settled_def)
  then show "ev \<in> set (known_events S) \<Longrightarrow> ob_is_decision_point ev \<Longrightarrow> ob_event_id ev \<in> set (fs_emitted S)"
    unfolding pending_set by blast
qed

section \<open>One-shot matrices\<close>

text \<open>Observations that agree wherever they have the same identifier.\<close>

definition consistent :: "observed set \<Rightarrow> bool" where
  "consistent E \<longleftrightarrow> inj_on ob_event_id E \<and> (\<forall>e \<in> E. same_observed e e)"

definition entry :: "observed \<Rightarrow> string \<times> observed" where
  "entry ev = (ob_event_id ev, ev)"

lemma map_of_entries: "map_of (map entry es) i = find (\<lambda>e. ob_event_id e = i) es"
  by (induction es) (auto simp: entry_def)

lemma find_consistent:
  assumes "inj_on ob_event_id E" "set es \<subseteq> E" "e \<in> E"
  shows "find (\<lambda>x. ob_event_id x = ob_event_id e) es = (if e \<in> set es then Some e else None)"
proof (cases "e \<in> set es")
  case True
  then obtain x where x: "find (\<lambda>x. ob_event_id x = ob_event_id e) es = Some x"
    by (metis (mono_tags, lifting) find_None_iff not_None_eq)
  then have "x \<in> set es" "ob_event_id x = ob_event_id e" by (auto simp: find_Some_iff)
  with assms show ?thesis using True x by (auto dest: inj_onD)
next
  case False
  with assms show ?thesis by (auto simp: find_None_iff dest: inj_onD)
qed

text \<open>The part of \<open>remember\<close> that a fresh state stages.\<close>

fun fresh_events :: "observed list \<Rightarrow> observed list \<Rightarrow> observed list" where
  "fresh_events seen [] = seen"
| "fresh_events seen (e # es) = fresh_events (if e \<in> set seen then seen else seen @ [e]) es"

lemma fresh_events_set [simp]: "set (fresh_events seen es) = set seen \<union> set es"
  by (induction seen es rule: fresh_events.induct) auto

lemma fresh_events_sorted:
  assumes "sorted (map ob_event_id (seen @ es))" "distinct seen" "inj_on ob_event_id (set seen \<union> set es)"
  shows "sorted (map ob_event_id (fresh_events seen es)) \<and> distinct (fresh_events seen es)"
  using assms
proof (induction seen es rule: fresh_events.induct)
  case (2 seen e es)
  show ?case
  proof (cases "e \<in> set seen")
    case True
    then have "insert e (set seen \<union> set es) = set seen \<union> set es" by auto
    with 2 True show ?thesis by (auto simp: sorted_append)
  next
    case False
    with 2 show ?thesis by (simp add: sorted_append)
  qed
qed simp

lemma remember_fresh:
  assumes new: "fs_known S = []" "fs_watermark S = None" and c: "consistent (set seen \<union> set es)"
  shows "foldlr (remember_step S) (map entry seen) es =
    (if \<exists>e \<in> set es - set seen. ob_is_decision_point e \<and> ob_decision_at e = None
     then Inl (FeatureStateError ''decision-point event must declare decision_at'')
     else Inr (map entry (fresh_events seen es)))"
  using c
proof (induction seen es rule: fresh_events.induct)
  case (2 seen e es)
  have inj: "inj_on ob_event_id (set seen \<union> set (e # es))" and refl: "same_observed e e"
    using 2(2) by (auto simp: consistent_def)
  have look: "map_of (map entry seen) (ob_event_id e) = (if e \<in> set seen then Some e else None)"
    unfolding map_of_entries by (rule find_consistent [OF inj]) auto
  have step: "remember_step S (map entry seen) e = (if e \<in> set seen then Inr (map entry seen)
      else if ob_is_decision_point e \<and> ob_decision_at e = None
      then Inl (FeatureStateError ''decision-point event must declare decision_at'') else Inr (map entry (seen @ [e])))"
    using refl by (auto simp: remember_step_def new look entry_def split: option.split)
  have "set (if e \<in> set seen then seen else seen @ [e]) \<union> set es = set seen \<union> set (e # es)" by auto
  with 2(2) have IH: "foldlr (remember_step S) (map entry (if e \<in> set seen then seen else seen @ [e])) es =
      (if \<exists>x \<in> set es - set (if e \<in> set seen then seen else seen @ [e]). ob_is_decision_point x \<and> ob_decision_at x = None
       then Inl (FeatureStateError ''decision-point event must declare decision_at'')
       else Inr (map entry (fresh_events (if e \<in> set seen then seen else seen @ [e]) es)))"
    by (intro 2(1)) (simp only:)
  show ?case
  proof (cases "e \<in> set seen")
    case True
    with IH show ?thesis by (auto simp: step)
  next
    case False
    show ?thesis
    proof (cases "ob_is_decision_point e \<and> ob_decision_at e = None")
      case True
      with False show ?thesis by (auto simp: step)
    next
      case ok: False
      have ex: "(\<exists>x \<in> set es - set (seen @ [e]). ob_is_decision_point x \<and> ob_decision_at x = None) \<longleftrightarrow>
          (\<exists>x \<in> set (e # es) - set seen. ob_is_decision_point x \<and> ob_decision_at x = None)"
        using False ok by auto
      show ?thesis using IH False ok unfolding foldlr.simps step ex [symmetric] by (simp, auto)
    qed
  qed
qed simp

lemma remember_set:
  assumes "fs_known S = []" "fs_watermark S = None" "consistent (set es)"
    and "set es = set es'" "sorted (map ob_event_id es)" "sorted (map ob_event_id es')"
  shows "remember es S = remember es' S"
proof -
  have inj: "inj_on ob_event_id (set es)" using assms(3) by (simp add: consistent_def)
  note a = fresh_events_sorted [of "[]" es] and b = fresh_events_sorted [of "[]" es']
  have "map ob_event_id (fresh_events [] es) = map ob_event_id (fresh_events [] es')"
  proof (rule sorted_distinct_set_unique)
    show "set (map ob_event_id (fresh_events [] es)) = set (map ob_event_id (fresh_events [] es'))"
      by (simp add: assms(4))
  qed (use a b assms inj in \<open>auto simp: distinct_map\<close>)
  then have "fresh_events [] es = fresh_events [] es'"
    by (rule map_inj_on) (use inj assms(4) in auto)
  with remember_fresh [OF assms(1,2), of "[]" es] remember_fresh [OF assms(1,2), of "[]" es'] assms(3,4)
  show ?thesis by (simp add: remember_def)
qed

end
