(* ===== verification/FeatureClaims.thy ===== *)
theory FeatureClaims
  imports FeatureMatrix
begin

text \<open>
  What a series of calls of \<open>process\<close> gives: causal vectors, one for each known decision, whatever the
  calls and the parts a stream arrives in; each property with a concrete session.
\<close>

section \<open>A concrete session\<close>

definition demo_feature :: feature_definition where
  "demo_feature = \<lparr>fd_name = ''actor_count_24h'', fd_family = TemporalFeature, fd_rails = [Card],
     fd_source_paths = [''state.past_observed_events''], fd_state_keys = [''observed.actor_id''],
     fd_window_seconds = Some 86400, fd_missing = ZeroWhenMissing\<rparr>"

definition demo_catalog :: feature_catalog where
  "demo_catalog = \<lparr>fc_version = ''1.0.0'', fc_features = [demo_feature]\<rparr>"

definition demo_libm :: libm where
  "demo_libm = \<lparr>lm_log1p = \<lambda>_. Fin 0, lm_sin = \<lambda>_. Fin 0, lm_cos = \<lambda>_. Fin 0, lm_sqrt = \<lambda>_. Fin 0\<rparr>"

definition demo_observed :: "string \<Rightarrow> int \<Rightarrow> int \<Rightarrow> observed" where
  "demo_observed i available decision =
     \<lparr>ob_event_id = i, ob_payment_id = i, ob_rail = Card, ob_event_type = Authorization,
       ob_amount = Dec False 10 0, ob_currency = ''EUR'', ob_event_time = utc_at available,
       ob_available_at = utc_at available, ob_decision_at = Some (utc_at decision), ob_actor_id = ''a'',
       ob_counterparty_id = ''c'', ob_optional_refs = [], ob_integrity_status = ''not_applicable'',
       ob_integrity_reason = None, ob_is_decision_point = True\<rparr>"

lemma demo_catalog_ok: "audit_feature_catalog demo_catalog = Inr ()" "executable demo_catalog"
proof -
  show "audit_feature_catalog demo_catalog = Inr ()" by code_simp
  show "executable demo_catalog"
    by (simp add: executable_def demo_catalog_def demo_feature_def catalog_names_def expected_feature_names_def)
qed

lemma utc_time_at [simp]: "utc_time (utc_at t)"
  by (simp add: utc_time_def validate_utc_timestamp_def utc_at_def utcoffset_def tzname_def)

lemma demo_log_domain: "log_domain (demo_observed i a d)"
proof -
  have "float_of_dec (Dec False 10 0) = Fin 10" by code_simp
  then show ?thesis by (simp add: log_domain_def demo_observed_def)
qed

lemma demo_observable [simp]: "observable (demo_observed i a d)"
  using demo_log_domain [of i a d] by (simp add: observable_def demo_observed_def)

lemma demo_same [simp]: "same_observed (demo_observed i a d) (demo_observed i a d)"
  by (simp add: same_observed_def demo_observed_def dec_eq_def)

lemma demo_fields [simp]:
  "ob_event_id (demo_observed i a d) = i" "ob_is_decision_point (demo_observed i a d)"
  "ob_decision_at (demo_observed i a d) = Some (utc_at d)" "ob_available_at (demo_observed i a d) = utc_at a"
  by (simp_all add: demo_observed_def)

lemma demo_feature_session: "\<exists>S. feature_session J M demo_catalog S []"
  by (auto simp: new_feature_state_def feature_catalog_digest_def demo_catalog_ok intro!: feature_session.created)

lemma demo_consistent: "consistent (set [demo_observed ''d1'' 0 10, demo_observed ''d2'' 12 20])"
  by (simp add: consistent_def inj_on_def)

text \<open>Events a consistent set of observations holds are processed by a fresh state.\<close>

lemma fresh_process:
  assumes "feature_session J M c S []" "executable c" "fs_known S = []" "fs_watermark S = None" "consistent (set es)"
    and "\<forall>e \<in> set es. observable e \<and> ob_decision_at e \<noteq> None"
  obtains vs S' where "process_features M es S = (Inr vs, S')" "feature_session J M c S' vs"
proof -
  have obs: "\<forall>e \<in> set es. observable e" using assms(6) by simp
  have rem: "fst (remember es S) = Inr ()"
    using remember_fresh [OF assms(3,4), of "[]" es] assms(5,6) by (auto simp: remember_def split: sum.splits)
  from process_outcome [OF session_facts(1) [OF assms(1,2)] obs, of M] rem
  obtain vs S' where run: "process_features M es S = (Inr vs, S')" by auto
  with feature_session.called [OF assms(1) obs run] that show thesis by simp
qed

lemma demo_features_run:
  obtains S vs S' where "feature_session J M demo_catalog S []"
    "process_features M [demo_observed ''d1'' 0 10, demo_observed ''d2'' 12 20] S = (Inr vs, S')"
    "feature_session J M demo_catalog S' vs"
    "set (known_events S') = {demo_observed ''d1'' 0 10, demo_observed ''d2'' 12 20}"
proof -
  let ?es = "[demo_observed ''d1'' 0 10, demo_observed ''d2'' 12 20]"
  obtain S where new: "new_feature_state J demo_catalog = Inr S"
    by (auto simp: new_feature_state_def feature_catalog_digest_def demo_catalog_ok)
  then have S: "feature_session J M demo_catalog S []" by (rule feature_session.created)
  note facts = new_state_facts [OF new]
  obtain vs S' where run: "process_features M ?es S = (Inr vs, S')" "feature_session J M demo_catalog S' vs"
    using fresh_process [OF S demo_catalog_ok(2) facts(2,3) demo_consistent] by auto
  obtain T where T: "remember ?es S = (Inr (), T)" using run(1) by (auto simp: process_features_def res_simps)
  have "fs_known S' = fs_known T"
  proof -
    have "\<forall>e \<in> set ?es. observable e" by simp
    from process_call [OF session_facts(1) [OF S demo_catalog_ok(2)] this T, of M] run(1)
    show ?thesis by (metis prod.inject)
  qed
  moreover have "fs_known T = map entry ?es"
  proof -
    from remember_facts [OF facts(8) T] obtain staged where
      "foldlr (remember_step S) [] ?es = Inr staged" "fs_known T = fs_known S @ staged" by blast
    moreover have "foldlr (remember_step S) [] ?es = Inr (map entry ?es)"
    proof -
      have "demo_observed ''d2'' 12 20 \<noteq> demo_observed ''d1'' 0 10" by (simp add: demo_observed_def)
      then show ?thesis using remember_fresh [OF facts(2,3), of "[]" ?es] demo_consistent by simp
    qed
    ultimately show ?thesis using facts(2) by simp
  qed
  ultimately have "set (known_events S') = set ?es" by (simp add: known_events_def entry_def)
  with that S run show thesis by simp
qed

section \<open>Causal vectors\<close>




section \<open>Failures\<close>

lemma remember_errors:
  assumes "foldlr (remember_step S) staged events = Inl e"
  shows "e = FeatureStateError ''duplicate event ID has conflicting observations'' \<or>
    e = FeatureStateError ''decision-point event must declare decision_at'' \<or>
    e = FeatureStateError ''decision belongs to a closed decision timestamp''"
  using assms
proof (induction events arbitrary: staged)
  case (Cons ev events)
  show ?case
  proof (cases "remember_step S staged ev")
    case (Inl e')
    with Cons.prems show ?thesis
      by (auto simp: remember_step_def split: option.splits if_splits)
  next
    case (Inr t)
    with Cons show ?thesis by simp
  qed
qed simp

text \<open>A call of \<open>process\<close> on observations in UTC whose amounts \<open>math.log1p\<close> takes, in any session of such
  calls, leaves the feature state as it was when it raises, and raises only because an
  identifier comes back with another observation, a decision point declares no decision time, or its
  time is closed already. No vector is ever lost in a call that raises.
\<close>

theorem features_failure_atomic:
  assumes "feature_session J M c S rows" "executable c" "\<forall>e \<in> set events. observable e"
    and "process_features M events S = (Inl e, S')"
  shows "S' = S \<and> (e = FeatureStateError ''duplicate event ID has conflicting observations'' \<or>
    e = FeatureStateError ''decision-point event must declare decision_at'' \<or>
    e = FeatureStateError ''decision belongs to a closed decision timestamp'')"
proof -
  from process_outcome [OF session_facts(1) [OF assms(1,2)] assms(3), of M] assms(4)
  have "S' = S" "remember events S = (Inl e, S)" by auto
  moreover from this(2) have "foldlr (remember_step S) [] events = Inl e"
    by (auto simp: remember_def split: sum.splits)
  ultimately show ?thesis using remember_errors by blast
qed

lemma features_failure_atomic_witness:
  "\<exists>S rows e. feature_session (\<lambda>_. []) demo_libm demo_catalog S rows \<and> rows \<noteq> [] \<and>
    process_features demo_libm [demo_observed ''d1'' 1 10] S = (Inl e, S)"
proof -
  let ?e = "demo_observed ''d1'' 1 10"
  obtain S vs S' where run: "feature_session (\<lambda>_. []) demo_libm demo_catalog S' vs"
    "set (known_events S') = {demo_observed ''d1'' 0 10, demo_observed ''d2'' 12 20}"
    using demo_features_run [of "\<lambda>_. []" demo_libm] by blast
  have ok: "session_ok S'" by (rule session_facts(1) [OF run(1) demo_catalog_ok(2)])
  then have "well_keyed S'" by (simp add: session_ok_def feature_ok_def)
  from known_lookup [OF this, of "demo_observed ''d1'' 0 10"] run(2)
  have "map_of (fs_known S') ''d1'' = Some (demo_observed ''d1'' 0 10)" by simp
  moreover have "\<not> same_observed (demo_observed ''d1'' 0 10) ?e"
    by (simp add: same_observed_def)
  ultimately have "remember [?e] S' = (Inl (FeatureStateError ''duplicate event ID has conflicting observations''), S')"
    by (simp add: remember_def remember_step_def)
  then obtain e T where p: "process_features demo_libm [?e] S' = (Inl e, T)"
    by (simp add: process_features_def bindm_def)
  have "\<forall>x \<in> set [?e]. observable x" by simp
  from features_failure_atomic [OF run(1) demo_catalog_ok(2) this p] p
  have "process_features demo_libm [?e] S' = (Inl e, S')" by simp
  moreover have "ob_event_id (demo_observed ''d1'' 0 10) \<in> set (fs_emitted S')"
    using settled_emitted [OF ok, of "demo_observed ''d1'' 0 10"] run(2) by simp
  then have "vs \<noteq> []" using session_facts(3) [OF run(1) demo_catalog_ok(2)] by (auto simp: log_ok_def)
  ultimately show ?thesis using run(1) by blast
qed

section \<open>Streams in parts\<close>

text \<open>C22. Online and offline agree: feeding a stream to \<open>process\<close> in two calls returns the same vectors and
  leaves the same state as feeding it at once, as long as nothing new in the second part was available
  before a decision of the first. In particular, appending the future changes no earlier vector.
\<close>

theorem features_in_parts:
  assumes "feature_session J M c S rows" "executable c" "\<forall>e \<in> set (E1 @ E2). observable e"
    and "process_features M E1 S = (Inr vs1, S1)" "process_features M E2 S1 = (Inr vs2, S2)"
    and "\<forall>e \<in> set E2. ob_event_id e \<notin> fst ` set (fs_known S1) \<longrightarrow>
      (\<forall>v \<in> set vs1. instant (fv_decision_at v) \<le> instant (ob_available_at e))"
  shows "process_features M (E1 @ E2) S = (Inr (vs1 @ vs2), S2)"
  by (rule process_in_two [OF session_facts(1) [OF assms(1,2)] assms(3-6)])

lemma features_in_parts_witness:
  "\<exists>S vs1 S1 vs2 S2. feature_session (\<lambda>_. []) demo_libm demo_catalog S [] \<and>
    process_features demo_libm [demo_observed ''d1'' 0 10] S = (Inr vs1, S1) \<and> map fv_event_id vs1 = [''d1''] \<and>
    process_features demo_libm [demo_observed ''d2'' 12 20] S1 = (Inr vs2, S2) \<and>
    process_features demo_libm ([demo_observed ''d1'' 0 10] @ [demo_observed ''d2'' 12 20]) S = (Inr (vs1 @ vs2), S2)"
proof -
  let ?e1 = "demo_observed ''d1'' 0 10" and ?e2 = "demo_observed ''d2'' 12 20"
  obtain S where new: "new_feature_state (\<lambda>_. []) demo_catalog = Inr S"
    by (auto simp: new_feature_state_def feature_catalog_digest_def demo_catalog_ok)
  then have S: "feature_session (\<lambda>_. []) demo_libm demo_catalog S []" by (rule feature_session.created)
  note facts = new_state_facts [OF new]
  have c1: "consistent (set [?e1])" by (simp add: consistent_def)
  obtain vs1 S1 where r1: "process_features demo_libm [?e1] S = (Inr vs1, S1)" "feature_session (\<lambda>_. []) demo_libm demo_catalog S1 vs1"
    using fresh_process [OF S demo_catalog_ok(2) facts(2,3) c1] by auto
  have ok: "session_ok S" "session_ok S1" by (rule session_facts(1) [OF S demo_catalog_ok(2)]) (rule session_facts(1) [OF r1(2) demo_catalog_ok(2)])
  obtain T where T: "remember [?e1] S = (Inr (), T)" using r1(1) by (auto simp: process_features_def res_simps)
  have kT: "fs_known T = [(''d1'', ?e1)]" "fs_emitted T = []" "fs_watermark T = None"
    using T facts by (auto simp: remember_def remember_step_def store_event_def Let_def)
  have "pending_decisions T = [?e1]" by (simp add: pending_decisions_def known_events_def kT)
  have "\<forall>e \<in> set [?e1]. observable e" by simp
  from process_call [OF ok(1) this T, of demo_libm] r1(1)
  have c: "process_cohorts demo_libm (cohorts [?e1]) T = (Inr vs1, S1)" "fs_known S1 = fs_known T"
    unfolding \<open>pending_decisions T = [?e1]\<close> by (metis prod.inject sum.inject(2))+
  have w: "fs_watermark S1 = Some (utc_at 10)"
    using c(1) kT(3) by (auto simp: process_cohort_def Let_def bindm_def split: sum.splits)
  have v1: "map fv_event_id vs1 = [''d1'']"
    using process_features_ok(5) [OF r1(1) facts(8) refl] T \<open>pending_decisions T = [?e1]\<close> by (simp add: event_ids_def)
  have v1t: "instant (fv_decision_at v) = 10" if "v \<in> set vs1" for v
  proof -
    have "causal_vector S1 (set (known_events S1)) v"
      using session_facts(3) [OF r1(2) demo_catalog_ok(2)] that by (simp add: log_ok_def)
    then show ?thesis by (simp add: causal_vector_def known_events_def c(2) kT(1) opt_instant_def)
  qed
  have rem: "remember [?e2] S1 = (Inr (), store_event S1 (''d2'', ?e2))"
    using w c(2) kT(1) by (simp add: remember_def remember_step_def)
  have obs2: "\<forall>e \<in> set [?e2]. observable e" by simp
  from process_call [OF ok(2) obs2 rem, of demo_libm] obtain vs2 S2 where r2: "process_features demo_libm [?e2] S1 = (Inr vs2, S2)"
    by blast
  have obs: "\<forall>e \<in> set ([?e1] @ [?e2]). observable e" by simp
  have "\<forall>e \<in> set [?e2]. ob_event_id e \<notin> fst ` set (fs_known S1) \<longrightarrow>
      (\<forall>v \<in> set vs1. instant (fv_decision_at v) \<le> instant (ob_available_at e))"
    using v1t by simp
  from features_in_parts [OF S demo_catalog_ok(2) obs r1(1) r2 this] S r1(1) r2 v1 show ?thesis
    by (intro exI [of _ S] exI [of _ vs1] exI [of _ S1] exI [of _ vs2] exI [of _ S2] conjI)
qed

section \<open>Matrices\<close>

text \<open>C35. The rows of a one-shot matrix, or the error, depend only on the set of observations: neither their
  order nor repeated deliveries of the same observation matter, as long as no two different observations
  share an identifier.
\<close>

theorem matrix_of_set:
  assumes "consistent (set E1)" "set E1 = set E2"
  shows "map_sum id fm_rows (build_feature_matrix J M E1 c) = map_sum id fm_rows (build_feature_matrix J M E2 c)"
proof (cases "new_feature_state J c")
  case (Inl e)
  then show ?thesis by (simp add: build_feature_matrix_def)
next
  case (Inr S)
  have "remember (sort_key ob_event_id E1) S = remember (sort_key ob_event_id E2) S"
    using assms new_state_facts(2,3) [OF Inr] by (intro remember_set) simp_all
  then have "process_features M (sort_key ob_event_id E1) S = process_features M (sort_key ob_event_id E2) S"
    by (simp add: process_features_def bindm_def)
  then show ?thesis
    using Inr by (cases "feature_catalog_digest J c"; cases "fst (process_features M (sort_key ob_event_id E2) S)")
      (simp_all add: build_feature_matrix_def Let_def)
qed

lemma matrix_of_set_witness:
  "map_sum id fm_rows (build_feature_matrix (\<lambda>_. []) demo_libm
      [demo_observed ''d1'' 0 10, demo_observed ''d2'' 12 20] demo_catalog) =
    map_sum id fm_rows (build_feature_matrix (\<lambda>_. []) demo_libm
      [demo_observed ''d2'' 12 20, demo_observed ''d1'' 0 10, demo_observed ''d2'' 12 20] demo_catalog)"
  by (rule matrix_of_set [OF demo_consistent]) auto

section \<open>A decision in its own history\<close>

definition demo_state :: "string \<Rightarrow> feature_state" where
  "demo_state h = \<lparr>fs_catalog = demo_catalog, fs_catalog_digest = h, fs_known = [], fs_admitted = [], fs_emitted = [],
       fs_late = [], fs_late_marks = [], fs_openings = [], fs_watermark = None, fs_actor = [],
       fs_counterparty = [], fs_pair = [], fs_outcome = [], fs_actor_amount = [],
       fs_counterparty_amount = [], fs_edges = []\<rparr>"

lemma demo_state_session: "\<exists>h. feature_session J M demo_catalog (demo_state h) []"
  by (auto simp: new_feature_state_def feature_catalog_digest_def demo_catalog_ok demo_state_def
      intro!: exI feature_session.created)

lemma actor_count_sources:
  assumes "compute_vector M d S ev = Inr v" "fs_catalog S = demo_catalog"
  shows "set (fv_source_event_ids v) = set (event_ids (actor_events S ev (Some day_window)))"
proof -
  have "map_of (feature_table M) ''actor_count_24h'' = Some (\<lambda>S ev. with_events count_of (actor_events S ev (Some day_window)))"
    by (simp add: feature_table_def transaction_features_def temporal_features_def)
  then have "derive_feature M S ev demo_feature = Inr (x, src) \<Longrightarrow> src = event_ids (actor_events S ev (Some day_window))" for x src
    by (auto simp: derive_feature_def demo_feature_def with_events_def)
  moreover have "fc_features demo_catalog = [demo_feature]" by (simp add: demo_catalog_def)
  ultimately show ?thesis
    using assms by (auto simp: compute_vector_def Let_def bindr_Inr feature_vector_valid_def split: if_splits)
qed

lemma admit_history: "i \<in> set (history (fs_actor S) k) \<Longrightarrow> i \<in> set (history (fs_actor (foldl admit_event S evs)) k)"
proof (induction evs arbitrary: S)
  case (Cons ev evs)
  have "i \<in> set (history (fs_actor (admit_event S ev)) k)"
    using Cons.prems by (auto simp: admit_event_def Let_def history_add_set)
  from Cons.IH [OF this] show ?case by simp
qed simp

lemma lookup_known_in: "i \<in> set ids \<Longrightarrow> map_of (fs_known S) i = Some e \<Longrightarrow> e \<in> set (lookup_known S ids)"
  by (induction ids) (auto simp: lookup_known_def map_filter_simps split: option.split)

lemma demo_key:
  "available_key (demo_observed i a d) = (a, i)" "decision_key (demo_observed i a d) = (d, i)"
  "ob_actor_id (demo_observed i a d) = ''a''" "ob_event_time (demo_observed i a d) = utc_at a"
  by (simp_all add: available_key_def decision_key_def) (simp_all add: demo_observed_def)

text \<open>A decision that was available before an earlier decision is admitted with the earlier cohort and
  then counts itself: two card authorizations of one actor, the second available at 5 and decided at 20,
  the first decided at 10, give a vector that names its own decision among its sources. Fed one decision
  after the other (\<open>features_in_parts\<close> does not apply) the second is not known when the first is decided.
\<close>

theorem decision_in_own_history:
  "\<exists>S vs S' v. feature_session J M demo_catalog S [] \<and>
    process_features M [demo_observed ''d1'' 0 10, demo_observed ''d2'' 5 20] S = (Inr vs, S') \<and>
    v \<in> set vs \<and> fv_event_id v \<in> set (fv_source_event_ids v)"
proof -
  let ?e1 = "demo_observed ''d1'' 0 10" and ?e2 = "demo_observed ''d2'' 5 20"
  obtain h where S: "feature_session J M demo_catalog (demo_state h) []" using demo_state_session by blast
  have st: "fs_known (demo_state h) = []" "fs_watermark (demo_state h) = None" by (simp_all add: demo_state_def)
  have c: "consistent (set [?e1, ?e2])" by (simp add: consistent_def inj_on_def)
  obtain vs S' where run: "process_features M [?e1, ?e2] (demo_state h) = (Inr vs, S')"
  proof -
    have "\<forall>e \<in> set [?e1, ?e2]. observable e \<and> ob_decision_at e \<noteq> None" by simp
    from fresh_process [OF S demo_catalog_ok(2) st c this] that show thesis by blast
  qed
  define T where "T = demo_state h\<lparr>fs_known := [(''d1'', ?e1), (''d2'', ?e2)]\<rparr>"
  have rem: "remember [?e1, ?e2] (demo_state h) = (Inr (), T)"
    by (simp add: remember_def remember_step_def st T_def store_event_def Let_def)
  have "pending_decisions T = [?e1, ?e2]"
    by (simp add: pending_decisions_def known_events_def T_def demo_key demo_state_def)
  then have "process_features M [?e1, ?e2] (demo_state h) = process_cohorts M [[?e1], [?e2]] T"
    using rem by (simp add: process_features_def bindm_def same_decision_def opt_instant_def)
  with run obtain vs1 S1 vs2 where r: "process_cohort M [?e1] T = (Inr vs1, S1)" "process_cohort M [?e2] S1 = (Inr vs2, S')"
    "vs = vs1 @ vs2"
    by (auto simp: res_simps)
  have "admission_candidates (utc_at 10) [''d1''] T = [?e2]"
    by (simp add: admission_candidates_def known_events_def T_def demo_state_def)
  with r(1) have S1: "S1 = (admit_event T ?e2)\<lparr>fs_emitted := [''d1''], fs_watermark := Some (utc_at 10)\<rparr>"
    by (auto simp: process_cohort_def event_ids_def admit_sources_def Let_def T_def demo_state_def admit_event_def split: sum.splits)
  define S2 where "S2 = admit_sources (utc_at 20) [''d2''] S1"
  have "feature_ok (demo_state h)" using session_facts(1) [OF S demo_catalog_ok(2)] by (simp add: session_ok_def)
  from remember_ok(1) [OF this rem] have okT: "feature_ok T" .
  have b: "set [?e1] \<subseteq> set (known_events T)" "\<forall>e \<in> set [?e1]. \<forall>e' \<in> set [?e1]. same_decision e e'"
    by (simp_all add: known_events_def T_def same_decision_def)
  note ok1 = process_cohort_ok(1-3) [OF r(1) okT b]
  have "''d2'' \<in> set (history (fs_actor S1) ''a'')"
    by (simp add: S1 admit_event_def Let_def T_def demo_state_def demo_key history_add_set)
  then have k: "fs_known S2 = fs_known T" "fs_catalog S2 = demo_catalog" "''d2'' \<in> set (history (fs_actor S2) ''a'')"
  proof -
    assume h: "''d2'' \<in> set (history (fs_actor S1) ''a'')"
    show "fs_known S2 = fs_known T" unfolding S2_def admit_sources_ok(2) [OF ok1(1)] by (rule ok1(2))
    have "fs_catalog T = demo_catalog" by (simp add: T_def demo_state_def)
    then show "fs_catalog S2 = demo_catalog" unfolding S2_def admit_sources_ok(3) [OF ok1(1)] ok1(3) .
    show "''d2'' \<in> set (history (fs_actor S2) ''a'')"
      unfolding S2_def admit_sources_def by (rule admit_history [OF h])
  qed
  from r(2) S1 obtain v where v: "v \<in> set vs2" "compute_vector M (utc_at 20) S2 ?e2 = Inr v"
    by (auto simp: process_cohort_def event_ids_def Let_def bindr_Inr S2_def split: sum.splits)
  have "fv_event_id v = ''d2''"
    using v(2) by (auto simp: compute_vector_def Let_def bindr_Inr feature_vector_valid_def split: if_splits)
  moreover have "?e2 \<in> set (actor_events S2 ?e2 (Some day_window))"
  proof -
    have "map_of (fs_known S2) ''d2'' = Some ?e2" by (simp add: k(1) T_def)
    from lookup_known_in [OF k(3) this] show ?thesis
      by (simp add: actor_events_def selected_def demo_key day_window_def)
  qed
  then have "''d2'' \<in> set (fv_source_event_ids v)"
    unfolding actor_count_sources [OF v(2) k(2)] by (force simp: event_ids_def)
  ultimately have "fv_event_id v \<in> set (fv_source_event_ids v)" by simp
  with S run v(1) r(3) show ?thesis by (intro exI [of _ "demo_state h"] exI [of _ vs] exI [of _ S'] exI [of _ v]) simp
qed

section \<open>Where the inputs come from\<close>

lemma float_not_negative: "dfinite a \<Longrightarrow> \<not> dec_less a dec_zero \<Longrightarrow> case float_of_dec a of Fin x \<Rightarrow> - 1 < x | Inf s \<Rightarrow> \<not> s | NaN \<Rightarrow> True"
proof (cases a)
  case (Dec s c e)
  assume "\<not> dec_less a dec_zero"
  then have "0 \<le> dsig a"
    using units_sign(2) [of "min (dexp a) 0" a] by (simp add: dec_less_def dec_zero_def Let_def units_def)
  then have x: "0 \<le> dec_rat a" by (simp add: dec_rat_def)
  have "0 \<le> rat_half_even y" if "0 \<le> y" for y
    using that by (auto simp: rat_half_even_def Let_def)
  then have "0 \<le> rat_half_even (\<bar>dec_rat a\<bar> / two_pow e')" for e' by (simp add: two_pow_pos less_imp_le)
  then have "(0::rat) \<le> of_int (rat_half_even (dec_rat a / two_pow e')) * two_pow e'" for e'
    using x by (simp add: less_imp_le)
  then have "(- 1::rat) < of_int (rat_half_even (dec_rat a / two_pow e')) * two_pow e'" for e'
    by (meson less_le_trans neg_less_0_iff_less zero_less_one)
  with x show ?thesis by (simp add: Dec float_of_dec_def fl_def Let_def)
qed simp_all

text \<open>A valid payment event with a finite amount, scrubbed, is observable.\<close>

lemma scrub_observable:
  assumes "payment_event_valid ev = Inr ev'" "dfinite (pe_amount ev)" "scrub_event ev = Inr ob"
  shows "observable ob"
proof -
  have v: "validate_utc_timestamp (pe_available_at ev) = Inr x \<Longrightarrow> utc_time (pe_available_at ev)" for x
    by (auto simp: validate_utc_timestamp_def utc_time_def split: if_splits)
  from assms(1) have "utc_time (pe_available_at ev)" "\<not> dec_less (pe_amount ev) dec_zero"
    "pred_option utc_time (pe_decision_at ev)"
    by (auto simp: payment_event_valid_def event_times_and_amount_def bindr_Inr optional_def utc_time_def
        validate_utc_timestamp_def split: if_splits option.splits)
  moreover from assms(3) have "ob_available_at ob = pe_available_at ev" "ob_decision_at ob = pe_decision_at ev"
    "ob_amount ob = pe_amount ev"
    by (auto simp: scrub_event_def Let_def split: option.splits pyval.splits if_splits prod.splits)
  ultimately show ?thesis using float_not_negative [OF assms(2)] by (simp add: observable_def log_domain_def)
qed

text \<open>A catalog that is loaded audits and is executable.\<close>

lemma loaded_catalog:
  assumes "checked_catalog c = Inr c'"
  shows "c' = c" "audit_feature_catalog c = Inr ()" "executable c"
  using assms by (auto simp: checked_catalog_def executable_def bindr_Inr split: if_splits)

end
