(* ===== verification/Cases.thy ===== *)
theory Cases
  imports Observed Sha256 PyUuid
begin

text \<open>
  Investigation cases and the alerts they hold, with their validators (\<open>cases/grouping.py\<close>).
\<close>

section \<open>Cases\<close>

datatype case_motif = IsolatedCase | SharedActor | SharedCounterparty | TransitiveCase

record case_alert =
  ca_event_id :: string
  ca_decision_at :: datetime
  ca_actor_id :: string
  ca_counterparty_id :: string
  ca_motif :: case_motif
  ca_visible_value :: pydec
  ca_graph_evidence_at :: "datetime option"
  ca_score :: double
  ca_action :: action
  ca_sources :: "string list"

definition bounded_id :: "string \<Rightarrow> bool" where
  "bounded_id s \<longleftrightarrow> s \<noteq> [] \<and> length s \<le> 4096"

text \<open>\<open>value == tuple(sorted(set(value)))\<close>\<close>

definition sorted_unique :: "string list \<Rightarrow> bool" where
  "sorted_unique xs \<longleftrightarrow> xs = sort (remdups xs)"

definition case_alert_valid :: "case_alert \<Rightarrow> case_alert res" where
  "case_alert_valid a =
     bindr (ensure (list_all bounded_id [ca_event_id a, ca_actor_id a, ca_counterparty_id a])
       (ValueError ''case evidence identifiers must be bounded non-empty text'')) (\<lambda>_.
     bindr (validate_utc_timestamp (ca_decision_at a)) (\<lambda>_.
     bindr (optional validate_utc_timestamp (ca_graph_evidence_at a)) (\<lambda>_.
     bindr (ensure (dfinite (ca_visible_value a) \<and> \<not> dec_less (ca_visible_value a) dec_zero)
       (ValueError ''visible value must be finite'')) (\<lambda>_.
     bindr (ensure (unit_float (ca_score a)) (ValueError ''case evidence score must be an exact finite float'')) (\<lambda>_.
     bindr (ensure (list_all bounded_id (ca_sources a) \<and> sorted_unique (ca_sources a))
       (ValueError ''case evidence sources must be bounded, sorted, and unique'')) (\<lambda>_.
     if (case ca_graph_evidence_at a of None \<Rightarrow> False | Some g \<Rightarrow> instant (ca_decision_at a) \<le> instant g)
     then Inl (ValueError ''case graph evidence must be strictly earlier than the alert'')
     else Inr a))))))"

record investigation_case =
  ic_case_id :: string
  ic_opened_at :: datetime
  ic_event_ids :: "string list"
  ic_actor_ids :: "string list"
  ic_counterparty_ids :: "string list"
  ic_first_alert_at :: datetime
  ic_priority :: double
  ic_estimated_minutes :: int
  ic_first_evidence :: "string list"
  ic_alerts :: "case_alert list"

text \<open>\<open>_case_id\<close>: the digest of the canonical JSON that names the first evidence.\<close>

definition case_id_of :: "string list \<Rightarrow> string" where
  "case_id_of first =
     ''case-'' @ sha256_hex (''{'' @ json_str ''domain'' @ '':'' @ json_str ''apar-investigation-case-v1'' @ '','' @
       json_str ''first_evidence'' @ '':'' @ json_list json_str first @ ''}'')"

definition case_id_text :: "string \<Rightarrow> bool" where
  "case_id_text v \<longleftrightarrow> take 5 v = ''case-'' \<and> length (drop 5 v) = 64 \<and> py_int16 (drop 5 v) \<noteq> None \<and>
     ascii_lower (drop 5 v) = drop 5 v"

definition canonical_ids :: "string list \<Rightarrow> bool" where
  "canonical_ids xs \<longleftrightarrow> xs \<noteq> [] \<and> list_all bounded_id xs \<and> sorted_unique xs"

definition hundred_float :: "double \<Rightarrow> bool" where
  "hundred_float x = (case x of Fin y \<Rightarrow> 0 \<le> y \<and> y \<le> 100 | _ \<Rightarrow> False)"

definition alert_key :: "case_alert \<Rightarrow> int \<times> string" where
  "alert_key a = (instant (ca_decision_at a), ca_event_id a)"

text \<open>\<open>chronology_is_coherent\<close>\<close>

definition case_coherent :: "investigation_case \<Rightarrow> investigation_case res" where
  "case_coherent r =
     (if instant (ic_opened_at r) \<noteq> instant (ic_first_alert_at r)
      then Inl (ValueError ''opened_at must equal first_alert_at'')
      else if ic_alerts r = [] then Inl (ValueError ''investigation cases require causal alert evidence'')
      else if ic_alerts r \<noteq> sort_key alert_key (ic_alerts r)
      then Inl (ValueError ''case alert evidence must use canonical causal order'')
      else if \<not> distinct (map ca_event_id (ic_alerts r))
      then Inl (ValueError ''case alert evidence event IDs must be unique'')
      else if ic_event_ids r \<noteq> sort (map ca_event_id (ic_alerts r))
      then Inl (ValueError ''case event IDs must exactly bind alert evidence'')
      else if \<not> set (ic_first_evidence r) \<subseteq> set (map ca_event_id
        (filter (\<lambda>a. instant (ca_decision_at a) = instant (ic_opened_at r)) (ic_alerts r)))
      then Inl (ValueError ''first evidence IDs must bind an opening alert batch'')
      else if ic_case_id r \<noteq> case_id_of (ic_first_evidence r)
      then Inl (ValueError ''case_id must be content-derived from first evidence'')
      else if \<not> set (map ca_actor_id (ic_alerts r)) \<subseteq> set (ic_actor_ids r)
      then Inl (ValueError ''case actor IDs must contain every alert actor'')
      else if \<not> set (map ca_counterparty_id (ic_alerts r)) \<subseteq> set (ic_counterparty_ids r)
      then Inl (ValueError ''case counterparty IDs must contain every alert counterparty'')
      else Inr r)"

definition case_valid :: "investigation_case \<Rightarrow> investigation_case res" where
  "case_valid r =
     bindr (mapr validate_utc_timestamp [ic_opened_at r, ic_first_alert_at r]) (\<lambda>_.
     bindr (ensure (case_id_text (ic_case_id r)) (ValueError ''case_id must contain a lowercase SHA-256 digest'')) (\<lambda>_.
     bindr (ensure (list_all canonical_ids
         [ic_event_ids r, ic_actor_ids r, ic_counterparty_ids r, ic_first_evidence r])
       (ValueError ''case identifier sets must be sorted and unique'')) (\<lambda>_.
     bindr (ensure (hundred_float (ic_priority r)) (ValueError ''case priority must be finite'')) (\<lambda>_.
     bindr (ensure (1 \<le> ic_estimated_minutes r \<and> ic_estimated_minutes r \<le> 1000000)
       (ValueError ''estimated minutes must be a bounded exact integer'')) (\<lambda>_.
     bindr (mapr case_alert_valid (ic_alerts r)) (\<lambda>_. case_coherent r))))))"

end
