(* ===== verification/FloatBounds.thy ===== *)
theory FloatBounds
  imports PyFloat
begin

text \<open>
  Rounding keeps order against representable values: what is at least (at most) a dyadic number of 53
  bits stays so when it is rounded. With this a comparison of a rounded quotient is a comparison of
  integers, as long as a representable number separates the two.
\<close>

lemma two_pow_nat: "two_pow (int n) = 2 ^ n"
  by (simp add: two_pow_def)

lemma two_pow_add: "two_pow (a + b) = two_pow a * two_pow b"
proof -
  have p: "two_pow a = 2 powi a" for a
    by (simp add: two_pow_def power_int_def inverse_eq_divide power_one_over)
  show ?thesis unfolding p by (rule power_int_add) simp
qed

lemma two_pow_mono: "a \<le> b \<Longrightarrow> two_pow a \<le> two_pow b"
proof -
  assume "a \<le> b"
  then have b: "b = a + int (nat (b - a))" by simp
  have "(1::rat) \<le> 2 ^ nat (b - a)" by simp
  then have "two_pow a * 1 \<le> two_pow a * 2 ^ nat (b - a)" by (intro mult_left_mono) (simp_all add: less_imp_le)
  then show ?thesis by (subst b) (simp only: two_pow_add two_pow_nat mult_1_right)
qed

lemma floor_log2_bounds:
  assumes "0 < x"
  shows "two_pow (floor_log2 x) \<le> x" "x < two_pow (floor_log2 x + 1)"
proof -
  obtain n d where q: "quotient_of x = (n, d)" by fastforce
  have d: "0 < d" using quotient_of_denom_pos [OF q] .
  have x: "x = of_int n / of_int d" by (rule quotient_of_div [OF q])
  with assms d have n: "0 < n" by (simp add: zero_less_divide_iff)
  define bn where "bn = int (bit_len (nat n))"
  define bd where "bd = int (bit_len (nat d))"
  have bits: "two_pow (int (bit_len (nat m)) - 1) \<le> of_int m \<and> of_int m < two_pow (int (bit_len (nat m)))"
    if "0 < m" for m
  proof -
    from that have "2 ^ (bit_len (nat m) - 1) \<le> nat m" "nat m < 2 ^ bit_len (nat m)" "0 < bit_len (nat m)"
      using bit_len_bounds [of "nat m"] by auto
    then have "(2::int) ^ (bit_len (nat m) - 1) \<le> m" "m < 2 ^ bit_len (nat m)" "0 < bit_len (nat m)"
      using that by (simp_all add: nat_less_iff le_nat_iff)
    then have "(2::rat) ^ (bit_len (nat m) - 1) \<le> of_int m" "of_int m < (2::rat) ^ bit_len (nat m)"
      "int (bit_len (nat m)) - 1 = int (bit_len (nat m) - 1)"
      by (metis of_int_le_iff of_int_power of_int_numeral, metis of_int_less_iff of_int_power of_int_numeral, simp)
    then show ?thesis by (simp only: two_pow_nat)
  qed
  from bits [OF n] bits [OF d] have b: "two_pow (bn - 1) \<le> of_int n" "of_int n < two_pow bn"
    "two_pow (bd - 1) \<le> of_int d" "of_int d < two_pow bd"
    unfolding bn_def bd_def by simp_all
  have "two_pow (bn - bd - 1) * of_int d \<le> two_pow (bn - bd - 1) * two_pow bd"
    using b(4) by (intro mult_left_mono) (simp_all add: less_imp_le)
  also have "\<dots> = two_pow (bn - 1)" by (simp only: two_pow_add [symmetric]) simp
  finally have lo: "two_pow (bn - bd - 1) \<le> x" using b(1) d by (simp add: x pos_le_divide_eq)
  have "two_pow bn = two_pow (bn - bd + 1) * two_pow (bd - 1)" by (simp only: two_pow_add [symmetric]) simp
  also have "\<dots> \<le> two_pow (bn - bd + 1) * of_int d"
    using b(3) by (intro mult_left_mono) (simp_all add: less_imp_le)
  finally have hi: "x < two_pow (bn - bd + 1)" using b(2) d by (simp add: x pos_divide_less_eq)
  have e: "floor_log2 x = (if x < two_pow (bn - bd) then bn - bd - 1 else bn - bd)"
    by (simp add: floor_log2_def q bn_def bd_def Let_def)
  from lo hi show "two_pow (floor_log2 x) \<le> x" "x < two_pow (floor_log2 x + 1)"
    by (auto simp: e)
qed

lemma rat_half_even_ge: "of_int k \<le> x \<Longrightarrow> k \<le> rat_half_even x"
proof -
  assume "of_int k \<le> x"
  then have "k \<le> \<lfloor>x\<rfloor>" by (simp add: le_floor_iff)
  then show ?thesis by (auto simp: rat_half_even_def Let_def)
qed

text \<open>Dyadic numbers of 53 bits.\<close>

definition dyadic :: "nat \<Rightarrow> int \<Rightarrow> rat" where
  "dyadic j n = of_int n / 2 ^ j"

lemma dyadic_scaled:
  assumes "e \<le> - int j"
  shows "\<exists>k. dyadic j n / two_pow e = of_int k"
proof -
  have "two_pow e * (2 ^ j * 2 ^ nat (- int j - e)) = two_pow (e + (int j + int (nat (- int j - e))))"
    by (simp only: two_pow_add two_pow_nat)
  also have "e + (int j + int (nat (- int j - e))) = 0" using assms by simp
  finally have "two_pow e * (2 ^ j * 2 ^ nat (- int j - e)) = 1" by (simp add: two_pow_def)
  then have "1 / two_pow e = 2 ^ j * 2 ^ nat (- int j - e)"
    by (metis nonzero_mult_div_cancel_left order_less_irrefl two_pow_pos)
  then have "dyadic j n / two_pow e = of_int (n * 2 ^ nat (- int j - e))"
    by (simp add: dyadic_def divide_inverse)
  then show ?thesis by blast
qed

lemma fl_le_dyadic:
  assumes "0 \<le> x" "x \<le> dyadic j n" "n < 2 ^ 53" "j \<le> 1074"
  shows "\<exists>y. fl x = Fin y \<and> 0 \<le> y \<and> y \<le> dyadic j n"
proof (cases "x = 0")
  case True
  with assms(2) show ?thesis by (simp add: fl_def)
next
  case False
  with assms(1) have x: "0 < x" by simp
  define e where "e = max (floor_log2 \<bar>x\<bar> - 52) (- 1074)"
  define y where "y = of_int (rat_half_even (x / two_pow e)) * two_pow e"
  have "dyadic j n < two_pow (53 - int j)"
  proof -
    have "(of_int n :: rat) < 2 ^ 53" using assms(3) by (metis of_int_less_iff of_int_numeral of_int_power)
    then have "dyadic j n < 2 ^ 53 / 2 ^ j" by (simp add: dyadic_def divide_strict_right_mono)
    also have "\<dots> = two_pow (53 - int j)"
      using two_pow_add [of "53 - int j" "int j"] two_pow_nat [of 53] two_pow_nat [of j] by (simp add: field_simps)
    finally show ?thesis .
  qed
  with assms(2) have "x < two_pow (53 - int j)" by simp
  with floor_log2_bounds(1) [OF x] have "two_pow (floor_log2 x) < two_pow (53 - int j)" by simp
  then have "floor_log2 x < 53 - int j" using two_pow_mono by (metis linorder_not_le)
  then have "e \<le> - int j" using x assms(4) by (simp add: e_def)
  then obtain k where k: "dyadic j n / two_pow e = of_int k" using dyadic_scaled by blast
  have "x / two_pow e \<le> of_int k" using assms(2) by (simp only: k [symmetric]) (simp add: divide_right_mono less_imp_le)
  then have "rat_half_even (x / two_pow e) \<le> k" by (rule rat_half_even_le)
  then have "y \<le> of_int k * two_pow e" unfolding y_def by (intro mult_right_mono) (simp_all add: less_imp_le)
  also have "\<dots> = dyadic j n"
    using k by (metis nonzero_eq_divide_eq order_less_irrefl two_pow_pos)
  finally have hi: "y \<le> dyadic j n" .
  have "0 \<le> rat_half_even (x / two_pow e)"
    using rat_half_even_ge [of 0 "x / two_pow e"] x by (simp add: less_imp_le)
  then have lo: "0 \<le> y" by (simp add: y_def less_imp_le)
  have "dyadic j n < two_pow 1024"
    using \<open>dyadic j n < two_pow (53 - int j)\<close> two_pow_mono [of "53 - int j" 1024] by simp
  with hi lo have "fl x = Fin y" using False by (simp add: fl_def e_def [symmetric] y_def [symmetric] Let_def)
  with hi lo show ?thesis by blast
qed

lemma fl_ge_dyadic:
  assumes "0 \<le> n" "dyadic j n \<le> x" "n < 2 ^ 53" "j \<le> 1074"
  shows "fl x = Inf False \<or> (\<exists>y. fl x = Fin y \<and> dyadic j n \<le> y)"
proof (cases "x = 0")
  case True
  with assms(2) show ?thesis by (simp add: fl_def)
next
  case False
  have d0: "0 \<le> dyadic j n" using assms(1) by (simp add: dyadic_def)
  with assms(2) False have x: "0 < x" by simp
  define e where "e = max (floor_log2 \<bar>x\<bar> - 52) (- 1074)"
  define y where "y = of_int (rat_half_even (x / two_pow e)) * two_pow e"
  have "dyadic j n \<le> y"
  proof (cases "e \<le> - int j")
    case True
    then obtain k where k: "dyadic j n / two_pow e = of_int k" using dyadic_scaled by blast
    have "of_int k \<le> x / two_pow e" using assms(2) by (simp only: k [symmetric]) (simp add: divide_right_mono less_imp_le)
    then have "k \<le> rat_half_even (x / two_pow e)" by (rule rat_half_even_ge)
    then have "of_int k * two_pow e \<le> y" unfolding y_def by (intro mult_right_mono) (simp_all add: less_imp_le)
    moreover have "of_int k * two_pow e = dyadic j n"
      using k by (metis nonzero_eq_divide_eq order_less_irrefl two_pow_pos)
    ultimately show ?thesis by simp
  next
    case False
    with assms(4) have e: "e = floor_log2 x - 52" "1 - int j \<le> e" using x by (auto simp: e_def)
    have "two_pow (52 + e) \<le> x" using floor_log2_bounds(1) [OF x] e(1) by simp
    then have "of_int (2 ^ 52) \<le> x / two_pow e"
      using two_pow_add [of 52 e] two_pow_nat [of 52] by (simp add: pos_le_divide_eq)
    then have "2 ^ 52 \<le> rat_half_even (x / two_pow e)" by (rule rat_half_even_ge)
    then have "(2::rat) ^ 52 \<le> of_int (rat_half_even (x / two_pow e))"
      by (metis of_int_le_iff of_int_numeral of_int_power)
    then have "2 ^ 52 * two_pow e \<le> y" unfolding y_def by (intro mult_right_mono) (simp_all add: less_imp_le)
    moreover have "2 ^ 52 * two_pow (1 - int j) \<le> 2 ^ 52 * two_pow e" using two_pow_mono [OF e(2)] by simp
    moreover have "2 ^ 52 * two_pow (1 - int j) = 2 ^ 53 / 2 ^ j"
      using two_pow_add [of "1 - int j" "int j"] two_pow_nat [of j] two_pow_nat [of 1] by (simp add: field_simps)
    moreover have "dyadic j n \<le> 2 ^ 53 / 2 ^ j"
    proof -
      have "(of_int n :: rat) \<le> 2 ^ 53" using assms(3) by (metis less_imp_le of_int_le_iff of_int_numeral of_int_power)
      then show ?thesis by (simp add: dyadic_def divide_right_mono)
    qed
    ultimately show ?thesis by linarith
  qed
  moreover have "fl x = (if two_pow 1024 \<le> \<bar>y\<bar> then Inf False else Fin y)"
    using x by (simp add: fl_def e_def y_def Let_def)
  ultimately show ?thesis by auto
qed

section \<open>Minutes\<close>

text \<open>
  \<open>timedelta.total_seconds() / 60.0\<close>: minutes as two rounded divisions of a number of microseconds.
  They exceed a whole number of minutes exactly when the microseconds do.
\<close>

definition minutes_of :: "int \<Rightarrow> double" where
  "minutes_of us = fdiv (int_div us 1000000) (Fin 60)"

lemma dyadic_int: "dyadic 0 n = of_int n"
  by (simp add: dyadic_def)

lemma minutes_below:
  assumes "0 \<le> us" "us \<le> m * 60000000" "m \<le> 2 ^ 40"
  shows "\<exists>y. minutes_of us = Fin y \<and> 0 \<le> y \<and> y \<le> of_int m"
proof -
  have "(of_int us :: rat) \<le> of_int (m * 60000000)" using assms(2) by (simp only: of_int_le_iff)
  then have "(of_int us / of_int 1000000 :: rat) \<le> dyadic 0 (m * 60)" by (simp add: dyadic_int)
  moreover have "m * 60 < 2 ^ 53" using assms(3) by simp
  ultimately obtain y where y: "int_div us 1000000 = Fin y" "0 \<le> y" "y \<le> dyadic 0 (m * 60)"
    using fl_le_dyadic [of "of_int us / of_int 1000000" 0 "m * 60"] assms(1) by (auto simp: int_div_def)
  then have "y / 60 \<le> dyadic 0 m" by (simp add: dyadic_int)
  moreover have "m < 2 ^ 53" using assms(3) by simp
  ultimately obtain z where "fl (y / 60) = Fin z" "0 \<le> z" "z \<le> dyadic 0 m"
    using fl_le_dyadic [of "y / 60" 0 m] y(2) by auto
  then show ?thesis by (simp add: minutes_of_def lift_fl_def y(1) dyadic_int)
qed

lemma minutes_above:
  assumes "0 \<le> m" "m * 60000000 < us" "m \<le> 2 ^ 20" "us \<le> 2 ^ 60"
  shows "\<exists>y. minutes_of us = Fin y \<and> of_int m < y"
proof -
  have cap: "us \<le> 2 ^ 40 * 60000000" using assms(4) by simp
  obtain z where z: "minutes_of us = Fin z" using minutes_below [OF _ cap] assms(1,2) by fastforce
  have us: "(of_int (m * 60000000) + 1 :: rat) \<le> of_int us" using assms(2) by (metis of_int_1 of_int_add of_int_le_iff zless_imp_add1_zle)
  have "dyadic 20 (m * 60 * 2 ^ 20 + 1) = of_int (m * 60) + 1 / 2 ^ 20"
    by (simp add: dyadic_def add_divide_distrib)
  also have "\<dots> \<le> of_int us / of_int 1000000" using us by (simp add: field_simps)
  finally have "dyadic 20 (m * 60 * 2 ^ 20 + 1) \<le> of_int us / of_int 1000000" .
  moreover have "m * 60 * 2 ^ 20 + 1 < 2 ^ 53" using assms(3) by simp
  ultimately have "int_div us 1000000 = Inf False \<or> (\<exists>y. int_div us 1000000 = Fin y \<and> dyadic 20 (m * 60 * 2 ^ 20 + 1) \<le> y)"
    unfolding int_div_def using assms(1) by (intro fl_ge_dyadic) simp_all
  then obtain y where y: "int_div us 1000000 = Fin y" "dyadic 20 (m * 60 * 2 ^ 20 + 1) \<le> y"
    using z by (auto simp: minutes_of_def lift_fl_def)
  have "dyadic 26 (m * 2 ^ 26 + 1) = of_int m + 1 / 2 ^ 26"
    by (simp add: dyadic_def add_divide_distrib)
  also have "\<dots> \<le> dyadic 20 (m * 60 * 2 ^ 20 + 1) / 60" by (simp add: dyadic_def field_simps)
  also have "\<dots> \<le> y / 60" using y(2) by (simp add: divide_right_mono)
  finally have "dyadic 26 (m * 2 ^ 26 + 1) \<le> y / 60" .
  moreover have "m * 2 ^ 26 + 1 < 2 ^ 53" using assms(3) by simp
  ultimately have "fl (y / 60) = Inf False \<or> (\<exists>w. fl (y / 60) = Fin w \<and> dyadic 26 (m * 2 ^ 26 + 1) \<le> w)"
    using assms(1) by (intro fl_ge_dyadic) simp_all
  moreover have "fl (y / 60) = Fin z" using z by (simp add: minutes_of_def lift_fl_def y(1))
  ultimately have "dyadic 26 (m * 2 ^ 26 + 1) \<le> z" by simp
  with z show ?thesis by (simp add: dyadic_def add_divide_distrib)
qed

end
