(* ===== verification/CaseQueue.thy ===== *)
theory CaseQueue
  imports Cases FloatBounds
begin

text \<open>
  The review queue (\<open>cases/queue.py\<close>): the frozen capacity, the allocation of service slots in causal
  order, and the report that binds its inputs, its snapshots and its counts.
\<close>

section \<open>Capacity\<close>

record queue_config =
  qc_analyst_count :: int
  qc_service_minutes :: int
  qc_sla_minutes :: int
  qc_bucket_minutes :: int

definition queue_config_valid :: "queue_config \<Rightarrow> queue_config res" where
  "queue_config_valid c =
     (if \<not> (1 \<le> qc_analyst_count c \<and> qc_analyst_count c \<le> 100000) \<or>
         list_ex (\<lambda>m. \<not> (1 \<le> m \<and> m \<le> 1000000)) [qc_service_minutes c, qc_sla_minutes c, qc_bucket_minutes c]
      then Inl (ValueError ''queue configuration counts are out of range'')
      else if qc_bucket_minutes c < qc_service_minutes c
      then Inl (ValueError ''service time must not exceed the capacity bucket'')
      else if qc_bucket_minutes c mod qc_service_minutes c \<noteq> 0
      then Inl (ValueError ''capacity bucket must contain an exact number of service slots'')
      else Inr c)"

section \<open>Snapshots\<close>

record case_snapshot =
  cs_case_id :: string
  cs_opened_at :: datetime
  cs_started_at :: datetime
  cs_completed_at :: datetime
  cs_wait_minutes :: double
  cs_sla_breached :: bool
  cs_analyst_minutes :: int
  cs_priority :: double

abbreviation minutes :: "int \<Rightarrow> int" where "minutes m \<equiv> m * 60000000"

definition float_over_int :: "double \<Rightarrow> int \<Rightarrow> bool" where
  "float_over_int x n = (case x of Fin y \<Rightarrow> of_int n < y | Inf s \<Rightarrow> \<not> s | NaN \<Rightarrow> False)"

definition case_snapshot_valid :: "case_snapshot \<Rightarrow> case_snapshot res" where
  "case_snapshot_valid s =
     bindr (ensure (case_id_text (cs_case_id s))
       (ValueError ''snapshot case_id must contain a lowercase SHA-256 digest'')) (\<lambda>_.
     bindr (mapr validate_utc_timestamp [cs_opened_at s, cs_started_at s, cs_completed_at s]) (\<lambda>_.
     bindr (ensure ((case cs_wait_minutes s of Fin w \<Rightarrow> 0 \<le> w | _ \<Rightarrow> False) \<and> hundred_float (cs_priority s))
       (ValueError ''queue snapshot metrics must be finite'')) (\<lambda>_.
     bindr (ensure (1 \<le> cs_analyst_minutes s \<and> cs_analyst_minutes s \<le> 1000000)
       (ValueError ''snapshot analyst minutes must be a bounded exact integer'')) (\<lambda>_.
     if instant (cs_started_at s) < instant (cs_opened_at s)
     then Inl (ValueError ''case cannot start before it opens'')
     else if instant (cs_completed_at s) \<noteq> instant (cs_started_at s) + minutes (cs_analyst_minutes s)
     then Inl (ValueError ''completion must equal start plus analyst minutes'')
     else if cs_wait_minutes s \<noteq> minutes_of (instant (cs_started_at s) - instant (cs_opened_at s))
     then Inl (ValueError ''wait_minutes must equal start minus opening time'')
     else Inr s))))"

section \<open>Allocation\<close>

text \<open>Adding a \<open>timedelta\<close>: the result lies between the years 1 and 9999.\<close>

definition max_local :: int where
  "max_local = 3652059 * 86400000000"

definition datetime_add :: "datetime \<Rightarrow> int \<Rightarrow> datetime res" where
  "datetime_add d us =
     (if 0 \<le> dt_local d + us \<and> dt_local d + us < max_local
      then Inr (d\<lparr>dt_local := dt_local d + us, dt_fold := 0\<rparr>) else Inl (OverflowError ''date value out of range''))"

text \<open>\<open>datetime(1970, 1, 1, tzinfo=UTC)\<close>\<close>

definition unix_epoch :: datetime where
  "unix_epoch = utc_at (719162 * 86400000000)"

definition first_slot_at_or_after :: "datetime \<Rightarrow> queue_config \<Rightarrow> datetime res" where
  "first_slot_at_or_after opened c =
     (let elapsed = instant opened - instant unix_epoch;
          bucket = minutes (qc_bucket_minutes c);
          index = elapsed div bucket;
          in_bucket = elapsed - index * bucket;
          service = minutes (qc_service_minutes c);
          wave = (in_bucket + service - 1) div service
      in bindr (datetime_add unix_epoch (index * bucket)) (\<lambda>bucket_start.
         if qc_bucket_minutes c div qc_service_minutes c \<le> wave
         then datetime_add bucket_start (minutes (qc_bucket_minutes c))
         else datetime_add bucket_start (minutes (wave * qc_service_minutes c))))"

text \<open>The last slot given out and how many cases it has.\<close>

definition start_of :: "queue_config \<Rightarrow> (datetime \<times> int) option \<Rightarrow> datetime \<Rightarrow> datetime \<Rightarrow> (datetime \<times> int) res" where
  "start_of c recent opened earliest = (case recent of
       None \<Rightarrow> Inr (earliest, 1)
     | Some (slot, uses) \<Rightarrow>
         if instant opened \<le> instant slot \<and> uses < qc_analyst_count c then Inr (slot, uses + 1)
         else bindr (datetime_add slot (minutes (qc_service_minutes c))) (\<lambda>after.
           Inr (if instant earliest < instant after then after else earliest, 1)))"

definition allocate_row ::
  "queue_config \<Rightarrow> (datetime \<times> int) option \<Rightarrow> investigation_case \<Rightarrow> ((datetime \<times> int) \<times> case_snapshot) res" where
  "allocate_row c recent row =
     bindr (first_slot_at_or_after (ic_opened_at row) c) (\<lambda>earliest.
     bindr (start_of c recent (ic_opened_at row) earliest) (\<lambda>(started, uses).
     let wait = minutes_of (instant started - instant (ic_opened_at row))
     in bindr (datetime_add started (minutes (qc_service_minutes c))) (\<lambda>completed.
        bindr (case_snapshot_valid \<lparr>cs_case_id = ic_case_id row, cs_opened_at = ic_opened_at row,
            cs_started_at = started, cs_completed_at = completed, cs_wait_minutes = wait,
            cs_sla_breached = float_over_int wait (qc_sla_minutes c),
            cs_analyst_minutes = qc_service_minutes c, cs_priority = ic_priority row\<rparr>) (\<lambda>snapshot.
        Inr ((started, uses), snapshot)))))"

fun allocate_rows ::
  "queue_config \<Rightarrow> (datetime \<times> int) option \<Rightarrow> investigation_case list \<Rightarrow> case_snapshot list res" where
  "allocate_rows c recent [] = Inr []"
| "allocate_rows c recent (row # rows) =
     bindr (allocate_row c recent row) (\<lambda>(slot, snapshot).
     bindr (allocate_rows c (Some slot) rows) (\<lambda>snapshots. Inr (snapshot # snapshots)))"

definition allocate_snapshots :: "investigation_case list \<Rightarrow> queue_config \<Rightarrow> case_snapshot list res" where
  "allocate_snapshots rows c = allocate_rows c None rows"

section \<open>The backlog\<close>

text \<open>The two positions of the loop are how many openings and starts have been passed.\<close>

function backlog_loop :: "int list \<Rightarrow> int list \<Rightarrow> int \<Rightarrow> int \<Rightarrow> int \<Rightarrow> int" where
  "backlog_loop [] starts arrived started peak = peak"
| "backlog_loop (t # openings) starts arrived started peak =
     (let arrived' = arrived + 1 + int (length (takeWhile (\<lambda>x. x = t) openings));
          started' = started + int (length (takeWhile (\<lambda>x. x \<le> t) starts))
      in backlog_loop (dropWhile (\<lambda>x. x = t) openings) (dropWhile (\<lambda>x. x \<le> t) starts) arrived' started'
           (max peak (arrived' - started')))"
  by pat_completeness auto
termination by (relation "measure (\<lambda>(openings, _). length openings)") (auto simp: le_imp_less_Suc length_dropWhile_le)

definition peak_backlog :: "case_snapshot list \<Rightarrow> int" where
  "peak_backlog snapshots =
     backlog_loop (sort (map (instant \<circ> cs_opened_at) snapshots)) (sort (map (instant \<circ> cs_started_at) snapshots)) 0 0 0"

section \<open>Reports\<close>

record queue_report =
  qr_config :: queue_config
  qr_case_inputs :: "investigation_case list"
  qr_snapshots :: "case_snapshot list"
  qr_arrival_count :: int
  qr_completed_count :: int
  qr_analyst_minutes :: int
  qr_peak_backlog :: int
  qr_sla_breaches :: int
  qr_digest :: string

text \<open>
  What pydantic and \<open>json\<close> do with a report: the document of its dump, the canonical text of a document,
  a dump without the digest, parsing, and coercing a parsed document.
\<close>

record 'j queue_codec =
  qk_dump :: "queue_report \<Rightarrow> 'j"
  qk_dump_unsigned :: "queue_report \<Rightarrow> 'j"
  qk_canonical :: "'j \<Rightarrow> string"
  qk_loads :: "string \<Rightarrow> 'j option"
  qk_is_object :: "'j \<Rightarrow> bool"
  qk_coerce :: "'j \<Rightarrow> queue_report option"

definition float_value :: "double \<Rightarrow> rat" where
  "float_value x = (case x of Fin y \<Rightarrow> y | _ \<Rightarrow> 0)"

definition case_key :: "investigation_case \<Rightarrow> int \<times> rat \<times> string" where
  "case_key r = (instant (ic_opened_at r), - float_value (ic_priority r), ic_case_id r)"

definition report_digest :: "'j queue_codec \<Rightarrow> queue_report \<Rightarrow> string" where
  "report_digest K r = sha256_hex (qk_canonical K (qk_dump_unsigned K r))"

definition count_breaches :: "case_snapshot list \<Rightarrow> int" where
  "count_breaches ss = int (length (filter cs_sla_breached ss))"

definition max_payload :: nat where
  "max_payload = 64 * 1024 * 1024"

text \<open>Equality of snapshots compares times as instants.\<close>

definition same_snapshot :: "case_snapshot \<Rightarrow> case_snapshot \<Rightarrow> bool" where
  "same_snapshot a b \<longleftrightarrow> cs_case_id a = cs_case_id b \<and> instant (cs_opened_at a) = instant (cs_opened_at b) \<and>
     instant (cs_started_at a) = instant (cs_started_at b) \<and> instant (cs_completed_at a) = instant (cs_completed_at b) \<and>
     cs_wait_minutes a = cs_wait_minutes b \<and> cs_sla_breached a = cs_sla_breached b \<and>
     cs_analyst_minutes a = cs_analyst_minutes b \<and> cs_priority a = cs_priority b"

text \<open>\<open>evidence_is_consistent\<close>. An overflow of the reconstructed schedule is a value error.\<close>

definition evidence_consistent :: "'j queue_codec \<Rightarrow> queue_report \<Rightarrow> queue_report res" where
  "evidence_consistent K r =
     (if 100000 < length (qr_case_inputs r) then Inl (ValueError ''queue case count exceeds frozen resource cap'')
      else if qr_case_inputs r \<noteq> sort_key case_key (qr_case_inputs r)
      then Inl (ValueError ''queue case inputs must use canonical causal order'')
      else if \<not> distinct (map ic_case_id (qr_case_inputs r))
      then Inl (ValueError ''queue case input IDs must be unique'')
      else if \<not> distinct (map cs_case_id (qr_snapshots r))
      then Inl (ValueError ''queue snapshot case IDs must be unique'')
      else bindr (rethrow (ValueError ''queue schedule exceeds frozen resource bounds'')
          (allocate_snapshots (qr_case_inputs r) (qr_config r))) (\<lambda>expected.
        if \<not> list_all2 same_snapshot (qr_snapshots r) expected
        then Inl (ValueError ''queue snapshots must match the canonical reconstructed online schedule'')
        else if list_ex (\<lambda>s. cs_analyst_minutes s \<noteq> qc_service_minutes (qr_config r)) (qr_snapshots r)
        then Inl (ValueError ''snapshot service time must match the frozen fixture'')
        else if qr_arrival_count r \<noteq> int (length (qr_snapshots r))
        then Inl (ValueError ''arrival count must equal snapshot count'')
        else if qr_completed_count r \<noteq> int (length (qr_snapshots r))
        then Inl (ValueError ''completed count must equal snapshot count'')
        else if qr_analyst_minutes r \<noteq> sum_list (map cs_analyst_minutes (qr_snapshots r))
        then Inl (ValueError ''analyst minutes must equal snapshot service time'')
        else if qr_sla_breaches r \<noteq> count_breaches (qr_snapshots r)
        then Inl (ValueError ''SLA breach count must equal snapshot breaches'')
        else if list_ex (\<lambda>s. cs_sla_breached s \<noteq> float_over_int (cs_wait_minutes s) (qc_sla_minutes (qr_config r)))
          (qr_snapshots r)
        then Inl (ValueError ''snapshot SLA status must use the frozen strict boundary'')
        else if qr_peak_backlog r \<noteq> peak_backlog (qr_snapshots r)
        then Inl (ValueError ''peak backlog must match causal arrival/start evidence'')
        else if qr_digest r \<noteq> report_digest K r then Inl (ValueError ''queue report digest is inconsistent'')
        else if max_payload < length (qk_canonical K (qk_dump K r))
        then Inl (ValueError ''queue report payload exceeds frozen resource cap'')
        else Inr r))"

definition digest_text_ok :: "string \<Rightarrow> bool" where
  "digest_text_ok v \<longleftrightarrow> length v = 64 \<and> ascii_lower v = v \<and> py_int16 v \<noteq> None"

text \<open>\<open>QueueReport.model_validate\<close>: the nested models, the counts, the digest's form, the evidence.\<close>

definition queue_report_valid :: "'j queue_codec \<Rightarrow> queue_report \<Rightarrow> queue_report res" where
  "queue_report_valid K r =
     bindr (queue_config_valid (qr_config r)) (\<lambda>_.
     bindr (mapr case_valid (qr_case_inputs r)) (\<lambda>_.
     bindr (mapr case_snapshot_valid (qr_snapshots r)) (\<lambda>_.
     bindr (ensure (list_all (\<lambda>n. 0 \<le> n \<and> n \<le> 100000000000) [qr_arrival_count r, qr_completed_count r,
         qr_analyst_minutes r, qr_peak_backlog r, qr_sla_breaches r])
       (ValueError ''queue aggregates must be bounded exact integers'')) (\<lambda>_.
     bindr (ensure (digest_text_ok (qr_digest r)) (ValueError ''queue report digest must be lowercase SHA-256'')) (\<lambda>_.
     evidence_consistent K r)))))"

definition to_json :: "'j queue_codec \<Rightarrow> queue_report \<Rightarrow> string res" where
  "to_json K r =
     bindr (rethrow (QueueContractError ''queue report failed semantic revalidation or payload resource cap'')
       (queue_report_valid K r)) (\<lambda>validated.
     let payload = qk_canonical K (qk_dump K validated)
     in if max_payload < length payload
        then Inl (QueueContractError ''queue report payload exceeds frozen resource cap'') else Inr payload)"

definition from_json :: "'j queue_codec \<Rightarrow> string \<Rightarrow> queue_report res" where
  "from_json K payload =
     (if max_payload < length payload
      then Inl (QueueContractError ''queue report payload exceeds frozen resource cap'')
      else case qk_loads K payload of
          None \<Rightarrow> Inl (QueueContractError ''queue report JSON is malformed'')
        | Some document \<Rightarrow>
            if \<not> qk_is_object K document
            then Inl (QueueContractError ''queue report JSON must contain an object'')
            else if payload \<noteq> qk_canonical K document
            then Inl (QueueContractError ''queue report JSON must use canonical encoding'')
            else case qk_coerce K document of
                None \<Rightarrow> Inl (QueueContractError ''queue report failed validation'')
              | Some r \<Rightarrow> rethrow (QueueContractError ''queue report failed validation'') (queue_report_valid K r))"

section \<open>Simulation\<close>

definition revalidate_config :: "queue_config \<Rightarrow> queue_config res" where
  "revalidate_config c =
     rethrow (QueueContractError ''QueueConfig failed deterministic semantic revalidation'') (queue_config_valid c)"

definition revalidate_case :: "queue_config \<Rightarrow> investigation_case \<Rightarrow> investigation_case res" where
  "revalidate_case c row =
     bindr (rethrow (QueueContractError ''InvestigationCase failed deterministic semantic revalidation'')
       (case_valid row)) (\<lambda>validated.
     if ic_estimated_minutes validated \<noteq> qc_service_minutes c
     then Inl (QueueContractError ''case estimated_minutes must equal the frozen service fixture'')
     else Inr validated)"

text \<open>Of what the allocation can raise, only an overflow is turned into a contract error.\<close>

definition bounded_schedule :: "'a res \<Rightarrow> 'a res" where
  "bounded_schedule r = (case r of
       Inl (OverflowError _) \<Rightarrow> Inl (QueueContractError ''queue simulation exceeded frozen resource bounds'')
     | _ \<Rightarrow> r)"

definition simulate_case_queue ::
  "'j queue_codec \<Rightarrow> investigation_case list \<Rightarrow> queue_config \<Rightarrow> queue_report res" where
  "simulate_case_queue K cases config =
     bindr (revalidate_config config) (\<lambda>c.
     if 100000 < length cases then Inl (QueueContractError ''queue case count exceeds frozen resource cap'')
     else bindr (mapr (revalidate_case c) cases) (\<lambda>rows.
     if \<not> distinct (map ic_case_id rows) then Inl (QueueContractError ''duplicate case_id in queue input'')
     else let ordered = sort_key case_key rows
       in bindr (bounded_schedule (allocate_snapshots ordered c)) (\<lambda>snapshots.
          let report = \<lparr>qr_config = c, qr_case_inputs = ordered, qr_snapshots = snapshots,
                qr_arrival_count = int (length ordered), qr_completed_count = int (length ordered),
                qr_analyst_minutes = int (length ordered) * qc_service_minutes c,
                qr_peak_backlog = peak_backlog snapshots, qr_sla_breaches = count_breaches snapshots, qr_digest = []\<rparr>
          in rethrow (QueueContractError ''queue report failed validation'')
               (queue_report_valid K (report\<lparr>qr_digest := report_digest K report\<rparr>)))))"

end
