(* ===== verification/QueueSchedule.thy ===== *)
theory QueueSchedule
  imports CaseQueue
begin

text \<open>
  The schedule of the queue: every case starts at the first service slot at or after its opening that
  is not full, so no analyst idles while a case waits, and no slot has more cases than analysts.
\<close>

section \<open>Slots\<close>

definition service_us :: "queue_config \<Rightarrow> int" where
  "service_us c = qc_service_minutes c * 60000000"

definition on_grid :: "queue_config \<Rightarrow> int \<Rightarrow> bool" where
  "on_grid c t \<longleftrightarrow> (t - instant unix_epoch) mod service_us c = 0"

lemma queue_config_Inr:
  assumes "queue_config_valid c = Inr c'"
  shows "c' = c" "1 \<le> qc_analyst_count c" "1 \<le> qc_service_minutes c" "qc_service_minutes c \<le> 1000000"
    "0 \<le> qc_sla_minutes c" "qc_sla_minutes c \<le> 1000000" "qc_bucket_minutes c \<le> 1000000"
    "\<exists>k. 1 \<le> k \<and> qc_bucket_minutes c = k * qc_service_minutes c" "0 < service_us c"
proof -
  from assms show "c' = c" "1 \<le> qc_analyst_count c" "1 \<le> qc_service_minutes c" "qc_service_minutes c \<le> 1000000"
    "0 \<le> qc_sla_minutes c" "qc_sla_minutes c \<le> 1000000" "qc_bucket_minutes c \<le> 1000000" "0 < service_us c"
    by (auto simp: queue_config_valid_def service_us_def split: if_splits)
  from assms have b: "qc_bucket_minutes c mod qc_service_minutes c = 0" "qc_service_minutes c \<le> qc_bucket_minutes c"
    "1 \<le> qc_service_minutes c"
    by (auto simp: queue_config_valid_def split: if_splits)
  then have "qc_bucket_minutes c = (qc_bucket_minutes c div qc_service_minutes c) * qc_service_minutes c"
    by (metis add.right_neutral div_mult_mod_eq)
  moreover have "1 \<le> qc_bucket_minutes c div qc_service_minutes c" using b by (simp add: pos_imp_zdiv_pos_iff int_one_le_iff_zero_less)
  ultimately show "\<exists>k. 1 \<le> k \<and> qc_bucket_minutes c = k * qc_service_minutes c" by blast
qed

lemma datetime_add_Inr [res_simps]:
  "datetime_add d us = Inr d' \<longleftrightarrow> 0 \<le> dt_local d + us \<and> dt_local d + us < max_local \<and>
     d' = d\<lparr>dt_local := dt_local d + us, dt_fold := 0\<rparr>"
  by (auto simp: datetime_add_def)

lemma added_instant [simp]: "instant (d\<lparr>dt_local := dt_local d + us, dt_fold := f\<rparr>) = instant d + us"
  by (simp add: instant_def utcoffset_def)

lemma added_utc [simp]: "normal_utc (d\<lparr>dt_local := l, dt_fold := f\<rparr>) = normal_utc d"
  by (simp add: normal_utc_def)

lemma datetime_add_facts:
  assumes "datetime_add d us = Inr d'"
  shows "instant d' = instant d + us" "normal_utc d' = normal_utc d" "0 \<le> dt_local d + us"
  using assms by (auto simp: datetime_add_Inr)

definition ceiling_div :: "int \<Rightarrow> int \<Rightarrow> int" where
  "ceiling_div a b = (a + b - 1) div b"

lemma ceiling_div_bounds:
  assumes "0 < b"
  shows "a \<le> ceiling_div a b * b" "ceiling_div a b * b < a + b"
proof -
  have "a + b - 1 = ceiling_div a b * b + (a + b - 1) mod b" by (simp add: ceiling_div_def)
  moreover have "0 \<le> (a + b - 1) mod b" "(a + b - 1) mod b < b" using assms by simp_all
  ultimately show "a \<le> ceiling_div a b * b" "ceiling_div a b * b < a + b" by linarith+
qed

text \<open>The slot as a sum: whole buckets from the epoch, then whole slots.\<close>

lemma first_slot_form:
  assumes c: "queue_config_valid c = Inr c'"
  obtains q r w k where "first_slot_at_or_after opened c =
      bindr (datetime_add unix_epoch (q * (k * service_us c))) (\<lambda>st. datetime_add st (w * service_us c))"
    "instant opened = instant unix_epoch + q * (k * service_us c) + r" "0 \<le> r" "r \<le> w * service_us c"
    "w * service_us c < r + service_us c" "r < k * service_us c" "k * service_us c = qc_bucket_minutes c * 60000000"
proof -
  obtain k where k: "1 \<le> k" "qc_bucket_minutes c = k * qc_service_minutes c" using queue_config_Inr(8) [OF c] by blast
  have s: "0 < service_us c" "1 \<le> qc_service_minutes c" using queue_config_Inr(3,9) [OF c] by simp_all
  define el where "el = instant opened - instant unix_epoch"
  define B where "B = minutes (qc_bucket_minutes c)"
  define q where "q = el div B"
  define r where "r = el - q * B"
  define w where "w = ceiling_div r (service_us c)"
  have B: "B = k * service_us c" by (simp add: B_def service_us_def k(2))
  have Bpos: "0 < B" using k(1) s(1) by (simp add: B)
  have r: "0 \<le> r" "r < B" using Bpos by (simp_all add: r_def q_def minus_div_mult_eq_mod)
  note w = ceiling_div_bounds [OF s(1), of r, folded w_def]
  have wk: "w \<le> k"
  proof (rule ccontr)
    assume "\<not> w \<le> k"
    then have "(k + 1) * service_us c \<le> w * service_us c" using s(1) by (intro mult_right_mono) simp_all
    with w(2) r(2) show False by (simp add: B distrib_right)
  qed
  have waves: "qc_bucket_minutes c div qc_service_minutes c = k" using k(2) s(2) by simp
  have "first_slot_at_or_after opened c = bindr (datetime_add unix_epoch (q * B)) (\<lambda>st.
      if k \<le> w then datetime_add st B else datetime_add st (minutes (w * qc_service_minutes c)))"
    by (simp only: first_slot_at_or_after_def Let_def waves w_def ceiling_div_def r_def q_def B_def el_def service_us_def)
  moreover have "(if k \<le> w then datetime_add st B else datetime_add st (minutes (w * qc_service_minutes c))) =
      datetime_add st (w * service_us c)" for st
    using wk by (cases "k \<le> w") (simp_all add: B service_us_def mult.assoc)
  ultimately have "first_slot_at_or_after opened c =
      bindr (datetime_add unix_epoch (q * B)) (\<lambda>st. datetime_add st (w * service_us c))" by (simp only:)
  then show thesis
    using that [of q k w r] w r by (simp add: B [symmetric]) (simp add: r_def el_def B_def)
qed

lemma epoch_utc: "instant unix_epoch = dt_local unix_epoch" "normal_utc unix_epoch"
  by (simp_all add: unix_epoch_def) (simp add: utc_at_def)

lemma first_slot_facts:
  assumes c: "queue_config_valid c = Inr c'" and f: "first_slot_at_or_after opened c = Inr d"
  shows "normal_utc d" "on_grid c (instant d)" "instant opened \<le> instant d" "instant d < instant opened + service_us c"
    "0 \<le> instant opened"
proof -
  obtain q r w k where form: "first_slot_at_or_after opened c =
      bindr (datetime_add unix_epoch (q * (k * service_us c))) (\<lambda>st. datetime_add st (w * service_us c))"
    and o: "instant opened = instant unix_epoch + q * (k * service_us c) + r"
    and w: "0 \<le> r" "r \<le> w * service_us c" "w * service_us c < r + service_us c"
    using first_slot_form [OF c, of opened] by metis
  from f form obtain st where st: "datetime_add unix_epoch (q * (k * service_us c)) = Inr st"
    "datetime_add st (w * service_us c) = Inr d" by (auto simp: bindr_Inr)
  from datetime_add_facts [OF st(1)] datetime_add_facts [OF st(2)] epoch_utc
  have d: "instant d = instant unix_epoch + q * (k * service_us c) + w * service_us c" "normal_utc d"
    "0 \<le> dt_local unix_epoch + q * (k * service_us c)" by simp_all
  show "normal_utc d" by fact
  show "on_grid c (instant d)"
    by (simp add: on_grid_def d(1) mult.assoc [symmetric] distrib_right [symmetric])
  show "instant opened \<le> instant d" "instant d < instant opened + service_us c"
    using w by (simp_all add: o d(1))
  show "0 \<le> instant opened" using d(3) w(1) by (simp add: o epoch_utc(1))
qed

lemma first_slot_total:
  assumes c: "queue_config_valid c = Inr c'" and "qc_bucket_minutes c * 60000000 \<le> instant opened"
    and "instant opened + service_us c < max_local"
  shows "\<exists>d. first_slot_at_or_after opened c = Inr d"
proof -
  obtain q r w k where form: "first_slot_at_or_after opened c =
      bindr (datetime_add unix_epoch (q * (k * service_us c))) (\<lambda>st. datetime_add st (w * service_us c))"
    and o: "instant opened = instant unix_epoch + q * (k * service_us c) + r" "r < k * service_us c"
      "k * service_us c = qc_bucket_minutes c * 60000000"
    and w: "0 \<le> r" "r \<le> w * service_us c" "w * service_us c < r + service_us c"
    using first_slot_form [OF c, of opened] by metis
  have "0 \<le> dt_local unix_epoch + q * (k * service_us c)" "dt_local unix_epoch + q * (k * service_us c) < max_local"
    using o assms(2,3) w queue_config_Inr(9) [OF c] epoch_utc(1) by linarith+
  moreover from this have "0 \<le> dt_local unix_epoch + q * (k * service_us c) + w * service_us c"
    "dt_local unix_epoch + q * (k * service_us c) + w * service_us c < max_local"
    using o assms(3) w epoch_utc(1) by linarith+
  ultimately show ?thesis by (simp add: form datetime_add_def)
qed

lemma grid_gap:
  assumes "on_grid c a" "on_grid c b" "a < b" "0 < service_us c"
  shows "a + service_us c \<le> b"
proof -
  have "(b - a) mod service_us c = ((b - instant unix_epoch) mod service_us c - (a - instant unix_epoch) mod service_us c) mod service_us c"
    by (simp add: mod_diff_eq)
  also have "\<dots> = 0" using assms(1,2) by (simp add: on_grid_def)
  finally have "b - a = service_us c * ((b - a) div service_us c)" by (simp add: mod_eq_0_iff_dvd)
  moreover have "0 < (b - a) div service_us c"
    using calculation assms(3,4) by (metis diff_gt_0_iff_gt mult_pos_neg mult_zero_right not_less_iff_gr_or_eq order_less_asym)
  then have "service_us c * 1 \<le> service_us c * ((b - a) div service_us c)" using assms(4) by (intro mult_left_mono) simp_all
  ultimately show ?thesis by simp
qed

lemma grid_step: "on_grid c (t + service_us c) = on_grid c t"
proof -
  have "t + service_us c - instant unix_epoch = (t - instant unix_epoch) + service_us c" by simp
  then show ?thesis by (simp only: on_grid_def mod_add_self2)
qed

section \<open>The loop\<close>

text \<open>
  The starts \<open>P\<close> given out so far and the last opening \<open>o\<close>: no slot is over-full, and every slot from the
  last opening to the last slot is full.
\<close>

definition loop_ok :: "queue_config \<Rightarrow> (datetime \<times> int) option \<Rightarrow> int list \<Rightarrow> int \<Rightarrow> bool" where
  "loop_ok c recent P opened \<longleftrightarrow> (\<forall>t. int (count_list P t) \<le> qc_analyst_count c) \<and>
     (case recent of None \<Rightarrow> P = []
      | Some (slot, uses) \<Rightarrow> normal_utc slot \<and> on_grid c (instant slot) \<and> (\<forall>p \<in> set P. p \<le> instant slot) \<and>
          int (count_list P (instant slot)) = uses \<and> 0 \<le> instant slot \<and> instant slot < max_local \<and>
          (\<forall>t. on_grid c t \<and> opened \<le> t \<and> t < instant slot \<longrightarrow> int (count_list P t) = qc_analyst_count c))"

lemma allocate_row_Inr:
  assumes "allocate_row c recent row = Inr ((started, uses), s)"
  shows "\<exists>earliest. first_slot_at_or_after (ic_opened_at row) c = Inr earliest \<and>
      start_of c recent (ic_opened_at row) earliest = Inr (started, uses)"
    "s = \<lparr>cs_case_id = ic_case_id row, cs_opened_at = ic_opened_at row, cs_started_at = started,
       cs_completed_at = started\<lparr>dt_local := dt_local started + service_us c, dt_fold := 0\<rparr>,
       cs_wait_minutes = minutes_of (instant started - instant (ic_opened_at row)),
       cs_sla_breached = float_over_int (minutes_of (instant started - instant (ic_opened_at row))) (qc_sla_minutes c),
       cs_analyst_minutes = qc_service_minutes c, cs_priority = ic_priority row\<rparr>"
    "dt_local started + service_us c < max_local"
    using assms by (auto simp: allocate_row_def bindr_Inr Let_def datetime_add_Inr case_snapshot_valid_def
        service_us_def split: if_splits)

lemma count_above: "\<forall>p \<in> set P. p \<le> (m :: int) \<Longrightarrow> m < t \<Longrightarrow> count_list P t = 0"
  by (rule count_notin) (meson not_le)

lemma loop_step:
  assumes c: "queue_config_valid c = Inr c'" and ok: "loop_ok c recent P o1" and o: "o1 \<le> instant opened"
    and f: "first_slot_at_or_after opened c = Inr earliest" and st: "start_of c recent opened earliest = Inr (started, uses)"
    and bound: "dt_local started + service_us c < max_local"
  shows "loop_ok c (Some (started, uses)) (P @ [instant started]) (instant opened)"
    "instant opened \<le> instant started" "on_grid c (instant started)"
    "\<forall>slot u. recent = Some (slot, u) \<longrightarrow> instant slot \<le> instant started"
    "\<forall>t. on_grid c t \<and> instant opened \<le> t \<and> t < instant started \<longrightarrow> int (count_list P t) = qc_analyst_count c"
proof -
  note e = first_slot_facts [OF c f]
  have n: "1 \<le> qc_analyst_count c" and s: "0 < service_us c" using queue_config_Inr(2,9) [OF c] by simp_all
  have cap: "int (count_list P t) \<le> qc_analyst_count c" for t using ok by (simp add: loop_ok_def)
  have gap: "\<not> (on_grid c t \<and> instant opened \<le> t \<and> t < instant earliest)" for t
    using grid_gap [OF _ e(2) _ s, of t] e(4) by force
  have "loop_ok c (Some (started, uses)) (P @ [instant started]) (instant opened) \<and>
    instant opened \<le> instant started \<and> on_grid c (instant started) \<and>
    (\<forall>slot u. recent = Some (slot, u) \<longrightarrow> instant slot \<le> instant started) \<and>
    (\<forall>t. on_grid c t \<and> instant opened \<le> t \<and> t < instant started \<longrightarrow> int (count_list P t) = qc_analyst_count c)"
  proof (cases recent)
    case None
    with st ok have "started = earliest" "uses = 1" "P = []" by (simp_all add: start_of_def loop_ok_def)
    with e n gap bound s show ?thesis by (auto simp: loop_ok_def None instant_normal)
  next
    case (Some p)
    obtain slot u where p: "p = (slot, u)" by (cases p)
    from ok have l: "normal_utc slot" "on_grid c (instant slot)" "\<forall>p \<in> set P. p \<le> instant slot"
      "int (count_list P (instant slot)) = u" "0 \<le> instant slot" "instant slot < max_local"
      "\<And>t. on_grid c t \<Longrightarrow> o1 \<le> t \<Longrightarrow> t < instant slot \<Longrightarrow> int (count_list P t) = qc_analyst_count c"
      by (auto simp: loop_ok_def Some p)
    show ?thesis
    proof (cases "instant opened \<le> instant slot \<and> u < qc_analyst_count c")
      case True
      with st have start: "started = slot" "uses = u + 1" by (simp_all add: start_of_def Some p)
      with True l cap o show ?thesis by (auto simp: loop_ok_def Some p)
    next
      case False
      with st obtain after where after: "datetime_add slot (service_us c) = Inr after" "uses = 1"
        "started = (if instant earliest < instant after then after else earliest)"
        by (auto simp: start_of_def Some p bindr_Inr service_us_def)
      then have a: "instant after = instant slot + service_us c" "normal_utc after" "on_grid c (instant after)"
        using l(1,2) by (auto simp: datetime_add_Inr grid_step)
      have later: "instant slot < instant started" "normal_utc started" "on_grid c (instant started)"
        "instant opened \<le> instant started"
        using a e s by (auto simp: after(3))
      have full: "int (count_list P t) = qc_analyst_count c"
        if t: "on_grid c t" "instant opened \<le> t" "t < instant started" for t
      proof (cases "instant opened \<le> instant slot")
        case True
        with False have u: "u = qc_analyst_count c" using cap [of "instant slot"] l(4) by simp
        have "instant earliest \<le> instant slot"
        proof (rule ccontr)
          assume "\<not> instant earliest \<le> instant slot"
          with grid_gap [OF l(2) e(2) _ s] e(4) True show False by simp
        qed
        then have "instant started = instant slot + service_us c" using a(1) s by (simp add: after(3))
        then have "t \<le> instant slot" using grid_gap [OF l(2) t(1) _ s] t(3) by force
        then consider "t = instant slot" | "t < instant slot" by linarith
        then show ?thesis
        proof cases
          case 2
          with l(7) t o show ?thesis by simp
        qed (use l(4) u in simp)
      next
        case False
        then have "instant slot + service_us c \<le> instant earliest"
          using grid_gap [OF l(2) e(2) _ s] e(3) by linarith
        with a(1) have "instant started = instant earliest" by (simp add: after(3))
        with gap t show ?thesis by simp
      qed
      have zero: "count_list P (instant started) = 0" by (rule count_above [OF l(3) later(1)])
      have "loop_ok c (Some (started, uses)) (P @ [instant started]) (instant opened)"
        using later cap full zero n after(2) l(3) bound s e(5)
        by (force simp: loop_ok_def instant_normal intro: order_trans less_imp_le)
      with later full show ?thesis by (auto simp: Some p)
    qed
  qed
  then show "loop_ok c (Some (started, uses)) (P @ [instant started]) (instant opened)"
    "instant opened \<le> instant started" "on_grid c (instant started)"
    "\<forall>slot u. recent = Some (slot, u) \<longrightarrow> instant slot \<le> instant started"
    "\<forall>t. on_grid c t \<and> instant opened \<le> t \<and> t < instant started \<longrightarrow> int (count_list P t) = qc_analyst_count c"
    by blast+
qed

section \<open>Schedules\<close>

definition starts :: "case_snapshot list \<Rightarrow> int list" where
  "starts ss = map (instant \<circ> cs_started_at) ss"

text \<open>A snapshot of a row: its start is the first slot from its opening on that is not full.\<close>

definition placed :: "queue_config \<Rightarrow> int list \<Rightarrow> investigation_case \<Rightarrow> case_snapshot \<Rightarrow> bool" where
  "placed c P row s \<longleftrightarrow>
     cs_case_id s = ic_case_id row \<and> cs_opened_at s = ic_opened_at row \<and> cs_priority s = ic_priority row \<and>
     cs_analyst_minutes s = qc_service_minutes c \<and>
     instant (cs_completed_at s) = instant (cs_started_at s) + service_us c \<and>
     cs_wait_minutes s = minutes_of (instant (cs_started_at s) - instant (cs_opened_at s)) \<and>
     cs_sla_breached s = float_over_int (cs_wait_minutes s) (qc_sla_minutes c) \<and>
     0 \<le> instant (cs_opened_at s) \<and> instant (cs_opened_at s) \<le> instant (cs_started_at s) \<and>
     instant (cs_started_at s) < max_local \<and> on_grid c (instant (cs_started_at s)) \<and>
     (\<forall>t. on_grid c t \<and> instant (cs_opened_at s) \<le> t \<and> t < instant (cs_started_at s) \<longrightarrow>
       int (count_list P t) = qc_analyst_count c)"

lemma placed_more:
  assumes "placed c P row s" "\<forall>t. int (count_list (P @ Q) t) \<le> qc_analyst_count c"
  shows "placed c (P @ Q) row s"
proof -
  have "int (count_list P t) = qc_analyst_count c \<Longrightarrow> int (count_list (P @ Q) t) = qc_analyst_count c" for t
    using assms(2) [rule_format, of t] by simp
  with assms(1) show ?thesis unfolding placed_def by blast
qed

lemma allocate_rows_facts:
  assumes "queue_config_valid c = Inr c'" "loop_ok c recent P opened"
    and "sorted (opened # map (\<lambda>r. instant (ic_opened_at r)) rows)" "allocate_rows c recent rows = Inr ss"
  shows "list_all2 (placed c (P @ starts ss)) rows ss \<and> (\<forall>t. int (count_list (P @ starts ss) t) \<le> qc_analyst_count c) \<and>
    sorted (starts ss) \<and> (\<forall>slot u. recent = Some (slot, u) \<longrightarrow> (\<forall>t \<in> set (starts ss). instant slot \<le> t))"
  using assms(2-)
proof (induction rows arbitrary: recent P opened ss)
  case Nil
  then show ?case by (simp add: loop_ok_def starts_def)
next
  case (Cons row rows)
  from Cons.prems(3) obtain started uses s ts where r: "allocate_row c recent row = Inr ((started, uses), s)"
    "allocate_rows c (Some (started, uses)) rows = Inr ts" "ss = s # ts"
    by (auto simp: bindr_Inr)
  note row = allocate_row_Inr [OF r(1)]
  obtain earliest where e: "first_slot_at_or_after (ic_opened_at row) c = Inr earliest"
    "start_of c recent (ic_opened_at row) earliest = Inr (started, uses)" using row(1) by blast
  have o: "opened \<le> instant (ic_opened_at row)" using Cons.prems(2) by simp
  note step = loop_step [OF assms(1) Cons.prems(1) o e row(3)]
  have sorted: "sorted (instant (ic_opened_at row) # map (\<lambda>r. instant (ic_opened_at r)) rows)" using Cons.prems(2) by simp
  note IH = Cons.IH [OF step(1) sorted r(2)]
  have P: "(P @ [instant started]) @ starts ts = P @ starts ss" by (simp add: r(3) row(2) starts_def)
  have cap: "\<forall>t. int (count_list (P @ starts ss) t) \<le> qc_analyst_count c" using IH unfolding P by blast
  have utc: "normal_utc started" "instant started < max_local" using step(1) by (simp_all add: loop_ok_def)
  have "placed c P row s"
    using step(2,3,5) first_slot_facts(5) [OF assms(1) e(1)] utc
    unfolding placed_def row(2) by simp
  from placed_more [OF this cap] have "placed c (P @ starts ss) row s" .
  moreover have "\<forall>t \<in> set (starts ts). instant started \<le> t" using IH by blast
  moreover have "starts ss = instant started # starts ts" by (simp add: r(3) row(2) starts_def)
  ultimately show ?case
    using IH cap step(4) unfolding P by (auto simp: r(3) intro: order_trans)
qed

lemma allocate_snapshots_facts:
  assumes "queue_config_valid c = Inr c'" "sorted (map (\<lambda>r. instant (ic_opened_at r)) rows)" "allocate_snapshots rows c = Inr ss"
  shows "list_all2 (placed c (starts ss)) rows ss" "\<forall>t. int (count_list (starts ss) t) \<le> qc_analyst_count c"
    "sorted (starts ss)"
proof -
  define fo where "fo = (case rows of [] \<Rightarrow> 0 | r # _ \<Rightarrow> instant (ic_opened_at r))"
  have "sorted (fo # map (\<lambda>r. instant (ic_opened_at r)) rows)" using assms(2) by (cases rows) (simp_all add: fo_def)
  moreover have "loop_ok c None [] fo" using queue_config_Inr(2) [OF assms(1)] by (simp add: loop_ok_def)
  ultimately show "list_all2 (placed c (starts ss)) rows ss" "\<forall>t. int (count_list (starts ss) t) \<le> qc_analyst_count c"
    "sorted (starts ss)"
    using allocate_rows_facts [OF assms(1), of None "[]" fo rows ss] assms(3) by (simp_all add: allocate_snapshots_def)
qed

section \<open>The service level\<close>

lemma placed_sla:
  assumes c: "queue_config_valid c = Inr c'" and s: "placed c P row s"
  shows "cs_sla_breached s \<longleftrightarrow> qc_sla_minutes c * 60000000 < instant (cs_started_at s) - instant (cs_opened_at s)"
    "\<exists>w. cs_wait_minutes s = Fin w \<and> 0 \<le> w"
proof -
  define us where "us = instant (cs_started_at s) - instant (cs_opened_at s)"
  have us: "0 \<le> us" "us \<le> 2 ^ 60" using s by (auto simp: placed_def us_def max_local_def)
  have sla: "0 \<le> qc_sla_minutes c" "qc_sla_minutes c \<le> 2 ^ 20" using queue_config_Inr(5,6) [OF c] by simp_all
  have w: "cs_wait_minutes s = minutes_of us" "cs_sla_breached s = float_over_int (minutes_of us) (qc_sla_minutes c)"
    using s by (auto simp: placed_def us_def)
  have "us \<le> 2 ^ 40 * 60000000" using us(2) by simp
  from minutes_below [OF us(1) this] show "\<exists>w. cs_wait_minutes s = Fin w \<and> 0 \<le> w" by (auto simp: w)
  show "cs_sla_breached s \<longleftrightarrow> qc_sla_minutes c * 60000000 < instant (cs_started_at s) - instant (cs_opened_at s)"
  proof (cases "us \<le> qc_sla_minutes c * 60000000")
    case True
    have "qc_sla_minutes c \<le> 2 ^ 40" using sla(2) by simp
    with minutes_below [OF us(1) True] True show ?thesis by (auto simp: w float_over_int_def us_def)
  next
    case False
    then have "qc_sla_minutes c * 60000000 < us" by simp
    from minutes_above [OF sla(1) this sla(2) us(2)] this show ?thesis by (auto simp: w float_over_int_def us_def)
  qed
qed

end
