(* ===== verification/QueueRuns.thy ===== *)
theory QueueRuns
  imports QueueSchedule
begin

text \<open>
  Runs of \<open>simulate_case_queue\<close>: what a report holds, when a schedule exists, and the backlog loop as a
  maximum over the openings.
\<close>

section \<open>Reports of a run\<close>

lemma case_alert_same: "case_alert_valid a = Inr a' \<Longrightarrow> a' = a"
  by (auto simp: case_alert_valid_def bindr_Inr split: if_splits)

lemma case_same: "case_valid r = Inr r' \<Longrightarrow> r' = r"
  by (auto simp: case_valid_def case_coherent_def bindr_Inr split: if_splits)

lemma snapshot_same: "case_snapshot_valid s = Inr s' \<Longrightarrow> s' = s"
  by (auto simp: case_snapshot_valid_def bindr_Inr split: if_splits)

lemma report_same: "queue_report_valid K r = Inr r' \<Longrightarrow> r' = r"
  by (auto simp: queue_report_valid_def evidence_consistent_def bindr_Inr split: if_splits)

lemma revalidate_case_Inr [res_simps]:
  "revalidate_case c row = Inr row' \<longleftrightarrow> row' = row \<and> case_valid row = Inr row \<and> ic_estimated_minutes row = qc_service_minutes c"
  by (auto simp: revalidate_case_def bindr_Inr rethrow_Inr dest: case_same split: if_splits)

lemma mapr_revalidate:
  "mapr (revalidate_case c) cases = Inr rows \<longleftrightarrow> rows = cases \<and>
    (\<forall>x \<in> set cases. case_valid x = Inr x \<and> ic_estimated_minutes x = qc_service_minutes c)"
  by (induction cases arbitrary: rows) (auto simp: bindr_Inr revalidate_case_Inr)

definition report_of ::
  "'j queue_codec \<Rightarrow> queue_config \<Rightarrow> investigation_case list \<Rightarrow> case_snapshot list \<Rightarrow> queue_report" where
  "report_of K c ordered ss =
     (let report = \<lparr>qr_config = c, qr_case_inputs = ordered, qr_snapshots = ss,
        qr_arrival_count = int (length ordered), qr_completed_count = int (length ordered),
        qr_analyst_minutes = int (length ordered) * qc_service_minutes c,
        qr_peak_backlog = peak_backlog ss, qr_sla_breaches = count_breaches ss, qr_digest = []\<rparr>
      in report\<lparr>qr_digest := report_digest K report\<rparr>)"

lemma report_of_simps [simp]:
  "qr_config (report_of K c ordered ss) = c" "qr_case_inputs (report_of K c ordered ss) = ordered"
  "qr_snapshots (report_of K c ordered ss) = ss" "qr_arrival_count (report_of K c ordered ss) = int (length ordered)"
  "qr_completed_count (report_of K c ordered ss) = int (length ordered)"
  "qr_analyst_minutes (report_of K c ordered ss) = int (length ordered) * qc_service_minutes c"
  "qr_peak_backlog (report_of K c ordered ss) = peak_backlog ss"
  "qr_sla_breaches (report_of K c ordered ss) = count_breaches ss"
  by (simp_all add: report_of_def Let_def)

lemma bounded_schedule_Inr [res_simps]: "bounded_schedule r = Inr x \<longleftrightarrow> r = Inr x"
  by (auto simp: bounded_schedule_def split: sum.splits exn.splits)

lemma simulate_Inr:
  "simulate_case_queue K cases c = Inr r \<longleftrightarrow>
     queue_config_valid c = Inr c \<and> length cases \<le> 100000 \<and>
     (\<forall>x \<in> set cases. case_valid x = Inr x \<and> ic_estimated_minutes x = qc_service_minutes c) \<and>
     distinct (map ic_case_id cases) \<and>
     (\<exists>ss. allocate_snapshots (sort_key case_key cases) c = Inr ss \<and>
       r = report_of K c (sort_key case_key cases) ss \<and> queue_report_valid K r = Inr r)"
proof -
  have c: "revalidate_config c = Inr c' \<longleftrightarrow> c' = c \<and> queue_config_valid c = Inr c" for c'
    using queue_config_Inr(1) [of c] by (auto simp: revalidate_config_def rethrow_Inr)
  show ?thesis
    by (auto simp: simulate_case_queue_def bindr_Inr c mapr_revalidate Let_def bounded_schedule_Inr rethrow_Inr
        report_of_def dest: report_same)
qed

lemma ordered_openings: "sorted (map (\<lambda>r. instant (ic_opened_at r)) (sort_key case_key cases))"
proof -
  have "sorted (map case_key (sort_key case_key cases))" by simp
  then show ?thesis by (auto simp: sorted_map case_key_def elim!: sorted_wrt_mono_rel [rotated])
qed

lemma run_schedule:
  assumes "simulate_case_queue K cases c = Inr r"
  shows "queue_config_valid c = Inr c" "qr_case_inputs r = sort_key case_key cases"
    "list_all2 (placed c (starts (qr_snapshots r))) (qr_case_inputs r) (qr_snapshots r)"
    "\<forall>t. int (count_list (starts (qr_snapshots r)) t) \<le> qc_analyst_count c" "sorted (starts (qr_snapshots r))"
proof -
  from assms obtain ss where ss: "queue_config_valid c = Inr c" "allocate_snapshots (sort_key case_key cases) c = Inr ss"
    "r = report_of K c (sort_key case_key cases) ss"
    by (auto simp: simulate_Inr)
  note f = allocate_snapshots_facts [OF ss(1) ordered_openings ss(2)]
  show "queue_config_valid c = Inr c" "qr_case_inputs r = sort_key case_key cases"
    "list_all2 (placed c (starts (qr_snapshots r))) (qr_case_inputs r) (qr_snapshots r)"
    "\<forall>t. int (count_list (starts (qr_snapshots r)) t) \<le> qc_analyst_count c" "sorted (starts (qr_snapshots r))"
    using ss f by simp_all
qed

lemma allocate_append:
  assumes "allocate_rows c recent (xs @ ys) = Inr ss"
  shows "\<exists>as bs. allocate_rows c recent xs = Inr as \<and> ss = as @ bs"
  using assms
proof (induction xs arbitrary: recent ss)
  case (Cons x xs)
  then obtain slot s ts where r: "allocate_row c recent x = Inr (slot, s)" "allocate_rows c (Some slot) (xs @ ys) = Inr ts" "ss = s # ts"
    by (auto simp: bindr_Inr)
  from Cons.IH [OF r(2)] obtain as bs where "allocate_rows c (Some slot) xs = Inr as" "ts = as @ bs" by blast
  with r show ?case by (intro exI [of _ "s # as"] exI [of _ bs]) simp
qed simp

section \<open>The backlog\<close>

text \<open>The cases that have opened but not started at a time.\<close>

definition waiting :: "case_snapshot list \<Rightarrow> int \<Rightarrow> int" where
  "waiting ss t = int (length (filter (\<lambda>s. instant (cs_opened_at s) \<le> t) ss)) -
     int (length (filter (\<lambda>s. instant (cs_started_at s) \<le> t) ss))"

lemma filter_le_split:
  fixes t u :: int
  assumes "sorted xs" "t \<le> u"
  shows "length (filter (\<lambda>x. x \<le> u) xs) =
    length (takeWhile (\<lambda>x. x \<le> t) xs) + length (filter (\<lambda>x. x \<le> u) (dropWhile (\<lambda>x. x \<le> t) xs))"
proof -
  have "filter (\<lambda>x. x \<le> u) (takeWhile (\<lambda>x. x \<le> t) xs) = takeWhile (\<lambda>x. x \<le> t) xs"
    using assms(2) by (auto simp: filter_id_conv dest!: set_takeWhileD)
  then show ?thesis by (metis filter_append length_append takeWhile_dropWhile_id)
qed

lemma while_eq_le:
  fixes t :: int
  assumes "sorted (t # xs)"
  shows "takeWhile (\<lambda>x. x = t) xs = takeWhile (\<lambda>x. x \<le> t) xs" "dropWhile (\<lambda>x. x = t) xs = dropWhile (\<lambda>x. x \<le> t) xs"
proof -
  have "x = t \<longleftrightarrow> x \<le> t" if "x \<in> set xs" for x using assms that by auto
  then show "takeWhile (\<lambda>x. x = t) xs = takeWhile (\<lambda>x. x \<le> t) xs" "dropWhile (\<lambda>x. x = t) xs = dropWhile (\<lambda>x. x \<le> t) xs"
    by (auto intro: takeWhile_cong dropWhile_cong)
qed

lemma backlog_loop_max:
  assumes "sorted openings" "sorted ss"
  shows "backlog_loop openings ss a s p = Max (insert p ((\<lambda>t. a + int (length (filter (\<lambda>x. x \<le> t) openings)) -
    (s + int (length (filter (\<lambda>x. x \<le> t) ss)))) ` set openings))"
  using assms
proof (induction openings ss a s p rule: backlog_loop.induct)
  case (1 ss a s p)
  then show ?case by simp
next
  case (2 t openings ss a s p)
  define rest where "rest = dropWhile (\<lambda>x. x \<le> t) openings"
  define ss' where "ss' = dropWhile (\<lambda>x. x \<le> t) ss"
  define a' where "a' = a + 1 + int (length (takeWhile (\<lambda>x. x \<le> t) openings))"
  define s' where "s' = s + int (length (takeWhile (\<lambda>x. x \<le> t) ss))"
  note eq = while_eq_le [OF 2(2)]
  let ?g = "\<lambda>u. a + int (length (filter (\<lambda>x. x \<le> u) (t # openings))) - (s + int (length (filter (\<lambda>x. x \<le> u) ss)))"
  let ?h = "\<lambda>u. a' + int (length (filter (\<lambda>x. x \<le> u) rest)) - (s' + int (length (filter (\<lambda>x. x \<le> u) ss')))"
  have srt: "sorted rest" "sorted ss'"
    using 2(2,3) by (simp_all add: rest_def ss'_def sorted_dropWhile)
  have gh: "?g u = ?h u" if "t \<le> u" for u
    using filter_le_split [OF _ that, of openings] filter_le_split [OF 2(3) that] 2(2) that
    by (simp add: rest_def ss'_def a'_def s'_def)
  have above: "t < u" if "u \<in> set rest" for u
  proof -
    have "rest \<noteq> []" using that by (auto simp only: list.set)
    then obtain r rs where r: "rest = r # rs" unfolding neq_Nil_conv by (elim exE)
    then have "dropWhile (\<lambda>x. x \<le> t) openings \<noteq> []" by (simp add: rest_def)
    from hd_dropWhile [OF this] r have "t < r" by (simp add: rest_def [symmetric])
    with srt(1) that r show ?thesis by auto
  qed
  have none: "filter (\<lambda>x. x \<le> t) rest = []" "filter (\<lambda>x. x \<le> t) ss' = []"
  proof -
    show "filter (\<lambda>x. x \<le> t) rest = []" using above by (force simp: filter_empty_conv)
    show "filter (\<lambda>x. x \<le> t) ss' = []"
    proof (cases ss')
      case (Cons r rs)
      then have "dropWhile (\<lambda>x. x \<le> t) ss \<noteq> []" by (simp add: ss'_def)
      from hd_dropWhile [OF this] Cons have "t < r" by (simp add: ss'_def [symmetric])
      with srt(2) Cons show ?thesis by (force simp: filter_empty_conv)
    qed simp
  qed
  have set: "set openings = set (takeWhile (\<lambda>x. x \<le> t) openings) \<union> set rest"
    unfolding rest_def by (metis set_append takeWhile_dropWhile_id)
  have tk: "set (takeWhile (\<lambda>x. x \<le> t) openings) \<subseteq> {t}"
    unfolding eq(1) [symmetric] by (auto dest: set_takeWhileD)
  have "backlog_loop (t # openings) ss a s p = backlog_loop rest ss' a' s' (max p (a' - s'))"
    by (simp add: Let_def eq rest_def ss'_def a'_def s'_def)
  also have "\<dots> = Max (insert (max p (a' - s')) (?h ` set rest))"
    by (rule 2(1) [OF refl refl, unfolded eq, folded rest_def ss'_def a'_def s'_def, OF srt])
  also have "?h ` set rest = ?g ` set rest" using gh above by (intro image_cong) (auto simp: less_imp_le)
  also have "a' - s' = ?g t" using gh [of t] none by simp
  also have "Max (insert (max p (?g t)) (?g ` set rest)) = Max (insert p (insert (?g t) (?g ` set rest)))"
    by (cases "rest = []") (simp_all add: max.assoc)
  also have "insert (?g t) (?g ` set rest) = ?g ` set (t # openings)"
    using tk by (auto simp: set)
  finally show ?case .
qed

lemma length_filter_sort: "length (filter P (sort (map f xs))) = length (filter (\<lambda>x. P (f x)) xs)"
proof -
  have "length (filter P (sort (map f xs))) = size (filter_mset P (mset (map f xs)))"
    by (metis mset_filter mset_sort size_mset)
  also have "\<dots> = length (filter P (map f xs))" by (metis mset_filter size_mset)
  also have "\<dots> = length (filter (\<lambda>x. P (f x)) xs)" by (simp add: filter_map comp_def)
  finally show ?thesis .
qed

lemma peak_backlog_max:
  "peak_backlog ss = Max (insert 0 ((\<lambda>s. waiting ss (instant (cs_opened_at s))) ` set ss))"
  unfolding peak_backlog_def
  by (subst backlog_loop_max) (simp_all add: length_filter_sort waiting_def comp_def image_image)

lemma peak_backlog_bounds: "0 \<le> peak_backlog ss" "peak_backlog ss \<le> int (length ss)"
proof -
  let ?A = "insert 0 ((\<lambda>s. waiting ss (instant (cs_opened_at s))) ` set ss)"
  have "waiting ss t \<le> int (length ss)" for t
    using length_filter_le [of "\<lambda>s. instant (cs_opened_at s) \<le> t" ss] unfolding waiting_def by linarith
  then have "\<forall>x \<in> ?A. x \<le> int (length ss)" by auto
  then show "0 \<le> peak_backlog ss" "peak_backlog ss \<le> int (length ss)"
    unfolding peak_backlog_max by simp_all
qed

section \<open>When a schedule exists\<close>

lemma snapshot_ok:
  assumes c: "queue_config_valid c = Inr c'" and row: "case_valid row = Inr row"
    and st: "normal_utc started" "instant (ic_opened_at row) \<le> instant started" "0 \<le> instant (ic_opened_at row)"
      "instant started < max_local"
  defines "w \<equiv> minutes_of (instant started - instant (ic_opened_at row))"
  shows "case_snapshot_valid \<lparr>cs_case_id = ic_case_id row, cs_opened_at = ic_opened_at row, cs_started_at = started,
      cs_completed_at = started\<lparr>dt_local := dt_local started + service_us c, dt_fold := 0\<rparr>, cs_wait_minutes = w,
      cs_sla_breached = b, cs_analyst_minutes = qc_service_minutes c, cs_priority = ic_priority row\<rparr> = Inr
    \<lparr>cs_case_id = ic_case_id row, cs_opened_at = ic_opened_at row, cs_started_at = started,
      cs_completed_at = started\<lparr>dt_local := dt_local started + service_us c, dt_fold := 0\<rparr>, cs_wait_minutes = w,
      cs_sla_breached = b, cs_analyst_minutes = qc_service_minutes c, cs_priority = ic_priority row\<rparr>"
proof -
  from row have r: "validate_utc_timestamp (ic_opened_at row) = Inr (ic_opened_at row)" "case_id_text (ic_case_id row)"
    "hundred_float (ic_priority row)"
    by (auto simp: case_valid_def bindr_Inr ensure_Inr validate_utc_timestamp_def split: if_splits)
  have us: "0 \<le> instant started - instant (ic_opened_at row)" "instant started - instant (ic_opened_at row) \<le> 2 ^ 40 * 60000000"
    using st(2-4) by (auto simp: max_local_def)
  obtain y where "w = Fin y" "0 \<le> y" using minutes_below [OF us] by (auto simp: w_def)
  with r st queue_config_Inr(3,4) [OF c] show ?thesis
    by (simp add: case_snapshot_valid_def w_def [symmetric] service_us_def)
qed

text \<open>Openings that leave room on both ends of the calendar: a schedule exists.\<close>

lemma allocate_rows_total:
  assumes c: "queue_config_valid c = Inr c'" and "loop_ok c recent P opened"
    and "sorted (opened # map (\<lambda>r. instant (ic_opened_at r)) rows)"
    and "\<forall>x \<in> set rows. case_valid x = Inr x \<and> qc_bucket_minutes c * 60000000 \<le> instant (ic_opened_at x) \<and>
      instant (ic_opened_at x) \<le> hi"
    and "\<forall>slot u. recent = Some (slot, u) \<longrightarrow> instant slot \<le> hi + int n * service_us c"
    and "hi + (int n + int (length rows) + 1) * service_us c < max_local"
  shows "\<exists>ss. allocate_rows c recent rows = Inr ss \<and> (\<forall>s \<in> set ss. case_snapshot_valid s = Inr s)"
  using assms(2-)
proof (induction rows arbitrary: recent P opened n)
  case (Cons row rows)
  have s: "0 < service_us c" by (rule queue_config_Inr(9) [OF c])
  have row: "case_valid row = Inr row" "qc_bucket_minutes c * 60000000 \<le> instant (ic_opened_at row)"
    "instant (ic_opened_at row) \<le> hi" using Cons.prems(3) by simp_all
  have "1 * service_us c \<le> (int n + int (length (row # rows)) + 1) * service_us c" using s by (intro mult_right_mono) simp_all
  with row(3) Cons.prems(5) have "instant (ic_opened_at row) + service_us c < max_local" by linarith
  from first_slot_total [OF c row(2) this] obtain earliest where e: "first_slot_at_or_after (ic_opened_at row) c = Inr earliest"
    by blast
  note ef = first_slot_facts [OF c e]
  have room: "hi + (int n + 2) * service_us c < max_local"
  proof -
    have "(int n + 2) * service_us c \<le> (int n + int (length (row # rows)) + 1) * service_us c"
      using s by (intro mult_right_mono) simp_all
    with Cons.prems(5) show ?thesis by linarith
  qed
  have n0: "0 \<le> int n * service_us c" using s by simp
  define lim where "lim = hi + (int n + 1) * service_us c"
  have lim: "instant earliest \<le> lim" "hi + int n * service_us c + service_us c = lim" "lim + service_us c < max_local"
    using ef(4) row(3) room n0 unfolding lim_def by (simp_all add: algebra_simps)
  obtain started uses where st: "start_of c recent (ic_opened_at row) earliest = Inr (started, uses)"
    "instant started \<le> lim" "normal_utc started"
  proof (cases recent)
    case None
    then show thesis using that [of earliest 1] ef(1) lim(1) by (simp add: start_of_def)
  next
    case (Some p)
    obtain slot u where p: "p = (slot, u)" by (cases p)
    have slot: "instant slot \<le> hi + int n * service_us c" "normal_utc slot" "0 \<le> instant slot"
      using Cons.prems(1,4) by (simp_all add: loop_ok_def Some p)
    show thesis
    proof (cases "instant (ic_opened_at row) \<le> instant slot \<and> u < qc_analyst_count c")
      case True
      then show thesis using that [of slot "u + 1"] slot lim(2) s by (simp add: start_of_def Some p)
    next
      case False
      have "0 \<le> dt_local slot + service_us c" "dt_local slot + service_us c < max_local"
        using slot lim(2,3) s by (simp_all add: instant_normal)
      then obtain after where after: "datetime_add slot (service_us c) = Inr after" by (auto simp: datetime_add_def)
      with datetime_add_facts(1,2) [OF after]
      have "instant after \<le> lim" "normal_utc after" using slot lim(2) by simp_all
      with lim(1) show thesis
        using that [of "if instant earliest < instant after then after else earliest" 1] False after ef(1)
        by (simp add: start_of_def Some p service_us_def)
    qed
  qed
  have bound: "dt_local started + service_us c < max_local"
    using st(2,3) lim(3) by (simp add: instant_normal)
  have o: "opened \<le> instant (ic_opened_at row)" using Cons.prems(2) by simp
  note step = loop_step [OF c Cons.prems(1) o e st(1) bound]
  have below: "instant started < max_local" using bound st(3) s by (simp add: instant_normal)
  define w where "w = minutes_of (instant started - instant (ic_opened_at row))"
  note snap = snapshot_ok [OF c row(1) st(3) step(2) ef(5) below, folded w_def, of "float_over_int w (qc_sla_minutes c)"]
  have "datetime_add started (service_us c) = Inr (started\<lparr>dt_local := dt_local started + service_us c, dt_fold := 0\<rparr>)"
    using bound step(2) ef(5) st(3) s by (simp add: datetime_add_def instant_normal)
  then obtain snapshot where r: "allocate_row c recent row = Inr ((started, uses), snapshot)" "case_snapshot_valid snapshot = Inr snapshot"
    using snap by (simp add: allocate_row_def e st(1) Let_def w_def service_us_def)
  have sorted: "sorted (instant (ic_opened_at row) # map (\<lambda>r. instant (ic_opened_at r)) rows)" using Cons.prems(2) by simp
  have "\<exists>ss. allocate_rows c (Some (started, uses)) rows = Inr ss \<and> (\<forall>s \<in> set ss. case_snapshot_valid s = Inr s)"
  proof (rule Cons.IH [OF step(1) sorted])
    show "\<forall>x \<in> set rows. case_valid x = Inr x \<and> qc_bucket_minutes c * 60000000 \<le> instant (ic_opened_at x) \<and> instant (ic_opened_at x) \<le> hi"
      using Cons.prems(3) by simp
    show "\<forall>slot u. Some (started, uses) = Some (slot, u) \<longrightarrow> instant slot \<le> hi + int (Suc n) * service_us c"
      using st(2) by (simp add: lim_def add.commute)
    show "hi + (int (Suc n) + int (length rows) + 1) * service_us c < max_local"
      using Cons.prems(5) by (simp add: algebra_simps)
  qed
  with r show ?case by auto
qed simp

end
