(* ===== verification/QueueClaims.thy ===== *)
theory QueueClaims
  imports QueueRuns
begin

text \<open>
  The properties of the review queue: its schedule, its service level despite the rounding, its
  stability under later cases, its backlog, and that a report exists and reads back.
\<close>

section \<open>Reports are valid\<close>

lemma hex_run_lower: "list_all lower_hex s \<Longrightarrow> s \<noteq> [] \<or> d \<Longrightarrow> hex_run d acc s \<noteq> None"
proof (induction s arbitrary: d acc)
  case (Cons c s)
  then have "lower_hex c" by simp
  then have "c \<noteq> CHR ''_''" "hexval c \<noteq> None" by (auto simp: lower_hex_def hexval_def)
  with Cons show ?case by (auto split: option.splits)
qed simp

lemma digest_ok_text: "digest_ok s \<Longrightarrow> digest_text_ok s"
proof -
  assume s: "digest_ok s"
  then have l: "length s = 64" "list_all lower_hex s" by (simp_all add: digest_ok_def)
  then obtain c t where c: "s = c # t" by (cases s) auto
  with l have "strip_chars py_space s = s"
    by (intro strip_chars_none) (auto simp: list_all_iff lower_hex_plain)
  moreover have "c \<noteq> CHR ''-''" "c \<noteq> CHR ''+''" using l(2) by (simp_all add: c lower_hex_plain)
  moreover have "hex_body s \<noteq> None"
  proof -
    have "\<not> (take 2 s = ''0x'' \<or> take 2 s = ''0X'')"
      using l(2) by (cases t) (auto simp: c lower_hex_plain)
    then have "hex_body s = hex_run False 0 s" unfolding hex_body_def by simp
    with hex_run_lower [OF l(2), of False 0] c show ?thesis by simp
  qed
  ultimately have "py_int16 s \<noteq> None" by (simp add: py_int16_def c)
  moreover have "ascii_lower s = s"
  proof -
    have "(if (65::nat) \<le> of_char d \<and> (of_char d :: nat) \<le> 90 then char_of ((of_char d :: nat) + 32) else d) = d"
      if "d \<in> set s" for d
    proof -
      have "lower_hex d" using l(2) that by (simp add: list_all_iff)
      then show ?thesis by (auto simp: lower_hex_def)
    qed
    then show ?thesis unfolding ascii_lower_def by (rule map_idI)
  qed
  ultimately show ?thesis using l(1) by (simp add: digest_text_ok_def)
qed

definition dump_ignores_digest :: "'j queue_codec \<Rightarrow> bool" where
  "dump_ignores_digest K \<longleftrightarrow> (\<forall>r x. qk_dump_unsigned K (r\<lparr>qr_digest := x\<rparr>) = qk_dump_unsigned K r)"

lemma report_of_digest:
  assumes "dump_ignores_digest K"
  shows "qr_digest (report_of K c ordered ss) = report_digest K (report_of K c ordered ss)"
proof -
  have "qr_digest (X\<lparr>qr_digest := report_digest K X\<rparr>) = report_digest K (X\<lparr>qr_digest := report_digest K X\<rparr>)" for X
    using assms by (simp add: report_digest_def dump_ignores_digest_def)
  then show ?thesis unfolding report_of_def Let_def .
qed

lemma placed_member: "list_all2 R rows ss \<Longrightarrow> s \<in> set ss \<Longrightarrow> \<exists>row \<in> set rows. R row s"
  by (induction rule: list_all2_induct) auto

lemma placed_list:
  assumes "list_all2 (placed c P) rows ss"
  shows "length ss = length rows" "map cs_case_id ss = map ic_case_id rows"
    "\<forall>s \<in> set ss. cs_analyst_minutes s = qc_service_minutes c \<and>
      cs_sla_breached s = float_over_int (cs_wait_minutes s) (qc_sla_minutes c)"
  using assms by (induction rule: list_all2_induct) (auto simp: placed_def)

lemma report_valid:
  assumes K: "dump_ignores_digest K" and c: "queue_config_valid c = Inr c" and len: "length cases \<le> 100000"
    and cases: "\<forall>x \<in> set cases. case_valid x = Inr x" and dist: "distinct (map ic_case_id cases)"
    and ss: "allocate_snapshots (sort_key case_key cases) c = Inr ss" "\<forall>s \<in> set ss. case_snapshot_valid s = Inr s"
  defines "r \<equiv> report_of K c (sort_key case_key cases) ss"
  shows "queue_report_valid K r = (if length (qk_canonical K (qk_dump K r)) \<le> max_payload then Inr r
    else Inl (ValueError ''queue report payload exceeds frozen resource cap''))"
proof -
  note f = placed_list [OF allocate_snapshots_facts(1) [OF c ordered_openings ss(1)]]
  have n: "length ss = length cases" using f(1) by simp
  have "mset (map ic_case_id (sort_key case_key cases)) = mset (map ic_case_id cases)" by simp
  with dist have d: "distinct (map ic_case_id (sort_key case_key cases))" by (metis mset_eq_imp_distinct_iff)
  have s: "1 \<le> qc_service_minutes c" "qc_service_minutes c \<le> 1000000" using queue_config_Inr(3,4) [OF c] by simp_all
  have "int (length cases) * qc_service_minutes c \<le> 100000 * 1000000"
    using len s by (intro mult_mono) simp_all
  moreover have "count_breaches ss \<le> int (length ss)" "0 \<le> count_breaches ss" by (simp_all add: count_breaches_def)
  ultimately have counts: "list_all (\<lambda>n. 0 \<le> n \<and> n \<le> 100000000000) [qr_arrival_count r, qr_completed_count r,
      qr_analyst_minutes r, qr_peak_backlog r, qr_sla_breaches r]"
    using peak_backlog_bounds [of ss] len s n by (simp add: r_def)
  have m1: "mapr case_valid (sort_key case_key cases) = Inr (sort_key case_key cases)"
    using cases by (intro mapr_fixed) simp
  have m2: "mapr case_snapshot_valid ss = Inr ss" using ss(2) by (intro mapr_fixed) simp
  have dig: "qr_digest r = report_digest K r" unfolding r_def by (rule report_of_digest [OF K])
  then have dt: "digest_text_ok (qr_digest r)" by (simp add: report_digest_def digest_ok_text)
  have same: "list_all2 same_snapshot ss ss" by (simp add: list_all2_same same_snapshot_def)
  have srt: "sort_key case_key (sort_key case_key cases) = sort_key case_key cases"
    by (rule sort_key_id_if_sorted) simp
  have minutes: "sum_list (map cs_analyst_minutes ss) = int (length cases) * qc_service_minutes c"
  proof -
    have "map cs_analyst_minutes ss = map (\<lambda>_. qc_service_minutes c) ss" using f(3) by simp
    then show ?thesis by (simp only: sum_list_triv n)
  qed
  have flags: "\<not> list_ex (\<lambda>s. cs_analyst_minutes s \<noteq> qc_service_minutes c) ss"
    "\<not> list_ex (\<lambda>s. cs_sla_breached s \<noteq> float_over_int (cs_wait_minutes s) (qc_sla_minutes c)) ss"
    using f(3) by (auto simp: list_ex_iff)
  have "evidence_consistent K r = (if length (qk_canonical K (qk_dump K r)) \<le> max_payload then Inr r
    else Inl (ValueError ''queue report payload exceeds frozen resource cap''))"
    using len n dig flags f(2) d
    by (simp add: evidence_consistent_def r_def srt ss(1) same minutes not_le del: sort_key_simps)
  then show ?thesis
    using counts dt m1 m2 c by (simp add: queue_report_valid_def) (simp add: r_def)
qed

lemma run_exists:
  assumes "dump_ignores_digest K" "queue_config_valid c = Inr c" "length cases \<le> 100000"
    and "\<forall>x \<in> set cases. case_valid x = Inr x \<and> ic_estimated_minutes x = qc_service_minutes c"
    and "distinct (map ic_case_id cases)"
    and "\<forall>x \<in> set cases. qc_bucket_minutes c * 60000000 \<le> instant (ic_opened_at x) \<and>
      instant (ic_opened_at x) + (int (length cases) + 1) * service_us c < max_local"
  shows "\<exists>r. qr_config r = c \<and> qr_case_inputs r = sort_key case_key cases \<and>
    allocate_snapshots (sort_key case_key cases) c = Inr (qr_snapshots r) \<and>
    simulate_case_queue K cases c = (if length (qk_canonical K (qk_dump K r)) \<le> max_payload then Inr r
      else Inl (QueueContractError ''queue report failed validation'')) \<and>
    (length (qk_canonical K (qk_dump K r)) \<le> max_payload \<longrightarrow>
      qk_loads K (qk_canonical K (qk_dump K r)) = Some (qk_dump K r) \<longrightarrow> qk_is_object K (qk_dump K r) \<longrightarrow>
      qk_coerce K (qk_dump K r) = Some r \<longrightarrow> bindr (to_json K r) (from_json K) = Inr r)"
proof -
  let ?rows = "sort_key case_key cases"
  define fo where "fo = (case ?rows of [] \<Rightarrow> 0 | r # _ \<Rightarrow> instant (ic_opened_at r))"
  define hi where "hi = max_local - (int (length cases) + 1) * service_us c - 1"
  have "\<exists>ss. allocate_rows c None ?rows = Inr ss \<and> (\<forall>s \<in> set ss. case_snapshot_valid s = Inr s)"
  proof (rule allocate_rows_total [OF assms(2), where n = 0 and hi = hi])
    show "loop_ok c None [] fo" using queue_config_Inr(2) [OF assms(2)] by (simp add: loop_ok_def)
    show "sorted (fo # map (\<lambda>r. instant (ic_opened_at r)) ?rows)"
      using ordered_openings [of cases] by (cases ?rows) (simp_all add: fo_def)
    show "\<forall>x \<in> set ?rows. case_valid x = Inr x \<and> qc_bucket_minutes c * 60000000 \<le> instant (ic_opened_at x) \<and>
        instant (ic_opened_at x) \<le> hi"
      using assms(4,6) by (auto simp: hi_def)
    show "hi + (int 0 + int (length ?rows) + 1) * service_us c < max_local" by (simp add: hi_def)
  qed simp
  then obtain ss where ss: "allocate_snapshots ?rows c = Inr ss" "\<forall>s \<in> set ss. case_snapshot_valid s = Inr s"
    by (auto simp: allocate_snapshots_def)
  define r where "r = report_of K c ?rows ss"
  have cases: "\<forall>x \<in> set cases. case_valid x = Inr x" using assms(4) by simp
  note valid = report_valid [OF assms(1-3) cases assms(5) ss, folded r_def]
  have "simulate_case_queue K cases c = rethrow (QueueContractError ''queue report failed validation'') (queue_report_valid K r)"
    using assms(2-5) ss(1) mapr_revalidate [of c cases cases]
    by (simp add: simulate_case_queue_def revalidate_config_def bounded_schedule_def Let_def r_def report_of_def)
  then show ?thesis
    using valid ss(1) by (intro exI [of _ r]) (simp add: to_json_def from_json_def Let_def r_def)
qed

section \<open>A concrete queue\<close>

definition demo_alert :: "string \<Rightarrow> int \<Rightarrow> case_alert" where
  "demo_alert i t = \<lparr>ca_event_id = i, ca_decision_at = utc_at t, ca_actor_id = ''a'', ca_counterparty_id = ''c'',
     ca_motif = IsolatedCase, ca_visible_value = Dec False 10 0, ca_graph_evidence_at = None, ca_score = Fin 1,
     ca_action = Challenge, ca_sources = []\<rparr>"

definition demo_case :: "string \<Rightarrow> int \<Rightarrow> investigation_case" where
  "demo_case i t = \<lparr>ic_case_id = case_id_of [i], ic_opened_at = utc_at t, ic_event_ids = [i], ic_actor_ids = [''a''],
     ic_counterparty_ids = [''c''], ic_first_alert_at = utc_at t, ic_priority = Fin 50, ic_estimated_minutes = 20,
     ic_first_evidence = [i], ic_alerts = [demo_alert i t]\<rparr>"

definition demo_config :: queue_config where
  "demo_config = \<lparr>qc_analyst_count = 1, qc_service_minutes = 20, qc_sla_minutes = 30, qc_bucket_minutes = 60\<rparr>"

lemma case_id_text_of: "case_id_text (case_id_of ids)"
proof -
  have "digest_text_ok (sha256_hex m)" for m by (simp add: digest_ok_text)
  then show ?thesis by (simp add: case_id_text_def case_id_of_def digest_text_ok_def)
qed

lemma demo_case_valid:
  assumes "bounded_id i"
  shows "case_valid (demo_case i t) = Inr (demo_case i t)"
  using assms case_id_text_of
  by (simp add: case_valid_def demo_case_def demo_alert_def case_alert_valid_def case_coherent_def canonical_ids_def
      sorted_unique_def bounded_id_def hundred_float_def unit_float_def dec_less_def dec_zero_def optional_def
      units_def Let_def)

definition demo_codec :: "queue_report \<Rightarrow> queue_report queue_codec" where
  "demo_codec r = \<lparr>qk_dump = \<lambda>x. x, qk_dump_unsigned = qr_digest_update (\<lambda>_. []), qk_canonical = \<lambda>_. ''{}'',
     qk_loads = \<lambda>_. Some r, qk_is_object = \<lambda>_. True, qk_coerce = Some\<rparr>"

definition demo_cases :: "investigation_case list" where
  "demo_cases = [demo_case ''e1'' 63000000000000001]"

lemma demo_codec_ok:
  "dump_ignores_digest (demo_codec r)" "length (qk_canonical (demo_codec r) d) \<le> max_payload"
  "qk_loads (demo_codec r) p = Some r" "qk_is_object (demo_codec r) d" "qk_coerce (demo_codec r) d = Some d"
  "qk_dump (demo_codec r) d = d"
  by (simp_all add: dump_ignores_digest_def demo_codec_def max_payload_def)

lemma demo_codec_indifferent: "simulate_case_queue (demo_codec r) cases c = simulate_case_queue (demo_codec r') cases c"
proof -
  have digest: "report_digest (demo_codec r) = report_digest (demo_codec r')"
    by (rule ext) (simp add: report_digest_def demo_codec_def)
  have dump: "qk_dump (demo_codec r) = qk_dump (demo_codec r')" "qk_canonical (demo_codec r) = qk_canonical (demo_codec r')"
    by (simp_all add: demo_codec_def)
  have valid: "queue_report_valid (demo_codec r) = queue_report_valid (demo_codec r')"
    by (rule ext) (simp only: queue_report_valid_def evidence_consistent_def digest dump)
  show ?thesis unfolding simulate_case_queue_def valid digest ..
qed

lemma demo_queue_inputs:
  "queue_config_valid demo_config = Inr demo_config" "length demo_cases \<le> 100000"
  "\<forall>x \<in> set demo_cases. case_valid x = Inr x \<and> ic_estimated_minutes x = qc_service_minutes demo_config"
  "distinct (map ic_case_id demo_cases)"
  "\<forall>x \<in> set demo_cases. qc_bucket_minutes demo_config * 60000000 \<le> instant (ic_opened_at x) \<and>
      instant (ic_opened_at x) + (int (length demo_cases) + 1) * service_us demo_config < max_local"
proof -
  show "queue_config_valid demo_config = Inr demo_config" by (simp add: queue_config_valid_def demo_config_def)
  have "case_valid (demo_case ''e1'' 63000000000000001) = Inr (demo_case ''e1'' 63000000000000001)"
    by (rule demo_case_valid) (simp add: bounded_id_def)
  then show "\<forall>x \<in> set demo_cases. case_valid x = Inr x \<and> ic_estimated_minutes x = qc_service_minutes demo_config"
    by (simp add: demo_cases_def) (simp add: demo_case_def demo_config_def)
  show "\<forall>x \<in> set demo_cases. qc_bucket_minutes demo_config * 60000000 \<le> instant (ic_opened_at x) \<and>
      instant (ic_opened_at x) + (int (length demo_cases) + 1) * service_us demo_config < max_local"
    by (simp add: demo_cases_def demo_case_def demo_config_def service_us_def max_local_def)
qed (simp_all add: demo_cases_def)

lemma demo_queue_run:
  obtains r where "simulate_case_queue (demo_codec x) demo_cases demo_config = Inr r" "length (qr_snapshots r) = 1"
proof -
  from run_exists [OF demo_codec_ok(1) demo_queue_inputs, of x]
  obtain r where r: "simulate_case_queue (demo_codec x) demo_cases demo_config = Inr r"
    using demo_codec_ok(2) by auto
  from placed_list(1) [OF run_schedule(3) [OF r]] run_schedule(2) [OF r] have "length (qr_snapshots r) = 1"
    by (simp add: demo_cases_def)
  with r that show thesis by blast
qed

section \<open>The schedule\<close>

text \<open>C11. The schedule of a report: its cases are the inputs by opening, priority and identifier; every case
  starts on a service slot, not before it opens, and finishes one service time later; no slot has more
  cases than analysts; and a case waits only while it must: every slot between its opening and its start
  is full.\<close>

theorem queue_schedule:
  assumes "simulate_case_queue K cases c = Inr r"
  shows "map cs_case_id (qr_snapshots r) = map ic_case_id (sort_key case_key cases) \<and>
    (\<forall>t. int (count_list (starts (qr_snapshots r)) t) \<le> qc_analyst_count c) \<and>
    (\<forall>s \<in> set (qr_snapshots r). on_grid c (instant (cs_started_at s)) \<and>
      instant (cs_opened_at s) \<le> instant (cs_started_at s) \<and>
      instant (cs_completed_at s) = instant (cs_started_at s) + service_us c \<and>
      (\<forall>t. on_grid c t \<and> instant (cs_opened_at s) \<le> t \<and> t < instant (cs_started_at s) \<longrightarrow>
        int (count_list (starts (qr_snapshots r)) t) = qc_analyst_count c))"
proof -
  note f = run_schedule [OF assms]
  have "\<forall>s \<in> set (qr_snapshots r). \<exists>row. placed c (starts (qr_snapshots r)) row s"
    using placed_member [OF f(3)] by blast
  with placed_list(2) [OF f(3)] f(2,4) show ?thesis by (auto simp: placed_def)
qed

lemma queue_schedule_witness:
  "\<exists>x r. simulate_case_queue (demo_codec x) demo_cases demo_config = Inr r \<and>
    map cs_case_id (qr_snapshots r) = [case_id_of [''e1'']] \<and>
    (\<forall>s \<in> set (qr_snapshots r). instant (cs_completed_at s) = instant (cs_started_at s) + 1200000000)"
proof -
  obtain r where r: "simulate_case_queue (demo_codec undefined) demo_cases demo_config = Inr r" by (rule demo_queue_run)
  from queue_schedule [OF r] have "map cs_case_id (qr_snapshots r) = map ic_case_id (sort_key case_key demo_cases)"
    "\<forall>s \<in> set (qr_snapshots r). instant (cs_completed_at s) = instant (cs_started_at s) + service_us demo_config"
    by auto
  moreover have "map ic_case_id (sort_key case_key demo_cases) = [case_id_of [''e1'']]" "service_us demo_config = 1200000000"
    by (simp_all add: demo_cases_def demo_case_def service_us_def demo_config_def)
  ultimately have "map cs_case_id (qr_snapshots r) = [case_id_of [''e1'']] \<and>
    (\<forall>s \<in> set (qr_snapshots r). instant (cs_completed_at s) = instant (cs_started_at s) + 1200000000)"
    by (simp only: simp_thms)
  then show ?thesis by (intro exI [of _ undefined] exI [of _ r] conjI r) simp_all
qed

text \<open>C23. The service level is exact: a case is reported as breaching it if and only if it waited longer
  than the agreed minutes, to the microsecond, although the wait is compared as a twice rounded float.\<close>

theorem queue_sla_exact:
  assumes "simulate_case_queue K cases c = Inr r" "s \<in> set (qr_snapshots r)"
  shows "cs_sla_breached s \<longleftrightarrow> qc_sla_minutes c * 60000000 < instant (cs_started_at s) - instant (cs_opened_at s)"
proof -
  note f = run_schedule [OF assms(1)]
  obtain row where "placed c (starts (qr_snapshots r)) row s"
    using placed_member [OF f(3) assms(2)] by blast
  then show ?thesis by (rule placed_sla(1) [OF f(1)])
qed

lemma queue_sla_exact_witness:
  "\<exists>x r s. simulate_case_queue (demo_codec x) demo_cases demo_config = Inr r \<and> s \<in> set (qr_snapshots r) \<and>
    (cs_sla_breached s \<longleftrightarrow> 30 * 60000000 < instant (cs_started_at s) - instant (cs_opened_at s))"
proof -
  obtain r where r: "simulate_case_queue (demo_codec undefined) demo_cases demo_config = Inr r" "length (qr_snapshots r) = 1"
    by (rule demo_queue_run)
  then obtain s where s: "s \<in> set (qr_snapshots r)" by (cases "qr_snapshots r") auto
  from queue_sla_exact [OF r(1) s] r(1) s show ?thesis by (auto simp: demo_config_def)
qed



text \<open>The peak backlog of a report is the largest number of cases that, at the opening of some case,
  have opened and not yet started, or zero.\<close>

theorem queue_peak_exact:
  assumes "simulate_case_queue K cases c = Inr r"
  shows "qr_peak_backlog r = Max (insert 0 ((\<lambda>s. waiting (qr_snapshots r) (instant (cs_opened_at s))) ` set (qr_snapshots r)))"
proof -
  from assms have "qr_peak_backlog r = peak_backlog (qr_snapshots r)" by (auto simp: simulate_Inr)
  then show ?thesis by (simp only: peak_backlog_max)
qed

lemma queue_peak_exact_witness:
  "\<exists>x r. simulate_case_queue (demo_codec x) demo_cases demo_config = Inr r \<and>
    qr_peak_backlog r = Max (insert 0 ((\<lambda>s. waiting (qr_snapshots r) (instant (cs_opened_at s))) ` set (qr_snapshots r)))"
proof -
  obtain r where r: "simulate_case_queue (demo_codec undefined) demo_cases demo_config = Inr r" by (rule demo_queue_run)
  from queue_peak_exact [OF r] r show ?thesis by blast
qed

text \<open>C37. Valid cases with distinct identifiers, the configured service time and openings that leave room in
  the calendar have a schedule and a report of it: the run returns that report, and fails only if the
  report's JSON is larger than the cap; and if the codec parses and coerces the report's own document back,
  \<open>from_json\<close> of \<open>to_json\<close> is the report. Of the codec it is assumed that a dump without the digest does not
  depend on the digest.\<close>

theorem queue_report_exists:
  assumes "dump_ignores_digest K" "queue_config_valid c = Inr c" "length cases \<le> 100000"
    and "\<forall>x \<in> set cases. case_valid x = Inr x \<and> ic_estimated_minutes x = qc_service_minutes c"
    and "distinct (map ic_case_id cases)"
    and "\<forall>x \<in> set cases. qc_bucket_minutes c * 60000000 \<le> instant (ic_opened_at x) \<and>
      instant (ic_opened_at x) + (int (length cases) + 1) * service_us c < max_local"
  shows "\<exists>r. qr_config r = c \<and> qr_case_inputs r = sort_key case_key cases \<and>
    allocate_snapshots (sort_key case_key cases) c = Inr (qr_snapshots r) \<and>
    simulate_case_queue K cases c = (if length (qk_canonical K (qk_dump K r)) \<le> max_payload then Inr r
      else Inl (QueueContractError ''queue report failed validation'')) \<and>
    (length (qk_canonical K (qk_dump K r)) \<le> max_payload \<longrightarrow>
      qk_loads K (qk_canonical K (qk_dump K r)) = Some (qk_dump K r) \<longrightarrow> qk_is_object K (qk_dump K r) \<longrightarrow>
      qk_coerce K (qk_dump K r) = Some r \<longrightarrow> bindr (to_json K r) (from_json K) = Inr r)"
  by (rule run_exists [OF assms])

lemma queue_report_exists_witness:
  "\<exists>x r. simulate_case_queue (demo_codec x) demo_cases demo_config = Inr r \<and> bindr (to_json (demo_codec x) r) (from_json (demo_codec x)) = Inr r"
proof -
  obtain r where r: "simulate_case_queue (demo_codec undefined) demo_cases demo_config = Inr r" by (rule demo_queue_run)
  then have run: "simulate_case_queue (demo_codec r) demo_cases demo_config = Inr r"
    using demo_codec_indifferent [of r demo_cases demo_config undefined] by simp
  from queue_report_exists [OF demo_codec_ok(1) demo_queue_inputs, of r]
  obtain r' where "simulate_case_queue (demo_codec r) demo_cases demo_config = Inr r'"
    "qk_dump (demo_codec r) r' = r \<longrightarrow> bindr (to_json (demo_codec r) r') (from_json (demo_codec r)) = Inr r'"
    using demo_codec_ok by (metis (no_types, lifting))
  with run demo_codec_ok(6) show ?thesis by auto
qed

end
