(* ===== verification/RollbackDsu.thy ===== *)
theory RollbackDsu
  imports Cases "HOL-Library.While_Combinator"
begin

unbundle bit_operations_syntax

text \<open>
  The union-find structure of the case grouping (\<open>_RollbackTopologyDsu\<close> in \<open>cases/grouping.py\<close>): a forest
  without path compression, whose roots carry the aggregates of their component, and a history that
  takes unions back. Sets of decision positions are integers used as bit sets, or trees of tuples.
\<close>

section \<open>Rows and components\<close>

record causal_row =
  cr_event_id :: string
  cr_actor_id :: string
  cr_counterparty_id :: string
  cr_actor_node :: string
  cr_counterparty_node :: string
  cr_amount :: pydec
  cr_available_at :: datetime

type_synonym evidence = "datetime \<times> string"

definition evidence_less :: "evidence \<Rightarrow> evidence \<Rightarrow> bool" where
  "evidence_less a b \<longleftrightarrow> (instant (fst a), snd a) < (instant (fst b), snd b)"

datatype member_tree = MemberTree "nat list" "member_tree option" "member_tree option"

datatype node_members = NodeBits int | NodeTree member_tree

datatype component_members = MemberBits int | MemberTuple "nat list"

record component =
  cm_root :: string
  cm_members :: component_members
  cm_entity_count :: int
  cm_total_value :: pydec
  cm_first_event_id :: "string option"
  cm_latest_evidence :: "evidence option"

section \<open>State\<close>

datatype undo_record =
    UndoEdge nat pydec "string option" "evidence option"
  | UndoUnion nat nat nat string pydec "string option" "evidence option" node_members

text \<open>The history has its latest record first.\<close>

record dsu =
  ds_nodes :: "string list"
  ds_parent :: "nat list"
  ds_size :: "nat list"
  ds_minimum :: "string list"
  ds_total :: "pydec list"
  ds_first :: "string option list"
  ds_latest :: "evidence option list"
  ds_members :: "node_members list"
  ds_history :: "undo_record list"

definition new_dsu :: "string list \<Rightarrow> (string \<Rightarrow> nat list option) \<Rightarrow> bool \<Rightarrow> dsu" where
  "new_dsu nodes positions_by_node uses_bitsets =
     (let positions = (\<lambda>node. case positions_by_node node of None \<Rightarrow> [] | Some ps \<Rightarrow> ps) in
     \<lparr>ds_nodes = nodes, ds_parent = [0..<length nodes], ds_size = replicate (length nodes) 1,
      ds_minimum = nodes, ds_total = replicate (length nodes) dec_zero,
      ds_first = replicate (length nodes) None, ds_latest = replicate (length nodes) None,
      ds_members = map (\<lambda>node. if uses_bitsets then NodeBits (sum_list (map (\<lambda>p. push_bit p 1) (positions node)))
        else NodeTree (MemberTree (positions node) None None)) nodes,
      ds_history = []\<rparr>)"

definition dsu_mark :: "dsu \<Rightarrow> nat" where
  "dsu_mark d = length (ds_history d)"

definition dsu_find :: "dsu \<Rightarrow> nat \<Rightarrow> nat res" where
  "dsu_find d node = (case while_option (\<lambda>v. ds_parent d ! v \<noteq> v) (\<lambda>v. ds_parent d ! v) node of
       None \<Rightarrow> Inl NoReturn
     | Some rt \<Rightarrow> Inr rt)"

section \<open>Unions\<close>

definition add_evidence :: "nat \<Rightarrow> causal_row \<Rightarrow> dsu \<Rightarrow> dsu" where
  "add_evidence rt row d =
     d\<lparr>ds_total := (ds_total d)[rt := dec_add (ds_total d ! rt) (cr_amount row)],
       ds_first := (case ds_first d ! rt of
           None \<Rightarrow> (ds_first d)[rt := Some (cr_event_id row)]
         | Some current \<Rightarrow> if cr_event_id row < current then (ds_first d)[rt := Some (cr_event_id row)] else ds_first d),
       ds_latest := (let evidence = (cr_available_at row, cr_event_id row) in
         case ds_latest d ! rt of
           None \<Rightarrow> (ds_latest d)[rt := Some evidence]
         | Some current \<Rightarrow> if evidence_less current evidence then (ds_latest d)[rt := Some evidence] else ds_latest d)\<rparr>"

fun join_members :: "node_members \<Rightarrow> node_members \<Rightarrow> node_members res" where
  "join_members (NodeBits x) (NodeBits y) = Inr (NodeBits (x OR y))"
| "join_members (NodeTree s) (NodeTree t) = Inr (NodeTree (MemberTree [] (Some s) (Some t)))"
| "join_members _ _ = Inl (AssertionError [])"

text \<open>Hanging root \<open>b\<close> under root \<open>a\<close>.\<close>

definition union_roots :: "nat \<Rightarrow> nat \<Rightarrow> dsu \<Rightarrow> dsu res" where
  "union_roots a b d =
     bindr (join_members (ds_members d ! a) (ds_members d ! b)) (\<lambda>members. Inr
     (d\<lparr>ds_parent := (ds_parent d)[b := a],
       ds_size := (ds_size d)[a := ds_size d ! a + ds_size d ! b],
       ds_minimum := (ds_minimum d)[a := min (ds_minimum d ! a) (ds_minimum d ! b)],
       ds_total := (ds_total d)[a := dec_add (ds_total d ! a) (ds_total d ! b)],
       ds_first := (case (ds_first d ! a, ds_first d ! b) of
           (None, source) \<Rightarrow> (ds_first d)[a := source]
         | (Some target, Some source) \<Rightarrow> if source < target then (ds_first d)[a := Some source] else ds_first d
         | (Some target, None) \<Rightarrow> ds_first d),
       ds_latest := (case (ds_latest d ! a, ds_latest d ! b) of
           (None, Some source) \<Rightarrow> (ds_latest d)[a := Some source]
         | (Some target, Some source) \<Rightarrow> if evidence_less target source then (ds_latest d)[a := Some source] else ds_latest d
         | (_, None) \<Rightarrow> ds_latest d),
       ds_members := (ds_members d)[a := members],
       ds_history := UndoUnion a b (ds_size d ! a) (ds_minimum d ! a) (ds_total d ! a) (ds_first d ! a)
         (ds_latest d ! a) (ds_members d ! a) # ds_history d\<rparr>))"

definition add_edge :: "nat \<Rightarrow> nat \<Rightarrow> causal_row \<Rightarrow> dsu \<Rightarrow> dsu res" where
  "add_edge left right row d =
     bindr (dsu_find d left) (\<lambda>l. bindr (dsu_find d right) (\<lambda>r.
     if l = r
     then Inr (add_evidence l row (d\<lparr>ds_history :=
       UndoEdge l (ds_total d ! l) (ds_first d ! l) (ds_latest d ! l) # ds_history d\<rparr>))
     else if (ds_size d ! l, ds_minimum d ! l) < (ds_size d ! r, ds_minimum d ! r)
     then bindr (union_roots r l d) (\<lambda>d'. Inr (add_evidence r row d'))
     else bindr (union_roots l r d) (\<lambda>d'. Inr (add_evidence l row d'))))"

section \<open>Rollback\<close>

fun undo :: "undo_record \<Rightarrow> dsu \<Rightarrow> dsu" where
  "undo (UndoEdge rt tot first latest) d =
     d\<lparr>ds_total := (ds_total d)[rt := tot], ds_first := (ds_first d)[rt := first],
       ds_latest := (ds_latest d)[rt := latest]\<rparr>"
| "undo (UndoUnion a b sz low tot first latest members) d =
     d\<lparr>ds_parent := (ds_parent d)[b := b], ds_size := (ds_size d)[a := sz],
       ds_minimum := (ds_minimum d)[a := low], ds_total := (ds_total d)[a := tot],
       ds_first := (ds_first d)[a := first], ds_latest := (ds_latest d)[a := latest],
       ds_members := (ds_members d)[a := members]\<rparr>"

lemma undo_history [simp]: "ds_history (undo u d) = ds_history d"
  by (cases u) simp_all

function rollback :: "nat \<Rightarrow> dsu \<Rightarrow> dsu" where
  "rollback mark d = (case ds_history d of
       [] \<Rightarrow> d
     | u # us \<Rightarrow> if mark < length (ds_history d) then rollback mark (undo u (d\<lparr>ds_history := us\<rparr>)) else d)"
  by pat_completeness auto
termination by (relation "measure (\<lambda>(mark, d). length (ds_history d))") auto

declare rollback.simps [simp del]

section \<open>Snapshots\<close>

fun bit_count :: "nat \<Rightarrow> nat" where
  "bit_count n = (if n = 0 then 0 else n mod 2 + bit_count (n div 2))"

declare bit_count.simps [simp del]

function collect_positions :: "nat \<Rightarrow> member_tree list \<Rightarrow> nat set \<Rightarrow> nat set" where
  "collect_positions limit [] positions = positions"
| "collect_positions limit (MemberTree ps l r # stack) positions =
     collect_positions limit ((case r of None \<Rightarrow> [] | Some t \<Rightarrow> [t]) @ (case l of None \<Rightarrow> [] | Some t \<Rightarrow> [t]) @ stack)
       (positions \<union> set (filter (\<lambda>p. p < limit) ps))"
  by pat_completeness auto
termination
  by (relation "measure (\<lambda>(_, stack, _). size_list size stack)") (auto split: option.split)

definition max_membership :: nat where
  "max_membership = 5000000"

definition dsu_snapshot :: "dsu \<Rightarrow> nat \<Rightarrow> nat \<Rightarrow> nat \<Rightarrow> (component \<times> nat) res" where
  "dsu_snapshot d node prior_limit budget =
     bindr (dsu_find d node) (\<lambda>rt.
     let (members, count) = (case ds_members d ! rt of
           NodeBits x \<Rightarrow> let masked = x AND (push_bit prior_limit 1 - 1) in (MemberBits masked, bit_count (nat masked))
         | NodeTree t \<Rightarrow> let ps = sorted_list_of_set (collect_positions prior_limit [t] {}) in (MemberTuple ps, length ps))
     in if max_membership < budget + count
        then Inl (CaseContractError ''causal topology exceeds the frozen membership resource cap'')
        else Inr (\<lparr>cm_root = ds_minimum d ! rt, cm_members = members, cm_entity_count = int (ds_size d ! rt),
          cm_total_value = ds_total d ! rt, cm_first_event_id = ds_first d ! rt,
          cm_latest_evidence = ds_latest d ! rt\<rparr>, budget + count))"

section \<open>Taking unions back\<close>

lemma dsu_find_root: "dsu_find d v = Inr r \<Longrightarrow> ds_parent d ! r = r"
  using while_option_stop [of "\<lambda>v. ds_parent d ! v \<noteq> v" "\<lambda>v. ds_parent d ! v" v r]
  by (auto simp: dsu_find_def split: option.splits)

lemma add_evidence_fields [simp]:
  "ds_nodes (add_evidence a row d) = ds_nodes d" "ds_parent (add_evidence a row d) = ds_parent d"
  "ds_size (add_evidence a row d) = ds_size d" "ds_minimum (add_evidence a row d) = ds_minimum d"
  "ds_members (add_evidence a row d) = ds_members d" "ds_history (add_evidence a row d) = ds_history d"
  by (simp_all add: add_evidence_def)

lemma add_evidence_reset [simp]:
  "(ds_total (add_evidence a row d))[a := x] = (ds_total d)[a := x]"
  "(ds_first (add_evidence a row d))[a := f] = (ds_first d)[a := f]"
  "(ds_latest (add_evidence a row d))[a := l] = (ds_latest d)[a := l]"
  by (simp_all add: add_evidence_def Let_def split: option.split)

lemma union_roots_reset:
  assumes "union_roots a b d = Inr e"
  shows "ds_nodes e = ds_nodes d" "(ds_parent e)[b := p] = (ds_parent d)[b := p]" "(ds_size e)[a := s] = (ds_size d)[a := s]"
    "(ds_minimum e)[a := m] = (ds_minimum d)[a := m]" "(ds_total e)[a := x] = (ds_total d)[a := x]"
    "(ds_first e)[a := f] = (ds_first d)[a := f]" "(ds_latest e)[a := l] = (ds_latest d)[a := l]"
    "(ds_members e)[a := ms] = (ds_members d)[a := ms]"
    "ds_history e = UndoUnion a b (ds_size d ! a) (ds_minimum d ! a) (ds_total d ! a) (ds_first d ! a)
       (ds_latest d ! a) (ds_members d ! a) # ds_history d"
proof -
  from assms obtain ms' where e: "e = d\<lparr>ds_parent := (ds_parent d)[b := a],
       ds_size := (ds_size d)[a := ds_size d ! a + ds_size d ! b],
       ds_minimum := (ds_minimum d)[a := min (ds_minimum d ! a) (ds_minimum d ! b)],
       ds_total := (ds_total d)[a := dec_add (ds_total d ! a) (ds_total d ! b)],
       ds_first := ds_first e, ds_latest := ds_latest e, ds_members := (ds_members d)[a := ms'],
       ds_history := ds_history e\<rparr>"
    by (auto simp: union_roots_def bindr_Inr)
  show "ds_nodes e = ds_nodes d" "(ds_parent e)[b := p] = (ds_parent d)[b := p]" "(ds_size e)[a := s] = (ds_size d)[a := s]"
    "(ds_minimum e)[a := m] = (ds_minimum d)[a := m]" "(ds_total e)[a := x] = (ds_total d)[a := x]"
    "(ds_members e)[a := ms] = (ds_members d)[a := ms]"
    by (subst e; simp)+
  show "(ds_first e)[a := f] = (ds_first d)[a := f]" "(ds_latest e)[a := l] = (ds_latest d)[a := l]"
    "ds_history e = UndoUnion a b (ds_size d ! a) (ds_minimum d ! a) (ds_total d ! a) (ds_first d ! a)
       (ds_latest d ! a) (ds_members d ! a) # ds_history d"
    using assms by (auto simp: union_roots_def bindr_Inr split: option.split)
qed

lemma undo_union:
  assumes "union_roots a b d = Inr e" "ds_parent d ! b = b" "u = hd (ds_history e)"
  shows "undo u ((add_evidence a row e)\<lparr>ds_history := ds_history d\<rparr>) = d"
proof -
  note r = union_roots_reset [OF assms(1)]
  have "(ds_parent d)[b := b] = (ds_parent d)[b := ds_parent d ! b]" using assms(2) by simp
  also have "\<dots> = ds_parent d" by (rule list_update_id)
  finally have p: "(ds_parent d)[b := b] = ds_parent d" .
  have u: "u = UndoUnion a b (ds_size d ! a) (ds_minimum d ! a) (ds_total d ! a) (ds_first d ! a)
      (ds_latest d ! a) (ds_members d ! a)" using assms(3) r(9) by simp
  show ?thesis unfolding u by (rule dsu.equality) (simp_all add: r(1-8) p)
qed

lemma add_edge_cases:
  assumes "add_edge left right row d = Inr d'"
  obtains (edge) l where "dsu_find d left = Inr l" "dsu_find d right = Inr l"
      "d' = add_evidence l row (d\<lparr>ds_history :=
        UndoEdge l (ds_total d ! l) (ds_first d ! l) (ds_latest d ! l) # ds_history d\<rparr>)"
    | (union) a b e where "dsu_find d left = Inr a \<and> dsu_find d right = Inr b \<or> dsu_find d left = Inr b \<and> dsu_find d right = Inr a"
      "a \<noteq> b" "union_roots a b d = Inr e" "d' = add_evidence a row e"
proof -
  from assms obtain l r where f: "dsu_find d left = Inr l" "dsu_find d right = Inr r"
    by (auto simp: add_edge_def bindr_Inr)
  show thesis
  proof (cases "l = r")
    case True
    then show thesis using assms f edge by (simp add: add_edge_def)
  next
    case False
    have "bindr (union_roots r l d) (\<lambda>e. Inr (add_evidence r row e)) = Inr d' \<or>
        bindr (union_roots l r d) (\<lambda>e. Inr (add_evidence l row e)) = Inr d'"
      using assms f False unfolding add_edge_def by (auto split: if_splits)
    then show thesis using False f union by (auto simp only: bindr_Inr sum.inject)
  qed
qed

lemma add_edge_undo:
  assumes "add_edge left right row d = Inr d'"
  obtains u where "ds_history d' = u # ds_history d" "undo u (d'\<lparr>ds_history := ds_history d\<rparr>) = d"
  using assms
proof (cases rule: add_edge_cases)
  case (edge l)
  let ?u = "UndoEdge l (ds_total d ! l) (ds_first d ! l) (ds_latest d ! l)"
  have "ds_history d' = ?u # ds_history d" by (simp add: edge(3))
  moreover have "undo ?u (d'\<lparr>ds_history := ds_history d\<rparr>) = d"
    unfolding edge(3) by (rule dsu.equality) simp_all
  ultimately show thesis by (rule that)
next
  case (union a b e)
  then have "ds_parent d ! b = b" using dsu_find_root by blast
  from undo_union [OF union(3) this refl, of row] union_roots_reset(9) [OF union(3)] union(4) that
  show thesis by simp
qed

lemma rollback_self [simp]: "rollback (length (ds_history d)) d = d"
  by (subst rollback.simps) (simp split: list.split)

lemma rollback_twice: "m \<le> k \<Longrightarrow> rollback m (rollback k x) = rollback m x"
proof (induction k x rule: rollback.induct)
  case (1 k x)
  show ?case
  proof (cases "ds_history x")
    case Nil
    then show ?thesis by (subst (2) rollback.simps) simp
  next
    case (Cons u us)
    show ?thesis
    proof (cases "k < length (ds_history x)")
      case True
      with 1 Cons have "rollback m (rollback k (undo u (x\<lparr>ds_history := us\<rparr>))) = rollback m (undo u (x\<lparr>ds_history := us\<rparr>))"
        by simp
      moreover have "rollback n x = rollback n (undo u (x\<lparr>ds_history := us\<rparr>))" if "n \<le> k" for n
        using Cons True that by (subst rollback.simps) simp
      ultimately show ?thesis using 1(2) by simp
    next
      case False
      then show ?thesis using Cons by (subst (2) rollback.simps) simp
    qed
  qed
qed

theorem rollback_edges:
  assumes "foldlr (\<lambda>d (l, r, row). add_edge l r row d) d es = Inr d'"
  shows "rollback (dsu_mark d) d' = d"
proof -
  have "\<exists>us. ds_history d' = us @ ds_history d \<and> rollback (length (ds_history d)) d' = d"
    using assms
  proof (induction es arbitrary: d)
    case Nil
    then show ?case by simp
  next
    case (Cons x es)
    obtain l r row where x: "x = (l, r, row)" by (cases x)
    with Cons.prems obtain e where e: "add_edge l r row d = Inr e"
      "foldlr (\<lambda>d (l, r, row). add_edge l r row d) e es = Inr d'" by (auto simp: bindr_Inr)
    from Cons.IH [OF e(2)] obtain us where us: "ds_history d' = us @ ds_history e"
      "rollback (length (ds_history e)) d' = e" by auto
    from add_edge_undo [OF e(1)] obtain u where u: "ds_history e = u # ds_history d"
      "undo u (e\<lparr>ds_history := ds_history d\<rparr>) = d" by blast
    have "rollback (length (ds_history d)) d' = rollback (length (ds_history d)) e"
      using us(2) u(1) rollback_twice [of "length (ds_history d)" "length (ds_history e)" d'] by simp
    also have "\<dots> = rollback (length (ds_history d)) (undo u (e\<lparr>ds_history := ds_history d\<rparr>))"
      by (subst rollback.simps) (simp add: u(1))
    finally have "rollback (length (ds_history d)) d' = d" by (simp add: u(2))
    with us(1) u(1) show ?case by simp
  qed
  then show ?thesis by (auto simp: dsu_mark_def)
qed

end
