(* ===== verification/DsuComponents.thy ===== *)
theory DsuComponents
  imports RollbackDsu
begin

text \<open>
  The forest after adding edges: two nodes have the same root if and only if the edges connect them, the
  search for a root ends, and every root carries the aggregates of its component. Roots are an
  implementation detail that the specification by connectivity does not mention.
\<close>

section \<open>Connectivity\<close>

type_synonym edge = "nat \<times> nat \<times> causal_row"

definition edge_rel :: "edge list \<Rightarrow> (nat \<times> nat) set" where
  "edge_rel es = {(u, v). \<exists>row. (u, v, row) \<in> set es \<or> (v, u, row) \<in> set es}"

definition linked :: "edge list \<Rightarrow> nat \<Rightarrow> nat \<Rightarrow> bool" where
  "linked es u v \<longleftrightarrow> (u, v) \<in> (edge_rel es)\<^sup>*"

definition comp_of :: "nat \<Rightarrow> edge list \<Rightarrow> nat \<Rightarrow> nat set" where
  "comp_of n es v = {u. u < n \<and> linked es u v}"

definition rows_in :: "edge list \<Rightarrow> nat set \<Rightarrow> causal_row list" where
  "rows_in es K = map (\<lambda>(_, _, row). row) (filter (\<lambda>(u, v, _). u \<in> K) es)"

lemma linked_refl [simp]: "linked es v v"
  by (simp add: linked_def)

lemma linked_sym: "linked es u v \<Longrightarrow> linked es v u"
proof -
  have "sym (edge_rel es)" by (auto simp: edge_rel_def sym_def)
  then have "sym ((edge_rel es)\<^sup>*)" by (rule sym_rtrancl)
  then show "linked es u v \<Longrightarrow> linked es v u" by (auto simp: linked_def dest: symD)
qed

lemma linked_trans: "linked es u v \<Longrightarrow> linked es v w \<Longrightarrow> linked es u w"
  by (simp add: linked_def)

lemma linked_edge: "(u, v, row) \<in> set es \<Longrightarrow> linked es u v"
  by (auto simp: linked_def edge_rel_def)

lemma linked_mono: "set es \<subseteq> set es' \<Longrightarrow> linked es u v \<Longrightarrow> linked es' u v"
  unfolding linked_def by (erule rtrancl_mono [THEN subsetD, rotated]) (auto simp: edge_rel_def)

lemma linked_cong: "set es = set es' \<Longrightarrow> linked es = linked es'"
  by (intro ext) (simp add: linked_def edge_rel_def)

lemma linked_invariant:
  assumes "linked es u v" "\<And>a b row. (a, b, row) \<in> set es \<Longrightarrow> f a = f b"
  shows "f u = f v"
  using assms(1) unfolding linked_def
proof (induction rule: rtrancl_induct)
  case (step b c)
  then have "f b = f c" using assms(2) by (auto simp: edge_rel_def)
  with step show ?case by simp
qed simp

section \<open>Forests\<close>

text \<open>\<open>rep\<close> gives the root of a node and \<open>h\<close> grows with its depth.\<close>

definition forest :: "nat list \<Rightarrow> (nat \<Rightarrow> nat) \<Rightarrow> (nat \<Rightarrow> nat) \<Rightarrow> bool" where
  "forest p rep h \<longleftrightarrow> (\<forall>v < length p. p ! v < length p \<and> rep v < length p \<and> rep (p ! v) = rep v \<and>
     rep (rep v) = rep v \<and> (p ! v = v \<longleftrightarrow> rep v = v) \<and> (p ! v \<noteq> v \<longrightarrow> h (p ! v) < h v))"

lemma forest_find:
  assumes "forest p rep h" "v < length p"
  shows "while_option (\<lambda>v. p ! v \<noteq> v) (\<lambda>v. p ! v) v = Some (rep v)"
  using assms(2)
proof (induction "h v" arbitrary: v rule: less_induct)
  case less
  note f = assms(1) [unfolded forest_def, rule_format, OF less.prems]
  show ?case
  proof (cases "p ! v = v")
    case True
    then show ?thesis using f by (subst while_option_unfold) simp
  next
    case False
    then have "while_option (\<lambda>v. p ! v \<noteq> v) (\<lambda>v. p ! v) (p ! v) = Some (rep (p ! v))"
      using f by (intro less.hyps) simp_all
    with False f show ?thesis by (subst while_option_unfold) simp
  qed
qed

lemma forest_union:
  assumes f: "forest p rep h" and ab: "a < length p" "b < length p" "rep a = a" "rep b = b" "a \<noteq> b"
  defines "rep' \<equiv> \<lambda>v. if rep v = b then a else rep v" and "h' \<equiv> \<lambda>v. if rep v = b then Suc (h v + h a) else h v"
  shows "forest (p[b := a]) rep' h'"
  unfolding forest_def
proof (intro allI impI)
  fix v assume "v < length (p[b := a])"
  then have v: "v < length p" by simp
  note fv = f [unfolded forest_def, rule_format, OF v]
  have pa: "p ! a = a" "p ! b = b" using f ab unfolding forest_def by auto
  have eq: "p[b := a] ! v = (if v = b then a else p ! v)" using v by simp
  show "p[b := a] ! v < length (p[b := a]) \<and> rep' v < length (p[b := a]) \<and> rep' (p[b := a] ! v) = rep' v \<and>
      rep' (rep' v) = rep' v \<and> (p[b := a] ! v = v \<longleftrightarrow> rep' v = v) \<and> (p[b := a] ! v \<noteq> v \<longrightarrow> h' (p[b := a] ! v) < h' v)"
    using fv ab v unfolding eq by (auto simp: rep'_def h'_def)
qed

section \<open>Aggregates\<close>

fun tree_positions :: "member_tree \<Rightarrow> nat set" where
  "tree_positions (MemberTree ps l r) = set ps \<union> (case l of None \<Rightarrow> {} | Some t \<Rightarrow> tree_positions t) \<union>
     (case r of None \<Rightarrow> {} | Some t \<Rightarrow> tree_positions t)"

fun node_positions :: "node_members \<Rightarrow> nat set" where
  "node_positions (NodeBits x) = {k. bit x k}"
| "node_positions (NodeTree t) = tree_positions t"

fun is_bits :: "node_members \<Rightarrow> bool" where
  "is_bits (NodeBits _) = True"
| "is_bits (NodeTree _) = False"

definition least_id :: "string option \<Rightarrow> causal_row list \<Rightarrow> bool" where
  "least_id x rows \<longleftrightarrow> x = (if rows = [] then None else Some (Min (cr_event_id ` set rows)))"

definition row_evidence :: "causal_row \<Rightarrow> evidence" where
  "row_evidence row = (cr_available_at row, cr_event_id row)"

definition latest_of :: "evidence option \<Rightarrow> causal_row list \<Rightarrow> bool" where
  "latest_of x rows \<longleftrightarrow> (case x of
       None \<Rightarrow> rows = []
     | Some ev \<Rightarrow> ev \<in> row_evidence ` set rows \<and> (\<forall>row \<in> set rows. \<not> evidence_less ev (row_evidence row)))"

definition exact_rows :: "int \<Rightarrow> causal_row list \<Rightarrow> bool" where
  "exact_rows e rows \<longleftrightarrow> e \<le> 0 \<and> (\<forall>row \<in> set rows. e \<le> dexp (cr_amount row)) \<and>
     (\<Sum>row \<leftarrow> rows. units e (cr_amount row)) < int dec_limit"

text \<open>The total is finite and not negative, and exact as long as 28 digits suffice.\<close>

definition total_of :: "edge list \<Rightarrow> pydec \<Rightarrow> causal_row list \<Rightarrow> bool" where
  "total_of es x rows \<longleftrightarrow> dfinite x \<and> 0 \<le> dsig x \<and>
     (\<forall>e. exact_rows e (map (\<lambda>(_, _, row). row) es) \<longrightarrow>
       e \<le> dexp x \<and> units e x = (\<Sum>row \<leftarrow> rows. units e (cr_amount row)))"

definition aggregate ::
  "string list \<Rightarrow> (nat \<Rightarrow> nat set) \<Rightarrow> bool \<Rightarrow> edge list \<Rightarrow> dsu \<Rightarrow> nat \<Rightarrow> nat set \<Rightarrow> bool" where
  "aggregate nodes pos bits es d r K \<longleftrightarrow>
     ds_size d ! r = card K \<and> ds_minimum d ! r = Min ((!) nodes ` K) \<and>
     node_positions (ds_members d ! r) = \<Union> (pos ` K) \<and> is_bits (ds_members d ! r) = bits \<and>
     least_id (ds_first d ! r) (rows_in es K) \<and> latest_of (ds_latest d ! r) (rows_in es K) \<and>
     total_of es (ds_total d ! r) (rows_in es K)"

definition rooted :: "nat \<Rightarrow> (nat \<Rightarrow> nat) \<Rightarrow> nat \<Rightarrow> nat set" where
  "rooted n rep r = {v. v < n \<and> rep v = r}"

lemma rows_sum_le:
  assumes "\<forall>(u, v, row) \<in> set es. 0 \<le> dsig (cr_amount row)"
  shows "(\<Sum>row \<leftarrow> rows_in es K. units e (cr_amount row)) \<le> (\<Sum>row \<leftarrow> map (\<lambda>(_, _, row). row) es. units e (cr_amount row))"
    and "0 \<le> (\<Sum>row \<leftarrow> rows_in es K. units e (cr_amount row))"
proof -
  have "(\<Sum>row \<leftarrow> rows_in es K. units e (cr_amount row)) \<le> (\<Sum>row \<leftarrow> map (\<lambda>(_, _, row). row) es. units e (cr_amount row)) \<and>
      0 \<le> (\<Sum>row \<leftarrow> rows_in es K. units e (cr_amount row))"
    using assms
  proof (induction es)
    case (Cons x es)
    obtain u v row where x: "x = (u, v, row)" by (cases x)
    have "0 \<le> units e (cr_amount row)" using Cons.prems by (simp add: x units_sign)
    with Cons show ?case by (auto simp: x rows_in_def)
  qed (simp add: rows_in_def)
  then show "(\<Sum>row \<leftarrow> rows_in es K. units e (cr_amount row)) \<le> (\<Sum>row \<leftarrow> map (\<lambda>(_, _, row). row) es. units e (cr_amount row))"
    "0 \<le> (\<Sum>row \<leftarrow> rows_in es K. units e (cr_amount row))" by simp_all
qed

lemma set_rows_in: "set (rows_in es K) = {row. \<exists>u v. (u, v, row) \<in> set es \<and> u \<in> K}"
  by (force simp: rows_in_def)

lemma rows_in_union:
  "set (rows_in es (K \<union> L)) = set (rows_in es K) \<union> set (rows_in es L)"
  "K \<inter> L = {} \<Longrightarrow> (\<Sum>row \<leftarrow> rows_in es (K \<union> L). f row) = (\<Sum>row \<leftarrow> rows_in es K. f row) + (\<Sum>row \<leftarrow> rows_in es L. (f row :: int))"
proof -
  show "set (rows_in es (K \<union> L)) = set (rows_in es K) \<union> set (rows_in es L)"
    by (auto simp: set_rows_in)
  assume "K \<inter> L = {}"
  then show "(\<Sum>row \<leftarrow> rows_in es (K \<union> L). f row) = (\<Sum>row \<leftarrow> rows_in es K. f row) + (\<Sum>row \<leftarrow> rows_in es L. f row)"
    by (induction es) (auto simp: rows_in_def)
qed

lemma rows_in_snoc:
  "rows_in (es @ [(u, v, row)]) K = rows_in es K @ (if u \<in> K then [row] else [])"
  by (simp add: rows_in_def)

lemma rows_in_subset: "row \<in> set (rows_in es K) \<Longrightarrow> \<exists>u v. (u, v, row) \<in> set es"
  by (auto simp: rows_in_def)

section \<open>One more row\<close>

lemma exact_rows_prefix: "exact_rows e (rows @ rows') \<Longrightarrow> \<forall>row \<in> set rows'. 0 \<le> dsig (cr_amount row) \<Longrightarrow> exact_rows e rows"
proof -
  assume a: "exact_rows e (rows @ rows')" "\<forall>row \<in> set rows'. 0 \<le> dsig (cr_amount row)"
  have "0 \<le> (\<Sum>row \<leftarrow> rows'. units e (cr_amount row))"
    using a(2) by (intro sum_list_nonneg) (auto simp: units_sign)
  with a show "exact_rows e rows" by (simp add: exact_rows_def)
qed

lemma total_of_more:
  assumes "total_of es x rows" "0 \<le> dsig (cr_amount row)"
  shows "total_of (es @ [(u, v, row)]) x rows"
  using assms exact_rows_prefix [of _ "map (\<lambda>(_, _, row). row) es" "[row]"] by (simp add: total_of_def)

lemma total_of_add:
  assumes "total_of es x (rows_in es K)" "\<forall>(u, v, row) \<in> set es. 0 \<le> dsig (cr_amount row)"
    and "dfinite (cr_amount row)" "0 \<le> dsig (cr_amount row)" "u \<in> K"
  shows "total_of (es @ [(u, v, row)]) (dec_add x (cr_amount row)) (rows_in (es @ [(u, v, row)]) K)"
  unfolding total_of_def
proof (intro conjI allI impI)
  show "dfinite (dec_add x (cr_amount row))" "0 \<le> dsig (dec_add x (cr_amount row))"
    using assms dec_add_nonneg dec_add_finite by (auto simp: total_of_def)
  fix e assume ex: "exact_rows e (map (\<lambda>(_, _, row). row) (es @ [(u, v, row)]))"
  then have "exact_rows e (map (\<lambda>(_, _, row). row) es)"
    using exact_rows_prefix [of _ "map (\<lambda>(_, _, row). row) es" "[row]"] assms(4) by simp
  with assms(1) have x: "dfinite x" "0 \<le> dsig x" "e \<le> dexp x"
    "units e x = (\<Sum>row \<leftarrow> rows_in es K. units e (cr_amount row))" by (auto simp: total_of_def)
  have "\<bar>units e x + units e (cr_amount row)\<bar> < int dec_limit"
    using ex rows_sum_le [OF assms(2), where K = K and e = e] x(4) assms(4) by (simp add: exact_rows_def units_sign)
  with x assms(3) ex have "e \<le> dexp (dec_add x (cr_amount row)) \<and>
      units e (dec_add x (cr_amount row)) = units e x + units e (cr_amount row)"
    using dec_add_exact [of x e "cr_amount row"] by (simp add: exact_rows_def)
  with x(4) assms(5) show "e \<le> dexp (dec_add x (cr_amount row))"
    "units e (dec_add x (cr_amount row)) = (\<Sum>row \<leftarrow> rows_in (es @ [(u, v, row)]) K. units e (cr_amount row))"
    by (simp_all add: rows_in_snoc)
qed

lemma total_of_join:
  assumes "total_of es x (rows_in es K)" "total_of es y (rows_in es L)" "K \<inter> L = {}"
    and "\<forall>(u, v, row) \<in> set es. 0 \<le> dsig (cr_amount row)"
  shows "total_of es (dec_add x y) (rows_in es (K \<union> L))"
  unfolding total_of_def
proof (intro conjI allI impI)
  show "dfinite (dec_add x y)" "0 \<le> dsig (dec_add x y)"
    using assms dec_add_nonneg dec_add_finite by (auto simp: total_of_def)
  fix e assume ex: "exact_rows e (map (\<lambda>(_, _, row). row) es)"
  with assms(1,2) have x: "dfinite x" "e \<le> dexp x" "units e x = (\<Sum>row \<leftarrow> rows_in es K. units e (cr_amount row))"
    and y: "dfinite y" "e \<le> dexp y" "units e y = (\<Sum>row \<leftarrow> rows_in es L. units e (cr_amount row))"
    by (auto simp: total_of_def)
  note u = rows_in_union(2) [OF assms(3), of "\<lambda>row. units e (cr_amount row)" es]
  have "\<bar>units e x + units e y\<bar> < int dec_limit"
    using ex rows_sum_le [OF assms(4), where K = "K \<union> L" and e = e] x(3) y(3) u by (simp add: exact_rows_def)
  with dec_add_exact [OF x(1,2) y(1,2)] x(3) y(3) u
  show "e \<le> dexp (dec_add x y)" "units e (dec_add x y) = (\<Sum>row \<leftarrow> rows_in es (K \<union> L). units e (cr_amount row))"
    by simp_all
qed

lemma least_id_add:
  assumes "least_id x rows"
  shows "least_id (case x of None \<Rightarrow> Some (cr_event_id row)
    | Some current \<Rightarrow> if cr_event_id row < current then Some (cr_event_id row) else x) (rows @ [row])"
proof (cases "rows = []")
  case True
  then show ?thesis using assms by (simp add: least_id_def)
next
  case False
  define m where "m = Min (cr_event_id ` set rows)"
  have x: "x = Some m" using False assms by (simp add: least_id_def m_def)
  have "Min (cr_event_id ` set (rows @ [row])) = min (cr_event_id row) m"
    using False by (simp add: m_def Min_insert)
  then show ?thesis unfolding least_id_def x by (auto simp: min_def not_less)
qed

lemma least_id_join:
  assumes "least_id x rows" "least_id y rows'" "set rs = set rows \<union> set rows'"
  shows "least_id (case (x, y) of (None, source) \<Rightarrow> source
     | (Some target, Some source) \<Rightarrow> if source < target then Some source else x
     | (Some target, None) \<Rightarrow> x) rs"
proof -
  have e: "rs = [] \<longleftrightarrow> rows = [] \<and> rows' = []" using assms(3) by (metis set_empty Un_empty)
  define m m' where "m = Min (cr_event_id ` set rows)" and "m' = Min (cr_event_id ` set rows')"
  have both: "Min (cr_event_id ` set rs) = min m m'" if "rows \<noteq> []" "rows' \<noteq> []"
    unfolding assms(3) image_Un m_def m'_def using that by (intro Min_Un) auto
  have x: "x = (if rows = [] then None else Some m)" "y = (if rows' = [] then None else Some m')"
    using assms(1,2) by (simp_all add: least_id_def m_def m'_def)
  have "Min (cr_event_id ` set rs) = m" if "rows \<noteq> []" "rows' = []" using that by (simp add: assms(3) m_def)
  moreover have "Min (cr_event_id ` set rs) = m'" if "rows = []" "rows' \<noteq> []" using that by (simp add: assms(3) m'_def)
  ultimately show ?thesis
    using both e unfolding least_id_def x
    by (cases "rows = []"; cases "rows' = []") (simp_all only: if_True if_False option.case prod.case simp_thms min_def, auto)
qed

lemma latest_of_add:
  assumes "latest_of x rows"
  shows "latest_of (case x of None \<Rightarrow> Some (row_evidence row)
    | Some current \<Rightarrow> if evidence_less current (row_evidence row) then Some (row_evidence row) else x) (rows @ [row])"
  using assms by (cases x) (auto simp: latest_of_def evidence_less_def dest: less_trans)

lemma latest_of_join:
  assumes "latest_of x rows" "latest_of y rows'" "set rs = set rows \<union> set rows'"
  shows "latest_of (case (x, y) of (None, Some source) \<Rightarrow> Some source
     | (Some target, Some source) \<Rightarrow> if evidence_less target source then Some source else x
     | (_, None) \<Rightarrow> x) rs"
proof -
  have "rs = [] \<longleftrightarrow> rows = [] \<and> rows' = []" using assms(3) by (metis set_empty Un_empty)
  with assms show ?thesis
    by (cases x; cases y) (auto simp: latest_of_def evidence_less_def dest: less_trans not_less_iff_gr_or_eq [THEN iffD1])
qed

lemma join_members_Inr:
  assumes "join_members m m' = Inr ms"
  shows "node_positions ms = node_positions m \<union> node_positions m' \<and> is_bits ms = is_bits m"
  using assms by (cases m; cases m') (auto simp: bit_or_iff)

lemma join_members_total: "is_bits m = is_bits m' \<Longrightarrow> \<exists>ms. join_members m m' = Inr ms"
  by (cases m; cases m') auto

definition lengths_ok :: "nat \<Rightarrow> dsu \<Rightarrow> bool" where
  "lengths_ok n d \<longleftrightarrow> length (ds_parent d) = n \<and> length (ds_size d) = n \<and> length (ds_minimum d) = n \<and>
     length (ds_total d) = n \<and> length (ds_first d) = n \<and> length (ds_latest d) = n \<and> length (ds_members d) = n"

definition rows_ok :: "nat \<Rightarrow> edge list \<Rightarrow> bool" where
  "rows_ok n es \<longleftrightarrow> (\<forall>(u, v, row) \<in> set es. u < n \<and> v < n \<and> dfinite (cr_amount row) \<and> 0 \<le> dsig (cr_amount row))"

lemma rows_ok_amounts: "rows_ok n es \<Longrightarrow> \<forall>(u, v, row) \<in> set es. 0 \<le> dsig (cr_amount row)"
  by (auto simp: rows_ok_def)

lemma aggregate_evidence:
  assumes "aggregate nodes pos bits es d r K" "lengths_ok n d" "rows_ok n (es @ [(u, v, row)])" "a < n" "r < n"
    and "u \<in> K \<longleftrightarrow> r = a"
  shows "aggregate nodes pos bits (es @ [(u, v, row)]) (add_evidence a row d) r K"
proof -
  note agg = assms(1) [unfolded aggregate_def]
  have row: "dfinite (cr_amount row)" "0 \<le> dsig (cr_amount row)" and es: "rows_ok n es"
    using assms(3) by (auto simp: rows_ok_def)
  have len: "a < length (ds_total d)" "a < length (ds_first d)" "a < length (ds_latest d)"
    using assms(2,4) by (simp_all add: lengths_ok_def)
  have fields: "ds_first (add_evidence a row d) ! r = (if r = a then (case ds_first d ! r of None \<Rightarrow> Some (cr_event_id row)
        | Some current \<Rightarrow> if cr_event_id row < current then Some (cr_event_id row) else ds_first d ! r) else ds_first d ! r)"
      "ds_latest (add_evidence a row d) ! r = (if r = a then (case ds_latest d ! r of None \<Rightarrow> Some (row_evidence row)
        | Some current \<Rightarrow> if evidence_less current (row_evidence row) then Some (row_evidence row) else ds_latest d ! r)
        else ds_latest d ! r)"
      "ds_total (add_evidence a row d) ! r = (if r = a then dec_add (ds_total d ! r) (cr_amount row) else ds_total d ! r)"
    using len by (auto simp: add_evidence_def row_evidence_def Let_def split: option.split)
  show ?thesis
  proof (cases "r = a")
    case True
    with assms(6) have u: "u \<in> K" by simp
    have r: "rows_in (es @ [(u, v, row)]) K = rows_in es K @ [row]" using u by (simp add: rows_in_snoc)
    have "least_id (ds_first (add_evidence a row d) ! r) (rows_in (es @ [(u, v, row)]) K)"
      unfolding fields r if_P [OF True] by (rule least_id_add) (use agg in simp)
    moreover have "latest_of (ds_latest (add_evidence a row d) ! r) (rows_in (es @ [(u, v, row)]) K)"
      unfolding fields r if_P [OF True] by (rule latest_of_add) (use agg in simp)
    moreover have "total_of (es @ [(u, v, row)]) (ds_total (add_evidence a row d) ! r) (rows_in (es @ [(u, v, row)]) K)"
      using total_of_add [OF _ rows_ok_amounts [OF es] row u] agg unfolding fields if_P [OF True] by simp
    ultimately show ?thesis using agg by (simp add: aggregate_def)
  next
    case False
    with assms(6) have "rows_in (es @ [(u, v, row)]) K = rows_in es K" by (simp add: rows_in_snoc)
    then show ?thesis using agg False total_of_more [OF _ row(2)] by (simp add: aggregate_def fields)
  qed
qed

lemma update_same: "xs ! i = y \<Longrightarrow> xs[i := y] = xs"
  by auto

lemma union_roots_fields:
  assumes "union_roots a b d = Inr e" "lengths_ok n d" "a < n"
  shows "lengths_ok n e" "ds_nodes e = ds_nodes d" "ds_parent e = (ds_parent d)[b := a]"
    "ds_size e = (ds_size d)[a := ds_size d ! a + ds_size d ! b]"
    "ds_minimum e = (ds_minimum d)[a := min (ds_minimum d ! a) (ds_minimum d ! b)]"
    "ds_total e = (ds_total d)[a := dec_add (ds_total d ! a) (ds_total d ! b)]"
    "ds_first e = (ds_first d)[a := (case (ds_first d ! a, ds_first d ! b) of (None, source) \<Rightarrow> source
       | (Some target, Some source) \<Rightarrow> if source < target then Some source else ds_first d ! a
       | (Some target, None) \<Rightarrow> ds_first d ! a)]"
    "ds_latest e = (ds_latest d)[a := (case (ds_latest d ! a, ds_latest d ! b) of (None, Some source) \<Rightarrow> Some source
       | (Some target, Some source) \<Rightarrow> if evidence_less target source then Some source else ds_latest d ! a
       | (_, None) \<Rightarrow> ds_latest d ! a)]"
    "\<exists>ms. join_members (ds_members d ! a) (ds_members d ! b) = Inr ms \<and> ds_members e = (ds_members d)[a := ms]"
proof -
  from assms(1) obtain ms where ms: "join_members (ds_members d ! a) (ds_members d ! b) = Inr ms"
    and e: "e = d\<lparr>ds_parent := (ds_parent d)[b := a],
       ds_size := (ds_size d)[a := ds_size d ! a + ds_size d ! b],
       ds_minimum := (ds_minimum d)[a := min (ds_minimum d ! a) (ds_minimum d ! b)],
       ds_total := (ds_total d)[a := dec_add (ds_total d ! a) (ds_total d ! b)],
       ds_first := ds_first e, ds_latest := ds_latest e, ds_members := (ds_members d)[a := ms],
       ds_history := ds_history e\<rparr>"
    by (auto simp: union_roots_def bindr_Inr)
  show "ds_nodes e = ds_nodes d" "ds_parent e = (ds_parent d)[b := a]"
    "ds_size e = (ds_size d)[a := ds_size d ! a + ds_size d ! b]"
    "ds_minimum e = (ds_minimum d)[a := min (ds_minimum d ! a) (ds_minimum d ! b)]"
    "ds_total e = (ds_total d)[a := dec_add (ds_total d ! a) (ds_total d ! b)]"
    by (subst e; simp)+
  show "\<exists>ms. join_members (ds_members d ! a) (ds_members d ! b) = Inr ms \<and> ds_members e = (ds_members d)[a := ms]"
    by (subst e) (use ms in simp)
  show first: "ds_first e = (ds_first d)[a := (case (ds_first d ! a, ds_first d ! b) of (None, source) \<Rightarrow> source
       | (Some target, Some source) \<Rightarrow> if source < target then Some source else ds_first d ! a
       | (Some target, None) \<Rightarrow> ds_first d ! a)]"
    using assms(1) by (auto simp: union_roots_def bindr_Inr update_same split: option.split)
  show latest: "ds_latest e = (ds_latest d)[a := (case (ds_latest d ! a, ds_latest d ! b) of (None, Some source) \<Rightarrow> Some source
       | (Some target, Some source) \<Rightarrow> if evidence_less target source then Some source else ds_latest d ! a
       | (_, None) \<Rightarrow> ds_latest d ! a)]"
    using assms(1) by (auto simp: union_roots_def bindr_Inr update_same split: option.split)
  have lens: "length (ds_first e) = length (ds_first d)" "length (ds_latest e) = length (ds_latest d)"
    by (subst first latest; simp)+
  show "lengths_ok n e"
    using assms(2) lens by (subst e) (simp add: lengths_ok_def)
qed

lemma aggregate_union:
  assumes ab: "aggregate nodes pos bits es d a K" "aggregate nodes pos bits es d b L"
    and K: "K \<inter> L = {}" "finite K" "finite L" "K \<noteq> {}" "L \<noteq> {}"
    and n: "lengths_ok n d" "a < n" "rows_ok n es" and e: "union_roots a b d = Inr e"
  shows "aggregate nodes pos bits es e a (K \<union> L)"
proof -
  note f = union_roots_fields [OF e n(1,2)]
  note A = ab(1) [unfolded aggregate_def] and B = ab(2) [unfolded aggregate_def]
  have len: "a < length (ds_size d)" "a < length (ds_minimum d)" "a < length (ds_total d)" "a < length (ds_first d)"
    "a < length (ds_latest d)" "a < length (ds_members d)"
    using n by (simp_all add: lengths_ok_def)
  note u = rows_in_union(1) [of es K L]
  have "ds_size e ! a = card (K \<union> L)" using A B len K by (simp add: f card_Un_disjoint)
  moreover have "ds_minimum e ! a = Min ((!) nodes ` (K \<union> L))"
    using A B len K by (simp add: f image_Un Min_Un)
  moreover have "least_id (ds_first e ! a) (rows_in es (K \<union> L))"
    unfolding f(7) nth_list_update_eq [OF len(4)] by (rule least_id_join [OF _ _ u]) (use A B in simp_all)
  moreover have "latest_of (ds_latest e ! a) (rows_in es (K \<union> L))"
    unfolding f(8) nth_list_update_eq [OF len(5)] by (rule latest_of_join [OF _ _ u]) (use A B in simp_all)
  moreover have "total_of es (ds_total e ! a) (rows_in es (K \<union> L))"
    unfolding f(6) nth_list_update_eq [OF len(3)]
    by (rule total_of_join [OF _ _ K(1) rows_ok_amounts [OF n(3)]]) (use A B in simp_all)
  moreover have "node_positions (ds_members e ! a) = \<Union> (pos ` (K \<union> L)) \<and> is_bits (ds_members e ! a) = bits"
    using f(9) join_members_Inr A B len(6) by auto
  ultimately show ?thesis by (simp add: aggregate_def)
qed

lemma aggregate_other:
  assumes "aggregate nodes pos bits es d r K" "lengths_ok n d" "a < n" "union_roots a b d = Inr e" "r \<noteq> a"
  shows "aggregate nodes pos bits es e r K"
  using assms(1,5) union_roots_fields [OF assms(4,2,3)] by (auto simp: aggregate_def)

section \<open>The invariant\<close>

definition dsu_ok :: "string list \<Rightarrow> (nat \<Rightarrow> nat set) \<Rightarrow> bool \<Rightarrow> edge list \<Rightarrow> (nat \<Rightarrow> nat) \<Rightarrow> dsu \<Rightarrow> bool" where
  "dsu_ok nodes pos bits es rep d \<longleftrightarrow>
     ds_nodes d = nodes \<and> lengths_ok (length nodes) d \<and> rows_ok (length nodes) es \<and>
     (\<exists>h. forest (ds_parent d) rep h) \<and>
     (\<forall>u < length nodes. \<forall>v < length nodes. rep u = rep v \<longleftrightarrow> linked es u v) \<and>
     (\<forall>r < length nodes. rep r = r \<longrightarrow> aggregate nodes pos bits es d r (rooted (length nodes) rep r))"

lemma dsu_ok_find:
  assumes "dsu_ok nodes pos bits es rep d" "v < length nodes"
  shows "dsu_find d v = Inr (rep v)" "rep v < length nodes" "rep (rep v) = rep v"
proof -
  from assms obtain h where h: "forest (ds_parent d) rep h" "v < length (ds_parent d)" "length (ds_parent d) = length nodes"
    by (auto simp: dsu_ok_def lengths_ok_def)
  show "dsu_find d v = Inr (rep v)" using forest_find [OF h(1,2)] by (simp add: dsu_find_def)
  show "rep v < length nodes" "rep (rep v) = rep v" using h unfolding forest_def by auto
qed

lemma linked_snoc:
  assumes "\<And>w. w \<in> {u, v, left, right} \<Longrightarrow> linked es w w"
  shows "linked (es @ [(left, right, row)]) u v \<longleftrightarrow>
    linked es u v \<or> linked es u left \<and> linked es right v \<or> linked es u right \<and> linked es left v" (is "?L \<longleftrightarrow> ?R")
proof
  have sub: "linked es a b \<Longrightarrow> linked (es @ [(left, right, row)]) a b" for a b by (rule linked_mono) auto
  have edge: "linked (es @ [(left, right, row)]) left right" by (rule linked_edge [where row = row]) simp
  show "?R \<Longrightarrow> ?L" using sub edge by (meson linked_sym linked_trans)
  show "?L \<Longrightarrow> ?R"
    unfolding linked_def [of "es @ [(left, right, row)]"]
  proof (induction rule: rtrancl_induct)
    case base
    then show ?case by simp
  next
    case (step b c)
    from step(2) have "linked es b c \<or> b = left \<and> c = right \<or> b = right \<and> c = left"
      by (auto simp: edge_rel_def intro: linked_edge linked_sym [OF linked_edge])
    with step.IH show ?case by (meson linked_refl linked_sym linked_trans)
  qed
qed

theorem dsu_ok_add_edge:
  assumes ok: "dsu_ok nodes pos bits es rep d" and lr: "left < length nodes" "right < length nodes"
    and row: "dfinite (cr_amount row)" "0 \<le> dsig (cr_amount row)"
  shows "\<exists>rep' d'. add_edge left right row d = Inr d' \<and> dsu_ok nodes pos bits (es @ [(left, right, row)]) rep' d'"
proof -
  let ?n = "length nodes" and ?es = "es @ [(left, right, row)]"
  from ok obtain h where h: "forest (ds_parent d) rep h"
    and d: "ds_nodes d = nodes" "lengths_ok ?n d" "rows_ok ?n es"
    and link: "\<And>u v. u < ?n \<Longrightarrow> v < ?n \<Longrightarrow> rep u = rep v \<longleftrightarrow> linked es u v"
    and agg: "\<And>r. r < ?n \<Longrightarrow> rep r = r \<Longrightarrow> aggregate nodes pos bits es d r (rooted ?n rep r)"
    by (auto simp: dsu_ok_def)
  have len: "length (ds_parent d) = ?n" using d(2) by (simp add: lengths_ok_def)
  note fl = dsu_ok_find [OF ok lr(1)] and fr = dsu_ok_find [OF ok lr(2)]
  have rows: "rows_ok ?n ?es" using d(3) lr row by (simp add: rows_ok_def)
  show ?thesis
  proof (cases "rep left = rep right")
    case True
    let ?d = "d\<lparr>ds_history := UndoEdge (rep left) (ds_total d ! rep left) (ds_first d ! rep left) (ds_latest d ! rep left) # ds_history d\<rparr>"
    have "dsu_ok nodes pos bits ?es rep (add_evidence (rep left) row ?d)"
      unfolding dsu_ok_def
    proof (intro conjI allI impI)
      show "lengths_ok ?n (add_evidence (rep left) row ?d)"
        using d(2) by (simp add: lengths_ok_def add_evidence_def Let_def split: option.split)
      show "\<exists>h. forest (ds_parent (add_evidence (rep left) row ?d)) rep h" using h by auto
      fix u v assume "u < ?n" "v < ?n"
      moreover have "linked es left right" using link lr True by blast
      ultimately show "(rep u = rep v) = linked ?es u v"
        using link linked_snoc [of u v left right es row] by (auto dest: linked_sym linked_trans intro: linked_trans)
    next
      fix r assume r: "r < ?n" "rep r = r"
      have "aggregate nodes pos bits es ?d r (rooted ?n rep r)" using agg [OF r] by (simp add: aggregate_def)
      moreover have "lengths_ok ?n ?d" using d(2) by (simp add: lengths_ok_def)
      moreover have "left \<in> rooted ?n rep r \<longleftrightarrow> r = rep left" using lr by (auto simp: rooted_def)
      ultimately show "aggregate nodes pos bits ?es (add_evidence (rep left) row ?d) r (rooted ?n rep r)"
        using rows fl r by (intro aggregate_evidence) auto
    qed (use d rows in simp_all)
    with True fl fr show ?thesis by (auto simp: add_edge_def)
  next
    case False
    have join: "\<exists>e rep'. union_roots a b d = Inr e \<and> dsu_ok nodes pos bits ?es rep' (add_evidence a row e)"
      if ab: "{a, b} = {rep left, rep right}" "a \<noteq> b" for a b
    proof -
      have r: "a < ?n" "b < ?n" "rep a = a" "rep b = b" using ab fl fr by (auto simp: doubleton_eq_iff)
      let ?K = "rooted ?n rep a" and ?L = "rooted ?n rep b"
      note A = agg [OF r(1,3)] and B = agg [OF r(2,4)]
      have KL: "?K \<inter> ?L = {}" "finite ?K" "finite ?L" "?K \<noteq> {}" "?L \<noteq> {}"
        using r ab(2) by (auto simp: rooted_def)
      have "is_bits (ds_members d ! a) = is_bits (ds_members d ! b)" using A B by (simp add: aggregate_def)
      then obtain e where e: "union_roots a b d = Inr e"
        using join_members_total [of "ds_members d ! a" "ds_members d ! b"] by (auto simp: union_roots_def)
      note f = union_roots_fields [OF e d(2) r(1)]
      define rep' where "rep' v = (if rep v = b then a else rep v)" for v
      have forest: "\<exists>h. forest (ds_parent e) rep' h"
        unfolding f(3) rep'_def using forest_union [OF h, unfolded len, OF r ab(2)] by blast
      have "dsu_ok nodes pos bits ?es rep' (add_evidence a row e)"
        unfolding dsu_ok_def
      proof (intro conjI allI impI)
        show "lengths_ok ?n (add_evidence a row e)"
          using f(1) by (simp add: lengths_ok_def add_evidence_def Let_def split: option.split)
        show "\<exists>h. forest (ds_parent (add_evidence a row e)) rep' h" using forest by simp
        fix u v assume uv: "u < ?n" "v < ?n"
        have "rep' u = rep' v \<longleftrightarrow> rep u = rep v \<or> rep u = a \<and> rep v = b \<or> rep u = b \<and> rep v = a"
          using ab(2) by (auto simp: rep'_def)
        also have "\<dots> \<longleftrightarrow> rep u = rep v \<or> rep u = rep left \<and> rep right = rep v \<or> rep u = rep right \<and> rep left = rep v"
          using ab by (auto simp: doubleton_eq_iff)
        also have "\<dots> \<longleftrightarrow> linked ?es u v" using uv lr link by (simp add: linked_snoc)
        finally show "(rep' u = rep' v) = linked ?es u v" .
      next
        fix r' assume r': "r' < ?n" "rep' r' = r'"
        have other: "rep r' = r'" "r' \<noteq> b" "r' \<noteq> a \<Longrightarrow> rooted ?n rep' r' = rooted ?n rep r'"
          using r' r ab(2) by (auto simp: rep'_def rooted_def split: if_splits)
        have "aggregate nodes pos bits es e r' (rooted ?n rep' r')"
        proof (cases "r' = a")
          case True
          have "rooted ?n rep' a = ?K \<union> ?L" using ab(2) by (auto simp: rooted_def rep'_def)
          then show ?thesis using aggregate_union [OF A B KL d(2) r(1) d(3) e] True by simp
        next
          case False
          then show ?thesis using aggregate_other [OF agg d(2) r(1) e False] r'(1) other by simp
        qed
        moreover have "left \<in> rooted ?n rep' r' \<longleftrightarrow> r' = a"
          using ab lr r' by (auto simp: rooted_def rep'_def doubleton_eq_iff split: if_splits)
        ultimately show "aggregate nodes pos bits ?es (add_evidence a row e) r' (rooted ?n rep' r')"
          using f(1) rows r(1) r'(1) by (intro aggregate_evidence) auto
      qed (use d f rows in simp_all)
      with e show ?thesis by blast
    qed
    from join [of "rep right" "rep left"] join [of "rep left" "rep right"] False
    obtain e1 rep1 e2 rep2 where
      "union_roots (rep right) (rep left) d = Inr e1" "dsu_ok nodes pos bits ?es rep1 (add_evidence (rep right) row e1)"
      "union_roots (rep left) (rep right) d = Inr e2" "dsu_ok nodes pos bits ?es rep2 (add_evidence (rep left) row e2)"
      by (auto simp: insert_commute)
    then show ?thesis using False fl fr by (auto simp: add_edge_def)
  qed
qed

section \<open>The start\<close>

lemma bit_add_push:
  "\<not> bit (x :: int) p \<Longrightarrow> bit (x + push_bit p 1) k \<longleftrightarrow> bit x k \<or> k = p"
proof -
  assume "\<not> bit x p"
  then have "x AND push_bit p 1 = 0"
    by (intro bit_eqI) (auto simp: bit_and_iff bit_exp_iff)
  then have "x + push_bit p 1 = x OR push_bit p 1" by (rule disjunctive_add_eq_or)
  then show "bit (x + push_bit p 1) k \<longleftrightarrow> bit x k \<or> k = p"
    by (auto simp: bit_or_iff bit_exp_iff)
qed

lemma bits_of_positions: "distinct ps \<Longrightarrow> bit (sum_list (map (\<lambda>p. push_bit p (1 :: int)) ps)) k \<longleftrightarrow> k \<in> set ps"
proof (induction ps arbitrary: k)
  case (Cons p ps)
  then show ?case using bit_add_push [of "sum_list (map (\<lambda>p. push_bit p 1) ps)" p k] by (auto simp: add.commute)
qed simp

definition pos_at :: "string list \<Rightarrow> (string \<Rightarrow> nat list option) \<Rightarrow> nat \<Rightarrow> nat set" where
  "pos_at nodes positions v = (case positions (nodes ! v) of None \<Rightarrow> {} | Some ps \<Rightarrow> set ps)"

lemma dsu_ok_new:
  assumes "\<And>node ps. positions node = Some ps \<Longrightarrow> distinct ps"
  shows "dsu_ok nodes (pos_at nodes positions) bits [] (\<lambda>v. v) (new_dsu nodes positions bits)"
proof -
  have "forest [0..<length nodes] (\<lambda>v. v) (\<lambda>v. 0)" by (simp add: forest_def)
  moreover have "rooted (length nodes) (\<lambda>v. v) r = {r}" if "r < length nodes" for r
    using that by (auto simp: rooted_def)
  moreover have "bit (sum_list (map ((^) (2 :: int)) ps)) k \<longleftrightarrow> k \<in> set ps" if "positions node = Some ps" for node ps k
    using bits_of_positions [OF assms [OF that], of k] by simp
  moreover have "linked [] u v \<longleftrightarrow> u = v" for u v by (auto simp: linked_def edge_rel_def)
  ultimately show ?thesis
    by (auto simp: dsu_ok_def new_dsu_def lengths_ok_def rows_ok_def aggregate_def rows_in_def least_id_def latest_of_def
        total_of_def pos_at_def dec_zero_def exact_rows_def units_def Let_def split: option.split)
qed

section \<open>Snapshots\<close>

lemma finite_bits: "finite {k. bit (n :: nat) k}"
proof (rule finite_subset)
  show "{k. bit n k} \<subseteq> {..n}"
  proof
    fix k assume "k \<in> {k. bit n k}"
    then have "n div 2 ^ k \<noteq> 0" by (auto simp: bit_iff_odd intro: ccontr)
    then have "2 ^ k \<le> n" by (simp add: div_eq_0_iff not_less)
    then have "k < n" by (rule less_le_trans [OF less_exp])
    then show "k \<in> {..n}" by simp
  qed
qed simp

lemma bit_count_card: "bit_count n = card {k. bit n k}"
proof (induction n rule: bit_count.induct)
  case (1 n)
  show ?case
  proof (cases "n = 0")
    case True
    then show ?thesis by (simp add: bit_count.simps)
  next
    case False
    have half: "bit n (Suc k) \<longleftrightarrow> bit (n div 2) k" for k by (simp add: bit_Suc)
    have "{k. bit n k} = (if odd n then {0} else {}) \<union> Suc ` {k. bit (n div 2) k}"
    proof (rule set_eqI)
      fix k show "k \<in> {k. bit n k} \<longleftrightarrow> k \<in> (if odd n then {0} else {}) \<union> Suc ` {k. bit (n div 2) k}"
        by (cases k) (auto simp: half bit_0)
    qed
    moreover have "finite {k. bit (n div 2) k}" by (rule finite_bits)
    ultimately have "card {k. bit n k} = (if odd n then 1 else 0) + card {k. bit (n div 2) k}"
      by (auto simp: card_Un_disjoint card_image)
    moreover have "bit_count n = n mod 2 + bit_count (n div 2)" using False by (subst bit_count.simps) simp
    ultimately show ?thesis using 1 False by (simp add: odd_iff_mod_2_eq_one)
  qed
qed

lemma collect_positions_eq:
  "collect_positions limit stack positions = positions \<union> {p \<in> \<Union> (tree_positions ` set stack). p < limit}"
  by (induction limit stack positions rule: collect_positions.induct) (auto split: option.splits)

fun member_positions :: "component_members \<Rightarrow> nat set" where
  "member_positions (MemberBits x) = {k. bit x k}"
| "member_positions (MemberTuple ps) = set ps"

fun members_ok :: "bool \<Rightarrow> component_members \<Rightarrow> bool" where
  "members_ok bits (MemberBits x) = (bits \<and> 0 \<le> x)"
| "members_ok bits (MemberTuple ps) = (\<not> bits \<and> sorted ps \<and> distinct ps)"

text \<open>What a snapshot of a component says, without roots and trees.\<close>

definition component_of ::
  "string list \<Rightarrow> (nat \<Rightarrow> nat set) \<Rightarrow> bool \<Rightarrow> edge list \<Rightarrow> nat \<Rightarrow> nat \<Rightarrow> component \<Rightarrow> bool" where
  "component_of nodes pos bits es limit v c \<longleftrightarrow>
     (let K = comp_of (length nodes) es v; rows = rows_in es K in
     cm_root c = Min ((!) nodes ` K) \<and> cm_entity_count c = int (card K) \<and>
     members_ok bits (cm_members c) \<and> member_positions (cm_members c) = {p \<in> \<Union> (pos ` K). p < limit} \<and>
     least_id (cm_first_event_id c) rows \<and> latest_of (cm_latest_evidence c) rows \<and>
     total_of es (cm_total_value c) rows)"

lemma finite_tree_positions: "finite (tree_positions t)"
  by (induction t rule: tree_positions.induct) (auto split: option.split)

theorem snapshot_component:
  fixes limit budget :: nat
  assumes ok: "dsu_ok nodes pos bits es rep d" and v: "v < length nodes"
  defines "k \<equiv> card {p \<in> \<Union> (pos ` comp_of (length nodes) es v). p < limit}"
  shows "\<exists>c. component_of nodes pos bits es limit v c \<and>
    dsu_snapshot d v limit budget = (if max_membership < budget + k
      then Inl (CaseContractError ''causal topology exceeds the frozen membership resource cap'')
      else Inr (c, budget + k))"
proof -
  note f = dsu_ok_find [OF ok v]
  have K: "rooted (length nodes) rep (rep v) = comp_of (length nodes) es v"
    using ok v unfolding dsu_ok_def rooted_def comp_of_def by blast
  have agg: "aggregate nodes pos bits es d (rep v) (comp_of (length nodes) es v)"
    using ok f unfolding dsu_ok_def K [symmetric] by blast
  obtain ms c where ms: "(case ds_members d ! rep v of
           NodeBits x \<Rightarrow> let masked = x AND (push_bit limit 1 - 1) in (MemberBits masked, bit_count (nat masked))
         | NodeTree t \<Rightarrow> let ps = sorted_list_of_set (collect_positions limit [t] {}) in (MemberTuple ps, length ps)) = (ms, c)"
    by (rule prod.exhaust)
  have "members_ok bits ms \<and> member_positions ms = {p \<in> node_positions (ds_members d ! rep v). p < limit} \<and>
      c = card (member_positions ms)"
  proof (cases "ds_members d ! rep v")
    case (NodeBits x)
    have m: "push_bit limit 1 - 1 = (mask limit :: int)" by (simp add: mask_eq_exp_minus_1 push_bit_eq_mult)
    define y where "y = x AND mask limit"
    have nn: "0 \<le> y" by (simp add: y_def)
    have "ms = MemberBits y \<and> c = bit_count (nat y)"
      using ms unfolding NodeBits m node_members.case Let_def y_def by simp
    moreover have "{k. bit (nat y) k} = {k. bit y k}" using nn by (simp add: bit_nat_iff)
    moreover have "{k. bit y k} = {p. bit x p \<and> p < limit}" by (auto simp: y_def bit_and_iff bit_mask_iff)
    moreover have "bits" using agg by (simp add: aggregate_def NodeBits)
    ultimately show ?thesis using nn by (simp add: bit_count_card NodeBits)
  next
    case (NodeTree t)
    have "finite {p \<in> tree_positions t. p < limit}" by simp
    then show ?thesis
      using ms NodeTree agg by (auto simp: Let_def collect_positions_eq aggregate_def)
  qed
  then show ?thesis
    using agg f(1) unfolding dsu_snapshot_def
    by (intro exI [of _ "\<lparr>cm_root = ds_minimum d ! rep v, cm_members = ms, cm_entity_count = int (ds_size d ! rep v),
          cm_total_value = ds_total d ! rep v, cm_first_event_id = ds_first d ! rep v,
          cm_latest_evidence = ds_latest d ! rep v\<rparr>"]) (simp add: ms component_of_def aggregate_def k_def Let_def)
qed

end
