(* ===== verification/CausalTopology.thy ===== *)
theory CausalTopology
  imports RollbackDsu
begin

text \<open>
  The causal topology of the case grouping (\<open>_build_causal_topology\<close> in \<open>cases/grouping.py\<close>): decisions in
  batches of equal time, and for every decision the components of the graph of observations that were
  available strictly before it, found offline by a segment tree over the batches and a union-find with
  rollback.
\<close>

section \<open>Decisions\<close>

datatype defense_reason =
    IntegrityFailure | RequiredDataMissing | ActorVelocity | CounterpartyVelocity | AmountDeviation
  | NewCounterparty | GraphFanIn | GraphFanOut | GraphSharedNeighbor | FeatureStateDegraded
  | ModelUnavailable | ModelTimeout

record defense_decision =
  dd_event_id :: string
  dd_action :: action
  dd_score :: double
  dd_rule_score :: double
  dd_calibrated_score :: "double option"
  dd_reason_codes :: "defense_reason list"
  dd_evidence_source_ids :: "string list"
  dd_fallback_used :: bool
  dd_fallback_reason :: "defense_reason option"
  dd_failed_component_version :: "string option"
  dd_latency_ms :: double
  dd_policy_version :: string

section \<open>Topology\<close>

record causal_alert =
  al_decision_position :: nat
  al_row_position :: nat
  al_event_id :: string
  al_score :: double
  al_components :: "component list"

record causal_batch =
  cb_decision_at :: datetime
  cb_alerts :: "causal_alert list"

record causal_topology =
  ct_rows :: "causal_row list"
  ct_batches :: "causal_batch list"
  ct_decision_count :: nat
  ct_uses_bitsets :: bool

definition get_item :: "(string \<Rightarrow> 'a option) \<Rightarrow> string \<Rightarrow> 'a res" where
  "get_item d k = (case d k of None \<Rightarrow> Inl (KeyError k) | Some v \<Rightarrow> Inr v)"

text \<open>\<open>{key(x): i for i, x in enumerate(xs)}\<close>: a later entry replaces an earlier one.\<close>

definition index_by :: "('a \<Rightarrow> string) \<Rightarrow> 'a list \<Rightarrow> string \<Rightarrow> nat option" where
  "index_by key xs = map_of (rev (zip (map key xs) [0..<length xs]))"

definition actor_node :: "string \<Rightarrow> string" where
  "actor_node identifier = ''actor:'' @ identifier"

definition counterparty_node :: "string \<Rightarrow> string" where
  "counterparty_node identifier = ''counterparty:'' @ identifier"

definition causal_row_of :: "observed \<Rightarrow> causal_row" where
  "causal_row_of r =
     \<lparr>cr_event_id = ob_event_id r, cr_actor_id = ob_actor_id r, cr_counterparty_id = ob_counterparty_id r,
      cr_actor_node = actor_node (ob_actor_id r), cr_counterparty_node = counterparty_node (ob_counterparty_id r),
      cr_amount = ob_amount r, cr_available_at = ob_available_at r\<rparr>"

definition availability_key :: "observed \<Rightarrow> int \<times> string" where
  "availability_key r = (instant (ob_available_at r), ob_event_id r)"

definition causal_rows :: "observed list \<Rightarrow> causal_row list" where
  "causal_rows observations = map causal_row_of (sort_key availability_key observations)"

text \<open>\<open>observation_by_id[d.event_id].decision_at\<close>, which validated rows have.\<close>

definition decision_time :: "observed list \<Rightarrow> defense_decision \<Rightarrow> datetime res" where
  "decision_time observations d =
     bindr (get_item (map_of (rev (map (\<lambda>r. (ob_event_id r, r)) observations))) (dd_event_id d)) (\<lambda>r.
     case ob_decision_at r of None \<Rightarrow> Inl (TypeError ''decision_at'') | Some t \<Rightarrow> Inr t)"

definition decision_order :: "datetime \<times> defense_decision \<Rightarrow> int \<times> string" where
  "decision_order = (\<lambda>(t, d). (instant t, dd_event_id d))"

definition order_decisions :: "observed list \<Rightarrow> defense_decision list \<Rightarrow> (datetime \<times> defense_decision) list res" where
  "order_decisions observations decisions =
     bindr (mapr (\<lambda>d. bindr (decision_time observations d) (\<lambda>t. Inr (t, d))) decisions) (\<lambda>timed.
     Inr (sort_key decision_order timed))"

section \<open>Batches\<close>

function raw_batches :: "nat \<Rightarrow> (datetime \<times> defense_decision) list \<Rightarrow> (datetime \<times> nat list) list" where
  "raw_batches position [] = []"
| "raw_batches position ((t, d) # ds) =
     (let stop = position + 1 + length (takeWhile (\<lambda>(u, _). instant u = instant t) ds)
      in (t, [position..<stop]) # raw_batches stop (dropWhile (\<lambda>(u, _). instant u = instant t) ds))"
  by pat_completeness auto
termination
  by (relation "measure (\<lambda>(_, ds). length ds)") (auto simp: le_imp_less_Suc length_dropWhile_le)

text \<open>\<open>decision_batch_by_id\<close>\<close>

definition batch_by_id :: "(datetime \<times> defense_decision) list \<Rightarrow> (datetime \<times> nat list) list \<Rightarrow> string \<Rightarrow> nat option" where
  "batch_by_id ordered batches = map_of (rev (concat (map (\<lambda>(i, (_, positions)).
     map (\<lambda>p. (dd_event_id (snd (ordered ! p)), i)) positions) (enumerate 0 batches))))"

section \<open>Nodes\<close>

definition topology_nodes :: "causal_row list \<Rightarrow> string list" where
  "topology_nodes rows = sorted_list_of_set (set (concat (map (\<lambda>r. [cr_actor_node r, cr_counterparty_node r]) rows)))"

definition decision_rows :: "causal_row list \<Rightarrow> (datetime \<times> defense_decision) list \<Rightarrow> causal_row list res" where
  "decision_rows rows ordered =
     mapr (\<lambda>(_, d). bindr (get_item (index_by cr_event_id rows) (dd_event_id d)) (\<lambda>i. Inr (rows ! i))) ordered"

text \<open>\<open>positions_by_node\<close>: both nodes of every decision's row get its position.\<close>

definition positions_by_node :: "string list \<Rightarrow> causal_row list \<Rightarrow> string \<Rightarrow> nat list option" where
  "positions_by_node nodes decided node =
     (if node \<in> set nodes
      then Some (sort (remdups (concat (map (\<lambda>(p, r).
        (if cr_actor_node r = node then [p] else []) @ (if cr_counterparty_node r = node then [p] else []))
        (enumerate 0 decided)))))
      else None)"

section \<open>Intervals\<close>

definition max_interval_refs :: nat where
  "max_interval_refs = 4000000"

definition bitset_limit :: nat where
  "bitset_limit = 4096"

text \<open>\<open>bisect.bisect_right\<close>\<close>

function bisect_loop :: "int list \<Rightarrow> int \<Rightarrow> nat \<Rightarrow> nat \<Rightarrow> nat" where
  "bisect_loop xs x lo hi =
     (if lo < hi then let mid = (lo + hi) div 2 in
        if x < xs ! mid then bisect_loop xs x lo mid else bisect_loop xs x (mid + 1) hi
      else lo)"
  by pat_completeness auto
termination by (relation "measure (\<lambda>(_, _, lo, hi). hi - lo)") auto

declare bisect_loop.simps [simp del]

definition bisect_right :: "int list \<Rightarrow> int \<Rightarrow> nat" where
  "bisect_right xs x = bisect_loop xs x 0 (length xs)"

definition leaf_count :: "nat \<Rightarrow> nat" where
  "leaf_count n = while (\<lambda>leaves. leaves < n) (\<lambda>leaves. leaves * 2) 1"

text \<open>The rows of every node of the segment tree, and how many references they hold together.\<close>

type_synonym intervals = "nat list list \<times> nat"

definition append_at :: "nat \<Rightarrow> nat \<Rightarrow> intervals \<Rightarrow> intervals" where
  "append_at i row = (\<lambda>(iv, refs). (iv[i := iv ! i @ [row]], refs + 1))"

function add_interval_loop :: "nat \<Rightarrow> nat \<Rightarrow> nat \<Rightarrow> intervals \<Rightarrow> intervals res" where
  "add_interval_loop left right row st =
     (if left < right then
        let (st1, left1) = (if odd left then (append_at left row st, left + 1) else (st, left));
            (st2, right1) = (if odd right then (append_at (right - 1) row st1, right - 1) else (st1, right))
        in if max_interval_refs < snd st2
           then Inl (CaseContractError ''causal topology exceeds the frozen interval resource cap'')
           else add_interval_loop (left1 div 2) (right1 div 2) row st2
      else Inr st)"
  by pat_completeness auto
termination by (relation "measure (\<lambda>(_, right, _, _). right)") (auto split: if_splits)

declare add_interval_loop.simps [simp del]

definition add_interval :: "nat \<Rightarrow> nat \<Rightarrow> nat \<Rightarrow> nat \<Rightarrow> intervals \<Rightarrow> intervals res" where
  "add_interval leaves start stop row st =
     (if stop \<le> start then Inr st else add_interval_loop (start + leaves) (stop + leaves) row st)"

definition add_row_intervals ::
  "nat \<Rightarrow> (datetime \<times> nat list) list \<Rightarrow> (string \<Rightarrow> nat option) \<Rightarrow> intervals \<Rightarrow> nat \<times> causal_row \<Rightarrow> intervals res" where
  "add_row_intervals leaves batches own st = (\<lambda>(i, row).
     let visible_from = bisect_right (map (instant \<circ> fst) batches) (instant (cr_available_at row))
     in case own (cr_event_id row) of
          None \<Rightarrow> add_interval leaves visible_from (length batches) i st
        | Some b \<Rightarrow> bindr (add_interval leaves visible_from b i st) (\<lambda>st'.
            add_interval leaves (max visible_from (b + 1)) (length batches) i st'))"

definition build_intervals ::
  "nat \<Rightarrow> (datetime \<times> nat list) list \<Rightarrow> (string \<Rightarrow> nat option) \<Rightarrow> causal_row list \<Rightarrow> intervals res" where
  "build_intervals leaves batches own rows =
     foldlr (add_row_intervals leaves batches own) (replicate (leaves * 2) [], 0) (enumerate 0 rows)"

section \<open>The traversal\<close>

text \<open>What the traversal reads, and its state: the forest, the membership budget and the batches built.\<close>

record tree_context =
  tc_rows :: "causal_row list"
  tc_ordered :: "(datetime \<times> defense_decision) list"
  tc_batches :: "(datetime \<times> nat list) list"
  tc_nodes :: "string list"
  tc_intervals :: "nat list list"

record tree_state =
  ts_dsu :: dsu
  ts_budget :: nat
  ts_built :: "causal_batch option list"

definition node_position :: "tree_context \<Rightarrow> string \<Rightarrow> nat res" where
  "node_position X node = get_item (index_by (\<lambda>n. n) (tc_nodes X)) node"

definition enter_row :: "tree_context \<Rightarrow> dsu \<Rightarrow> nat \<Rightarrow> dsu res" where
  "enter_row X d i =
     (let row = tc_rows X ! i in
      bindr (node_position X (cr_actor_node row)) (\<lambda>a.
      bindr (node_position X (cr_counterparty_node row)) (\<lambda>c. add_edge a c row d)))"

text \<open>Equality of components: amounts are compared by value, times as instants.\<close>

definition same_component :: "component \<Rightarrow> component \<Rightarrow> bool" where
  "same_component a b \<longleftrightarrow> cm_root a = cm_root b \<and> cm_members a = cm_members b \<and>
     cm_entity_count a = cm_entity_count b \<and> dec_eq (cm_total_value a) (cm_total_value b) \<and>
     cm_first_event_id a = cm_first_event_id b \<and>
     map_option (\<lambda>(t, i). (instant t, i)) (cm_latest_evidence a) = map_option (\<lambda>(t, i). (instant t, i)) (cm_latest_evidence b)"

type_synonym component_cache = "(nat \<times> component) list"

definition cached_component ::
  "dsu \<Rightarrow> nat \<Rightarrow> nat \<Rightarrow> component_cache \<times> nat \<Rightarrow> (component \<times> component_cache \<times> nat) res" where
  "cached_component d prior_limit node = (\<lambda>(cache, budget).
     bindr (dsu_find d node) (\<lambda>r. case map_of cache r of
         Some c \<Rightarrow> Inr (c, cache, budget)
       | None \<Rightarrow> bindr (dsu_snapshot d r prior_limit budget) (\<lambda>(c, budget').
           Inr (c, AList.update r c cache, budget'))))"

definition add_component :: "component list \<Rightarrow> component \<Rightarrow> component list" where
  "add_component components c = (if list_ex (same_component c) components then components else components @ [c])"

definition leaf_node ::
  "tree_context \<Rightarrow> dsu \<Rightarrow> nat \<Rightarrow> component list \<times> component_cache \<times> nat \<Rightarrow> string \<Rightarrow>
    (component list \<times> component_cache \<times> nat) res" where
  "leaf_node X d prior_limit = (\<lambda>(components, cache, budget) node.
     bindr (node_position X node) (\<lambda>v.
     bindr (cached_component d prior_limit v (cache, budget)) (\<lambda>(c, cache', budget').
     Inr (add_component components c, cache', budget'))))"

definition leaf_alert ::
  "tree_context \<Rightarrow> dsu \<Rightarrow> nat \<Rightarrow> causal_alert list \<times> component_cache \<times> nat \<Rightarrow> nat \<Rightarrow>
    (causal_alert list \<times> component_cache \<times> nat) res" where
  "leaf_alert X d prior_limit = (\<lambda>(alerts, cache, budget) p.
     let decision = snd (tc_ordered X ! p) in
     bindr (get_item (index_by cr_event_id (tc_rows X)) (dd_event_id decision)) (\<lambda>i.
     let row = tc_rows X ! i in
     bindr (foldlr (leaf_node X d prior_limit) ([], cache, budget) [cr_actor_node row, cr_counterparty_node row])
       (\<lambda>(components, cache', budget').
     Inr (alerts @ [\<lparr>al_decision_position = p, al_row_position = i, al_event_id = dd_event_id decision,
       al_score = dd_score decision, al_components = sort_key cm_root components\<rparr>], cache', budget'))))"

definition visit_leaf :: "tree_context \<Rightarrow> nat \<Rightarrow> tree_state \<Rightarrow> tree_state res" where
  "visit_leaf X start s =
     (if length (tc_batches X) \<le> start then Inr s
      else let (t, positions) = tc_batches X ! start in
        bindr (foldlr (leaf_alert X (ts_dsu s) (hd positions)) ([], [], ts_budget s) positions) (\<lambda>(alerts, _, budget).
        Inr (s\<lparr>ts_budget := budget,
          ts_built := (ts_built s)[start := Some \<lparr>cb_decision_at = t, cb_alerts = alerts\<rparr>]\<rparr>)))"

text \<open>A node of the tree: its rows are added, its leaf or its halves are visited, its rows are taken back. Without a
  leaf to reach the recursion would not end, which Python turns into an error.\<close>

function visit :: "tree_context \<Rightarrow> nat \<Rightarrow> nat \<Rightarrow> nat \<Rightarrow> tree_state \<Rightarrow> tree_state res" where
  "visit X position start stop s =
     bindr (foldlr (enter_row X) (ts_dsu s) (tc_intervals X ! position)) (\<lambda>d.
     bindr (if stop - start = 1 then visit_leaf X start (s\<lparr>ts_dsu := d\<rparr>)
            else if stop \<le> start then Inl (RuntimeError ''maximum recursion depth exceeded'')
            else let middle = (start + stop) div 2 in
              bindr (visit X (position * 2) start middle (s\<lparr>ts_dsu := d\<rparr>)) (visit X (position * 2 + 1) middle stop))
       (\<lambda>s'. Inr (s'\<lparr>ts_dsu := rollback (dsu_mark (ts_dsu s)) (ts_dsu s')\<rparr>)))"
  by pat_completeness auto
termination by (relation "measure (\<lambda>(_, _, start, stop, _). stop - start)") auto

declare visit.simps [simp del]

definition build_causal_topology :: "observed list \<Rightarrow> defense_decision list \<Rightarrow> causal_topology res" where
  "build_causal_topology observations decisions =
     (let rows = causal_rows observations in
      bindr (order_decisions observations decisions) (\<lambda>ordered.
      let batches = raw_batches 0 ordered in
      if batches = [] then Inr \<lparr>ct_rows = rows, ct_batches = [], ct_decision_count = 0, ct_uses_bitsets = True\<rparr>
      else let nodes = topology_nodes rows in
        bindr (decision_rows rows ordered) (\<lambda>decided.
        let bits = length ordered \<le> bitset_limit; leaves = leaf_count (length batches) in
        bindr (build_intervals leaves batches (batch_by_id ordered batches) rows) (\<lambda>(intervals, _).
        let X = \<lparr>tc_rows = rows, tc_ordered = ordered, tc_batches = batches, tc_nodes = nodes, tc_intervals = intervals\<rparr>;
            s = \<lparr>ts_dsu = new_dsu nodes (positions_by_node nodes decided) bits, ts_budget = 0,
                 ts_built = replicate (length batches) None\<rparr>
        in bindr (visit X 1 0 leaves s) (\<lambda>s'.
           bindr (mapr (\<lambda>b. case b of None \<Rightarrow> Inl (TypeError ''batch'') | Some batch \<Rightarrow> Inr batch) (ts_built s')) (\<lambda>built.
           Inr \<lparr>ct_rows = rows, ct_batches = built, ct_decision_count = length ordered, ct_uses_bitsets = bits\<rparr>))))))"

end
