(* ===== verification/TopologyTree.thy ===== *)
theory TopologyTree
  imports DsuComponents CausalTopology
begin

text \<open>
  The combinatorics of the topology: batches of equal time, binary search, and the segment tree, whose path
  from the root to a leaf holds every row that is visible to that batch exactly once.
\<close>

section \<open>Binary search\<close>

lemma bisect_loop_spec:
  assumes "sorted xs" "lo \<le> hi" "hi \<le> length xs"
    and "\<forall>i < lo. xs ! i \<le> x" "\<forall>i. hi \<le> i \<and> i < length xs \<longrightarrow> x < xs ! i"
  shows "bisect_loop xs x lo hi \<le> length xs \<and> (\<forall>i < length xs. i < bisect_loop xs x lo hi \<longleftrightarrow> xs ! i \<le> x)"
  using assms
proof (induction xs x lo hi rule: bisect_loop.induct)
  case (1 xs x lo hi)
  show ?case
  proof (cases "lo < hi")
    case False
    with "1.prems" have "lo = hi" by simp
    then show ?thesis using "1.prems" by (subst (1 2) bisect_loop.simps) (auto simp: not_less [symmetric] not_le)
  next
    case True
    let ?m = "(lo + hi) div 2"
    have m: "lo \<le> ?m" "?m < hi" using True by auto
    show ?thesis
    proof (cases "x < xs ! ?m")
      case less: True
      have "\<forall>i. ?m \<le> i \<and> i < length xs \<longrightarrow> x < xs ! i"
        using less "1.prems"(1) by (metis less_le_trans sorted_nth_mono)
      then have "bisect_loop xs x lo ?m \<le> length xs \<and> (\<forall>i < length xs. i < bisect_loop xs x lo ?m \<longleftrightarrow> xs ! i \<le> x)"
        using "1.prems" m by (intro "1.IH"(1) [OF True refl less]) auto
      then show ?thesis using True less by (subst (1 2) bisect_loop.simps) (simp add: Let_def)
    next
      case ge: False
      have "\<forall>i < ?m + 1. xs ! i \<le> x"
      proof (intro allI impI)
        fix i assume "i < ?m + 1"
        then have "xs ! i \<le> xs ! ?m" using "1.prems" m by (intro sorted_nth_mono) auto
        with ge show "xs ! i \<le> x" by simp
      qed
      then have "bisect_loop xs x (?m + 1) hi \<le> length xs \<and> (\<forall>i < length xs. i < bisect_loop xs x (?m + 1) hi \<longleftrightarrow> xs ! i \<le> x)"
        using "1.prems" m by (intro "1.IH"(2) [OF True refl ge]) auto
      then show ?thesis using True ge by (subst (1 2) bisect_loop.simps) (simp add: Let_def)
    qed
  qed
qed

lemma bisect_right_spec:
  assumes "sorted xs"
  shows "bisect_right xs x \<le> length xs" "i < length xs \<Longrightarrow> i < bisect_right xs x \<longleftrightarrow> xs ! i \<le> x"
  using bisect_loop_spec [OF assms, of 0 "length xs" x] by (auto simp: bisect_right_def)

section \<open>Batches\<close>

lemma raw_batches_positions: "concat (map snd (raw_batches k ds)) = [k..<k + length ds]"
proof (induction k ds rule: raw_batches.induct)
  case (2 k t d ds)
  let ?P = "\<lambda>(u, _). instant u = instant t"
  define w rest where "w = length (takeWhile ?P ds)" and "rest = dropWhile ?P ds"
  have len: "length ds = w + length rest"
    unfolding w_def rest_def by (metis length_append takeWhile_dropWhile_id)
  have "concat (map snd (raw_batches k ((t, d) # ds))) = [k..<k + 1 + w] @ concat (map snd (raw_batches (k + 1 + w) rest))"
    by (simp add: Let_def w_def rest_def)
  also have "\<dots> = [k..<k + 1 + w] @ [k + 1 + w..<k + 1 + w + length rest]"
    using 2 by (simp only: w_def rest_def)
  also have "\<dots> = [k..<k + 1 + w + length rest]"
    by (rule upt_add_eq_append [symmetric]) simp
  finally show ?case by (simp only: len list.size add.assoc add_Suc add_Suc_right One_nat_def add_0_left add_0_right)
qed simp

definition batch_at :: "nat \<Rightarrow> (datetime \<times> defense_decision) list \<Rightarrow> datetime \<times> nat list \<Rightarrow> bool" where
  "batch_at k ds b \<longleftrightarrow> (let ps = snd b in ps \<noteq> [] \<and> ps = [hd ps..<hd ps + length ps] \<and>
     (\<forall>p \<in> set ps. k \<le> p \<and> p < k + length ds \<and> instant (fst (ds ! (p - k))) = instant (fst b)))"

lemma batch_at_later:
  assumes "batch_at (k + length xs) ds b"
  shows "batch_at k (xs @ ds) b"
proof -
  have "(xs @ ds) ! (p - k) = ds ! (p - (k + length xs))" if "k + length xs \<le> p" for p
  proof -
    obtain q where "p = k + length xs + q" using \<open>k + length xs \<le> p\<close> le_Suc_ex by blast
    then show ?thesis by (simp add: nth_append)
  qed
  then show ?thesis using assms unfolding batch_at_def Let_def by fastforce
qed

lemma raw_batches_times:
  assumes "sorted (map (instant \<circ> fst) ds)"
  shows "sorted_wrt (<) (map (instant \<circ> fst) (raw_batches k ds)) \<and> (\<forall>b \<in> set (raw_batches k ds). batch_at k ds b)"
  using assms
proof (induction k ds rule: raw_batches.induct)
  case (2 k t d ds)
  define same where "same = takeWhile (\<lambda>(u, _). instant u = instant t) ds"
  define rest where "rest = dropWhile (\<lambda>(u, _). instant u = instant t) ds"
  define stop where "stop = k + 1 + length same"
  have ds: "ds = same @ rest" by (simp add: same_def rest_def)
  have raw: "raw_batches k ((t, d) # ds) = (t, [k..<stop]) # raw_batches stop rest"
    by (simp add: Let_def same_def rest_def stop_def)
  have sorted: "sorted (map (instant \<circ> fst) rest)" "\<forall>x \<in> set ds. instant t \<le> instant (fst x)"
    using 2(2) unfolding ds o_def by (auto simp: sorted_append)
  have later: "instant t < instant (fst x)" if "x \<in> set rest" for x
  proof (cases rest)
    case (Cons y ys)
    then have "\<not> (case y of (u, _) \<Rightarrow> instant u = instant t)" unfolding rest_def by (metis hd_dropWhile list.discI list.sel(1))
    then have "instant t < instant (fst y)" using sorted(2) ds Cons by (auto simp: case_prod_beta order_less_le)
    moreover have "instant (fst y) \<le> instant (fst x)" using sorted(1) that Cons by auto
    ultimately show ?thesis by simp
  qed (use that in simp)
  have same_t: "instant (fst x) = instant t" if "x \<in> set same" for x
    using that set_takeWhileD [of x "\<lambda>(u, _). instant u = instant t" ds] by (auto simp: same_def)
  note IH = "2.IH" [OF refl, folded same_def rest_def, folded stop_def, OF sorted(1)]
  have after: "instant t < instant (fst b)" if "b \<in> set (raw_batches stop rest)" for b
  proof -
    have "batch_at stop rest b" using IH that by blast
    then obtain p where p: "stop \<le> p" "p < stop + length rest" "instant (fst (rest ! (p - stop))) = instant (fst b)"
      unfolding batch_at_def Let_def by (metis list.set_sel(1))
    have "instant t < instant (fst (rest ! (p - stop)))" using p(1,2) by (intro later nth_mem) simp
    with p(3) show ?thesis by simp
  qed
  have "sorted_wrt (<) (map (instant \<circ> fst) (raw_batches k ((t, d) # ds)))"
    unfolding raw list.map sorted_wrt.simps using after IH by (auto simp: o_def)
  moreover have "batch_at k ((t, d) # ds) (t, [k..<stop])"
  proof -
    have "instant (fst (((t, d) # ds) ! (p - k))) = instant t" if p: "k \<le> p" "p < stop" for p
    proof (cases "p - k")
      case (Suc q)
      then have "q < length same" using p by (simp add: stop_def)
      with Suc same_t show ?thesis by (simp add: ds nth_append)
    qed simp
    moreover have "k < stop" "stop = k + length [k..<stop]" "hd [k..<stop] = k" "stop \<le> k + length ((t, d) # ds)"
      by (simp_all add: stop_def ds hd_upt del: upt_Suc)
    ultimately show ?thesis unfolding batch_at_def Let_def by (auto simp del: upt_Suc)
  qed
  moreover have "batch_at k ((t, d) # ds) b" if "b \<in> set (raw_batches stop rest)" for b
  proof -
    have "batch_at (k + (1 + length same)) rest b" using IH that by (simp add: stop_def add.assoc)
    from batch_at_later [of k "(t, d) # same" rest b] this show ?thesis by (simp add: ds)
  qed
  ultimately show ?case unfolding raw list.set by blast
qed simp

lemma map_of_rev_iff: "distinct (map fst xs) \<Longrightarrow> map_of (rev xs) k = Some v \<longleftrightarrow> (k, v) \<in> set xs"
  using map_of_eq_Some_iff [of "rev xs" k v] by (simp add: rev_map [symmetric])

lemma index_by_Some: "distinct (map key xs) \<Longrightarrow> index_by key xs k = Some i \<longleftrightarrow> i < length xs \<and> key (xs ! i) = k"
proof -
  assume "distinct (map key xs)"
  then have "index_by key xs k = Some i \<longleftrightarrow> (k, i) \<in> set (zip (map key xs) [0..<length xs])"
    unfolding index_by_def by (intro map_of_rev_iff) simp
  also have "\<dots> \<longleftrightarrow> i < length xs \<and> key (xs ! i) = k"
    unfolding in_set_zip by (auto intro!: exI [of _ i])
  finally show "index_by key xs k = Some i \<longleftrightarrow> i < length xs \<and> key (xs ! i) = k" .
qed

lemma get_item_Inr: "get_item f k = Inr v \<longleftrightarrow> f k = Some v"
  by (auto simp: get_item_def split: option.split)

text \<open>Decisions in order, and the batches of equal time.\<close>

definition time_of :: "(datetime \<times> defense_decision) list \<Rightarrow> nat \<Rightarrow> int" where
  "time_of ordered p = instant (fst (ordered ! p))"

definition ordered_ok :: "(datetime \<times> defense_decision) list \<Rightarrow> bool" where
  "ordered_ok ordered \<longleftrightarrow> sorted (map decision_order ordered) \<and> distinct (map (dd_event_id \<circ> snd) ordered)"

lemma ordered_times: "ordered_ok ordered \<Longrightarrow> sorted (map (instant \<circ> fst) ordered)"
proof -
  have "sorted (map decision_order ds) \<Longrightarrow> sorted (map (instant \<circ> fst) ds)" for ds
    by (induction ds) (auto simp: decision_order_def case_prod_beta less_eq_prod_def)
  then show "ordered_ok ordered \<Longrightarrow> sorted (map (instant \<circ> fst) ordered)" by (simp add: ordered_ok_def)
qed

lemma time_of_mono: "ordered_ok ordered \<Longrightarrow> p \<le> q \<Longrightarrow> q < length ordered \<Longrightarrow> time_of ordered p \<le> time_of ordered q"
  using sorted_nth_mono [OF ordered_times, of ordered p q] by (simp add: time_of_def)

definition batched :: "(datetime \<times> defense_decision) list \<Rightarrow> (datetime \<times> nat list) list \<Rightarrow> bool" where
  "batched ordered batches \<longleftrightarrow> ordered_ok ordered \<and> batches = raw_batches 0 ordered"

lemma batched_times:
  assumes "batched ordered batches"
  shows "sorted_wrt (<) (map (instant \<circ> fst) batches)" "b \<in> set batches \<Longrightarrow> batch_at 0 ordered b"
    "sorted (map (instant \<circ> fst) batches)" "concat (map snd batches) = [0..<length ordered]"
proof -
  note b = assms [unfolded batched_def]
  show t: "sorted_wrt (<) (map (instant \<circ> fst) batches)" "b \<in> set batches \<Longrightarrow> batch_at 0 ordered b"
    using raw_batches_times [OF ordered_times, of ordered 0] b by simp_all
  show "sorted (map (instant \<circ> fst) batches)" using t(1) by (rule strict_sorted_imp_sorted)
  show "concat (map snd batches) = [0..<length ordered]"
    using raw_batches_positions [of 0 ordered] b by simp
qed

lemma batch_time:
  assumes "batched ordered batches" "b < length batches" "p \<in> set (snd (batches ! b))"
  shows "p < length ordered" "time_of ordered p = instant (fst (batches ! b))"
  using batched_times(2) [OF assms(1) nth_mem [OF assms(2)]] assms(3)
  by (auto simp: batch_at_def Let_def time_of_def)

lemma batch_same_time:
  assumes "batched ordered batches" "b < length batches" "c < length batches"
    and "instant (fst (batches ! b)) = instant (fst (batches ! c))"
  shows "b = c"
proof (rule ccontr)
  assume "b \<noteq> c"
  moreover have "i < j \<Longrightarrow> j < length batches \<Longrightarrow> instant (fst (batches ! i)) < instant (fst (batches ! j))" for i j
    using sorted_wrt_nth_less [OF batched_times(1) [OF assms(1)], of i j] by simp
  ultimately show False using assms(2-) by (metis less_irrefl linorder_less_linear)
qed

lemma batch_of_position:
  assumes "batched ordered batches" "p < length ordered"
  shows "\<exists>b < length batches. p \<in> set (snd (batches ! b))"
proof -
  have "p \<in> set (concat (map snd batches))" using assms(2) by (simp add: batched_times(4) [OF assms(1)])
  then obtain x where "x \<in> set batches" "p \<in> set (snd x)" by auto
  then show ?thesis by (auto simp: in_set_conv_nth [of x])
qed

lemma batch_positions:
  assumes "batched ordered batches" "b < length batches"
  shows "p \<in> set (snd (batches ! b)) \<longleftrightarrow> p < length ordered \<and> time_of ordered p = instant (fst (batches ! b))"
  using batch_time [OF assms(1)] batch_of_position [OF assms(1), of p] batch_same_time [OF assms] assms(2) by metis

lemma batch_nonempty:
  assumes "batched ordered batches" "b < length batches"
  shows "snd (batches ! b) \<noteq> []"
    "snd (batches ! b) = [hd (snd (batches ! b))..<hd (snd (batches ! b)) + length (snd (batches ! b))]"
  using batched_times(2) [OF assms(1) nth_mem [OF assms(2)]] by (simp_all add: batch_at_def Let_def)

lemma before_batch:
  assumes B: "batched ordered batches" and b: "b < length batches"
  shows "p < hd (snd (batches ! b)) \<longleftrightarrow> p < length ordered \<and> time_of ordered p < instant (fst (batches ! b))"
proof -
  let ?ps = "snd (batches ! b)"
  have ok: "ordered_ok ordered" using B by (simp add: batched_def)
  have h: "hd ?ps < length ordered" "time_of ordered (hd ?ps) = instant (fst (batches ! b))"
    using batch_positions [OF B b, of "hd ?ps"] batch_nonempty(1) [OF B b] by auto
  show ?thesis
  proof
    assume p: "p < hd ?ps"
    then have "p \<notin> set ?ps" using batch_nonempty(2) [OF B b] by (metis atLeastLessThan_iff not_less set_upt)
    moreover have "time_of ordered p \<le> time_of ordered (hd ?ps)" using p h(1) ok by (intro time_of_mono) simp_all
    ultimately show "p < length ordered \<and> time_of ordered p < instant (fst (batches ! b))"
      using batch_positions [OF B b, of p] p h by auto
  next
    assume p: "p < length ordered \<and> time_of ordered p < instant (fst (batches ! b))"
    show "p < hd ?ps"
      using p h time_of_mono [OF ok, of "hd ?ps" p] by (metis linorder_not_le)
  qed
qed

lemma batch_by_id_Some:
  assumes "batched ordered batches"
  shows "batch_by_id ordered batches k = Some b \<longleftrightarrow>
    b < length batches \<and> (\<exists>p \<in> set (snd (batches ! b)). dd_event_id (snd (ordered ! p)) = k)"
proof -
  define pairs where "pairs = concat (map (\<lambda>(i, (_, ps)). map (\<lambda>p. (dd_event_id (snd (ordered ! p)), i)) ps) (enumerate 0 batches))"
  have "map fst (concat (map (\<lambda>(i, (_, ps)). map (\<lambda>p. (dd_event_id (snd (ordered ! p)), i)) ps) (enumerate n bs))) =
      map (\<lambda>p. dd_event_id (snd (ordered ! p))) (concat (map snd bs))" for n bs
    by (induction bs arbitrary: n) (auto simp: case_prod_beta)
  then have "map fst pairs = map (\<lambda>p. dd_event_id (snd (ordered ! p))) [0..<length ordered]"
    unfolding pairs_def batched_times(4) [OF assms, symmetric] .
  also have "\<dots> = map (dd_event_id \<circ> snd) ordered"
    by (rule nth_equalityI) simp_all
  finally have "distinct (map fst pairs)" using assms by (simp add: batched_def ordered_ok_def)
  then have "batch_by_id ordered batches k = Some b \<longleftrightarrow> (k, b) \<in> set pairs"
    unfolding batch_by_id_def pairs_def by (rule map_of_rev_iff)
  also have "\<dots> \<longleftrightarrow> b < length batches \<and> (\<exists>p \<in> set (snd (batches ! b)). dd_event_id (snd (ordered ! p)) = k)"
  proof
    assume "(k, b) \<in> set pairs"
    then show "b < length batches \<and> (\<exists>p \<in> set (snd (batches ! b)). dd_event_id (snd (ordered ! p)) = k)"
      unfolding pairs_def by (auto simp: in_set_enumerate_eq case_prod_beta)
  next
    assume b: "b < length batches \<and> (\<exists>p \<in> set (snd (batches ! b)). dd_event_id (snd (ordered ! p)) = k)"
    then have "(b, batches ! b) \<in> set (enumerate 0 batches)" by (simp add: in_set_enumerate_eq)
    then show "(k, b) \<in> set pairs"
      unfolding pairs_def using b by (force simp: case_prod_beta)
  qed
  finally show ?thesis .
qed

section \<open>The segment tree\<close>

text \<open>The rows on the path from a tree position to the root, with multiplicity.\<close>

fun path_rows :: "nat list list \<Rightarrow> nat \<Rightarrow> nat multiset" where
  "path_rows iv x = mset (iv ! x) + (if x \<le> 1 then {#} else path_rows iv (x div 2))"

declare path_rows.simps [simp del]

lemma path_rows_cong: "(\<And>y. y \<le> x \<Longrightarrow> iv ! y = iv' ! y) \<Longrightarrow> path_rows iv x = path_rows iv' x"
proof (induction iv x rule: path_rows.induct)
  case (1 iv x)
  have "path_rows iv (x div 2) = path_rows iv' (x div 2)" if "\<not> x \<le> 1"
    using that by (intro 1) auto
  then show ?case using "1.prems" [of x] by (subst (1 2) path_rows.simps) simp
qed

lemma halves_cover:
  fixes left right x :: nat
  assumes "left < right"
  shows "(if left \<le> x \<and> x < right then {#row#} else {#}) =
    (if odd left \<and> x = left then {#row#} else {#}) + (if odd right \<and> x = right - 1 then {#row#} else {#}) +
    (if (if odd left then left + 1 else left) div 2 \<le> x div 2 \<and> x div 2 < (if odd right then right - 1 else right) div 2
     then {#row#} else {#})"
  using assms by (cases "even left"; cases "even right"; cases "even x") (auto elim!: evenE oddE split: if_splits)

lemma add_interval_loop_path:
  assumes "add_interval_loop left right row (iv, refs) = Inr (iv', refs')"
    and "2 ^ j \<le> left" "left \<le> 2 ^ (j + 1)" "2 ^ j \<le> right" "right \<le> 2 ^ (j + 1)" "2 ^ (j + 1) \<le> length iv"
  shows "length iv' = length iv \<and> (\<forall>y. 2 ^ (j + 1) \<le> y \<and> y < length iv \<longrightarrow> iv' ! y = iv ! y) \<and>
    (\<forall>x. 2 ^ j \<le> x \<and> x < 2 ^ (j + 1) \<longrightarrow>
      path_rows iv' x = path_rows iv x + (if left \<le> x \<and> x < right then {#row#} else {#}))"
  using assms
proof (induction j arbitrary: left right iv refs)
  case 0
  show ?case
  proof (cases "left < right")
    case False
    then show ?thesis using 0 by (auto simp: add_interval_loop.simps [of left right])
  next
    case True
    with 0 have lr: "left = 1" "right = 2" by auto
    have "add_interval_loop 1 1 row st = Inr st" for st by (subst add_interval_loop.simps) simp
    then have "iv' = iv[1 := iv ! 1 @ [row]]"
      using 0(1) by (subst (asm) add_interval_loop.simps) (auto simp: lr append_at_def Let_def split: if_splits)
    moreover have "2 ^ 0 \<le> x \<and> x < 2 ^ (0 + 1) \<longleftrightarrow> x = 1" for x :: nat by auto
    moreover have "length iv > 1" using 0(6) by simp
    ultimately show ?thesis unfolding lr by (simp add: path_rows.simps)
  qed
next
  case (Suc j)
  show ?case
  proof (cases "left < right")
    case False
    then show ?thesis using Suc.prems by (auto simp: add_interval_loop.simps [of left right])
  next
    case True
    define st1 left1 where "st1 = (if odd left then append_at left row (iv, refs) else (iv, refs))"
      and "left1 = (if odd left then left + 1 else left)"
    define st2 right1 where "st2 = (if odd right then append_at (right - 1) row st1 else st1)"
      and "right1 = (if odd right then right - 1 else right)"
    obtain iv2 refs2 where st2: "st2 = (iv2, refs2)" by (cases st2)
    have rest: "add_interval_loop (left1 div 2) (right1 div 2) row (iv2, refs2) = Inr (iv', refs')"
      using Suc.prems(1) True unfolding st2 [symmetric] st2_def right1_def st1_def left1_def
      by (subst (asm) add_interval_loop.simps) (auto simp: Let_def split: if_splits)
    have bounds: "left < length iv" "right - 1 < length iv" "right - 1 \<noteq> left \<or> even left \<or> even right"
      using Suc.prems True by auto
    have iv2: "length iv2 = length iv" "y < length iv \<Longrightarrow> iv2 ! y = iv ! y @ (if odd left \<and> y = left then [row] else []) @
        (if odd right \<and> y = right - 1 then [row] else [])" for y
      using st2 bounds by (auto simp: st2_def st1_def append_at_def nth_list_update split: if_splits)
    have even: "even (2 ^ Suc j)" "even (2 ^ (Suc j + 1))" by simp_all
    have r1: "odd right \<Longrightarrow> 2 ^ Suc j < right" and l1: "odd left \<Longrightarrow> left < 2 ^ (Suc j + 1)"
      using Suc.prems even by (metis le_neq_implies_less)+
    have "2 ^ Suc j \<le> left1" "left1 \<le> 2 ^ (Suc j + 1)" "2 ^ Suc j \<le> right1" "right1 \<le> 2 ^ (Suc j + 1)"
      using Suc.prems r1 l1 by (auto simp: left1_def right1_def)
    then have half: "2 ^ j \<le> left1 div 2" "left1 div 2 \<le> 2 ^ (j + 1)" "2 ^ j \<le> right1 div 2" "right1 div 2 \<le> 2 ^ (j + 1)"
      by auto
    have len: "2 ^ (j + 1) \<le> length iv2" using Suc.prems(6) iv2(1) by simp
    note IH = Suc.IH [OF rest half len]
    have up: "iv' ! y = iv2 ! y" if "2 ^ (j + 1) \<le> y" "y < length iv" for y using IH that iv2(1) by simp
    have "iv' ! y = iv ! y" if y: "2 ^ (Suc j + 1) \<le> y" "y < length iv" for y
    proof -
      have "y \<noteq> left" if "odd left" using l1 that y by auto
      moreover have "y \<noteq> right - 1" if "odd right" using Suc.prems(5) that y by (cases right) auto
      moreover have "2 ^ (j + 1) \<le> y" using y by simp
      ultimately show ?thesis using up y(2) iv2(2) [OF y(2)] by auto
    qed
    moreover have "path_rows iv' x = path_rows iv x + (if left \<le> x \<and> x < right then {#row#} else {#})"
      if x: "2 ^ Suc j \<le> x" "x < 2 ^ (Suc j + 1)" for x
    proof -
      have "x < length iv" using x(2) Suc.prems(6) by (rule less_le_trans)
      moreover have "2 \<le> (2 :: nat) ^ Suc j" by simp
      ultimately have xl: "x < length iv" "\<not> x \<le> 1" using x(1) by linarith+
      have xh: "2 ^ j \<le> x div 2" "x div 2 < 2 ^ (j + 1)" using x by auto
      have below: "path_rows iv2 (x div 2) = path_rows iv (x div 2)"
      proof (rule path_rows_cong)
        fix y assume "y \<le> x div 2"
        then have "y < 2 ^ (j + 1)" using xh by simp
        moreover have "2 ^ (j + 1) \<le> left" "odd right \<Longrightarrow> 2 ^ (j + 1) \<le> right - 1" using Suc.prems r1 by auto
        ultimately show "iv2 ! y = iv ! y" using iv2(2) [of y] xl x by auto
      qed
      have "path_rows iv' x = mset (iv' ! x) + path_rows iv' (x div 2)"
        using xl by (subst path_rows.simps) simp
      also have "iv' ! x = iv2 ! x" using x xl by (intro up) simp_all
      also have "path_rows iv' (x div 2) = path_rows iv (x div 2) +
          (if left1 div 2 \<le> x div 2 \<and> x div 2 < right1 div 2 then {#row#} else {#})"
        using IH xh below by simp
      also have "mset (iv2 ! x) = mset (iv ! x) + ((if odd left \<and> x = left then {#row#} else {#}) +
          (if odd right \<and> x = right - 1 then {#row#} else {#}))"
        using iv2(2) [OF xl(1)] by simp
      also have "mset (iv ! x) + ((if odd left \<and> x = left then {#row#} else {#}) +
          (if odd right \<and> x = right - 1 then {#row#} else {#})) + (path_rows iv (x div 2) +
          (if left1 div 2 \<le> x div 2 \<and> x div 2 < right1 div 2 then {#row#} else {#})) =
          mset (iv ! x) + path_rows iv (x div 2) + (if left \<le> x \<and> x < right then {#row#} else {#})"
        unfolding halves_cover [OF True, of x row] left1_def right1_def by (simp only: ac_simps)
      also have "mset (iv ! x) + path_rows iv (x div 2) = path_rows iv x"
        using xl by (subst (2) path_rows.simps) simp
      finally show ?thesis .
    qed
    ultimately show ?thesis using IH iv2(1) by auto
  qed
qed

lemma add_interval_path:
  assumes "add_interval (2 ^ m) start stop row (iv, refs) = Inr (iv', refs')"
    and "start \<le> 2 ^ m" "stop \<le> 2 ^ m" "length iv = 2 * 2 ^ m" "b < 2 ^ m"
  shows "length iv' = length iv \<and> path_rows iv' (2 ^ m + b) =
    path_rows iv (2 ^ m + b) + (if start \<le> b \<and> b < stop then {#row#} else {#})"
proof (cases "stop \<le> start")
  case True
  then show ?thesis using assms(1) by (auto simp: add_interval_def)
next
  case False
  then have "add_interval_loop (start + 2 ^ m) (stop + 2 ^ m) row (iv, refs) = Inr (iv', refs')"
    using assms(1) by (simp add: add_interval_def)
  from add_interval_loop_path [OF this, of m] assms show ?thesis by auto
qed

definition visible_batch :: "(datetime \<times> nat list) list \<Rightarrow> (string \<Rightarrow> nat option) \<Rightarrow> nat \<Rightarrow> causal_row \<Rightarrow> bool" where
  "visible_batch batches own b row \<longleftrightarrow>
     instant (cr_available_at row) < instant (fst (batches ! b)) \<and> own (cr_event_id row) \<noteq> Some b"

lemma add_row_intervals_path:
  assumes "add_row_intervals (2 ^ m) batches own (iv, refs) (i, row) = Inr (iv', refs')"
    and "sorted (map (instant \<circ> fst) batches)" "length batches \<le> 2 ^ m" "length iv = 2 * 2 ^ m" "b < length batches"
    and "\<And>k o'. own k = Some o' \<Longrightarrow> o' < length batches"
  shows "length iv' = length iv \<and> path_rows iv' (2 ^ m + b) =
    path_rows iv (2 ^ m + b) + (if visible_batch batches own b row then {#i#} else {#})"
proof -
  define vf where "vf = bisect_right (map (instant \<circ> fst) batches) (instant (cr_available_at row))"
  have vf: "vf \<le> length batches" "vf \<le> b \<longleftrightarrow> instant (cr_available_at row) < instant (fst (batches ! b))"
    using bisect_right_spec [OF assms(2), where x = "instant (cr_available_at row)"] assms(5)
    by (simp_all add: vf_def) (metis not_less)
  have b: "b < 2 ^ m" using assms(3,5) by simp
  show ?thesis
  proof (cases "own (cr_event_id row)")
    case None
    then have "add_interval (2 ^ m) vf (length batches) i (iv, refs) = Inr (iv', refs')"
      using assms(1) by (simp add: add_row_intervals_def vf_def [symmetric] Let_def)
    from add_interval_path [OF this _ _ assms(4) b] vf assms(3,5) None show ?thesis
      by (auto simp: visible_batch_def)
  next
    case (Some o')
    then obtain iv1 refs1 where s: "add_interval (2 ^ m) vf o' i (iv, refs) = Inr (iv1, refs1)"
      "add_interval (2 ^ m) (max vf (o' + 1)) (length batches) i (iv1, refs1) = Inr (iv', refs')"
      using assms(1) by (auto simp: add_row_intervals_def vf_def [symmetric] Let_def bindr_Inr)
    have o': "o' < length batches" using assms(6) [OF Some] .
    have 1: "length iv1 = length iv \<and> path_rows iv1 (2 ^ m + b) =
        path_rows iv (2 ^ m + b) + (if vf \<le> b \<and> b < o' then {#i#} else {#})"
      using add_interval_path [OF s(1) _ _ assms(4) b] vf o' assms(3) by simp
    then have 2: "length iv' = length iv \<and> path_rows iv' (2 ^ m + b) =
        path_rows iv1 (2 ^ m + b) + (if max vf (o' + 1) \<le> b \<and> b < length batches then {#i#} else {#})"
      using add_interval_path [OF s(2) _ _ _ b] vf o' assms(3,4) by simp
    from 1 2 vf assms(5) Some show ?thesis by (auto simp: visible_batch_def)
  qed
qed

lemma path_rows_empty: "path_rows (replicate n []) x = {#}" if "x < n"
  using that
proof (induction "replicate n [] :: nat list list" x rule: path_rows.induct)
  case (1 x)
  then show ?case by (subst path_rows.simps) auto
qed

theorem build_intervals_path:
  assumes "build_intervals (2 ^ m) batches own rows = Inr (iv, refs)"
    and "sorted (map (instant \<circ> fst) batches)" "length batches \<le> 2 ^ m" "b < length batches"
    and "\<And>k o'. own k = Some o' \<Longrightarrow> o' < length batches"
  shows "path_rows iv (2 ^ m + b) = mset (filter (\<lambda>i. visible_batch batches own b (rows ! i)) [0..<length rows])"
    and "length iv = 2 * 2 ^ m"
proof -
  have step: "length iv' = 2 * 2 ^ m \<and> path_rows iv' (2 ^ m + b) = path_rows iv (2 ^ m + b) +
      mset (map fst (filter (\<lambda>(i, row). visible_batch batches own b row) xs))"
    if "foldlr (add_row_intervals (2 ^ m) batches own) (iv, refs) xs = Inr (iv', refs')" "length iv = 2 * 2 ^ m"
    for xs iv refs iv' refs'
    using that
  proof (induction xs arbitrary: iv refs)
    case (Cons x xs)
    obtain i row where x: "x = (i, row)" by (cases x)
    from Cons.prems(1) obtain iv1 refs1 where s: "add_row_intervals (2 ^ m) batches own (iv, refs) (i, row) = Inr (iv1, refs1)"
      "foldlr (add_row_intervals (2 ^ m) batches own) (iv1, refs1) xs = Inr (iv', refs')"
      by (auto simp: bindr_Inr x)
    note p = add_row_intervals_path [OF s(1) assms(2,3) Cons.prems(2) assms(4,5)]
    from Cons.IH [OF s(2)] p Cons.prems(2) show ?case by (simp add: x)
  qed simp
  have "b < 2 ^ m" using assms(3,4) by simp
  then have "path_rows (replicate (2 ^ m * 2) []) (2 ^ m + b) = {#}" by (intro path_rows_empty) simp
  moreover have "map fst (filter (\<lambda>(i, row). visible_batch batches own b row) (enumerate 0 rows)) =
      filter (\<lambda>i. visible_batch batches own b (rows ! i)) [0..<length rows]"
  proof -
    have "enumerate 0 rows = map (\<lambda>i. (i, rows ! i)) [0..<length rows]"
      by (rule nth_equalityI) (simp_all add: nth_enumerate_eq)
    then show ?thesis by (simp add: filter_map o_def)
  qed
  ultimately show "path_rows iv (2 ^ m + b) = mset (filter (\<lambda>i. visible_batch batches own b (rows ! i)) [0..<length rows])"
    and "length iv = 2 * 2 ^ m"
    using step [OF assms(1) [unfolded build_intervals_def]] by simp_all
qed

lemma leaf_count_power: "\<exists>m. leaf_count n = 2 ^ m \<and> n \<le> 2 ^ m"
  unfolding leaf_count_def
proof (rule while_rule [where P = "\<lambda>l. \<exists>m. l = 2 ^ m" and r = "measure (\<lambda>l. n - l)"])
  show "\<exists>m. (1 :: nat) = 2 ^ m" by (rule exI [of _ 0]) simp
  fix l assume "\<exists>m. l = (2 :: nat) ^ m" "l < n"
  then obtain m where "l = 2 ^ m" by blast
  then have "l * 2 = 2 ^ Suc m" "0 < l" by simp_all
  then show "\<exists>m. l * 2 = 2 ^ m" by blast
next
  fix l assume "\<exists>m. l = (2 :: nat) ^ m" "\<not> l < n"
  then show "\<exists>m. l = 2 ^ m \<and> n \<le> 2 ^ m" by auto
next
  fix l assume l: "\<exists>m. l = (2 :: nat) ^ m" "l < n"
  then have "0 < l" by auto
  with l(2) show "(l * 2, l) \<in> measure (\<lambda>l. n - l)" by simp
qed simp

end
