(* ===== verification/TopologyVisit.thy ===== *)
theory TopologyVisit
  imports TopologyTree
begin

text \<open>
  The traversal of the segment tree: every leaf sees the forest of exactly the rows on its path, every
  alert gets the components of its two nodes, and the forest is taken back. It fails only at the
  membership cap.
\<close>

section \<open>Context\<close>

definition pos_of :: "tree_context \<Rightarrow> string \<Rightarrow> nat" where
  "pos_of X node = the (index_by (\<lambda>n. n) (tc_nodes X) node)"

definition edges_of :: "tree_context \<Rightarrow> nat list \<Rightarrow> edge list" where
  "edges_of X is = map (\<lambda>i. let row = tc_rows X ! i in
     (pos_of X (cr_actor_node row), pos_of X (cr_counterparty_node row), row)) is"

definition context_ok :: "tree_context \<Rightarrow> bool" where
  "context_ok X \<longleftrightarrow> distinct (tc_nodes X) \<and> distinct (map cr_event_id (tc_rows X)) \<and>
     (\<forall>row \<in> set (tc_rows X). cr_actor_node row \<in> set (tc_nodes X) \<and> cr_counterparty_node row \<in> set (tc_nodes X) \<and>
       dfinite (cr_amount row) \<and> 0 \<le> dsig (cr_amount row)) \<and>
     (\<forall>d \<in> set (tc_ordered X). dd_event_id (snd d) \<in> cr_event_id ` set (tc_rows X)) \<and>
     (\<forall>b \<in> set (tc_batches X). \<forall>p \<in> set (snd b). p < length (tc_ordered X))"

abbreviation cap_error :: exn where
  "cap_error \<equiv> CaseContractError ''causal topology exceeds the frozen membership resource cap''"

lemma node_position_ok:
  assumes "context_ok X" "node \<in> set (tc_nodes X)"
  shows "node_position X node = Inr (pos_of X node)" "pos_of X node < length (tc_nodes X)"
    "tc_nodes X ! pos_of X node = node"
proof -
  from assms(2) obtain v where v: "v < length (tc_nodes X)" "tc_nodes X ! v = node" by (auto simp: in_set_conv_nth)
  have "distinct (map (\<lambda>n. n) (tc_nodes X))" using assms(1) by (simp add: context_ok_def)
  from index_by_Some [OF this, of node v] v have "index_by (\<lambda>n. n) (tc_nodes X) node = Some v" by simp
  then show "node_position X node = Inr (pos_of X node)" "pos_of X node < length (tc_nodes X)"
    "tc_nodes X ! pos_of X node = node"
    using v by (simp_all add: node_position_def get_item_def pos_of_def)
qed

lemma edges_of_append: "edges_of X (is @ js) = edges_of X is @ edges_of X js"
  by (simp add: edges_of_def)

lemma enter_rows:
  assumes X: "context_ok X" and ok: "dsu_ok (tc_nodes X) pos bits es rep d" and "set is \<subseteq> {..<length (tc_rows X)}"
  shows "\<exists>rep' d'. foldlr (enter_row X) d is = Inr d' \<and> dsu_ok (tc_nodes X) pos bits (es @ edges_of X is) rep' d' \<and>
    rollback (dsu_mark d) d' = d"
proof -
  have enter: "enter_row X d i = (case edges_of X [i] ! 0 of (u, v, row) \<Rightarrow> add_edge u v row d)"
    if "i < length (tc_rows X)" for d i
  proof -
    have "tc_rows X ! i \<in> set (tc_rows X)" using that by simp
    then have "cr_actor_node (tc_rows X ! i) \<in> set (tc_nodes X)" "cr_counterparty_node (tc_rows X ! i) \<in> set (tc_nodes X)"
      using X by (auto simp: context_ok_def)
    from node_position_ok(1) [OF X this(1)] node_position_ok(1) [OF X this(2)] show ?thesis
      by (simp add: enter_row_def edges_of_def Let_def)
  qed
  have "foldlr (enter_row X) d is = foldlr (\<lambda>d (l, r, row). add_edge l r row d) d (edges_of X is)" for d
    using assms(3)
  proof (induction "is" arbitrary: d)
    case (Cons i "is")
    then show ?case using enter [of i d] by (simp add: edges_of_def Let_def)
  qed (simp add: edges_of_def)
  moreover have "\<exists>rep' d'. foldlr (\<lambda>d (l, r, row). add_edge l r row d) d (edges_of X is) = Inr d' \<and>
      dsu_ok (tc_nodes X) pos bits (es @ edges_of X is) rep' d'"
    using ok assms(3)
  proof (induction "is" arbitrary: es rep d)
    case (Cons i "is")
    let ?row = "tc_rows X ! i"
    have "?row \<in> set (tc_rows X)" using Cons.prems by simp
    then have row: "cr_actor_node ?row \<in> set (tc_nodes X)" "cr_counterparty_node ?row \<in> set (tc_nodes X)"
      "dfinite (cr_amount ?row)" "0 \<le> dsig (cr_amount ?row)" using X by (auto simp: context_ok_def)
    from dsu_ok_add_edge [OF Cons.prems(1) node_position_ok(2) [OF X row(1)] node_position_ok(2) [OF X row(2)] row(3,4)]
    obtain rep1 d1 where 1: "add_edge (pos_of X (cr_actor_node ?row)) (pos_of X (cr_counterparty_node ?row)) ?row d = Inr d1"
      "dsu_ok (tc_nodes X) pos bits (es @ edges_of X [i]) rep1 d1" by (auto simp: edges_of_def Let_def)
    from Cons.IH [OF 1(2)] Cons.prems(2) 1(1) show ?case
      by (simp add: edges_of_def Let_def)
  qed (auto simp: edges_of_def)
  ultimately show ?thesis using rollback_edges by metis
qed

section \<open>Alerts\<close>

definition alert_ok ::
  "tree_context \<Rightarrow> (nat \<Rightarrow> nat set) \<Rightarrow> bool \<Rightarrow> edge list \<Rightarrow> nat \<Rightarrow> nat \<Rightarrow> causal_alert \<Rightarrow> bool" where
  "alert_ok X pos bits es limit p a \<longleftrightarrow>
     (let decision = snd (tc_ordered X ! p); row = tc_rows X ! al_row_position a;
          u = pos_of X (cr_actor_node row); v = pos_of X (cr_counterparty_node row) in
     al_decision_position a = p \<and> al_row_position a < length (tc_rows X) \<and> cr_event_id row = dd_event_id decision \<and>
     al_event_id a = dd_event_id decision \<and> al_score a = dd_score decision \<and>
     (\<exists>c c'. component_of (tc_nodes X) pos bits es limit u c \<and> component_of (tc_nodes X) pos bits es limit v c' \<and>
       al_components a = (if linked es u v then [c] else sort_key cm_root [c, c']) \<and>
       (\<not> linked es u v \<longrightarrow> cm_root c \<noteq> cm_root c')))"

definition cache_ok ::
  "string list \<Rightarrow> (nat \<Rightarrow> nat set) \<Rightarrow> bool \<Rightarrow> edge list \<Rightarrow> (nat \<Rightarrow> nat) \<Rightarrow> nat \<Rightarrow> component_cache \<Rightarrow> bool" where
  "cache_ok nodes pos bits es rep limit cache \<longleftrightarrow>
     (\<forall>r c. map_of cache r = Some c \<longrightarrow> r < length nodes \<and> rep r = r \<and> component_of nodes pos bits es limit r c)"

lemma comp_of_linked: "linked es u v \<Longrightarrow> comp_of n es u = comp_of n es v"
  by (auto simp: comp_of_def dest: linked_sym intro: linked_trans)

lemma component_of_linked: "linked es u v \<Longrightarrow> component_of nodes pos bits es limit u c \<longleftrightarrow> component_of nodes pos bits es limit v c"
  by (simp add: component_of_def comp_of_linked [of es u v])

lemma cached_component_cases:
  assumes ok: "dsu_ok nodes pos bits es rep d" and v: "v < length nodes" and cache: "cache_ok nodes pos bits es rep limit cache"
  shows "cached_component d limit v (cache, budget) = Inl cap_error \<or>
    (\<exists>c cache' budget'. cached_component d limit v (cache, budget) = Inr (c, cache', budget') \<and>
      component_of nodes pos bits es limit v c \<and> cache_ok nodes pos bits es rep limit cache' \<and>
      map_of cache' (rep v) = Some c \<and> (\<forall>r x. map_of cache r = Some x \<longrightarrow> map_of cache' r = Some x))"
proof -
  note f = dsu_ok_find [OF ok v]
  have link: "linked es (rep v) v" using ok f v unfolding dsu_ok_def by blast
  show ?thesis
  proof (cases "map_of cache (rep v)")
    case (Some c)
    then have "component_of nodes pos bits es limit v c"
      using cache component_of_linked [OF link] unfolding cache_ok_def by blast
    with Some show ?thesis using f(1) cache by (simp add: cached_component_def)
  next
    case None
    define k where "k = card {p \<in> \<Union> (pos ` comp_of (length nodes) es (rep v)). p < limit}"
    from snapshot_component [OF ok f(2), of limit budget] obtain c where c: "component_of nodes pos bits es limit (rep v) c"
      "dsu_snapshot d (rep v) limit budget = (if max_membership < budget + k then Inl cap_error else Inr (c, budget + k))"
      unfolding k_def by blast
    have "cache_ok nodes pos bits es rep limit (AList.update (rep v) c cache)"
      using cache c(1) f by (auto simp: cache_ok_def update_conv')
    moreover have "map_of (AList.update (rep v) c cache) (rep v) = Some c" by (simp add: update_conv')
    moreover have "\<forall>r x. map_of cache r = Some x \<longrightarrow> map_of (AList.update (rep v) c cache) r = Some x"
      using None by (auto simp: update_conv')
    ultimately show ?thesis using f(1) None c component_of_linked [OF link] by (auto simp: cached_component_def)
  qed
qed

lemma component_roots_differ:
  assumes "distinct nodes" "component_of nodes pos bits es limit u c" "component_of nodes pos bits es limit v c'"
    "u < length nodes" "v < length nodes" "\<not> linked es u v"
  shows "cm_root c \<noteq> cm_root c'"
proof
  assume eq: "cm_root c = cm_root c'"
  let ?K = "comp_of (length nodes) es u" and ?L = "comp_of (length nodes) es v"
  have ne: "?K \<noteq> {}" "?L \<noteq> {}" "finite ?K" "finite ?L" using assms(4,5) by (auto simp: comp_of_def)
  have "cm_root c \<in> (!) nodes ` ?K" using assms(2) ne by (auto simp: component_of_def Let_def intro: Min_in)
  moreover have "cm_root c' \<in> (!) nodes ` ?L" using assms(3) ne by (auto simp: component_of_def Let_def intro: Min_in)
  ultimately obtain x y where xy: "x \<in> ?K" "y \<in> ?L" "nodes ! x = nodes ! y" using eq by auto
  then have "x = y" using assms(1) by (auto simp: comp_of_def nth_eq_iff_index_eq)
  with xy have "linked es u v" by (auto simp: comp_of_def dest: linked_sym intro: linked_trans)
  with assms(6) show False by simp
qed

lemma same_component_refl [simp]: "same_component c c"
  by (simp add: same_component_def dec_eq_def Let_def)

lemma leaf_alert_cases:
  assumes X: "context_ok X" and ok: "dsu_ok (tc_nodes X) pos bits es rep d" and p: "p < length (tc_ordered X)"
    and cache: "cache_ok (tc_nodes X) pos bits es rep limit cache"
  shows "leaf_alert X d limit (alerts, cache, budget) p = Inl cap_error \<or>
    (\<exists>a cache' budget'. leaf_alert X d limit (alerts, cache, budget) p = Inr (alerts @ [a], cache', budget') \<and>
      alert_ok X pos bits es limit p a \<and> cache_ok (tc_nodes X) pos bits es rep limit cache')"
proof -
  define decision where "decision = snd (tc_ordered X ! p)"
  have "tc_ordered X ! p \<in> set (tc_ordered X)" using p by simp
  then have "dd_event_id decision \<in> cr_event_id ` set (tc_rows X)"
    using X unfolding context_ok_def decision_def by blast
  then obtain i where i: "i < length (tc_rows X)" "cr_event_id (tc_rows X ! i) = dd_event_id decision"
    by (auto simp: in_set_conv_nth)
  have "distinct (map cr_event_id (tc_rows X))" using X by (simp add: context_ok_def)
  from index_by_Some [OF this] i have idx: "index_by cr_event_id (tc_rows X) (dd_event_id decision) = Some i" by blast
  define row where "row = tc_rows X ! i"
  have "row \<in> set (tc_rows X)" using i by (simp add: row_def)
  then have nodes: "cr_actor_node row \<in> set (tc_nodes X)" "cr_counterparty_node row \<in> set (tc_nodes X)"
    using X by (auto simp: context_ok_def)
  define u v where "u = pos_of X (cr_actor_node row)" and "v = pos_of X (cr_counterparty_node row)"
  have u: "node_position X (cr_actor_node row) = Inr u" "u < length (tc_nodes X)"
    and v: "node_position X (cr_counterparty_node row) = Inr v" "v < length (tc_nodes X)"
    using node_position_ok [OF X] nodes by (simp_all add: u_def v_def)
  have run: "leaf_alert X d limit (alerts, cache, budget) p =
      bindr (foldlr (leaf_node X d limit) ([], cache, budget) [cr_actor_node row, cr_counterparty_node row])
       (\<lambda>(components, cache', budget').
        Inr (alerts @ [\<lparr>al_decision_position = p, al_row_position = i, al_event_id = dd_event_id decision,
          al_score = dd_score decision, al_components = sort_key cm_root components\<rparr>], cache', budget'))"
    by (simp add: leaf_alert_def Let_def decision_def [symmetric] get_item_def idx row_def [symmetric])
  from cached_component_cases [OF ok u(2) cache, of budget] consider
    "cached_component d limit u (cache, budget) = Inl cap_error"
    | c cache1 budget1 where "cached_component d limit u (cache, budget) = Inr (c, cache1, budget1)"
      "component_of (tc_nodes X) pos bits es limit u c" "cache_ok (tc_nodes X) pos bits es rep limit cache1"
      "map_of cache1 (rep u) = Some c" by blast
  then show ?thesis
  proof cases
    case 1
    then show ?thesis unfolding run by (simp add: leaf_node_def u)
  next
    case first: 2
    from cached_component_cases [OF ok v(2) first(3), of budget1] consider
      "cached_component d limit v (cache1, budget1) = Inl cap_error"
      | c' cache2 budget2 where "cached_component d limit v (cache1, budget1) = Inr (c', cache2, budget2)"
        "component_of (tc_nodes X) pos bits es limit v c'" "cache_ok (tc_nodes X) pos bits es rep limit cache2"
        "map_of cache2 (rep v) = Some c'" "\<forall>r x. map_of cache1 r = Some x \<longrightarrow> map_of cache2 r = Some x" by blast
    then show ?thesis
    proof cases
      case 1
      then show ?thesis unfolding run by (simp add: leaf_node_def u v first)
    next
      case second: 2
      have rep: "rep u = rep v \<longleftrightarrow> linked es u v" using ok u v by (simp add: dsu_ok_def)
      have comps: "foldlr (leaf_node X d limit) ([], cache, budget) [cr_actor_node row, cr_counterparty_node row] =
          Inr (add_component [c] c', cache2, budget2)"
        by (simp add: leaf_node_def u v first second add_component_def)
      have differ: "\<not> linked es u v \<Longrightarrow> cm_root c \<noteq> cm_root c'"
        using component_roots_differ [OF _ first(2) second(2) u(2) v(2)] X by (simp add: context_ok_def)
      have "add_component [c] c' = (if linked es u v then [c] else [c, c'])"
      proof (cases "linked es u v")
        case True
        then have "c' = c" using rep first(4) second(4,5) by auto
        then show ?thesis using True by (simp add: add_component_def)
      next
        case False
        then show ?thesis using differ by (auto simp: add_component_def same_component_def)
      qed
      then have "alert_ok X pos bits es limit p \<lparr>al_decision_position = p, al_row_position = i,
          al_event_id = dd_event_id decision, al_score = dd_score decision,
          al_components = sort_key cm_root (add_component [c] c')\<rparr>"
        using i first(2) second(2) differ
        by (auto simp: alert_ok_def Let_def decision_def [symmetric] row_def [symmetric] u_def [symmetric] v_def [symmetric])
      then show ?thesis unfolding run comps using second(3) by simp
    qed
  qed
qed

lemma leaf_alerts_cases:
  assumes X: "context_ok X" and ok: "dsu_ok (tc_nodes X) pos bits es rep d" and "set ps \<subseteq> {..<length (tc_ordered X)}"
    and "cache_ok (tc_nodes X) pos bits es rep limit cache"
  shows "foldlr (leaf_alert X d limit) (alerts, cache, budget) ps = Inl cap_error \<or>
    (\<exists>as cache' budget'. foldlr (leaf_alert X d limit) (alerts, cache, budget) ps = Inr (alerts @ as, cache', budget') \<and>
      list_all2 (alert_ok X pos bits es limit) ps as)"
  using assms(3,4)
proof (induction ps arbitrary: alerts cache budget)
  case (Cons p ps)
  then have "p < length (tc_ordered X)" by simp
  from leaf_alert_cases [OF X ok this Cons.prems(2), of alerts budget] show ?case
  proof
    assume "\<exists>a cache' budget'. leaf_alert X d limit (alerts, cache, budget) p = Inr (alerts @ [a], cache', budget') \<and>
        alert_ok X pos bits es limit p a \<and> cache_ok (tc_nodes X) pos bits es rep limit cache'"
    then obtain a cache' budget' where a: "leaf_alert X d limit (alerts, cache, budget) p = Inr (alerts @ [a], cache', budget')"
      "alert_ok X pos bits es limit p a" "cache_ok (tc_nodes X) pos bits es rep limit cache'" by blast
    from Cons.IH [OF _ a(3), of "alerts @ [a]" budget'] Cons.prems(1) a(1,2) show ?case by auto
  qed simp
qed simp

section \<open>The tree\<close>

definition batch_built :: "tree_context \<Rightarrow> (nat \<Rightarrow> nat set) \<Rightarrow> bool \<Rightarrow> edge list \<Rightarrow> nat \<Rightarrow> causal_batch \<Rightarrow> bool" where
  "batch_built X pos bits es b batch \<longleftrightarrow> cb_decision_at batch = fst (tc_batches X ! b) \<and>
     list_all2 (alert_ok X pos bits es (hd (snd (tc_batches X ! b)))) (snd (tc_batches X ! b)) (cb_alerts batch)"

definition built_from :: "tree_context \<Rightarrow> (nat \<Rightarrow> nat set) \<Rightarrow> bool \<Rightarrow> nat \<Rightarrow> nat \<Rightarrow> causal_batch option \<Rightarrow> bool" where
  "built_from X pos bits leaves b r \<longleftrightarrow> (\<exists>is batch. r = Some batch \<and>
     mset is = path_rows (tc_intervals X) (leaves + b) \<and> batch_built X pos bits (edges_of X is) b batch)"

definition visited :: "tree_context \<Rightarrow> (nat \<Rightarrow> nat set) \<Rightarrow> bool \<Rightarrow> nat \<Rightarrow> nat \<Rightarrow> nat \<Rightarrow> tree_state \<Rightarrow> tree_state \<Rightarrow> bool" where
  "visited X pos bits leaves start stop s s' \<longleftrightarrow> ts_dsu s' = ts_dsu s \<and> length (ts_built s') = length (ts_built s) \<and>
     (\<forall>b < length (tc_batches X). if start \<le> b \<and> b < stop then built_from X pos bits leaves b (ts_built s' ! b)
       else ts_built s' ! b = ts_built s ! b)"

lemma visit_leaf_cases:
  assumes X: "context_ok X" and ok: "dsu_ok (tc_nodes X) pos bits (edges_of X is) rep (ts_dsu s)"
    and "mset is = path_rows (tc_intervals X) (leaves + b)" and "length (ts_built s) = length (tc_batches X)"
  shows "visit_leaf X b s = Inl cap_error \<or> (\<exists>s'. visit_leaf X b s = Inr s' \<and> visited X pos bits leaves b (b + 1) s s')"
proof (cases "b < length (tc_batches X)")
  case False
  then show ?thesis by (auto simp: visit_leaf_def visited_def)
next
  case True
  obtain t ps where b: "tc_batches X ! b = (t, ps)" by (cases "tc_batches X ! b")
  have "(t, ps) \<in> set (tc_batches X)" using True b by (metis nth_mem)
  then have ps: "set ps \<subseteq> {..<length (tc_ordered X)}" using X by (force simp: context_ok_def)
  have "cache_ok (tc_nodes X) pos bits (edges_of X is) rep (hd ps) []" by (simp add: cache_ok_def)
  from leaf_alerts_cases [OF X ok ps this, of "[]" "ts_budget s"] show ?thesis
  proof
    assume "\<exists>as cache' budget'. foldlr (leaf_alert X (ts_dsu s) (hd ps)) ([], [], ts_budget s) ps = Inr ([] @ as, cache', budget') \<and>
        list_all2 (alert_ok X pos bits (edges_of X is) (hd ps)) ps as"
    then obtain as cache' budget' where a: "foldlr (leaf_alert X (ts_dsu s) (hd ps)) ([], [], ts_budget s) ps = Inr (as, cache', budget')"
      "list_all2 (alert_ok X pos bits (edges_of X is) (hd ps)) ps as" by auto
    let ?batch = "\<lparr>cb_decision_at = t, cb_alerts = as\<rparr>"
    have "batch_built X pos bits (edges_of X is) b ?batch" using a(2) by (simp add: batch_built_def b)
    then have "built_from X pos bits leaves b (Some ?batch)" using assms(3) by (auto simp: built_from_def)
    then show ?thesis using True a(1) assms(4) by (auto simp: visit_leaf_def b visited_def nth_list_update)
  qed (use True b in \<open>simp add: visit_leaf_def\<close>)
qed

lemma visited_halves:
  assumes "visited X pos bits leaves start middle s s1" "visited X pos bits leaves middle stop s1 s2" "start \<le> middle" "middle \<le> stop"
  shows "visited X pos bits leaves start stop s s2"
  unfolding visited_def
proof (intro conjI allI impI)
  show "ts_dsu s2 = ts_dsu s" "length (ts_built s2) = length (ts_built s)" using assms by (simp_all add: visited_def)
  fix b assume b: "b < length (tc_batches X)"
  have 1: "if start \<le> b \<and> b < middle then built_from X pos bits leaves b (ts_built s1 ! b) else ts_built s1 ! b = ts_built s ! b"
    using assms(1) b by (simp add: visited_def)
  have 2: "if middle \<le> b \<and> b < stop then built_from X pos bits leaves b (ts_built s2 ! b) else ts_built s2 ! b = ts_built s1 ! b"
    using assms(2) b by (simp add: visited_def)
  from 1 2 assms(3,4) show "if start \<le> b \<and> b < stop then built_from X pos bits leaves b (ts_built s2 ! b)
      else ts_built s2 ! b = ts_built s ! b"
    by (auto split: if_splits)
qed

theorem visit_cases:
  assumes X: "context_ok X" and iv: "\<forall>y < 2 * leaves. set (tc_intervals X ! y) \<subseteq> {..<length (tc_rows X)}"
  assumes "start + leaves = q * 2 ^ m" "q * 2 ^ m + 2 ^ m \<le> 2 * leaves" "0 < q"
    and "dsu_ok (tc_nodes X) pos bits (edges_of X is) rep (ts_dsu s)"
    and "mset is = (if q \<le> 1 then {#} else path_rows (tc_intervals X) (q div 2))"
    and "length (ts_built s) = length (tc_batches X)"
  shows "visit X q start (start + 2 ^ m) s = Inl cap_error \<or>
    (\<exists>s'. visit X q start (start + 2 ^ m) s = Inr s' \<and> visited X pos bits leaves start (start + 2 ^ m) s s')"
  using assms(3-)
proof (induction m arbitrary: q start s "is" rep)
  case 0
  then have q: "q = leaves + start" by simp
  have "set (tc_intervals X ! q) \<subseteq> {..<length (tc_rows X)}" using iv 0 by simp
  from enter_rows [OF X 0(4) this] obtain rep' d where d: "foldlr (enter_row X) (ts_dsu s) (tc_intervals X ! q) = Inr d"
    "dsu_ok (tc_nodes X) pos bits (edges_of X (is @ tc_intervals X ! q)) rep' d" "rollback (dsu_mark (ts_dsu s)) d = ts_dsu s"
    by (auto simp: edges_of_append)
  have path: "mset (is @ tc_intervals X ! q) = path_rows (tc_intervals X) (leaves + start)"
    using 0(5) by (subst path_rows.simps) (simp add: q add.commute)
  have "dsu_ok (tc_nodes X) pos bits (edges_of X (is @ tc_intervals X ! q)) rep' (ts_dsu (s\<lparr>ts_dsu := d\<rparr>))" using d(2) by simp
  from visit_leaf_cases [OF X this path] 0(6)
  have "visit_leaf X start (s\<lparr>ts_dsu := d\<rparr>) = Inl cap_error \<or> (\<exists>s'. visit_leaf X start (s\<lparr>ts_dsu := d\<rparr>) = Inr s' \<and>
      visited X pos bits leaves start (start + 1) (s\<lparr>ts_dsu := d\<rparr>) s')" by simp
  then show ?case
  proof
    assume "visit_leaf X start (s\<lparr>ts_dsu := d\<rparr>) = Inl cap_error"
    then show ?thesis using d(1) by (subst (1) visit.simps) simp
  next
    assume "\<exists>s'. visit_leaf X start (s\<lparr>ts_dsu := d\<rparr>) = Inr s' \<and> visited X pos bits leaves start (start + 1) (s\<lparr>ts_dsu := d\<rparr>) s'"
    then obtain s' where s': "visit_leaf X start (s\<lparr>ts_dsu := d\<rparr>) = Inr s'"
      "visited X pos bits leaves start (start + 1) (s\<lparr>ts_dsu := d\<rparr>) s'" by blast
    have "visit X q start (start + 2 ^ 0) s = Inr (s'\<lparr>ts_dsu := ts_dsu s\<rparr>)"
      using d s' by (subst visit.simps) (simp add: visited_def)
    moreover have "visited X pos bits leaves start (start + 2 ^ 0) s (s'\<lparr>ts_dsu := ts_dsu s\<rparr>)"
      using s'(2) by (simp add: visited_def)
    ultimately show ?thesis by blast
  qed
next
  case (Suc m)
  have "q * 1 \<le> q * 2 ^ Suc m" by (rule mult_le_mono2) (simp add: Suc_leI)
  moreover have "0 < (2 :: nat) ^ Suc m" by simp
  ultimately have q: "q < 2 * leaves" using Suc.prems(2) by linarith
  then have "set (tc_intervals X ! q) \<subseteq> {..<length (tc_rows X)}" using iv by simp
  from enter_rows [OF X Suc.prems(4) this] obtain rep' d where d: "foldlr (enter_row X) (ts_dsu s) (tc_intervals X ! q) = Inr d"
    "dsu_ok (tc_nodes X) pos bits (edges_of X (is @ tc_intervals X ! q)) rep' d" "rollback (dsu_mark (ts_dsu s)) d = ts_dsu s"
    by (auto simp: edges_of_append)
  have path: "mset (is @ tc_intervals X ! q) = path_rows (tc_intervals X) q"
    using Suc.prems(5) by (subst path_rows.simps) (simp add: add.commute)
  define mid stop where "mid = start + 2 ^ m" and "stop = mid + 2 ^ m"
  have "even (stop - start)" by (simp add: mid_def stop_def)
  then have "stop - start \<noteq> 1" by (metis odd_one)
  then have stop: "start + 2 ^ Suc m = stop" "stop - start \<noteq> 1" "\<not> stop \<le> start" "(start + stop) div 2 = mid"
    by (simp_all add: mid_def stop_def)
  have step: "visit X q start stop s =
      bindr (bindr (visit X (q * 2) start mid (s\<lparr>ts_dsu := d\<rparr>)) (visit X (q * 2 + 1) mid stop))
        (\<lambda>s'. Inr (s'\<lparr>ts_dsu := rollback (dsu_mark (ts_dsu s)) (ts_dsu s')\<rparr>))"
    using d(1) stop(2-) by (subst visit.simps) (simp only: Let_def if_False bindr_simps)
  let ?s = "s\<lparr>ts_dsu := d\<rparr>"
  have arith: "start + leaves = q * 2 * 2 ^ m" "q * 2 * 2 ^ m + 2 ^ m \<le> 2 * leaves"
    "mid + leaves = (q * 2 + 1) * 2 ^ m" "(q * 2 + 1) * 2 ^ m + 2 ^ m \<le> 2 * leaves"
    using Suc.prems(1,2) by (simp_all add: mid_def algebra_simps)
  have kids: "0 < q * 2" "0 < q * 2 + 1" "\<not> q * 2 \<le> 1" "\<not> q * 2 + 1 \<le> 1" "q * 2 div 2 = q" "(q * 2 + 1) div 2 = q"
    using Suc.prems(3) by auto
  have path1: "mset (is @ tc_intervals X ! q) = (if q * 2 \<le> 1 then {#} else path_rows (tc_intervals X) (q * 2 div 2))"
    and path2: "mset (is @ tc_intervals X ! q) = (if q * 2 + 1 \<le> 1 then {#} else path_rows (tc_intervals X) ((q * 2 + 1) div 2))"
    unfolding kids(5,6) using kids(3,4) path by simp_all
  have ds: "dsu_ok (tc_nodes X) pos bits (edges_of X (is @ tc_intervals X ! q)) rep' (ts_dsu ?s)" using d(2) by simp
  have built: "length (ts_built ?s) = length (tc_batches X)" using Suc.prems(6) by simp
  from Suc.IH [OF arith(1,2) kids(1) ds path1 built]
  have first: "visit X (q * 2) start mid ?s = Inl cap_error \<or>
      (\<exists>s'. visit X (q * 2) start mid ?s = Inr s' \<and> visited X pos bits leaves start mid ?s s')"
    unfolding mid_def .
  show ?case unfolding stop(1)
  proof (cases "visit X (q * 2) start mid ?s")
    case (Inl e)
    with first show "visit X q start stop s = Inl cap_error \<or>
        (\<exists>s'. visit X q start stop s = Inr s' \<and> visited X pos bits leaves start stop s s')"
      unfolding step by simp
  next
    case (Inr s1)
    with first have 1: "visited X pos bits leaves start mid ?s s1" by simp
    then have "dsu_ok (tc_nodes X) pos bits (edges_of X (is @ tc_intervals X ! q)) rep' (ts_dsu s1)"
      "length (ts_built s1) = length (tc_batches X)" using d(2) Suc.prems(6) by (simp_all add: visited_def)
    from Suc.IH [OF arith(3,4) kids(2) this(1) path2 this(2)]
    have second: "visit X (q * 2 + 1) mid stop s1 = Inl cap_error \<or>
        (\<exists>s'. visit X (q * 2 + 1) mid stop s1 = Inr s' \<and> visited X pos bits leaves mid stop s1 s')"
      unfolding stop_def .
    show "visit X q start stop s = Inl cap_error \<or>
        (\<exists>s'. visit X q start stop s = Inr s' \<and> visited X pos bits leaves start stop s s')"
    proof (cases "visit X (q * 2 + 1) mid stop s1")
      case (Inl e)
      with second Inr show ?thesis unfolding step by simp
    next
      case 2: (Inr s2)
      with second have v2: "visited X pos bits leaves mid stop s1 s2" by simp
      have v: "visited X pos bits leaves start stop ?s s2"
        by (rule visited_halves [OF 1 v2]) (simp_all add: mid_def stop_def)
      have "visit X q start stop s = Inr (s2\<lparr>ts_dsu := ts_dsu s\<rparr>)"
        unfolding step using Inr 2 v d(3) by (simp add: visited_def)
      moreover have "visited X pos bits leaves start stop s (s2\<lparr>ts_dsu := ts_dsu s\<rparr>)"
        using v by (simp add: visited_def)
      ultimately show ?thesis by blast
    qed
  qed
qed

end
