(* ===== verification/CaseInputs.thy ===== *)
theory CaseInputs
  imports CausalTopology
begin

text \<open>
  The rows that the case grouping accepts (\<open>_validated_rows\<close> in \<open>cases/grouping.py\<close>, the validators of
  \<open>DefenseDecision\<close> in \<open>defense/policy.py\<close>). The exact types that the code checks first are the types here.
\<close>

text \<open>\<open>fallback_audit_is_consistent\<close>\<close>

definition fallback_consistent :: "defense_decision \<Rightarrow> defense_decision res" where
  "fallback_consistent d =
     (if dd_fallback_used d
      then if dd_fallback_reason d \<notin> {Some ModelUnavailable, Some ModelTimeout}
        then Inl (ValueError ''fallback decision must identify the model failure'')
        else if the (dd_fallback_reason d) \<notin> set (dd_reason_codes d)
        then Inl (ValueError ''fallback reason must appear in decision reason codes'')
        else if dd_calibrated_score d \<noteq> None
        then Inl (ValueError ''fallback decision cannot claim a calibrated score'')
        else if (case dd_failed_component_version d of None \<Rightarrow> True | Some v \<Rightarrow> blank v)
        then Inl (ValueError ''fallback decision must identify a nonblank failed component'')
        else Inr d
      else if dd_fallback_reason d \<noteq> None \<or> dd_failed_component_version d \<noteq> None
      then Inl (ValueError ''non-fallback decision cannot identify a failed component'')
      else Inr d)"

definition defense_decision_valid :: "defense_decision \<Rightarrow> defense_decision res" where
  "defense_decision_valid d =
     bindr (ensure (unit_float (dd_score d) \<and> unit_float (dd_rule_score d) \<and>
         (case dd_calibrated_score d of None \<Rightarrow> True | Some x \<Rightarrow> unit_float x) \<and>
         (case dd_latency_ms d of Fin x \<Rightarrow> 0 \<le> x | _ \<Rightarrow> False))
       (ValueError ''decision numeric fields must be finite'')) (\<lambda>_.
     bindr (ensure (sorted_unique (dd_evidence_source_ids d))
       (ValueError ''evidence source IDs must be unique and sorted'')) (\<lambda>_.
     bindr (ensure (distinct (dd_reason_codes d)) (ValueError ''decision reason codes must be unique'')) (\<lambda>_.
     bindr (validate_semantic_version (dd_policy_version d) ''policy_version'') (\<lambda>_.
     fallback_consistent d))))"

text \<open>\<open>ObservedEvent.model_validate\<close>: pydantic accepts finite decimals only, and three integrity states.\<close>

definition observed_event_valid :: "observed \<Rightarrow> observed res" where
  "observed_event_valid r =
     (if \<not> dfinite (ob_amount r) \<or> ob_integrity_status r \<notin> {''pass'', ''fail'', ''not_applicable''}
      then Inl (ValueError ''observed event is invalid'') else Inr r)"

definition revalidate_observation :: "observed \<Rightarrow> observed res" where
  "revalidate_observation r =
     rethrow (CaseContractError ''ObservedEvent failed deterministic semantic revalidation'') (observed_event_valid r)"

definition revalidate_decision :: "defense_decision \<Rightarrow> defense_decision res" where
  "revalidate_decision d =
     rethrow (CaseContractError ''DefenseDecision failed deterministic semantic revalidation'') (defense_decision_valid d)"

definition grouping_utc :: "datetime \<Rightarrow> datetime res" where
  "grouping_utc t = rethrow (CaseContractError ''must be timezone-aware UTC'') (validate_utc_timestamp t)"

definition max_grouping_rows :: nat where
  "max_grouping_rows = 100000"

definition validate_observation :: "datetime \<Rightarrow> observed \<Rightarrow> unit res" where
  "validate_observation as_of r =
     bindr (mapr grouping_utc [ob_event_time r, ob_available_at r]) (\<lambda>_.
     bindr (if ob_is_decision_point r
            then case ob_decision_at r of
                None \<Rightarrow> Inl (CaseContractError ''decision-point observations require decision_at'')
              | Some t \<Rightarrow> bindr (grouping_utc t) (\<lambda>_. Inr ())
            else ensure (ob_decision_at r = None)
              (CaseContractError ''nondecision observations must not declare decision_at'')) (\<lambda>_.
     bindr (ensure (instant (ob_event_time r) \<le> instant (ob_available_at r))
       (CaseContractError ''observation event_time must not exceed available_at'')) (\<lambda>_.
     bindr (ensure (case ob_decision_at r of None \<Rightarrow> True | Some t \<Rightarrow> instant (ob_available_at r) \<le> instant t)
       (CaseContractError ''observation available_at must not exceed decision_at'')) (\<lambda>_.
     bindr (ensure (instant (ob_event_time r) \<le> instant as_of \<and> instant (ob_available_at r) \<le> instant as_of \<and>
         (case ob_decision_at r of None \<Rightarrow> True | Some t \<Rightarrow> instant t \<le> instant as_of))
       (CaseContractError ''observation or decision occurs after as_of'')) (\<lambda>_.
     bindr (ensure (list_all bounded_id [ob_event_id r, ob_actor_id r, ob_counterparty_id r])
       (CaseContractError ''observation identifier must be exact non-empty text'')) (\<lambda>_.
     ensure (dfinite (ob_amount r) \<and> \<not> dec_less (ob_amount r) dec_zero)
       (CaseContractError ''observation amount must be finite and nonnegative'')))))))"

text \<open>\<open>observation_by_id[event_id].decision_at is None\<close>\<close>

definition lacks_time :: "observed list \<Rightarrow> defense_decision \<Rightarrow> bool" where
  "lacks_time observations d \<longleftrightarrow> (case decision_time observations d of Inl _ \<Rightarrow> True | Inr _ \<Rightarrow> False)"

definition validated_rows ::
  "observed list \<Rightarrow> defense_decision list \<Rightarrow> datetime \<Rightarrow> (observed list \<times> defense_decision list) res" where
  "validated_rows observations decisions as_of =
     bindr (grouping_utc as_of) (\<lambda>_.
     if max_grouping_rows < length observations \<or> max_grouping_rows < length decisions
     then Inl (CaseContractError ''case grouping row count exceeds frozen resource cap'')
     else if \<not> distinct (map ob_event_id observations) then Inl (CaseContractError ''duplicate observation event_id'')
     else if \<not> distinct (map dd_event_id decisions) then Inl (CaseContractError ''duplicate decision event_id'')
     else bindr (mapr (\<lambda>r. bindr (revalidate_observation r) (\<lambda>v.
         bindr (validate_observation as_of v) (\<lambda>_. Inr v))) observations) (\<lambda>os.
       bindr (mapr revalidate_decision decisions) (\<lambda>ds.
       if set (map dd_event_id ds) \<noteq> set (map ob_event_id (filter ob_is_decision_point os))
       then Inl (CaseContractError ''decision event IDs must match decision-point observations bijectively'')
       else if list_ex (lacks_time os) ds
       then Inl (CaseContractError ''decision observations require an exact decision_at'')
       else Inr (os, ds))))"

lemma defense_decision_valid_same: "defense_decision_valid d = Inr v \<Longrightarrow> v = d"
proof -
  have "fallback_consistent d = Inr v \<Longrightarrow> v = d" by (simp add: fallback_consistent_def split: if_splits)
  then show "defense_decision_valid d = Inr v \<Longrightarrow> v = d" unfolding defense_decision_valid_def bindr_Inr by blast
qed

lemma observed_valid_same: "revalidate_observation r = Inr v \<Longrightarrow> v = r \<and> observed_event_valid r = Inr r"
proof -
  have same: "observed_event_valid r = Inr w \<Longrightarrow> w = r" for w
    unfolding observed_event_valid_def by (simp split: if_splits)
  then show "revalidate_observation r = Inr v \<Longrightarrow> v = r \<and> observed_event_valid r = Inr r"
    by (cases "observed_event_valid r") (auto simp only: revalidate_observation_def rethrow_def sum.case)
qed

lemma validate_observation_amount:
  "validate_observation as_of r = Inr u \<Longrightarrow> dfinite (ob_amount r) \<and> 0 \<le> dsig (ob_amount r)"
  unfolding validate_observation_def bindr_Inr by (elim exE conjE) (simp only: ensure_Inr dec_less_zero not_less simp_thms)

lemma fail_else: "(if c then Inl e else r) = Inr y \<longleftrightarrow> \<not> c \<and> r = Inr y"
  by simp

lemma mapr_same:
  assumes "mapr f xs = Inr ys" "\<And>x y. f x = Inr y \<Longrightarrow> y = x"
  shows "ys = xs" "\<forall>x \<in> set xs. f x = Inr x"
proof -
  have "ys = xs \<and> (\<forall>x \<in> set xs. f x = Inr x)"
    using assms(1)
  proof (induction xs arbitrary: ys)
    case (Cons x xs)
    then obtain y zs where "f x = Inr y" "mapr f xs = Inr zs" "ys = y # zs" by (auto simp: bindr_Inr)
    with Cons.IH [of zs] assms(2) [of x y] show ?case by simp
  qed simp
  then show "ys = xs" "\<forall>x \<in> set xs. f x = Inr x" by simp_all
qed

text \<open>What validation leaves: the rows themselves, with what the rest of the grouping relies on.\<close>

theorem validated_rows_facts:
  assumes "validated_rows observations decisions as_of = Inr (os, ds)"
  shows "os = observations" "ds = decisions" "distinct (map ob_event_id os)" "distinct (map dd_event_id ds)"
    "\<forall>r \<in> set os. dfinite (ob_amount r) \<and> 0 \<le> dsig (ob_amount r)"
    "set (map dd_event_id ds) = set (map ob_event_id (filter ob_is_decision_point os))"
    "\<forall>d \<in> set ds. \<exists>t. decision_time os d = Inr t" "\<forall>d \<in> set ds. defense_decision_valid d = Inr d"
    "\<forall>r \<in> set os. observed_event_valid r = Inr r \<and> (\<exists>u. validate_observation as_of r = Inr u)"
proof -
  note obs = observed_valid_same
  have dec: "revalidate_decision d = Inr v \<Longrightarrow> v = d \<and> defense_decision_valid d = Inr d" for d v
    using defense_decision_valid_same [of d] by (cases "defense_decision_valid d") (auto simp: revalidate_decision_def rethrow_def)
  let ?v = "\<lambda>r. bindr (revalidate_observation r) (\<lambda>v. bindr (validate_observation as_of v) (\<lambda>_. Inr v))"
  from assms have a: "mapr ?v observations = Inr os" "mapr revalidate_decision decisions = Inr ds"
    "distinct (map ob_event_id observations)" "distinct (map dd_event_id decisions)"
    "set (map dd_event_id ds) = set (map ob_event_id (filter ob_is_decision_point os))"
    "\<not> list_ex (lacks_time os) ds"
    by (simp_all only: validated_rows_def bindr_Inr fail_else sum.inject prod.inject simp_thms not_not ex_simps)
      (elim conjE exE, simp only: simp_thms)+
  have v: "?v x = Inr y \<Longrightarrow> y = x" for x y using obs by (auto simp only: bindr_Inr)
  show os: "os = observations" by (rule mapr_same(1) [OF a(1) v])
  show ds: "ds = decisions" by (rule mapr_same(1) [OF a(2)]) (use dec in blast)
  show "distinct (map ob_event_id os)" "distinct (map dd_event_id ds)" using a(3,4) os ds by simp_all
  have each: "\<forall>r \<in> set os. ?v r = Inr r" using mapr_same(2) [OF a(1) v] os by simp
  show valid: "\<forall>r \<in> set os. observed_event_valid r = Inr r \<and> (\<exists>u. validate_observation as_of r = Inr u)"
    using each observed_valid_same by (auto simp only: bindr_Inr sum.inject)
  show "\<forall>r \<in> set os. dfinite (ob_amount r) \<and> 0 \<le> dsig (ob_amount r)"
    using valid validate_observation_amount by blast
  show "set (map dd_event_id ds) = set (map ob_event_id (filter ob_is_decision_point os))" by (rule a(5))
  show "\<forall>d \<in> set ds. \<exists>t. decision_time os d = Inr t"
    using a(6) unfolding list_ex_iff lacks_time_def by (metis sum.case(1) obj_sumE)
  show "\<forall>d \<in> set ds. defense_decision_valid d = Inr d"
    using mapr_same(2) [OF a(2)] dec ds by blast
qed

end
