(* ===== verification/TopologyBuild.thy ===== *)
theory TopologyBuild
  imports TopologyVisit CaseInputs
begin

text \<open>
  The whole construction on validated rows: decisions are ordered and find their rows, every batch is built
  from the rows that were available strictly before it and not decided in it, and only the two resource
  caps make it fail.
\<close>

section \<open>Ordered decisions\<close>

lemma mapr_nth:
  assumes "mapr f xs = Inr ys"
  shows "length ys = length xs" "i < length xs \<Longrightarrow> f (xs ! i) = Inr (ys ! i)"
proof -
  have "length ys = length xs \<and> (\<forall>i < length xs. f (xs ! i) = Inr (ys ! i))"
    using assms
  proof (induction xs arbitrary: ys)
    case (Cons x xs)
    then obtain y zs where z: "f x = Inr y" "mapr f xs = Inr zs" "ys = y # zs" by (auto simp: bindr_Inr)
    with Cons.IH [OF z(2)] show ?case by (auto simp: nth_Cons split: nat.split)
  qed simp
  then show "length ys = length xs" "i < length xs \<Longrightarrow> f (xs ! i) = Inr (ys ! i)" by auto
qed

lemma order_decisions_facts:
  assumes "distinct (map dd_event_id ds)" "\<forall>d \<in> set ds. \<exists>t. decision_time os d = Inr t"
  obtains ordered where "order_decisions os ds = Inr ordered" "ordered_ok ordered"
    "mset (map snd ordered) = mset ds" "\<forall>(t, d) \<in> set ordered. decision_time os d = Inr t"
proof -
  let ?f = "\<lambda>d. bindr (decision_time os d) (\<lambda>t. Inr (t, d))"
  have "\<exists>ys. mapr ?f ds = Inr ys" by (rule mapr_total) (use assms(2) in force)
  then obtain timed where timed: "mapr ?f ds = Inr timed" by blast
  note n = mapr_nth [OF timed]
  have at: "snd (timed ! i) = ds ! i" "decision_time os (ds ! i) = Inr (fst (timed ! i))" if "i < length ds" for i
    using n(2) [OF that] by (cases "timed ! i"; auto simp: bindr_Inr)+
  have snd: "map snd timed = ds" by (rule nth_equalityI) (simp_all add: n(1) at)
  let ?o = "sort_key decision_order timed"
  have "mset (map (dd_event_id \<circ> snd) ?o) = mset (map dd_event_id ds)"
    by (simp add: snd [symmetric] multiset.map_comp o_def)
  then have "distinct (map (dd_event_id \<circ> snd) ?o)" using assms(1) by (metis mset_eq_imp_distinct_iff)
  moreover have "\<forall>(t, d) \<in> set ?o. decision_time os d = Inr t"
  proof (clarify)
    fix t d assume "(t, d) \<in> set ?o"
    then obtain i where "i < length ds" "timed ! i = (t, d)" by (auto simp: in_set_conv_nth n(1))
    with at [of i] show "decision_time os d = Inr t" by simp
  qed
  moreover have "mset (map snd ?o) = mset ds" by (simp add: snd [symmetric])
  moreover have "order_decisions os ds = Inr ?o" by (simp add: order_decisions_def timed)
  moreover have "ordered_ok ?o" using calculation(1) by (simp add: ordered_ok_def)
  ultimately show thesis using that [of ?o] by blast
qed

definition inputs_ok :: "observed list \<Rightarrow> defense_decision list \<Rightarrow> bool" where
  "inputs_ok os ds \<longleftrightarrow> distinct (map ob_event_id os) \<and> distinct (map dd_event_id ds) \<and>
     (\<forall>r \<in> set os. dfinite (ob_amount r) \<and> 0 \<le> dsig (ob_amount r)) \<and>
     dd_event_id ` set ds \<subseteq> ob_event_id ` set os \<and> (\<forall>d \<in> set ds. \<exists>t. decision_time os d = Inr t)"

lemma validated_inputs: "validated_rows observations decisions as_of = Inr (os, ds) \<Longrightarrow> inputs_ok os ds"
  using validated_rows_facts [of observations decisions as_of os ds] by (auto simp: inputs_ok_def)

lemma causal_rows_facts:
  assumes "inputs_ok os ds"
  shows "distinct (map cr_event_id (causal_rows os))" "set (causal_rows os) = causal_row_of ` set os"
    "\<forall>row \<in> set (causal_rows os). dfinite (cr_amount row) \<and> 0 \<le> dsig (cr_amount row)"
    "dd_event_id ` set ds \<subseteq> cr_event_id ` set (causal_rows os)"
proof -
  have "map cr_event_id (causal_rows os) = map ob_event_id (sort_key availability_key os)"
    by (simp add: causal_rows_def causal_row_of_def o_def)
  moreover have "mset (map ob_event_id (sort_key availability_key os)) = mset (map ob_event_id os)" by simp
  ultimately show "distinct (map cr_event_id (causal_rows os))"
    using assms by (metis inputs_ok_def mset_eq_imp_distinct_iff)
  show s: "set (causal_rows os) = causal_row_of ` set os" by (simp add: causal_rows_def)
  show "\<forall>row \<in> set (causal_rows os). dfinite (cr_amount row) \<and> 0 \<le> dsig (cr_amount row)"
    using assms by (auto simp: s inputs_ok_def causal_row_of_def)
  have "cr_event_id ` causal_row_of ` set os = ob_event_id ` set os" by (simp add: image_image causal_row_of_def)
  then show "dd_event_id ` set ds \<subseteq> cr_event_id ` set (causal_rows os)"
    using assms by (simp add: s inputs_ok_def)
qed

section \<open>Nodes and positions\<close>

lemma topology_nodes_facts:
  "distinct (topology_nodes rows)" "set (topology_nodes rows) = cr_actor_node ` set rows \<union> cr_counterparty_node ` set rows"
  by (auto simp: topology_nodes_def)

lemma decision_rows_facts:
  assumes "distinct (map cr_event_id rows)" "\<forall>x \<in> set ordered. dd_event_id (snd x) \<in> cr_event_id ` set rows"
  obtains decided where "decision_rows rows ordered = Inr decided" "length decided = length ordered"
    "\<forall>p < length ordered. decided ! p \<in> set rows \<and> cr_event_id (decided ! p) = dd_event_id (snd (ordered ! p))"
proof -
  let ?f = "\<lambda>(_, d). bindr (get_item (index_by cr_event_id rows) (dd_event_id d)) (\<lambda>i. Inr (rows ! i))"
  have f: "\<exists>row \<in> set rows. ?f x = Inr row \<and> cr_event_id row = dd_event_id (snd x)" if "x \<in> set ordered" for x
  proof -
    have "dd_event_id (snd x) \<in> cr_event_id ` set rows" using assms(2) that by blast
    then obtain i where i: "i < length rows" "cr_event_id (rows ! i) = dd_event_id (snd x)"
      by (auto simp: in_set_conv_nth)
    from index_by_Some [OF assms(1)] i have "index_by cr_event_id rows (dd_event_id (snd x)) = Some i" by blast
    with i show ?thesis by (cases x) (auto simp: get_item_def)
  qed
  then have "\<exists>ys. mapr ?f ordered = Inr ys" by (intro mapr_total) blast
  then obtain decided where d: "mapr ?f ordered = Inr decided" by blast
  show thesis
  proof (rule that)
    show "decision_rows rows ordered = Inr decided" using d by (simp add: decision_rows_def)
    show "length decided = length ordered" by (rule mapr_nth(1) [OF d])
    show "\<forall>p < length ordered. decided ! p \<in> set rows \<and> cr_event_id (decided ! p) = dd_event_id (snd (ordered ! p))"
      using f mapr_nth(2) [OF d] by (metis Inr_inject nth_mem)
  qed
qed

lemma pos_at_nodes:
  assumes "v < length nodes"
  shows "pos_at nodes (positions_by_node nodes decided) v =
    {p. p < length decided \<and> (cr_actor_node (decided ! p) = nodes ! v \<or> cr_counterparty_node (decided ! p) = nodes ! v)}"
proof -
  have "nodes ! v \<in> set nodes" using assms by simp
  moreover have "enumerate 0 decided = map (\<lambda>p. (p, decided ! p)) [0..<length decided]"
    by (rule nth_equalityI) (simp_all add: nth_enumerate_eq)
  ultimately show ?thesis by (auto simp: pos_at_def positions_by_node_def)
qed

lemma positions_distinct: "positions_by_node nodes decided node = Some ps \<Longrightarrow> distinct ps"
  by (auto simp: positions_by_node_def split: if_splits)

section \<open>Intervals hold rows\<close>

lemma append_at_bound:
  assumes "\<forall>y < length (fst st). set (fst st ! y) \<subseteq> {..<n}" "row < n"
  shows "length (fst (append_at i row st)) = length (fst st) \<and>
    (\<forall>y < length (fst st). set (fst (append_at i row st) ! y) \<subseteq> {..<n})"
proof -
  obtain iv refs where st: "st = (iv, refs)" by (cases st)
  have "set (iv[i := iv ! i @ [row]] ! y) \<subseteq> {..<n}" if "y < length iv" for y
  proof (cases "i = y")
    case True
    then have "iv[i := iv ! i @ [row]] ! y = iv ! y @ [row]" using that by simp
    then show ?thesis using assms that st by simp
  next
    case False
    then have "iv[i := iv ! i @ [row]] ! y = iv ! y" by simp
    then show ?thesis using assms(1) that st by simp
  qed
  then show ?thesis by (simp add: append_at_def st)
qed

lemma add_interval_loop_bound:
  assumes "add_interval_loop left right row st = Inr st'" "\<forall>y < length (fst st). set (fst st ! y) \<subseteq> {..<n}" "row < n"
  shows "length (fst st') = length (fst st) \<and> (\<forall>y < length (fst st). set (fst st' ! y) \<subseteq> {..<n})"
  using assms(1,2)
proof (induction right arbitrary: left st rule: less_induct)
  case (less right)
  show ?case
  proof (cases "left < right")
    case False
    then show ?thesis using less.prems by (subst (asm) (1) add_interval_loop.simps) auto
  next
    case True
    define st1 where "st1 = (if odd left then append_at left row st else st)"
    define st2 where "st2 = (if odd right then append_at (right - 1) row st1 else st1)"
    define left1 right1 where "left1 = (if odd left then left + 1 else left)"
      and "right1 = (if odd right then right - 1 else right)"
    have rest: "add_interval_loop (left1 div 2) (right1 div 2) row st2 = Inr st'"
      using less.prems(1) True unfolding st2_def right1_def st1_def left1_def
      by (subst (asm) add_interval_loop.simps) (auto simp: Let_def split: if_splits)
    have 1: "length (fst st1) = length (fst st) \<and> (\<forall>y < length (fst st). set (fst st1 ! y) \<subseteq> {..<n})"
      using append_at_bound [OF less.prems(2) assms(3)] less.prems(2) by (simp add: st1_def)
    then have "\<forall>y < length (fst st1). set (fst st1 ! y) \<subseteq> {..<n}" by simp
    from append_at_bound [OF this assms(3)] 1
    have 2: "length (fst st2) = length (fst st) \<and> (\<forall>y < length (fst st). set (fst st2 ! y) \<subseteq> {..<n})"
      by (simp add: st2_def)
    have "right1 div 2 < right" using True by (auto simp: right1_def)
    from less.IH [OF this rest] 2 show ?thesis by simp
  qed
qed

lemma build_intervals_bound:
  assumes "build_intervals leaves batches own rows = Inr (iv, refs)"
  shows "\<forall>y < leaves * 2. set (iv ! y) \<subseteq> {..<length rows}"
proof -
  have add: "length (fst st') = length (fst st) \<and> (\<forall>y < length (fst st). set (fst st' ! y) \<subseteq> {..<n})"
    if "add_interval leaves a b i st = Inr st'" "\<forall>y < length (fst st). set (fst st ! y) \<subseteq> {..<n}" "i < n" for a b i st st' n
    using that add_interval_loop_bound [of "a + leaves" "b + leaves" i st st' n]
    by (auto simp: add_interval_def split: if_splits)
  have step: "length (fst st') = length (fst st) \<and> (\<forall>y < length (fst st). set (fst st' ! y) \<subseteq> {..<n})"
    if "add_row_intervals leaves batches own st (i, row) = Inr st'" "\<forall>y < length (fst st). set (fst st ! y) \<subseteq> {..<n}" "i < n"
    for i row st st' n
  proof (cases "own (cr_event_id row)")
    case None
    then have "add_interval leaves (bisect_right (map (instant \<circ> fst) batches) (instant (cr_available_at row)))
        (length batches) i st = Inr st'" using that(1) by (simp add: add_row_intervals_def Let_def)
    from add [OF this that(2,3)] show ?thesis .
  next
    note run = that(1)
    case (Some b)
    with run obtain st1 where s: "add_interval leaves (bisect_right (map (instant \<circ> fst) batches) (instant (cr_available_at row))) b i st = Inr st1"
      "add_interval leaves (max (bisect_right (map (instant \<circ> fst) batches) (instant (cr_available_at row))) (b + 1))
        (length batches) i st1 = Inr st'"
      by (auto simp: add_row_intervals_def Let_def bindr_Inr)
    note 1 = add [OF s(1) that(2,3)]
    then have "\<forall>y < length (fst st1). set (fst st1 ! y) \<subseteq> {..<n}" by simp
    from add [OF s(2) this that(3)] 1 show ?thesis by simp
  qed
  have "length (fst st') = length (fst st) \<and> (\<forall>y < length (fst st). set (fst st' ! y) \<subseteq> {..<n})"
    if "foldlr (add_row_intervals leaves batches own) st xs = Inr st'"
      "\<forall>y < length (fst st). set (fst st ! y) \<subseteq> {..<n}" "fst ` set xs \<subseteq> {..<n}" for xs st st' n
    using that
  proof (induction xs arbitrary: st)
    case (Cons x xs)
    obtain i row where x: "x = (i, row)" by (cases x)
    from Cons.prems(1) obtain st1 where s: "add_row_intervals leaves batches own st (i, row) = Inr st1"
      "foldlr (add_row_intervals leaves batches own) st1 xs = Inr st'" by (auto simp: bindr_Inr x)
    note 1 = step [OF s(1) Cons.prems(2)]
    have "i < n" using Cons.prems(3) x by simp
    note 1 = 1 [OF this]
    with Cons.IH [OF s(2)] Cons.prems(3) show ?case by simp
  qed auto
  from this [OF assms [unfolded build_intervals_def], of "length rows"]
  have "fst ` set (enumerate 0 rows) \<subseteq> {..<length rows} \<Longrightarrow> ?thesis" by simp
  moreover have "fst ` set (enumerate 0 rows) \<subseteq> {..<length rows}" by (auto simp: in_set_enumerate_eq)
  ultimately show ?thesis by blast
qed

section \<open>The construction\<close>

lemma add_interval_loop_error:
  "add_interval_loop left right row st = Inl e \<Longrightarrow>
    e = CaseContractError ''causal topology exceeds the frozen interval resource cap''"
proof (induction right arbitrary: left st rule: less_induct)
  case (less right)
  show ?case
  proof (cases "left < right")
    case False
    then show ?thesis using less.prems by (subst (asm) add_interval_loop.simps) simp
  next
    case True
    define st1 where "st1 = (if odd left then append_at left row st else st)"
    define st2 where "st2 = (if odd right then append_at (right - 1) row st1 else st1)"
    define left1 right1 where "left1 = (if odd left then left + 1 else left)"
      and "right1 = (if odd right then right - 1 else right)"
    have "add_interval_loop left right row st = (if max_interval_refs < snd st2
        then Inl (CaseContractError ''causal topology exceeds the frozen interval resource cap'')
        else add_interval_loop (left1 div 2) (right1 div 2) row st2)"
      using True unfolding st2_def right1_def st1_def left1_def
      by (subst add_interval_loop.simps) (simp add: Let_def)
    moreover have "right1 div 2 < right" using True by (auto simp: right1_def)
    ultimately show ?thesis using less by (auto split: if_splits)
  qed
qed

abbreviation interval_error :: exn where
  "interval_error \<equiv> CaseContractError ''causal topology exceeds the frozen interval resource cap''"

lemma build_intervals_error:
  assumes "build_intervals leaves batches own rows = Inl e"
  shows "e = interval_error"
proof -
  have one: "add_interval leaves a b i st = Inl e \<Longrightarrow> e = interval_error" for a b i st e
    using add_interval_loop_error by (auto simp: add_interval_def split: if_splits)
  have "add_row_intervals leaves batches own st x = Inl e \<Longrightarrow> e = interval_error" for st x e
    using one by (cases x) (auto simp: add_row_intervals_def Let_def bindr_def split: option.splits sum.splits)
  with foldlr_error [OF assms [unfolded build_intervals_def]] show ?thesis by metis
qed

definition own_batch :: "(datetime \<times> defense_decision) list \<Rightarrow> string \<Rightarrow> nat option" where
  "own_batch ordered = batch_by_id ordered (raw_batches 0 ordered)"

definition seen_rows :: "causal_row list \<Rightarrow> (datetime \<times> defense_decision) list \<Rightarrow> nat \<Rightarrow> nat list" where
  "seen_rows rows ordered b =
     filter (\<lambda>i. visible_batch (raw_batches 0 ordered) (own_batch ordered) b (rows ! i)) [0..<length rows]"

definition built_context :: "causal_row list \<Rightarrow> (datetime \<times> defense_decision) list \<Rightarrow> nat list list \<Rightarrow> tree_context" where
  "built_context rows ordered iv = \<lparr>tc_rows = rows, tc_ordered = ordered, tc_batches = raw_batches 0 ordered,
     tc_nodes = topology_nodes rows, tc_intervals = iv\<rparr>"

theorem build_topology_cases:
  assumes ok: "inputs_ok os ds"
  obtains (failed) e where "build_causal_topology os ds = Inl e" "e = interval_error \<or> e = cap_error"
    | (empty) "ds = []" "build_causal_topology os ds =
        Inr \<lparr>ct_rows = causal_rows os, ct_batches = [], ct_decision_count = 0, ct_uses_bitsets = True\<rparr>"
    | (built) ordered decided iv T where "order_decisions os ds = Inr ordered" "ordered_ok ordered"
        "mset (map snd ordered) = mset ds" "\<forall>(t, d) \<in> set ordered. decision_time os d = Inr t"
        "decision_rows (causal_rows os) ordered = Inr decided"
        "build_causal_topology os ds = Inr T" "ct_rows T = causal_rows os"
        "ct_decision_count T = length ordered" "ct_uses_bitsets T = (length ordered \<le> bitset_limit)"
        "length (ct_batches T) = length (raw_batches 0 ordered)"
        "context_ok (built_context (causal_rows os) ordered iv)"
        "\<forall>b < length (ct_batches T). \<exists>is. mset is = mset (seen_rows (causal_rows os) ordered b) \<and>
           batch_built (built_context (causal_rows os) ordered iv)
             (pos_at (topology_nodes (causal_rows os)) (positions_by_node (topology_nodes (causal_rows os)) decided))
             (ct_uses_bitsets T) (edges_of (built_context (causal_rows os) ordered iv) is) b (ct_batches T ! b)"
proof -
  let ?rows = "causal_rows os"
  note rows = causal_rows_facts [OF ok]
  from ok have d: "distinct (map dd_event_id ds)" "\<forall>d \<in> set ds. \<exists>t. decision_time os d = Inr t" by (simp_all add: inputs_ok_def)
  obtain ordered where o: "order_decisions os ds = Inr ordered" "ordered_ok ordered" "mset (map snd ordered) = mset ds"
    "\<forall>(t, d) \<in> set ordered. decision_time os d = Inr t" by (rule order_decisions_facts [OF d])
  have B: "batched ordered (raw_batches 0 ordered)" using o(2) by (simp add: batched_def)
  have snd: "snd ` set ordered = set ds" using o(3) by (metis set_map set_mset_mset)
  show thesis
  proof (cases "raw_batches 0 ordered = []")
    case True
    then have "[0..<length ordered] = []" using raw_batches_positions [of 0 ordered] by simp
    then have "length ordered = 0" by (metis diff_zero length_upt list.size(3))
    with o(3) have "ds = []" by simp
    then show thesis using o(1) True empty by (simp add: build_causal_topology_def Let_def)
  next
    case False
    let ?batches = "raw_batches 0 ordered" and ?nodes = "topology_nodes ?rows" and ?bits = "length ordered \<le> bitset_limit"
    have ids: "\<forall>x \<in> set ordered. dd_event_id (snd x) \<in> cr_event_id ` set ?rows"
    proof
      fix x assume "x \<in> set ordered"
      then have "snd x \<in> set ds" unfolding snd [symmetric] by simp
      with rows(4) show "dd_event_id (snd x) \<in> cr_event_id ` set ?rows" by blast
    qed
    obtain decided where dec: "decision_rows ?rows ordered = Inr decided" by (rule decision_rows_facts [OF rows(1) ids])
    obtain m where m: "leaf_count (length ?batches) = 2 ^ m" "length ?batches \<le> 2 ^ m" using leaf_count_power by blast
    show thesis
    proof (cases "build_intervals (2 ^ m) ?batches (batch_by_id ordered ?batches) ?rows")
      case (Inl e)
      have "build_causal_topology os ds = Inl e"
        by (simp add: build_causal_topology_def Let_def o(1) False dec m(1) Inl)
      with failed build_intervals_error [OF Inl] show thesis by blast
    next
      case (Inr st)
      then obtain iv refs where iv: "build_intervals (2 ^ m) ?batches (batch_by_id ordered ?batches) ?rows = Inr (iv, refs)"
        by (cases st) simp
      let ?X = "built_context ?rows ordered iv"
      let ?pos = "pos_at ?nodes (positions_by_node ?nodes decided)"
      let ?s = "\<lparr>ts_dsu = new_dsu ?nodes (positions_by_node ?nodes decided) ?bits, ts_budget = 0,
                 ts_built = replicate (length ?batches) None\<rparr>"
      have X: "context_ok ?X"
        using rows ids topology_nodes_facts [of ?rows] batch_time(1) [OF B]
        by (auto simp: context_ok_def built_context_def in_set_conv_nth [of _ ?batches])
      have path: "path_rows iv (2 ^ m + b) = mset (seen_rows ?rows ordered b)" if "b < length ?batches" for b
        unfolding seen_rows_def own_batch_def
        by (rule build_intervals_path [OF iv batched_times(3) [OF B] m(2) that]) (simp add: batch_by_id_Some [OF B])
      have bound: "\<forall>y < 2 * 2 ^ m. set (tc_intervals ?X ! y) \<subseteq> {..<length (tc_rows ?X)}"
        using build_intervals_bound [OF iv] by (simp add: built_context_def mult.commute)
      have "dsu_ok (tc_nodes ?X) ?pos ?bits (edges_of ?X []) (\<lambda>v. v) (ts_dsu ?s)"
        using dsu_ok_new [OF positions_distinct] by (simp add: built_context_def edges_of_def)
      from visit_cases [OF X bound _ _ _ this, of 0 1 m]
      have visit: "visit ?X 1 0 (2 ^ m) ?s = Inl cap_error \<or>
          (\<exists>s'. visit ?X 1 0 (2 ^ m) ?s = Inr s' \<and> visited ?X ?pos ?bits (2 ^ m) 0 (2 ^ m) ?s s')"
        by (simp add: built_context_def)
      have run: "build_causal_topology os ds = bindr (visit ?X 1 0 (2 ^ m) ?s) (\<lambda>s'.
          bindr (mapr (\<lambda>b. case b of None \<Rightarrow> Inl (TypeError ''batch'') | Some batch \<Rightarrow> Inr batch) (ts_built s')) (\<lambda>built.
          Inr \<lparr>ct_rows = ?rows, ct_batches = built, ct_decision_count = length ordered, ct_uses_bitsets = ?bits\<rparr>))"
        by (simp add: build_causal_topology_def Let_def o(1) False dec m(1) iv built_context_def)
      from visit show thesis
      proof
        assume "visit ?X 1 0 (2 ^ m) ?s = Inl cap_error"
        then have "build_causal_topology os ds = Inl cap_error" by (simp add: run)
        with failed show thesis by blast
      next
        assume "\<exists>s'. visit ?X 1 0 (2 ^ m) ?s = Inr s' \<and> visited ?X ?pos ?bits (2 ^ m) 0 (2 ^ m) ?s s'"
        then obtain s' where s': "visit ?X 1 0 (2 ^ m) ?s = Inr s'" "visited ?X ?pos ?bits (2 ^ m) 0 (2 ^ m) ?s s'" by blast
        have tcb: "tc_batches ?X = ?batches" "tc_intervals ?X = iv" by (simp_all add: built_context_def)
        have len: "length (ts_built s') = length ?batches" using s'(2) by (simp add: visited_def)
        have each: "built_from ?X ?pos ?bits (2 ^ m) b (ts_built s' ! b)" if "b < length ?batches" for b
          using s'(2) that m(2) by (simp add: visited_def tcb)
        let ?f = "\<lambda>b. case b of None \<Rightarrow> Inl (TypeError ''batch'') | Some batch \<Rightarrow> Inr batch"
        have "\<forall>x \<in> set (ts_built s'). \<exists>y. ?f x = Inr y"
          using each len by (fastforce simp: in_set_conv_nth built_from_def)
        then obtain bs where bs: "mapr ?f (ts_built s') = Inr bs" using mapr_total by blast
        have bsn: "length bs = length ?batches" "b < length ?batches \<Longrightarrow> ts_built s' ! b = Some (bs ! b)" for b
          using mapr_nth(1) [OF bs] mapr_nth(2) [OF bs, of b] len by (auto split: option.splits)
        let ?T = "\<lparr>ct_rows = ?rows, ct_batches = bs, ct_decision_count = length ordered, ct_uses_bitsets = ?bits\<rparr>"
        have T: "build_causal_topology os ds = Inr ?T" unfolding run s'(1) by (simp add: bs)
        have "\<forall>b < length (ct_batches ?T). \<exists>is. mset is = mset (seen_rows ?rows ordered b) \<and>
            batch_built ?X ?pos (ct_uses_bitsets ?T) (edges_of ?X is) b (ct_batches ?T ! b)"
        proof (intro allI impI)
          fix b assume "b < length (ct_batches ?T)"
          then have b: "b < length ?batches" using bsn(1) by simp
          from each [OF b] bsn(2) [OF b] path [OF b]
          show "\<exists>is. mset is = mset (seen_rows ?rows ordered b) \<and>
            batch_built ?X ?pos (ct_uses_bitsets ?T) (edges_of ?X is) b (ct_batches ?T ! b)"
            by (auto simp: built_from_def tcb)
        qed
        from built [OF o dec T _ _ _ _ X this] bsn(1) show thesis by simp
      qed
    qed
  qed
qed

end
