(* ===== verification/TopologyClusters.thy ===== *)
theory TopologyClusters
  imports TopologyBuild
begin

text \<open>
  The topology in terms of names: a cluster is what the rows connect to a node, and a component of an alert
  describes the cluster of one of its nodes.
\<close>

section \<open>Clusters\<close>

definition row_links :: "causal_row set \<Rightarrow> (string \<times> string) set" where
  "row_links V = {(a, c). \<exists>row \<in> V. a = cr_actor_node row \<and> c = cr_counterparty_node row \<or>
     c = cr_actor_node row \<and> a = cr_counterparty_node row}"

definition cluster :: "causal_row set \<Rightarrow> string \<Rightarrow> string set" where
  "cluster V node = {m. (node, m) \<in> (row_links V)\<^sup>*}"

definition alert_row :: "causal_topology \<Rightarrow> causal_alert \<Rightarrow> causal_row" where
  "alert_row T a = ct_rows T ! al_row_position a"

text \<open>The rows an alert of a batch sees: available strictly before its decision, and not decided with it.\<close>

definition seen_by :: "causal_topology \<Rightarrow> causal_batch \<Rightarrow> causal_row set" where
  "seen_by T batch = {row \<in> set (ct_rows T). instant (cr_available_at row) < instant (cb_decision_at batch) \<and>
     cr_event_id row \<notin> al_event_id ` set (cb_alerts batch)}"

definition earlier_alerts :: "causal_topology \<Rightarrow> causal_batch \<Rightarrow> causal_alert set" where
  "earlier_alerts T batch = {a. \<exists>b \<in> set (ct_batches T). instant (cb_decision_at b) < instant (cb_decision_at batch) \<and>
     a \<in> set (cb_alerts b)}"

definition row_nodes :: "causal_row \<Rightarrow> string set" where
  "row_nodes row = {cr_actor_node row, cr_counterparty_node row}"

text \<open>A component describes a cluster \<open>K\<close>: its least node, its size, the earlier alerts that touch it, and the
  first identifier, the latest evidence and the total of its rows.\<close>

definition describes :: "causal_topology \<Rightarrow> causal_batch \<Rightarrow> string set \<Rightarrow> component \<Rightarrow> bool" where
  "describes T batch K c \<longleftrightarrow>
     (let rows = {row \<in> seen_by T batch. cr_actor_node row \<in> K} in
     cm_root c = Min K \<and> cm_entity_count c = int (card K) \<and>
     member_positions (cm_members c) =
       al_decision_position ` {a \<in> earlier_alerts T batch. row_nodes (alert_row T a) \<inter> K \<noteq> {}} \<and>
     cm_first_event_id c = (if rows = {} then None else Some (Min (cr_event_id ` rows))) \<and>
     (case cm_latest_evidence c of
        None \<Rightarrow> rows = {}
      | Some ev \<Rightarrow> ev \<in> row_evidence ` rows \<and> (\<forall>row \<in> rows. \<not> evidence_less ev (row_evidence row))) \<and>
     dfinite (cm_total_value c) \<and> 0 \<le> dsig (cm_total_value c) \<and>
     (\<forall>e. exact_rows e (ct_rows T) \<longrightarrow> e \<le> dexp (cm_total_value c) \<and>
       units e (cm_total_value c) = (\<Sum>row \<in> rows. units e (cr_amount row))))"

lemma linked_cluster:
  assumes nodes: "distinct nodes" and es: "\<forall>(u, v, row) \<in> set es. u < length nodes \<and> v < length nodes \<and>
      nodes ! u = cr_actor_node row \<and> nodes ! v = cr_counterparty_node row" and v: "v < length nodes"
  defines "V \<equiv> (\<lambda>(_, _, row). row) ` set es"
  shows "(!) nodes ` comp_of (length nodes) es v = cluster V (nodes ! v)"
proof
  show "(!) nodes ` comp_of (length nodes) es v \<subseteq> cluster V (nodes ! v)"
  proof (clarify)
    fix u assume "u \<in> comp_of (length nodes) es v"
    then have "linked es v u" by (auto simp: comp_of_def dest: linked_sym)
    then have "(v, u) \<in> (edge_rel es)\<^sup>*" by (simp add: linked_def)
    then have "(nodes ! v, nodes ! u) \<in> (row_links V)\<^sup>*"
    proof (induction rule: rtrancl_induct)
      case (step b c)
      have "(nodes ! b, nodes ! c) \<in> row_links V"
        using step(2) es unfolding edge_rel_def row_links_def V_def by force
      with step show ?case by simp
    qed simp
    then show "nodes ! u \<in> cluster V (nodes ! v)" by (simp add: cluster_def)
  qed
  show "cluster V (nodes ! v) \<subseteq> (!) nodes ` comp_of (length nodes) es v"
  proof
    fix m assume "m \<in> cluster V (nodes ! v)"
    then have "(nodes ! v, m) \<in> (row_links V)\<^sup>*" by (simp add: cluster_def)
    then have "\<exists>u < length nodes. nodes ! u = m \<and> linked es v u"
    proof (induction rule: rtrancl_induct)
      case base
      then show ?case using v by auto
    next
      case (step b c)
      then obtain u where u: "u < length nodes" "nodes ! u = b" "linked es v u" by blast
      from step(2) obtain x y row where r: "(x, y, row) \<in> set es"
        "b = cr_actor_node row \<and> c = cr_counterparty_node row \<or> c = cr_actor_node row \<and> b = cr_counterparty_node row"
        by (auto simp: row_links_def V_def)
      with es have xy: "x < length nodes" "y < length nodes" "nodes ! x = cr_actor_node row" "nodes ! y = cr_counterparty_node row"
        by auto
      have "linked es x y" using linked_edge [OF r(1)] .
      moreover have "u = x \<and> c = nodes ! y \<or> u = y \<and> c = nodes ! x"
        using r(2) xy u nodes by (metis nth_eq_iff_index_eq)
      ultimately show ?case using u xy by (metis linked_sym linked_trans)
    qed
    then show "m \<in> (!) nodes ` comp_of (length nodes) es v" by (auto simp: comp_of_def dest: linked_sym)
  qed
qed

section \<open>A built topology\<close>

text \<open>What the alerts of a batch are, before components are considered.\<close>

lemma alert_positions:
  assumes "batch_built X pos bits es b batch"
  shows "al_decision_position ` set (cb_alerts batch) = set (snd (tc_batches X ! b))"
    "al_event_id ` set (cb_alerts batch) = (\<lambda>p. dd_event_id (snd (tc_ordered X ! p))) ` set (snd (tc_batches X ! b))"
    "a \<in> set (cb_alerts batch) \<Longrightarrow> al_decision_position a \<in> set (snd (tc_batches X ! b)) \<and>
       alert_ok X pos bits es (hd (snd (tc_batches X ! b))) (al_decision_position a) a"
proof -
  let ?ps = "snd (tc_batches X ! b)"
  have l: "list_all2 (alert_ok X pos bits es (hd ?ps)) ?ps (cb_alerts batch)" using assms by (simp add: batch_built_def)
  have "al_decision_position ` set (cb_alerts batch) = set ps \<and>
      al_event_id ` set (cb_alerts batch) = (\<lambda>p. dd_event_id (snd (tc_ordered X ! p))) ` set ps \<and>
      (\<forall>a \<in> set (cb_alerts batch). al_decision_position a \<in> set ps \<and> alert_ok X pos bits es h (al_decision_position a) a)"
    if "list_all2 (alert_ok X pos bits es h) ps (cb_alerts batch)" for h ps
    using that by (induction rule: list_all2_induct) (auto simp: alert_ok_def Let_def)
  from this [OF l] show "al_decision_position ` set (cb_alerts batch) = set ?ps"
    "al_event_id ` set (cb_alerts batch) = (\<lambda>p. dd_event_id (snd (tc_ordered X ! p))) ` set ?ps"
    "a \<in> set (cb_alerts batch) \<Longrightarrow> al_decision_position a \<in> set ?ps \<and>
       alert_ok X pos bits es (hd ?ps) (al_decision_position a) a" by blast+
qed

lemma context_cluster:
  assumes X: "context_ok X" "tc_rows X = ct_rows T" and es: "es = edges_of X is" "set is \<subseteq> {..<length (ct_rows T)}"
    and seen: "(!) (ct_rows T) ` set is = seen_by T batch"
  shows "\<forall>(u, w, row) \<in> set es. u < length (tc_nodes X) \<and> w < length (tc_nodes X) \<and>
      tc_nodes X ! u = cr_actor_node row \<and> tc_nodes X ! w = cr_counterparty_node row \<and> row \<in> seen_by T batch"
    and "(\<lambda>(_, _, row). row) ` set es = seen_by T batch"
    and "node \<in> set (tc_nodes X) \<Longrightarrow>
      (!) (tc_nodes X) ` comp_of (length (tc_nodes X)) es (pos_of X node) = cluster (seen_by T batch) node"
proof -
  have edge: "u < length (tc_nodes X) \<and> w < length (tc_nodes X) \<and> tc_nodes X ! u = cr_actor_node row \<and>
      tc_nodes X ! w = cr_counterparty_node row \<and> row \<in> seen_by T batch" if uw: "(u, w, row) \<in> set es" for u w row
  proof -
    from uw es obtain i where i: "i \<in> set is" "row = tc_rows X ! i" "u = pos_of X (cr_actor_node row)"
      "w = pos_of X (cr_counterparty_node row)" by (auto simp: edges_of_def Let_def)
    then have "row \<in> set (tc_rows X)" using es(2) X(2) by auto
    then have "cr_actor_node row \<in> set (tc_nodes X)" "cr_counterparty_node row \<in> set (tc_nodes X)"
      using X(1) by (auto simp: context_ok_def)
    moreover have "row \<in> seen_by T batch" using i seen X(2) by auto
    ultimately show ?thesis using node_position_ok [OF X(1)] i by simp
  qed
  then show "\<forall>(u, w, row) \<in> set es. u < length (tc_nodes X) \<and> w < length (tc_nodes X) \<and>
      tc_nodes X ! u = cr_actor_node row \<and> tc_nodes X ! w = cr_counterparty_node row \<and> row \<in> seen_by T batch" by blast
  show V: "(\<lambda>(_, _, row). row) ` set es = seen_by T batch"
    using seen X(2) by (auto simp: es(1) edges_of_def Let_def image_image)
  assume "node \<in> set (tc_nodes X)"
  note v = node_position_ok [OF X(1) this]
  have "(!) (tc_nodes X) ` comp_of (length (tc_nodes X)) es (pos_of X node) =
      cluster ((\<lambda>(_, _, row). row) ` set es) (tc_nodes X ! pos_of X node)"
    by (rule linked_cluster) (use X edge v in \<open>auto simp: context_ok_def\<close>)
  then show "(!) (tc_nodes X) ` comp_of (length (tc_nodes X)) es (pos_of X node) = cluster (seen_by T batch) node"
    using V v by simp
qed

lemma component_describes:
  assumes X: "context_ok X" "tc_rows X = ct_rows T" and es: "es = edges_of X is" "set is \<subseteq> {..<length (ct_rows T)}" "distinct is"
    and c: "component_of (tc_nodes X) pos bits es limit (pos_of X node) c" and node: "node \<in> set (tc_nodes X)"
    and seen: "(!) (ct_rows T) ` set is = seen_by T batch"
    and members: "\<And>v. v < length (tc_nodes X) \<Longrightarrow> {p \<in> pos v. p < limit} =
      al_decision_position ` {a \<in> earlier_alerts T batch. tc_nodes X ! v \<in> row_nodes (alert_row T a)}"
  shows "describes T batch (cluster (seen_by T batch) node) c"
proof -
  let ?n = "length (tc_nodes X)" and ?v = "pos_of X node"
  let ?K = "comp_of ?n es ?v" and ?C = "cluster (seen_by T batch) node"
  note v = node_position_ok [OF X(1) node]
  note ctx = context_cluster [OF X es(1,2) seen]
  have edge: "u < ?n \<and> w < ?n \<and> tc_nodes X ! u = cr_actor_node row \<and> tc_nodes X ! w = cr_counterparty_node row \<and>
      row \<in> seen_by T batch" if "(u, w, row) \<in> set es" for u w row
    using ctx(1) [rule_format, OF that] by simp
  note rows_V = ctx(2) and K = ctx(3) [OF node]
  have inj: "inj_on ((!) (tc_nodes X)) ?K"
    using X(1) by (auto simp: inj_on_def comp_of_def context_ok_def nth_eq_iff_index_eq)
  have in_K: "u \<in> ?K \<longleftrightarrow> tc_nodes X ! u \<in> ?C" if "u < ?n" for u
  proof -
    have "u \<in> ?K" if "tc_nodes X ! u \<in> (!) (tc_nodes X) ` ?K"
    proof -
      from that obtain w where "w \<in> ?K" "tc_nodes X ! u = tc_nodes X ! w" by auto
      then show ?thesis using X(1) \<open>u < ?n\<close> by (auto simp: comp_of_def context_ok_def nth_eq_iff_index_eq)
    qed
    then show ?thesis unfolding K [symmetric] by blast
  qed
  define rows where "rows = {row \<in> seen_by T batch. cr_actor_node row \<in> ?C}"
  have rows: "set (rows_in es ?K) = rows"
  proof -
    have "(\<exists>u w. (u, w, row) \<in> set es \<and> u \<in> ?K) \<longleftrightarrow> row \<in> rows" for row
    proof
      assume "\<exists>u w. (u, w, row) \<in> set es \<and> u \<in> ?K"
      then show "row \<in> rows" using edge in_K unfolding rows_def by fastforce
    next
      assume r: "row \<in> rows"
      then obtain u w where uw: "(u, w, row) \<in> set es" unfolding rows_def rows_V [symmetric] by auto
      with edge [OF uw] in_K [of u] r show "\<exists>u w. (u, w, row) \<in> set es \<and> u \<in> ?K" unfolding rows_def by auto
    qed
    then show ?thesis by (auto simp: set_rows_in)
  qed
  have dist_es: "distinct (map (\<lambda>(_, _, row). row) es)"
  proof -
    have "map (\<lambda>(_, _, row). row) es = map ((!) (ct_rows T)) is" by (simp add: es(1) edges_of_def Let_def X(2))
    moreover have "distinct (ct_rows T)" using X by (auto simp: context_ok_def distinct_map)
    moreover have "inj_on ((!) (ct_rows T)) (set is)"
      using \<open>distinct (ct_rows T)\<close> es(2) by (auto simp: inj_on_def nth_eq_iff_index_eq subset_iff)
    ultimately show ?thesis using es(3) by (simp add: distinct_map)
  qed
  then have dist: "distinct (rows_in es ?K)" by (auto simp: rows_in_def intro: distinct_map_filter)
  have sum: "(\<Sum>row \<leftarrow> rows_in es ?K. units e (cr_amount row)) = (\<Sum>row \<in> rows. units e (cr_amount row))" for e
    by (simp add: sum_list_distinct_conv_sum_set [OF dist] rows)
  have exact: "exact_rows e (map (\<lambda>(_, _, row). row) es)" if "exact_rows e (ct_rows T)" for e
  proof -
    have dT: "distinct (ct_rows T)" using X by (auto simp: context_ok_def distinct_map)
    have sub: "set (map (\<lambda>(_, _, row). row) es) \<subseteq> set (ct_rows T)" using rows_V by (auto simp: seen_by_def)
    have "(\<Sum>row \<leftarrow> map (\<lambda>(_, _, row). row) es. units e (cr_amount row)) = (\<Sum>row \<in> set (map (\<lambda>(_, _, row). row) es). units e (cr_amount row))"
      by (rule sum_list_distinct_conv_sum_set [OF dist_es])
    also have "\<dots> \<le> (\<Sum>row \<in> set (ct_rows T). units e (cr_amount row))"
      using sub X by (intro sum_mono2) (auto simp: context_ok_def units_sign)
    also have "\<dots> = (\<Sum>row \<leftarrow> ct_rows T. units e (cr_amount row))"
      by (rule sum_list_distinct_conv_sum_set [OF dT, symmetric])
    finally show ?thesis using that sub by (auto simp: exact_rows_def)
  qed
  have mem: "{p \<in> \<Union> (pos ` ?K). p < limit} =
      al_decision_position ` {a \<in> earlier_alerts T batch. row_nodes (alert_row T a) \<inter> ?C \<noteq> {}}"
  proof -
    have "{p \<in> \<Union> (pos ` ?K). p < limit} = (\<Union>u \<in> ?K. {p \<in> pos u. p < limit})" by auto
    also have "\<dots> = (\<Union>u \<in> ?K. al_decision_position ` {a \<in> earlier_alerts T batch. tc_nodes X ! u \<in> row_nodes (alert_row T a)})"
      by (intro SUP_cong refl members) (simp add: comp_of_def)
    also have "\<dots> = al_decision_position ` {a \<in> earlier_alerts T batch. row_nodes (alert_row T a) \<inter> (!) (tc_nodes X) ` ?K \<noteq> {}}"
      by blast
    finally show ?thesis by (simp add: K)
  qed
  note comp = c [unfolded component_of_def Let_def]
  have empty: "rows_in es ?K = [] \<longleftrightarrow> rows = {}" unfolding rows [symmetric] by simp
  have "cm_root c = Min ?C" "cm_entity_count c = int (card ?C)" using comp card_image [OF inj] by (simp_all add: K)
  moreover have "member_positions (cm_members c) = al_decision_position ` {a \<in> earlier_alerts T batch. row_nodes (alert_row T a) \<inter> ?C \<noteq> {}}"
    using comp mem by simp
  moreover have "cm_first_event_id c = (if rows = {} then None else Some (Min (cr_event_id ` rows)))"
    using comp empty by (simp add: least_id_def rows)
  moreover have "case cm_latest_evidence c of None \<Rightarrow> rows = {}
      | Some ev \<Rightarrow> ev \<in> row_evidence ` rows \<and> (\<forall>row \<in> rows. \<not> evidence_less ev (row_evidence row))"
    using comp empty by (cases "cm_latest_evidence c") (simp_all add: latest_of_def rows)
  moreover have "dfinite (cm_total_value c) \<and> 0 \<le> dsig (cm_total_value c) \<and>
     (\<forall>e. exact_rows e (ct_rows T) \<longrightarrow> e \<le> dexp (cm_total_value c) \<and>
       units e (cm_total_value c) = (\<Sum>row \<in> rows. units e (cr_amount row)))"
    using comp exact by (simp add: total_of_def sum)
  ultimately show ?thesis unfolding describes_def Let_def rows_def by blast
qed

definition component_pair :: "causal_topology \<Rightarrow> causal_batch \<Rightarrow> causal_alert \<Rightarrow> bool" where
  "component_pair T batch a \<longleftrightarrow>
     (let V = seen_by T batch; K = cluster V (cr_actor_node (alert_row T a)); L = cluster V (cr_counterparty_node (alert_row T a)) in
     \<exists>c c'. describes T batch K c \<and> describes T batch L c' \<and>
       al_components a = (if K = L then [c] else sort_key cm_root [c, c']) \<and> (K \<noteq> L \<longrightarrow> cm_root c \<noteq> cm_root c'))"

lemma cluster_self: "node \<in> cluster V node"
  by (simp add: cluster_def)

theorem topology_components:
  assumes inputs: "inputs_ok os ds" and run: "build_causal_topology os ds = Inr T"
    and batch: "batch \<in> set (ct_batches T)" and a: "a \<in> set (cb_alerts batch)"
  shows "al_row_position a < length (ct_rows T) \<and> cr_event_id (alert_row T a) = al_event_id a \<and> component_pair T batch a"
  using inputs
proof (cases rule: build_topology_cases)
  case (built ordered decided iv T')
  have T: "T' = T" using built(6) run by simp
  note built = built [unfolded T]
  let ?rows = "causal_rows os" and ?batches = "raw_batches 0 ordered"
  let ?nodes = "topology_nodes ?rows" and ?X = "built_context (causal_rows os) ordered iv"
  let ?pos = "pos_at ?nodes (positions_by_node ?nodes decided)"
  note rows = causal_rows_facts [OF inputs]
  have X: "tc_rows ?X = ?rows" "tc_ordered ?X = ordered" "tc_batches ?X = ?batches" "tc_nodes ?X = ?nodes"
    by (simp_all add: built_context_def)
  have B: "batched ordered ?batches" using built(2) by (simp add: batched_def)
  have "snd ` set ordered = set ds" using built(3) by (metis set_map set_mset_mset)
  then have ids: "\<forall>x \<in> set ordered. dd_event_id (snd x) \<in> cr_event_id ` set ?rows" using rows(4) by auto
  obtain decided' where "decision_rows ?rows ordered = Inr decided'" "length decided' = length ordered"
    "\<forall>p < length ordered. decided' ! p \<in> set ?rows \<and> cr_event_id (decided' ! p) = dd_event_id (snd (ordered ! p))"
    by (rule decision_rows_facts [OF rows(1) ids])
  with built(5) have dec: "length decided = length ordered"
    "\<forall>p < length ordered. decided ! p \<in> set ?rows \<and> cr_event_id (decided ! p) = dd_event_id (snd (ordered ! p))" by auto
  have each: "\<exists>is. mset is = mset (seen_rows ?rows ordered b) \<and>
      batch_built ?X ?pos (ct_uses_bitsets T) (edges_of ?X is) b (ct_batches T ! b)" if "b < length ?batches" for b
    using built(12) that built(10) by simp
  have time: "cb_decision_at (ct_batches T ! b) = fst (?batches ! b)"
    and aposs: "al_decision_position ` set (cb_alerts (ct_batches T ! b)) = set (snd (?batches ! b))"
    and aids: "al_event_id ` set (cb_alerts (ct_batches T ! b)) = (\<lambda>p. dd_event_id (snd (ordered ! p))) ` set (snd (?batches ! b))"
    and arow: "a' \<in> set (cb_alerts (ct_batches T ! b)) \<Longrightarrow> al_decision_position a' \<in> set (snd (?batches ! b)) \<and>
      al_row_position a' < length ?rows \<and> alert_row T a' = decided ! al_decision_position a' \<and>
      cr_event_id (alert_row T a') = al_event_id a'"
    if b: "b < length ?batches" for b a'
  proof -
    from each [OF b] obtain "is" where bb: "batch_built ?X ?pos (ct_uses_bitsets T) (edges_of ?X is) b (ct_batches T ! b)" by blast
    note p = alert_positions [OF bb, unfolded X]
    show "cb_decision_at (ct_batches T ! b) = fst (?batches ! b)" using bb by (simp add: batch_built_def X)
    show "al_decision_position ` set (cb_alerts (ct_batches T ! b)) = set (snd (?batches ! b))"
      "al_event_id ` set (cb_alerts (ct_batches T ! b)) = (\<lambda>p. dd_event_id (snd (ordered ! p))) ` set (snd (?batches ! b))"
      using p(1,2) .
    assume a': "a' \<in> set (cb_alerts (ct_batches T ! b))"
    let ?p = "al_decision_position a'"
    have ok: "?p \<in> set (snd (?batches ! b))" "al_row_position a' < length ?rows"
      "cr_event_id (alert_row T a') = dd_event_id (snd (ordered ! ?p))" "al_event_id a' = dd_event_id (snd (ordered ! ?p))"
      using p(3) [OF a'] built(7) by (auto simp: alert_ok_def Let_def X alert_row_def)
    have pl: "?p < length ordered" using batch_time(1) [OF B b ok(1)] .
    have "alert_row T a' \<in> set ?rows" using ok(2) built(7) by (simp add: alert_row_def)
    moreover have "decided ! ?p \<in> set ?rows" "cr_event_id (decided ! ?p) = cr_event_id (alert_row T a')"
      using dec(2) pl ok(3) by auto
    ultimately have "alert_row T a' = decided ! ?p" using rows(1) by (metis distinct_map inj_onD)
    with ok show "?p \<in> set (snd (?batches ! b)) \<and> al_row_position a' < length ?rows \<and> alert_row T a' = decided ! ?p \<and>
      cr_event_id (alert_row T a') = al_event_id a'" by simp
  qed
  from batch obtain b where b: "b < length ?batches" "batch = ct_batches T ! b"
    using built(10) by (auto simp: in_set_conv_nth)
  note row = arow [OF b(1) a [unfolded b(2)], unfolded built(7) [symmetric]]
  from each [OF b(1)] obtain "is" where its: "mset is = mset (seen_rows ?rows ordered b)"
    "batch_built ?X ?pos (ct_uses_bitsets T) (edges_of ?X is) b batch" using b(2) by blast
  have set_is: "set is = set (seen_rows ?rows ordered b)" using its(1) by (metis set_mset_mset)
  have "distinct (seen_rows ?rows ordered b)" by (simp add: seen_rows_def)
  then have "distinct is" using its(1) by (metis mset_eq_imp_distinct_iff)
  moreover have "set is \<subseteq> {..<length (ct_rows T)}" by (auto simp: set_is built(7) seen_rows_def)
  ultimately have is_ok: "set is \<subseteq> {..<length (ct_rows T)}" "distinct is" by simp_all
  have seen: "(!) (ct_rows T) ` set is = seen_by T batch"
  proof -
    have own: "own_batch ordered (cr_event_id row) = Some b \<longleftrightarrow> cr_event_id row \<in> al_event_id ` set (cb_alerts batch)" for row
      unfolding own_batch_def batch_by_id_Some [OF B] b(2) aids [OF b(1)] image_iff using b(1) by (auto simp: eq_commute)
    show ?thesis
      using built(7) b(2) time [OF b(1)] own
      by (auto simp: set_is seen_rows_def seen_by_def visible_batch_def image_iff in_set_conv_nth)
  qed
  have members: "{p \<in> ?pos v. p < hd (snd (?batches ! b))} =
      al_decision_position ` {a' \<in> earlier_alerts T batch. ?nodes ! v \<in> row_nodes (alert_row T a')}" if v: "v < length ?nodes" for v
  proof -
    have pos: "p \<in> ?pos v \<longleftrightarrow> p < length ordered \<and> ?nodes ! v \<in> row_nodes (decided ! p)" for p
      using pos_at_nodes [OF v] dec(1) by (auto simp: row_nodes_def)
    show ?thesis
    proof (intro set_eqI iffI)
      fix p assume "p \<in> {p \<in> ?pos v. p < hd (snd (?batches ! b))}"
      then have p: "p < length ordered" "?nodes ! v \<in> row_nodes (decided ! p)"
        "time_of ordered p < instant (fst (?batches ! b))" using pos before_batch [OF B b(1)] by auto
      obtain b' where b': "b' < length ?batches" "p \<in> set (snd (?batches ! b'))" using batch_of_position [OF B p(1)] by blast
      have "p \<in> al_decision_position ` set (cb_alerts (ct_batches T ! b'))" using b' aposs by simp
      then obtain a' where a': "a' \<in> set (cb_alerts (ct_batches T ! b'))" "al_decision_position a' = p" by auto
      have "instant (cb_decision_at (ct_batches T ! b')) < instant (cb_decision_at batch)"
        using p(3) batch_time(2) [OF B b'] time b b' by simp
      moreover have "ct_batches T ! b' \<in> set (ct_batches T)" using b' built(10) by simp
      ultimately have "a' \<in> earlier_alerts T batch" using a'(1) by (auto simp: earlier_alerts_def)
      moreover have "?nodes ! v \<in> row_nodes (alert_row T a')" using arow [OF b'(1) a'(1)] a'(2) p(2) by simp
      ultimately show "p \<in> al_decision_position ` {a' \<in> earlier_alerts T batch. ?nodes ! v \<in> row_nodes (alert_row T a')}"
        using a'(2) by blast
    next
      fix p assume "p \<in> al_decision_position ` {a' \<in> earlier_alerts T batch. ?nodes ! v \<in> row_nodes (alert_row T a')}"
      then obtain a' where a': "a' \<in> earlier_alerts T batch" "?nodes ! v \<in> row_nodes (alert_row T a')" "p = al_decision_position a'" by auto
      then obtain bt where bt: "bt \<in> set (ct_batches T)" "instant (cb_decision_at bt) < instant (cb_decision_at batch)"
        "a' \<in> set (cb_alerts bt)" unfolding earlier_alerts_def by blast
      obtain b' where b'1: "b' < length (ct_batches T)" "ct_batches T ! b' = bt" using bt(1) unfolding in_set_conv_nth by blast
      have b': "b' < length ?batches" "instant (cb_decision_at (ct_batches T ! b')) < instant (cb_decision_at batch)"
        "a' \<in> set (cb_alerts (ct_batches T ! b'))" using bt b'1 built(10) by simp_all
      note r = arow [OF b'(1,3)]
      have "p < length ordered" "time_of ordered p < instant (fst (?batches ! b))"
        using batch_time [OF B b'(1)] r a'(3) b'(2) time b b' by auto
      then show "p \<in> {p \<in> ?pos v. p < hd (snd (?batches ! b))}"
        using pos r a' before_batch [OF B b(1)] by simp
    qed
  qed
  have arin: "alert_row T a \<in> set ?rows" unfolding alert_row_def built(7) by (rule nth_mem) (use row built(7) in simp)
  have nodes: "cr_actor_node (alert_row T a) \<in> set ?nodes" "cr_counterparty_node (alert_row T a) \<in> set ?nodes"
    unfolding topology_nodes_facts(2) using arin by simp_all
  have XT: "tc_rows ?X = ct_rows T" using X built(7) by simp
  have membersX: "{p \<in> ?pos v. p < hd (snd (?batches ! b))} =
      al_decision_position ` {a' \<in> earlier_alerts T batch. tc_nodes ?X ! v \<in> row_nodes (alert_row T a')}"
    if "v < length (tc_nodes ?X)" for v
    unfolding X by (rule members) (use that in \<open>simp only: X\<close>)
  note desc = component_describes [OF built(11) XT refl is_ok _ _ seen membersX, unfolded X]
  let ?u = "pos_of ?X (cr_actor_node (alert_row T a))" and ?v = "pos_of ?X (cr_counterparty_node (alert_row T a))"
  have "alert_ok ?X ?pos (ct_uses_bitsets T) (edges_of ?X is) (hd (snd (?batches ! b))) (al_decision_position a) a"
    using alert_positions(3) [OF its(2) a] by (simp add: X)
  then obtain c c' where c: "component_of ?nodes ?pos (ct_uses_bitsets T) (edges_of ?X is) (hd (snd (?batches ! b))) ?u c"
    "component_of ?nodes ?pos (ct_uses_bitsets T) (edges_of ?X is) (hd (snd (?batches ! b))) ?v c'"
    "al_components a = (if linked (edges_of ?X is) ?u ?v then [c] else sort_key cm_root [c, c'])"
    "\<not> linked (edges_of ?X is) ?u ?v \<longrightarrow> cm_root c \<noteq> cm_root c'"
    using built(7) unfolding alert_ok_def Let_def X alert_row_def by auto
  let ?K = "cluster (seen_by T batch) (cr_actor_node (alert_row T a))"
  let ?L = "cluster (seen_by T batch) (cr_counterparty_node (alert_row T a))"
  have K: "describes T batch ?K c" by (rule desc [OF c(1) nodes(1)])
  have L: "describes T batch ?L c'" by (rule desc [OF c(2) nodes(2)])
  note ctx = context_cluster(3) [OF built(11) XT refl is_ok(1) seen, unfolded X]
  note pu = node_position_ok [OF built(11), unfolded X, OF nodes(1)]
    and pv = node_position_ok [OF built(11), unfolded X, OF nodes(2)]
  have same: "linked (edges_of ?X is) ?u ?v \<longleftrightarrow> ?K = ?L"
  proof
    assume "linked (edges_of ?X is) ?u ?v"
    from comp_of_linked [OF this] show "?K = ?L" unfolding ctx [OF nodes(1), symmetric] ctx [OF nodes(2), symmetric] by simp
  next
    assume "?K = ?L"
    then have "cr_actor_node (alert_row T a) \<in> (!) ?nodes ` comp_of (length ?nodes) (edges_of ?X is) ?v"
      unfolding ctx [OF nodes(2)] using cluster_self by blast
    then obtain w where w: "w < length ?nodes" "linked (edges_of ?X is) w ?v" "?nodes ! w = ?nodes ! ?u"
      using pu(3) by (auto simp: comp_of_def)
    then have "w = ?u" using pu(2) topology_nodes_facts(1) [of ?rows] by (simp add: nth_eq_iff_index_eq)
    with w(2) show "linked (edges_of ?X is) ?u ?v" by simp
  qed
  have "component_pair T batch a"
    unfolding component_pair_def Let_def same [symmetric] using K L c(3,4) same by auto
  with row show ?thesis by (elim conjE) (intro conjI)
qed (use run batch in auto)

end
