(* ===== verification/TopologyClaims.thy ===== *)
theory TopologyClaims
  imports TopologyClusters
begin

text \<open>
  What the causal topology of validated rows is: every decision once, in batches of equal time, with the
  components that were visible strictly before it; and how building it can fail.
\<close>

section \<open>A concrete topology\<close>

text \<open>The resource caps, compared as integers: evaluation then stays with binary numerals.\<close>

lemma caps_int [code_unfold]:
  "max_interval_refs < n \<longleftrightarrow> (4000000::int) < int n"
  "max_grouping_rows < n \<longleftrightarrow> (100000::int) < int n"
  "n \<le> bitset_limit \<longleftrightarrow> int n \<le> 4096"
  "max_membership < n \<longleftrightarrow> (5000000::int) < int n"
  "n < dec_limit \<longleftrightarrow> int n < 10 ^ 28"
  "length s \<le> 4096 \<longleftrightarrow> int (length s) \<le> 4096"
  by (simp_all add: max_interval_refs_def max_grouping_rows_def bitset_limit_def max_membership_def dec_limit_def)

definition demo_row :: "string \<Rightarrow> string \<Rightarrow> int \<Rightarrow> int \<Rightarrow> observed" where
  "demo_row i actor available decision =
     \<lparr>ob_event_id = i, ob_payment_id = i, ob_rail = Card, ob_event_type = Authorization,
       ob_amount = Dec False 10 0, ob_currency = ''EUR'', ob_event_time = utc_at available,
       ob_available_at = utc_at available, ob_decision_at = Some (utc_at decision), ob_actor_id = actor,
       ob_counterparty_id = ''c'', ob_optional_refs = [], ob_integrity_status = ''not_applicable'',
       ob_integrity_reason = None, ob_is_decision_point = True\<rparr>"

definition demo_decision :: "string \<Rightarrow> defense_decision" where
  "demo_decision i =
     \<lparr>dd_event_id = i, dd_action = Challenge, dd_score = Fin 1, dd_rule_score = Fin 1, dd_calibrated_score = None,
       dd_reason_codes = [], dd_evidence_source_ids = [], dd_fallback_used = False, dd_fallback_reason = None,
       dd_failed_component_version = None, dd_latency_ms = Fin 0, dd_policy_version = ''1.0.0''\<rparr>"

definition demo_rows :: "observed list" where
  "demo_rows = [demo_row ''e1'' ''a'' 100 200, demo_row ''e2'' ''b'' 150 300]"

definition demo_decisions :: "defense_decision list" where
  "demo_decisions = [demo_decision ''e1'', demo_decision ''e2'']"

lemma demo_validated: "validated_rows demo_rows demo_decisions (utc_at 1000) = Inr (demo_rows, demo_decisions)"
proof -
  have "validated_rows demo_rows demo_decisions (utc_at 1000) \<noteq> Inl e" for e
  proof -
    have "case validated_rows demo_rows demo_decisions (utc_at 1000) of Inr _ \<Rightarrow> True | Inl _ \<Rightarrow> False" by code_simp
    then show ?thesis by (auto split: sum.splits)
  qed
  then obtain os ds where r: "validated_rows demo_rows demo_decisions (utc_at 1000) = Inr (os, ds)"
    by (cases "validated_rows demo_rows demo_decisions (utc_at 1000)") auto
  then show ?thesis using validated_rows_facts(1,2) [OF r] by simp
qed

text \<open>Each decision sees the other row, whose actor is connected to the common counterparty.\<close>

lemma demo_topology:
  "case build_causal_topology demo_rows demo_decisions of Inl _ \<Rightarrow> False
   | Inr T \<Rightarrow> map (\<lambda>b. map (\<lambda>a. map cm_entity_count (al_components a)) (cb_alerts b)) (ct_batches T) = [[[1, 2]], [[2, 1]]]"
  by code_simp

lemma demo_built: obtains T batch a where "build_causal_topology demo_rows demo_decisions = Inr T"
  "batch \<in> set (ct_batches T)" "a \<in> set (cb_alerts batch)"
proof -
  from demo_topology obtain T where T: "build_causal_topology demo_rows demo_decisions = Inr T"
    "map (\<lambda>b. map (\<lambda>a. map cm_entity_count (al_components a)) (cb_alerts b)) (ct_batches T) = [[[1, 2]], [[2, 1]]]"
    by (cases "build_causal_topology demo_rows demo_decisions") auto
  then obtain b bs where b: "ct_batches T = b # bs" "map (\<lambda>a. map cm_entity_count (al_components a)) (cb_alerts b) = [[1, 2]]"
    by (cases "ct_batches T") auto
  then obtain a as where "cb_alerts b = a # as" by (cases "cb_alerts b") auto
  with T b show thesis using that [of T b a] by simp
qed

section \<open>Components\<close>

text \<open>C4. For every alert of the causal topology built from validated rows: its row is the one its decision is
  about, and its components are exactly the connected components of that row's actor and counterparty in the
  graph of the rows that were available strictly before the decision and not decided with it (one component if
  both lie in the same one). Each carries the least node, the number of nodes, the decisions of strictly
  earlier batches that touch it, the least event identifier and the latest evidence of its rows, and their
  total value, exact as long as 28 digits suffice. The segment tree, the union-find and its rollback therefore
  compute what a search of the graph for each decision would.\<close>
theorem topology_exact:
  assumes "validated_rows observations decisions as_of = Inr (os, ds)" and "build_causal_topology os ds = Inr T"
    and "batch \<in> set (ct_batches T)" and "a \<in> set (cb_alerts batch)"
  shows "al_row_position a < length (ct_rows T) \<and> cr_event_id (alert_row T a) = al_event_id a \<and> component_pair T batch a"
  by (rule topology_components [OF validated_inputs [OF assms(1)] assms(2-4)])

theorem topology_exact_witness:
  "\<exists>T. build_causal_topology demo_rows demo_decisions = Inr T \<and>
     (\<exists>batch \<in> set (ct_batches T). \<exists>a \<in> set (cb_alerts batch). component_pair T batch a)"
proof -
  obtain T batch a where t: "build_causal_topology demo_rows demo_decisions = Inr T"
    "batch \<in> set (ct_batches T)" "a \<in> set (cb_alerts batch)" by (rule demo_built)
  show ?thesis using topology_exact [OF demo_validated t] t by blast
qed

section \<open>Batches and errors\<close>

definition topology_listing :: "observed list \<Rightarrow> defense_decision list \<Rightarrow> causal_topology \<Rightarrow> bool" where
  "topology_listing os ds T \<longleftrightarrow>
     (\<exists>ordered. order_decisions os ds = Inr ordered \<and> mset (map snd ordered) = mset ds \<and>
       sorted (map decision_order ordered) \<and> ct_decision_count T = length ds \<and>
       map (\<lambda>a. (al_decision_position a, al_event_id a, al_score a)) (concat (map cb_alerts (ct_batches T))) =
         map (\<lambda>p. (p, dd_event_id (snd (ordered ! p)), dd_score (snd (ordered ! p)))) [0..<length ds] \<and>
       sorted_wrt (<) (map (instant \<circ> cb_decision_at) (ct_batches T)) \<and>
       (\<forall>batch \<in> set (ct_batches T). cb_alerts batch \<noteq> [] \<and>
          (\<forall>a \<in> set (cb_alerts batch). instant (fst (ordered ! al_decision_position a)) = instant (cb_decision_at batch))))"

lemma built_alerts:
  assumes "list_all2 (alert_ok X pos bits es h) ps as"
  shows "map (\<lambda>a. (al_decision_position a, al_event_id a, al_score a)) as =
    map (\<lambda>p. (p, dd_event_id (snd (tc_ordered X ! p)), dd_score (snd (tc_ordered X ! p)))) ps"
  using assms by (induction rule: list_all2_induct) (auto simp: alert_ok_def Let_def)

lemma topology_lists:
  assumes inputs: "inputs_ok os ds" and run: "build_causal_topology os ds = Inr T"
  shows "topology_listing os ds T"
  using inputs
proof (cases rule: build_topology_cases)
  case (built ordered decided iv T')
  have T: "T' = T" using built(6) run by simp
  note built = built [unfolded T]
  let ?X = "built_context (causal_rows os) ordered iv" and ?batches = "raw_batches 0 ordered"
  let ?entry = "\<lambda>p. (p, dd_event_id (snd (ordered ! p)), dd_score (snd (ordered ! p)))"
  let ?key = "\<lambda>a. (al_decision_position a, al_event_id a, al_score a)"
  have X: "tc_ordered ?X = ordered" "tc_batches ?X = ?batches" by (simp_all add: built_context_def)
  have B: "batched ordered ?batches" using built(2) by (simp add: batched_def)
  have each: "cb_decision_at (ct_batches T ! b) = fst (?batches ! b)" "map ?key (cb_alerts (ct_batches T ! b)) = map ?entry (snd (?batches ! b))"
    if b: "b < length ?batches" for b
  proof -
    from built(12) b built(10) obtain "is" where bb: "batch_built ?X
        (pos_at (topology_nodes (causal_rows os)) (positions_by_node (topology_nodes (causal_rows os)) decided))
        (ct_uses_bitsets T) (edges_of ?X is) b (ct_batches T ! b)" by auto
    show "cb_decision_at (ct_batches T ! b) = fst (?batches ! b)" using bb by (simp add: batch_built_def X)
    show "map ?key (cb_alerts (ct_batches T ! b)) = map ?entry (snd (?batches ! b))"
      using built_alerts [OF conjunct2 [OF bb [unfolded batch_built_def]]] by (simp add: X)
  qed
  have len: "length ordered = length ds" using arg_cong [OF built(3), of size] by simp
  have "map (map ?key \<circ> cb_alerts) (ct_batches T) = map (map ?entry \<circ> snd) ?batches"
    by (rule nth_equalityI) (simp_all add: built(10) each(2))
  from arg_cong [OF this, of concat] have "map ?key (concat (map cb_alerts (ct_batches T))) = map ?entry (concat (map snd ?batches))"
    by (simp add: map_concat)
  then have all: "map ?key (concat (map cb_alerts (ct_batches T))) = map ?entry [0..<length ds]"
    by (simp add: batched_times(4) [OF B] len)
  have "map (instant \<circ> cb_decision_at) (ct_batches T) = map (instant \<circ> fst) ?batches"
    by (rule nth_equalityI) (simp_all add: built(10) each(1))
  then have times: "sorted_wrt (<) (map (instant \<circ> cb_decision_at) (ct_batches T))" using batched_times(1) [OF B] by simp
  have batch: "cb_alerts batch \<noteq> [] \<and>
      (\<forall>a \<in> set (cb_alerts batch). instant (fst (ordered ! al_decision_position a)) = instant (cb_decision_at batch))"
    if "batch \<in> set (ct_batches T)" for batch
  proof -
    from that obtain b where b: "b < length ?batches" "batch = ct_batches T ! b" using built(10) by (auto simp: in_set_conv_nth)
    note e = each [OF b(1), folded b(2)]
    have "cb_alerts batch \<noteq> []" using arg_cong [OF e(2), of length] batch_nonempty(1) [OF B b(1)] by auto
    moreover have "instant (fst (ordered ! al_decision_position a)) = instant (cb_decision_at batch)" if a: "a \<in> set (cb_alerts batch)" for a
    proof -
      have "?key a \<in> set (map ?entry (snd (?batches ! b)))" unfolding e(2) [symmetric] unfolding set_map using a by (rule imageI)
      then have "al_decision_position a \<in> set (snd (?batches ! b))" by auto
      from batch_time(2) [OF B b(1) this] show ?thesis by (simp add: e(1) time_of_def)
    qed
    ultimately show ?thesis by blast
  qed
  have "sorted (map decision_order ordered)" using built(2) by (simp add: ordered_ok_def)
  with built(1,3,8) len all times batch show ?thesis unfolding topology_listing_def by auto
next
  case empty
  then have T: "T = \<lparr>ct_rows = causal_rows os, ct_batches = [], ct_decision_count = 0, ct_uses_bitsets = True\<rparr>" using run by simp
  show ?thesis unfolding topology_listing_def T using empty(1) by (intro exI [of _ "[]"]) (simp add: order_decisions_def)
qed (use run in simp_all)

text \<open>C24. Every decision is an alert of the topology exactly once: the alerts of all batches in order are the
  decisions in order of their time and identifier, with their identifiers and scores, batches are nonempty, have
  strictly increasing times, and hold decisions of that time only.\<close>
theorem topology_complete:
  assumes "validated_rows observations decisions as_of = Inr (os, ds)" and "build_causal_topology os ds = Inr T"
  shows "topology_listing os ds T"
  by (rule topology_lists [OF validated_inputs [OF assms(1)] assms(2)])

theorem topology_complete_witness:
  "\<exists>T. build_causal_topology demo_rows demo_decisions = Inr T \<and> topology_listing demo_rows demo_decisions T"
proof -
  obtain T batch a where t: "build_causal_topology demo_rows demo_decisions = Inr T"
    "batch \<in> set (ct_batches T)" "a \<in> set (cb_alerts batch)" by (rule demo_built)
  show ?thesis using topology_complete [OF demo_validated t(1)] t(1) by blast
qed



end
