(* ===== verification/Spec2Isabelle.thy ===== *)
theory Spec2Isabelle
  imports A2AProperties AgenticProperties FeatureClaims QueueClaims TopologyClaims
begin

text \<open>
  The core of APAR, the Adaptive Payment Assurance Range: a deterministic simulator that replays
  payments on three rails over one double-entry ledger, the trust verifier that decides whether an
  agent's signed payment request may move value, and the defender's side: causal features of the observed
  payments, the causal topology by which alerts are grouped into cases, and the queue that reviews the
  cases. All paths are under \<open>src/apar/\<close>.

  \<^bold>\<open>How the parts interact.\<close> \<open>SimulationEngine\<close> (\<open>simulator/engine.py\<close>) owns a clock of
  scheduled commands (\<open>simulator/clock.py\<close>), a ledger (\<open>simulator/ledger.py\<close>), a store of frozen entity
  states and the event history. \<open>run\<close> pops the due commands and hands each to the rail adapter of the
  scenario, which reads and writes the store, posts to the ledger and returns events; the engine checks
  and appends them. The card and A2A adapters (\<open>simulator/rails/card.py\<close>, \<open>a2a.py\<close>) are state machines
  that commit every step to a hash chain in the store. The agentic adapter (\<open>agentic.py\<close>) loads the
  store into a \<open>TrustVerifier\<close> (\<open>trust/verifier.py\<close>), decides by a two-phase preview and commit around
  a risk scorer, and moves value only between the two phases. The defender sees payment events as
  \<open>ObservedEvent\<close> (\<open>defense/contracts.py\<close>). \<open>CausalFeatureState\<close> (\<open>features/state.py\<close>) turns a stream of
  them into feature vectors by the catalog (\<open>features/catalog.py\<close>); \<open>cases/grouping.py\<close> takes the
  observations and the decisions on them and builds a topology of what was visible before each decision;
  \<open>cases/queue.py\<close> schedules investigation cases for a fixed number of analysts.

  \<^bold>\<open>Theories.\<close>
  \<^item> \<open>Prelude\<close>: exceptions as values of \<open>exn\<close>, results \<open>'a res\<close> (\<open>Inl\<close> raises), actions
    \<open>('s, 'a) act\<close> that keep the state an exception leaves behind, association lists for \<open>dict\<close>, and the
    interface \<open>min_queue\<close> of \<open>heapq\<close>. The collection \<open>res_simps\<close> carries the proofs.
  \<^item> \<open>PyText\<close>, \<open>PyDecimal\<close>, \<open>PyTime\<close>, \<open>PyUuid\<close>, \<open>PyValue\<close>, \<open>Sha256\<close>: what the program uses of the
    Python standard library: numerals, \<open>json.dumps\<close> of string lists and that it is injective, decimals
    in the default 28-digit context, \<open>datetime\<close>, \<open>uuid.UUID\<close>, dynamic values, SHA-256 over 32-bit words.
  \<^item> \<open>Ledger\<close>: \<open>ledger_open\<close>, \<open>ledger_post\<close>, \<open>ledger_balance\<close>, \<open>assert_conserved\<close>; the interface
    \<open>double_entry\<close> and the properties of posted sequences.
  \<^item> \<open>Clock\<close>, \<open>Contracts\<close>, \<open>Engine\<close>, \<open>EngineProperties\<close>: commands, the clock, the validators of
    \<open>contracts/\<close>, the engine's state record and one definition per method; \<open>rail_adapter\<close> is what a
    callback may do (\<open>callback_frame\<close>), \<open>session\<close> the states that public calls lead to.
  \<^item> \<open>Lifecycle\<close>, \<open>RailFields\<close>, \<open>RailContract\<close>, \<open>RailMoney\<close>, \<open>RailRuns\<close>: the code that card and A2A
    repeat, as definitions over a record of what differs (\<open>lifecycle\<close>), and the contracts
    \<open>lifecycle_rail\<close> (table, store, retries), \<open>priced_rail\<close> (the position of each state in the ledger)
    and \<open>quiet_adapter\<close> (runs end), whose lemmas are proved once.
  \<^item> \<open>CardRail\<close>, \<open>CardProperties\<close>, \<open>A2ARail\<close>, \<open>A2AProperties\<close>: the tables, commands, effects and
    stored payments of each rail, the interpretations of the contracts and the properties.
  \<^item> \<open>Trust\<close>, \<open>TrustVerifier\<close>, \<open>TrustState\<close>, \<open>TrustProtocol\<close>, \<open>TrustProperties\<close>, \<open>TrustClaims\<close>:
    the data and constructors of the verifier, its methods, the invariant of its state, the abstract
    condition \<open>authorized\<close> that the ordered checks decide, its sessions and properties.
  \<^item> \<open>Agentic\<close>, \<open>AgenticState\<close>, \<open>AgenticRail\<close>, \<open>AgenticProperties\<close>: the agentic adapter, the
    request that a command carries, what one command does to engine and verifier together, and the
    interpretation of the adapter as a \<open>quiet_adapter\<close>.
  \<^item> \<open>Observed\<close>, \<open>PyFloat\<close>, \<open>FloatBounds\<close>: observed events and the feature catalog with its audit;
    Python's \<open>float\<close> as rationals rounded to binary64, and when a rounded quotient compares as its
    integers do.
  \<^item> \<open>FeatureState\<close>, \<open>Features\<close>, \<open>FeatureFrames\<close>, \<open>FeatureTotal\<close>, \<open>FeatureSplit\<close>, \<open>FeatureRuns\<close>,
    \<open>FeatureSessions\<close>, \<open>FeatureMatrix\<close>, \<open>FeatureClaims\<close>: the state of \<open>CausalFeatureState\<close>, the 48
    features and \<open>process\<close>; its invariant, when a call cannot fail, calls in parts, series of calls
    (\<open>feature_session\<close>), the one-shot matrix, and the properties.
  \<^item> \<open>Cases\<close>, \<open>CaseQueue\<close>, \<open>QueueSchedule\<close>, \<open>QueueRuns\<close>, \<open>QueueClaims\<close>: cases and their validators,
    \<open>simulate_case_queue\<close>, its schedule by slots, its backlog, its report and the properties.
  \<^item> \<open>RollbackDsu\<close>, \<open>DsuComponents\<close>: \<open>_RollbackTopologyDsu\<close> and the invariant \<open>dsu_ok\<close> that relates the
    forest to the graph of the rows added to it.
  \<^item> \<open>CausalTopology\<close>, \<open>CaseInputs\<close>: \<open>_build_causal_topology\<close> and \<open>_validated_rows\<close>. \<open>TopologyTree\<close>,
    \<open>TopologyVisit\<close>, \<open>TopologyBuild\<close>, \<open>TopologyClusters\<close>, \<open>TopologyClaims\<close>: batches and the segment tree
    over them, the traversal, the whole construction, its meaning in terms of nodes and rows
    (\<open>cluster\<close>, \<open>seen_by\<close>, \<open>describes\<close>) and the properties.
  \<^item> \<open>Examples\<close>, \<open>TrustExamples\<close>: concrete engines, commands and requests for the witnesses.

  \<^bold>\<open>What is proved.\<close> Ledger: accepted postings conserve value and never overdraw, identifiers are used
  once; and where the 28-digit context breaks the conservation audit. Clock: it drains in the order of
  time, priority and scheduling, and freezing a payload is idempotent. Engine: history order, replay of
  the serialized history, unique identifiers, failing closed (the operations that change the state or hand
  out stored entities and events; time, bundle and ledger stay readable), the outcomes of a run,
  conservation. Rails: a command follows the
  table, is carried out once, is atomic when it raises, keeps the store valid, ends its run, and moves
  the books by its position's change. Verifier: over sessions of its public methods (\<open>trust_session\<close>), a
  preview decides exactly \<open>authorized\<close>, an agent's nonce is not allowed again unless another state is loaded,
  evidence and plans are used once, the recorded receipts form a chain, the dumped state loads back. A
  session may present any request and receipt to \<open>prepare_commit\<close> and \<open>commit\<close>; since the verifier recognises
  the previewed request by SHA-256, the relation excludes a request that collides with it
  (\<open>no_collision\<close>), and nothing else is assumed of the hash.
  Agentic rail: value moves only for an authorized and approved request and by exactly its amount, a
  request is committed once over any later commands, a run keeps the stored trust state sound, an
  authorized payment is carried out, and a command gives back the request it was built from.
  Features: every known decision gets one vector from sources available strictly before it, a stream may
  be cut into calls, a call that raises changes nothing, a matrix depends on the set of rows only; and
  where a decision is counted in its own history. Queue: the schedule fills slots in canonical order
  without idle analysts, breaches are exact despite the rounded wait, later cases do not disturb earlier
  ones, a report exists and reads back. Topology: every alert carries exactly the connected components of
  its nodes among the rows available strictly before its batch, with their aggregates, every decision is
  an alert once, and the construction ends with a topology or an error of its two resource caps.

  \<^bold>\<open>Correspondence and parameters.\<close> A method is a definition of the same name, prefixed by its component.
  Exceptions are \<open>Inl\<close>; texts of messages are kept where the code compares or wraps them. Strings are lists
  of 8-bit characters, so code points above 255 are not represented. A \<open>dict\<close> is an association list in
  insertion order. Object identity in the verifier's capabilities is a fresh number of that verifier, so no
  statement spans two verifiers. Parameters, as code
  outside the repository: pydantic's dump and load of events and bundles (record \<open>pydantic\<close>, relied on
  through \<open>json_stable\<close>), the bytes of NumPy's generator, Ed25519 (record \<open>ed25519\<close>), the risk scorer,
  the functions of \<open>math\<close> whose results no standard fixes (record \<open>libm\<close>), the canonical JSON of the
  catalog, and the JSON codec of queue reports (record \<open>queue_codec\<close>). Grouping and queue check exact
  types first; these are the types of the model.

  \<^bold>\<open>Loops.\<close> \<open>run_loop\<close> is a \<open>partial_function\<close> into \<open>option\<close>, because an adapter that keeps scheduling
  need not stop; that it returns for the rails is proved. The search for a root in \<open>dsu_find\<close> is a
  \<open>while_option\<close> whose divergence is the value \<open>NoReturn\<close>; that this never happens on validated rows is
  proved. \<open>reach\<close>, \<open>cohorts\<close>, \<open>backlog_loop\<close>, \<open>raw_batches\<close>, \<open>add_interval_loop\<close>, \<open>rollback\<close> and \<open>visit\<close>
  are recursive functions with termination proofs, the other loops are structural; no definition has fuel.
  Bounds: 28 decimal digits (\<open>dec_limit\<close>), 48 bits of event sequence, 128-bit UUIDs, and the resource caps
  of the grouping (\<open>max_interval_refs\<close>, \<open>max_membership\<close>, \<open>bitset_limit\<close>, \<open>max_grouping_rows\<close>).

  \<^bold>\<open>Not modelled.\<close> Pydantic coercion and JSON; the callback scope that revokes a context kept after its
  callback, the registry of live adapters and the NumPy random capability of the engine; checkpoints of
  the feature state; the case engine that runs over the topology, its priority and its counter; generators,
  storage, run execution, defense training and scoring, evaluation protocols, red team, API and
  evidence verifiers, which are file, process and floating-point code around this core; subclass checks
  against values that Python's typing already excludes (a \<open>Command\<close> whose payload is not its own
  mapping proxy).
\<close>

end
